(* ===== verification/Prelude.thy ===== *)
theory Prelude
  imports Main "HOL-Library.List_Lexorder" "HOL-Library.Product_Lexorder" "HOL-Library.Sublist"
begin

text \<open>
  What the components share: Rust strings, ordered maps and sets, and the few
  standard-library operations the code calls on them.

  A Rust \<open>String\<close> is the list of its Unicode scalar values (\<open>ustring\<close>), so that
  \<open>chars()\<close> is the list itself, while \<open>len()\<close> and byte offsets go through the UTF-8
  width of each scalar value (\<open>byte_len\<close>, \<open>byte_suffix\<close>). The byte order of Rust
  strings is the lexicographic order of their scalar values, which is the library's
  order on lists.

  A \<open>BTreeMap\<close> is the list of its entries in iteration order, a \<open>BTreeSet\<close> the list of
  its elements; \<open>btree_ok\<close> says that keys increase strictly. \<open>usize\<close> values that only
  count list elements are natural numbers.
\<close>

named_theorems str_simps \<open>laws of the string operations\<close>
named_theorems btree_simps \<open>laws of ordered maps and sets\<close>

section \<open>Strings\<close>

type_synonym uchar = nat
type_synonym ustring = "uchar list"

text \<open>Literals of the source: \<open>ch\<close> a character, \<open>str\<close> a string, both ASCII.\<close>

definition ch :: "char \<Rightarrow> uchar" where
  "ch c = of_char c"

definition str :: "string \<Rightarrow> ustring" where
  "str s = map of_char s"

lemma str_inject [simp]: "str a = str b \<longleftrightarrow> a = b"
  unfolding str_def by (simp add: inj_map_eq_map inj_of_char)

lemma ch_inject [simp]: "ch a = ch b \<longleftrightarrow> a = b"
  unfolding ch_def by (simp add: inj_eq[OF inj_of_char])

lemma str_Nil [simp]: "str [] = []"
  by (simp add: str_def)

lemma str_Cons: "str (c # s) = ch c # str s"
  by (simp add: str_def ch_def)

lemma str_eq_Nil [simp]: "str s = [] \<longleftrightarrow> s = []"
  by (simp add: str_def)

lemma length_str [simp]: "length (str s) = length s"
  by (simp add: str_def)

text \<open>The number of bytes of a scalar value in UTF-8, and of a string (\<open>len()\<close>).\<close>

definition utf8_width :: "uchar \<Rightarrow> nat" where
  "utf8_width c = (if c < 128 then 1 else if c < 2048 then 2 else if c < 65536 then 3 else 4)"

definition byte_len :: "ustring \<Rightarrow> nat" where
  "byte_len s = sum_list (map utf8_width s)"

lemma byte_len_append [simp]: "byte_len (s @ t) = byte_len s + byte_len t"
  by (simp add: byte_len_def)

lemma byte_len_Nil [simp]: "byte_len [] = 0"
  by (simp add: byte_len_def)

lemma byte_len_Cons [simp]: "byte_len (c # s) = utf8_width c + byte_len s"
  by (simp add: byte_len_def)

lemma utf8_width_pos: "0 < utf8_width c"
  by (simp add: utf8_width_def)

text \<open>\<open>s.get(offset..)\<close>: no suffix past the end or inside a character.\<close>

fun byte_suffix :: "nat \<Rightarrow> ustring \<Rightarrow> ustring option" where
  "byte_suffix n [] = (if n = 0 then Some [] else None)"
| "byte_suffix n (c # s) =
     (if n = 0 then Some (c # s)
      else if n < utf8_width c then None
      else byte_suffix (n - utf8_width c) s)"

lemma byte_suffix_suffix: "byte_suffix n s = Some t \<Longrightarrow> suffix t s"
  by (induction n s rule: byte_suffix.induct) (auto simp: suffix_Cons split: if_splits)

text \<open>\<open>char::is_whitespace\<close>: the Unicode property White_Space.\<close>

definition is_whitespace :: "uchar \<Rightarrow> bool" where
  "is_whitespace c \<longleftrightarrow>
     (9 \<le> c \<and> c \<le> 13) \<or> c = 32 \<or> c = 133 \<or> c = 160 \<or> c = 5760 \<or>
     (8192 \<le> c \<and> c \<le> 8202) \<or> c = 8232 \<or> c = 8233 \<or> c = 8239 \<or> c = 8287 \<or> c = 12288"

definition is_ascii_digit :: "uchar \<Rightarrow> bool" where
  "is_ascii_digit c \<longleftrightarrow> 48 \<le> c \<and> c \<le> 57"

definition is_ascii_alphabetic :: "uchar \<Rightarrow> bool" where
  "is_ascii_alphabetic c \<longleftrightarrow> (65 \<le> c \<and> c \<le> 90) \<or> (97 \<le> c \<and> c \<le> 122)"

definition is_ascii_alphanumeric :: "uchar \<Rightarrow> bool" where
  "is_ascii_alphanumeric c \<longleftrightarrow> is_ascii_alphabetic c \<or> is_ascii_digit c"

definition strip_prefix :: "ustring \<Rightarrow> ustring \<Rightarrow> ustring option" where
  "strip_prefix p s = (if prefix p s then Some (drop (length p) s) else None)"

text \<open>
  \<open>s.find(p)\<close> together with the slice behind the match: what is left after the first
  occurrence of \<open>p\<close>.
\<close>

fun after_first :: "ustring \<Rightarrow> ustring \<Rightarrow> ustring option" where
  "after_first p [] = (if p = [] then Some [] else None)"
| "after_first p (c # s) =
     (if prefix p (c # s) then Some (drop (length p) (c # s)) else after_first p s)"

text \<open>\<open>s.split(f)\<close> for a character predicate: never empty.\<close>

fun split_on :: "('a \<Rightarrow> bool) \<Rightarrow> 'a list \<Rightarrow> 'a list list" where
  "split_on f [] = [[]]"
| "split_on f (c # s) =
     (if f c then [] # split_on f s
      else (case split_on f s of [] \<Rightarrow> [[c]] | w # ws \<Rightarrow> (c # w) # ws))"

text \<open>\<open>str::trim\<close>.\<close>

definition trim :: "ustring \<Rightarrow> ustring" where
  "trim s = rev (dropWhile is_whitespace (rev (dropWhile is_whitespace s)))"

text \<open>The first item of \<open>split_whitespace()\<close>.\<close>

definition first_word :: "ustring \<Rightarrow> ustring option" where
  "first_word s =
     (let t = takeWhile (\<lambda>c. \<not> is_whitespace c) (dropWhile is_whitespace s)
      in if t = [] then None else Some t)"

text \<open>\<open>s.rsplit(c).next()\<close>: what follows the last \<open>c\<close>, all of \<open>s\<close> without one.\<close>

definition after_last :: "uchar \<Rightarrow> ustring \<Rightarrow> ustring" where
  "after_last c s = rev (takeWhile (\<lambda>d. d \<noteq> c) (rev s))"

fun join :: "ustring \<Rightarrow> ustring list \<Rightarrow> ustring" where
  "join sep [] = []"
| "join sep [w] = w"
| "join sep (w # v # ws) = w @ sep @ join sep (v # ws)"

text \<open>Decimal rendering of a number (\<open>format!("{}")\<close>).\<close>

fun show_nat :: "nat \<Rightarrow> ustring" where
  "show_nat n = (if n < 10 then [48 + n] else show_nat (n div 10) @ [48 + n mod 10])"

declare show_nat.simps [simp del]

lemma split_on_ne [simp]: "split_on f s \<noteq> []"
  by (induction s) (auto split: list.splits)

lemma split_on_none: "\<forall>c \<in> set s. \<not> f c \<Longrightarrow> split_on f s = [s]"
  by (induction s) auto

lemma hd_split_on: "hd (split_on f s) = takeWhile (\<lambda>c. \<not> f c) s"
proof (induction s)
  case (Cons c s)
  then show ?case by (cases "split_on f s") auto
qed simp

lemma split_on_single: "split_on f s = [w] \<longleftrightarrow> w = s \<and> (\<forall>c \<in> set s. \<not> f c)"
proof (induction s arbitrary: w)
  case (Cons c s)
  obtain x xs where "split_on f s = x # xs" by (cases "split_on f s") auto
  with Cons[of x] split_on_none[of s f] show ?case by (auto split: if_splits)
qed auto

lemma last_split_on: "last (split_on f s) = [] \<longleftrightarrow> s = [] \<or> f (last s)"
proof (induction s)
  case (Cons c s)
  obtain x xs where split: "split_on f s = x # xs" by (cases "split_on f s") auto
  show ?case
  proof (cases "s = []")
    case False
    show ?thesis
    proof (cases "xs = []")
      case True
      with split have "\<forall>c \<in> set s. \<not> f c" by (simp add: split_on_single)
      with Cons split True False show ?thesis by auto
    next
      case False
      with Cons split \<open>s \<noteq> []\<close> show ?thesis by auto
    qed
  qed simp
qed simp

lemma after_first_Some: "after_first p s = Some t \<Longrightarrow> \<exists>a. s = a @ p @ t"
proof (induction p s rule: after_first.induct)
  case (1 p)
  then show ?case by (auto split: if_splits)
next
  case (2 p c s)
  show ?case
  proof (cases "prefix p (c # s)")
    case True
    with 2(2) show ?thesis
      by (intro exI[of _ "[]"]) (auto simp: prefix_def)
  next
    case False
    with 2 obtain a where "s = a @ p @ t" by auto
    then show ?thesis by (intro exI[of _ "c # a"]) simp
  qed
qed

lemma after_first_append: "\<exists>t'. after_first p (a @ p @ t) = Some (t' @ t)"
proof (induction a)
  case Nil
  show ?case
  proof (cases "p @ t")
    case Nil
    then show ?thesis by simp
  next
    case (Cons c s)
    then have "prefix p (c # s)" and "drop (length p) (c # s) = t"
      by (metis prefixI, metis append_eq_conv_conj)
    with Cons show ?thesis by simp
  qed
next
  case (Cons c a)
  show ?case
  proof (cases "prefix p (c # a @ p @ t)")
    case True
    have "\<exists>t'. drop (length p) (c # a @ p @ t) = t' @ t"
    proof -
      have "length p \<le> length (c # a @ p)" by simp
      then have "drop (length p) ((c # a @ p) @ t) = drop (length p) (c # a @ p) @ t"
        by (simp del: append_Cons)
      then show ?thesis by (metis append.assoc append_Cons)
    qed
    with True show ?thesis by simp
  next
    case False
    with Cons show ?thesis by simp
  qed
qed

lemma strip_prefix_Some: "strip_prefix p s = Some t \<longleftrightarrow> s = p @ t"
  by (auto simp: strip_prefix_def prefix_def)

lemma strip_prefix_append [simp]: "strip_prefix p (p @ t) = Some t"
  by (simp add: strip_prefix_Some)

lemma first_word_not_whitespace: "first_word s = Some w \<Longrightarrow> c \<in> set w \<Longrightarrow> \<not> is_whitespace c"
  by (auto simp: first_word_def Let_def split: if_splits dest: set_takeWhileD)

lemmas str_basic = str_Cons str_def ch_def

section \<open>Ordered maps and sets\<close>

type_synonym ('k, 'v) btree = "('k \<times> 'v) list"

definition btree_ok :: "('k::linorder, 'v) btree \<Rightarrow> bool" where
  "btree_ok m \<longleftrightarrow> sorted_wrt (<) (map fst m)"

definition bt_get :: "('k, 'v) btree \<Rightarrow> 'k \<Rightarrow> 'v option" where
  "bt_get m k = map_of m k"

fun bt_insert :: "'k::linorder \<Rightarrow> 'v \<Rightarrow> ('k, 'v) btree \<Rightarrow> ('k, 'v) btree" where
  "bt_insert k v [] = [(k, v)]"
| "bt_insert k v ((k', v') # m) =
     (if k < k' then (k, v) # (k', v') # m
      else if k = k' then (k, v) # m
      else (k', v') # bt_insert k v m)"

definition bt_from :: "('k::linorder \<times> 'v) list \<Rightarrow> ('k, 'v) btree" where
  "bt_from xs = fold (\<lambda>(k, v). bt_insert k v) xs []"

lemma set_fst_bt_insert [btree_simps]: "fst ` set (bt_insert k v m) = insert k (fst ` set m)"
  by (induction k v m rule: bt_insert.induct) auto

lemma bt_insert_ok: "btree_ok m \<Longrightarrow> btree_ok (bt_insert k v m)"
proof (induction k v m rule: bt_insert.induct)
  case (2 k v k' v' m)
  have keys: "set (map fst (bt_insert k v m)) = insert k (set (map fst m))"
    using set_fst_bt_insert [of k v m] by simp
  from 2 keys show ?case
    by (auto simp: btree_ok_def simp del: set_map intro: order.strict_trans)
qed (simp add: btree_ok_def)

lemma bt_get_insert [btree_simps]:
  "btree_ok m \<Longrightarrow> bt_get (bt_insert k v m) j = (if j = k then Some v else bt_get m j)"
proof (induction k v m rule: bt_insert.induct)
  case (2 k v k' v' m)
  then show ?case by (auto simp: btree_ok_def bt_get_def)
qed (simp add: bt_get_def)

lemma btree_ok_Nil [simp]: "btree_ok []"
  by (simp add: btree_ok_def)

lemma bt_from_ok: "btree_ok (bt_from xs)"
proof -
  have "btree_ok m \<Longrightarrow> btree_ok (fold (\<lambda>(k, v). bt_insert k v) xs m)" for m
    by (induction xs arbitrary: m) (auto intro: bt_insert_ok)
  then show ?thesis by (simp add: bt_from_def)
qed

lemma btree_ok_distinct: "btree_ok m \<Longrightarrow> distinct (map fst m)"
  unfolding btree_ok_def by (simp add: strict_sorted_iff)

text \<open>\<open>BTreeSet::insert\<close> on the sorted list of elements.\<close>

fun bs_insert :: "'a::linorder \<Rightarrow> 'a list \<Rightarrow> 'a list" where
  "bs_insert x [] = [x]"
| "bs_insert x (y # ys) =
     (if x < y then x # y # ys else if x = y then y # ys else y # bs_insert x ys)"

definition bs_from :: "'a::linorder list \<Rightarrow> 'a list" where
  "bs_from xs = fold bs_insert xs []"

lemma set_bs_insert [simp, btree_simps]: "set (bs_insert x xs) = insert x (set xs)"
  by (induction x xs rule: bs_insert.induct) auto

lemma bs_insert_sorted: "sorted_wrt (<) xs \<Longrightarrow> sorted_wrt (<) (bs_insert x xs)"
  by (induction x xs rule: bs_insert.induct) (auto intro: order.strict_trans)

lemma set_bs_from [simp, btree_simps]: "set (bs_from xs) = set xs"
proof -
  have "set (fold bs_insert xs ys) = set xs \<union> set ys" for ys
    by (induction xs arbitrary: ys) auto
  then show ?thesis by (simp add: bs_from_def)
qed

lemma bs_from_sorted: "sorted_wrt (<) (bs_from xs)"
proof -
  have "sorted_wrt (<) ys \<Longrightarrow> sorted_wrt (<) (fold bs_insert xs ys)" for ys
    by (induction xs arbitrary: ys) (auto intro: bs_insert_sorted)
  then show ?thesis by (simp add: bs_from_def)
qed

section \<open>Lists\<close>

text \<open>\<open>xs.get(i)\<close>.\<close>

fun get :: "'a list \<Rightarrow> nat \<Rightarrow> 'a option" where
  "get [] i = None"
| "get (x # xs) 0 = Some x"
| "get (x # xs) (Suc i) = get xs i"

lemma get_eq: "get xs i = (if i < length xs then Some (xs ! i) else None)"
  by (induction xs i rule: get.induct) auto

text \<open>\<open>iter().enumerate()\<close>.\<close>

definition enumerated :: "'a list \<Rightarrow> (nat \<times> 'a) list" where
  "enumerated xs = zip [0..<length xs] xs"

lemma set_enumerated: "(i, x) \<in> set (enumerated xs) \<longleftrightarrow> i < length xs \<and> xs ! i = x"
  by (auto simp: enumerated_def in_set_conv_nth)

text \<open>
  \<open>Iterator::max_by\<close>: of several greatest elements, the last one. \<open>le x y\<close> is
  \<open>cmp(x, y) \<noteq> Greater\<close>.
\<close>

definition last_max_by :: "('a \<Rightarrow> 'a \<Rightarrow> bool) \<Rightarrow> 'a list \<Rightarrow> 'a option" where
  "last_max_by le xs =
     (case xs of [] \<Rightarrow> None
      | x # ys \<Rightarrow> Some (fold (\<lambda>y best. if le best y then y else best) ys x))"

definition last_max_key :: "('a \<Rightarrow> 'k::linorder) \<Rightarrow> 'a list \<Rightarrow> 'a option" where
  "last_max_key f = last_max_by (\<lambda>x y. f x \<le> f y)"

lemma last_max_by_None [simp]: "last_max_by le xs = None \<longleftrightarrow> xs = []"
  by (simp add: last_max_by_def split: list.splits)

lemma last_max_key_None [simp]: "last_max_key f xs = None \<longleftrightarrow> xs = []"
  by (simp add: last_max_key_def)

lemma last_max_by_Nil [simp]: "last_max_by le [] = None"
  by (simp add: last_max_by_def)

lemma last_max_key_Nil [simp]: "last_max_key f [] = None"
  by (simp add: last_max_key_def)

text \<open>
  Any comparison that is total and transitive picks a greatest element of the list.
\<close>

lemma last_max_by_greatest:
  assumes total: "\<And>x y. le x y \<or> le y x"
    and trans: "\<And>x y z. le x y \<Longrightarrow> le y z \<Longrightarrow> le x z"
    and m: "last_max_by le xs = Some m"
  shows "m \<in> set xs \<and> (\<forall>x \<in> set xs. le x m)"
proof -
  have fold_max: "(let r = fold (\<lambda>y best. if le best y then y else best) ys x in
      (r = x \<or> r \<in> set ys) \<and> le x r \<and> (\<forall>y \<in> set ys. le y r))" for ys x
  proof (induction ys arbitrary: x)
    case Nil
    then show ?case using total by auto
  next
    case (Cons y ys)
    let ?b = "if le x y then y else x"
    have "le x ?b" and "le y ?b" using total by auto
    with Cons.IH[of ?b] show ?case
      by (auto simp: Let_def intro: trans)
  qed
  from m obtain x ys where "xs = x # ys"
    by (cases xs) (auto simp: last_max_by_def)
  with m fold_max[of ys x] show ?thesis
    by (auto simp: last_max_by_def Let_def)
qed

lemma last_max_key_greatest:
  assumes "last_max_key f xs = Some m"
  shows "m \<in> set xs \<and> (\<forall>x \<in> set xs. f x \<le> f m)"
  using last_max_by_greatest[of "\<lambda>x y. f x \<le> f y" xs m] assms
  by (fastforce simp: last_max_key_def intro: order.trans)

section \<open>Fallible steps\<close>

definition ok_or :: "'e \<Rightarrow> 'a option \<Rightarrow> 'e + 'a" where
  "ok_or e x = (case x of None \<Rightarrow> Inl e | Some v \<Rightarrow> Inr v)"

lemma ok_or_Inr [simp]: "ok_or e x = Inr v \<longleftrightarrow> x = Some v"
  by (simp add: ok_or_def split: option.splits)

definition map_err :: "('e \<Rightarrow> 'f) \<Rightarrow> 'e + 'a \<Rightarrow> 'f + 'a" where
  "map_err f x = (case x of Inl e \<Rightarrow> Inl (f e) | Inr v \<Rightarrow> Inr v)"

text \<open>\<open>collect::<Result<Vec<_>, _>>()\<close>: the first error stops the traversal.\<close>

fun traverse :: "('a \<Rightarrow> 'e + 'b) \<Rightarrow> 'a list \<Rightarrow> 'e + 'b list" where
  "traverse f [] = Inr []"
| "traverse f (x # xs) =
     (case f x of Inl e \<Rightarrow> Inl e
      | Inr y \<Rightarrow> (case traverse f xs of Inl e \<Rightarrow> Inl e | Inr ys \<Rightarrow> Inr (y # ys)))"

lemma traverse_Inr: "traverse f xs = Inr ys \<longleftrightarrow> list_all2 (\<lambda>x y. f x = Inr y) xs ys"
proof (induction xs arbitrary: ys)
  case (Cons x xs)
  show ?case
  proof (cases "f x")
    case (Inr y)
    with Cons show ?thesis
      by (cases "traverse f xs") (auto simp: list_all2_Cons1)
  qed (simp add: list_all2_Cons1)
qed auto

end
