(* ===== verification/Shell_Models.thy ===== *)
theory Shell_Models
  imports Prelude "HOL-Library.Word"
begin

text \<open>
  The parser-independent contract of a shell analysis
  (\<open>packages/shell-command-analysis/models/src/lib.rs\<close>): spans, words, commands,
  redirections and the analysis result that the permission policy consumes. The parser
  itself is a third-party crate and stands outside the model: the policy is proved for
  every analysis value.

  Enum variants that would clash carry the name of their enum; \<open>u32\<close> and \<open>u16\<close> fields
  keep their width.
\<close>

type_synonym u16 = "16 word"
type_synonym u32 = "32 word"

definition SHELL_ANALYSIS_SCHEMA_VERSION :: u32 where
  "SHELL_ANALYSIS_SCHEMA_VERSION = 2"

datatype shell_dialect = Posix

record source_span =
  span_start :: u32
  span_end :: u32

definition span_new :: "u32 \<Rightarrow> u32 \<Rightarrow> source_span" where
  "span_new s e = \<lparr>span_start = s, span_end = e\<rparr>"

text \<open>\<open>saturating_sub\<close> and \<open>checked_sub\<close> on \<open>u32\<close>.\<close>

definition saturating_sub :: "u32 \<Rightarrow> u32 \<Rightarrow> u32" where
  "saturating_sub a b = (if b \<le> a then a - b else 0)"

definition checked_sub :: "u32 \<Rightarrow> u32 \<Rightarrow> u32 option" where
  "checked_sub a b = (if b \<le> a then Some (a - b) else None)"

definition span_len :: "source_span \<Rightarrow> u32" where
  "span_len s = saturating_sub (span_end s) (span_start s)"

definition span_is_empty :: "source_span \<Rightarrow> bool" where
  "span_is_empty s \<longleftrightarrow> span_end s \<le> span_start s"

record shell_analysis_limits =
  max_source_bytes :: u32
  max_nodes :: u32
  max_nesting_depth :: u16
  max_substitutions :: u16
  max_commands :: u32
  max_redirections :: u32

definition default_limits :: shell_analysis_limits where
  "default_limits = \<lparr>max_source_bytes = 256 * 1024, max_nodes = 16384, max_nesting_depth = 128,
     max_substitutions = 512, max_commands = 4096, max_redirections = 4096\<rparr>"

record shell_analysis_request =
  req_schema_version :: u32
  req_source :: ustring
  req_dialect :: shell_dialect
  req_limits :: shell_analysis_limits

definition posix_request :: "ustring \<Rightarrow> shell_analysis_request" where
  "posix_request source = \<lparr>req_schema_version = SHELL_ANALYSIS_SCHEMA_VERSION,
     req_source = source, req_dialect = Posix, req_limits = default_limits\<rparr>"

type_synonym shell_command_id = u32

datatype shell_command_relation =
    RootCommand | NestedCommand | CommandSubstitution | ProcessSubstitution | NestedShell

datatype argument_shape = One (one_prefix: ustring) (one_suffix: ustring) | Many

datatype expansion_kind =
    ParameterExpansion | CommandExpansion | ArithmeticExpansion | TildeExpansion
  | ProcessExpansion | PatternExpansion | UnsupportedExpansion

datatype shell_word =
    Static ustring source_span
  | Dynamic argument_shape "expansion_kind list" source_span

fun word_span :: "shell_word \<Rightarrow> source_span" where
  "word_span (Static v sp) = sp"
| "word_span (Dynamic sh es sp) = sp"

record shell_assignment =
  assign_name :: ustring
  assign_value :: shell_word
  assign_span :: source_span

record pipeline_position =
  pipe_index :: u16
  pipe_count :: u16
  pipe_negated :: bool

record shell_command_context =
  ctx_pipeline :: "pipeline_position option"
  ctx_conditional :: bool
  ctx_background :: bool
  ctx_loop_depth :: u16
  ctx_substitution_depth :: u16

datatype match_candidate_kind = OriginalCandidate | CanonicalCandidate | DomainAliasCandidate

record match_candidate =
  cand_subject :: ustring
  cand_kind :: match_candidate_kind
  cand_transformation :: "ustring option"

record shell_command =
  cmd_id :: shell_command_id
  cmd_parent_id :: "shell_command_id option"
  cmd_relation :: shell_command_relation
  cmd_span :: source_span
  cmd_source :: ustring
  cmd_executable :: shell_word
  cmd_arguments :: "shell_word list"
  cmd_assignments :: "shell_assignment list"
  cmd_context :: shell_command_context
  cmd_match_candidates :: "match_candidate list"

datatype redirection_kind =
    Input | OutputTruncate | OutputAppend | InputOutput | Duplicate | Close
  | HereDocument | HereString

record shell_redirection =
  redir_command_id :: "shell_command_id option"
  redir_kind :: redirection_kind
  redir_source_fd :: "u16 option"
  redir_target :: shell_word
  redir_static_path :: "ustring option"
  redir_span :: source_span

datatype analysis_limit_kind =
    LimitSourceBytes | LimitNodes | LimitNestingDepth | LimitSubstitutions
  | LimitCommands | LimitRedirections

datatype incomplete_reason =
    DynamicExecutable source_span
  | DynamicShellSource source_span
  | UnsupportedConstruct ustring "source_span option"
  | LimitExceeded analysis_limit_kind u32

datatype completeness = Complete | Incomplete "incomplete_reason list"

definition is_complete :: "completeness \<Rightarrow> bool" where
  "is_complete c \<longleftrightarrow> c = Complete"

record analysis_diagnostic =
  diag_code :: ustring
  diag_message :: ustring
  diag_span :: "source_span option"

record shell_analysis =
  an_schema_version :: u32
  an_dialect :: shell_dialect
  an_source :: ustring
  an_commands :: "shell_command list"
  an_redirections :: "shell_redirection list"
  an_completeness :: completeness
  an_diagnostics :: "analysis_diagnostic list"

datatype analysis_error_kind =
    UnsupportedSchema | UnsupportedDialect | SourceLimitExceeded | SyntaxError | ParserError

record shell_analysis_error =
  err_kind :: analysis_error_kind
  err_message :: ustring
  err_dialect :: shell_dialect
  err_span :: "source_span option"

lemma span_len_unat:
  "unat (span_len s) = unat (span_end s) - unat (span_start s)"
  by (simp add: span_len_def saturating_sub_def unat_sub word_le_nat_alt)

lemma span_is_empty_len: "span_is_empty s \<longleftrightarrow> span_len s = 0"
  by (auto simp: span_is_empty_def span_len_def saturating_sub_def)

lemma is_complete_simps [simp]:
  "is_complete Complete" "\<not> is_complete (Incomplete rs)"
  by (simp_all add: is_complete_def)

end
