(* ===== verification/Policy_Models.thy ===== *)
theory Policy_Models
  imports Shell_Models
begin

text \<open>
  The data of the permission policy: the configuration an agent carries
  (\<open>packages/agent-policy/models/src/lib.rs\<close>) and the tool-call requests, decisions and
  diagnostics exchanged with the host (\<open>packages/agent-profile/src/lib.rs\<close>).

  \<open>Action\<close> and \<open>AgentDecision\<close> share their variants' names in the source; the decisions are
  written \<open>DAllow\<close>, \<open>DAsk\<close>, \<open>DDeny\<close> here. JSON values belong to a third-party crate and
  are a type parameter \<open>'json\<close>.
\<close>

section \<open>Configuration\<close>

datatype action = Allow | Deny | Ask

definition default_action :: action where
  "default_action = Ask"

record command_policy_layer =
  layer_command :: "(ustring, action) btree"
  layer_command_patterns :: "(ustring, action) btree"

record command_policy =
  policy_version :: u32
  policy_layers :: "command_policy_layer list"

definition default_command_policy :: command_policy where
  "default_command_policy = \<lparr>policy_version = 1, policy_layers = []\<rparr>"

text \<open>The serde hook of \<open>CommandPolicy::version\<close>, on an already decoded number.\<close>

definition deserialize_command_policy_version :: "u32 \<Rightarrow> ustring + u32" where
  "deserialize_command_policy_version version =
     (if version \<noteq> 1 then Inl (str ''unsupported command policy version'') else Inr version)"

record permission_config =
  perm_tools :: "(ustring, action) btree"
  perm_command :: "(ustring, action) btree"
  perm_command_patterns :: "(ustring, action) btree"
  perm_command_policy :: "command_policy option"
  perm_read :: "(ustring, action) btree"
  perm_write :: "(ustring, action) btree"
  perm_edit :: "(ustring, action) btree"
  perm_web :: "(ustring, action) btree"
  perm_external_directory :: action

definition default_external_directory_action :: action where
  "default_external_directory_action = Allow"

definition default_permission_config :: permission_config where
  "default_permission_config = \<lparr>perm_tools = [], perm_command = [], perm_command_patterns = [],
     perm_command_policy = None, perm_read = [], perm_write = [], perm_edit = [], perm_web = [],
     perm_external_directory = default_external_directory_action\<rparr>"

record agent_config =
  cfg_accent :: "ustring option"
  cfg_tools :: "(ustring, bool) btree"
  cfg_permission :: permission_config

definition default_agent_config :: agent_config where
  "default_agent_config = \<lparr>cfg_accent = None, cfg_tools = [],
     cfg_permission = default_permission_config\<rparr>"

record agent_permission_config =
  cfg_agent :: "(ustring, agent_config) btree"

section \<open>Tool-call requests and decisions\<close>

datatype tool_policy_operation =
    Command "ustring option" "shell_analysis option" "shell_analysis_error option"
  | Web "ustring option"
  | Read "ustring list"
  | Write "ustring list" ustring
  | Process (proc_executable: ustring) (proc_arguments: "ustring list")
      (proc_working_directory: "ustring option") (proc_read_paths: "ustring list")
      (proc_write_paths: "ustring list") (proc_network_urls: "ustring list")
  | Compound "tool_policy_operation list"
  | ReadOnly
  | Mutating

type_synonym session_id = "128 word"

record agent_policy_profile_identity =
  ident_version :: u32
  ident_provider_id :: ustring
  ident_profile_id :: ustring
  ident_policy_digest_sha256 :: ustring

record evaluate_tool_call_request =
  req_session_id :: session_id
  req_agent_id :: ustring
  req_tool_name :: ustring
  req_operation :: tool_policy_operation
  req_aliases :: "ustring list"
  req_requires_permission :: bool
  req_policy_profile :: "agent_policy_profile_identity option"
  req_cwd :: "ustring option"
  req_effective_config_toml :: "ustring option"

datatype agent_decision = DAllow | DAsk | DDeny

datatype subject_kind = CommandSubject | RedirectionSubject

record shell_policy_diagnostic =
  sd_original_source :: ustring
  sd_subject :: ustring
  sd_span :: "source_span option"
  sd_dialect :: shell_dialect
  sd_match_candidate :: ustring
  sd_matched_rule :: ustring
  sd_rule_action :: "agent_decision option"
  sd_match_certainty :: "ustring option"
  sd_subject_kind :: subject_kind
  sd_subject_decision :: agent_decision
  sd_aggregate_decision :: agent_decision
  sd_remember_patterns :: "ustring list"
  sd_aggregate_reason :: ustring

record evaluate_tool_call_response =
  resp_decision :: agent_decision
  resp_reason :: "ustring option"
  resp_shell :: "shell_policy_diagnostic option"

record preview_command_match =
  pm_subject_index :: nat
  pm_layer_index :: nat
  pm_rule_index :: nat
  pm_rule_kind :: ustring
  pm_winning :: bool
  pm_decision :: agent_decision
  pm_broad :: bool
  pm_regex_flags :: "ustring list"
  pm_uncertain :: bool

section \<open>Owner-produced authorization facts\<close>

definition TOOL_POLICY_AUTHORIZATION_NAMESPACE :: ustring where
  "TOOL_POLICY_AUTHORIZATION_NAMESPACE = str ''bcode.agent-policy.tool''"

definition TOOL_POLICY_AUTHORIZATION_SCHEMA_VERSION :: u32 where
  "TOOL_POLICY_AUTHORIZATION_SCHEMA_VERSION = 3"

definition TOOL_POLICY_AUTHORIZATION_ACTION_INVOKE :: ustring where
  "TOOL_POLICY_AUTHORIZATION_ACTION_INVOKE = str ''invoke''"

record 'json tool_authorization_fact =
  fact_namespace :: ustring
  fact_schema_version :: u32
  fact_action :: ustring
  fact_resource :: "ustring option"
  fact_metadata :: 'json

record tool_compatibility_alias =
  alias_ecosystem :: ustring
  alias_name :: ustring

record tool_policy_identity =
  pid_aliases :: "ustring list"
  pid_compatibility_aliases :: "tool_compatibility_alias list"
  pid_capabilities :: "ustring list"
  pid_permission_category :: "ustring option"

definition default_policy_identity :: tool_policy_identity where
  "default_policy_identity = \<lparr>pid_aliases = [], pid_compatibility_aliases = [],
     pid_capabilities = [], pid_permission_category = None\<rparr>"

record 'json tool_policy_preparation =
  prep_requires_permission :: bool
  prep_identity :: tool_policy_identity
  prep_operation :: tool_policy_operation
  prep_descriptor :: 'json

text \<open>\<open>null\<close> stands for \<open>serde_json::Value::Null\<close>.\<close>

definition preparation_new :: "'json \<Rightarrow> bool \<Rightarrow> tool_policy_operation \<Rightarrow> 'json tool_policy_preparation" where
  "preparation_new null requires operation = \<lparr>prep_requires_permission = requires,
     prep_identity = default_policy_identity, prep_operation = operation, prep_descriptor = null\<rparr>"

definition preparation_with_identity ::
    "'json tool_policy_preparation \<Rightarrow> tool_policy_identity \<Rightarrow> 'json tool_policy_preparation" where
  "preparation_with_identity prep identity = prep\<lparr>prep_identity := identity\<rparr>"

definition preparation_with_descriptor ::
    "'json tool_policy_preparation \<Rightarrow> 'json \<Rightarrow> 'json tool_policy_preparation" where
  "preparation_with_descriptor prep descriptor = prep\<lparr>prep_descriptor := descriptor\<rparr>"

definition preparation_read_only :: "'json \<Rightarrow> 'json tool_policy_preparation" where
  "preparation_read_only null = preparation_new null False ReadOnly"

record tool_policy_authorization_metadata =
  meta_requires_permission :: bool
  meta_aliases :: "ustring list"
  meta_compatibility_aliases :: "tool_compatibility_alias list"
  meta_capabilities :: "ustring list"
  meta_permission_category :: "ustring option"
  meta_operation :: tool_policy_operation

definition metadata_is_read_only :: "tool_policy_authorization_metadata \<Rightarrow> bool" where
  "metadata_is_read_only m =
     (case meta_operation m of Web _ \<Rightarrow> True | Read _ \<Rightarrow> True | ReadOnly \<Rightarrow> True | _ \<Rightarrow> False)"

fun operation_name :: "tool_policy_operation \<Rightarrow> ustring" where
  "operation_name (Command _ _ _) = str ''command''"
| "operation_name (Web _) = str ''web''"
| "operation_name (Read _) = str ''read''"
| "operation_name (Write _ _) = str ''write''"
| "operation_name (Process _ _ _ _ _ _) = str ''process''"
| "operation_name (Compound _) = str ''compound''"
| "operation_name ReadOnly = str ''read_only''"
| "operation_name Mutating = str ''mutating''"

record 'json tool_definition =
  def_name :: ustring
  def_description :: ustring
  def_input_schema :: 'json

record 'json tool_preparation_response =
  pr_authorization :: "'json tool_authorization_fact list"
  pr_descriptor :: 'json

text \<open>
  \<open>to_json\<close> and \<open>from_json\<close> are serde's encoder and decoder of the metadata. Of the
  preparation request only the requested tool name is read.
\<close>

definition prepare_tool_policy ::
    "(tool_policy_authorization_metadata \<Rightarrow> ustring + 'json) \<Rightarrow> ustring \<Rightarrow> 'json tool_definition
       \<Rightarrow> 'json tool_policy_preparation \<Rightarrow> ustring + 'json tool_preparation_response" where
  "prepare_tool_policy to_json requested_name definit preparation =
     (if requested_name \<noteq> def_name definit
      then Inl (str ''tool not found during preparation: '' @ requested_name)
      else
        (let metadata = \<lparr>
           meta_requires_permission = prep_requires_permission preparation,
           meta_aliases = pid_aliases (prep_identity preparation),
           meta_compatibility_aliases = pid_compatibility_aliases (prep_identity preparation),
           meta_capabilities = pid_capabilities (prep_identity preparation),
           meta_permission_category = pid_permission_category (prep_identity preparation),
           meta_operation = prep_operation preparation\<rparr>
         in case to_json metadata of
              Inl e \<Rightarrow> Inl e
            | Inr json \<Rightarrow> Inr \<lparr>
                pr_authorization = [\<lparr>
                  fact_namespace = TOOL_POLICY_AUTHORIZATION_NAMESPACE,
                  fact_schema_version = TOOL_POLICY_AUTHORIZATION_SCHEMA_VERSION,
                  fact_action = TOOL_POLICY_AUTHORIZATION_ACTION_INVOKE,
                  fact_resource = Some (def_name definit),
                  fact_metadata = json\<rparr>],
                pr_descriptor = prep_descriptor preparation\<rparr>))"

definition prepare_tool_policy_with_operation ::
    "(tool_policy_authorization_metadata \<Rightarrow> ustring + 'json) \<Rightarrow> 'json \<Rightarrow> ustring
       \<Rightarrow> 'json tool_definition \<Rightarrow> bool \<Rightarrow> tool_policy_identity \<Rightarrow> tool_policy_operation
       \<Rightarrow> ustring + 'json tool_preparation_response" where
  "prepare_tool_policy_with_operation to_json null requested_name definit requires identity operation =
     prepare_tool_policy to_json requested_name definit
       \<lparr>prep_requires_permission = requires, prep_identity = identity,
        prep_operation = operation, prep_descriptor = null\<rparr>"

definition tool_policy_authorization_metadata_of ::
    "('json \<Rightarrow> ustring + tool_policy_authorization_metadata) \<Rightarrow> 'json tool_authorization_fact list
       \<Rightarrow> ustring \<Rightarrow> ustring + tool_policy_authorization_metadata" where
  "tool_policy_authorization_metadata_of from_json facts tool_name =
     (case filter (\<lambda>f. fact_namespace f = TOOL_POLICY_AUTHORIZATION_NAMESPACE) facts of
        [] \<Rightarrow> Inl (str ''tool owner omitted the standard policy authorization fact'')
      | first # others \<Rightarrow>
          if others \<noteq> []
          then Inl (str ''tool owner emitted duplicate standard policy authorization facts'')
          else if fact_schema_version first \<noteq> TOOL_POLICY_AUTHORIZATION_SCHEMA_VERSION
          then Inl (str ''unsupported standard policy authorization schema version ''
                 @ show_nat (unat (fact_schema_version first)) @ str ''; expected ''
                 @ show_nat (unat TOOL_POLICY_AUTHORIZATION_SCHEMA_VERSION))
          else if fact_action first \<noteq> TOOL_POLICY_AUTHORIZATION_ACTION_INVOKE
          then Inl (str ''standard policy authorization fact has an unsupported action'')
          else if fact_resource first \<noteq> Some tool_name
          then Inl (str ''authorization fact resource does not match the correlated tool call'')
          else map_err (\<lambda>e. str ''invalid standard policy authorization fact: '' @ e)
                 (from_json (fact_metadata first)))"

definition AGENT_POLICY_PROFILE_IDENTITY_VERSION :: u32 where
  "AGENT_POLICY_PROFILE_IDENTITY_VERSION = 1"

text \<open>\<open>s.trim().is_empty()\<close>: only white space.\<close>

definition is_blank :: "ustring \<Rightarrow> bool" where
  "is_blank s \<longleftrightarrow> list_all is_whitespace s"

definition is_lower_hex :: "uchar \<Rightarrow> bool" where
  "is_lower_hex c \<longleftrightarrow> is_ascii_digit c \<or> (ch CHR ''a'' \<le> c \<and> c \<le> ch CHR ''f'')"

definition agent_policy_profile_identity_of ::
    "ustring \<Rightarrow> ustring \<Rightarrow> ustring \<Rightarrow> ustring + agent_policy_profile_identity" where
  "agent_policy_profile_identity_of provider_id profile_id digest =
     (if is_blank provider_id \<or> is_blank profile_id \<or> byte_len digest \<noteq> 64
         \<or> \<not> list_all is_lower_hex digest
      then Inl (str ''agent policy profile identity is malformed'')
      else Inr \<lparr>ident_version = AGENT_POLICY_PROFILE_IDENTITY_VERSION,
             ident_provider_id = provider_id, ident_profile_id = profile_id,
             ident_policy_digest_sha256 = digest\<rparr>)"

section \<open>Facts\<close>

lemma prepare_metadata_roundtrip:
  assumes codec: "\<And>m j. to_json m = Inr j \<Longrightarrow> from_json j = Inr m"
    and prepared: "prepare_tool_policy to_json name d p = Inr r"
  shows "\<exists>m. tool_policy_authorization_metadata_of from_json (pr_authorization r) name = Inr m
           \<and> meta_operation m = prep_operation p
           \<and> meta_requires_permission m = prep_requires_permission p
           \<and> meta_aliases m = pid_aliases (prep_identity p)
           \<and> meta_permission_category m = pid_permission_category (prep_identity p)"
  using prepared
  by (auto simp: prepare_tool_policy_def tool_policy_authorization_metadata_of_def Let_def
      map_err_def split: if_splits sum.splits dest: codec)

lemma authorization_metadata_facts:
  assumes "tool_policy_authorization_metadata_of from_json facts name = Inr m"
  shows "\<exists>f. filter (\<lambda>f. fact_namespace f = TOOL_POLICY_AUTHORIZATION_NAMESPACE) facts = [f]
           \<and> fact_schema_version f = TOOL_POLICY_AUTHORIZATION_SCHEMA_VERSION
           \<and> fact_action f = TOOL_POLICY_AUTHORIZATION_ACTION_INVOKE
           \<and> fact_resource f = Some name \<and> from_json (fact_metadata f) = Inr m"
  using assms
  by (auto simp: tool_policy_authorization_metadata_of_def map_err_def
      split: list.splits if_splits sum.splits)

lemma byte_len_ascii: "\<forall>c \<in> set s. c < 128 \<Longrightarrow> byte_len s = length s"
  by (induction s) (auto simp: utf8_width_def)

lemma profile_identity_digest:
  assumes "agent_policy_profile_identity_of p q d = Inr i"
  shows "length (ident_policy_digest_sha256 i) = 64
       \<and> (\<forall>c \<in> set (ident_policy_digest_sha256 i). is_lower_hex c)"
proof -
  from assms have i: "ident_policy_digest_sha256 i = d" "byte_len d = 64" "\<forall>c \<in> set d. is_lower_hex c"
    by (auto simp: agent_policy_profile_identity_of_def list_all_iff split: if_splits)
  then have "\<forall>c \<in> set d. c < 128"
    by (auto simp: is_lower_hex_def is_ascii_digit_def ch_def)
  with i byte_len_ascii[of d] show ?thesis by simp
qed

end
