(* ===== verification/Globs.thy ===== *)
theory Globs
  imports Policy_Models
begin

text \<open>
  Legacy command globs, their specificity, the filesystem and URL rules and the
  working-directory boundary (\<open>packages/agent-policy/src/lib.rs\<close>, from \<open>external_path\<close>
  to \<open>path_rule_specificity\<close>).

  The command glob matcher is compared with the usual meaning of \<open>*\<close> (\<open>glob_spec\<close>).
  Path rules are matched by the third-party \<open>globset\<close> crate: a \<open>'g glob_engine\<close> is its
  builder and its matcher. Paths are Unix paths.
\<close>

section \<open>Command globs\<close>

definition STAR :: uchar where
  "STAR = ch CHR ''*''"

record rule =
  rule_pattern :: ustring
  rule_action :: action
  rule_spec :: nat

fun glob_loop :: "bool \<Rightarrow> bool \<Rightarrow> ustring list \<Rightarrow> ustring \<Rightarrow> ustring option" where
  "glob_loop anchored first [] remainder = Some remainder"
| "glob_loop anchored first (part # parts) remainder =
     (if part = [] then glob_loop anchored first parts remainder
      else if first \<and> anchored
      then (case strip_prefix part remainder of
              None \<Rightarrow> None
            | Some rest \<Rightarrow> glob_loop anchored False parts rest)
      else (case after_first part remainder of
              Some rest \<Rightarrow> glob_loop anchored False parts rest
            | None \<Rightarrow> None))"

definition starts_with_star :: "ustring \<Rightarrow> bool" where
  "starts_with_star p \<longleftrightarrow> p \<noteq> [] \<and> hd p = STAR"

definition ends_with_star :: "ustring \<Rightarrow> bool" where
  "ends_with_star p \<longleftrightarrow> p \<noteq> [] \<and> last p = STAR"

definition glob_matches :: "ustring \<Rightarrow> ustring \<Rightarrow> bool" where
  "glob_matches pattern v =
     (if pattern = [STAR] then True
      else (case glob_loop (\<not> starts_with_star pattern) True (split_on (\<lambda>c. c = STAR) pattern) v of
              None \<Rightarrow> False
            | Some remainder \<Rightarrow> ends_with_star pattern \<or> remainder = []))"

definition rule_specificity :: "ustring \<Rightarrow> nat" where
  "rule_specificity pattern =
     (if STAR \<in> set pattern then 0 else 1000) + length (filter (\<lambda>c. c \<noteq> STAR) pattern)"

definition mk_rule :: "ustring \<times> action \<Rightarrow> rule" where
  "mk_rule = (\<lambda>(pattern, action).
     \<lparr>rule_pattern = pattern, rule_action = action, rule_spec = rule_specificity pattern\<rparr>)"

definition compile_rules :: "agent_config \<Rightarrow> rule list" where
  "compile_rules config = map mk_rule (perm_command (cfg_permission config))"

definition matching_rule :: "ustring \<Rightarrow> rule list \<Rightarrow> rule option" where
  "matching_rule command rules =
     last_max_key (\<lambda>r. (rule_spec r, byte_len (rule_pattern r)))
       (filter (\<lambda>r. glob_matches (rule_pattern r) command) rules)"

subsection \<open>What a glob means\<close>

fun glob_spec :: "ustring \<Rightarrow> ustring \<Rightarrow> bool" where
  "glob_spec [] v = (v = [])"
| "glob_spec (c # p) [] = (c = STAR \<and> glob_spec p [])"
| "glob_spec (c # p) (d # v) =
     (if c = STAR then glob_spec p (d # v) \<or> glob_spec (c # p) v
      else c = d \<and> glob_spec p v)"

text \<open>Consuming the parts of a pattern in order, with any text between them.\<close>

fun parts_run :: "ustring list \<Rightarrow> ustring \<Rightarrow> ustring \<Rightarrow> bool" where
  "parts_run [] v r = (v = r)"
| "parts_run (w # ws) v r = (\<exists>a t. v = a @ w @ t \<and> parts_run ws t r)"

lemma glob_spec_star: "glob_spec (STAR # p) v \<longleftrightarrow> (\<exists>a t. v = a @ t \<and> glob_spec p t)"
proof (induction v)
  case (Cons d v)
  have "(\<exists>a t. d # v = a @ t \<and> glob_spec p t) \<longleftrightarrow>
      glob_spec p (d # v) \<or> (\<exists>a t. v = a @ t \<and> glob_spec p t)"
    by (auto simp: Cons_eq_append_conv)
  with Cons show ?case by simp
qed simp

lemma glob_spec_literal: "c \<noteq> STAR \<Longrightarrow> glob_spec (c # p) v \<longleftrightarrow> (\<exists>t. v = c # t \<and> glob_spec p t)"
  by (cases v) auto

lemma glob_spec_parts:
  "split_on (\<lambda>c. c = STAR) p = w # ws \<Longrightarrow>
     glob_spec p v \<longleftrightarrow> (\<exists>t. v = w @ t \<and> parts_run ws t [])"
proof (induction p arbitrary: v w ws)
  case (Cons c p)
  obtain x xs where split: "split_on (\<lambda>c. c = STAR) p = x # xs"
    by (cases "split_on (\<lambda>c. c = STAR) p") auto
  show ?case
  proof (cases "c = STAR")
    case True
    with Cons.prems split have "w = []" and "ws = x # xs" by auto
    with True Cons.IH[OF split] show ?thesis by (auto simp: glob_spec_star)
  next
    case False
    with Cons.prems split have "w = c # x" and "ws = xs" by auto
    with False Cons.IH[OF split] show ?thesis by (auto simp: glob_spec_literal)
  qed
qed auto

lemma parts_run_prepend: "parts_run ws v r \<Longrightarrow> ws \<noteq> [] \<Longrightarrow> parts_run ws (a @ v) r"
  by (cases ws) (auto, metis append.assoc)

lemma parts_run_last_empty: "parts_run ws v r \<Longrightarrow> ws \<noteq> [] \<Longrightarrow> last ws = [] \<Longrightarrow> parts_run ws v []"
proof (induction ws arbitrary: v)
  case (Cons w ws)
  show ?case
  proof (cases "ws = []")
    case True
    with Cons.prems show ?thesis by auto
  next
    case False
    with Cons show ?thesis by auto
  qed
qed simp

lemma glob_loop_run: "glob_loop anchored False ws v = Some r \<Longrightarrow> parts_run ws v r"
proof (induction ws arbitrary: v)
  case (Cons w ws)
  show ?case
  proof (cases "w = []")
    case True
    with Cons have "parts_run ws v r" by simp
    with True show ?thesis by (metis append_Nil parts_run.simps(2))
  next
    case False
    with Cons.prems obtain t where t: "after_first w v = Some t" "glob_loop anchored False ws t = Some r"
      by (auto split: option.splits)
    with after_first_Some[OF t(1)] Cons.IH show ?thesis by auto
  qed
qed simp

text \<open>
  Taking each part at its leftmost place loses nothing as long as the end is open: what
  is left over is at least what any other choice leaves.
\<close>

lemma glob_loop_greedy: "parts_run ws v r \<Longrightarrow> \<exists>a. glob_loop anchored False ws (b @ v) = Some (a @ r)"
proof (induction ws arbitrary: v b)
  case (Cons w ws)
  from Cons.prems obtain a t where v: "v = a @ w @ t" and run: "parts_run ws t r" by auto
  show ?case
  proof (cases "w = []")
    case True
    with v Cons.IH[OF run, of "b @ a"] show ?thesis by simp
  next
    case False
    obtain t' where "after_first w (b @ v) = Some (t' @ t)"
      using after_first_append[of w "b @ a" t] v by auto
    with False Cons.IH[OF run, of t'] show ?thesis by auto
  qed
qed auto

lemma split_on_last:
  assumes "split_on (\<lambda>c. c = STAR) p = w # ws" and "ws \<noteq> []"
  shows "last ws = [] \<longleftrightarrow> ends_with_star p"
  using assms last_split_on[of "\<lambda>c. c = STAR" p]
  by (cases "p = []") (auto simp: ends_with_star_def)

lemma split_on_hd_empty:
  "split_on (\<lambda>c. c = STAR) p = w # ws \<Longrightarrow> w = [] \<longleftrightarrow> p = [] \<or> starts_with_star p"
  by (cases p) (auto simp: starts_with_star_def split: if_splits list.splits)

lemma glob_loop_unanchored: "glob_loop False True ws v = glob_loop False False ws v"
  by (induction ws arbitrary: v) (auto split: option.splits)

text \<open>The loop in terms of the parts: the first is a prefix, the others follow in order.\<close>

lemma glob_matches_loop:
  assumes split: "split_on (\<lambda>c. c = STAR) p = w # ws" and "p \<noteq> [STAR]"
  shows "glob_matches p v \<longleftrightarrow>
    (\<exists>t r. v = w @ t \<and> glob_loop (\<not> starts_with_star p) False ws t = Some r
        \<and> (ends_with_star p \<or> r = []))"
proof (cases "w = []")
  case True
  then have "p = [] \<or> starts_with_star p" using split_on_hd_empty[OF split] by simp
  then show ?thesis
  proof
    assume "p = []"
    with split True show ?thesis
      by (auto simp: glob_matches_def starts_with_star_def)
  next
    assume star: "starts_with_star p"
    with True split \<open>p \<noteq> [STAR]\<close> show ?thesis
      by (auto simp: glob_matches_def glob_loop_unanchored split: option.splits)
  qed
next
  case False
  then have "\<not> starts_with_star p" using split_on_hd_empty[OF split] by simp
  with False split \<open>p \<noteq> [STAR]\<close> show ?thesis
    by (auto simp: glob_matches_def strip_prefix_Some split: option.splits)
qed

lemma glob_sound: "glob_matches p v \<Longrightarrow> glob_spec p v"
proof (cases "p = [STAR]")
  case True
  then show ?thesis using glob_spec_star[of "[]" v] by auto
next
  case False
  assume m: "glob_matches p v"
  obtain w ws where split: "split_on (\<lambda>c. c = STAR) p = w # ws"
    by (cases "split_on (\<lambda>c. c = STAR) p") auto
  from m glob_matches_loop[OF split False] obtain t r where
    v: "v = w @ t" and loop: "glob_loop (\<not> starts_with_star p) False ws t = Some r"
    and fin: "ends_with_star p \<or> r = []" by auto
  from loop have run: "parts_run ws t r" by (rule glob_loop_run)
  have "parts_run ws t []"
  proof (cases "r = []")
    case True with run show ?thesis by simp
  next
    case False
    with fin have star: "ends_with_star p" by simp
    have "ws \<noteq> []"
    proof
      assume "ws = []"
      with split have "STAR \<notin> set p" by (auto simp: split_on_single)
      with star show False by (metis ends_with_star_def last_in_set)
    qed
    with run star split_on_last[OF split] show ?thesis
      by (auto intro: parts_run_last_empty)
  qed
  with v show ?thesis using glob_spec_parts[OF split] by auto
qed

lemma glob_complete:
  assumes spec: "glob_spec p v" and "ends_with_star p \<or> STAR \<notin> set p"
  shows "glob_matches p v"
proof (cases "p = [STAR]")
  case True
  then show ?thesis by (simp add: glob_matches_def)
next
  case False
  obtain w ws where split: "split_on (\<lambda>c. c = STAR) p = w # ws"
    by (cases "split_on (\<lambda>c. c = STAR) p") auto
  from spec glob_spec_parts[OF split] obtain t where v: "v = w @ t" "parts_run ws t []" by auto
  from glob_loop_greedy[OF v(2), of "\<not> starts_with_star p" "[]"] obtain r where
    loop: "glob_loop (\<not> starts_with_star p) False ws t = Some r" by auto
  have "ends_with_star p \<or> r = []"
  proof (cases "ends_with_star p")
    case False
    with assms(2) have "ws = []" using split split_on_none[of p "\<lambda>c. c = STAR"] by auto
    with loop v(2) show ?thesis by auto
  qed simp
  with v loop glob_matches_loop[OF split False] show ?thesis by auto
qed

lemma matching_rule_best:
  assumes "matching_rule command rules = Some r"
  shows "r \<in> set rules \<and> glob_matches (rule_pattern r) command
    \<and> (\<forall>q \<in> set rules. glob_matches (rule_pattern q) command \<longrightarrow>
        (rule_spec q, byte_len (rule_pattern q)) \<le> (rule_spec r, byte_len (rule_pattern r)))"
  using last_max_key_greatest[OF assms[unfolded matching_rule_def]] by auto

section \<open>Path rules\<close>

record 'g glob_engine =
  glob_build :: "ustring \<Rightarrow> 'g option"
  glob_is_match :: "'g \<Rightarrow> ustring \<Rightarrow> bool"

record 'g path_rule =
  path_pattern :: ustring
  path_action :: action
  path_spec :: nat
  path_matcher :: 'g

definition is_glob_meta :: "uchar \<Rightarrow> bool" where
  "is_glob_meta c \<longleftrightarrow> c \<in> set (str ''*?[]{}'')"

definition path_rule_specificity :: "ustring \<Rightarrow> nat" where
  "path_rule_specificity pattern =
     (let has_meta = list_ex is_glob_meta pattern;
          literal_count = length (filter (\<lambda>c. \<not> is_glob_meta c) pattern)
      in if has_meta then literal_count else 1000 + literal_count)"

definition path_rule_key :: "'g path_rule \<Rightarrow> int \<times> int \<times> ustring" where
  "path_rule_key r = (- int (path_spec r), - int (byte_len (path_pattern r)), path_pattern r)"

definition compile_path_rules :: "'g glob_engine \<Rightarrow> (ustring, action) btree \<Rightarrow> 'g path_rule list" where
  "compile_path_rules eng rules =
     sort_key path_rule_key
       (List.map_filter (\<lambda>(pattern, action).
          map_option (\<lambda>glob. \<lparr>path_pattern = pattern, path_action = action,
              path_spec = path_rule_specificity pattern, path_matcher = glob\<rparr>)
            (glob_build eng pattern)) rules)"

definition matching_path_rule :: "'g glob_engine \<Rightarrow> 'g path_rule list \<Rightarrow> ustring \<Rightarrow> 'g path_rule option" where
  "matching_path_rule eng rules path = List.find (\<lambda>r. glob_is_match eng (path_matcher r) path) rules"

lemma set_compile_path_rules:
  "r \<in> set (compile_path_rules eng rules) \<longleftrightarrow>
     (\<exists>p a g. (p, a) \<in> set rules \<and> glob_build eng p = Some g \<and>
        r = \<lparr>path_pattern = p, path_action = a, path_spec = path_rule_specificity p, path_matcher = g\<rparr>)"
  by (force simp: compile_path_rules_def List.map_filter_def image_iff)

lemma find_sorted_least:
  assumes "sorted (map f xs)" and "List.find P xs = Some x"
  shows "x \<in> set xs \<and> P x \<and> (\<forall>y \<in> set xs. P y \<longrightarrow> f x \<le> f y)"
  using assms by (induction xs) (auto split: if_splits)

lemma matching_path_rule_best:
  assumes "matching_path_rule eng (compile_path_rules eng rules) path = Some r"
  shows "r \<in> set (compile_path_rules eng rules) \<and> glob_is_match eng (path_matcher r) path
    \<and> (\<forall>q \<in> set (compile_path_rules eng rules).
         glob_is_match eng (path_matcher q) path \<longrightarrow> path_rule_key r \<le> path_rule_key q)"
proof -
  have "sorted (map path_rule_key (compile_path_rules eng rules))"
    by (simp add: compile_path_rules_def)
  from find_sorted_least[OF this assms[unfolded matching_path_rule_def]] show ?thesis by blast
qed

section \<open>The working-directory boundary\<close>

datatype path_component = RootDir | CurDir | ParentDir | Normal ustring

definition SLASH :: uchar where
  "SLASH = ch CHR ''/''"

definition path_is_absolute :: "ustring \<Rightarrow> bool" where
  "path_is_absolute p \<longleftrightarrow> p \<noteq> [] \<and> hd p = SLASH"

text \<open>
  \<open>Path::components\<close>: repeated separators vanish, and so does \<open>.\<close> except at the start of
  a relative path.
\<close>

definition component_of :: "ustring \<Rightarrow> path_component" where
  "component_of w = (if w = str ''..'' then ParentDir else Normal w)"

definition path_components :: "ustring \<Rightarrow> path_component list" where
  "path_components p =
     (let ws = split_on (\<lambda>c. c = SLASH) p;
          body = map component_of (filter (\<lambda>w. w \<noteq> [] \<and> w \<noteq> str ''.'') ws)
      in if path_is_absolute p then RootDir # body
         else if hd ws = str ''.'' then CurDir # body else body)"

definition path_join :: "ustring \<Rightarrow> ustring \<Rightarrow> ustring" where
  "path_join base p =
     (if path_is_absolute p then p
      else if base = [] \<or> last base = SLASH then base @ p
      else base @ [SLASH] @ p)"

text \<open>A \<open>PathBuf\<close> built by pushes: whether it starts at the root, and its names.\<close>

type_synonym path_buf = "bool \<times> ustring list"

fun push_component :: "path_component \<Rightarrow> path_buf \<Rightarrow> path_buf" where
  "push_component CurDir b = b"
| "push_component ParentDir (root, names) = (root, butlast names)"
| "push_component RootDir b = (True, [])"
| "push_component (Normal n) (root, names) = (root, names @ [n])"

definition normalize_path :: "ustring \<Rightarrow> path_buf" where
  "normalize_path p = fold push_component (path_components p) (False, [])"

definition absolutize :: "ustring \<Rightarrow> ustring \<Rightarrow> path_buf" where
  "absolutize cwd p = normalize_path (path_join cwd p)"

definition buf_components :: "path_buf \<Rightarrow> path_component list" where
  "buf_components b = (if fst b then [RootDir] else []) @ map Normal (snd b)"

definition buf_starts_with :: "path_buf \<Rightarrow> path_buf \<Rightarrow> bool" where
  "buf_starts_with b base \<longleftrightarrow> prefix (buf_components base) (buf_components b)"

definition resolve_path :: "ustring \<Rightarrow> ustring \<Rightarrow> path_buf" where
  "resolve_path p cwd = (if path_is_absolute p then normalize_path p else absolutize cwd p)"

definition is_external_path :: "ustring \<Rightarrow> ustring \<Rightarrow> bool" where
  "is_external_path p cwd =
     (let resolved_cwd = absolutize cwd (str ''.'');
          resolved_path = resolve_path p cwd
      in resolved_path \<noteq> resolved_cwd \<and> \<not> buf_starts_with resolved_path resolved_cwd)"

lemma prefix_map_Normal: "prefix (map Normal ms) (map Normal ns) \<longleftrightarrow> prefix ms ns"
proof (induction ms arbitrary: ns)
  case (Cons m ms)
  then show ?case by (cases ns) auto
qed simp

lemma buf_starts_with_iff:
  "buf_starts_with (r, ns) (s, ms) \<longleftrightarrow> (s = r \<and> prefix ms ns) \<or> (\<not> s \<and> ms = [])"
proof -
  have root: "\<not> prefix (RootDir # xs) (map Normal ns)" for xs
    by (cases ns) auto
  have noroot: "prefix (map Normal ms) (RootDir # xs) \<longleftrightarrow> ms = []" for xs
    by (cases ms) auto
  show ?thesis
    by (cases s; cases r)
      (auto simp: buf_starts_with_def buf_components_def prefix_map_Normal root noroot)
qed

text \<open>A working directory that normalises to nothing contains every path.\<close>

lemma empty_boundary:
  assumes "absolutize cwd (str ''.'') = (False, [])"
  shows "\<not> is_external_path p cwd"
  using assms by (cases "resolve_path p cwd") (simp add: is_external_path_def buf_starts_with_iff)

text \<open>For an absolute working directory the check is containment of the normalised names.\<close>

lemma normalize_absolute:
  assumes "path_is_absolute p"
  shows "fst (normalize_path p)"
proof -
  have keep: "fst b \<Longrightarrow> fst (fold push_component cs b)" for cs b
  proof (induction cs arbitrary: b)
    case (Cons c cs)
    then have "fst (push_component c b)" by (cases c; cases b) auto
    with Cons show ?case by simp
  qed simp
  obtain body where "path_components p = RootDir # body"
    using assms by (simp add: path_components_def Let_def)
  with keep[of "(True, [])" body] show ?thesis
    by (simp add: normalize_path_def)
qed

lemma path_join_absolute: "path_is_absolute cwd \<Longrightarrow> path_is_absolute (path_join cwd p)"
  by (cases cwd) (auto simp: path_join_def path_is_absolute_def)

lemma is_external_absolute:
  assumes "path_is_absolute cwd"
  shows "is_external_path p cwd \<longleftrightarrow>
    \<not> prefix (snd (absolutize cwd (str ''.''))) (snd (resolve_path p cwd))"
proof -
  have "fst (absolutize cwd (str ''.''))" and "fst (resolve_path p cwd)"
    using assms by (auto simp: absolutize_def resolve_path_def
        intro!: normalize_absolute path_join_absolute)
  then show ?thesis
    by (cases "absolutize cwd (str ''.'')"; cases "resolve_path p cwd")
      (auto simp: is_external_path_def buf_starts_with_iff)
qed

text \<open>No name of a normalised path is a parent or current directory step.\<close>

definition plain_name :: "ustring \<Rightarrow> bool" where
  "plain_name n \<longleftrightarrow> n \<noteq> [] \<and> n \<noteq> str ''.'' \<and> n \<noteq> str ''..''"

lemma push_component_names:
  "set (snd (push_component c b)) \<subseteq> set (snd b) \<union> {m. c = Normal m}"
  by (cases c; cases b) (auto dest: in_set_butlastD)

lemma normalize_names:
  assumes "n \<in> set (snd (normalize_path p))"
  shows "plain_name n"
proof -
  have from_components: "set (snd (fold push_component cs b)) \<subseteq> set (snd b) \<union> {m. Normal m \<in> set cs}" for cs b
  proof (induction cs arbitrary: b)
    case (Cons c cs)
    from Cons[of "push_component c b"] push_component_names[of c b] show ?case by auto
  qed simp
  have "Normal n \<in> set (path_components p)"
    using assms from_components[of "path_components p" "(False, [])"]
    by (auto simp: normalize_path_def)
  then show ?thesis
    by (auto simp: path_components_def component_of_def plain_name_def Let_def split: if_splits)
qed

end
