(* ===== verification/Word_Patterns.thy ===== *)
theory Word_Patterns
  imports Policy_Models
begin

text \<open>
  The argv word-pattern language of command rules
  (\<open>packages/agent-policy/src/word_patterns.rs\<close>): tokens, the slash-delimited regex
  tokens, and the compilation of a token list to an automaton over argument values.

  The source walks a character array by index; here a scanner takes the characters that
  are left and returns the rest. The \<open>regex\<close> crate is third-party: a
  \<open>'re regex_engine\<close> is its builder and its whole-value matcher. \<open>edges[i]\<close> is
  \<open>edges_of r i\<close>; \<open>parse_wf\<close> shows that the index is always in range.
\<close>

definition MAX_PATTERN_BYTES :: nat where "MAX_PATTERN_BYTES = 1024"
definition MAX_REGEXES :: nat where "MAX_REGEXES = 64"
definition MAX_SEGMENTS :: nat where "MAX_SEGMENTS = 32"
definition MAX_STATES :: nat where "MAX_STATES = 256"
definition MAX_WORDS :: nat where "MAX_WORDS = 256"
definition MAX_WORD_BYTES :: nat where "MAX_WORD_BYTES = 65536"

text \<open>Characters that the literal syntax of strings does not show well.\<close>

definition DASH :: uchar where "DASH = ch CHR ''-''"
definition BACKSLASH :: uchar where "BACKSLASH = 92"
definition NEWLINE :: uchar where "NEWLINE = 10"
definition SINGLE_QUOTE :: uchar where "SINGLE_QUOTE = 39"
definition DOUBLE_QUOTE :: uchar where "DOUBLE_QUOTE = 34"

record regex_options =
  opt_case_insensitive :: bool
  opt_multi_line :: bool
  opt_dot_matches_new_line :: bool
  opt_ignore_whitespace :: bool

record 're regex_engine =
  re_build :: "ustring \<Rightarrow> regex_options \<Rightarrow> ustring + 're"
  re_is_match :: "'re \<Rightarrow> ustring \<Rightarrow> bool"

section \<open>Atoms\<close>

datatype 're atom =
    Literal ustring
  | Regex 're ustring
  | AnyValue
  | OptionAtom
  | OptionWithValue
  | OptionValue
  | OptionsEnd

definition is_option :: "ustring \<Rightarrow> bool" where
  "is_option v \<longleftrightarrow> prefix (str ''-'') v \<and> v \<noteq> str ''-'' \<and> v \<noteq> str ''--''"

fun accepts :: "'re regex_engine \<Rightarrow> 're atom \<Rightarrow> ustring \<Rightarrow> bool" where
  "accepts eng (Literal literal) v \<longleftrightarrow> literal = v"
| "accepts eng (Regex compiled _) v \<longleftrightarrow> re_is_match eng compiled v"
| "accepts eng AnyValue v \<longleftrightarrow> True"
| "accepts eng OptionAtom v \<longleftrightarrow> is_option v"
| "accepts eng OptionWithValue v \<longleftrightarrow> is_option v \<and> ch CHR ''='' \<notin> set v"
| "accepts eng OptionValue v \<longleftrightarrow> \<not> prefix (str ''-'') v \<or> v = str ''-''"
| "accepts eng OptionsEnd v \<longleftrightarrow> v = str ''--''"

datatype 're token =
    TAtom "'re atom" | TOpen | TClose | TPipe | TStar | TRest | TOptions

section \<open>Regex tokens\<close>

text \<open>
  \<open>classes\<close> is the stack of open character classes, innermost first: 0 just opened, 1
  after a leading \<open>^\<close>, 2 with content.
\<close>

fun touch_class :: "nat list \<Rightarrow> nat list" where
  "touch_class [] = []"
| "touch_class (_ # cs) = 2 # cs"

definition class_step :: "uchar \<Rightarrow> nat list \<Rightarrow> nat list" where
  "class_step c classes =
     (if c = ch CHR ''['' then 0 # touch_class classes
      else if c = ch CHR '']'' \<and> classes \<noteq> [] \<and> hd classes = 2 then tl classes
      else if c = ch CHR ''^'' \<and> classes \<noteq> [] \<and> hd classes = 0 then 1 # tl classes
      else touch_class classes)"

definition is_regex_meta :: "uchar \<Rightarrow> bool" where
  "is_regex_meta c \<longleftrightarrow> c = BACKSLASH \<or> c \<in> set (str ''/[](){}*+?|^$'')"

fun collect_flags :: "ustring \<Rightarrow> ustring \<Rightarrow> ustring option" where
  "collect_flags flags [] = Some flags"
| "collect_flags flags (f # fs) =
     (if f \<notin> set (str ''imsx'') \<or> f \<in> set flags then None
      else collect_flags (f # flags) fs)"

definition regex_close ::
    "'re regex_engine \<Rightarrow> nat \<Rightarrow> ustring \<Rightarrow> ustring \<Rightarrow> ustring + ('re atom \<times> ustring \<times> nat) option" where
  "regex_close eng regexes expression rest =
     (let suff = takeWhile is_ascii_alphabetic rest;
          after = dropWhile is_ascii_alphabetic rest;
          explicit = list_ex is_regex_meta expression
      in if after \<noteq> [] \<and> \<not> is_whitespace (hd after) \<and> hd after \<noteq> ch CHR '']'' \<and> hd after \<noteq> ch CHR ''|''
         then Inr None
         else if \<not> explicit \<and> \<not> list_all (\<lambda>c. c \<in> set (str ''imsxg'')) suff then Inr None
         else (case collect_flags [] suff of
           None \<Rightarrow> Inl (str ''regex flags must be distinct and drawn from imsx (no g)'')
         | Some flags \<Rightarrow>
             let ignore_ws = ch CHR ''x'' \<in> set flags;
                 anchored = [BACKSLASH] @ str ''A(?:'' @ expression
                   @ (if ignore_ws then [NEWLINE] else []) @ str '')'' @ [BACKSLASH] @ str ''z''
             in if MAX_REGEXES \<le> regexes then Inl (str ''word rules exceed 64 regexes'')
                else (case re_build eng anchored
                    \<lparr>opt_case_insensitive = ch CHR ''i'' \<in> set flags,
                     opt_multi_line = ch CHR ''m'' \<in> set flags,
                     opt_dot_matches_new_line = ch CHR ''s'' \<in> set flags,
                     opt_ignore_whitespace = ignore_ws\<rparr> of
                  Inl e \<Rightarrow> Inl (str ''invalid or oversized value regex: '' @ e)
                | Inr re \<Rightarrow> Inr (Some (Regex re suff, after, regexes + 1)))))"

fun regex_scan ::
    "'re regex_engine \<Rightarrow> nat \<Rightarrow> nat list \<Rightarrow> ustring \<Rightarrow> ustring
       \<Rightarrow> ustring + ('re atom \<times> ustring \<times> nat) option" where
  "regex_scan eng regexes classes expression [] = Inr None"
| "regex_scan eng regexes classes expression (c # rest) =
     (if c = BACKSLASH
      then (case rest of
              [] \<Rightarrow> Inr None
            | escaped # rest' \<Rightarrow>
                regex_scan eng regexes (touch_class classes)
                  (expression @ (if escaped \<noteq> ch CHR ''/'' then [BACKSLASH] else []) @ [escaped]) rest')
      else if c = ch CHR ''/'' \<and> classes = []
      then regex_close eng regexes expression rest
      else regex_scan eng regexes (class_step c classes) (expression @ [c]) rest)"

text \<open>The scan starts behind the opening slash.\<close>

definition regex_token ::
    "'re regex_engine \<Rightarrow> nat \<Rightarrow> ustring \<Rightarrow> ustring + ('re atom \<times> ustring \<times> nat) option" where
  "regex_token eng regexes rest = regex_scan eng regexes [] [] rest"

section \<open>Tokens\<close>

definition punctuation :: "uchar \<Rightarrow> 're token option" where
  "punctuation c =
     (if c = ch CHR ''['' then Some TOpen
      else if c = ch CHR '']'' then Some TClose
      else if c = ch CHR ''|'' then Some TPipe
      else if c = ch CHR ''*'' then Some TStar
      else None)"

definition ends_value :: "uchar \<Rightarrow> bool" where
  "ends_value c \<longleftrightarrow> is_whitespace c \<or> c \<in> set (str ''[]|*'')"

text \<open>Behind an opening quote: the value so far and what follows the closing quote.\<close>

fun scan_quoted :: "uchar \<Rightarrow> ustring \<Rightarrow> ustring \<Rightarrow> ustring + (ustring \<times> ustring)" where
  "scan_quoted quot v [] = Inl (str ''unterminated literal quote'')"
| "scan_quoted quot v (c # cs) =
     (if c = quot then Inr (v, cs)
      else if c = BACKSLASH \<and> quot = DOUBLE_QUOTE
      then (case cs of
              [] \<Rightarrow> Inl (str ''dangling quoted escape'')
            | d # ds \<Rightarrow> scan_quoted quot (v @ [d]) ds)
      else scan_quoted quot (v @ [c]) cs)"

lemma scan_quoted_length: "scan_quoted q v cs = Inr (v', rest) \<Longrightarrow> length rest < length cs"
  by (induction q v cs rule: scan_quoted.induct) (fastforce split: if_splits list.splits)+

function scan_value :: "ustring \<Rightarrow> bool \<Rightarrow> ustring \<Rightarrow> ustring + (ustring \<times> bool \<times> ustring)" where
  "scan_value v quoted [] = Inr (v, quoted, [])"
| "scan_value v quoted (c # cs) =
     (if ends_value c then Inr (v, quoted, c # cs)
      else if c = BACKSLASH
      then (case cs of
              [] \<Rightarrow> Inl (str ''dangling literal escape'')
            | d # ds \<Rightarrow> scan_value (v @ [d]) True ds)
      else if c = SINGLE_QUOTE \<or> c = DOUBLE_QUOTE
      then (case scan_quoted c v cs of
              Inl e \<Rightarrow> Inl e
            | Inr (v', rest) \<Rightarrow> scan_value v' True rest)
      else scan_value (v @ [c]) quoted cs)"
  by pat_completeness auto
termination
  by (relation "measure (\<lambda>(v, q, cs). length cs)") (auto dest: scan_quoted_length)

lemma scan_value_length: "scan_value v q cs = Inr (v', q', rest) \<Longrightarrow> length rest \<le> length cs"
proof (induction v q cs rule: scan_value.induct)
  case (2 v quoted c cs)
  consider (stop) "ends_value c" | (esc) "\<not> ends_value c" "c = BACKSLASH"
    | (quot) "\<not> ends_value c" "c \<noteq> BACKSLASH" "c = SINGLE_QUOTE \<or> c = DOUBLE_QUOTE"
    | (plain) "\<not> ends_value c" "c \<noteq> BACKSLASH" "\<not> (c = SINGLE_QUOTE \<or> c = DOUBLE_QUOTE)"
    by blast
  then show ?case
  proof cases
    case stop
    with 2(4) show ?thesis by simp
  next
    case esc
    with 2(4) obtain d ds where cs: "cs = d # ds" by (cases cs) auto
    with 2(4) esc have "scan_value (v @ [d]) True ds = Inr (v', q', rest)" by simp
    from 2(1)[OF esc cs this] cs show ?thesis by simp
  next
    case quot
    with 2(4) obtain w ds where q: "scan_quoted c v cs = Inr (w, ds)"
      and r: "scan_value w True ds = Inr (v', q', rest)" by (auto split: sum.splits)
    from 2(2)[OF quot q refl r] scan_quoted_length[OF q] show ?thesis by simp
  next
    case plain
    with 2(4) have "scan_value (v @ [c]) quoted cs = Inr (v', q', rest)" by simp
    from 2(3)[OF plain this] show ?thesis by simp
  qed
qed simp

lemma scan_value_consumes:
  assumes "\<not> ends_value c" and "scan_value v q (c # cs) = Inr (v', q', rest)"
  shows "length rest < length (c # cs)"
proof -
  have "\<exists>u q2 ds. length ds \<le> length cs \<and> scan_value u q2 ds = Inr (v', q', rest)"
  proof (cases "c = BACKSLASH")
    case True
    with assms obtain d ds where "cs = d # ds" by (cases cs) auto
    with True assms show ?thesis by (intro exI[of _ "v @ [d]"] exI[of _ True] exI[of _ ds]) simp
  next
    case False
    show ?thesis
    proof (cases "c = SINGLE_QUOTE \<or> c = DOUBLE_QUOTE")
      case True
      with False assms obtain w ds where "scan_quoted c v cs = Inr (w, ds)"
        and "scan_value w True ds = Inr (v', q', rest)" by (auto split: sum.splits)
      then show ?thesis by (meson less_imp_le scan_quoted_length)
    next
      case plain: False
      with False assms have "scan_value (v @ [c]) q cs = Inr (v', q', rest)" by simp
      then show ?thesis by blast
    qed
  qed
  then show ?thesis using scan_value_length by fastforce
qed

lemma regex_close_length:
  assumes "regex_close eng n ex cs = Inr (Some (a, after, m))"
  shows "length after \<le> length cs"
proof -
  from assms have "after = dropWhile is_ascii_alphabetic cs"
    by (simp add: regex_close_def Let_def split: if_splits option.splits sum.splits)
  then show ?thesis by (simp add: length_dropWhile_le)
qed

lemma regex_scan_length:
  "regex_scan eng n cls ex cs = Inr (Some (a, rest, m)) \<Longrightarrow> length rest < length cs"
proof (induction eng n cls ex cs rule: regex_scan.induct)
  case (2 eng n cls ex c cs)
  consider (esc) "c = BACKSLASH" | (close) "c \<noteq> BACKSLASH" "c = ch CHR ''/'' \<and> cls = []"
    | (plain) "c \<noteq> BACKSLASH" "\<not> (c = ch CHR ''/'' \<and> cls = [])" by blast
  then show ?case
  proof cases
    case esc
    with 2(3) obtain d ds where cs: "cs = d # ds" by (cases cs) auto
    with 2(3) esc have "regex_scan eng n (touch_class cls)
        (ex @ (if d \<noteq> ch CHR ''/'' then [BACKSLASH] else []) @ [d]) ds = Inr (Some (a, rest, m))"
      by simp
    from 2(1)[OF esc cs this] cs show ?thesis by simp
  next
    case close
    with 2(3) have "regex_close eng n ex cs = Inr (Some (a, rest, m))" by simp
    then show ?thesis using regex_close_length by fastforce
  next
    case plain
    with 2(3) have "regex_scan eng n (class_step c cls) (ex @ [c]) cs = Inr (Some (a, rest, m))" by simp
    from 2(2)[OF plain this] show ?thesis by simp
  qed
qed simp

definition literal_token :: "bool \<Rightarrow> ustring \<Rightarrow> ustring + 're token" where
  "literal_token quoted v =
     (if \<not> quoted \<and> v = str ''...'' then Inr TRest
      else if \<not> quoted \<and> v = str ''<arg>'' then Inr (TAtom AnyValue)
      else if \<not> quoted \<and> v = str ''<options>'' then Inr TOptions
      else if \<not> quoted \<and> (ch CHR ''<'' \<in> set v \<or> ch CHR ''>'' \<in> set v)
      then Inl (str ''unknown placeholder'')
      else Inr (TAtom (Literal v)))"

text \<open>One round of the loop at a character that is neither white space nor punctuation.\<close>

definition value_token ::
    "'re regex_engine \<Rightarrow> nat \<Rightarrow> bool \<Rightarrow> uchar \<Rightarrow> ustring \<Rightarrow> ustring + ('re token \<times> ustring \<times> nat)" where
  "value_token eng regexes is_first c cs =
     (case (if c = ch CHR ''/'' \<and> \<not> is_first then regex_token eng regexes cs else Inr None) of
        Inl e \<Rightarrow> Inl e
      | Inr (Some (atom, rest, n)) \<Rightarrow> Inr (TAtom atom, rest, n)
      | Inr None \<Rightarrow>
          (case scan_value [] False (c # cs) of
             Inl e \<Rightarrow> Inl e
           | Inr (v, quoted, rest) \<Rightarrow>
               (case literal_token quoted v of
                  Inl e \<Rightarrow> Inl e
                | Inr token \<Rightarrow> Inr (token, rest, regexes))))"

lemma punctuation_None: "\<not> is_whitespace c \<Longrightarrow> punctuation c = None \<longleftrightarrow> \<not> ends_value c"
  by (auto simp: punctuation_def ends_value_def str_Cons)

lemma value_token_length:
  assumes "\<not> ends_value c" and "value_token eng n f c cs = Inr (t, rest, m)"
  shows "length rest \<le> length cs"
proof (cases "if c = ch CHR ''/'' \<and> \<not> f then regex_token eng n cs else Inr None")
  case (Inl e)
  with assms(2) show ?thesis by (simp add: value_token_def)
next
  case (Inr r)
  show ?thesis
  proof (cases r)
    case None
    with Inr assms(2) obtain v q where "scan_value [] False (c # cs) = Inr (v, q, rest)"
      by (auto simp: value_token_def simp del: scan_value.simps split: sum.splits)
    from scan_value_consumes[OF assms(1) this] show ?thesis by simp
  next
    case (Some x)
    then obtain a where x: "r = Some (a, rest, m)"
      using Inr assms(2) by (cases x) (simp add: value_token_def)
    with Inr have "regex_scan eng n [] [] cs = Inr (Some (a, rest, m))"
      by (simp add: regex_token_def split: if_splits)
    from regex_scan_length[OF this] show ?thesis by simp
  qed
qed

function tokenize_loop ::
    "'re regex_engine \<Rightarrow> nat \<Rightarrow> 're token list \<Rightarrow> ustring \<Rightarrow> ustring + ('re token list \<times> nat)" where
  "tokenize_loop eng regexes tokens [] = Inr (tokens, regexes)"
| "tokenize_loop eng regexes tokens (c # cs) =
     (if is_whitespace c then tokenize_loop eng regexes tokens cs
      else (case punctuation c of
              Some token \<Rightarrow> tokenize_loop eng regexes (tokens @ [token]) cs
            | None \<Rightarrow>
                (case value_token eng regexes (tokens = []) c cs of
                   Inl e \<Rightarrow> Inl e
                 | Inr (token, rest, n) \<Rightarrow> tokenize_loop eng n (tokens @ [token]) rest)))"
  by pat_completeness auto
termination
  by (relation "measure (\<lambda>(eng, n, ts, cs). length cs)")
    (auto simp: punctuation_None less_Suc_eq_le dest: value_token_length)

definition tokenize :: "'re regex_engine \<Rightarrow> ustring \<Rightarrow> nat \<Rightarrow> ustring + ('re token list \<times> nat)" where
  "tokenize eng pattern regexes =
     (if byte_len pattern > MAX_PATTERN_BYTES then Inl (str ''word pattern exceeds 1024 bytes'')
      else tokenize_loop eng regexes [] pattern)"

section \<open>Compilation\<close>

type_synonym 're edge = "'re atom option \<times> nat"

record 're word_rule =
  wr_pattern :: ustring
  wr_action :: action
  wr_index :: nat
  wr_edges :: "'re edge list list"
  wr_accept :: nat
  wr_specificity :: "nat \<times> nat"
  wr_broad :: bool
  wr_regex_flags :: "ustring list"

definition preview_metadata :: "'re word_rule \<Rightarrow> bool \<times> ustring list" where
  "preview_metadata r = (wr_broad r, wr_regex_flags r)"

definition edges_of :: "'re word_rule \<Rightarrow> nat \<Rightarrow> 're edge list" where
  "edges_of r s = (case get (wr_edges r) s of None \<Rightarrow> [] | Some es \<Rightarrow> es)"

definition new_state :: "'re word_rule \<Rightarrow> ustring + ('re word_rule \<times> nat)" where
  "new_state r =
     (if MAX_STATES \<le> length (wr_edges r) then Inl (str ''word pattern exceeds state limit'')
      else Inr (r\<lparr>wr_edges := wr_edges r @ [[]]\<rparr>, length (wr_edges r)))"

definition add_edge :: "nat \<Rightarrow> nat \<Rightarrow> 're atom option \<Rightarrow> 're word_rule \<Rightarrow> 're word_rule" where
  "add_edge src dst a r = r\<lparr>wr_edges := (wr_edges r)[src := edges_of r src @ [(a, dst)]]\<rparr>"

definition add_atom :: "nat \<Rightarrow> 're atom \<Rightarrow> 're word_rule \<Rightarrow> ustring + ('re word_rule \<times> nat)" where
  "add_atom src a r =
     (case new_state r of
        Inl e \<Rightarrow> Inl e
      | Inr (r', dst) \<Rightarrow> Inr (add_edge src dst (Some a) r', dst))"

definition group_error :: ustring where
  "group_error = str ''groups require nonempty atomic value branches; no nesting/rest/options''"

fun group_loop ::
    "nat \<Rightarrow> nat \<Rightarrow> nat \<Rightarrow> nat \<Rightarrow> 're word_rule \<Rightarrow> 're token list \<Rightarrow> ustring + ('re word_rule \<times> 're token list)" where
  "group_loop start fin branch count r (TAtom a # ts) =
     (case add_atom branch a r of
        Inl e \<Rightarrow> Inl e
      | Inr (r', branch') \<Rightarrow> group_loop start fin branch' (count + 1) r' ts)"
| "group_loop start fin branch count r (TPipe # ts) =
     (if 0 < count then group_loop start fin start 0 (add_edge branch fin None r) ts
      else Inl group_error)"
| "group_loop start fin branch count r (TClose # ts) =
     (if 0 < count then Inr (add_edge branch fin None r, ts) else Inl group_error)"
| "group_loop start fin branch count r ts = Inl group_error"

lemma group_loop_length: "group_loop s f b n r ts = Inr (r', rest) \<Longrightarrow> length rest < length ts"
  by (induction s f b n r ts rule: group_loop.induct) (fastforce split: if_splits sum.splits)+

definition syntax_error :: ustring where
  "syntax_error = str ''unexpected syntax; ... must be trailing and * must follow a group/options''"

definition bump_literals :: "'re word_rule \<Rightarrow> 're word_rule" where
  "bump_literals r = r\<lparr>wr_specificity := (fst (wr_specificity r) + 1, snd (wr_specificity r))\<rparr>"

definition bump_groups :: "'re word_rule \<Rightarrow> 're word_rule" where
  "bump_groups r = r\<lparr>wr_specificity := (fst (wr_specificity r), snd (wr_specificity r) + 1)\<rparr>"

definition is_literal :: "'re atom \<Rightarrow> bool" where
  "is_literal a \<longleftrightarrow> (case a of Literal _ \<Rightarrow> True | _ \<Rightarrow> False)"

text \<open>\<open>Token::Options\<close> followed by \<open>*\<close>.\<close>

definition add_options :: "nat \<Rightarrow> 're word_rule \<Rightarrow> ustring + ('re word_rule \<times> nat)" where
  "add_options current r =
     (case new_state r of
        Inl e \<Rightarrow> Inl e
      | Inr (r1, fin) \<Rightarrow>
          (let r2 = add_edge current current (Some OptionAtom) (add_edge current fin None r1)
           in case add_atom current OptionWithValue r2 of
                Inl e \<Rightarrow> Inl e
              | Inr (r3, val) \<Rightarrow>
                  Inr (add_edge current fin (Some OptionsEnd)
                         (add_edge val current (Some OptionValue) r3), fin)))"

text \<open>\<open>Token::Open\<close>: the group, a following \<open>*\<close>, and the tokens behind it.\<close>

definition add_group ::
    "nat \<Rightarrow> 're word_rule \<Rightarrow> 're token list \<Rightarrow> ustring + ('re word_rule \<times> nat \<times> 're token list)" where
  "add_group start r ts =
     (case new_state r of
        Inl e \<Rightarrow> Inl e
      | Inr (r1, fin) \<Rightarrow>
          (case group_loop start fin start 0 (add_edge start fin None r1) ts of
             Inl e \<Rightarrow> Inl e
           | Inr (r2, rest) \<Rightarrow>
               (case rest of
                  TStar # rest' \<Rightarrow> Inr (bump_groups (add_edge fin start None r2), fin, rest')
                | _ \<Rightarrow> Inr (bump_groups r2, fin, rest))))"

lemma add_group_length: "add_group s r ts = Inr (r', f, rest) \<Longrightarrow> length rest < length ts"
  by (auto simp: add_group_def split: sum.splits list.splits token.splits dest!: group_loop_length)

function parse_loop ::
    "nat \<Rightarrow> nat \<Rightarrow> 're word_rule \<Rightarrow> 're token list \<Rightarrow> ustring + ('re word_rule \<times> nat)" where
  "parse_loop segments current r [] = Inr (r, current)"
| "parse_loop segments current r (token # ts) =
     (if segments + 1 > MAX_SEGMENTS then Inl (str ''word pattern exceeds 32 segments'')
      else (case token of
        TAtom a \<Rightarrow>
          (case add_atom current a (if is_literal a then bump_literals r else r) of
             Inl e \<Rightarrow> Inl e
           | Inr (r', current') \<Rightarrow> parse_loop (segments + 1) current' r' ts)
      | TRest \<Rightarrow>
          (if ts = [] then parse_loop (segments + 1) current (add_edge current current (Some AnyValue) r) ts
           else Inl syntax_error)
      | TOptions \<Rightarrow>
          (case ts of
             TStar # ts' \<Rightarrow>
               (case add_options current r of
                  Inl e \<Rightarrow> Inl e
                | Inr (r', current') \<Rightarrow> parse_loop (segments + 1) current' r' ts')
           | _ \<Rightarrow> Inl syntax_error)
      | TOpen \<Rightarrow>
          (case add_group current r ts of
             Inl e \<Rightarrow> Inl e
           | Inr (r', current', rest) \<Rightarrow> parse_loop (segments + 1) current' r' rest)
      | _ \<Rightarrow> Inl syntax_error))"
  by pat_completeness auto
termination
  by (relation "measure (\<lambda>(n, c, r, ts). length ts)") (auto dest: add_group_length)

definition is_literal_token :: "'re token \<Rightarrow> bool" where
  "is_literal_token t \<longleftrightarrow> (case t of TAtom a \<Rightarrow> is_literal a | _ \<Rightarrow> False)"

definition regex_suffix :: "'re token \<Rightarrow> ustring option" where
  "regex_suffix t = (case t of TAtom (Regex re suff) \<Rightarrow> Some suff | _ \<Rightarrow> None)"

definition empty_rule :: "ustring \<Rightarrow> action \<Rightarrow> 're token list \<Rightarrow> 're word_rule" where
  "empty_rule pattern act tokens = \<lparr>wr_pattern = pattern, wr_action = act, wr_index = 0,
     wr_edges = [[]], wr_accept = 0, wr_specificity = (0, 0),
     wr_broad = list_ex (\<lambda>t. \<not> is_literal_token t) tokens,
     wr_regex_flags = List.map_filter regex_suffix tokens\<rparr>"

definition parse_tokens :: "ustring \<Rightarrow> action \<Rightarrow> 're token list \<Rightarrow> ustring + 're word_rule" where
  "parse_tokens pattern act tokens =
     (case tokens of
        TAtom (Literal v) # _ \<Rightarrow>
          (if v = [] then Inl (str ''a word pattern must start with a nonempty literal executable'')
           else (case parse_loop 0 0 (empty_rule pattern act tokens) tokens of
                   Inl e \<Rightarrow> Inl e
                 | Inr (r, current) \<Rightarrow> Inr (r\<lparr>wr_accept := current\<rparr>)))
      | _ \<Rightarrow> Inl (str ''a word pattern must start with a nonempty literal executable''))"

definition parse_with_budget ::
    "'re regex_engine \<Rightarrow> ustring \<Rightarrow> action \<Rightarrow> nat \<Rightarrow> ustring + ('re word_rule \<times> nat)" where
  "parse_with_budget eng pattern act regexes =
     (case tokenize eng pattern regexes of
        Inl e \<Rightarrow> Inl e
      | Inr (tokens, n) \<Rightarrow>
          (case parse_tokens pattern act tokens of
             Inl e \<Rightarrow> Inl e
           | Inr r \<Rightarrow> Inr (r, n)))"

end
