(* ===== verification/Word_Language.thy ===== *)
theory Word_Language
  imports Word_Patterns
begin

text \<open>
  What a compiled word rule accepts. \<open>run\<close> walks the automaton over a concrete argument
  vector with the flag that a \<open>--\<close> has been consumed, which closes the option atoms;
  \<open>pattern_lang\<close> is the meaning of the pattern as its module documentation tells it, segment
  by segment. The compilation is proved to accept everything the pattern means, and
  nothing else unless a repeated group is directly followed by another repetition.
\<close>

section \<open>Runs of an automaton\<close>

type_synonym 're graph = "(nat \<times> 're atom option \<times> nat) set"

definition gset :: "'re word_rule \<Rightarrow> 're graph" where
  "gset r = {(s, a, t). (a, t) \<in> set (edges_of r s)}"

fun option_atom :: "'re atom \<Rightarrow> bool" where
  "option_atom OptionAtom = True"
| "option_atom OptionWithValue = True"
| "option_atom OptionValue = True"
| "option_atom OptionsEnd = True"
| "option_atom _ = False"

definition ended :: "bool \<Rightarrow> ustring list \<Rightarrow> bool" where
  "ended e ws \<longleftrightarrow> e \<or> str ''--'' \<in> set ws"

lemma ended_Nil [simp]: "ended e [] = e"
  by (simp add: ended_def)

lemma ended_Cons [simp]: "ended e (w # ws) = ended (e \<or> w = str ''--'') ws"
  by (auto simp: ended_def)

lemma ended_append [simp]: "ended e (u @ v) = ended (ended e u) v"
  by (auto simp: ended_def)

inductive run :: "'re regex_engine \<Rightarrow> 're graph \<Rightarrow> nat \<Rightarrow> bool \<Rightarrow> ustring list \<Rightarrow> nat \<Rightarrow> bool \<Rightarrow> bool"
  for eng E where
  run_nil: "run eng E s e [] s e"
| run_eps: "(s, None, t) \<in> E \<Longrightarrow> run eng E t e ws u e' \<Longrightarrow> run eng E s e ws u e'"
| run_word: "(s, Some a, t) \<in> E \<Longrightarrow> \<not> (e \<and> option_atom a) \<Longrightarrow> accepts eng a w \<Longrightarrow>
    run eng E t (e \<or> w = str ''--'') ws u e' \<Longrightarrow> run eng E s e (w # ws) u e'"

definition accepts_words :: "'re regex_engine \<Rightarrow> 're word_rule \<Rightarrow> ustring list \<Rightarrow> bool" where
  "accepts_words eng r ws \<longleftrightarrow> (\<exists>e. run eng (gset r) 0 False ws (wr_accept r) e)"

lemma run_ended: "run eng E s e ws t e' \<Longrightarrow> e' = ended e ws"
  by (induction rule: run.induct) auto

lemma run_mono: "run eng E s e ws t e' \<Longrightarrow> E \<subseteq> E' \<Longrightarrow> run eng E' s e ws t e'"
  by (induction rule: run.induct) (blast intro: run.intros)+

lemma run_append:
  "run eng E s e u t e' \<Longrightarrow> run eng E t e' v x e'' \<Longrightarrow> run eng E s e (u @ v) x e''"
  by (induction rule: run.induct) (auto intro: run.intros)

lemma run_eps_snoc: "run eng E s e ws t e' \<Longrightarrow> (t, None, x) \<in> E \<Longrightarrow> run eng E s e ws x e'"
  using run_append[of eng E s e ws t e' "[]" x e'] by (simp add: run_nil run_eps)

text \<open>A state without outgoing edges ends every run; one without incoming edges starts it.\<close>

lemma run_from_dead:
  assumes "run eng E s e ws t e'" and "\<And>a x. (s, a, x) \<notin> E"
  shows "ws = [] \<and> t = s \<and> e' = e"
  using assms by (cases rule: run.cases) auto

lemma run_to_source:
  "run eng E s e ws t e' \<Longrightarrow> s \<noteq> t \<Longrightarrow> \<exists>x a. (x, a, t) \<in> E"
  by (induction rule: run.induct) blast+

lemma run_loop_free:
  assumes "run eng E s e ws s e'" and "\<And>a x. (x, a, s) \<notin> E"
  shows "ws = [] \<and> e' = e"
  using assms(1)
proof (cases rule: run.cases)
  case (run_eps t)
  then show ?thesis using run_to_source[of eng E t e ws s e'] assms(2) by blast
next
  case (run_word a t w ws')
  then show ?thesis using run_to_source[of eng E t "e \<or> w = str ''--''" ws' s e'] assms(2) by blast
qed simp

text \<open>
  Two ways of growing a graph. In \<open>run_grow_forward\<close> the new edges leave \<open>c\<close> and never come
  back; in \<open>run_grow_dead_end\<close> they may come back to \<open>c\<close>, which had no edges of its own.
\<close>

lemma run_inside:
  assumes "run eng (E \<union> N) s e ws t e'" and "s \<in> D"
    and "\<And>x a y. (x, a, y) \<in> E \<Longrightarrow> x \<notin> D" and "\<And>x a y. (x, a, y) \<in> N \<Longrightarrow> y \<in> D"
  shows "run eng N s e ws t e' \<and> t \<in> D"
  using assms
proof (induction rule: run.induct)
  case (run_eps s t e ws u e')
  then have "(s, None, t) \<in> N" and "t \<in> D" by blast+
  with run_eps show ?case by (blast intro: run.run_eps)
next
  case (run_word s a t e w ws u e')
  then have "(s, Some a, t) \<in> N" and "t \<in> D" by blast+
  with run_word show ?case by (blast intro: run.run_word)
qed (blast intro: run_nil)

lemma run_grow_forward:
  assumes "run eng (E \<union> N) s e ws t e'" and "s \<notin> D"
    and E: "\<And>x a y. (x, a, y) \<in> E \<Longrightarrow> x \<notin> D \<and> y \<notin> D"
    and N: "\<And>x a y. (x, a, y) \<in> N \<Longrightarrow> (x = c \<or> x \<in> D) \<and> y \<in> D"
  shows "if t \<in> D then \<exists>u v m. ws = u @ v \<and> run eng E s e u c m \<and> run eng N c m v t e'
         else run eng E s e ws t e'"
  using assms(1,2)
proof (induction rule: run.induct)
  case (run_nil s e)
  then show ?case by (auto intro: run.run_nil)
next
  case (run_eps s t e ws u e')
  show ?case
  proof (cases "(s, None, t) \<in> E")
    case True
    with E run_eps.IH show ?thesis by (metis run.run_eps)
  next
    case False
    with run_eps have s: "s = c" "(s, None, t) \<in> N" "t \<in> D" using N by blast+
    from run_inside[OF run_eps.hyps(2) s(3)] E N have "run eng N t e ws u e'" "u \<in> D" by blast+
    with s show ?thesis by (metis append_Nil run.run_eps run.run_nil)
  qed
next
  case (run_word s a t e w ws u e')
  show ?case
  proof (cases "(s, Some a, t) \<in> E")
    case True
    with E have "t \<notin> D" by blast
    show ?thesis
    proof (cases "u \<in> D")
      case u: True
      with run_word.IH \<open>t \<notin> D\<close> obtain x y m where "ws = x @ y"
        "run eng E t (e \<or> w = str ''--'') x c m" "run eng N c m y u e'" by auto
      with True run_word.hyps have "w # ws = (w # x) @ y" "run eng E s e (w # x) c m"
        by (auto intro: run.run_word)
      with u \<open>run eng N c m y u e'\<close> show ?thesis by (metis (full_types))
    next
      case u: False
      with run_word.IH \<open>t \<notin> D\<close> have "run eng E t (e \<or> w = str ''--'') ws u e'" by simp
      with True run_word.hyps have "run eng E s e (w # ws) u e'" by (blast intro: run.run_word)
      with u show ?thesis by simp
    qed
  next
    case False
    with run_word have s: "s = c" "(s, Some a, t) \<in> N" "t \<in> D" using N by blast+
    from run_inside[OF run_word.hyps(4) s(3)] E N
    have "run eng N t (e \<or> w = str ''--'') ws u e'" "u \<in> D" by blast+
    with s run_word.hyps show ?thesis by (metis append_Nil run.run_word run.run_nil)
  qed
qed

lemma run_grow_dead_end:
  assumes "run eng (E \<union> M) s e ws t e'" and "s \<notin> D" and "t \<in> D \<or> t = c" and "c \<notin> D"
    and E: "\<And>x a y. (x, a, y) \<in> E \<Longrightarrow> x \<notin> D \<and> y \<notin> D \<and> x \<noteq> c"
    and M: "\<And>x a y. (x, a, y) \<in> M \<Longrightarrow> (x = c \<or> x \<in> D) \<and> (y = c \<or> y \<in> D)"
  shows "\<exists>u v m. ws = u @ v \<and> run eng E s e u c m \<and> run eng M c m v t e'"
  using assms(1-3)
proof (induction rule: run.induct)
  case (run_nil s e)
  then show ?case by (auto intro: run.run_nil)
next
  case (run_eps s t e ws u e')
  show ?case
  proof (cases "s = c")
    case True
    from run_eps.hyps have "run eng (E \<union> M) s e ws u e'" by (blast intro: run.run_eps)
    from run_inside[OF this, where D = "insert c D"] True E M have "run eng M c e ws u e'" by blast
    with True show ?thesis by (metis append_Nil run.run_nil)
  next
    case False
    with run_eps M have "(s, None, t) \<in> E" by blast
    with E run_eps show ?thesis by (metis run.run_eps)
  qed
next
  case (run_word s a t e w ws u e')
  show ?case
  proof (cases "s = c")
    case True
    from run_word.hyps have "run eng (E \<union> M) s e (w # ws) u e'" by (blast intro: run.run_word)
    from run_inside[OF this, where D = "insert c D"] True E M have "run eng M c e (w # ws) u e'" by blast
    with True show ?thesis by (metis append_Nil run.run_nil)
  next
    case False
    with run_word M have s: "(s, Some a, t) \<in> E" by blast
    with E have "t \<notin> D" by blast
    with run_word obtain x y m where "ws = x @ y"
      "run eng E t (e \<or> w = str ''--'') x c m" "run eng M c m y u e'" by blast
    with s run_word.hyps show ?thesis by (metis append_Cons run.run_word)
  qed
qed

text \<open>An added empty edge into a state without outgoing edges adds the runs to its source.\<close>

lemma run_add_exit:
  assumes "run eng (insert (b, None, f) E) s e ws t e'" and "t = f"
    and dead: "\<And>a x. (f, a, x) \<notin> E" and "b \<noteq> f"
  shows "run eng E s e ws f e' \<or> run eng E s e ws b e'"
  using assms(1,2)
proof (induction rule: run.induct)
  case (run_eps s t e ws u e')
  show ?case
  proof (cases "(s, None, t) \<in> E")
    case True
    with run_eps show ?thesis by (blast intro: run.run_eps)
  next
    case False
    with run_eps have "s = b" "t = f" by blast+
    with run_eps dead \<open>b \<noteq> f\<close> have "ws = [] \<and> e' = e"
      using run_from_dead[of eng "insert (b, None, f) E" f e ws u e'] by blast
    with \<open>s = b\<close> show ?thesis by (simp add: run.run_nil)
  qed
qed (blast intro: run.intros)+

section \<open>Growing a rule\<close>

definition within :: "nat \<Rightarrow> 're graph \<Rightarrow> bool" where
  "within n E \<longleftrightarrow> (\<forall>(s, a, t) \<in> E. s < n \<and> t < n)"

definition states :: "'re word_rule \<Rightarrow> nat" where
  "states r = length (wr_edges r)"

definition graph_ok :: "'re word_rule \<Rightarrow> bool" where
  "graph_ok r \<longleftrightarrow> 0 < states r \<and> states r \<le> MAX_STATES \<and> within (states r) (gset r)"

lemma edges_of_lt: "(a, t) \<in> set (edges_of r s) \<Longrightarrow> s < states r"
  by (auto simp: edges_of_def get_eq states_def split: if_splits)

lemma gset_add_edge [simp]:
  assumes "s < states r"
  shows "gset (add_edge s t a r) = insert (s, a, t) (gset r)"
  using assms by (auto simp: gset_def add_edge_def edges_of_def get_eq states_def nth_list_update
      split: if_splits)

lemma states_add_edge [simp]: "states (add_edge s t a r) = states r"
  by (simp add: states_def add_edge_def)

lemma new_state_Inr:
  "new_state r = Inr (r', d) \<longleftrightarrow> d = states r \<and> d < MAX_STATES \<and> r' = r\<lparr>wr_edges := wr_edges r @ [[]]\<rparr>"
  by (auto simp: new_state_def states_def)

lemma new_state_graph:
  assumes "new_state r = Inr (r', d)"
  shows "gset r' = gset r" and "states r' = Suc (states r)" and "d = states r" and "d < MAX_STATES"
  using assms
  by (auto simp: new_state_Inr gset_def edges_of_def get_eq states_def nth_append split: if_splits)

lemma add_atom_graph:
  assumes "add_atom s a r = Inr (r', d)" and "s < states r"
  shows "gset r' = insert (s, Some a, d) (gset r)" and "states r' = Suc (states r)"
    and "d = states r" and "d < MAX_STATES"
  using assms new_state_graph[of r _ d] by (auto simp: add_atom_def split: sum.splits)

lemma bump_graph [simp]:
  "gset (bump_literals r) = gset r" "states (bump_literals r) = states r"
  "gset (bump_groups r) = gset r" "states (bump_groups r) = states r"
  by (simp_all add: gset_def states_def edges_of_def bump_literals_def bump_groups_def)

lemma within_mono: "within n E \<Longrightarrow> n \<le> m \<Longrightarrow> within m E"
  by (fastforce simp: within_def)

lemma within_insert [simp]: "within n (insert (s, a, t) E) \<longleftrightarrow> s < n \<and> t < n \<and> within n E"
  by (auto simp: within_def)

lemma within_Un [simp]: "within n (E \<union> F) \<longleftrightarrow> within n E \<and> within n F"
  by (simp add: within_def ball_Un)

lemma withinD: "within n E \<Longrightarrow> (s, a, t) \<in> E \<Longrightarrow> s < n \<and> t < n"
  by (auto simp: within_def)

section \<open>The language of a group\<close>

fun atoms_lang :: "'re regex_engine \<Rightarrow> 're atom list \<Rightarrow> bool \<Rightarrow> ustring list \<Rightarrow> bool" where
  "atoms_lang eng [] e ws \<longleftrightarrow> ws = []"
| "atoms_lang eng (a # as) e [] \<longleftrightarrow> False"
| "atoms_lang eng (a # as) e (w # ws) \<longleftrightarrow>
     \<not> (e \<and> option_atom a) \<and> accepts eng a w \<and> atoms_lang eng as (e \<or> w = str ''--'') ws"

lemma atoms_lang_snoc:
  "atoms_lang eng (as @ [a]) e ws \<longleftrightarrow>
     (\<exists>u w. ws = u @ [w] \<and> atoms_lang eng as e u \<and> \<not> (ended e u \<and> option_atom a) \<and> accepts eng a w)"
proof (induction as arbitrary: e ws)
  case Nil
  show ?case
  proof (cases ws)
    case (Cons w ws')
    then show ?thesis by (cases ws') auto
  qed simp
next
  case (Cons b as)
  show ?case
  proof (cases ws)
    case (Cons w ws')
    then have "(\<exists>u x. w # ws' = u @ [x] \<and> atoms_lang eng (b # as) e u \<and>
          \<not> (ended e u \<and> option_atom a) \<and> accepts eng a x) \<longleftrightarrow>
        (\<exists>u x. ws' = u @ [x] \<and> atoms_lang eng (b # as) e (w # u) \<and>
          \<not> (ended e (w # u) \<and> option_atom a) \<and> accepts eng a x)"
      by (auto simp: Cons_eq_append_conv)
    with Cons Cons.IH[of "e \<or> w = str ''--''" ws'] show ?thesis by auto
  qed simp
qed

text \<open>
  The state of the group loop: \<open>n\<close> is the end state of the group, \<open>N\<close> the edges it has added
  to \<open>E\<close>, \<open>as\<close> the atoms of the open branch up to the state \<open>br\<close>, \<open>B\<close> the finished branches.
\<close>

definition group_edges :: "nat \<Rightarrow> nat \<Rightarrow> nat \<Rightarrow> 're graph \<Rightarrow> bool" where
  "group_edges c n m N \<longleftrightarrow> (\<forall>(s, a, t) \<in> N. (s = c \<or> n < s \<and> s < m) \<and> n \<le> t \<and> t < m)"

definition group_runs :: "'re regex_engine \<Rightarrow> nat \<Rightarrow> nat \<Rightarrow> 're graph \<Rightarrow> 're atom list set \<Rightarrow> bool" where
  "group_runs eng c n N B \<longleftrightarrow> (\<forall>e v e'. run eng N c e v n e' \<longleftrightarrow>
     (v = [] \<or> (\<exists>b \<in> B. atoms_lang eng b e v)) \<and> e' = ended e v)"

definition chain_state ::
    "'re regex_engine \<Rightarrow> nat \<Rightarrow> nat \<Rightarrow> 're graph \<Rightarrow> 're word_rule \<Rightarrow> 're graph \<Rightarrow> nat \<Rightarrow> 're atom list
       \<Rightarrow> 're atom list set \<Rightarrow> bool" where
  "chain_state eng c n E r N br as B \<longleftrightarrow>
     gset r = E \<union> N \<and> within n E \<and> c < n \<and> n < states r \<and> states r \<le> MAX_STATES \<and>
     group_edges c n (states r) N \<and>
     (br = c \<and> as = [] \<or> n < br \<and> br < states r \<and> (\<forall>a t. (br, a, t) \<notin> N)) \<and>
     (\<forall>e v e'. run eng N c e v br e' \<longleftrightarrow> atoms_lang eng as e v \<and> e' = ended e v) \<and>
     group_runs eng c n N B"

lemma chain_state_br: "chain_state eng c n E r N br as B \<Longrightarrow> br < states r"
  by (auto simp: chain_state_def)

lemma chain_state_end: "chain_state eng c n E r N br as B \<Longrightarrow> (n, a, t) \<notin> N"
  by (auto simp: chain_state_def group_edges_def)

lemma chain_state_start: "chain_state eng c n E r N br as B \<Longrightarrow> (s, a, c) \<notin> N"
  by (auto simp: chain_state_def group_edges_def)

lemma run_single_edge:
  assumes "run eng {(s, Some a, t)} s e ws t e'" and "s \<noteq> t"
  shows "\<exists>w. ws = [w] \<and> \<not> (e \<and> option_atom a) \<and> accepts eng a w"
  using assms(1)
proof (cases rule: run.cases)
  case (run_word b x w ws')
  with assms(2) have "ws' = []"
    using run_from_dead[of eng "{(s, Some a, t)}" x "e \<or> w = str ''--''" ws' t e'] by auto
  with run_word show ?thesis by auto
qed (use assms in auto)

lemma chain_state_atom:
  assumes st: "chain_state eng c n E r N br as B" and add: "add_atom br a r = Inr (r', d)"
  shows "chain_state eng c n E r' (insert (br, Some a, d) N) d (as @ [a]) B"
proof -
  note g = add_atom_graph[OF add chain_state_br[OF st]]
  let ?N = "insert (br, Some a, d) N"
  have br: "br < d" "d \<noteq> n" "n < d" "c < n" and edges: "group_edges c n d N"
    using st g by (auto simp: chain_state_def)
  have fresh: "x \<noteq> d \<and> y \<noteq> d" if "(x, b, y) \<in> N" for x b y
    using edges that br by (auto simp: group_edges_def)
  have grow: "if t = d then \<exists>u v m. ws = u @ v \<and> run eng N c e u br m \<and> run eng {(br, Some a, d)} br m v t e'
      else run eng N c e ws t e'" if "run eng ?N c e ws t e'" for e ws t e'
    using run_grow_forward[of eng N "{(br, Some a, d)}" c e ws t e' "{d}" br] that fresh br by auto
  have to_d: "run eng ?N c e v d e' \<longleftrightarrow> atoms_lang eng (as @ [a]) e v \<and> e' = ended e v" for e v e'
  proof
    assume r: "run eng ?N c e v d e'"
    with grow[OF r] obtain u w m where uw: "v = u @ w" "run eng N c e u br m"
      "run eng {(br, Some a, d)} br m w d e'" by auto
    moreover from uw st have "atoms_lang eng as e u \<and> m = ended e u" by (auto simp: chain_state_def)
    moreover from run_single_edge[OF uw(3)] br obtain x where "w = [x]" "\<not> (m \<and> option_atom a)" "accepts eng a x"
      by auto
    ultimately show "atoms_lang eng (as @ [a]) e v \<and> e' = ended e v"
      using run_ended[OF r] by (auto simp: atoms_lang_snoc)
  next
    assume l: "atoms_lang eng (as @ [a]) e v \<and> e' = ended e v"
    then obtain u w where uw: "v = u @ [w]" "atoms_lang eng as e u" "\<not> (ended e u \<and> option_atom a)" "accepts eng a w"
      by (auto simp: atoms_lang_snoc)
    with st have "run eng N c e u br (ended e u)" by (auto simp: chain_state_def)
    then have "run eng ?N c e u br (ended e u)" by (rule run_mono) auto
    moreover have "run eng ?N br (ended e u) [w] d (ended e v)"
      using uw run_word[of br a d ?N "ended e u" eng w "[]" d] by (auto intro: run_nil)
    ultimately show "run eng ?N c e v d e'" using run_append uw l by blast
  qed
  have to_n: "run eng ?N c e v n e' \<longleftrightarrow> run eng N c e v n e'" for e v e'
    using grow[of e v n e'] br run_mono[of eng N c e v n e' ?N] by (auto split: if_splits)
  have dead: "(d, b, t) \<notin> ?N" for b t using fresh br by auto
  show ?thesis
    using st g br edges to_d to_n dead
    by (auto simp: chain_state_def group_runs_def group_edges_def)
qed

lemma chain_state_exit:
  assumes st: "chain_state eng c n E r N br as B" and ne: "as \<noteq> []"
  shows "chain_state eng c n E (add_edge br n None r) (insert (br, None, n) N) c [] (insert as B)"
proof -
  let ?N = "insert (br, None, n) N"
  have br: "n < br" "br < states r" using st ne by (auto simp: chain_state_def)
  have c: "c < n" using st by (simp add: chain_state_def)
  have start: "(s, a, c) \<notin> ?N" for s a using chain_state_start[OF st] c by auto
  have to_c: "run eng ?N c e v c e' \<longleftrightarrow> v = [] \<and> e' = e" for e v e'
    using run_loop_free[of eng ?N c e v e'] start by (auto intro: run_nil)
  have to_n: "run eng ?N c e v n e' \<longleftrightarrow> run eng N c e v n e' \<or> run eng N c e v br e'" for e v e'
  proof
    assume "run eng ?N c e v n e'"
    with run_add_exit[of eng br n N c e v n e'] chain_state_end[OF st] br
    show "run eng N c e v n e' \<or> run eng N c e v br e'" by auto
  next
    assume "run eng N c e v n e' \<or> run eng N c e v br e'"
    then show "run eng ?N c e v n e'"
    proof
      assume "run eng N c e v n e'"
      then show ?thesis by (rule run_mono) auto
    next
      assume "run eng N c e v br e'"
      then have "run eng ?N c e v br e'" by (rule run_mono) auto
      then show ?thesis by (rule run_eps_snoc) simp
    qed
  qed
  show ?thesis
    using st br c to_c to_n
    by (auto simp: chain_state_def group_runs_def group_edges_def)
qed

definition branch_tail :: "'re atom list list \<Rightarrow> 're token list" where
  "branch_tail bs = concat (map (\<lambda>b. TPipe # map TAtom b) bs)"

lemma branch_tail_simps [simp]:
  "branch_tail [] = []" "branch_tail (b # bs) = TPipe # map TAtom b @ branch_tail bs"
  by (simp_all add: branch_tail_def)

lemma group_loop_runs:
  assumes "group_loop c n br k r ts = Inr (r', rest)" and "chain_state eng c n E r N br as B"
    and "0 < k \<longleftrightarrow> as \<noteq> []"
  shows "\<exists>as' bs N'. ts = map TAtom as' @ branch_tail bs @ TClose # rest
    \<and> as @ as' \<noteq> [] \<and> [] \<notin> set bs
    \<and> chain_state eng c n E r' N' c [] (insert (as @ as') (B \<union> set bs))"
  using assms
proof (induction c n br k r ts arbitrary: N as B rule: group_loop.induct)
  case (1 c n br k r a ts)
  from 1(2) obtain r1 d where add: "add_atom br a r = Inr (r1, d)"
    and loop: "group_loop c n d (k + 1) r1 ts = Inr (r', rest)" by (auto split: sum.splits)
  from 1(1)[OF add refl loop chain_state_atom[OF 1(3) add]] obtain as' bs N' where
    "ts = map TAtom as' @ branch_tail bs @ TClose # rest" "[] \<notin> set bs"
    "chain_state eng c n E r' N' c [] (insert ((as @ [a]) @ as') (B \<union> set bs))" by auto
  then show ?case by (intro exI[of _ "a # as'"] exI[of _ bs] exI[of _ N']) simp
next
  case (2 c n br k r ts)
  from 2(2,4) have k: "0 < k" "as \<noteq> []"
    and loop: "group_loop c n c 0 (add_edge br n None r) ts = Inr (r', rest)" by (auto split: if_splits)
  from 2(1)[OF k(1) loop chain_state_exit[OF 2(3) k(2)]] obtain as' bs N' where
    "ts = map TAtom as' @ branch_tail bs @ TClose # rest" "as' \<noteq> []" "[] \<notin> set bs"
    "chain_state eng c n E r' N' c [] (insert as' (insert as B \<union> set bs))" by auto
  with k show ?case
    by (intro exI[of _ "[]"] exI[of _ "as' # bs"] exI[of _ N']) (simp add: insert_commute)
next
  case (3 c n br k r ts)
  from 3(1,3) have k: "as \<noteq> []" and "r' = add_edge br n None r" "rest = ts" by (auto split: if_splits)
  with chain_state_exit[OF 3(2) k] show ?case
    by (intro exI[of _ "[]"] exI[of _ "insert (br, None, n) N"]) auto
qed auto

section \<open>The language of a pattern\<close>

inductive group_lang :: "'re regex_engine \<Rightarrow> 're atom list list \<Rightarrow> bool \<Rightarrow> bool \<Rightarrow> ustring list \<Rightarrow> bool"
  for eng bs star where
  group_none: "group_lang eng bs star e []"
| group_one: "b \<in> set bs \<Longrightarrow> atoms_lang eng b e ws \<Longrightarrow> group_lang eng bs star e ws"
| group_more: "star \<Longrightarrow> b \<in> set bs \<Longrightarrow> atoms_lang eng b e u \<Longrightarrow> group_lang eng bs star (ended e u) v \<Longrightarrow>
    group_lang eng bs star e (u @ v)"

fun options_lang :: "bool \<Rightarrow> ustring list \<Rightarrow> bool" where
  "options_lang e [] \<longleftrightarrow> True"
| "options_lang e [w] \<longleftrightarrow> \<not> e \<and> (w = str ''--'' \<or> is_option w)"
| "options_lang e (w # v # ws) \<longleftrightarrow> \<not> e \<and> is_option w \<and>
     (options_lang e (v # ws)
      \<or> ch CHR ''='' \<notin> set w \<and> (\<not> prefix (str ''-'') v \<or> v = str ''-'') \<and> options_lang e ws)"

datatype 're segment =
    SAtom "'re atom" | SRest | SOptions | SGroup "'re atom list list" bool

fun seg_lang :: "'re regex_engine \<Rightarrow> 're segment \<Rightarrow> bool \<Rightarrow> ustring list \<Rightarrow> bool" where
  "seg_lang eng (SAtom a) e ws \<longleftrightarrow> atoms_lang eng [a] e ws"
| "seg_lang eng SRest e ws \<longleftrightarrow> True"
| "seg_lang eng SOptions e ws \<longleftrightarrow> options_lang e ws"
| "seg_lang eng (SGroup bs star) e ws \<longleftrightarrow> group_lang eng bs star e ws"

fun pattern_lang :: "'re regex_engine \<Rightarrow> 're segment list \<Rightarrow> bool \<Rightarrow> ustring list \<Rightarrow> bool" where
  "pattern_lang eng [] e ws \<longleftrightarrow> ws = []"
| "pattern_lang eng (s # ss) e ws \<longleftrightarrow>
     (\<exists>u v. ws = u @ v \<and> seg_lang eng s e u \<and> pattern_lang eng ss (ended e u) v)"

fun seg_tokens :: "'re segment \<Rightarrow> 're token list" where
  "seg_tokens (SAtom a) = [TAtom a]"
| "seg_tokens SRest = [TRest]"
| "seg_tokens SOptions = [TOptions, TStar]"
| "seg_tokens (SGroup bs star) =
     TOpen # map TAtom (hd bs) @ branch_tail (tl bs) @ TClose # (if star then [TStar] else [])"

fun seg_ok :: "'re segment \<Rightarrow> bool" where
  "seg_ok (SGroup bs star) \<longleftrightarrow> bs \<noteq> [] \<and> [] \<notin> set bs"
| "seg_ok _ \<longleftrightarrow> True"

fun repeats :: "'re segment \<Rightarrow> bool" where
  "repeats (SGroup bs star) \<longleftrightarrow> star"
| "repeats SOptions \<longleftrightarrow> True"
| "repeats _ \<longleftrightarrow> False"

fun starred :: "'re segment \<Rightarrow> bool" where
  "starred (SGroup bs star) \<longleftrightarrow> star"
| "starred _ \<longleftrightarrow> False"

text \<open>No repeated group is directly followed by another repetition.\<close>

fun separated :: "bool \<Rightarrow> 're segment list \<Rightarrow> bool" where
  "separated after_star [] \<longleftrightarrow> True"
| "separated after_star (s # ss) \<longleftrightarrow> \<not> (after_star \<and> repeats s) \<and> separated (starred s) ss"

definition out_free :: "'re word_rule \<Rightarrow> nat \<Rightarrow> bool" where
  "out_free r s \<longleftrightarrow> (\<forall>a t. (s, a, t) \<notin> gset r)"

text \<open>What compiling one segment has to achieve.\<close>

definition grown :: "'re word_rule \<Rightarrow> 're word_rule \<Rightarrow> nat \<Rightarrow> bool" where
  "grown r r' c' \<longleftrightarrow> graph_ok r' \<and> c' < states r' \<and> gset r \<subseteq> gset r'"

definition seg_complete :: "'re regex_engine \<Rightarrow> 're segment \<Rightarrow> nat \<Rightarrow> 're word_rule \<Rightarrow> nat \<Rightarrow> bool" where
  "seg_complete eng seg c r' c' \<longleftrightarrow>
     (\<forall>e ws. seg_lang eng seg e ws \<longrightarrow> run eng (gset r') c e ws c' (ended e ws))"

definition seg_sound ::
    "'re regex_engine \<Rightarrow> 're segment \<Rightarrow> 're word_rule \<Rightarrow> nat \<Rightarrow> 're word_rule \<Rightarrow> nat \<Rightarrow> bool" where
  "seg_sound eng seg r c r' c' \<longleftrightarrow>
     (\<forall>ws e. run eng (gset r') 0 False ws c' e \<longrightarrow>
        (\<exists>u v m. ws = u @ v \<and> run eng (gset r) 0 False u c m \<and> seg_lang eng seg m v))"

lemma graph_okD:
  assumes "graph_ok r"
  shows "0 < states r" and "states r \<le> MAX_STATES" and "within (states r) (gset r)"
    and "(s, a, t) \<in> gset r \<Longrightarrow> s < states r \<and> t < states r"
  using assms by (auto simp: graph_ok_def dest: withinD)

subsection \<open>One value\<close>

lemma atom_step:
  assumes ok: "graph_ok r" and c: "c < states r" and add: "add_atom c a r = Inr (r', c')"
  shows "grown r r' c'" and "seg_complete eng (SAtom a) c r' c'" and "seg_sound eng (SAtom a) r c r' c'"
    and "out_free r' c'"
proof -
  note g = add_atom_graph[OF add c] and E = graph_okD[OF ok]
  show "grown r r' c'"
    using g c E within_mono[OF E(3), of "states r'"] by (auto simp: grown_def graph_ok_def)
  show "seg_complete eng (SAtom a) c r' c'"
    unfolding seg_complete_def
  proof (intro allI impI)
    fix e ws
    assume "seg_lang eng (SAtom a) e ws"
    then obtain w where "ws = [w]" "\<not> (e \<and> option_atom a)" "accepts eng a w"
      by (cases ws) auto
    then show "run eng (gset r') c e ws c' (ended e ws)"
      using run_word[of c a c' "gset r'" e eng w "[]" c'] g by (simp add: run_nil)
  qed
  show "out_free r' c'"
    using g E(4) c by (fastforce simp: out_free_def)
  show "seg_sound eng (SAtom a) r c r' c'"
    unfolding seg_sound_def
  proof (intro allI impI)
    fix ws e
    assume "run eng (gset r') 0 False ws c' e"
    then have "run eng (gset r \<union> {(c, Some a, c')}) 0 False ws c' e" using g by simp
    from run_grow_forward[OF this, of "{c'}" c] E g c obtain u v m where
      uv: "ws = u @ v" "run eng (gset r) 0 False u c m" "run eng {(c, Some a, c')} c m v c' e"
      by fastforce
    with run_single_edge[OF uv(3)] g c show
      "\<exists>u v m. ws = u @ v \<and> run eng (gset r) 0 False u c m \<and> seg_lang eng (SAtom a) m v" by fastforce
  qed
qed

subsection \<open>Trailing values\<close>

lemma run_self_loop:
  assumes "run eng (insert (c, Some a, c) E) s e ws t e'" and "t = c"
  shows "\<exists>u v m. ws = u @ v \<and> run eng E s e u c m"
  using assms
proof (induction rule: run.induct)
  case (run_nil s e)
  then show ?case by (blast intro: run.run_nil)
next
  case (run_eps s t e ws u e')
  then show ?case by (blast intro: run.run_eps)
next
  case (run_word s b t e w ws u e')
  show ?case
  proof (cases "(s, Some b, t) \<in> E")
    case True
    from run_word obtain x y m where "ws = x @ y" "run eng E t (e \<or> w = str ''--'') x c m" by blast
    with True run_word.hyps have "w # ws = (w # x) @ y" "run eng E s e (w # x) c m"
      by (auto intro: run.run_word)
    then show ?thesis by blast
  next
    case False
    with run_word have "s = c" by auto
    then show ?thesis by (intro exI[of _ "[]"] exI[of _ "w # ws"] exI[of _ e]) (simp add: run.run_nil)
  qed
qed

lemma rest_step:
  assumes ok: "graph_ok r" and c: "c < states r" and r': "r' = add_edge c c (Some AnyValue) r"
  shows "grown r r' c" and "seg_complete eng SRest c r' c" and "seg_sound eng SRest r c r' c"
proof -
  note E = graph_okD[OF ok]
  show "grown r r' c"
    using r' c E by (auto simp: grown_def graph_ok_def)
  have "run eng (gset r') c e ws c (ended e ws)" for e ws
  proof (induction ws arbitrary: e)
    case (Cons w ws)
    then show ?case using r' c run_word[of c AnyValue c "gset r'" e eng w ws c] by simp
  qed (simp add: run_nil)
  then show "seg_complete eng SRest c r' c" by (simp add: seg_complete_def)
  show "seg_sound eng SRest r c r' c"
    using r' c run_self_loop[of eng c AnyValue "gset r"] by (fastforce simp: seg_sound_def)
qed

subsection \<open>Options\<close>

definition option_edges :: "nat \<Rightarrow> nat \<Rightarrow> 're graph" where
  "option_edges c n = {(c, None, n), (c, Some OptionAtom, c), (c, Some OptionWithValue, Suc n),
     (Suc n, Some OptionValue, c), (c, Some OptionsEnd, n)}"

lemma is_option_not_end: "is_option w \<Longrightarrow> w \<noteq> str ''--''"
  by (simp add: is_option_def)

lemma option_value_not_end: "\<not> prefix (str ''-'') v \<or> v = str ''-'' \<Longrightarrow> v \<noteq> str ''--''"
  by (auto simp: str_Cons)

lemma options_lang_flag: "is_option w \<Longrightarrow> options_lang False ws \<Longrightarrow> options_lang False (w # ws)"
  by (cases ws) auto

lemma options_run:
  assumes "run eng (option_edges c n) s e ws t e'" and "t = n" and "c < n"
  shows "(s = c \<longrightarrow> options_lang e ws) \<and> (s = n \<longrightarrow> ws = []) \<and>
    (s = Suc n \<longrightarrow> \<not> e \<and> (\<exists>v ws'. ws = v # ws' \<and> (\<not> prefix (str ''-'') v \<or> v = str ''-'')
       \<and> options_lang False ws'))"
  using assms
proof (induction rule: run.induct)
  case (run_word s a t e w ws u e')
  then have e: "\<not> e" and a: "accepts eng a w" by (auto simp: option_edges_def)
  consider "s = c" "a = OptionAtom" "t = c" | "s = c" "a = OptionWithValue" "t = Suc n"
    | "s = Suc n" "a = OptionValue" "t = c" | "s = c" "a = OptionsEnd" "t = n"
    using run_word.hyps(1) by (auto simp: option_edges_def)
  then show ?case
  proof cases
    case 1
    with run_word a e have "options_lang False ws" "is_option w" by (auto dest: is_option_not_end)
    with 1 e run_word.prems show ?thesis by (simp add: options_lang_flag)
  next
    case 2
    with run_word a e have "is_option w \<and> ch CHR ''='' \<notin> set w"
      and "\<exists>v ws'. ws = v # ws' \<and> (\<not> prefix (str ''-'') v \<or> v = str ''-'') \<and> options_lang False ws'"
      by auto
    with 2 e run_word.prems show ?thesis by auto
  next
    case 3
    with a have v: "\<not> prefix (str ''-'') w \<or> w = str ''-''" by simp
    with 3 run_word e option_value_not_end[OF v] have "options_lang False ws" by auto
    with 3 e v run_word.prems show ?thesis by auto
  next
    case 4
    with run_word a e show ?thesis by auto
  qed
qed (auto simp: option_edges_def)

lemma options_run_none: "run eng (option_edges c n) c e [] n e"
  using run_eps[of c n "option_edges c n" eng e "[]" n e] by (simp add: option_edges_def run_nil)

lemma options_run_complete:
  "options_lang e ws \<Longrightarrow> run eng (option_edges c n) c e ws n (ended e ws)"
proof (induction e ws rule: options_lang.induct)
  case (1 e)
  show ?case by (simp add: options_run_none)
next
  case (2 e w)
  from 2 consider "w = str ''--''" | "is_option w" by auto
  then show ?case
  proof cases
    case 1
    with 2 show ?thesis
      using run_word[of c OptionsEnd n "option_edges c n" e eng w "[]" n]
      by (auto intro: run_nil simp: option_edges_def)
  next
    case o: 2
    with 2 options_run_none[of eng c n False] show ?thesis
      using run_word[of c OptionAtom c "option_edges c n" e eng w "[]" n]
      by (auto dest: is_option_not_end simp: option_edges_def)
  qed
next
  case (3 e w v ws)
  then have e: "\<not> e" and w: "is_option w" "w \<noteq> str ''--''" by (auto dest: is_option_not_end)
  from 3(3) consider "options_lang e (v # ws)"
    | "ch CHR ''='' \<notin> set w" "\<not> prefix (str ''-'') v \<or> v = str ''-''" "options_lang e ws" by auto
  then show ?case
  proof cases
    case 1
    from 3(1)[OF 1] e w show ?thesis
      using run_word[of c OptionAtom c "option_edges c n" e eng w "v # ws" n]
      by (simp add: option_edges_def)
  next
    case 2
    note v = option_value_not_end[OF 2(2)]
    have "run eng (option_edges c n) (Suc n) e (v # ws) n (ended e ws)"
      using run_word[of "Suc n" OptionValue c "option_edges c n" e eng v ws n] 3(2)[OF 2(3)] e v 2(2)
      by (auto simp: option_edges_def)
    then show ?thesis
      using run_word[of c OptionWithValue "Suc n" "option_edges c n" e eng w "v # ws" n] e w v 2(1)
      by (simp add: option_edges_def)
  qed
qed

lemma add_options_graph:
  assumes "add_options c r = Inr (r', c')" and c: "c < states r"
  shows "gset r' = gset r \<union> option_edges c (states r)" and "c' = states r"
    and "states r' = Suc (Suc (states r))" and "states r' \<le> MAX_STATES"
proof -
  let ?r2 = "\<lambda>r1 f. add_edge c c (Some OptionAtom) (add_edge c f None r1)"
  from assms(1) obtain r1 f r3 v where new: "new_state r = Inr (r1, f)"
    and add: "add_atom c OptionWithValue (?r2 r1 f) = Inr (r3, v)"
    and r': "r' = add_edge c f (Some OptionsEnd) (add_edge v c (Some OptionValue) r3)" and f: "c' = f"
    by (auto simp: add_options_def Let_def split: sum.splits)
  note n = new_state_graph[OF new]
  have c1: "c < states (?r2 r1 f)" using c n by simp
  note a = add_atom_graph[OF add c1]
  show "gset r' = gset r \<union> option_edges c (states r)"
    using r' a n c by (auto simp: option_edges_def)
  show "c' = states r" "states r' = Suc (Suc (states r))" "states r' \<le> MAX_STATES"
    using r' a n c f by auto
qed

lemma options_step:
  assumes ok: "graph_ok r" and c: "c < states r" and add: "add_options c r = Inr (r', c')"
  shows "grown r r' c'" and "seg_complete eng SOptions c r' c'"
    and "out_free r c \<Longrightarrow> seg_sound eng SOptions r c r' c'" and "out_free r' c'"
proof -
  note g = add_options_graph[OF add c] and E = graph_okD[OF ok]
  have within: "within (states r') (gset r')"
    using g within_mono[OF E(3), of "states r'"] c by (auto simp: option_edges_def)
  then show "grown r r' c'"
    using g c by (auto simp: grown_def graph_ok_def)
  show "seg_complete eng SOptions c r' c'"
    using g options_run_complete[of _ _ eng c c'] by (auto simp: seg_complete_def intro: run_mono)
  show "out_free r' c'"
    using g E(4) c by (fastforce simp: out_free_def option_edges_def)
  assume free: "out_free r c"
  show "seg_sound eng SOptions r c r' c'"
    unfolding seg_sound_def
  proof (intro allI impI)
    fix ws e
    assume "run eng (gset r') 0 False ws c' e"
    then have "run eng (gset r \<union> option_edges c c') 0 False ws c' e" using g by simp
    from run_grow_dead_end[OF this, of "{c', Suc c'}" c] E free g c obtain u v m where
      uv: "ws = u @ v" "run eng (gset r) 0 False u c m" "run eng (option_edges c c') c m v c' e"
      by (fastforce simp: out_free_def option_edges_def)
    with options_run[OF uv(3)] g c show
      "\<exists>u v m. ws = u @ v \<and> run eng (gset r) 0 False u c m \<and> seg_lang eng SOptions m v" by auto
  qed
qed

subsection \<open>Groups\<close>

lemma chain_state_init:
  assumes ok: "graph_ok r" and c: "c < states r" and new: "new_state r = Inr (r1, n)"
  shows "chain_state eng c n (gset r) (add_edge c n None r1) {(c, None, n)} c [] {}"
proof -
  note n = new_state_graph[OF new] and E = graph_okD[OF ok]
  have to_c: "run eng {(c, None, n)} c e v c e' \<longleftrightarrow> v = [] \<and> e' = e" for e v e'
    using run_loop_free[of eng "{(c, None, n)}" c e v e'] n c by (auto intro: run_nil)
  have to_n: "run eng {(c, None, n)} c e v n e' \<longleftrightarrow> v = [] \<and> e' = e" for e v e'
  proof
    assume "run eng {(c, None, n)} c e v n e'"
    with run_add_exit[of eng c n "{}" c e v n e'] n c
    have "run eng {} c e v n e' \<or> run eng {} c e v c e'" by auto
    then show "v = [] \<and> e' = e" by (auto dest!: run_from_dead)
  next
    assume "v = [] \<and> e' = e"
    then show "run eng {(c, None, n)} c e v n e'"
      using run_eps[of c n "{(c, None, n)}" eng e "[]" n e] by (simp add: run_nil)
  qed
  show ?thesis
    using n c E to_c to_n by (auto simp: chain_state_def group_runs_def group_edges_def)
qed

lemma atoms_lang_ne: "atoms_lang eng as e [] \<Longrightarrow> as = []"
  by (cases as) auto

lemma group_back_runs:
  assumes "run eng (insert (n, None, c) N) s e ws t e'" and "t = n"
    and runs: "group_runs eng c n N (set bs)"
  shows "\<exists>u v m. ws = u @ v \<and> run eng N s e u n m \<and> group_lang eng bs True m v"
  using assms(1,2)
proof (induction rule: run.induct)
  case (run_nil s e)
  then show ?case by (blast intro: run.run_nil group_none)
next
  case (run_eps s t e ws u e')
  then obtain x y m where ws: "ws = x @ y" "run eng N t e x n m" "group_lang eng bs True m y" by blast
  show ?case
  proof (cases "(s, None, t) \<in> N")
    case True
    with ws show ?thesis by (blast intro: run.run_eps)
  next
    case False
    with run_eps have s: "s = n" "t = c" by auto
    with ws(2) runs have x: "x = [] \<or> (\<exists>b \<in> set bs. atoms_lang eng b e x)" and "m = ended e x"
      by (auto simp: group_runs_def)
    with ws(3) have "group_lang eng bs True e (x @ y)"
      by (auto intro: group_more)
    with s ws(1) show ?thesis
      by (intro exI[of _ "[]"] exI[of _ ws] exI[of _ e]) (simp add: run.run_nil)
  qed
next
  case (run_word s a t e w ws u e')
  then have E: "(s, Some a, t) \<in> N" by blast
  from run_word obtain x y m where "ws = x @ y" "run eng N t (e \<or> w = str ''--'') x n m"
    "group_lang eng bs True m y" by blast
  with E run_word.hyps have "w # ws = (w # x) @ y" "run eng N s e (w # x) n m" "group_lang eng bs True m y"
    by (auto intro: run.run_word)
  then show ?case by blast
qed

lemma group_back_complete:
  "group_lang eng bs star e ws \<Longrightarrow> group_runs eng c n N (set bs) \<Longrightarrow>
     run eng (if star then insert (n, None, c) N else N) c e ws n (ended e ws)"
proof (induction rule: group_lang.induct)
  case (group_none e)
  then have "run eng N c e [] n e" by (simp add: group_runs_def)
  then show ?case by (auto intro: run_mono)
next
  case (group_one b e ws)
  then have "run eng N c e ws n (ended e ws)" by (auto simp: group_runs_def)
  then show ?case by (auto intro: run_mono)
next
  case (group_more b e u v)
  then have "run eng N c e u n (ended e u)" by (auto simp: group_runs_def)
  then have "run eng (insert (n, None, c) N) c e u n (ended e u)" by (auto intro: run_mono)
  moreover have "run eng (insert (n, None, c) N) n (ended e u) v n (ended (ended e u) v)"
    using group_more by (auto intro: run_eps)
  ultimately show ?case using group_more.hyps by (auto intro: run_append)
qed

lemma add_group_graph:
  assumes ok: "graph_ok r" and c: "c < states r" and add: "add_group c r ts = Inr (r', c', rest)"
  shows "\<exists>bs star N. ts = map TAtom (hd bs) @ branch_tail (tl bs) @ TClose # (if star then [TStar] else []) @ rest
    \<and> bs \<noteq> [] \<and> [] \<notin> set bs
    \<and> gset r' = gset r \<union> (if star then insert (c', None, c) N else N)
    \<and> c' = states r \<and> c' < states r' \<and> states r' \<le> MAX_STATES
    \<and> group_edges c c' (states r') N \<and> group_runs eng c c' N (set bs)"
proof -
  from add obtain r1 n r2 rest' where new: "new_state r = Inr (r1, n)"
    and loop: "group_loop c n c 0 (add_edge c n None r1) ts = Inr (r2, rest')"
    and r': "(r', c', rest) = (case rest' of TStar # rest'' \<Rightarrow> (bump_groups (add_edge n c None r2), n, rest'')
        | _ \<Rightarrow> (bump_groups r2, n, rest'))"
    by (auto simp: add_group_def split: sum.splits list.splits token.splits)
  note n = new_state_graph[OF new]
  from group_loop_runs[OF loop chain_state_init[OF ok c new], of eng] obtain as bs N where
    ts: "ts = map TAtom as @ branch_tail bs @ TClose # rest'" "as \<noteq> []" "[] \<notin> set bs"
    and st: "chain_state eng c n (gset r) r2 N c [] (insert as (set bs))" by auto
  have runs: "group_edges c n (states r2) N" "group_runs eng c n N (set (as # bs))" "n < states r2"
    "states r2 \<le> MAX_STATES" "gset r2 = gset r \<union> N"
    using st by (auto simp: chain_state_def)
  show ?thesis
  proof (cases "\<exists>rest''. rest' = TStar # rest''")
    case True
    with r' ts n runs show ?thesis
      by (intro exI[of _ "as # bs"] exI[of _ True] exI[of _ N]) auto
  next
    case False
    with r' have "(r', c', rest) = (bump_groups r2, n, rest')" by (auto split: list.splits token.splits)
    with ts n runs show ?thesis
      by (intro exI[of _ "as # bs"] exI[of _ False] exI[of _ N]) auto
  qed
qed

lemma group_step:
  assumes ok: "graph_ok r" and c: "c < states r" and add: "add_group c r ts = Inr (r', c', rest)"
  shows "\<exists>bs star. TOpen # ts = seg_tokens (SGroup bs star) @ rest \<and> seg_ok (SGroup bs star)
    \<and> grown r r' c' \<and> seg_complete eng (SGroup bs star) c r' c'
    \<and> ((star \<longrightarrow> out_free r c) \<longrightarrow> seg_sound eng (SGroup bs star) r c r' c')
    \<and> (\<not> star \<longrightarrow> out_free r' c')"
proof -
  from add_group_graph[OF ok c add, of eng] obtain bs star N where
    ts: "ts = map TAtom (hd bs) @ branch_tail (tl bs) @ TClose # (if star then [TStar] else []) @ rest"
      "bs \<noteq> []" "[] \<notin> set bs"
    and g: "gset r' = gset r \<union> (if star then insert (c', None, c) N else N)"
    and n: "c' = states r" "c' < states r'" "states r' \<le> MAX_STATES"
    and N: "group_edges c c' (states r') N" and runs: "group_runs eng c c' N (set bs)" by blast
  note E = graph_okD[OF ok]
  have NE: "(x = c \<or> c' < x \<and> x < states r') \<and> c' \<le> y \<and> y < states r'" if "(x, a, y) \<in> N" for x a y
    using N that by (auto simp: group_edges_def)
  have "s < states r' \<and> t < states r'" if "(s, a, t) \<in> N" for s a t
    using NE[OF that] c n by linarith
  then have "within (states r') N" by (auto simp: within_def)
  moreover have "within (states r') (gset r)" using within_mono[OF E(3)] n by simp
  ultimately have "within (states r') (gset r')" unfolding g using n c by simp
  then have ok': "grown r r' c'"
    unfolding grown_def graph_ok_def using n g by auto
  have complete: "seg_complete eng (SGroup bs star) c r' c'"
    using group_back_complete[OF _ runs, of star] g
    by (auto simp: seg_complete_def intro: run_mono split: if_splits)
  have "seg_sound eng (SGroup bs star) r c r' c'" if star: "star \<longrightarrow> out_free r c"
    unfolding seg_sound_def
  proof (intro allI impI)
    fix ws e
    assume r: "run eng (gset r') 0 False ws c' e"
    show "\<exists>u v m. ws = u @ v \<and> run eng (gset r) 0 False u c m \<and> seg_lang eng (SGroup bs star) m v"
    proof (cases star)
      case False
      with r g have "run eng (gset r \<union> N) 0 False ws c' e" by simp
      from run_grow_forward[OF this, of "{c'..}" c] E n c NE obtain u v m where
        uv: "ws = u @ v" "run eng (gset r) 0 False u c m" "run eng N c m v c' e" by fastforce
      with runs have "group_lang eng bs star m v"
        by (auto simp: group_runs_def intro: group_none group_one)
      with uv show ?thesis by auto
    next
      case True
      with r g have r: "run eng (gset r \<union> insert (c', None, c) N) 0 False ws c' e" by simp
      have "\<exists>u v m. ws = u @ v \<and> run eng (gset r) 0 False u c m \<and> run eng (insert (c', None, c) N) c m v c' e"
        using run_grow_dead_end[OF r, of "{c'..}" c] E n c NE star True
        by (fastforce simp: out_free_def)
      then obtain u v m where uv: "ws = u @ v" "run eng (gset r) 0 False u c m"
        "run eng (insert (c', None, c) N) c m v c' e" by blast
      from group_back_runs[OF uv(3) refl runs] obtain x y k where
        v: "v = x @ y" "run eng N c m x c' k" "group_lang eng bs True k y" by blast
      with runs have "group_lang eng bs True m v"
        by (auto simp: group_runs_def intro: group_more)
      with uv True show ?thesis by auto
    qed
  qed
  moreover have "out_free r' c'" if "\<not> star"
    using that g n c E(4) NE by (fastforce simp: out_free_def)
  ultimately show ?thesis
    using ts ok' complete by (intro exI[of _ bs] exI[of _ star]) simp
qed

subsection \<open>Whole patterns\<close>

fun rest_last :: "'re segment list \<Rightarrow> bool" where
  "rest_last [] \<longleftrightarrow> True"
| "rest_last (s # ss) \<longleftrightarrow> (s = SRest \<longrightarrow> ss = []) \<and> rest_last ss"

definition pattern_tokens :: "'re segment list \<Rightarrow> 're token list" where
  "pattern_tokens segs = concat (map seg_tokens segs)"

definition lang_complete :: "'re regex_engine \<Rightarrow> 're segment list \<Rightarrow> nat \<Rightarrow> 're word_rule \<Rightarrow> nat \<Rightarrow> bool" where
  "lang_complete eng segs c r' c' \<longleftrightarrow>
     (\<forall>e ws. pattern_lang eng segs e ws \<longrightarrow> run eng (gset r') c e ws c' (ended e ws))"

definition lang_sound ::
    "'re regex_engine \<Rightarrow> 're segment list \<Rightarrow> 're word_rule \<Rightarrow> nat \<Rightarrow> 're word_rule \<Rightarrow> nat \<Rightarrow> bool" where
  "lang_sound eng segs r c r' c' \<longleftrightarrow>
     (\<forall>ws e. run eng (gset r') 0 False ws c' e \<longrightarrow>
        (\<exists>u v m. ws = u @ v \<and> run eng (gset r) 0 False u c m \<and> pattern_lang eng segs m v))"

lemma lang_complete_Cons:
  assumes s: "seg_complete eng seg c r1 c1" and ss: "lang_complete eng segs c1 r2 c2"
    and sub: "gset r1 \<subseteq> gset r2"
  shows "lang_complete eng (seg # segs) c r2 c2"
  unfolding lang_complete_def
proof (intro allI impI)
  fix e ws
  assume "pattern_lang eng (seg # segs) e ws"
  then obtain u v where ws: "ws = u @ v" "seg_lang eng seg e u" "pattern_lang eng segs (ended e u) v" by auto
  from s ws sub have "run eng (gset r2) c e u c1 (ended e u)"
    by (auto simp: seg_complete_def intro: run_mono)
  moreover from ss ws have "run eng (gset r2) c1 (ended e u) v c2 (ended (ended e u) v)"
    by (auto simp: lang_complete_def)
  ultimately show "run eng (gset r2) c e ws c2 (ended e ws)"
    using ws run_append by auto
qed

lemma lang_sound_Cons:
  assumes s: "seg_sound eng seg r c r1 c1" and ss: "lang_sound eng segs r1 c1 r2 c2"
  shows "lang_sound eng (seg # segs) r c r2 c2"
  unfolding lang_sound_def
proof (intro allI impI)
  fix ws e
  assume "run eng (gset r2) 0 False ws c2 e"
  with ss obtain u v m where ws: "ws = u @ v" "run eng (gset r1) 0 False u c1 m" "pattern_lang eng segs m v"
    unfolding lang_sound_def by blast
  from s ws(2) obtain x y k where u: "u = x @ y" "run eng (gset r) 0 False x c k" "seg_lang eng seg k y"
    unfolding seg_sound_def by blast
  have "m = ended k y" using run_ended[OF ws(2)] run_ended[OF u(2)] u(1) by simp
  with ws u show "\<exists>u v m. ws = u @ v \<and> run eng (gset r) 0 False u c m \<and> pattern_lang eng (seg # segs) m v"
    by (intro exI[of _ x] exI[of _ "y @ v"] exI[of _ k]) auto
qed

text \<open>The result of the loop: a parse of the tokens, and the language it denotes.\<close>

definition compiled ::
    "'re regex_engine \<Rightarrow> 're token list \<Rightarrow> 're segment list \<Rightarrow> 're word_rule \<Rightarrow> nat \<Rightarrow> 're word_rule \<Rightarrow> nat \<Rightarrow> bool" where
  "compiled eng ts segs r c r' c' \<longleftrightarrow>
     ts = pattern_tokens segs \<and> list_all seg_ok segs \<and> rest_last segs \<and>
     grown r r' c' \<and> lang_complete eng segs c r' c' \<and>
     (\<forall>star. (\<not> star \<longrightarrow> segs \<noteq> [] \<longrightarrow> out_free r c) \<longrightarrow> separated star segs \<longrightarrow> lang_sound eng segs r c r' c')"

lemma compiled_Nil: "graph_ok r \<Longrightarrow> c < states r \<Longrightarrow> compiled eng [] [] r c r c"
  by (auto simp: compiled_def pattern_tokens_def grown_def lang_complete_def lang_sound_def
      intro: run_nil)

lemma compiled_Cons:
  assumes g: "grown r r1 c1" and sc: "seg_complete eng seg c r1 c1"
    and ss: "(repeats seg \<longrightarrow> out_free r c) \<Longrightarrow> seg_sound eng seg r c r1 c1"
    and free: "\<not> starred seg \<Longrightarrow> segs \<noteq> [] \<Longrightarrow> out_free r1 c1"
    and ok: "seg_ok seg" and rest: "seg = SRest \<Longrightarrow> segs = []"
    and ts: "ts = seg_tokens seg @ ts1"
    and cs: "compiled eng ts1 segs r1 c1 r2 c2"
  shows "compiled eng ts (seg # segs) r c r2 c2"
proof -
  have sub: "gset r1 \<subseteq> gset r2" using cs by (simp add: compiled_def grown_def)
  have "lang_sound eng (seg # segs) r c r2 c2"
    if "\<not> star \<longrightarrow> out_free r c" "separated star (seg # segs)" for star
  proof (rule lang_sound_Cons)
    from that show "seg_sound eng seg r c r1 c1" by (auto intro: ss)
    have "\<forall>star. (\<not> star \<longrightarrow> segs \<noteq> [] \<longrightarrow> out_free r1 c1) \<longrightarrow> separated star segs \<longrightarrow> lang_sound eng segs r1 c1 r2 c2"
      using cs by (simp add: compiled_def)
    with that free show "lang_sound eng segs r1 c1 r2 c2" by auto
  qed
  moreover have "lang_complete eng (seg # segs) c r2 c2"
    using cs sc sub by (auto simp: compiled_def intro: lang_complete_Cons)
  ultimately show ?thesis
    using assms sub by (auto simp: compiled_def pattern_tokens_def grown_def)
qed

lemma parse_loop_compiled:
  assumes "parse_loop k c r ts = Inr (r', c')" and "graph_ok r" and "c < states r"
  shows "\<exists>segs. compiled eng ts segs r c r' c' \<and> length segs + k \<le> max k MAX_SEGMENTS"
  using assms
proof (induction k c r ts rule: parse_loop.induct)
  case (1 k c r)
  then show ?case using compiled_Nil[of r c eng] by (intro exI[of _ "[]"]) simp
next
  case (2 k c r token ts)
  from 2(5) have k: "\<not> k + 1 > MAX_SEGMENTS" by (auto split: if_splits)
  have len: "length (seg # segs) + k \<le> max k MAX_SEGMENTS"
    if "length segs + (k + 1) \<le> max (k + 1) MAX_SEGMENTS" for seg :: "'a segment" and segs
    using that k by simp
  show ?case
  proof (cases token)
    case (TAtom a)
    let ?r = "if is_literal a then bump_literals r else r"
    from 2(5) k TAtom obtain r1 c1 where add: "add_atom c a ?r = Inr (r1, c1)"
      and loop: "parse_loop (k + 1) c1 r1 ts = Inr (r', c')" by (auto split: sum.splits)
    have r: "graph_ok ?r" "c < states ?r" "gset ?r = gset r"
      using 2(6,7) by (auto simp: graph_ok_def)
    note step = atom_step[OF r(1,2) add]
    have g: "grown r r1 c1" "seg_sound eng (SAtom a) r c r1 c1"
      using step(1) step(3)[of eng] r(3) by (simp_all add: grown_def seg_sound_def)
    from 2(1)[OF k TAtom add refl loop] g obtain segs where
      segs: "compiled eng ts segs r1 c1 r' c'" "length segs + (k + 1) \<le> max (k + 1) MAX_SEGMENTS"
      by (auto simp: grown_def)
    have "compiled eng (token # ts) (SAtom a # segs) r c r' c'"
      by (rule compiled_Cons[OF g(1) step(2) g(2) step(4) _ _ _ segs(1)]) (auto simp: TAtom)
    with len[OF segs(2)] show ?thesis by blast
  next
    case TRest
    with 2(5) k have ts: "ts = []" and r': "r' = add_edge c c (Some AnyValue) r" "c' = c"
      by (auto split: if_splits)
    note step = rest_step[OF 2(6,7) r'(1)]
    from step(1) have "compiled eng [] [] r' c r' c" by (auto simp: grown_def intro: compiled_Nil)
    then have "compiled eng (token # ts) [SRest] r c r' c'"
      unfolding r'(2) by (rule compiled_Cons[OF step(1,2) step(3), rotated -1]) (auto simp: TRest ts)
    then show ?thesis using k by (intro exI[of _ "[SRest]"]) simp
  next
    case TOptions
    with 2(5) k obtain ts1 r1 c1 where ts: "ts = TStar # ts1" and add: "add_options c r = Inr (r1, c1)"
      and loop: "parse_loop (k + 1) c1 r1 ts1 = Inr (r', c')"
      by (auto split: list.splits token.splits sum.splits)
    note step = options_step[OF 2(6,7) add]
    from 2(4)[OF k TOptions ts refl add refl loop] step(1) obtain segs where
      segs: "compiled eng ts1 segs r1 c1 r' c'" "length segs + (k + 1) \<le> max (k + 1) MAX_SEGMENTS"
      by (auto simp: grown_def)
    have "compiled eng (token # ts) (SOptions # segs) r c r' c'"
      by (rule compiled_Cons[OF step(1,2) step(3) step(4) _ _ _ segs(1)]) (auto simp: TOptions ts)
    with len[OF segs(2)] show ?thesis by blast
  next
    case TOpen
    with 2(5) k obtain r1 c1 ts1 where add: "add_group c r ts = Inr (r1, c1, ts1)"
      and loop: "parse_loop (k + 1) c1 r1 ts1 = Inr (r', c')" by (auto split: sum.splits)
    from group_step[OF 2(6,7) add, of eng] obtain bs star where
      step: "TOpen # ts = seg_tokens (SGroup bs star) @ ts1" "seg_ok (SGroup bs star)"
      "grown r r1 c1" "seg_complete eng (SGroup bs star) c r1 c1"
      "(star \<longrightarrow> out_free r c) \<longrightarrow> seg_sound eng (SGroup bs star) r c r1 c1"
      "\<not> star \<longrightarrow> out_free r1 c1" by blast
    from 2(2)[OF k TOpen add refl refl loop] step(3) obtain segs where
      segs: "compiled eng ts1 segs r1 c1 r' c'" "length segs + (k + 1) \<le> max (k + 1) MAX_SEGMENTS"
      by (auto simp: grown_def)
    have "compiled eng (token # ts) (SGroup bs star # segs) r c r' c'"
      by (rule compiled_Cons[OF step(3,4) _ _ step(2) _ _ segs(1)]) (use step TOpen in auto)
    with len[OF segs(2)] show ?thesis by blast
  qed (use 2(5) k in auto)
qed

section \<open>What the parser leaves alone\<close>

definition same_meta :: "'re word_rule \<Rightarrow> 're word_rule \<Rightarrow> bool" where
  "same_meta r r' \<longleftrightarrow> wr_pattern r' = wr_pattern r \<and> wr_action r' = wr_action r \<and> wr_index r' = wr_index r
     \<and> wr_broad r' = wr_broad r \<and> wr_regex_flags r' = wr_regex_flags r"

lemma same_meta_refl [simp]: "same_meta r r"
  by (simp add: same_meta_def)

lemma same_meta_trans: "same_meta r s \<Longrightarrow> same_meta s t \<Longrightarrow> same_meta r t"
  by (simp add: same_meta_def)

lemma same_meta_prims [simp]:
  "same_meta r (add_edge s t a q) \<longleftrightarrow> same_meta r q"
  "same_meta r (bump_literals q) \<longleftrightarrow> same_meta r q"
  "same_meta r (bump_groups q) \<longleftrightarrow> same_meta r q"
  "same_meta (add_edge s t a q) r \<longleftrightarrow> same_meta q r"
  "same_meta (bump_literals q) r \<longleftrightarrow> same_meta q r"
  by (simp_all add: same_meta_def add_edge_def bump_literals_def bump_groups_def)

lemma new_state_meta: "new_state r = Inr (r', d) \<Longrightarrow> same_meta r r'"
  by (auto simp: new_state_Inr same_meta_def)

lemma add_atom_meta: "add_atom s a r = Inr (r', d) \<Longrightarrow> same_meta r r'"
  by (auto simp: add_atom_def split: sum.splits dest: new_state_meta)

lemma edges_of_add_edge: "s \<noteq> src \<Longrightarrow> edges_of (add_edge src dst a r) s = edges_of r s"
  by (auto simp: edges_of_def add_edge_def get_eq)

lemma edges_of_bump [simp]:
  "edges_of (bump_literals r) s = edges_of r s" "edges_of (bump_groups r) s = edges_of r s"
  by (simp_all add: edges_of_def bump_literals_def bump_groups_def)

lemma edges_of_new_state: "new_state r = Inr (r', d) \<Longrightarrow> edges_of r' s = edges_of r s"
  by (auto simp: new_state_Inr edges_of_def get_eq nth_append)

lemma edges_of_add_atom: "add_atom src a r = Inr (r', d) \<Longrightarrow> s \<noteq> src \<Longrightarrow> edges_of r' s = edges_of r s"
  by (auto simp: add_atom_def edges_of_add_edge split: sum.splits dest: edges_of_new_state)

lemma states_add_atom: "add_atom src a r = Inr (r', d) \<Longrightarrow> states r' = Suc (states r) \<and> d = states r"
  by (auto simp: add_atom_def split: sum.splits dest: new_state_graph(2,3))

text \<open>\<open>keeps c\<close>: the step leaves the edges of all existing states but \<open>c\<close> as they are.\<close>

definition keeps :: "nat \<Rightarrow> 're word_rule \<Rightarrow> 're word_rule \<Rightarrow> bool" where
  "keeps c r r' \<longleftrightarrow> same_meta r r' \<and> states r \<le> states r' \<and>
     (\<forall>s < states r. s \<noteq> c \<longrightarrow> edges_of r' s = edges_of r s)"

lemma keeps_trans:
  assumes "keeps c r r1" and "keeps c1 r1 r2" and "c1 = c \<or> states r \<le> c1"
  shows "keeps c r r2"
  using assms by (auto simp: keeps_def dest: same_meta_trans)

lemma keeps_step:
  assumes "keeps c r r1 \<and> states r \<le> c1" and "keeps c1 r1 r2 \<and> (c2 = c1 \<or> states r1 \<le> c2)"
  shows "keeps c r r2 \<and> (c2 = c \<or> states r \<le> c2)"
  using assms keeps_trans[of c r r1 c1 r2] by (auto simp: keeps_def)

lemma keeps_atom: "add_atom c a r = Inr (r', d) \<Longrightarrow> keeps c r r'"
  by (auto simp: keeps_def dest: add_atom_meta edges_of_add_atom states_add_atom)

lemma keeps_edge: "keeps c r (add_edge c d a r)"
  by (auto simp: keeps_def edges_of_add_edge)

lemma keeps_new: "new_state r = Inr (r', d) \<Longrightarrow> keeps c r r'"
  by (auto simp: keeps_def new_state_graph(2) dest: new_state_meta edges_of_new_state)

lemma group_loop_keeps:
  "group_loop c n br k r ts = Inr (r', rest) \<Longrightarrow> s \<noteq> c \<Longrightarrow> s \<noteq> br \<Longrightarrow> s < states r \<Longrightarrow>
     edges_of r' s = edges_of r s"
proof (induction c n br k r ts rule: group_loop.induct)
  case (1 c n br k r a ts)
  from 1(2) obtain r1 d where add: "add_atom br a r = Inr (r1, d)"
    and loop: "group_loop c n d (k + 1) r1 ts = Inr (r', rest)" by (auto split: sum.splits)
  from 1(1)[OF add refl loop] 1(3-5) states_add_atom[OF add] edges_of_add_atom[OF add] show ?case by auto
qed (auto simp: edges_of_add_edge split: if_splits)

lemma group_loop_meta:
  "group_loop c n br k r ts = Inr (r', rest) \<Longrightarrow> same_meta r r' \<and> states r \<le> states r'"
proof (induction c n br k r ts rule: group_loop.induct)
  case (1 c n br k r a ts)
  from 1(2) obtain r1 d where add: "add_atom br a r = Inr (r1, d)"
    and loop: "group_loop c n d (k + 1) r1 ts = Inr (r', rest)" by (auto split: sum.splits)
  from 1(1)[OF add refl loop] add_atom_meta[OF add] states_add_atom[OF add] show ?case
    by (auto dest: same_meta_trans)
qed (auto split: if_splits)

lemma add_group_cases:
  assumes "add_group c r ts = Inr (r', c', rest)"
  obtains r1 r2 rest' where "new_state r = Inr (r1, c')"
    and "group_loop c c' c 0 (add_edge c c' None r1) ts = Inr (r2, rest')"
    and "r' = bump_groups r2 \<or> r' = bump_groups (add_edge c' c None r2)"
proof -
  from assms obtain r1 n r2 rest' where new: "new_state r = Inr (r1, n)"
    and loop: "group_loop c n c 0 (add_edge c n None r1) ts = Inr (r2, rest')"
    and r': "(r', c', rest) = (case rest' of TStar # rest'' \<Rightarrow> (bump_groups (add_edge n c None r2), n, rest'')
        | _ \<Rightarrow> (bump_groups r2, n, rest'))"
    by (auto simp: add_group_def split: sum.splits list.splits token.splits)
  have "c' = n \<and> (r' = bump_groups r2 \<or> r' = bump_groups (add_edge n c None r2))"
  proof (cases "\<exists>rest''. rest' = TStar # rest''")
    case True
    with r' show ?thesis by auto
  next
    case False
    with r' have "(r', c', rest) = (bump_groups r2, n, rest')" by (auto split: list.splits token.splits)
    then show ?thesis by simp
  qed
  with new loop show ?thesis by (auto intro: that)
qed

lemma add_group_keeps:
  assumes "add_group c r ts = Inr (r', c', rest)" and c: "c < states r"
  shows "keeps c r r' \<and> states r \<le> c'"
proof -
  obtain r1 r2 rest' where new: "new_state r = Inr (r1, c')"
    and loop: "group_loop c c' c 0 (add_edge c c' None r1) ts = Inr (r2, rest')"
    and r': "r' = bump_groups r2 \<or> r' = bump_groups (add_edge c' c None r2)"
    by (rule add_group_cases[OF assms(1)])
  note n = new_state_graph[OF new]
  have "edges_of r2 s = edges_of r s" if "s < states r" "s \<noteq> c" for s
    using group_loop_keeps[OF loop, of s] that n edges_of_new_state[OF new] by (simp add: edges_of_add_edge)
  moreover have "same_meta r r2" "states r \<le> states r2"
    using group_loop_meta[OF loop] new_state_meta[OF new] n by (auto dest: same_meta_trans)
  ultimately show ?thesis
    using r' n by (auto simp: keeps_def edges_of_add_edge)
qed

lemma add_options_keeps:
  assumes "add_options c r = Inr (r', c')" and c: "c < states r"
  shows "keeps c r r' \<and> states r \<le> c'"
proof -
  from assms(1) obtain r1 f r3 v where new: "new_state r = Inr (r1, f)"
    and add: "add_atom c OptionWithValue (add_edge c c (Some OptionAtom) (add_edge c f None r1)) = Inr (r3, v)"
    and r': "r' = add_edge c f (Some OptionsEnd) (add_edge v c (Some OptionValue) r3)" "c' = f"
    by (auto simp: add_options_def Let_def split: sum.splits)
  have "edges_of r' s = edges_of r s" if "s < states r" "s \<noteq> c" for s
    using that r' edges_of_add_atom[OF add, of s] states_add_atom[OF add] new_state_graph[OF new]
      edges_of_new_state[OF new, of s] by (simp add: edges_of_add_edge)
  moreover have "same_meta r r'" "states r \<le> states r'"
    using r' add_atom_meta[OF add] new_state_meta[OF new] new_state_graph[OF new] states_add_atom[OF add]
    by (auto dest: same_meta_trans)
  ultimately show ?thesis using r' new_state_graph[OF new] by (auto simp: keeps_def)
qed

lemma parse_loop_keeps:
  "parse_loop k c r ts = Inr (r', c') \<Longrightarrow> c < states r \<Longrightarrow> keeps c r r' \<and> (c' = c \<or> states r \<le> c')"
proof (induction k c r ts rule: parse_loop.induct)
  case (1 k c r)
  then show ?case by (simp add: keeps_def)
next
  case (2 k c r token ts)
  from 2(5) have k: "\<not> k + 1 > MAX_SEGMENTS" by (auto split: if_splits)
  show ?case
  proof (cases token)
    case (TAtom a)
    let ?r = "if is_literal a then bump_literals r else r"
    from 2(5) k TAtom obtain r1 c1 where add: "add_atom c a ?r = Inr (r1, c1)"
      and loop: "parse_loop (k + 1) c1 r1 ts = Inr (r', c')" by (auto split: sum.splits)
    from 2(1)[OF k TAtom add refl loop] states_add_atom[OF add]
    have "keeps c1 r1 r' \<and> (c' = c1 \<or> states r1 \<le> c')" by auto
    moreover have "keeps c r r1 \<and> states r \<le> c1"
      using keeps_atom[OF add] states_add_atom[OF add] by (auto simp: keeps_def split: if_splits)
    ultimately show ?thesis by (rule keeps_step [rotated])
  next
    case TRest
    with 2(5) k have "r' = add_edge c c (Some AnyValue) r" "c' = c" by (auto split: if_splits)
    then show ?thesis by (simp add: keeps_edge)
  next
    case TOptions
    with 2(5) k obtain ts1 r1 c1 where ts: "ts = TStar # ts1" and add: "add_options c r = Inr (r1, c1)"
      and loop: "parse_loop (k + 1) c1 r1 ts1 = Inr (r', c')"
      by (auto split: list.splits token.splits sum.splits)
    from 2(4)[OF k TOptions ts refl add refl loop] add_options_graph[OF add 2(6)]
    have "keeps c1 r1 r' \<and> (c' = c1 \<or> states r1 \<le> c')" by auto
    from add_options_keeps[OF add 2(6)] this show ?thesis by (rule keeps_step)
  next
    case TOpen
    with 2(5) k obtain r1 c1 ts1 where add: "add_group c r ts = Inr (r1, c1, ts1)"
      and loop: "parse_loop (k + 1) c1 r1 ts1 = Inr (r', c')" by (auto split: sum.splits)
    have "c1 < states r1"
    proof -
      obtain q1 q2 rest' where new: "new_state r = Inr (q1, c1)"
        and loop: "group_loop c c1 c 0 (add_edge c c1 None q1) ts = Inr (q2, rest')"
        and "r1 = bump_groups q2 \<or> r1 = bump_groups (add_edge c1 c None q2)"
        by (rule add_group_cases[OF add])
      then show ?thesis using group_loop_meta[OF loop] new_state_graph[OF new] by auto
    qed
    from add_group_keeps[OF add 2(6)] 2(2)[OF k TOpen add refl refl loop this]
    show ?thesis by (rule keeps_step)
  qed (use 2(5) k in auto)
qed

section \<open>Parsed rules\<close>

lemma parse_tokens_cases:
  assumes "parse_tokens p act tokens = Inr r"
  shows "\<exists>exe ts r1 r2 c. exe \<noteq> [] \<and> tokens = TAtom (Literal exe) # ts \<and>
    add_atom 0 (Literal exe) (bump_literals (empty_rule p act tokens)) = Inr (r1, 1) \<and>
    parse_loop 1 1 r1 ts = Inr (r2, c) \<and> r = r2\<lparr>wr_accept := c\<rparr> \<and>
    parse_loop 0 0 (empty_rule p act tokens) tokens = Inr (r2, c)"
proof -
  obtain exe ts where t: "exe \<noteq> []" "tokens = TAtom (Literal exe) # ts"
    using assms unfolding parse_tokens_def by (auto split: list.splits token.splits atom.splits if_splits)
  with assms obtain r2 c where
    loop: "parse_loop 0 0 (empty_rule p act tokens) tokens = Inr (r2, c)" and r: "r = r2\<lparr>wr_accept := c\<rparr>"
    by (cases "parse_loop 0 0 (empty_rule p act tokens) tokens")
      (auto simp: parse_tokens_def simp del: parse_loop.simps)
  have "\<not> 0 + 1 > MAX_SEGMENTS" by (simp add: MAX_SEGMENTS_def)
  moreover have "parse_loop 0 0 (empty_rule p act tokens) (TAtom (Literal exe) # ts) = Inr (r2, c)"
    using loop by (simp only: t(2))
  ultimately obtain r1 d where add: "add_atom 0 (Literal exe) (bump_literals (empty_rule p act tokens)) = Inr (r1, d)"
    and "parse_loop 1 d r1 ts = Inr (r2, c)"
    by (auto simp: is_literal_def split: sum.splits)
  moreover have "d = 1" using states_add_atom[OF add] by (simp add: states_def bump_literals_def empty_rule_def)
  ultimately show ?thesis using t loop r by blast
qed

lemma empty_rule_ok: "graph_ok (empty_rule p act tokens)" "states (empty_rule p act tokens) = 1"
  "gset (empty_rule p act tokens) = {}"
  by (auto simp: graph_ok_def states_def empty_rule_def gset_def edges_of_def get_eq within_def MAX_STATES_def)

text \<open>The first edge carries the executable, and no other edge leaves the start state.\<close>

lemma parse_tokens_head:
  assumes "parse_tokens p act tokens = Inr r"
  shows "\<exists>exe ts. exe \<noteq> [] \<and> tokens = TAtom (Literal exe) # ts \<and> edges_of r 0 = [(Some (Literal exe), 1)]
    \<and> wr_accept r \<noteq> 0"
proof -
  from parse_tokens_cases[OF assms] obtain exe ts r1 r2 c where t: "exe \<noteq> []" "tokens = TAtom (Literal exe) # ts"
    and add: "add_atom 0 (Literal exe) (bump_literals (empty_rule p act tokens)) = Inr (r1, 1)"
    and loop: "parse_loop 1 1 r1 ts = Inr (r2, c)" and r: "r = r2\<lparr>wr_accept := c\<rparr>" by blast
  have "states r1 = 2" using states_add_atom[OF add] by (simp add: empty_rule_ok)
  moreover have "edges_of r1 0 = [(Some (Literal exe), 1)]"
    using add by (auto simp: add_atom_def new_state_Inr add_edge_def edges_of_def get_eq empty_rule_def
        bump_literals_def split: sum.splits)
  ultimately have "edges_of r2 0 = [(Some (Literal exe), 1)]" "c \<noteq> 0"
    using parse_loop_keeps[OF loop] by (auto simp: keeps_def)
  with t r show ?thesis by (simp add: edges_of_def)
qed

lemma parse_tokens_meta:
  assumes "parse_tokens p act tokens = Inr r"
  shows "wr_pattern r = p" and "wr_action r = act" and "wr_index r = 0"
proof -
  from parse_tokens_cases[OF assms] obtain r2 c where
    "parse_loop 0 0 (empty_rule p act tokens) tokens = Inr (r2, c)" "r = r2\<lparr>wr_accept := c\<rparr>" by blast
  then show "wr_pattern r = p" "wr_action r = act" "wr_index r = 0"
    using parse_loop_keeps[of 0 0 "empty_rule p act tokens" tokens r2 c]
    by (simp_all add: keeps_def same_meta_def empty_rule_ok, simp_all add: empty_rule_def)
qed

definition rule_ok :: "'re word_rule \<Rightarrow> bool" where
  "rule_ok r \<longleftrightarrow> graph_ok r \<and> wr_accept r < states r \<and> wr_accept r \<noteq> 0 \<and>
     (\<exists>exe. exe \<noteq> [] \<and> edges_of r 0 = [(Some (Literal exe), 1)])"

lemma parse_tokens_compiled:
  assumes "parse_tokens p act tokens = Inr r"
  shows "rule_ok r"
    and "\<exists>segs. tokens = pattern_tokens segs \<and> list_all seg_ok segs \<and> rest_last segs \<and> length segs \<le> MAX_SEGMENTS \<and>
      (\<forall>ws. pattern_lang eng segs False ws \<longrightarrow> accepts_words eng r ws) \<and>
      (separated False segs \<longrightarrow> (\<forall>ws. accepts_words eng r ws \<longrightarrow> pattern_lang eng segs False ws))"
proof -
  from parse_tokens_cases[OF assms] obtain r2 c where
    loop: "parse_loop 0 0 (empty_rule p act tokens) tokens = Inr (r2, c)" and r: "r = r2\<lparr>wr_accept := c\<rparr>" by blast
  have g: "gset r = gset r2" "states r = states r2" "edges_of r = edges_of r2"
    using r by (auto simp: gset_def states_def edges_of_def)
  from parse_loop_compiled[OF loop empty_rule_ok(1), of eng] obtain segs where
    c: "compiled eng tokens segs (empty_rule p act tokens) 0 r2 c" and len: "length segs \<le> MAX_SEGMENTS"
    by (auto simp: empty_rule_ok)
  from c g r parse_tokens_head[OF assms] show "rule_ok r"
    by (auto simp: rule_ok_def compiled_def grown_def graph_ok_def)
  have sound: "pattern_lang eng segs False ws" if sep: "separated False segs" and acc: "accepts_words eng r ws" for ws
  proof -
    have "lang_sound eng segs (empty_rule p act tokens) 0 r2 c"
      using c sep by (auto simp: compiled_def out_free_def empty_rule_ok)
    moreover from acc obtain e where "run eng (gset r2) 0 False ws c e"
      using g r by (auto simp: accepts_words_def)
    ultimately obtain u v m where "ws = u @ v" "run eng {} 0 False u 0 m" "pattern_lang eng segs m v"
      unfolding lang_sound_def by (metis empty_rule_ok(3))
    with run_from_dead[of eng "{}" 0 False u 0 m] show ?thesis by auto
  qed
  have complete: "accepts_words eng r ws" if "pattern_lang eng segs False ws" for ws
    using c that g r by (auto simp: compiled_def lang_complete_def accepts_words_def)
  from c len sound complete show "\<exists>segs. tokens = pattern_tokens segs \<and> list_all seg_ok segs \<and> rest_last segs \<and> length segs \<le> MAX_SEGMENTS \<and>
      (\<forall>ws. pattern_lang eng segs False ws \<longrightarrow> accepts_words eng r ws) \<and>
      (separated False segs \<longrightarrow> (\<forall>ws. accepts_words eng r ws \<longrightarrow> pattern_lang eng segs False ws))"
    by (auto simp: compiled_def)
qed

text \<open>Every accepted argument vector starts with the executable.\<close>

lemma accepts_words_executable:
  assumes "accepts_words eng r ws" and "edges_of r 0 = [(Some (Literal exe), 1)]" and "wr_accept r \<noteq> 0"
  shows "ws \<noteq> [] \<and> hd ws = exe"
proof -
  from assms obtain e where "run eng (gset r) 0 False ws (wr_accept r) e" by (auto simp: accepts_words_def)
  then show ?thesis
    by (cases rule: run.cases) (use assms(2,3) in \<open>auto simp: gset_def\<close>)
qed

end
