(* ===== verification/Symbolic.thy ===== *)
theory Symbolic
  imports Word_Language
begin

text \<open>
  Bounded symbolic execution of a word rule on a shell command
  (\<open>packages/agent-policy/src/symbolic.rs\<close>): \<open>definite\<close> explores sets of automaton states,
  \<open>possible\<close> single configurations, both breadth first under a work budget.

  A command is its list of words, executable first. The meaning of a word with unknown parts
  is the set of argument vectors it can expand to (\<open>expands\<close>); the section on soundness
  shows that \<open>MDefinite\<close> and \<open>MAbsent\<close> hold for all of them, whatever the budget.
\<close>

definition MAX_WORK :: nat where "MAX_WORK = 262144"

datatype match_kind = MDefinite | MPossible | MAbsent

type_synonym config = "nat \<times> bool"

section \<open>State sets\<close>

text \<open>The edges of one state, and then the queue of \<open>closure\<close>.\<close>

fun closure_edges :: "bool \<Rightarrow> 're edge list \<Rightarrow> config list \<Rightarrow> config list \<Rightarrow> config list \<times> config list" where
  "closure_edges e [] st queue = (st, queue)"
| "closure_edges e ((a, t) # es) st queue =
     (if a = None \<and> (t, e) \<notin> set st
      then closure_edges e es (bs_insert (t, e) st) (queue @ [(t, e)])
      else closure_edges e es st queue)"

definition targets :: "'re word_rule \<Rightarrow> nat set" where
  "targets r = snd ` (\<Union> (set ` set (wr_edges r)))"

lemma finite_targets [simp]: "finite (targets r)"
  by (simp add: targets_def)

lemma edges_of_targets: "(a, t) \<in> set (edges_of r s) \<Longrightarrow> t \<in> targets r"
  by (force simp: edges_of_def targets_def get_eq split: if_splits)

definition room :: "'re word_rule \<Rightarrow> config list \<Rightarrow> nat" where
  "room r st = card (targets r \<times> UNIV - set st)"

lemma closure_edges_room:
  "closure_edges e es st q = (st', q') \<Longrightarrow> snd ` set es \<subseteq> targets r \<Longrightarrow>
     (st' = st \<and> q' = q) \<or> room r st' < room r st"
proof (induction e es st q rule: closure_edges.induct)
  case (2 e a t es st q)
  show ?case
  proof (cases "a = None \<and> (t, e) \<notin> set st")
    case True
    have "card (targets r \<times> UNIV - insert (t, e) (set st)) < card (targets r \<times> UNIV - set st)"
      using True 2(4) by (intro psubset_card_mono) auto
    then have "room r (bs_insert (t, e) st) < room r st" by (simp add: room_def)
    with 2(1)[OF True] 2(3,4) True show ?thesis by auto
  next
    case False
    with 2 show ?thesis by auto
  qed
qed simp

function closure_loop :: "'re word_rule \<Rightarrow> config list \<Rightarrow> config list \<Rightarrow> config list" where
  "closure_loop r st [] = st"
| "closure_loop r st ((s, e) # queue) =
     (case closure_edges e (edges_of r s) st queue of
        (st', queue') \<Rightarrow> closure_loop r st' queue')"
  by pat_completeness auto
termination
proof (relation "measures [\<lambda>(r, st, q). room r st, \<lambda>(r, st, q). length q]", goal_cases)
  case (2 r st s e queue st' queue')
  have "snd ` set (edges_of r s) \<subseteq> targets r" by (auto dest: edges_of_targets)
  moreover from 2 have eq: "closure_edges e (edges_of r s) st queue = (st', queue')" by simp
  ultimately show ?case using closure_edges_room[OF eq] by (auto simp: eq)
qed simp

definition closure :: "'re word_rule \<Rightarrow> config list \<Rightarrow> config list" where
  "closure r st = closure_loop r st st"

text \<open>\<open>step\<close>: \<open>None\<close> stands for an unknown value.\<close>

definition step_edge :: "'re regex_engine \<Rightarrow> ustring option \<Rightarrow> bool \<Rightarrow> 're edge \<Rightarrow> config option" where
  "step_edge eng word e = (\<lambda>(a, t). case a of
       None \<Rightarrow> None
     | Some atom \<Rightarrow>
         if e \<and> option_atom atom then None
         else if (case word of None \<Rightarrow> atom = AnyValue | Some v \<Rightarrow> accepts eng atom v)
         then Some (t, e \<or> (case word of None \<Rightarrow> True | Some v \<Rightarrow> v = str ''--''))
         else None)"

definition step :: "'re regex_engine \<Rightarrow> 're word_rule \<Rightarrow> config list \<Rightarrow> ustring option \<Rightarrow> config list" where
  "step eng r st word =
     closure r (bs_from (concat (map (\<lambda>(s, e). List.map_filter (step_edge eng word e) (edges_of r s)) st)))"

section \<open>Definite matches\<close>

definition definite_next ::
    "'re regex_engine \<Rightarrow> 're word_rule \<Rightarrow> shell_word \<Rightarrow> nat \<Rightarrow> config list \<Rightarrow> (nat \<times> config list) list" where
  "definite_next eng r word i st =
     (case word of
        Static v sp \<Rightarrow> [(i + 1, step eng r st (Some v))]
      | Dynamic (One p s) es sp \<Rightarrow> [(i + 1, step eng r st None)]
      | Dynamic Many es sp \<Rightarrow> [(i + 1, st), (i, step eng r st None)])"

text \<open>
  A rule without states has no steps, so the work of the loop shrinks in any case: by the
  budget when a visit costs something, by \<open>definite_weight\<close> otherwise.
\<close>

definition definite_weight :: "shell_word list \<Rightarrow> nat \<times> config list \<Rightarrow> nat" where
  "definite_weight words = (\<lambda>(i, st). if st = [] then 1 else 2 * (length words - i) + 2)"

lemma concat_map_Nil: "concat (map (\<lambda>_. []) xs) = []"
  by (induction xs) simp_all

lemma step_no_states: "states r = 0 \<Longrightarrow> step eng r st w = []"
proof -
  assume "states r = 0"
  then have "edges_of r s = []" for s by (simp add: edges_of_def states_def)
  then have "(\<lambda>(s, e). List.map_filter (step_edge eng w e) (edges_of r s)) = (\<lambda>_. [])"
    by (auto simp: List.map_filter_def)
  then show ?thesis by (simp add: step_def closure_def bs_from_def concat_map_Nil)
qed

lemma definite_next_weight:
  assumes "states r = 0" and "st \<noteq> []" and "get words i = Some w"
  shows "sum_list (map (definite_weight words) (definite_next eng r w i st)) < definite_weight words (i, st)"
proof -
  have "i < length words" using assms(3) by (simp add: get_eq split: if_splits)
  with assms show ?thesis
    by (auto simp: definite_next_def definite_weight_def step_no_states
        split: shell_word.splits argument_shape.splits)
qed

function definite_loop ::
    "'re regex_engine \<Rightarrow> 're word_rule \<Rightarrow> shell_word list \<Rightarrow> (nat \<times> config list) list \<Rightarrow> nat
       \<Rightarrow> (nat \<times> config list) list \<Rightarrow> bool" where
  "definite_loop eng r words seen budget [] \<longleftrightarrow> True"
| "definite_loop eng r words seen budget ((i, st) # queue) \<longleftrightarrow>
     (let budget' = budget + length st * states r
      in if budget' > MAX_WORK \<or> st = [] then False
         else if (i, st) \<in> set seen then definite_loop eng r words seen budget' queue
         else (case get words i of
                 None \<Rightarrow> (if wr_accept r \<notin> fst ` set st then False
                          else definite_loop eng r words ((i, st) # seen) budget' queue)
               | Some word \<Rightarrow> definite_loop eng r words ((i, st) # seen) budget'
                   (queue @ definite_next eng r word i st)))"
  by pat_completeness auto
termination
proof (relation "measures [\<lambda>(eng, r, words, seen, b, q). MAX_WORK + 1 - b,
    \<lambda>(eng, r, words, seen, b, q). sum_list (map (definite_weight words) q)]", goal_cases)
  case (2 eng r words seen b i st queue)
  then show ?case by (cases "states r = 0") (auto simp: definite_weight_def)
next
  case (3 eng r words seen b i st queue)
  then show ?case by (cases "states r = 0") (auto simp: definite_weight_def)
next
  case (4 eng r words seen b i st queue x w)
  then show ?case
  proof (cases "states r = 0")
    case False
    with 4 have "0 < length st * states r" by simp
    with 4 have "MAX_WORK + 1 - x < MAX_WORK + 1 - b" by linarith
    then show ?thesis by simp
  qed (use definite_next_weight[of r st words i w eng] in auto)
qed simp

definition definite :: "'re regex_engine \<Rightarrow> 're word_rule \<Rightarrow> shell_word list \<Rightarrow> bool" where
  "definite eng r words = definite_loop eng r words [] 0 [(0, closure r [(0, False)])]"

section \<open>Possible matches\<close>

definition could_match :: "'re regex_engine \<Rightarrow> 're atom \<Rightarrow> shell_word \<Rightarrow> bool" where
  "could_match eng atom word \<longleftrightarrow>
     (case word of
        Static v sp \<Rightarrow> accepts eng atom v
      | Dynamic (One p s) es sp \<Rightarrow>
          (case atom of
             Literal v \<Rightarrow> prefix p v \<and> suffix s v \<and> byte_len v \<ge> byte_len p + byte_len s
           | _ \<Rightarrow> True)
      | Dynamic Many es sp \<Rightarrow> True)"

definition is_many :: "shell_word \<Rightarrow> bool" where
  "is_many word \<longleftrightarrow> (case word of Dynamic Many _ _ \<Rightarrow> True | _ \<Rightarrow> False)"

definition possible_edge ::
    "'re regex_engine \<Rightarrow> shell_word option \<Rightarrow> nat \<Rightarrow> bool \<Rightarrow> 're edge \<Rightarrow> (nat \<times> nat \<times> bool) list" where
  "possible_edge eng word i e = (\<lambda>(a, t). case a of
       None \<Rightarrow> [(t, i, e)]
     | Some atom \<Rightarrow>
         if e \<and> option_atom atom then []
         else (case word of
             None \<Rightarrow> []
           | Some w \<Rightarrow>
               if \<not> could_match eng atom w then []
               else (let next = (if is_many w then i else i + 1) in
                     case w of
                       Static v sp \<Rightarrow> [(t, next, e \<or> v = str ''--'')]
                     | Dynamic sh es sp \<Rightarrow> [(t, next, e), (t, next, True)])))"

definition possible_next ::
    "'re regex_engine \<Rightarrow> 're word_rule \<Rightarrow> shell_word list \<Rightarrow> nat \<times> nat \<times> bool \<Rightarrow> (nat \<times> nat \<times> bool) list" where
  "possible_next eng r words = (\<lambda>(s, i, e).
     (let word = get words i
      in (case word of Some w \<Rightarrow> if is_many w then [(s, i + 1, e)] else [] | None \<Rightarrow> [])
         @ concat (map (possible_edge eng word i e) (edges_of r s))))"

function possible_loop ::
    "'re regex_engine \<Rightarrow> 're word_rule \<Rightarrow> shell_word list \<Rightarrow> (nat \<times> nat \<times> bool) list \<Rightarrow> nat
       \<Rightarrow> (nat \<times> nat \<times> bool) list \<Rightarrow> bool" where
  "possible_loop eng r words seen budget [] \<longleftrightarrow> False"
| "possible_loop eng r words seen budget ((s, i, e) # queue) \<longleftrightarrow>
     (if (s, i, e) \<in> set seen then possible_loop eng r words seen budget queue
      else (let budget' = budget + (length (edges_of r s) + 1)
            in if budget' > MAX_WORK then True
               else if s = wr_accept r \<and> i = length words then True
               else possible_loop eng r words ((s, i, e) # seen) budget'
                      (queue @ possible_next eng r words (s, i, e))))"
  by pat_completeness auto
termination
  by (relation "measures [\<lambda>(eng, r, words, seen, b, q). MAX_WORK + 1 - b,
    \<lambda>(eng, r, words, seen, b, q). length q]") auto

definition possible :: "'re regex_engine \<Rightarrow> 're word_rule \<Rightarrow> shell_word list \<Rightarrow> bool" where
  "possible eng r words = possible_loop eng r words [] 0 [(0, 0, False)]"

section \<open>Classification\<close>

definition word_bytes :: "shell_word \<Rightarrow> nat" where
  "word_bytes word =
     (case word of
        Static v sp \<Rightarrow> byte_len v
      | Dynamic (One p s) es sp \<Rightarrow> byte_len p + byte_len s
      | Dynamic Many es sp \<Rightarrow> 0)"

definition oversized :: "shell_word list \<Rightarrow> bool" where
  "oversized words \<longleftrightarrow> length words > MAX_WORDS \<or> sum_list (map word_bytes words) > MAX_WORD_BYTES"

definition classify :: "'re regex_engine \<Rightarrow> 're word_rule \<Rightarrow> shell_word list \<Rightarrow> match_kind" where
  "classify eng r words =
     (if oversized words then MPossible
      else if definite eng r words then MDefinite
      else if possible eng r words then MPossible
      else MAbsent)"

section \<open>Soundness\<close>

text \<open>The argument vectors that a list of words can become at run time.\<close>

fun expands :: "shell_word list \<Rightarrow> ustring list \<Rightarrow> bool" where
  "expands [] ws \<longleftrightarrow> ws = []"
| "expands (Static v sp # words) ws \<longleftrightarrow> (\<exists>ws'. ws = v # ws' \<and> expands words ws')"
| "expands (Dynamic (One p s) es sp # words) ws \<longleftrightarrow>
     (\<exists>x ws'. ws = (p @ x @ s) # ws' \<and> expands words ws')"
| "expands (Dynamic Many es sp # words) ws \<longleftrightarrow> (\<exists>u v. ws = u @ v \<and> expands words v)"

lemma expands_many:
  "expands (Dynamic Many es sp # words) ws \<longleftrightarrow>
     expands words ws \<or> (\<exists>w ws'. ws = w # ws' \<and> expands (Dynamic Many es sp # words) ws')"
proof (cases ws)
  case (Cons w ws')
  have "(\<exists>u v. w # ws' = u @ v \<and> expands words v) \<longleftrightarrow>
      expands words (w # ws') \<or> (\<exists>u v. ws' = u @ v \<and> expands words v)"
    by (auto simp: Cons_eq_append_conv)
  with Cons show ?thesis by simp
qed simp

definition leads :: "'re regex_engine \<Rightarrow> 're word_rule \<Rightarrow> config list \<Rightarrow> ustring list \<Rightarrow> bool" where
  "leads eng r st ws \<longleftrightarrow> (\<exists>(s, e) \<in> set st. \<exists>e'. run eng (gset r) s e ws (wr_accept r) e')"

lemma run_weaken:
  "run eng E s e ws t e' \<Longrightarrow> (d \<longrightarrow> e) \<Longrightarrow> \<exists>d'. run eng E s d ws t d'"
proof (induction arbitrary: d rule: run.induct)
  case (run_nil s e)
  then show ?case by (blast intro: run.run_nil)
next
  case (run_eps s t e ws u e')
  then show ?case by (blast intro: run.run_eps)
next
  case (run_word s a t e w ws u e')
  from run_word.IH[of "d \<or> w = str ''--''"] run_word.prems
  obtain d' where "run eng E t (d \<or> w = str ''--'') ws u d'" by auto
  moreover have "\<not> (d \<and> option_atom a)" using run_word by blast
  ultimately show ?case using run_word.hyps by (blast intro: run.run_word)
qed

lemma closure_edges_sets:
  "closure_edges e es st q = (st', q') \<Longrightarrow>
     set st' = set st \<union> {(t, e) | t. (None, t) \<in> set es} \<and> set q \<subseteq> set q' \<and> set q' \<subseteq> set q \<union> set st'
     \<and> set st' \<subseteq> set st \<union> set q'"
proof (induction e es st q arbitrary: st' q' rule: closure_edges.induct)
  case (2 e a t es st q)
  show ?case
  proof (cases "a = None \<and> (t, e) \<notin> set st")
    case True
    with 2(3) have "closure_edges e es (bs_insert (t, e) st) (q @ [(t, e)]) = (st', q')" by simp
    from 2(1)[OF True this] True show ?thesis by auto
  next
    case False
    with 2(3) have "closure_edges e es st q = (st', q')" by simp
    from 2(2)[OF False this] False show ?thesis by auto
  qed
qed simp

lemma closure_loop_leads:
  "set q \<subseteq> set st \<Longrightarrow> leads eng r (closure_loop r st q) ws \<Longrightarrow> leads eng r st ws"
proof (induction r st q rule: closure_loop.induct)
  case (2 r st s e q)
  obtain st' q' where eq: "closure_edges e (edges_of r s) st q = (st', q')" by fastforce
  note sets = closure_edges_sets[OF eq]
  with 2(2) have "set q' \<subseteq> set st'" by auto
  with 2(1)[OF eq[symmetric]] 2(3) eq have "leads eng r st' ws" by simp
  then obtain t d e' where t: "(t, d) \<in> set st'" and run: "run eng (gset r) t d ws (wr_accept r) e'"
    by (auto simp: leads_def)
  from t sets consider "(t, d) \<in> set st" | "d = e" "(None, t) \<in> set (edges_of r s)" by auto
  then show ?case
  proof cases
    case 1
    with run show ?thesis by (auto simp: leads_def)
  next
    case 2
    with run have "run eng (gset r) s e ws (wr_accept r) e'"
      by (auto simp: gset_def intro: run_eps)
    with 2 \<open>set ((s, e) # q) \<subseteq> set st\<close> show ?thesis by (auto simp: leads_def)
  qed
qed simp

lemma closure_leads: "leads eng r (closure r st) ws \<Longrightarrow> leads eng r st ws"
  unfolding closure_def by (rule closure_loop_leads) auto

lemma set_map_filter: "y \<in> set (List.map_filter f xs) \<longleftrightarrow> (\<exists>x \<in> set xs. f x = Some y)"
  by (induction xs) (auto simp: List.map_filter_def)

text \<open>One step over a word that may take the value \<open>v\<close>.\<close>

lemma step_leads:
  assumes "leads eng r (step eng r st word) ws" and "word = None \<or> word = Some v"
  shows "leads eng r st (v # ws)"
proof -
  let ?new = "concat (map (\<lambda>(s, e). List.map_filter (step_edge eng word e) (edges_of r s)) st)"
  have "leads eng r (bs_from ?new) ws" using assms(1) closure_leads unfolding step_def by blast
  then obtain t d e' where td: "(t, d) \<in> set ?new"
    and run: "run eng (gset r) t d ws (wr_accept r) e'" unfolding leads_def set_bs_from by blast
  from td obtain s e where s1: "(s, e) \<in> set st" "(t, d) \<in> set (List.map_filter (step_edge eng word e) (edges_of r s))"
    by auto
  from s1(2) obtain a t0 where "(a, t0) \<in> set (edges_of r s)" "step_edge eng word e (a, t0) = Some (t, d)"
    by (auto simp: set_map_filter)
  moreover from this(2) have "t0 = t" by (simp add: step_edge_def split: option.splits if_splits)
  ultimately have s: "(s, e) \<in> set st" "(a, t) \<in> set (edges_of r s)" "step_edge eng word e (a, t) = Some (t, d)"
    using s1(1) by auto
  from s(3) assms(2) obtain atom where a: "a = Some atom" "\<not> (e \<and> option_atom atom)" "accepts eng atom v"
    and d: "e \<or> v = str ''--'' \<longrightarrow> d"
    by (auto simp: step_edge_def split: option.splits if_splits)
  from run_weaken[OF run d] obtain d' where "run eng (gset r) t (e \<or> v = str ''--'') ws (wr_accept r) d'" by blast
  with s a have "run eng (gset r) s e (v # ws) (wr_accept r) d'"
    by (auto simp: gset_def intro: run_word)
  with s(1) show ?thesis by (auto simp: leads_def)
qed

subsection \<open>Definite matches\<close>

definition definite_node ::
    "'re regex_engine \<Rightarrow> 're word_rule \<Rightarrow> shell_word list \<Rightarrow> (nat \<times> config list) set \<Rightarrow> nat \<times> config list \<Rightarrow> bool" where
  "definite_node eng r words V = (\<lambda>(i, st). st \<noteq> [] \<and>
     (case get words i of None \<Rightarrow> wr_accept r \<in> fst ` set st
      | Some w \<Rightarrow> set (definite_next eng r w i st) \<subseteq> V))"

lemma definite_node_mono: "definite_node eng r words V n \<Longrightarrow> V \<subseteq> W \<Longrightarrow> definite_node eng r words W n"
  by (auto simp: definite_node_def split: option.splits prod.splits)

lemma definite_loop_closed:
  "definite_loop eng r words seen b q \<Longrightarrow>
     \<forall>n \<in> set seen. definite_node eng r words (set seen \<union> set q) n \<Longrightarrow>
     \<exists>V. set seen \<union> set q \<subseteq> V \<and> (\<forall>n \<in> V. definite_node eng r words V n)"
proof (induction eng r words seen b q rule: definite_loop.induct)
  case (1 eng r words seen b)
  then show ?case by (intro exI[of _ "set seen"]) simp
next
  case (2 eng r words seen b i st q)
  let ?b = "b + length st * states r"
  from 2(4) have b: "\<not> (?b > MAX_WORK \<or> st = [])" by (auto simp: Let_def split: if_splits)
  show ?case
  proof (cases "(i, st) \<in> set seen")
    case True
    with 2(4) b have "definite_loop eng r words seen ?b q" by (simp add: Let_def)
    moreover have "set seen \<union> set q = set seen \<union> set ((i, st) # q)" using True by auto
    ultimately show ?thesis using 2(1)[OF refl b True] 2(5) by simp
  next
    case False
    show ?thesis
    proof (cases "get words i")
      case None
      with 2(4) b False have acc: "wr_accept r \<in> fst ` set st"
        and loop: "definite_loop eng r words ((i, st) # seen) ?b q"
        by (auto simp: Let_def split: if_splits)
      have "\<forall>n \<in> set ((i, st) # seen). definite_node eng r words (set ((i, st) # seen) \<union> set q) n"
        using 2(5) None acc b by (auto simp: definite_node_def)
      with 2(2)[OF refl b False None _ loop] acc show ?thesis by simp
    next
      case (Some w)
      with 2(4) b False have
        loop: "definite_loop eng r words ((i, st) # seen) ?b (q @ definite_next eng r w i st)"
        by (simp add: Let_def)
      let ?V = "set ((i, st) # seen) \<union> set (q @ definite_next eng r w i st)"
      have "definite_node eng r words ?V (i, st)"
        using Some b by (auto simp: definite_node_def)
      moreover have "set seen \<union> set ((i, st) # q) \<subseteq> ?V" by auto
      ultimately have "\<forall>n \<in> set ((i, st) # seen). definite_node eng r words ?V n"
        using 2(5) definite_node_mono by (metis set_ConsD)
      from 2(3)[OF refl b False Some loop this] show ?thesis by auto
    qed
  qed
qed

lemma definite_closed_leads:
  assumes closed: "\<And>n. n \<in> V \<Longrightarrow> definite_node eng r words V n"
  shows "(i, st) \<in> V \<Longrightarrow> expands (drop i words) ws \<Longrightarrow> leads eng r st ws"
proof (induction "length ws + (length words - i)" arbitrary: i st ws rule: less_induct)
  case less
  note node = closed[OF less.prems(1), unfolded definite_node_def]
  show ?case
  proof (cases "i < length words")
    case False
    with less.prems(2) node have "ws = []" "wr_accept r \<in> fst ` set st" by (auto simp: get_eq)
    then show ?thesis by (force simp: leads_def intro: run_nil)
  next
    case True
    let ?w = "words ! i"
    have drop: "drop i words = ?w # drop (Suc i) words" using True by (simp add: Cons_nth_drop_Suc)
    have succs: "set (definite_next eng r ?w i st) \<subseteq> V" using node True by (simp add: get_eq)
    have unary: "leads eng r st (v # ws')"
      if "(i + 1, step eng r st word) \<in> V" "ws = v # ws'" "expands (drop (Suc i) words) ws'"
        "word = None \<or> word = Some v" for v ws' word
    proof -
      have "leads eng r (step eng r st word) ws'"
        by (rule less.hyps[of ws' "i + 1"]) (use that True in auto)
      from step_leads[OF this that(4)] show ?thesis .
    qed
    consider v sp where "?w = Static v sp" | p s es sp where "?w = Dynamic (One p s) es sp"
      | es sp where "?w = Dynamic Many es sp" by (metis argument_shape.exhaust shell_word.exhaust)
    then show ?thesis
    proof cases
      case 1
      with less.prems(2) drop obtain ws' where "ws = v # ws'" "expands (drop (Suc i) words) ws'" by auto
      with 1 succs unary[of "Some v"] show ?thesis by (simp add: definite_next_def)
    next
      case 2
      with less.prems(2) drop obtain x ws' where "ws = (p @ x @ s) # ws'" "expands (drop (Suc i) words) ws'" by auto
      with 2 succs unary[of None] show ?thesis by (simp add: definite_next_def)
    next
      case (3 es sp)
      with succs have V: "(i + 1, st) \<in> V" "(i, step eng r st None) \<in> V" by (auto simp: definite_next_def)
      have "drop i words = Dynamic Many es sp # drop (Suc i) words" using drop 3 by simp
      with less.prems(2) expands_many[of es sp "drop (Suc i) words" ws]
      consider "expands (drop (Suc i) words) ws" | w ws' where "ws = w # ws'" "expands (drop i words) ws'"
        by metis
      then show ?thesis
      proof cases
        case 1
        with less.hyps[of ws "i + 1" st] V True show ?thesis by simp
      next
        case (2 w ws')
        with less.hyps[of ws' i "step eng r st None"] V step_leads[of eng r st None ws' w] show ?thesis by simp
      qed
    qed
  qed
qed

lemma definite_sound:
  assumes "definite eng r words" and "expands words ws"
  shows "accepts_words eng r ws"
proof -
  from definite_loop_closed[OF assms(1)[unfolded definite_def]] obtain V where
    V: "(0, closure r [(0, False)]) \<in> V" "\<forall>n \<in> V. definite_node eng r words V n" by auto
  have "leads eng r (closure r [(0, False)]) ws"
    using definite_closed_leads[of V eng r words 0] V assms(2) by simp
  then show ?thesis using closure_leads by (fastforce simp: leads_def accepts_words_def)
qed

subsection \<open>Absent matches\<close>

definition possible_node ::
    "'re regex_engine \<Rightarrow> 're word_rule \<Rightarrow> shell_word list \<Rightarrow> (nat \<times> nat \<times> bool) set \<Rightarrow> nat \<times> nat \<times> bool \<Rightarrow> bool" where
  "possible_node eng r words V n \<longleftrightarrow>
     \<not> (fst n = wr_accept r \<and> fst (snd n) = length words) \<and> set (possible_next eng r words n) \<subseteq> V"

lemma possible_loop_closed:
  "\<not> possible_loop eng r words seen b q \<Longrightarrow>
     \<forall>n \<in> set seen. possible_node eng r words (set seen \<union> set q) n \<Longrightarrow>
     \<exists>V. set seen \<union> set q \<subseteq> V \<and> (\<forall>n \<in> V. possible_node eng r words V n)"
proof (induction eng r words seen b q rule: possible_loop.induct)
  case (1 eng r words seen b)
  then show ?case by (intro exI[of _ "set seen"]) simp
next
  case (2 eng r words seen b s i e q)
  let ?n = "(s, i, e)"
  show ?case
  proof (cases "?n \<in> set seen")
    case True
    moreover have "set seen \<union> set q = set seen \<union> set (?n # q)" using True by auto
    ultimately show ?thesis using 2(1)[OF True] 2(3,4) by simp
  next
    case False
    let ?b = "b + (length (edges_of r s) + 1)"
    from 2(3) False have b: "\<not> ?b > MAX_WORK" "\<not> (s = wr_accept r \<and> i = length words)"
      and loop: "\<not> possible_loop eng r words (?n # seen) ?b (q @ possible_next eng r words ?n)"
      by (auto simp: Let_def split: if_splits)
    let ?V = "set (?n # seen) \<union> set (q @ possible_next eng r words ?n)"
    have "possible_node eng r words ?V ?n" using b by (auto simp: possible_node_def)
    moreover have "set seen \<union> set (?n # q) \<subseteq> ?V" by auto
    then have "possible_node eng r words ?V n" if "n \<in> set seen" for n
      using 2(4) that unfolding possible_node_def by blast
    ultimately have "\<forall>n \<in> set (?n # seen). possible_node eng r words ?V n" by auto
    from 2(2)[OF False refl b loop this] show ?thesis by auto
  qed
qed

lemma accepts_could_match:
  "accepts eng a v \<Longrightarrow> expands [word] [v] \<Longrightarrow> could_match eng a word"
  by (cases word) (auto simp: could_match_def suffix_def prefix_def split: argument_shape.splits atom.splits)

text \<open>\<open>possible_next\<close> follows an edge whenever the word can take the value.\<close>

lemma possible_next_eps:
  "(None, t) \<in> set (edges_of r s) \<Longrightarrow> (t, i, e) \<in> set (possible_next eng r words (s, i, e))"
  by (force simp: possible_next_def Let_def possible_edge_def)

lemma possible_next_skip:
  "get words i = Some w \<Longrightarrow> is_many w \<Longrightarrow> (s, i + 1, e) \<in> set (possible_next eng r words (s, i, e))"
  by (simp add: possible_next_def Let_def)

lemma possible_next_word:
  assumes "(Some a, t) \<in> set (edges_of r s)" and "\<not> (e \<and> option_atom a)" and "accepts eng a v"
    and "get words i = Some word" and "expands [word] [v]"
  shows "(t, if is_many word then i else i + 1, e \<or> v = str ''--'') \<in> set (possible_next eng r words (s, i, e))"
proof -
  have "could_match eng a word" by (rule accepts_could_match) fact+
  then have "(t, if is_many word then i else i + 1, e \<or> v = str ''--'')
      \<in> set (possible_edge eng (Some word) i e (Some a, t))"
    using assms(2,5) by (cases word) (auto simp: possible_edge_def Let_def)
  with assms(1,4) show ?thesis by (auto simp: possible_next_def Let_def)
qed

text \<open>A closed set of rejected nodes cannot follow an accepting run.\<close>

lemma possible_closed_run:
  assumes closed: "\<And>n. n \<in> V \<Longrightarrow> possible_node eng r words V n"
  shows "run eng (gset r) s e ws t e' \<Longrightarrow> t = wr_accept r \<Longrightarrow> (s, i, e) \<in> V \<Longrightarrow> i \<le> length words \<Longrightarrow>
     \<not> expands (drop i words) ws"
proof (induction arbitrary: i rule: run.induct)
  case (run_nil s e)
  show ?case
    using run_nil.prems
  proof (induction "length words - i" arbitrary: i)
    case 0
    with closed[of "(s, i, e)"] show ?case by (simp add: possible_node_def)
  next
    case (Suc k)
    then have i: "i < length words" by simp
    show ?case
    proof
      assume ex: "expands (drop i words) []"
      have drop: "drop i words = words ! i # drop (Suc i) words" using i by (simp add: Cons_nth_drop_Suc)
      have "is_many w \<and> expands ws' []" if "expands (w # ws') []" for w ws'
        using that by (induction "w # ws'" "[] :: ustring list" rule: expands.induct) (auto simp: is_many_def)
      with ex drop have many: "is_many (words ! i)" and rest: "expands (drop (Suc i) words) []" by auto
      have "(s, i + 1, e) \<in> V"
        using closed[OF Suc.prems(2)] possible_next_skip[of words i "words ! i" s e eng r] many i
        by (auto simp: possible_node_def get_eq)
      with Suc.hyps(1)[of "i + 1"] Suc rest i show False by simp
    qed
  qed
next
  case (run_eps s t e ws u e')
  have "(t, i, e) \<in> V"
    using closed[OF run_eps.prems(2)] possible_next_eps[of t r s i e eng words] run_eps.hyps(1)
    by (auto simp: possible_node_def gset_def)
  with run_eps show ?case by blast
next
  case (run_word s a t e w ws u e')
  show ?case
    using run_word.prems
  proof (induction "length words - i" arbitrary: i)
    case 0
    then show ?case by simp
  next
    case (Suc k)
    then have i: "i < length words" by simp
    have drop: "drop i words = words ! i # drop (Suc i) words" using i by (simp add: Cons_nth_drop_Suc)
    have follow: "(t, if is_many (words ! i) then i else i + 1, e \<or> w = str ''--'') \<in> V"
      if "expands [words ! i] [w]"
      using closed[OF Suc.prems(2)] possible_next_word[of a t r s e eng w words i "words ! i"]
        run_word.hyps that i
      by (auto simp: possible_node_def gset_def get_eq)
    show ?case
    proof
      assume ex: "expands (drop i words) (w # ws)"
      show False
      proof (cases "is_many (words ! i)")
        case True
        then obtain es sp where m: "words ! i = Dynamic Many es sp"
          by (auto simp: is_many_def split: shell_word.splits argument_shape.splits)
        from ex drop m expands_many[of es sp "drop (Suc i) words" "w # ws"]
        consider "expands (drop (Suc i) words) (w # ws)" | "expands (drop i words) ws" by auto
        then show False
        proof cases
          case 1
          have "(s, i + 1, e) \<in> V"
            using closed[OF Suc.prems(2)] possible_next_skip[of words i "words ! i" s e eng r] True i
            by (auto simp: possible_node_def get_eq)
          with Suc.hyps(1)[of "i + 1"] Suc 1 i show False by simp
        next
          case 2
          from follow m have "(t, i, e \<or> w = str ''--'') \<in> V" by (simp add: is_many_def)
          with run_word.IH[of i] Suc.prems 2 show False by simp
        qed
      next
        case False
        with ex drop have "expands [words ! i] [w] \<and> expands (drop (Suc i) words) ws"
          by (cases "words ! i") (auto simp: is_many_def split: argument_shape.splits)
        with follow False run_word.IH[of "Suc i"] Suc.prems i show False by simp
      qed
    qed
  qed
qed

lemma absent_sound:
  assumes "\<not> possible eng r words" and "expands words ws"
  shows "\<not> accepts_words eng r ws"
proof
  assume "accepts_words eng r ws"
  then obtain e where run: "run eng (gset r) 0 False ws (wr_accept r) e" by (auto simp: accepts_words_def)
  from possible_loop_closed[OF assms(1)[unfolded possible_def]] obtain V where
    "(0, 0, False) \<in> V" "\<forall>n \<in> V. possible_node eng r words V n" by auto
  with possible_closed_run[of V eng r words 0 False ws "wr_accept r" e 0] run assms(2) show False by simp
qed

text \<open>Both certain answers hold for every expansion.\<close>

lemma classify_sound:
  assumes "expands words ws"
  shows "classify eng r words = MDefinite \<Longrightarrow> accepts_words eng r ws"
    and "classify eng r words = MAbsent \<Longrightarrow> \<not> accepts_words eng r ws"
  using assms by (auto simp: classify_def split: if_splits dest: definite_sound absent_sound)

end
