(* ===== verification/Interfaces.thy ===== *)
theory Interfaces
  imports Prelude
begin

text \<open>
  The contracts between components, each a locale: an index that preselects rules, a
  bounded store of snapshots, and decisions that are combined by severity. The
  components that provide them interpret the locales on their own definitions.
\<close>

section \<open>Preselection of rules\<close>

text \<open>
  An index \<open>x\<close> over the rules \<open>entries x\<close> answers a query \<open>c\<close> with some of them, in order and
  with their positions. On the queries it \<open>covers\<close>, it must not leave out a rule that \<open>hits\<close>.
\<close>

locale candidate_index =
  fixes valid :: "'x \<Rightarrow> bool"
    and entries :: "'x \<Rightarrow> 'r list"
    and cands :: "'x \<Rightarrow> 'c \<Rightarrow> (nat \<times> 'r) list"
    and covers :: "'c \<Rightarrow> bool"
    and hit :: "'c \<Rightarrow> 'r \<Rightarrow> bool"
  assumes cands_sorted: "valid x \<Longrightarrow> sorted_wrt (<) (map fst (cands x c))"
    and cands_entries: "valid x \<Longrightarrow> p \<in> set (cands x c) \<Longrightarrow> p \<in> set (enumerated (entries x))"
    and cands_complete: "valid x \<Longrightarrow> covers c \<Longrightarrow> (i, r) \<in> set (enumerated (entries x)) \<Longrightarrow> hit c r \<Longrightarrow>
      (i, r) \<in> set (cands x c)"
begin

lemma enumerated_sorted: "sorted_wrt (<) (map fst (enumerated xs))"
  by (simp add: enumerated_def)

lemma sorted_pairs_eq:
  fixes ps qs :: "(nat \<times> 'r) list"
  assumes "sorted_wrt (<) (map fst ps)" and "sorted_wrt (<) (map fst qs)" and "set ps = set qs"
  shows "ps = qs"
proof -
  have "map fst ps = map fst qs"
    using assms by (intro strict_sorted_equal) auto
  moreover have "inj_on fst (set ps \<union> set qs)"
    using assms strict_sorted_iff[of "map fst ps"] by (simp add: distinct_map)
  ultimately show ?thesis by (simp add: inj_on_map_eq_map)
qed

lemma sorted_filter: "sorted_wrt (<) (map fst ps) \<Longrightarrow> sorted_wrt (<) (map fst (filter P ps))"
  by (induction ps) auto

text \<open>The index finds the hits of a full scan, in the same order.\<close>

lemma hits_of_scan:
  assumes "valid x" and "covers c"
  shows "filter (\<lambda>(i, r). hit c r) (cands x c) = filter (\<lambda>(i, r). hit c r) (enumerated (entries x))"
proof (rule sorted_pairs_eq)
  show "sorted_wrt (<) (map fst (filter (\<lambda>(i, r). hit c r) (cands x c)))"
    using cands_sorted[OF assms(1)] by (rule sorted_filter)
  show "sorted_wrt (<) (map fst (filter (\<lambda>(i, r). hit c r) (enumerated (entries x))))"
    using enumerated_sorted by (rule sorted_filter)
  show "set (filter (\<lambda>(i, r). hit c r) (cands x c)) = set (filter (\<lambda>(i, r). hit c r) (enumerated (entries x)))"
    using cands_entries[OF assms(1)] cands_complete[OF assms] by auto
qed

lemma hit_rules:
  assumes "valid x" and "covers c"
  shows "map snd (filter (\<lambda>(i, r). hit c r) (cands x c)) = filter (hit c) (entries x)"
proof -
  have "map snd (filter (\<lambda>(i, r). hit c r) (zip is rs)) = filter (hit c) rs"
    if "length is = length rs" for "is" :: "nat list" and rs
    using that by (induction "is" rs rule: list_induct2) auto
  then show ?thesis using hits_of_scan[OF assms] by (simp add: enumerated_def)
qed

end

section \<open>Memoised computations\<close>

text \<open>
  A store hands out a handle for a key (\<open>request\<close>) and computes the value of a handle at most
  once (\<open>force\<close>). \<open>memo_run\<close> is any interleaving of the two by any number of clients: \<open>H\<close> is the
  set of handles that have been handed out, with their keys.
\<close>

inductive memo_run ::
    "('s \<Rightarrow> 'k \<Rightarrow> 's \<times> 'h) \<Rightarrow> ('s \<Rightarrow> 'h \<Rightarrow> 's \<times> 'v) \<Rightarrow> 's \<Rightarrow> 's \<Rightarrow> ('k \<times> 'h) set \<Rightarrow> bool"
  for request force s0 where
  memo_init: "memo_run request force s0 s0 {}"
| memo_request: "memo_run request force s0 s H \<Longrightarrow> request s k = (s', h) \<Longrightarrow>
    memo_run request force s0 s' (insert (k, h) H)"
| memo_force: "memo_run request force s0 s H \<Longrightarrow> (k, h) \<in> H \<Longrightarrow> force s h = (s', v) \<Longrightarrow>
    memo_run request force s0 s' H"

locale memo_store =
  fixes inv :: "'s \<Rightarrow> bool"
    and holds :: "'s \<Rightarrow> 'h \<Rightarrow> 'k \<Rightarrow> bool"
    and request :: "'s \<Rightarrow> 'k \<Rightarrow> 's \<times> 'h"
    and force :: "'s \<Rightarrow> 'h \<Rightarrow> 's \<times> 'v"
    and compute :: "'k \<Rightarrow> 'v"
  assumes request_inv: "inv s \<Longrightarrow> request s k = (s', h) \<Longrightarrow> inv s' \<and> holds s' h k"
    and request_keeps: "inv s \<Longrightarrow> request s k = (s', h) \<Longrightarrow> holds s g j \<Longrightarrow> holds s' g j"
    and force_value: "inv s \<Longrightarrow> holds s h k \<Longrightarrow> snd (force s h) = compute k"
    and force_inv: "inv s \<Longrightarrow> holds s h k \<Longrightarrow> inv (fst (force s h))"
    and force_keeps: "inv s \<Longrightarrow> holds s h k \<Longrightarrow> holds s g j \<Longrightarrow> holds (fst (force s h)) g j"
begin

lemma run_invariant:
  "memo_run request force s0 s H \<Longrightarrow> inv s0 \<Longrightarrow> inv s \<and> (\<forall>(k, h) \<in> H. holds s h k)"
proof (induction rule: memo_run.induct)
  case (memo_request s H k s' h)
  then show ?case using request_inv[of s k s' h] request_keeps[of s k s' h] by auto
next
  case (memo_force s H k h s' v)
  then have "holds s h k" by auto
  with memo_force show ?case using force_inv[of s h k] force_keeps[of s h k] by auto
qed simp

text \<open>Whatever happened in between, forcing a handle gives the value of the key it was requested for.\<close>

lemma run_value:
  assumes "memo_run request force s0 s H" and "inv s0" and "(k, h) \<in> H"
  shows "snd (force s h) = compute k"
  using run_invariant[OF assms(1,2)] assms(3) force_value by auto

end

section \<open>Decisions by severity\<close>

text \<open>
  A running decision absorbs further ones and becomes as severe as the most severe of
  them. \<open>main\<close> is the part of the state that only changes when the severity rises.
\<close>

locale escalation =
  fixes rank :: "'s \<Rightarrow> nat"
    and offer :: "'p \<Rightarrow> nat"
    and main :: "'s \<Rightarrow> 'm"
    and absorb :: "'p \<Rightarrow> 's \<Rightarrow> 's"
  assumes absorb_rank: "rank (absorb p s) = max (rank s) (offer p)"
    and absorb_keeps: "offer p \<le> rank s \<Longrightarrow> main (absorb p s) = main s"
    and absorb_takes: "rank s < offer p \<Longrightarrow> rank t < offer p \<Longrightarrow> main (absorb p s) = main (absorb p t)"
begin

lemma fold_rank_start: "rank s \<le> rank (fold absorb ps s)"
proof (induction ps arbitrary: s)
  case (Cons p ps)
  have "rank s \<le> rank (absorb p s)" by (simp add: absorb_rank)
  also have "\<dots> \<le> rank (fold absorb ps (absorb p s))" by (rule Cons.IH)
  finally show ?case by simp
qed simp

lemma fold_rank_offer: "p \<in> set ps \<Longrightarrow> offer p \<le> rank (fold absorb ps s)"
proof (induction ps arbitrary: s)
  case (Cons q ps)
  show ?case
  proof (cases "p = q")
    case True
    have "offer p \<le> rank (absorb p s)" by (simp add: absorb_rank)
    also have "\<dots> \<le> rank (fold absorb ps (absorb p s))" by (rule fold_rank_start)
    finally show ?thesis using True by simp
  next
    case False
    with Cons show ?thesis by simp
  qed
qed simp

text \<open>The result is the start, or one of the absorbed decisions with its severity.\<close>

lemma fold_origin:
  "main (fold absorb ps s) = main s \<and> rank (fold absorb ps s) = rank s \<or>
   (\<exists>p \<in> set ps. \<exists>t. rank t < offer p \<and> rank (fold absorb ps s) = offer p \<and> rank s < offer p
      \<and> main (fold absorb ps s) = main (absorb p t))"
proof (induction ps arbitrary: s)
  case (Cons p ps)
  show ?case
  proof (cases "rank s < offer p")
    case True
    then have r: "rank (absorb p s) = offer p" by (simp add: absorb_rank)
    from Cons[of "absorb p s"] show ?thesis
    proof (elim disjE bexE exE conjE)
      assume "main (fold absorb ps (absorb p s)) = main (absorb p s)"
        and "rank (fold absorb ps (absorb p s)) = rank (absorb p s)"
      with True r show ?thesis by auto
    next
      fix q t
      assume "q \<in> set ps" "rank t < offer q" "rank (fold absorb ps (absorb p s)) = offer q"
        "rank (absorb p s) < offer q" "main (fold absorb ps (absorb p s)) = main (absorb q t)"
      with True r show ?thesis by (intro disjI2 bexI[of _ q] exI[of _ t]) auto
    qed
  next
    case False
    then have "rank (absorb p s) = rank s" "main (absorb p s) = main s"
      by (simp_all add: absorb_rank absorb_keeps)
    with Cons[of "absorb p s"] show ?thesis by auto
  qed
qed simp

text \<open>The severity of the result is the greatest of all.\<close>

lemma fold_rank: "rank (fold absorb ps s) = fold max (map offer ps) (rank s)"
  by (induction ps arbitrary: s) (simp_all add: absorb_rank max.commute)

end

end
