(* ===== verification/Word_Rules.thy ===== *)
theory Word_Rules
  imports Symbolic Interfaces
begin

text \<open>
  A compiled set of word rules with its index by executable, and the selection of the
  matching rule (\<open>packages/agent-policy/src/word_patterns.rs\<close>, \<open>compile\<close>,
  \<open>WordRules\<close>, \<open>ClassifiedWords\<close>, \<open>rank\<close>). The index is proved to be invisible: it
  finds what classifying every rule finds.
\<close>

record 're word_rules =
  wrs_rules :: "'re word_rule list"
  wrs_by_executable :: "(ustring, nat list) btree"

definition empty_word_rules :: "'re word_rules" where
  "empty_word_rules = \<lparr>wrs_rules = [], wrs_by_executable = []\<rparr>"

section \<open>Compilation\<close>

text \<open>\<open>rule.edges[0][0].0\<close>; the source panics when it is no literal, which \<open>compile_no_panic\<close> excludes.\<close>

definition executable_of :: "'re word_rule \<Rightarrow> ustring option" where
  "executable_of r =
     (case edges_of r 0 of (Some (Literal exe), _) # _ \<Rightarrow> Some exe | _ \<Rightarrow> None)"

definition PARSER_PANIC :: ustring where
  "PARSER_PANIC = str ''unreachable: parser requires a literal executable''"

definition bt_push :: "'k::linorder \<Rightarrow> 'v \<Rightarrow> ('k, 'v list) btree \<Rightarrow> ('k, 'v list) btree" where
  "bt_push k v m = bt_insert k ((case bt_get m k of None \<Rightarrow> [] | Some vs \<Rightarrow> vs) @ [v]) m"

definition add_word_rule :: "'re word_rule \<Rightarrow> ustring \<Rightarrow> 're word_rules \<Rightarrow> 're word_rules" where
  "add_word_rule r exe ws =
     (let n = length (wrs_rules ws)
      in \<lparr>wrs_rules = wrs_rules ws @ [r\<lparr>wr_index := n\<rparr>],
          wrs_by_executable = bt_push exe n (wrs_by_executable ws)\<rparr>)"

fun compile_words_from ::
    "'re regex_engine \<Rightarrow> 're word_rules \<Rightarrow> (ustring, action) btree \<Rightarrow> ustring + 're word_rules" where
  "compile_words_from eng ws [] = Inr ws"
| "compile_words_from eng ws ((pattern, act) # rules) =
     (case parse_with_budget eng pattern act 0 of
        Inl e \<Rightarrow> Inl e
      | Inr (r, n) \<Rightarrow>
          (case executable_of r of
             None \<Rightarrow> Inl PARSER_PANIC
           | Some exe \<Rightarrow> compile_words_from eng (add_word_rule r exe ws) rules))"

definition compile_words :: "'re regex_engine \<Rightarrow> (ustring, action) btree \<Rightarrow> ustring + 're word_rules" where
  "compile_words eng rules = compile_words_from eng empty_word_rules rules"

section \<open>Candidates and classification\<close>

definition static_word :: "shell_word \<Rightarrow> ustring option" where
  "static_word word = (case word of Static v sp \<Rightarrow> Some v | Dynamic _ _ _ \<Rightarrow> None)"

definition index_oversized :: "shell_word \<Rightarrow> shell_word list \<Rightarrow> bool" where
  "index_oversized exe args \<longleftrightarrow>
     length args \<ge> MAX_WORDS
     \<or> sum_list (map byte_len (List.map_filter static_word (exe # args))) > MAX_WORD_BYTES"

definition candidates :: "'re word_rules \<Rightarrow> shell_word \<Rightarrow> shell_word list \<Rightarrow> (nat \<times> 're word_rule) list" where
  "candidates ws exe args =
     (case (if index_oversized exe args then None else static_word exe) of
        None \<Rightarrow> enumerated (wrs_rules ws)
      | Some value \<Rightarrow>
          (case bt_get (wrs_by_executable ws) value of
             None \<Rightarrow> []
           | Some indices \<Rightarrow> map (\<lambda>i. (i, wrs_rules ws ! i)) indices))"

type_synonym 're classified_words = "(nat \<times> 're word_rule \<times> match_kind) list"

definition classified ::
    "'re regex_engine \<Rightarrow> 're word_rules \<Rightarrow> shell_word \<Rightarrow> shell_word list \<Rightarrow> 're classified_words" where
  "classified eng ws exe args =
     map (\<lambda>(i, r). (i, r, classify eng r (exe # args))) (candidates ws exe args)"

definition action_priority :: "action \<Rightarrow> nat" where
  "action_priority a = (case a of Allow \<Rightarrow> 0 | Ask \<Rightarrow> 1 | Deny \<Rightarrow> 2)"

text \<open>\<open>rank_le l r\<close> is \<open>rank(l, r) \<noteq> Greater\<close>: on a tie the smaller pattern is the greater rule.\<close>

definition rank_le :: "'re word_rule \<Rightarrow> 're word_rule \<Rightarrow> bool" where
  "rank_le l r \<longleftrightarrow>
     (let pl = action_priority (wr_action l); pr = action_priority (wr_action r);
          sl = wr_specificity l; sr = wr_specificity r
      in pl < pr \<or> pl = pr \<and> (sl < sr \<or> sl = sr \<and> wr_pattern r \<le> wr_pattern l))"

definition matching_words :: "'re classified_words \<Rightarrow> 're word_rule option" where
  "matching_words ms =
     last_max_by rank_le (map (\<lambda>(_, r, _). r) (filter (\<lambda>(_, _, k). k = MDefinite) ms))"

definition possible_restriction :: "'re classified_words \<Rightarrow> action \<Rightarrow> 're word_rule option" where
  "possible_restriction ms act =
     last_max_by rank_le
       (map (\<lambda>(_, r, _). r) (filter (\<lambda>(_, r, k). wr_action r = act \<and> k = MPossible) ms))"

section \<open>The compiled index\<close>

lemma executable_of_ok: "rule_ok r \<Longrightarrow> \<exists>exe. executable_of r = Some exe \<and> edges_of r 0 = [(Some (Literal exe), 1)]"
  by (auto simp: rule_ok_def executable_of_def)

lemma parse_with_budget_ok:
  assumes "parse_with_budget eng p act n = Inr (r, m)"
  shows "rule_ok r" and "wr_pattern r = p" and "wr_action r = act"
  using assms parse_tokens_compiled(1)[of p act _ r] parse_tokens_meta[of p act _ r]
  by (auto simp: parse_with_budget_def split: sum.splits)

lemma compile_no_panic: "parse_with_budget eng p act n = Inr (r, m) \<Longrightarrow> executable_of r \<noteq> None"
  using parse_with_budget_ok(1) executable_of_ok by fastforce

text \<open>Positions of the rules with a given executable, in order.\<close>

definition positions :: "'re word_rules \<Rightarrow> ustring \<Rightarrow> nat list" where
  "positions ws exe = filter (\<lambda>i. executable_of (wrs_rules ws ! i) = Some exe) [0..<length (wrs_rules ws)]"

definition index_ok :: "'re word_rules \<Rightarrow> bool" where
  "index_ok ws \<longleftrightarrow> btree_ok (wrs_by_executable ws) \<and>
     (\<forall>r \<in> set (wrs_rules ws). rule_ok r) \<and>
     (\<forall>i < length (wrs_rules ws). wr_index (wrs_rules ws ! i) = i) \<and>
     (\<forall>exe. (case bt_get (wrs_by_executable ws) exe of None \<Rightarrow> [] | Some is \<Rightarrow> is) = positions ws exe)"

lemma rule_ok_index [simp]: "rule_ok (r\<lparr>wr_index := n\<rparr>) = rule_ok r"
  by (simp add: rule_ok_def graph_ok_def gset_def states_def edges_of_def)

lemma executable_of_index [simp]: "executable_of (r\<lparr>wr_index := n\<rparr>) = executable_of r"
  by (simp add: executable_of_def edges_of_def)

lemma positions_add:
  assumes "executable_of r = Some exe"
  shows "positions (add_word_rule r exe ws) x =
    positions ws x @ (if x = exe then [length (wrs_rules ws)] else [])"
proof -
  have "filter (\<lambda>i. executable_of ((wrs_rules ws @ [r\<lparr>wr_index := length (wrs_rules ws)\<rparr>]) ! i) = Some x)
      [0..<length (wrs_rules ws)] = positions ws x"
    by (auto simp: positions_def nth_append intro: filter_cong)
  with assms show ?thesis
    by (auto simp: positions_def add_word_rule_def Let_def)
qed

lemma add_word_rule_ok:
  assumes ok: "index_ok ws" and r: "rule_ok r" and exe: "executable_of r = Some exe"
  shows "index_ok (add_word_rule r exe ws)"
proof -
  have bt: "btree_ok (wrs_by_executable ws)" using ok by (simp add: index_ok_def)
  have pos: "(case bt_get (wrs_by_executable ws) x of None \<Rightarrow> [] | Some is \<Rightarrow> is) = positions ws x" for x
    using ok by (simp add: index_ok_def)
  have get: "bt_get (wrs_by_executable (add_word_rule r exe ws)) x =
      (if x = exe then Some (positions ws exe @ [length (wrs_rules ws)])
       else bt_get (wrs_by_executable ws) x)" for x
    using pos[of exe] by (auto simp: add_word_rule_def Let_def bt_push_def bt_get_insert[OF bt])
  have "btree_ok (wrs_by_executable (add_word_rule r exe ws))"
    using bt by (simp add: add_word_rule_def Let_def bt_push_def bt_insert_ok)
  moreover have "\<forall>q \<in> set (wrs_rules (add_word_rule r exe ws)). rule_ok q"
    using ok r by (auto simp: add_word_rule_def Let_def index_ok_def)
  moreover have "\<forall>i < length (wrs_rules (add_word_rule r exe ws)). wr_index (wrs_rules (add_word_rule r exe ws) ! i) = i"
    using ok by (auto simp: add_word_rule_def Let_def index_ok_def nth_append less_Suc_eq)
  ultimately show ?thesis
    using pos by (auto simp: index_ok_def get positions_add[OF exe])
qed

lemma compile_words_from_ok:
  "compile_words_from eng ws rules = Inr ws' \<Longrightarrow> index_ok ws \<Longrightarrow>
     index_ok ws' \<and> map (\<lambda>r. (wr_pattern r, wr_action r)) (wrs_rules ws')
       = map (\<lambda>r. (wr_pattern r, wr_action r)) (wrs_rules ws) @ rules"
proof (induction eng ws rules rule: compile_words_from.induct)
  case (2 eng ws p act rules)
  from 2(2) obtain r n exe where parse: "parse_with_budget eng p act 0 = Inr (r, n)"
    and exe: "executable_of r = Some exe"
    and rest: "compile_words_from eng (add_word_rule r exe ws) rules = Inr ws'"
    by (auto split: sum.splits option.splits)
  note ok = parse_with_budget_ok[OF parse]
  from 2(1)[OF parse refl exe rest add_word_rule_ok[OF 2(3) ok(1) exe]] ok(2,3)
  show ?case by (simp add: add_word_rule_def Let_def)
qed simp

lemma empty_index_ok: "index_ok empty_word_rules"
  by (simp add: index_ok_def empty_word_rules_def positions_def bt_get_def)

lemma compile_words_ok:
  assumes "compile_words eng rules = Inr ws"
  shows "index_ok ws" and "map (\<lambda>r. (wr_pattern r, wr_action r)) (wrs_rules ws) = rules"
  using compile_words_from_ok[OF assms[unfolded compile_words_def] empty_index_ok]
  by (simp_all add: empty_word_rules_def)

section \<open>The index is invisible\<close>

lemma expands_exists: "\<exists>ws. expands words ws"
proof (induction words)
  case (Cons w words)
  then obtain ws where "expands words ws" by blast
  then show ?case
    by (cases w rule: word_span.cases)
      (auto, metis argument_shape.exhaust append_Nil expands.simps(3) expands.simps(4))
qed simp

text \<open>A static executable other than the rule's own makes the rule absent.\<close>

lemma classify_other_executable:
  assumes ok: "rule_ok r" and exe: "executable_of r = Some x" and "x \<noteq> v"
    and "\<not> oversized (Static v sp # args)"
  shows "classify eng r (Static v sp # args) = MAbsent"
proof -
  have e0: "edges_of r 0 = [(Some (Literal x), 1)]" and acc: "wr_accept r \<noteq> 0"
    using ok executable_of_ok[OF ok] exe by (auto simp: rule_ok_def)
  have "\<not> definite eng r (Static v sp # args)"
  proof
    assume d: "definite eng r (Static v sp # args)"
    obtain ws where "expands (Static v sp # args) ws" using expands_exists by blast
    with definite_sound[OF d this] accepts_words_executable[OF _ e0 acc] \<open>x \<noteq> v\<close> show False by fastforce
  qed
  moreover have "possible_next eng r (Static v sp # args) (0, 0, False) = []"
    using e0 \<open>x \<noteq> v\<close> by (simp add: possible_next_def possible_edge_def could_match_def is_many_def Let_def)
  then have "\<not> possible eng r (Static v sp # args)"
    using e0 acc by (simp add: possible_def Let_def MAX_WORK_def)
  ultimately show ?thesis using assms(4) by (simp add: classify_def)
qed

lemma oversized_index: "index_oversized exe args \<Longrightarrow> oversized (exe # args)"
proof -
  have "sum_list (map byte_len (List.map_filter static_word ws)) \<le> sum_list (map word_bytes ws)" for ws
    by (induction ws) (auto simp: List.map_filter_def static_word_def word_bytes_def
        split: shell_word.splits argument_shape.splits)
  from this[of "exe # args"] show "index_oversized exe args \<Longrightarrow> oversized (exe # args)"
    by (auto simp: index_oversized_def oversized_def)
qed

definition command_hit :: "'re regex_engine \<Rightarrow> shell_word \<times> shell_word list \<Rightarrow> 're word_rule \<Rightarrow> bool" where
  "command_hit eng c r \<longleftrightarrow> classify eng r (fst c # snd c) \<noteq> MAbsent"

lemma candidates_cases:
  assumes "index_ok ws"
  shows "candidates ws exe args = enumerated (wrs_rules ws) \<or>
    (\<exists>v sp. exe = Static v sp \<and>
       candidates ws exe args = map (\<lambda>i. (i, wrs_rules ws ! i)) (positions ws v))"
proof (cases "if index_oversized exe args then None else static_word exe")
  case None
  then show ?thesis by (simp add: candidates_def)
next
  case (Some v)
  then obtain sp where "exe = Static v sp"
    by (auto simp: static_word_def split: if_splits shell_word.splits)
  moreover have "(case bt_get (wrs_by_executable ws) v of None \<Rightarrow> [] | Some is \<Rightarrow> is) = positions ws v"
    using assms by (simp add: index_ok_def)
  ultimately show ?thesis
    using Some by (auto simp: candidates_def split: option.splits)
qed

interpretation word_index: candidate_index index_ok wrs_rules "\<lambda>ws c. candidates ws (fst c) (snd c)"
  "\<lambda>c. \<not> oversized (fst c # snd c)" "command_hit eng"
proof (unfold_locales, goal_cases)
  case (1 ws c)
  have "sorted_wrt (<) (positions ws v)" for v
    by (simp add: positions_def sorted_wrt_filter)
  moreover have "map fst (map (\<lambda>i. (i, wrs_rules ws ! i)) ps) = ps" for ps
    by (simp add: comp_def)
  ultimately show ?case
    using candidates_cases[OF 1, of "fst c" "snd c"] by (auto simp: enumerated_def simp del: map_map)
next
  case (2 ws p c)
  with candidates_cases[OF 2(1), of "fst c" "snd c"] show ?case
    by (auto simp: set_enumerated positions_def)
next
  case (3 ws c i r)
  show ?case
  proof (cases "candidates ws (fst c) (snd c) = enumerated (wrs_rules ws)")
    case True
    with 3 show ?thesis by simp
  next
    case False
    with candidates_cases[OF 3(1), of "fst c" "snd c"] obtain v sp where
      v: "fst c = Static v sp" "candidates ws (fst c) (snd c) = map (\<lambda>i. (i, wrs_rules ws ! i)) (positions ws v)"
      by blast
    from 3(3) have r: "i < length (wrs_rules ws)" "wrs_rules ws ! i = r" by (auto simp: set_enumerated)
    with 3(1) have ok: "rule_ok r" by (auto simp: index_ok_def)
    then obtain x where x: "executable_of r = Some x" using executable_of_ok by blast
    with classify_other_executable[OF ok x, of v sp "snd c" eng] 3(2,4) v(1) have "x = v"
      by (auto simp: command_hit_def)
    with r x v show ?thesis by (auto simp: positions_def)
  qed
qed

text \<open>A rule that accepts some expansion of the command is always a candidate.\<close>

lemma candidates_accepting:
  assumes ix: "index_ok ws" and i: "i < length (wrs_rules ws)"
    and ex: "expands (exe # args) vs" and acc: "accepts_words eng (wrs_rules ws ! i) vs"
  shows "(i, wrs_rules ws ! i) \<in> set (candidates ws exe args)"
proof -
  let ?r = "wrs_rules ws ! i"
  have ok: "rule_ok ?r" using ix i by (auto simp: index_ok_def)
  then obtain x where x: "executable_of ?r = Some x" "edges_of ?r 0 = [(Some (Literal x), 1)]"
    using executable_of_ok by blast
  have "vs \<noteq> [] \<and> hd vs = x"
    using accepts_words_executable[OF acc x(2)] ok by (simp add: rule_ok_def)
  moreover have "hd vs = v" if "exe = Static v sp" for v sp using ex that by auto
  ultimately show ?thesis
    using candidates_cases[OF ix, of exe args] i x(1)
    by (auto simp: set_enumerated positions_def)
qed

lemma candidates_indexed:
  assumes "index_ok ws" and "(i, r) \<in> set (candidates ws exe args)"
  shows "i < length (wrs_rules ws)" and "wrs_rules ws ! i = r" and "wr_index r = i"
  using word_index.cands_entries[of ws "(i, r)" "(exe, args)"] assms
  by (auto simp: set_enumerated index_ok_def)

lemma classified_accepting:
  assumes "index_ok ws" and "r \<in> set (wrs_rules ws)" and "expands (exe # args) vs" and "accepts_words eng r vs"
  shows "\<exists>i k. (i, r, k) \<in> set (classified eng ws exe args) \<and> k \<noteq> MAbsent"
proof -
  from assms(2) obtain i where i: "i < length (wrs_rules ws)" "wrs_rules ws ! i = r" by (metis in_set_conv_nth)
  have "classify eng r (exe # args) \<noteq> MAbsent" using classify_sound(2)[OF assms(3)] assms(4) by blast
  moreover have "(i, r) \<in> set (candidates ws exe args)"
    using candidates_accepting[OF assms(1) i(1) assms(3)] i(2) assms(4) by simp
  ultimately show ?thesis by (force simp: classified_def)
qed

lemma classified_definite:
  assumes "(i, r, MDefinite) \<in> set (classified eng ws exe args)" and "expands (exe # args) vs"
  shows "accepts_words eng r vs"
proof -
  have "classify eng r (exe # args) = MDefinite" using assms(1) by (auto simp: classified_def)
  with classify_sound(1)[OF assms(2)] show ?thesis by blast
qed

text \<open>Classifying every rule, without the index.\<close>

definition classified_scan ::
    "'re regex_engine \<Rightarrow> 're word_rules \<Rightarrow> shell_word \<Rightarrow> shell_word list \<Rightarrow> 're classified_words" where
  "classified_scan eng ws exe args =
     map (\<lambda>(i, r). (i, r, classify eng r (exe # args))) (enumerated (wrs_rules ws))"

lemma classified_hits:
  assumes "index_ok ws" and "\<not> oversized (exe # args)"
  shows "filter (\<lambda>(_, _, k). k \<noteq> MAbsent) (classified eng ws exe args)
    = filter (\<lambda>(_, _, k). k \<noteq> MAbsent) (classified_scan eng ws exe args)"
proof -
  have classes: "filter (\<lambda>(_, _, k). k \<noteq> MAbsent) (map (\<lambda>(i, r). (i, r, classify eng r (exe # args))) ps)
      = map (\<lambda>(i, r). (i, r, classify eng r (exe # args))) (filter (\<lambda>(i, r). command_hit eng (exe, args) r) ps)" for ps
    by (induction ps) (auto simp: command_hit_def)
  have "filter (\<lambda>(i, r). command_hit eng (exe, args) r) (candidates ws exe args)
      = filter (\<lambda>(i, r). command_hit eng (exe, args) r) (enumerated (wrs_rules ws))"
    using word_index.hits_of_scan[of ws "(exe, args)" eng] assms by simp
  then show ?thesis unfolding classified_def classified_scan_def classes by simp
qed

lemma filter_refine:
  assumes "filter P xs = filter P ys" and "\<And>x. Q x \<Longrightarrow> P x"
  shows "filter Q xs = filter Q ys"
proof -
  have "filter Q zs = filter Q (filter P zs)" for zs
    using assms(2) by (auto intro: filter_cong)
  with assms(1) show ?thesis by metis
qed

lemma index_transparent:
  assumes "index_ok ws" and "\<not> oversized (exe # args)"
  shows "matching_words (classified eng ws exe args) = matching_words (classified_scan eng ws exe args)"
    and "possible_restriction (classified eng ws exe args) act
      = possible_restriction (classified_scan eng ws exe args) act"
proof -
  note hits = classified_hits[OF assms, of eng]
  show "matching_words (classified eng ws exe args) = matching_words (classified_scan eng ws exe args)"
    unfolding matching_words_def by (subst filter_refine[OF hits]) auto
  show "possible_restriction (classified eng ws exe args) act
      = possible_restriction (classified_scan eng ws exe args) act"
    unfolding possible_restriction_def by (subst filter_refine[OF hits]) auto
qed

section \<open>Selection\<close>

lemma rank_le_total: "rank_le l r \<or> rank_le r l"
  by (auto simp: rank_le_def Let_def)

lemma rank_le_trans: "rank_le a b \<Longrightarrow> rank_le b c \<Longrightarrow> rank_le a c"
  by (fastforce simp: rank_le_def Let_def)

lemma rank_le_action: "rank_le l r \<Longrightarrow> action_priority (wr_action l) \<le> action_priority (wr_action r)"
  by (auto simp: rank_le_def Let_def)

lemma matching_words_best:
  assumes "matching_words ms = Some r"
  shows "(\<exists>i. (i, r, MDefinite) \<in> set ms) \<and> (\<forall>i q. (i, q, MDefinite) \<in> set ms \<longrightarrow> rank_le q r)"
  using last_max_by_greatest[of rank_le, OF rank_le_total rank_le_trans assms[unfolded matching_words_def]]
  by fastforce

lemma possible_restriction_best:
  assumes "possible_restriction ms act = Some r"
  shows "(\<exists>i. (i, r, MPossible) \<in> set ms) \<and> wr_action r = act"
  using last_max_by_greatest[of rank_le, OF rank_le_total rank_le_trans assms[unfolded possible_restriction_def]]
  by fastforce

lemma matching_words_None: "matching_words ms = None \<longleftrightarrow> (\<forall>(i, r, k) \<in> set ms. k \<noteq> MDefinite)"
  by (auto simp: matching_words_def filter_empty_conv split: prod.splits)

lemma possible_restriction_None:
  "possible_restriction ms act = None \<longleftrightarrow> (\<forall>(i, r, k) \<in> set ms. \<not> (wr_action r = act \<and> k = MPossible))"
  by (auto simp: possible_restriction_def filter_empty_conv split: prod.splits)

end
