(* ===== verification/Compiled_Commands.thy ===== *)
theory Compiled_Commands
  imports Globs Word_Rules "HOL-Library.Multiset"
begin

text \<open>
  Compiled command policies and the cache that holds them
  (\<open>packages/agent-policy/src/compiled_commands.rs\<close>).

  Cache entries are shared: a caller keeps its entry after it has been evicted. They live
  in a store (\<open>ca_cells\<close>, the handle of an entry is its position), the queue holds handles. The
  mutex around the queue makes \<open>entry\<close> one step; \<open>resolve\<close> runs outside it and is another.
\<close>

record 're compiled_layer =
  cl_legacy :: "rule list"
  cl_words :: "'re word_rules"
  cl_legacy_executables :: "(ustring, nat list) btree"
  cl_legacy_fallback :: "nat list"

record 're compiled_policy =
  cp_layers :: "'re compiled_layer list"
  cp_ordered :: bool

section \<open>The index of legacy globs\<close>

definition legacy_executable :: "ustring \<Rightarrow> ustring option" where
  "legacy_executable pattern =
     (case first_word pattern of
        None \<Rightarrow> None
      | Some word \<Rightarrow>
          if STAR \<notin> set word \<and> \<not> (pattern \<noteq> [] \<and> is_whitespace (hd pattern)) then Some word else None)"

fun index_legacy ::
    "nat \<Rightarrow> rule list \<Rightarrow> (ustring, nat list) btree \<Rightarrow> nat list \<Rightarrow> (ustring, nat list) btree \<times> nat list" where
  "index_legacy i [] execs fallback = (execs, fallback)"
| "index_legacy i (r # rs) execs fallback =
     (case legacy_executable (rule_pattern r) of
        Some exe \<Rightarrow> index_legacy (i + 1) rs (bt_push exe i execs) fallback
      | None \<Rightarrow> index_legacy (i + 1) rs execs (fallback @ [i]))"

fun merge :: "nat list \<Rightarrow> nat list \<Rightarrow> nat list" where
  "merge (l # ls) (r # rs) = (if l < r then l # merge ls (r # rs) else r # merge (l # ls) rs)"
| "merge [] rs = rs"
| "merge ls [] = ls"

definition legacy_candidates :: "'re compiled_layer \<Rightarrow> ustring \<Rightarrow> (nat \<times> rule) list" where
  "legacy_candidates layer command =
     (let indexed = (case first_word command of
            None \<Rightarrow> []
          | Some exe \<Rightarrow> (case bt_get (cl_legacy_executables layer) exe of None \<Rightarrow> [] | Some is \<Rightarrow> is))
      in map (\<lambda>i. (i, cl_legacy layer ! i)) (merge indexed (cl_legacy_fallback layer)))"

section \<open>Compilation\<close>

definition compile_layer ::
    "'re regex_engine \<Rightarrow> nat \<times> command_policy_layer \<Rightarrow> ustring + 're compiled_layer" where
  "compile_layer eng = (\<lambda>(index, layer).
     (let legacy = map mk_rule (layer_command layer);
          (execs, fallback) = index_legacy 0 legacy [] []
      in case map_err (\<lambda>e. str ''command policy layer '' @ show_nat index @ str '': '' @ e)
                (compile_words eng (layer_command_patterns layer)) of
           Inl e \<Rightarrow> Inl e
         | Inr ws \<Rightarrow> Inr \<lparr>cl_legacy = legacy, cl_words = ws,
             cl_legacy_executables = execs, cl_legacy_fallback = fallback\<rparr>))"

definition policy_layers_of :: "command_policy option \<Rightarrow> command_policy_layer list" where
  "policy_layers_of p = (case p of None \<Rightarrow> [] | Some policy \<Rightarrow> policy_layers policy)"

definition compile_policy ::
    "'re regex_engine \<Rightarrow> command_policy_layer \<Rightarrow> command_policy option \<Rightarrow> ustring + 're compiled_policy" where
  "compile_policy eng base ordered =
     (if (case ordered of Some policy \<Rightarrow> policy_version policy \<noteq> 1 | None \<Rightarrow> False)
      then Inl (str ''unsupported command policy version'')
      else (case traverse (compile_layer eng) (enumerated (base # policy_layers_of ordered)) of
              Inl e \<Rightarrow> Inl e
            | Inr layers \<Rightarrow> Inr \<lparr>cp_layers = layers, cp_ordered = (ordered \<noteq> None)\<rparr>))"

section \<open>The cache\<close>

record 're cache_entry =
  ce_base :: command_policy_layer
  ce_ordered :: "command_policy option"
  ce_compiled :: "(ustring + 're compiled_policy) option"

record 're policy_cache =
  ca_cells :: "'re cache_entry list"
  ca_queue :: "nat list"

definition empty_cache :: "'re policy_cache" where
  "empty_cache = \<lparr>ca_cells = [], ca_queue = []\<rparr>"

definition CACHE_LIMIT :: nat where "CACHE_LIMIT = 16"

definition base_layer :: "agent_config \<Rightarrow> command_policy_layer" where
  "base_layer config = \<lparr>layer_command = perm_command (cfg_permission config),
     layer_command_patterns = perm_command_patterns (cfg_permission config)\<rparr>"

definition entry_key :: "'re cache_entry \<Rightarrow> command_policy_layer \<times> command_policy option" where
  "entry_key e = (ce_base e, ce_ordered e)"

definition config_key :: "agent_config \<Rightarrow> command_policy_layer \<times> command_policy option" where
  "config_key config = (base_layer config, perm_command_policy (cfg_permission config))"

definition resolve ::
    "'re regex_engine \<Rightarrow> 're policy_cache \<Rightarrow> nat \<Rightarrow> 're policy_cache \<times> (ustring + 're compiled_policy)" where
  "resolve eng cache h =
     (let e = ca_cells cache ! h
      in case ce_compiled e of
           Some result \<Rightarrow> (cache, result)
         | None \<Rightarrow>
             (let result = compile_policy eng (ce_base e) (ce_ordered e)
              in (cache\<lparr>ca_cells := (ca_cells cache)[h := e\<lparr>ce_compiled := Some result\<rparr>]\<rparr>, result)))"

fun position :: "('a \<Rightarrow> bool) \<Rightarrow> 'a list \<Rightarrow> nat option" where
  "position P [] = None"
| "position P (x # xs) = (if P x then Some 0 else map_option Suc (position P xs))"

definition cache_entry_for :: "'re policy_cache \<Rightarrow> agent_config \<Rightarrow> 're policy_cache \<times> nat" where
  "cache_entry_for cache config =
     (case position (\<lambda>h. entry_key (ca_cells cache ! h) = config_key config) (ca_queue cache) of
        Some i \<Rightarrow>
          (let h = ca_queue cache ! i
           in (cache\<lparr>ca_queue := h # take i (ca_queue cache) @ drop (Suc i) (ca_queue cache)\<rparr>, h))
      | None \<Rightarrow>
          (let h = length (ca_cells cache);
               e = \<lparr>ce_base = base_layer config,
                    ce_ordered = perm_command_policy (cfg_permission config), ce_compiled = None\<rparr>
           in (\<lparr>ca_cells = ca_cells cache @ [e],
                ca_queue = take CACHE_LIMIT (h # ca_queue cache)\<rparr>, h)))"

text \<open>\<open>poisoned\<close>: an earlier holder of the lock has panicked.\<close>

definition cached ::
    "'re regex_engine \<Rightarrow> bool \<Rightarrow> 're policy_cache \<Rightarrow> agent_config
       \<Rightarrow> 're policy_cache \<times> (ustring + 're compiled_policy)" where
  "cached eng poisoned cache config =
     (if poisoned then (cache, Inl (str ''compiled command policy cache is unavailable''))
      else (case cache_entry_for cache config of (cache', h) \<Rightarrow> resolve eng cache' h))"

section \<open>The legacy index is invisible\<close>

lemma first_word_append:
  assumes "first_word s = Some w" and "s \<noteq> []" and "\<not> is_whitespace (hd s)"
  shows "\<exists>t. s = w @ t \<and> (t = [] \<or> is_whitespace (hd t)) \<and> w \<noteq> [] \<and> (\<forall>c \<in> set w. \<not> is_whitespace c)"
proof -
  have "dropWhile is_whitespace s = s" using assms(2,3) by (cases s) auto
  with assms(1) have w: "w = takeWhile (\<lambda>c. \<not> is_whitespace c) s" "w \<noteq> []"
    by (auto simp: first_word_def Let_def split: if_splits)
  let ?t = "dropWhile (\<lambda>c. \<not> is_whitespace c) s"
  have "s = w @ ?t" using w by simp
  moreover have "?t = [] \<or> is_whitespace (hd ?t)"
    using hd_dropWhile[of "\<lambda>c. \<not> is_whitespace c" s] by auto
  moreover have "\<forall>c \<in> set w. \<not> is_whitespace c" using w(1) by (auto dest: set_takeWhileD)
  ultimately show ?thesis using w(2) by (intro exI[of _ ?t]) simp
qed

lemma first_word_of_append:
  assumes "w \<noteq> []" and "\<forall>c \<in> set w. \<not> is_whitespace c" and "t = [] \<or> is_whitespace (hd t)"
  shows "first_word (w @ t) = Some w"
proof -
  have "dropWhile is_whitespace (w @ t) = w @ t" using assms(1,2) by (cases w) auto
  moreover have "takeWhile (\<lambda>c. \<not> is_whitespace c) (w @ t) = w"
    using assms(2,3) by (cases t) (auto simp: takeWhile_append)
  ultimately show ?thesis using assms(1) by (simp add: first_word_def)
qed

lemma STAR_not_whitespace: "\<not> is_whitespace STAR"
  by (simp add: is_whitespace_def STAR_def ch_def)

text \<open>Everything up to the first star of a pattern is a prefix of what it matches.\<close>

lemma glob_matches_prefix:
  assumes "glob_matches p v"
  shows "prefix (takeWhile (\<lambda>c. c \<noteq> STAR) p) v" and "STAR \<notin> set p \<Longrightarrow> v = p"
proof -
  obtain w ws where split: "split_on (\<lambda>c. c = STAR) p = w # ws"
    by (cases "split_on (\<lambda>c. c = STAR) p") auto
  with hd_split_on[of "\<lambda>c. c = STAR" p] have w: "w = takeWhile (\<lambda>c. c \<noteq> STAR) p" by simp
  from glob_sound[OF assms] glob_spec_parts[OF split] obtain t where t: "v = w @ t" "parts_run ws t []" by auto
  with w show "prefix (takeWhile (\<lambda>c. c \<noteq> STAR) p) v" by simp
  assume "STAR \<notin> set p"
  with split split_on_none[of p "\<lambda>c. c = STAR"] have "w = p" "ws = []" by auto
  with t show "v = p" by simp
qed

lemma legacy_executable_match:
  assumes exe: "legacy_executable p = Some exe" and m: "glob_matches p v"
  shows "first_word v = Some exe"
proof -
  from exe have fw: "first_word p = Some exe" and star: "STAR \<notin> set exe"
    and start: "\<not> (p \<noteq> [] \<and> is_whitespace (hd p))"
    by (auto simp: legacy_executable_def split: option.splits if_splits)
  then have "p \<noteq> []" by (auto simp: first_word_def)
  with start first_word_append[OF fw] obtain t where
    p: "p = exe @ t" "t = [] \<or> is_whitespace (hd t)" "exe \<noteq> []" "\<forall>c \<in> set exe. \<not> is_whitespace c" by auto
  show ?thesis
  proof (cases t)
    case Nil
    with p star glob_matches_prefix(2)[OF m] have "v = exe @ []" by simp
    then show ?thesis using first_word_of_append[OF p(3,4), of "[]"] by simp
  next
    case (Cons c t')
    with p have c: "is_whitespace c" by simp
    then have "c \<noteq> STAR" using STAR_not_whitespace by auto
    with star Cons p(1) have "prefix (exe @ [c]) (takeWhile (\<lambda>c. c \<noteq> STAR) p)"
      by (auto simp: takeWhile_append prefix_def)
    with glob_matches_prefix(1)[OF m] obtain s where "v = exe @ c # s"
      by (auto simp: prefix_def)
    with first_word_of_append[OF p(3,4), of "c # s"] c show ?thesis by simp
  qed
qed

definition exec_positions :: "nat \<Rightarrow> rule list \<Rightarrow> ustring option \<Rightarrow> nat list" where
  "exec_positions i rs x =
     map fst (filter (\<lambda>(j, r). legacy_executable (rule_pattern r) = x) (zip [i..<i + length rs] rs))"

lemma exec_positions_Nil [simp]: "exec_positions i [] x = []"
  by (simp add: exec_positions_def)

lemma exec_positions_Cons:
  "exec_positions i (r # rs) x =
     (if legacy_executable (rule_pattern r) = x then [i] else []) @ exec_positions (Suc i) rs x"
proof -
  have "[i..<i + length (r # rs)] = i # [Suc i..<Suc i + length rs]"
    using upt_conv_Cons[of i "i + length (r # rs)"] by simp
  then show ?thesis by (simp add: exec_positions_def)
qed

lemma index_legacy_positions:
  assumes "index_legacy i rs execs fb = (execs', fb')" and "btree_ok execs"
  shows "btree_ok execs' \<and> fb' = fb @ exec_positions i rs None \<and>
    (\<forall>x. (case bt_get execs' x of None \<Rightarrow> [] | Some is \<Rightarrow> is)
       = (case bt_get execs x of None \<Rightarrow> [] | Some is \<Rightarrow> is) @ exec_positions i rs (Some x))"
  using assms
proof (induction i rs execs fb rule: index_legacy.induct)
  case (2 i r rs execs fb)
  show ?case
  proof (cases "legacy_executable (rule_pattern r)")
    case None
    with 2 show ?thesis by (simp add: exec_positions_Cons)
  next
    case (Some exe)
    have ok: "btree_ok (bt_push exe i execs)" using 2(4) by (simp add: bt_push_def bt_insert_ok)
    have "(case bt_get (bt_push exe i execs) x of None \<Rightarrow> [] | Some is \<Rightarrow> is)
        = (case bt_get execs x of None \<Rightarrow> [] | Some is \<Rightarrow> is) @ (if exe = x then [i] else [])" for x
      by (auto simp: bt_push_def bt_get_insert[OF 2(4)])
    with 2(2)[OF Some _ ok] 2(3) Some show ?thesis by (simp add: exec_positions_Cons)
  qed
qed simp

definition layer_ok :: "'re compiled_layer \<Rightarrow> bool" where
  "layer_ok layer \<longleftrightarrow> cl_legacy_fallback layer = exec_positions 0 (cl_legacy layer) None \<and>
     (\<forall>x. (case bt_get (cl_legacy_executables layer) x of None \<Rightarrow> [] | Some is \<Rightarrow> is)
        = exec_positions 0 (cl_legacy layer) (Some x)) \<and>
     index_ok (cl_words layer)"

lemma set_merge [simp]: "set (merge xs ys) = set xs \<union> set ys"
  by (induction xs ys rule: merge.induct) auto

lemma merge_sorted:
  "sorted_wrt (<) xs \<Longrightarrow> sorted_wrt (<) ys \<Longrightarrow> set xs \<inter> set ys = {} \<Longrightarrow> sorted_wrt (<) (merge xs ys)"
proof (induction xs ys rule: merge.induct)
  case (1 l ls r rs)
  show ?case
  proof (cases "l < r")
    case True
    with 1 show ?thesis by (auto intro: order.strict_trans)
  next
    case False
    with 1(5) have "r < l" by auto
    with 1 False show ?thesis by (auto intro: order.strict_trans)
  qed
qed auto

lemma exec_positions_sorted: "sorted_wrt (<) (exec_positions i rs x)"
proof -
  have "sorted_wrt (<) (map fst (zip [i..<i + length rs] rs))" by simp
  then have "sorted_wrt (<) (map fst (filter P (zip [i..<i + length rs] rs)))" for P
    by (induction "zip [i..<i + length rs] rs" rule: rev_induct)
      (metis (no_types, lifting) sorted_wrt_map sorted_wrt_filter)+
  then show ?thesis by (simp add: exec_positions_def)
qed

lemma set_exec_positions:
  "j \<in> set (exec_positions 0 rs x) \<longleftrightarrow> j < length rs \<and> legacy_executable (rule_pattern (rs ! j)) = x"
  by (force simp: exec_positions_def set_zip image_iff)

lemma legacy_candidates_positions:
  assumes "layer_ok layer"
  shows "legacy_candidates layer v = map (\<lambda>i. (i, cl_legacy layer ! i))
    (merge (case first_word v of None \<Rightarrow> [] | Some exe \<Rightarrow> exec_positions 0 (cl_legacy layer) (Some exe))
       (exec_positions 0 (cl_legacy layer) None))"
  using assms by (simp add: legacy_candidates_def layer_ok_def split: option.splits)

interpretation legacy_index: candidate_index layer_ok cl_legacy legacy_candidates "\<lambda>_. True"
  "\<lambda>v r. glob_matches (rule_pattern r) v"
proof (unfold_locales, goal_cases)
  case (1 layer v)
  have "sorted_wrt (<) (merge (case first_word v of None \<Rightarrow> [] | Some exe \<Rightarrow> exec_positions 0 (cl_legacy layer) (Some exe))
       (exec_positions 0 (cl_legacy layer) None))"
    by (rule merge_sorted) (auto simp: exec_positions_sorted set_exec_positions split: option.splits)
  then show ?case by (simp add: legacy_candidates_positions[OF 1] comp_def)
next
  case (2 layer p v)
  then show ?case
    by (auto simp: legacy_candidates_positions set_enumerated set_exec_positions split: option.splits)
next
  case (3 layer v i r)
  then have i: "i < length (cl_legacy layer)" "cl_legacy layer ! i = r" by (simp_all add: set_enumerated)
  show ?case
  proof (cases "legacy_executable (rule_pattern r)")
    case None
    with 3 i show ?thesis by (auto simp: legacy_candidates_positions set_exec_positions)
  next
    case (Some exe)
    with legacy_executable_match[OF Some 3(4)] 3 i show ?thesis
      by (auto simp: legacy_candidates_positions set_exec_positions)
  qed
qed

lemma compile_layer_ok:
  assumes "compile_layer eng (i, layer) = Inr cl"
  shows "layer_ok cl" and "cl_legacy cl = map mk_rule (layer_command layer)"
    and "compile_words eng (layer_command_patterns layer) = Inr (cl_words cl)"
proof -
  obtain execs fb where idx: "index_legacy 0 (map mk_rule (layer_command layer)) [] [] = (execs, fb)" by fastforce
  with assms obtain ws where ws: "compile_words eng (layer_command_patterns layer) = Inr ws"
    and cl: "cl = \<lparr>cl_legacy = map mk_rule (layer_command layer), cl_words = ws,
      cl_legacy_executables = execs, cl_legacy_fallback = fb\<rparr>"
    by (auto simp: compile_layer_def map_err_def split: sum.splits)
  from index_legacy_positions[OF idx] compile_words_ok(1)[OF ws] cl show "layer_ok cl"
    by (auto simp: layer_ok_def bt_get_def)
  from cl ws show "cl_legacy cl = map mk_rule (layer_command layer)"
    "compile_words eng (layer_command_patterns layer) = Inr (cl_words cl)" by simp_all
qed

lemma compile_policy_layers:
  assumes "compile_policy eng base ordered = Inr cp"
  shows "list_all2 (\<lambda>layer cl. layer_ok cl \<and> cl_legacy cl = map mk_rule (layer_command layer)
      \<and> compile_words eng (layer_command_patterns layer) = Inr (cl_words cl))
    (base # policy_layers_of ordered) (cp_layers cp)"
    and "cp_ordered cp \<longleftrightarrow> ordered \<noteq> None"
proof -
  from assms obtain layers where
    t: "traverse (compile_layer eng) (enumerated (base # policy_layers_of ordered)) = Inr layers"
    and cp: "cp = \<lparr>cp_layers = layers, cp_ordered = (ordered \<noteq> None)\<rparr>"
    by (auto simp: compile_policy_def split: if_splits sum.splits)
  have "list_all2 (\<lambda>layer cl. layer_ok cl \<and> cl_legacy cl = map mk_rule (layer_command layer)
      \<and> compile_words eng (layer_command_patterns layer) = Inr (cl_words cl)) ls layers"
    if "list_all2 (\<lambda>x y. compile_layer eng x = Inr y) (enumerated ls) layers" for ls
    using that compile_layer_ok by (fastforce simp: list_all2_conv_all_nth enumerated_def)
  with t cp show "list_all2 (\<lambda>layer cl. layer_ok cl \<and> cl_legacy cl = map mk_rule (layer_command layer)
      \<and> compile_words eng (layer_command_patterns layer) = Inr (cl_words cl))
    (base # policy_layers_of ordered) (cp_layers cp)"
    by (simp add: traverse_Inr)
  from cp show "cp_ordered cp \<longleftrightarrow> ordered \<noteq> None" by simp
qed

section \<open>The cache is invisible\<close>

text \<open>
  \<open>cache_ok\<close>: a computed entry holds what its key compiles to, queued handles point to
  entries with different keys, and at most sixteen are queued.
\<close>

definition cache_ok :: "'re regex_engine \<Rightarrow> 're policy_cache \<Rightarrow> bool" where
  "cache_ok eng cache \<longleftrightarrow>
     (\<forall>e \<in> set (ca_cells cache). ce_compiled e \<noteq> None \<longrightarrow>
        ce_compiled e = Some (compile_policy eng (ce_base e) (ce_ordered e))) \<and>
     (\<forall>h \<in> set (ca_queue cache). h < length (ca_cells cache)) \<and>
     distinct (map (\<lambda>h. entry_key (ca_cells cache ! h)) (ca_queue cache)) \<and>
     length (ca_queue cache) \<le> CACHE_LIMIT"

definition cache_holds :: "'re policy_cache \<Rightarrow> nat \<Rightarrow> agent_config \<Rightarrow> bool" where
  "cache_holds cache h config \<longleftrightarrow>
     h < length (ca_cells cache) \<and> entry_key (ca_cells cache ! h) = config_key config"

definition compile_config :: "'re regex_engine \<Rightarrow> agent_config \<Rightarrow> ustring + 're compiled_policy" where
  "compile_config eng config = compile_policy eng (base_layer config) (perm_command_policy (cfg_permission config))"

lemma position_Some: "position P xs = Some i \<Longrightarrow> i < length xs \<and> P (xs ! i)"
  by (induction xs arbitrary: i) (auto split: if_splits)

lemma position_None: "position P xs = None \<longleftrightarrow> (\<forall>x \<in> set xs. \<not> P x)"
  by (induction xs) auto

lemma move_to_front:
  assumes "i < length xs"
  shows "mset (xs ! i # take i xs @ drop (Suc i) xs) = mset xs"
    and "set (xs ! i # take i xs @ drop (Suc i) xs) = set xs"
    and "length (xs ! i # take i xs @ drop (Suc i) xs) = length xs"
proof -
  have "xs = take i xs @ xs ! i # drop (Suc i) xs" using assms by (simp add: id_take_nth_drop)
  then have "mset xs = mset (take i xs @ xs ! i # drop (Suc i) xs)" by simp
  then show m: "mset (xs ! i # take i xs @ drop (Suc i) xs) = mset xs" by simp
  show "set (xs ! i # take i xs @ drop (Suc i) xs) = set xs" using m by (rule mset_eq_setD)
  show "length (xs ! i # take i xs @ drop (Suc i) xs) = length xs" using m by (rule mset_eq_length)
qed

lemma cache_entry_ok:
  assumes ok: "cache_ok eng cache" and step: "cache_entry_for cache config = (cache', h)"
  shows "cache_ok eng cache' \<and> cache_holds cache' h config"
    and "cache_holds cache g c \<Longrightarrow> cache_holds cache' g c"
proof -
  let ?P = "\<lambda>h. entry_key (ca_cells cache ! h) = config_key config"
  let ?key = "\<lambda>h. entry_key (ca_cells cache ! h)"
  have both: "cache_ok eng cache' \<and> cache_holds cache' h config \<and>
      (cache_holds cache g c \<longrightarrow> cache_holds cache' g c)"
  proof (cases "position ?P (ca_queue cache)")
    case (Some i)
    note i = position_Some[OF Some] move_to_front[of i "ca_queue cache"]
    from Some step have h: "h = ca_queue cache ! i"
      and c': "cache' = cache\<lparr>ca_queue := h # take i (ca_queue cache) @ drop (Suc i) (ca_queue cache)\<rparr>"
      by (auto simp: cache_entry_for_def Let_def)
    have "mset (map ?key (ca_queue cache')) = mset (map ?key (ca_queue cache))"
      using i c' h by (metis (no_types, lifting) mset_map policy_cache.select_convs(2) policy_cache.surjective policy_cache.update_convs(2))
    then have "distinct (map ?key (ca_queue cache'))"
      using ok unfolding cache_ok_def by (metis mset_eq_imp_distinct_iff)
    moreover have "set (ca_queue cache') = set (ca_queue cache)" "length (ca_queue cache') = length (ca_queue cache)"
      "ca_cells cache' = ca_cells cache"
      using i c' h by simp_all
    ultimately show ?thesis
      using ok i h by (auto simp: cache_ok_def cache_holds_def)
  next
    case None
    let ?e = "\<lparr>ce_base = base_layer config, ce_ordered = perm_command_policy (cfg_permission config), ce_compiled = None\<rparr>"
    from None step have h: "h = length (ca_cells cache)"
      and cells: "ca_cells cache' = ca_cells cache @ [?e]"
      and queue: "ca_queue cache' = take CACHE_LIMIT (h # ca_queue cache)"
      by (auto simp: cache_entry_for_def Let_def)
    have lt: "\<forall>g \<in> set (ca_queue cache). g < length (ca_cells cache)" using ok by (simp add: cache_ok_def)
    have "map (\<lambda>h. entry_key (ca_cells cache' ! h)) (h # ca_queue cache) = config_key config # map ?key (ca_queue cache)"
      using lt cells h by (auto simp: nth_append entry_key_def config_key_def)
    moreover have "distinct (config_key config # map ?key (ca_queue cache))"
      using ok None by (auto simp: cache_ok_def position_None)
    ultimately have "distinct (map (\<lambda>h. entry_key (ca_cells cache' ! h)) (ca_queue cache'))"
      using queue distinct_take by (metis take_map)
    moreover have "\<forall>g \<in> set (ca_queue cache'). g < length (ca_cells cache')"
      using lt h cells queue by (auto dest!: in_set_takeD intro: less_SucI)
    ultimately show ?thesis
      using ok cells queue h
      by (auto simp: cache_ok_def cache_holds_def nth_append entry_key_def config_key_def)
  qed
  then show "cache_ok eng cache' \<and> cache_holds cache' h config" by blast
  from both show "cache_holds cache g c \<Longrightarrow> cache_holds cache' g c" by blast
qed

lemma resolve_ok:
  assumes ok: "cache_ok eng cache" and h: "cache_holds cache h config"
  shows "snd (resolve eng cache h) = compile_config eng config"
    and "cache_ok eng (fst (resolve eng cache h))"
    and "cache_holds cache g c \<Longrightarrow> cache_holds (fst (resolve eng cache h)) g c"
proof -
  let ?e = "ca_cells cache ! h"
  let ?r = "compile_policy eng (ce_base ?e) (ce_ordered ?e)"
  have lt: "h < length (ca_cells cache)" using h by (simp add: cache_holds_def)
  have r: "compile_config eng config = ?r"
    using h by (simp add: cache_holds_def compile_config_def entry_key_def config_key_def)
  have computed: "ce_compiled ?e \<noteq> None \<Longrightarrow> ce_compiled ?e = Some ?r"
    using ok lt by (auto simp: cache_ok_def)
  have cells: "entry_key ((ca_cells cache)[h := ?e\<lparr>ce_compiled := x\<rparr>] ! g) = entry_key (ca_cells cache ! g)" for x g
    using lt by (cases "g = h") (auto simp: entry_key_def)
  show "snd (resolve eng cache h) = compile_config eng config"
    using computed r by (auto simp: resolve_def Let_def split: option.splits)
  show "cache_ok eng (fst (resolve eng cache h))"
    using ok cells by (auto simp: resolve_def Let_def cache_ok_def split: option.splits
        dest!: set_update_subset_insert[THEN subsetD])
  show "cache_holds cache g c \<Longrightarrow> cache_holds (fst (resolve eng cache h)) g c"
    using cells by (auto simp: resolve_def Let_def cache_holds_def split: option.splits)
qed

lemma empty_cache_ok: "cache_ok eng empty_cache"
  by (simp add: cache_ok_def empty_cache_def)

interpretation policy_memo: memo_store "cache_ok eng" cache_holds cache_entry_for "resolve eng" "compile_config eng"
  by unfold_locales (blast dest: cache_entry_ok resolve_ok)+

lemma cached_transparent:
  assumes "cache_ok eng cache"
  shows "snd (cached eng False cache config) = compile_config eng config"
    and "cache_ok eng (fst (cached eng poisoned cache config))"
proof -
  obtain c' h where e: "cache_entry_for cache config = (c', h)" by fastforce
  note ok = cache_entry_ok(1)[OF assms e]
  show "snd (cached eng False cache config) = compile_config eng config"
    using e resolve_ok(1) ok by (fastforce simp: cached_def)
  show "cache_ok eng (fst (cached eng poisoned cache config))"
    using e resolve_ok(2) ok assms by (fastforce simp: cached_def)
qed

end
