(* ===== verification/Subjects.thy ===== *)
theory Subjects
  imports Compiled_Commands
begin

text \<open>
  Policy subjects: the effective command behind assignments and \<open>env\<close>
  (\<open>packages/agent-policy/src/environment.rs\<close>), its restriction-only execution views
  (\<open>execution_views.rs\<close>, \<open>shell_subject.rs\<close>) and the possible restrictions of legacy globs
  on expanded arguments (\<open>legacy_symbolic.rs\<close>).

  Borrowed slices are the values they refer to. \<open>visit\<close> calls a visitor on each view; here it
  returns the views in that order, or the error that ends the visit.
\<close>

record subject =
  sub_has_assignments :: bool
  sub_executable :: shell_word
  sub_arguments :: "shell_word list"
  sub_source :: ustring
  sub_span :: source_span
  sub_candidates :: "ustring list"

section \<open>Subjects\<close>

fun literal_word :: "shell_word \<Rightarrow> ustring option" where
  "literal_word (Static v sp) = Some v"
| "literal_word (Dynamic sh es sp) = None"

definition validate_executable :: "shell_word \<Rightarrow> ustring + unit" where
  "validate_executable word =
     (case literal_word word of
        None \<Rightarrow> Inl (str ''effective executable identity is unresolved'')
      | Some v \<Rightarrow>
          if v = str ''eval'' \<or> v = str ''.'' \<or> v = str ''source''
          then Inl (str ''effective command contains unresolved shell source'')
          else Inr ())"

definition original_subject :: "shell_command \<Rightarrow> subject" where
  "original_subject command = \<lparr>sub_has_assignments = (cmd_assignments command \<noteq> []),
     sub_executable = cmd_executable command, sub_arguments = cmd_arguments command,
     sub_source = cmd_source command, sub_span = cmd_span command,
     sub_candidates = map cand_subject (cmd_match_candidates command)\<rparr>"

definition add_candidate :: "ustring \<Rightarrow> subject \<Rightarrow> subject" where
  "add_candidate c s =
     (if c \<in> set (sub_candidates s) then s else s\<lparr>sub_candidates := sub_candidates s @ [c]\<rparr>)"

definition plain_word :: "ustring \<Rightarrow> bool" where
  "plain_word w \<longleftrightarrow> w \<noteq> [] \<and> \<not> list_ex is_whitespace w"

text \<open>\<open>collect::<Option<Vec<_>>>()\<close>.\<close>

fun collect_words :: "shell_word list \<Rightarrow> ustring list option" where
  "collect_words [] = Some []"
| "collect_words (w # ws) =
     (case literal_word w of None \<Rightarrow> None
      | Some v \<Rightarrow> map_option ((#) v) (collect_words ws))"

definition add_canonical :: "subject \<Rightarrow> subject" where
  "add_canonical s =
     (case collect_words (sub_executable s # sub_arguments s) of
        None \<Rightarrow> s
      | Some ws \<Rightarrow> if list_all plain_word ws then add_candidate (join (str '' '') ws) s else s)"

text \<open>The part of the source that starts at the executable, when there is one.\<close>

definition source_from :: "shell_word \<Rightarrow> source_span \<Rightarrow> ustring \<Rightarrow> ustring option" where
  "source_from exe span source =
     (case checked_sub (span_start (word_span exe)) (span_start span) of
        None \<Rightarrow> None
      | Some offset \<Rightarrow> byte_suffix (unat offset) source)"

text \<open>
  \<open>by_name\<close> (\<open>normalize\<close> in the source) is only set for a static executable (\<open>visit\<close> has validated it); the source panics
  otherwise.
\<close>

definition restriction_subject :: "subject \<Rightarrow> shell_word \<Rightarrow> shell_word list \<Rightarrow> bool \<Rightarrow> subject" where
  "restriction_subject original exe args by_name =
     (let exe' = (if by_name
                  then (case literal_word exe of
                          Some v \<Rightarrow> Static (after_last SLASH v) (word_span exe)
                        | None \<Rightarrow> exe)
                  else exe);
          source = (case source_from exe' (sub_span original) (sub_source original) of
                      Some s \<Rightarrow> s | None \<Rightarrow> sub_source original)
      in add_canonical \<lparr>sub_has_assignments = False, sub_executable = exe', sub_arguments = args,
           sub_source = source, sub_span = sub_span original, sub_candidates = [source]\<rparr>)"

section \<open>Environment prefixes\<close>

definition assignment :: "ustring \<Rightarrow> (ustring \<times> ustring) option" where
  "assignment v =
     (if ch CHR ''='' \<notin> set v then None
      else (let name = takeWhile (\<lambda>c. c \<noteq> ch CHR ''='') v;
                rest = drop (Suc (length name)) v
            in if name \<noteq> [] \<and> (hd name = ch CHR ''_'' \<or> is_ascii_alphabetic (hd name))
                \<and> list_all (\<lambda>c. c = ch CHR ''_'' \<or> is_ascii_alphanumeric c) (tl name)
               then Some (name, rest) else None))"

text \<open>\<open>utility\<close>: the index of the launched executable and whether variables were assigned.\<close>

fun utility_loop :: "nat \<Rightarrow> bool \<Rightarrow> bool \<Rightarrow> shell_word list \<Rightarrow> ustring + (nat \<times> bool)" where
  "utility_loop i options assigned [] = Inr (i, assigned)"
| "utility_loop i options assigned (word # ws) =
     (case literal_word word of
        None \<Rightarrow> Inl (str ''env command prefix or executable is dynamic'')
      | Some v \<Rightarrow>
          if options \<and> v = str ''--'' then utility_loop (i + 1) False assigned ws
          else if options \<and> (v = str ''-i'' \<or> v = str ''--ignore-environment'' \<or> v = str ''-''
                  \<or> v = str ''-0'' \<or> v = str ''--null'')
          then utility_loop (i + 1) options assigned ws
          else if options \<and> (v = str ''-u'' \<or> v = str ''--unset'' \<or> v = str ''-C'' \<or> v = str ''--chdir'')
          then (case ws of
                  [] \<Rightarrow> Inl (str ''env option requires a static value'')
                | x # ws' \<Rightarrow>
                    if literal_word x = None then Inl (str ''env option requires a static value'')
                    else utility_loop (i + 2) options assigned ws')
          else if options \<and> (prefix (str ''--unset='') v \<or> prefix (str ''--chdir='') v)
          then utility_loop (i + 1) options assigned ws
          else if options \<and> prefix (str ''-'') v
          then Inl (str ''unsupported env option; effective command cannot be determined'')
          else if assignment v \<noteq> None then utility_loop (i + 1) False True ws
          else Inr (i, assigned))"

definition utility :: "shell_word list \<Rightarrow> ustring + (nat \<times> bool)" where
  "utility args = utility_loop 0 True False args"

definition is_env :: "shell_word \<Rightarrow> bool" where
  "is_env word \<longleftrightarrow> literal_word word \<in> {Some (str ''env''), Some (str ''/usr/bin/env''), Some (str ''/bin/env'')}"

function strip_env :: "subject \<Rightarrow> bool \<Rightarrow> ustring + (subject \<times> bool)" where
  "strip_env s changed =
     (if is_env (sub_executable s)
      then (case utility (sub_arguments s) of
              Inl e \<Rightarrow> Inl e
            | Inr (i, assigned) \<Rightarrow>
                (case get (sub_arguments s) i of
                   None \<Rightarrow> Inr (s, changed)
                 | Some exe \<Rightarrow>
                     strip_env (s\<lparr>sub_has_assignments := sub_has_assignments s \<or> assigned,
                         sub_executable := exe,
                         sub_arguments := drop (i + 1) (sub_arguments s)\<rparr>) True))
      else Inr (s, changed))"
  by pat_completeness auto
termination
  by (relation "measure (\<lambda>(s, c). length (sub_arguments s))") (auto simp: get_eq split: if_splits)

declare strip_env.simps [simp del]

definition effective_command :: "shell_command \<Rightarrow> ustring + subject" where
  "effective_command command =
     (case strip_env (original_subject command) (cmd_assignments command \<noteq> []) of
        Inl e \<Rightarrow> Inl e
      | Inr (s, changed) \<Rightarrow>
          (case validate_executable (sub_executable s) of
             Inl e \<Rightarrow> Inl e
           | Inr _ \<Rightarrow>
               if changed
               then (let s' = (case source_from (sub_executable s) (cmd_span command) (cmd_source command) of
                         Some source \<Rightarrow> add_candidate source s | None \<Rightarrow> s)
                     in Inr (add_canonical s'))
               else Inr s))"

section \<open>Execution views\<close>

definition basename :: "ustring \<Rightarrow> ustring" where
  "basename v = after_last SLASH v"

text \<open>
  \<open>launched_word\<close> for \<open>command\<close> and \<open>exec\<close>: \<open>None\<close> is a launcher that executes nothing.
\<close>

fun launched_loop :: "ustring \<Rightarrow> nat \<Rightarrow> shell_word list \<Rightarrow> ustring + nat option" where
  "launched_loop name i [] = Inr (Some i)"
| "launched_loop name i (word # ws) =
     (case literal_word word of
        None \<Rightarrow> Inl (str ''dynamic launcher argument'')
      | Some v \<Rightarrow>
          if v = str ''--'' then Inr (Some (i + 1))
          else if name = str ''command'' then
            (if v = str ''-v'' \<or> v = str ''-V'' then Inr None
             else if v = str ''-p'' then launched_loop name (i + 1) ws
             else if prefix (str ''-'') v then Inl (str ''unsupported command launcher option'')
             else Inr (Some i))
          else if name = str ''exec'' then
            (if v = str ''-c'' \<or> v = str ''-l'' \<or> v = str ''-cl'' \<or> v = str ''-lc''
             then launched_loop name (i + 1) ws
             else if v = str ''-a''
             then (case ws of
                     [] \<Rightarrow> Inl (str ''missing or dynamic exec name'')
                   | x # ws' \<Rightarrow>
                       if literal_word x = None then Inl (str ''missing or dynamic exec name'')
                       else launched_loop name (i + 2) ws')
             else if prefix (str ''-'') v then Inl (str ''unsupported exec launcher option'')
             else Inr (Some i))
          else Inr None)"

definition launched_word :: "ustring \<Rightarrow> shell_word list \<Rightarrow> ustring + nat option" where
  "launched_word name args =
     (case (if name = str ''env''
            then (case utility args of Inl e \<Rightarrow> Inl e | Inr (i, _) \<Rightarrow> Inr (Some i))
            else launched_loop name 0 args) of
        Inl e \<Rightarrow> Inl e
      | Inr None \<Rightarrow> Inr None
      | Inr (Some i) \<Rightarrow> Inr (if i < length args then Some i else None))"

definition MAX_VIEW_WORK :: nat where "MAX_VIEW_WORK = 1024 * 1024"

definition view_work :: "subject \<Rightarrow> shell_word \<Rightarrow> shell_word list \<Rightarrow> nat" where
  "view_work subject exe args =
     byte_len (sub_source subject)
       - unat (saturating_sub (span_start (word_span exe)) (span_start (sub_span subject)))
     + length args"

definition charge :: "nat \<Rightarrow> subject \<Rightarrow> shell_word \<Rightarrow> shell_word list \<Rightarrow> ustring + nat" where
  "charge left subject exe args =
     (if view_work subject exe args \<le> left then Inr (left - view_work subject exe args)
      else Inl (str ''shell execution views exceed work allowance''))"

text \<open>The view of the executable itself, by its basename, when it is needed.\<close>

definition visit_self ::
    "subject \<Rightarrow> shell_word \<Rightarrow> shell_word list \<Rightarrow> bool \<Rightarrow> ustring \<Rightarrow> nat \<Rightarrow> ustring + (nat \<times> subject list)" where
  "visit_self subject exe args is_first v left =
     (if basename v \<noteq> v \<or> (is_first \<and> sub_has_assignments subject)
      then (case charge left subject exe args of
              Inl e \<Rightarrow> Inl e
            | Inr left' \<Rightarrow>
                (let view = restriction_subject subject exe args (basename v \<noteq> v)
                 in case validate_executable (sub_executable view) of
                      Inl e \<Rightarrow> Inl e
                    | Inr _ \<Rightarrow> Inr (left', [view])))
      else Inr (left, []))"

definition is_launcher :: "ustring \<Rightarrow> bool" where
  "is_launcher name \<longleftrightarrow> name = str ''env'' \<or> name = str ''command'' \<or> name = str ''exec''"

lemma launched_word_index: "launched_word name args = Inr (Some i) \<Longrightarrow> i < length args"
  by (auto simp: launched_word_def split: if_splits sum.splits option.splits)

function visit_loop ::
    "subject \<Rightarrow> shell_word \<Rightarrow> shell_word list \<Rightarrow> bool \<Rightarrow> nat \<Rightarrow> subject list \<Rightarrow> ustring + subject list" where
  "visit_loop subject exe args is_first left views =
     (case validate_executable exe of
        Inl e \<Rightarrow> Inl e
      | Inr _ \<Rightarrow>
          (let v = (case literal_word exe of Some v \<Rightarrow> v | None \<Rightarrow> [])
           in case visit_self subject exe args is_first v left of
                Inl e \<Rightarrow> Inl e
              | Inr (left1, seen) \<Rightarrow>
                  if \<not> is_launcher (basename v) then Inr (views @ seen)
                  else (case launched_word (basename v) args of
                          Inl e \<Rightarrow> Inl e
                        | Inr None \<Rightarrow> Inr (views @ seen)
                        | Inr (Some i) \<Rightarrow>
                            (let exe' = args ! i; args' = drop (i + 1) args
                             in case validate_executable exe' of
                                  Inl e \<Rightarrow> Inl e
                                | Inr _ \<Rightarrow>
                                    (case charge left1 subject exe' args' of
                                       Inl e \<Rightarrow> Inl e
                                     | Inr left2 \<Rightarrow>
                                         visit_loop subject exe' args' False left2
                                           (views @ seen @ [restriction_subject subject exe' args' False]))))))"
  by pat_completeness auto
termination
  by (relation "measure (\<lambda>(s, e, args, f, l, v). length args)") (auto dest: launched_word_index)

declare visit_loop.simps [simp del]

definition visit :: "subject \<Rightarrow> ustring + subject list" where
  "visit subject = visit_loop subject (sub_executable subject) (sub_arguments subject) True MAX_VIEW_WORK []"

section \<open>Possible restrictions of legacy globs\<close>

fun legacy_prefix :: "ustring \<Rightarrow> shell_word list \<Rightarrow> ustring \<times> bool" where
  "legacy_prefix acc [] = (acc, False)"
| "legacy_prefix acc (Static v sp # ws) =
     legacy_prefix (acc @ (if acc \<noteq> [] then str '' '' else []) @ v) ws"
| "legacy_prefix acc (Dynamic sh es sp # ws) = (acc @ str '' '', True)"

definition glob_literal :: "ustring \<Rightarrow> ustring" where
  "glob_literal pattern = takeWhile (\<lambda>c. c \<noteq> BACKSLASH \<and> c \<notin> set (str ''*?[{'')) pattern"

definition possibly_restricts :: "subject \<Rightarrow> ustring \<Rightarrow> bool \<Rightarrow> rule \<Rightarrow> bool" where
  "possibly_restricts subject pre dynamic r \<longleftrightarrow>
     \<not> (\<not> dynamic \<or> rule_action r = Allow
        \<or> list_ex (\<lambda>c. glob_matches (rule_pattern r) c) (sub_candidates subject))
     \<and> (prefix (glob_literal (rule_pattern r)) pre \<or> prefix pre (glob_literal (rule_pattern r)))"

definition restrictions :: "'re compiled_layer \<Rightarrow> subject \<Rightarrow> (nat \<times> rule) list" where
  "restrictions layer subject =
     (case legacy_prefix [] (sub_executable subject # sub_arguments subject) of
        (pre, dynamic) \<Rightarrow>
          filter (\<lambda>(i, r). possibly_restricts subject pre dynamic r) (legacy_candidates layer pre))"

section \<open>The effective command\<close>

lemma validate_executable_ok:
  "validate_executable w = Inr () \<longleftrightarrow>
     (\<exists>v sp. w = Static v sp \<and> v \<noteq> str ''eval'' \<and> v \<noteq> str ''.'' \<and> v \<noteq> str ''source'')"
  by (cases w) (auto simp: validate_executable_def)

lemma validate_executable_Inr: "validate_executable w = Inr u \<longleftrightarrow> validate_executable w = Inr ()"
  by simp

lemma add_candidate_fields [simp]:
  "sub_executable (add_candidate c s) = sub_executable s"
  "sub_arguments (add_candidate c s) = sub_arguments s"
  "sub_source (add_candidate c s) = sub_source s"
  "sub_span (add_candidate c s) = sub_span s"
  "sub_has_assignments (add_candidate c s) = sub_has_assignments s"
  by (simp_all add: add_candidate_def)

lemma add_candidate_prefix: "prefix (sub_candidates s) (sub_candidates (add_candidate c s))"
  by (simp add: add_candidate_def)

lemma add_canonical_fields [simp]:
  "sub_executable (add_canonical s) = sub_executable s"
  "sub_arguments (add_canonical s) = sub_arguments s"
  "sub_source (add_canonical s) = sub_source s"
  "sub_span (add_canonical s) = sub_span s"
  "sub_has_assignments (add_canonical s) = sub_has_assignments s"
  by (simp_all add: add_canonical_def split: option.splits)

lemma add_canonical_prefix: "prefix (sub_candidates s) (sub_candidates (add_canonical s))"
  by (simp add: add_canonical_def add_candidate_prefix split: option.splits)

text \<open>The prefix only moves the start of the argument vector.\<close>

lemma strip_env_facts:
  "strip_env s chg = Inr (s', chg') \<Longrightarrow>
     (\<exists>n. sub_executable s' # sub_arguments s' = drop n (sub_executable s # sub_arguments s)) \<and>
     sub_source s' = sub_source s \<and> sub_span s' = sub_span s \<and> sub_candidates s' = sub_candidates s \<and>
     (sub_has_assignments s \<longrightarrow> sub_has_assignments s') \<and> (chg \<longrightarrow> chg') \<and>
     (is_env (sub_executable s') \<longrightarrow>
        (\<exists>i a. utility (sub_arguments s') = Inr (i, a) \<and> length (sub_arguments s') \<le> i))"
proof (induction s chg rule: strip_env.induct)
  case (1 s chg)
  show ?case
  proof (cases "is_env (sub_executable s)")
    case False
    with 1(2) have "s' = s" "chg' = chg" by (simp_all add: strip_env.simps[of s])
    with False show ?thesis by (auto intro: exI[of _ 0])
  next
    case True
    with 1(2) obtain i a where u: "utility (sub_arguments s) = Inr (i, a)"
      by (cases "utility (sub_arguments s)") (auto simp: strip_env.simps[of s])
    show ?thesis
    proof (cases "get (sub_arguments s) i")
      case None
      with True u 1(2) have "s' = s" "chg' = chg" by (simp_all add: strip_env.simps[of s])
      with None u show ?thesis by (auto simp: get_eq split: if_splits intro: exI[of _ 0])
    next
      case (Some exe)
      let ?t = "s\<lparr>sub_has_assignments := sub_has_assignments s \<or> a, sub_executable := exe,
        sub_arguments := drop (i + 1) (sub_arguments s)\<rparr>"
      from True u Some 1(2) have step: "strip_env ?t True = Inr (s', chg')" by (simp add: strip_env.simps[of s])
      have "sub_executable ?t # sub_arguments ?t = drop (Suc i) (sub_executable s # sub_arguments s)"
        using Some by (auto simp: get_eq Cons_nth_drop_Suc split: if_splits)
      moreover from 1(1)[OF True u refl Some step] obtain n where
        "sub_executable s' # sub_arguments s' = drop n (sub_executable ?t # sub_arguments ?t)" by blast
      ultimately have "sub_executable s' # sub_arguments s' = drop (n + Suc i) (sub_executable s # sub_arguments s)"
        by (metis drop_drop)
      then have suffix: "\<exists>n. sub_executable s' # sub_arguments s' = drop n (sub_executable s # sub_arguments s)" ..
      show ?thesis
        by (rule conjI[OF suffix]) (use 1(1)[OF True u refl Some step] in simp)
    qed
  qed
qed

lemma effective_command_facts:
  assumes "effective_command c = Inr s"
  shows "\<exists>v sp. sub_executable s = Static v sp \<and> v \<noteq> str ''eval'' \<and> v \<noteq> str ''.'' \<and> v \<noteq> str ''source''"
    and "\<exists>n. sub_executable s # sub_arguments s = drop n (cmd_executable c # cmd_arguments c)"
    and "sub_source s = cmd_source c" and "sub_span s = cmd_span c"
    and "prefix (map cand_subject (cmd_match_candidates c)) (sub_candidates s)"
    and "cmd_assignments c \<noteq> [] \<longrightarrow> sub_has_assignments s"
proof -
  from assms obtain t chg where strip: "strip_env (original_subject c) (cmd_assignments c \<noteq> []) = Inr (t, chg)"
    and valid: "validate_executable (sub_executable t) = Inr ()"
    and s: "s = (if chg then add_canonical (case source_from (sub_executable t) (cmd_span c) (cmd_source c) of
      Some source \<Rightarrow> add_candidate source t | None \<Rightarrow> t) else t)"
    by (auto simp: effective_command_def Let_def split: sum.splits if_splits)
  have keep: "sub_executable s = sub_executable t" "sub_arguments s = sub_arguments t" "sub_source s = sub_source t"
    "sub_span s = sub_span t" "sub_has_assignments s = sub_has_assignments t"
    unfolding s by (auto split: option.splits)
  have cands: "prefix (sub_candidates t) (sub_candidates s)"
    unfolding s
    using add_canonical_prefix[of t] add_canonical_prefix add_candidate_prefix
    by (auto split: option.splits intro: prefix_order.trans)
  note facts = strip_env_facts[OF strip, unfolded original_subject_def, simplified]
  show "\<exists>v sp. sub_executable s = Static v sp \<and> v \<noteq> str ''eval'' \<and> v \<noteq> str ''.'' \<and> v \<noteq> str ''source''"
    using valid keep by (simp add: validate_executable_ok)
  show "\<exists>n. sub_executable s # sub_arguments s = drop n (cmd_executable c # cmd_arguments c)"
    using facts keep by simp
  show "sub_source s = cmd_source c" "sub_span s = cmd_span c"
    using facts keep by simp_all
  show "prefix (map cand_subject (cmd_match_candidates c)) (sub_candidates s)"
    using facts cands by simp
  show "cmd_assignments c \<noteq> [] \<longrightarrow> sub_has_assignments s"
    using facts keep by simp
qed

section \<open>The views\<close>

lemma restriction_subject_fields [simp]:
  "sub_arguments (restriction_subject s e a b) = a"
  "sub_span (restriction_subject s e a b) = sub_span s"
  "\<not> sub_has_assignments (restriction_subject s e a b)"
  "sub_candidates (restriction_subject s e a b) \<noteq> []"
proof -
  show "sub_arguments (restriction_subject s e a b) = a"
    "sub_span (restriction_subject s e a b) = sub_span s"
    "\<not> sub_has_assignments (restriction_subject s e a b)"
    by (simp_all add: restriction_subject_def Let_def)
  have "sub_candidates (add_canonical t) \<noteq> []" if "sub_candidates t \<noteq> []" for t
    using add_canonical_prefix[of t] that by auto
  then show "sub_candidates (restriction_subject s e a b) \<noteq> []"
    by (simp add: restriction_subject_def Let_def)
qed

text \<open>One launcher step: the word that is launched and what follows it.\<close>

inductive launches :: "shell_word \<times> shell_word list \<Rightarrow> shell_word \<times> shell_word list \<Rightarrow> bool" where
  launch: "literal_word exe = Some v \<Longrightarrow> is_launcher (basename v) \<Longrightarrow>
    launched_word (basename v) args = Inr (Some i) \<Longrightarrow> launches (exe, args) (args ! i, drop (i + 1) args)"

inductive_cases launchesE: "launches (exe, args) q"

text \<open>
  What a finished visit has seen: the launched commands along the whole chain of launchers,
  each also by basename where that differs.
\<close>

definition chain_seen :: "subject \<Rightarrow> shell_word \<times> shell_word list \<Rightarrow> subject list \<Rightarrow> bool" where
  "chain_seen s start views \<longleftrightarrow> (\<forall>e a. rtranclp launches start (e, a) \<longrightarrow>
     ((e, a) \<noteq> start \<longrightarrow> restriction_subject s e a False \<in> set views) \<and>
     (\<forall>v. literal_word e = Some v \<and> basename v \<noteq> v \<longrightarrow> restriction_subject s e a True \<in> set views))"

lemma visit_loop_cases:
  assumes "visit_loop s exe args f left views = Inr out"
  obtains v sp left1 seen where "exe = Static v sp" "v \<noteq> str ''eval''" "v \<noteq> str ''.''" "v \<noteq> str ''source''"
    "visit_self s exe args f v left = Inr (left1, seen)"
    "(\<not> is_launcher (basename v) \<or> launched_word (basename v) args = Inr None) \<and> out = views @ seen
     \<or> (\<exists>i left2. is_launcher (basename v) \<and> launched_word (basename v) args = Inr (Some i) \<and>
          validate_executable (args ! i) = Inr () \<and>
          charge left1 s (args ! i) (drop (i + 1) args) = Inr left2 \<and>
          visit_loop s (args ! i) (drop (i + 1) args) False left2
            (views @ seen @ [restriction_subject s (args ! i) (drop (i + 1) args) False]) = Inr out)"
proof -
  from assms have "validate_executable exe = Inr ()"
    by (simp add: visit_loop.simps[of s exe] split: sum.splits)
  then obtain v sp where exe: "exe = Static v sp" "v \<noteq> str ''eval''" "v \<noteq> str ''.''" "v \<noteq> str ''source''"
    and valid: "validate_executable exe = Inr ()" by (auto simp: validate_executable_ok)
  note unf = assms[unfolded visit_loop.simps[of s exe args f left views]]
  from unf valid exe(1) obtain left1 seen where self: "visit_self s exe args f v left = Inr (left1, seen)"
    by (cases "visit_self s exe args f v left") (auto simp: Let_def)
  show thesis
    by (rule that[OF exe self])
      (use unf valid exe(1) self in \<open>auto simp: Let_def split: if_splits sum.splits option.splits\<close>)
qed

lemma visit_self_seen:
  assumes "visit_self s exe args f v left = Inr (left1, seen)"
  shows "set seen \<subseteq> {restriction_subject s exe args (basename v \<noteq> v)}"
    and "basename v \<noteq> v \<Longrightarrow> restriction_subject s exe args True \<in> set seen"
    and "x \<in> set seen \<Longrightarrow> validate_executable (sub_executable x) = Inr ()"
  using assms by (auto simp: visit_self_def Let_def split: if_splits sum.splits)

lemma launches_functional: "launches p q \<Longrightarrow> launches p q' \<Longrightarrow> q = q'"
  by (auto elim!: launches.cases)

lemma chain_seen_step:
  assumes l: "launches start (e, a)" and seen: "chain_seen s (e, a) views"
    and "restriction_subject s e a False \<in> set views"
    and "\<And>v. literal_word (fst start) = Some v \<Longrightarrow> basename v \<noteq> v \<Longrightarrow>
      restriction_subject s (fst start) (snd start) True \<in> set views"
  shows "chain_seen s start views"
  unfolding chain_seen_def
proof (intro allI impI)
  fix e' a'
  assume r: "rtranclp launches start (e', a')"
  then show "((e', a') \<noteq> start \<longrightarrow> restriction_subject s e' a' False \<in> set views) \<and>
     (\<forall>v. literal_word e' = Some v \<and> basename v \<noteq> v \<longrightarrow> restriction_subject s e' a' True \<in> set views)"
  proof (cases rule: converse_rtranclpE)
    case base
    with assms(4) show ?thesis by auto
  next
    case (step q)
    from launches_functional[OF l step(1)] step(2) have r: "rtranclp launches (e, a) (e', a')" by simp
    have "(e', a') \<noteq> (e, a) \<longrightarrow> restriction_subject s e' a' False \<in> set views"
      and name: "\<forall>v. literal_word e' = Some v \<and> basename v \<noteq> v \<longrightarrow> restriction_subject s e' a' True \<in> set views"
      using seen r by (auto simp: chain_seen_def)
    with assms(3) have "restriction_subject s e' a' False \<in> set views" by (cases "(e', a') = (e, a)") auto
    with name show ?thesis by simp
  qed
qed

lemma chain_seen_end:
  assumes "\<And>q. \<not> launches start q"
    and "\<And>v. literal_word (fst start) = Some v \<Longrightarrow> basename v \<noteq> v \<Longrightarrow>
      restriction_subject s (fst start) (snd start) True \<in> set views"
  shows "chain_seen s start views"
  unfolding chain_seen_def
proof (intro allI impI)
  fix e a
  assume "rtranclp launches start (e, a)"
  then have "(e, a) = start" by (cases rule: converse_rtranclpE) (simp_all add: assms(1))
  with assms(2) show "((e, a) \<noteq> start \<longrightarrow> restriction_subject s e a False \<in> set views) \<and>
     (\<forall>v. literal_word e = Some v \<and> basename v \<noteq> v \<longrightarrow> restriction_subject s e a True \<in> set views)" by auto
qed

lemma visit_loop_chain:
  "visit_loop s exe args f left views = Inr out \<Longrightarrow> set views \<subseteq> set out \<and> chain_seen s (exe, args) out"
proof (induction s exe args f left views rule: visit_loop.induct)
  case (1 s exe args f left views)
  obtain v sp left1 seen where exe: "exe = Static v sp" "v \<noteq> str ''eval''" "v \<noteq> str ''.''" "v \<noteq> str ''source''"
    and self: "visit_self s exe args f v left = Inr (left1, seen)"
    and rest: "(\<not> is_launcher (basename v) \<or> launched_word (basename v) args = Inr None) \<and> out = views @ seen
     \<or> (\<exists>i left2. is_launcher (basename v) \<and> launched_word (basename v) args = Inr (Some i) \<and>
          validate_executable (args ! i) = Inr () \<and>
          charge left1 s (args ! i) (drop (i + 1) args) = Inr left2 \<and>
          visit_loop s (args ! i) (drop (i + 1) args) False left2
            (views @ seen @ [restriction_subject s (args ! i) (drop (i + 1) args) False]) = Inr out)"
    by (rule visit_loop_cases[OF 1(2)])
  note base = visit_self_seen(2)[OF self]
  from rest show ?case
  proof (elim disjE exE conjE)
    assume "\<not> is_launcher (basename v)" and out: "out = views @ seen"
    then have "\<not> launches (exe, args) q" for q using exe(1) by (auto elim!: launches.cases)
    from chain_seen_end[OF this, where views = out and s = s] base out exe show ?thesis by auto
  next
    assume "launched_word (basename v) args = Inr None" and out: "out = views @ seen"
    then have "\<not> launches (exe, args) q" for q using exe(1) by (auto elim!: launches.cases)
    from chain_seen_end[OF this, where views = out and s = s] base out exe show ?thesis by auto
  next
    fix i left2
    let ?e = "args ! i" and ?a = "drop (i + 1) args"
    assume l: "is_launcher (basename v)" and w: "launched_word (basename v) args = Inr (Some i)"
      and valid: "validate_executable ?e = Inr ()" and chg: "charge left1 s ?e ?a = Inr left2"
      and loop: "visit_loop s ?e ?a False left2 (views @ seen @ [restriction_subject s ?e ?a False]) = Inr out"
    have v: "validate_executable exe = Inr ()" using exe by (simp add: validate_executable_ok)
    have ih: "set (views @ seen @ [restriction_subject s ?e ?a False]) \<subseteq> set out \<and> chain_seen s (?e, ?a) out"
      by (rule 1(1)[OF v _ self _ _ w _ refl refl valid chg loop]) (use exe l in auto)
    have "launches (exe, args) (?e, ?a)"
      using launch[of exe v args i] exe l w by simp
    from chain_seen_step[OF this, of s out] ih base exe show ?thesis by auto
  qed
qed

text \<open>Every view runs a static command that is no shell source, and owns a suffix of the arguments.\<close>

lemma visit_loop_views:
  "visit_loop s exe args f left views = Inr out \<Longrightarrow> x \<in> set out \<Longrightarrow> x \<notin> set views \<Longrightarrow>
     validate_executable (sub_executable x) = Inr () \<and>
     (\<exists>e a b n. x = restriction_subject s e a b \<and> e # a = drop n (exe # args))"
proof (induction s exe args f left views rule: visit_loop.induct)
  case (1 s exe args f left views)
  obtain v sp left1 seen where exe: "exe = Static v sp" "v \<noteq> str ''eval''" "v \<noteq> str ''.''" "v \<noteq> str ''source''"
    and self: "visit_self s exe args f v left = Inr (left1, seen)"
    and rest: "(\<not> is_launcher (basename v) \<or> launched_word (basename v) args = Inr None) \<and> out = views @ seen
     \<or> (\<exists>i left2. is_launcher (basename v) \<and> launched_word (basename v) args = Inr (Some i) \<and>
          validate_executable (args ! i) = Inr () \<and>
          charge left1 s (args ! i) (drop (i + 1) args) = Inr left2 \<and>
          visit_loop s (args ! i) (drop (i + 1) args) False left2
            (views @ seen @ [restriction_subject s (args ! i) (drop (i + 1) args) False]) = Inr out)"
    by (rule visit_loop_cases[OF 1(2)])
  have here: "validate_executable (sub_executable x) = Inr () \<and>
      (\<exists>e a b n. x = restriction_subject s e a b \<and> e # a = drop n (exe # args))" if "x \<in> set seen"
    using visit_self_seen(1,3)[OF self] that by (fastforce intro: exI[of _ 0])
  show ?case
  proof (cases "x \<in> set seen")
    case False
    with rest 1(3,4) obtain i left2 where l: "is_launcher (basename v)" and w: "launched_word (basename v) args = Inr (Some i)"
      and valid: "validate_executable (args ! i) = Inr ()"
      and chg: "charge left1 s (args ! i) (drop (i + 1) args) = Inr left2"
      and loop: "visit_loop s (args ! i) (drop (i + 1) args) False left2
            (views @ seen @ [restriction_subject s (args ! i) (drop (i + 1) args) False]) = Inr out" by auto
    let ?e = "args ! i" and ?a = "drop (i + 1) args"
    have suffix: "?e # ?a = drop (Suc i) (exe # args)"
      using launched_word_index[OF w] by (simp add: Cons_nth_drop_Suc)
    have v: "validate_executable exe = Inr ()" using exe by (simp add: validate_executable_ok)
    show ?thesis
    proof (cases "x = restriction_subject s ?e ?a False")
      case True
      have "sub_executable x = ?e" using True by (simp add: restriction_subject_def Let_def)
      with True valid suffix show ?thesis by metis
    next
      case new: False
      have "validate_executable (sub_executable x) = Inr () \<and>
          (\<exists>e a b n. x = restriction_subject s e a b \<and> e # a = drop n (?e # ?a))"
        by (rule 1(1)[OF v _ self _ _ w _ refl refl valid chg loop 1(3)]) (use exe l new False 1(4) in auto)
      with suffix show ?thesis by (metis drop_drop)
    qed
  qed (rule here)
qed

lemma visit_facts:
  assumes "visit s = Inr views"
  shows "chain_seen s (sub_executable s, sub_arguments s) views"
    and "x \<in> set views \<Longrightarrow> validate_executable (sub_executable x) = Inr () \<and>
      (\<exists>e a b n. x = restriction_subject s e a b \<and> e # a = drop n (sub_executable s # sub_arguments s))"
  using visit_loop_chain[OF assms[unfolded visit_def]] visit_loop_views[OF assms[unfolded visit_def]]
  by auto

section \<open>Restrictions are not missed\<close>

lemma legacy_prefix_dynamic:
  "legacy_prefix acc ws = (pre, True) \<Longrightarrow> \<exists>p. pre = p @ str '' ''"
  by (induction acc ws rule: legacy_prefix.induct) auto

lemma takeWhile_weaken: "(\<And>c. P c \<Longrightarrow> Q c) \<Longrightarrow> prefix (takeWhile P xs) (takeWhile Q xs)"
  by (induction xs) auto

lemma glob_literal_prefix: "prefix (glob_literal p) (takeWhile (\<lambda>c. c \<noteq> STAR) p)"
  unfolding glob_literal_def by (rule takeWhile_weaken) (auto simp: STAR_def str_Cons)

lemma space_whitespace: "is_whitespace (ch CHR '' '')"
  by (simp add: is_whitespace_def ch_def)

lemma first_word_extend:
  assumes "first_word (p @ str '' '' @ rest) = Some exe" and "p @ str '' '' \<noteq> []"
    and "\<not> is_whitespace (hd (p @ str '' ''))"
  shows "first_word (p @ str '' '') = Some exe"
proof -
  let ?s = "p @ str '' '' @ rest"
  have s: "?s \<noteq> []" "\<not> is_whitespace (hd ?s)" using assms(2,3) by (cases p; simp add: str_Cons)+
  have p: "dropWhile is_whitespace (p @ str '' '') = p @ str '' ''"
    using assms(3) by (cases p) (auto simp: str_Cons)
  have "takeWhile (\<lambda>c. \<not> is_whitespace c) ?s = takeWhile (\<lambda>c. \<not> is_whitespace c) (p @ str '' '')"
    by (induction p) (auto simp: str_Cons space_whitespace)
  moreover have "dropWhile is_whitespace ?s = ?s" using s by (cases ?s) auto
  ultimately show ?thesis using assms(1) p by (simp add: first_word_def)
qed

text \<open>
  A non-allow legacy rule that matches some text the command can become is reported, unless
  a match candidate already matches it: \<open>pre\<close> is what is known of the joined words.
\<close>

lemma restrictions_sound:
  assumes layer: "layer_ok layer" and r: "r \<in> set (cl_legacy layer)"
    and pre: "legacy_prefix [] (sub_executable subject # sub_arguments subject) = (pre, True)"
    and m: "glob_matches (rule_pattern r) (pre @ rest)" and act: "rule_action r \<noteq> Allow"
    and fresh: "\<forall>c \<in> set (sub_candidates subject). \<not> glob_matches (rule_pattern r) c"
  shows "\<exists>i. (i, r) \<in> set (restrictions layer subject)"
proof -
  from r obtain i where i: "i < length (cl_legacy layer)" "cl_legacy layer ! i = r" by (metis in_set_conv_nth)
  from legacy_prefix_dynamic[OF pre] obtain p where p: "pre = p @ str '' ''" by blast
  have "prefix (glob_literal (rule_pattern r)) (pre @ rest)"
    using glob_matches_prefix(1)[OF m] glob_literal_prefix by (metis prefix_order.trans)
  then have comparable: "prefix (glob_literal (rule_pattern r)) pre \<or> prefix pre (glob_literal (rule_pattern r))"
    by (metis prefix_same_cases prefixI)
  have "(i, r) \<in> set (legacy_candidates layer pre)"
  proof (cases "legacy_executable (rule_pattern r)")
    case None
    with layer i show ?thesis by (auto simp: legacy_candidates_positions set_exec_positions)
  next
    case (Some exe)
    note fw = legacy_executable_match[OF Some m]
    from Some have "first_word (rule_pattern r) = Some exe" "STAR \<notin> set exe"
      "\<not> (rule_pattern r \<noteq> [] \<and> is_whitespace (hd (rule_pattern r)))"
      by (auto simp: legacy_executable_def split: option.splits if_splits)
    moreover from this(1) have "rule_pattern r \<noteq> []" by (auto simp: first_word_def)
    ultimately obtain t where t: "rule_pattern r = exe @ t" "exe \<noteq> []" "\<forall>c \<in> set exe. \<not> is_whitespace c"
      "STAR \<notin> set exe"
      using first_word_append[of "rule_pattern r" exe] by auto
    have "prefix exe (takeWhile (\<lambda>c. c \<noteq> STAR) (rule_pattern r))"
    proof -
      have "takeWhile (\<lambda>c. c \<noteq> STAR) (exe @ t) = exe @ takeWhile (\<lambda>c. c \<noteq> STAR) t"
        by (rule takeWhile_append2) (use t(4) in auto)
      then show ?thesis unfolding t(1) by simp
    qed
    with glob_matches_prefix(1)[OF m] have "prefix exe (pre @ rest)" by (metis prefix_order.trans)
    then have "hd (pre @ rest) = hd exe" using t(2) by (auto simp: prefix_def)
    then have "hd pre = hd exe" using p by (cases p) (auto simp: str_Cons)
    moreover have "\<not> is_whitespace (hd exe)" using t(2,3) by auto
    ultimately have hd: "\<not> is_whitespace (hd (p @ str '' ''))" using p by simp
    have "first_word (p @ str '' '' @ rest) = Some exe" using fw unfolding p by simp
    moreover have "p @ str '' '' \<noteq> []" by simp
    ultimately have "first_word pre = Some exe" unfolding p using hd by (rule first_word_extend)
    with layer i Some show ?thesis by (auto simp: legacy_candidates_positions set_exec_positions)
  qed
  with comparable act fresh pre show ?thesis
    by (auto simp: restrictions_def possibly_restricts_def list_ex_iff)
qed

lemma restrictions_facts:
  assumes "layer_ok layer" and "(i, r) \<in> set (restrictions layer subject)"
  shows "i < length (cl_legacy layer)" and "cl_legacy layer ! i = r" and "rule_action r \<noteq> Allow"
  using assms legacy_index.cands_entries[of layer "(i, r)"]
  by (fastforce simp: restrictions_def possibly_restricts_def set_enumerated split: prod.splits)+

end
