(* ===== verification/Command_Policy.thy ===== *)
theory Command_Policy
  imports Subjects
begin

text \<open>
  The decision about one command subject (\<open>packages/agent-policy/src/lib.rs\<close>, from
  \<open>ShellSubjectDecision\<close> to \<open>evaluate_subject\<close>): ordered layers, the base layer, and the
  secret-safe list of matching rules.
\<close>

section \<open>Precedence\<close>

fun agent_decision_of :: "action \<Rightarrow> agent_decision" where
  "agent_decision_of Allow = DAllow"
| "agent_decision_of Ask = DAsk"
| "agent_decision_of Deny = DDeny"

definition action_precedence :: "action \<Rightarrow> nat" where
  "action_precedence a = (case a of Allow \<Rightarrow> 0 | Ask \<Rightarrow> 1 | Deny \<Rightarrow> 2)"

definition decision_priority :: "agent_decision \<Rightarrow> nat" where
  "decision_priority d = (case d of DAllow \<Rightarrow> 0 | DAsk \<Rightarrow> 1 | DDeny \<Rightarrow> 2)"

lemma decision_priority_of: "decision_priority (agent_decision_of a) = action_precedence a"
  by (cases a) (simp_all add: decision_priority_def action_precedence_def)

lemma action_precedence_inj: "action_precedence a = action_precedence b \<longleftrightarrow> a = b"
  by (cases a; cases b) (simp_all add: action_precedence_def)

lemma action_precedence_bounds: "action_precedence a \<le> action_precedence Deny"
  "action_precedence Allow \<le> action_precedence a"
  by (cases a; simp add: action_precedence_def)+

lemma agent_decision_of_inj [simp]: "agent_decision_of a = agent_decision_of b \<longleftrightarrow> a = b"
  by (cases a; cases b) simp_all

text \<open>The severity order of actions: allow, ask, deny.\<close>

instantiation action :: linorder
begin

definition less_eq_action :: "action \<Rightarrow> action \<Rightarrow> bool" where
  "less_eq_action a b \<longleftrightarrow> action_precedence a \<le> action_precedence b"

definition less_action :: "action \<Rightarrow> action \<Rightarrow> bool" where
  "less_action a b \<longleftrightarrow> action_precedence a < action_precedence b"

instance
  by standard (auto simp: less_eq_action_def less_action_def action_precedence_inj)

end

lemma action_order [simp]:
  "Allow \<le> a" "a \<le> Deny" "Allow < Ask" "Ask < Deny" "Allow < Deny"
  by (cases a; simp add: less_eq_action_def less_action_def action_precedence_def)+

section \<open>Decisions on a subject\<close>

type_synonym locator = "nat \<times> bool \<times> nat"

record shell_subject_decision =
  ssd_action :: action
  ssd_rule :: rule
  ssd_candidate :: ustring
  ssd_subject :: ustring
  ssd_span :: "source_span option"
  ssd_kind :: subject_kind
  ssd_locator :: "locator option"

definition USIZE_MAX :: nat where "USIZE_MAX = 2 ^ 64 - 1"

definition word_rule_as_rule :: "'re word_rule \<Rightarrow> action \<Rightarrow> rule" where
  "word_rule_as_rule r act = \<lparr>rule_pattern = wr_pattern r, rule_action = act, rule_spec = USIZE_MAX\<rparr>"

definition missing_rule :: "bool \<Rightarrow> rule" where
  "missing_rule restriction_only = \<lparr>rule_pattern = str ''<missing-rule>'',
     rule_action = (if restriction_only then Allow else Deny), rule_spec = 0\<rparr>"

definition applies_to_subject :: "rule \<Rightarrow> bool \<Rightarrow> bool" where
  "applies_to_subject r restriction_only \<longleftrightarrow>
     \<not> restriction_only \<or> \<not> list_all (\<lambda>c. c = STAR) (rule_pattern r)"

text \<open>The \<open>BTreeSet\<close> of the legacy rules that match some candidate.\<close>

definition matched_indices :: "'re compiled_layer \<Rightarrow> subject \<Rightarrow> nat list" where
  "matched_indices layer subject =
     bs_from (concat (map (\<lambda>c. map fst (filter (\<lambda>(i, r). glob_matches (rule_pattern r) c)
       (legacy_candidates layer c))) (sub_candidates subject)))"

subsection \<open>Ordered layers\<close>

definition option_list :: "'a option \<Rightarrow> 'a list" where
  "option_list x = (case x of None \<Rightarrow> [] | Some y \<Rightarrow> [y])"

definition layer_rules ::
    "nat \<Rightarrow> 're compiled_layer \<Rightarrow> subject \<Rightarrow> bool \<Rightarrow> 're classified_words \<Rightarrow> (rule \<times> locator) list" where
  "layer_rules li layer subject restriction_only words =
     map (\<lambda>(i, r). (r, (li, False, i)))
       (filter (\<lambda>(i, r). applies_to_subject r restriction_only)
          (map (\<lambda>i. (i, cl_legacy layer ! i)) (matched_indices layer subject)))
     @ map (\<lambda>r. (word_rule_as_rule r (wr_action r), (li, True, wr_index r)))
         (option_list (matching_words words)
          @ option_list (possible_restriction words Deny)
          @ option_list (possible_restriction words Ask))
     @ map (\<lambda>(i, r). (r, (li, False, i))) (restrictions layer subject)"

definition rule_rank :: "rule \<times> locator \<Rightarrow> nat \<times> nat \<times> nat" where
  "rule_rank = (\<lambda>(r, _). (action_precedence (rule_action r), rule_spec r, byte_len (rule_pattern r)))"

text \<open>The last layer with an applicable rule wins.\<close>

definition ordered_winner ::
    "'re compiled_layer list \<Rightarrow> subject \<Rightarrow> bool \<Rightarrow> 're classified_words list \<Rightarrow> (rule \<times> locator) option" where
  "ordered_winner layers subject restriction_only classes =
     fold (\<lambda>(li, layer, words) winner.
         case last_max_key rule_rank (layer_rules li layer subject restriction_only words) of
           Some r \<Rightarrow> Some r | None \<Rightarrow> winner)
       (zip [0..<length layers] (zip layers classes)) None"

text \<open>Raise the current rule when a possible one is more severe.\<close>

definition raise_rule ::
    "rule \<times> locator \<Rightarrow> rule \<times> locator option \<Rightarrow> rule \<times> locator option" where
  "raise_rule = (\<lambda>(possible, l) (r, locator).
     if action_precedence (rule_action possible) > action_precedence (rule_action r)
     then (possible, Some l) else (r, locator))"

definition layer_possible ::
    "nat \<Rightarrow> 're compiled_layer \<Rightarrow> subject \<Rightarrow> 're classified_words \<Rightarrow> (rule \<times> locator) list" where
  "layer_possible li layer subject words =
     map (\<lambda>(i, r). (r, (li, False, i))) (restrictions layer subject)
     @ concat (map (\<lambda>act. map (\<lambda>r. (word_rule_as_rule r act, (li, True, wr_index r)))
         (option_list (possible_restriction words act))) [Ask, Deny])"

definition evaluate_ordered_subject ::
    "'re compiled_layer list \<Rightarrow> subject \<Rightarrow> bool \<Rightarrow> 're classified_words list \<Rightarrow> shell_subject_decision" where
  "evaluate_ordered_subject layers subject restriction_only classes =
     (let winner = ordered_winner layers subject restriction_only classes;
          start = (case winner of
                     None \<Rightarrow> (missing_rule restriction_only, None)
                   | Some (r, l) \<Rightarrow> (r, Some l));
          (r, locator) = fold (\<lambda>(li, layer, words) cur.
              fold raise_rule (layer_possible li layer subject words) cur)
            (zip [0..<length layers] (zip layers classes)) start
      in \<lparr>ssd_action = rule_action r, ssd_rule = r, ssd_candidate = sub_source subject,
          ssd_subject = sub_source subject, ssd_span = Some (sub_span subject),
          ssd_kind = CommandSubject, ssd_locator = locator\<rparr>)"

subsection \<open>The base layer\<close>

definition base_key :: "rule \<Rightarrow> nat \<times> nat" where
  "base_key r = (rule_spec r, byte_len (rule_pattern r))"

definition base_candidate ::
    "'re compiled_layer \<Rightarrow> bool \<Rightarrow> ustring \<Rightarrow> (rule \<times> ustring \<times> locator) option
       \<Rightarrow> (rule \<times> ustring \<times> locator) option" where
  "base_candidate layer restriction_only c winning =
     (case last_max_key (\<lambda>(i, r). base_key r)
             (filter (\<lambda>(i, r). glob_matches (rule_pattern r) c)
               (filter (\<lambda>(i, r). applies_to_subject r restriction_only) (legacy_candidates layer c))) of
        None \<Rightarrow> winning
      | Some (i, r) \<Rightarrow>
          (case winning of
             None \<Rightarrow> Some (r, c, (0, False, i))
           | Some (current, _, _) \<Rightarrow>
               if base_key r > base_key current then Some (r, c, (0, False, i)) else winning))"

text \<open>The running decision of \<open>evaluate_base_subject\<close>: action, rule, candidate, locator.\<close>

type_synonym base_state = "action \<times> rule \<times> ustring \<times> locator option"

definition base_start ::
    "(rule \<times> ustring \<times> locator) option \<Rightarrow> subject \<Rightarrow> bool \<Rightarrow> base_state" where
  "base_start winning subject restriction_only =
     (case winning of
        Some (r, c, l) \<Rightarrow> (rule_action r, r, c, Some l)
      | None \<Rightarrow> (if restriction_only then Allow else Deny, missing_rule restriction_only,
                 sub_source subject, None))"

definition exact_legacy_deny :: "(rule \<times> ustring \<times> locator) option \<Rightarrow> bool" where
  "exact_legacy_deny winning \<longleftrightarrow>
     (case winning of Some (r, _, _) \<Rightarrow> rule_action r = Deny \<and> STAR \<notin> set (rule_pattern r) | None \<Rightarrow> False)"

definition base_words :: "'re classified_words \<Rightarrow> bool \<Rightarrow> ustring \<Rightarrow> base_state \<Rightarrow> base_state" where
  "base_words words exact_deny source st =
     (let st1 = (case matching_words words of
            Some r \<Rightarrow> if exact_deny then st
              else (wr_action r, word_rule_as_rule r (wr_action r), source, Some (0, True, wr_index r))
          | None \<Rightarrow> st);
          st2 = (case possible_restriction words Deny of
            Some r \<Rightarrow> (Deny, word_rule_as_rule r Deny, source, Some (0, True, wr_index r))
          | None \<Rightarrow> st1)
      in case possible_restriction words Ask of
           Some r \<Rightarrow> if fst st2 = Allow
             then (Ask, word_rule_as_rule r Ask, source, Some (0, True, wr_index r)) else st2
         | None \<Rightarrow> st2)"

definition base_raise :: "ustring \<Rightarrow> nat \<times> rule \<Rightarrow> base_state \<Rightarrow> base_state" where
  "base_raise source = (\<lambda>(i, possible) (act, r, c, l).
     if action_precedence (rule_action possible) > action_precedence act
     then (rule_action possible, possible, source, Some (0, False, i)) else (act, r, c, l))"

definition evaluate_base_subject ::
    "'re compiled_layer \<Rightarrow> subject \<Rightarrow> bool \<Rightarrow> 're classified_words list \<Rightarrow> shell_subject_decision" where
  "evaluate_base_subject layer subject restriction_only classes =
     (let winning = fold (base_candidate layer restriction_only) (sub_candidates subject) None;
          st = base_words (classes ! 0) (exact_legacy_deny winning) (sub_source subject)
                 (base_start winning subject restriction_only);
          (act, r, c, l) = fold (base_raise (sub_source subject)) (restrictions layer subject) st
      in \<lparr>ssd_action = act, ssd_rule = r, ssd_candidate = c, ssd_subject = sub_source subject,
          ssd_span = Some (sub_span subject), ssd_kind = CommandSubject, ssd_locator = l\<rparr>)"

subsection \<open>Matching rules for the preview\<close>

definition legacy_match ::
    "nat \<Rightarrow> nat \<Rightarrow> locator option \<Rightarrow> bool \<Rightarrow> nat \<times> rule \<Rightarrow> preview_command_match" where
  "legacy_match si li locator uncertain = (\<lambda>(i, r).
     \<lparr>pm_subject_index = si, pm_layer_index = li, pm_rule_index = i, pm_rule_kind = str ''command'',
      pm_winning = (locator = Some (li, False, i)), pm_decision = agent_decision_of (rule_action r),
      pm_broad = (STAR \<in> set (rule_pattern r)), pm_regex_flags = [], pm_uncertain = uncertain\<rparr>)"

definition word_match ::
    "nat \<Rightarrow> nat \<Rightarrow> locator option \<Rightarrow> nat \<times> 're word_rule \<times> match_kind \<Rightarrow> preview_command_match option" where
  "word_match si li locator = (\<lambda>(i, r, kind).
     if kind = MAbsent then None
     else Some \<lparr>pm_subject_index = si, pm_layer_index = li, pm_rule_index = i,
       pm_rule_kind = str ''command_patterns'', pm_winning = (locator = Some (li, True, i)),
       pm_decision = agent_decision_of (wr_action r), pm_broad = fst (preview_metadata r),
       pm_regex_flags = snd (preview_metadata r), pm_uncertain = (kind = MPossible)\<rparr>)"

definition preview_command_matches ::
    "'re compiled_layer list \<Rightarrow> bool \<Rightarrow> subject \<Rightarrow> nat \<Rightarrow> locator option \<Rightarrow> 're classified_words list
       \<Rightarrow> preview_command_match list" where
  "preview_command_matches layers restriction_only subject si locator classes =
     concat (map (\<lambda>(li, layer, words).
         map (legacy_match si li locator False)
           (filter (\<lambda>(i, r). applies_to_subject r restriction_only)
             (map (\<lambda>i. (i, cl_legacy layer ! i)) (matched_indices layer subject)))
         @ map (legacy_match si li locator True) (restrictions layer subject)
         @ List.map_filter (word_match si li locator) words)
       (zip [0..<length layers] (zip layers classes)))"

definition evaluate_subject ::
    "'re regex_engine \<Rightarrow> 're compiled_policy \<Rightarrow> subject \<Rightarrow> bool \<Rightarrow> nat
       \<Rightarrow> shell_subject_decision \<times> preview_command_match list" where
  "evaluate_subject eng cp subject restriction_only si =
     (let layers = cp_layers cp;
          classes = map (\<lambda>layer. classified eng (cl_words layer) (sub_executable subject) (sub_arguments subject)) layers;
          result = (if cp_ordered cp
                    then evaluate_ordered_subject layers subject restriction_only classes
                    else evaluate_base_subject (layers ! 0) subject restriction_only classes)
      in (result, preview_command_matches layers restriction_only subject si (ssd_locator result) classes))"

section \<open>Severity only rises\<close>

interpretation rule_escalation: escalation "\<lambda>s. action_precedence (rule_action (fst s))"
  "\<lambda>p. action_precedence (rule_action (fst p))" "\<lambda>s. s" raise_rule
  by unfold_locales (auto simp: raise_rule_def split: prod.splits)

interpretation base_escalation: escalation "\<lambda>s. action_precedence (fst s)"
  "\<lambda>p. action_precedence (rule_action (snd p))" "\<lambda>s. s" "base_raise source"
  by unfold_locales (auto simp: base_raise_def split: prod.splits)

definition all_possible ::
    "'re compiled_layer list \<Rightarrow> subject \<Rightarrow> 're classified_words list \<Rightarrow> (rule \<times> locator) list" where
  "all_possible layers subject classes =
     concat (map (\<lambda>(li, layer, words). layer_possible li layer subject words)
       (zip [0..<length layers] (zip layers classes)))"

definition ordered_start :: "(rule \<times> locator) option \<Rightarrow> bool \<Rightarrow> rule \<times> locator option" where
  "ordered_start winner restriction_only =
     (case winner of None \<Rightarrow> (missing_rule restriction_only, None) | Some (r, l) \<Rightarrow> (r, Some l))"

lemma fold_layer_possible:
  "fold (\<lambda>(li, layer, words) cur. fold raise_rule (layer_possible li layer subject words) cur) xs s
      = fold raise_rule (concat (map (\<lambda>(li, layer, words). layer_possible li layer subject words) xs)) s"
  by (induction xs arbitrary: s) auto

lemma evaluate_ordered_alt:
  "evaluate_ordered_subject layers subject ro classes =
     (let (r, l) = fold raise_rule (all_possible layers subject classes)
            (ordered_start (ordered_winner layers subject ro classes) ro)
      in \<lparr>ssd_action = rule_action r, ssd_rule = r, ssd_candidate = sub_source subject,
          ssd_subject = sub_source subject, ssd_span = Some (sub_span subject),
          ssd_kind = CommandSubject, ssd_locator = l\<rparr>)"
  unfolding evaluate_ordered_subject_def all_possible_def ordered_start_def
  by (simp only: Let_def fold_layer_possible)

lemma ordered_decision:
  assumes "d = evaluate_ordered_subject layers subject ro classes"
  shows "action_precedence (ssd_action d) =
      action_precedence (rule_action (fst (fold raise_rule (all_possible layers subject classes)
        (ordered_start (ordered_winner layers subject ro classes) ro))))"
    and "ssd_action d = rule_action (ssd_rule d)"
    and "(ssd_rule d, ssd_locator d) = fold raise_rule (all_possible layers subject classes)
        (ordered_start (ordered_winner layers subject ro classes) ro)"
  using assms by (simp_all add: evaluate_ordered_alt Let_def split: prod.splits)

text \<open>No possible restriction of any layer is erased by a later exception.\<close>

lemma ordered_restrictions_kept:
  assumes "(p, l) \<in> set (all_possible layers subject classes)"
  shows "rule_action p \<le> ssd_action (evaluate_ordered_subject layers subject ro classes)"
  using rule_escalation.fold_rank_offer[OF assms] ordered_decision(1)[OF refl, of layers subject ro classes]
  by (simp add: less_eq_action_def)

lemma set_zip_index:
  "(i, x, y) \<in> set (zip [0..<length xs] (zip xs ys)) \<longleftrightarrow>
     i < length xs \<and> i < length ys \<and> x = xs ! i \<and> y = ys ! i"
  by (auto simp: set_zip intro!: exI[of _ i])

lemma all_possible_iff:
  "(p, l) \<in> set (all_possible layers subject classes) \<longleftrightarrow>
     (\<exists>i < length layers. i < length classes \<and> (p, l) \<in> set (layer_possible i (layers ! i) subject (classes ! i)))"
  by (fastforce simp: all_possible_def set_zip_index)

lemma set_option_list [simp]: "x \<in> set (option_list y) \<longleftrightarrow> y = Some x"
  by (cases y) (auto simp: option_list_def)

lemma layer_possible_iff:
  "(p, l) \<in> set (layer_possible li layer subject words) \<longleftrightarrow>
     (\<exists>i. l = (li, False, i) \<and> (i, p) \<in> set (restrictions layer subject)) \<or>
     (\<exists>act r. act \<in> {Ask, Deny} \<and> possible_restriction words act = Some r
        \<and> p = word_rule_as_rule r act \<and> l = (li, True, wr_index r))"
  by (auto simp: layer_possible_def image_iff)

lemma layer_possible_action:
  assumes "layer_ok layer" and "(p, l) \<in> set (layer_possible li layer subject words)"
  shows "rule_action p \<noteq> Allow"
  using assms restrictions_facts(3)[OF assms(1)]
  by (auto simp: layer_possible_iff word_rule_as_rule_def)

text \<open>The winner comes from the last layer that has an applicable rule.\<close>

lemma fold_last:
  "fold (\<lambda>x w. case f x of Some r \<Rightarrow> Some r | None \<Rightarrow> w) xs w0 = Some y \<Longrightarrow>
     (\<exists>ys x zs. xs = ys @ x # zs \<and> f x = Some y \<and> (\<forall>z \<in> set zs. f z = None)) \<or> w0 = Some y"
proof (induction xs arbitrary: w0)
  case (Cons x xs)
  let ?w = "case f x of Some r \<Rightarrow> Some r | None \<Rightarrow> w0"
  show ?case
  proof (cases "\<exists>ys z zs. xs = ys @ z # zs \<and> f z = Some y \<and> (\<forall>z \<in> set zs. f z = None)")
    case True
    then show ?thesis by (metis append_Cons)
  next
    case False
    with Cons.IH[of ?w] Cons.prems have w: "?w = Some y" by auto
    have none: "\<forall>z \<in> set xs. f z = None"
    proof (rule ccontr)
      assume "\<not> ?thesis"
      then obtain ys z zs where "xs = ys @ z # zs" "f z \<noteq> None" "\<forall>z \<in> set zs. f z = None"
        using split_list_last_prop[of xs "\<lambda>z. f z \<noteq> None"] by auto
      moreover have "fold (\<lambda>x w. case f x of Some r \<Rightarrow> Some r | None \<Rightarrow> w) zs w1 = w1"
        if "\<forall>z \<in> set zs. f z = None" for zs w1
        using that by (induction zs) auto
      ultimately have "f z = Some y" using Cons.prems by auto
      with False \<open>xs = ys @ z # zs\<close> \<open>\<forall>z \<in> set zs. f z = None\<close> show False by blast
    qed
    show ?thesis
    proof (cases "f x")
      case None
      with w show ?thesis by simp
    next
      case (Some r)
      with w none show ?thesis by (intro disjI1 exI[of _ "[]"] exI[of _ x] exI[of _ xs]) simp
    qed
  qed
qed simp

lemma ordered_winner_from:
  assumes "ordered_winner layers subject ro classes = Some (r, l)"
  shows "\<exists>i. i < length layers \<and> i < length classes \<and>
    last_max_key rule_rank (layer_rules i (layers ! i) subject ro (classes ! i)) = Some (r, l) \<and>
    (\<forall>j. i < j \<longrightarrow> j < length layers \<longrightarrow> j < length classes \<longrightarrow>
       layer_rules j (layers ! j) subject ro (classes ! j) = [])"
proof -
  let ?xs = "zip [0..<length layers] (zip layers classes)"
  let ?f = "\<lambda>(li, layer, words). last_max_key rule_rank (layer_rules li layer subject ro words)"
  have "fold (\<lambda>x w. case ?f x of Some r \<Rightarrow> Some r | None \<Rightarrow> w) ?xs None = Some (r, l)"
    using assms by (simp add: ordered_winner_def case_prod_unfold)
  from fold_last[OF this] obtain ys x zs where
    xs: "?xs = ys @ x # zs" and fx: "?f x = Some (r, l)" and zs: "\<And>z. z \<in> set zs \<Longrightarrow> ?f z = None"
    by blast
  let ?i = "length ys"
  have len: "length ?xs = Suc (?i + length zs)" by (simp only: xs) simp
  have nth: "?xs ! j = (j, layers ! j, classes ! j)" if "j < length ?xs" for j
    using that by simp
  have "?i < length ?xs" using len by simp
  with nth[of ?i] have x: "x = (?i, layers ! ?i, classes ! ?i)"
    by (simp only: xs nth_append_length)
  have "layer_rules j (layers ! j) subject ro (classes ! j) = []"
    if j: "?i < j" "j < length layers" "j < length classes" for j
  proof -
    have "j < length ?xs" using j by simp
    have "?xs ! j = zs ! (j - Suc ?i)"
      using j(1) by (simp only: xs) (simp add: nth_append nth_Cons')
    moreover have "j - Suc ?i < length zs" using j \<open>j < length ?xs\<close> len by linarith
    ultimately have "(j, layers ! j, classes ! j) \<in> set zs"
      using nth[OF \<open>j < length ?xs\<close>] by (metis nth_mem)
    from zs[OF this] show ?thesis by simp
  qed
  moreover have "?i < length layers" "?i < length classes" using \<open>?i < length ?xs\<close> by simp_all
  ultimately show ?thesis using fx x by (intro exI[of _ ?i]) auto
qed

section \<open>Why a command is allowed\<close>

text \<open>
  \<open>allow_reason\<close>: an allow rule of the layer speaks for the subject, as a glob that matches one
  of its texts or as a word rule that accepts every argument vector it can become.
\<close>

definition allow_reason :: "'re regex_engine \<Rightarrow> 're compiled_layer \<Rightarrow> subject \<Rightarrow> rule \<Rightarrow> bool" where
  "allow_reason eng layer subject r \<longleftrightarrow> rule_action r = Allow \<and>
     ((r \<in> set (cl_legacy layer) \<and> (\<exists>c \<in> set (sub_candidates subject). glob_matches (rule_pattern r) c)) \<or>
      (\<exists>w \<in> set (wrs_rules (cl_words layer)). r = word_rule_as_rule w Allow \<and> wr_action w = Allow \<and>
         (\<forall>vs. expands (sub_executable subject # sub_arguments subject) vs \<longrightarrow> accepts_words eng w vs)))"

definition subject_classes :: "'re regex_engine \<Rightarrow> 're compiled_layer list \<Rightarrow> subject \<Rightarrow> 're classified_words list" where
  "subject_classes eng layers subject =
     map (\<lambda>layer. classified eng (cl_words layer) (sub_executable subject) (sub_arguments subject)) layers"

lemma matching_words_rule:
  assumes "layer_ok layer" and "matching_words (classified eng (cl_words layer) exe args) = Some w"
  shows "w \<in> set (wrs_rules (cl_words layer))"
    and "expands (exe # args) vs \<Longrightarrow> accepts_words eng w vs"
proof -
  from matching_words_best[OF assms(2)] obtain i where
    i: "(i, w, MDefinite) \<in> set (classified eng (cl_words layer) exe args)" by blast
  then have "(i, w) \<in> set (candidates (cl_words layer) exe args)" by (auto simp: classified_def)
  with candidates_indexed[of "cl_words layer" i w exe args] assms(1)
  show "w \<in> set (wrs_rules (cl_words layer))" by (auto simp: layer_ok_def)
  from classified_definite[OF i] show "expands (exe # args) vs \<Longrightarrow> accepts_words eng w vs" .
qed

lemma matched_indices_iff:
  assumes "layer_ok layer"
  shows "i \<in> set (matched_indices layer subject) \<longleftrightarrow> i < length (cl_legacy layer) \<and>
    (\<exists>c \<in> set (sub_candidates subject). glob_matches (rule_pattern (cl_legacy layer ! i)) c)"
proof -
  have hit: "(i, r) \<in> set (legacy_candidates layer c) \<and> glob_matches (rule_pattern r) c \<longleftrightarrow>
      i < length (cl_legacy layer) \<and> cl_legacy layer ! i = r \<and> glob_matches (rule_pattern r) c" for c r
  proof -
    have "(i, r) \<in> set (legacy_candidates layer c) \<Longrightarrow> (i, r) \<in> set (enumerated (cl_legacy layer))"
      by (rule legacy_index.cands_entries[OF assms])
    moreover have "(i, r) \<in> set (enumerated (cl_legacy layer)) \<Longrightarrow> glob_matches (rule_pattern r) c \<Longrightarrow>
        (i, r) \<in> set (legacy_candidates layer c)"
      by (rule legacy_index.cands_complete[OF assms TrueI])
    ultimately show ?thesis unfolding set_enumerated by blast
  qed
  have "i \<in> set (matched_indices layer subject) \<longleftrightarrow>
      (\<exists>c \<in> set (sub_candidates subject). \<exists>r. (i, r) \<in> set (legacy_candidates layer c) \<and> glob_matches (rule_pattern r) c)"
    by (auto simp: matched_indices_def image_iff)
  then show ?thesis by (auto simp: hit)
qed

lemma layer_rules_allow:
  assumes ok: "layer_ok layer" and words: "words = classified eng (cl_words layer) (sub_executable subject) (sub_arguments subject)"
    and r: "(r, l) \<in> set (layer_rules li layer subject ro words)" and allow: "rule_action r = Allow"
  shows "allow_reason eng layer subject r"
proof -
  have not_possible: "possible_restriction words act = Some w \<Longrightarrow> wr_action w = act" for act w
    using possible_restriction_best by blast
  from r consider i where "r = cl_legacy layer ! i" "i \<in> set (matched_indices layer subject)"
    | w where "r = word_rule_as_rule w (wr_action w)"
        "matching_words words = Some w \<or> possible_restriction words Deny = Some w \<or> possible_restriction words Ask = Some w"
    | i where "(i, r) \<in> set (restrictions layer subject)"
    by (auto simp: layer_rules_def)
  then show ?thesis
  proof cases
    case 1
    with ok allow show ?thesis by (auto simp: allow_reason_def matched_indices_iff)
  next
    case 2
    with allow not_possible have "matching_words words = Some w" "wr_action w = Allow"
      by (auto simp: word_rule_as_rule_def)
    with 2(1) matching_words_rule[OF ok] words allow show ?thesis
      by (auto simp: allow_reason_def)
  next
    case 3
    with restrictions_facts(3)[OF ok] allow show ?thesis by blast
  qed
qed

lemma ordered_allow:
  assumes ok: "\<forall>layer \<in> set layers. layer_ok layer"
    and d: "d = evaluate_ordered_subject layers subject False (subject_classes eng layers subject)"
    and allow: "ssd_action d = Allow"
  shows "\<exists>layer \<in> set layers. allow_reason eng layer subject (ssd_rule d)"
proof -
  let ?classes = "subject_classes eng layers subject"
  let ?start = "ordered_start (ordered_winner layers subject False ?classes) False"
  note dec = ordered_decision[OF d]
  have "rule_action (fst ?start) = Allow"
    using rule_escalation.fold_rank_start[of ?start "all_possible layers subject ?classes"] dec(1) allow
    by (cases "rule_action (fst ?start)") (auto simp: action_precedence_def)
  then obtain r l where win: "ordered_winner layers subject False ?classes = Some (r, l)" and r: "rule_action r = Allow"
    by (auto simp: ordered_start_def missing_rule_def split: option.splits)
  have "fold raise_rule (all_possible layers subject ?classes) ?start = ?start"
    using rule_escalation.fold_origin[of "all_possible layers subject ?classes" ?start] dec(1) allow
    by (auto simp: action_precedence_def)
  with dec(3) win have rule: "ssd_rule d = r" by (simp add: ordered_start_def)
  from ordered_winner_from[OF win] obtain i where i: "i < length layers" "i < length ?classes"
    and mx: "last_max_key rule_rank (layer_rules i (layers ! i) subject False (?classes ! i)) = Some (r, l)" by blast
  have "(r, l) \<in> set (layer_rules i (layers ! i) subject False (?classes ! i))"
    using last_max_key_greatest[OF mx] by blast
  then have "allow_reason eng (layers ! i) subject r"
    by (rule layer_rules_allow[OF _ _ _ r, rotated 2]) (use ok i in \<open>auto simp: subject_classes_def\<close>)
  with i rule show ?thesis by auto
qed

subsection \<open>The base layer\<close>

lemma base_winning:
  "fold (base_candidate layer ro) cs w0 = Some (r, c, l) \<Longrightarrow>
     (\<exists>i. c \<in> set cs \<and> l = (0, False, i) \<and> (i, r) \<in> set (legacy_candidates layer c)
        \<and> glob_matches (rule_pattern r) c \<and> applies_to_subject r ro) \<or> w0 = Some (r, c, l)"
proof (induction cs arbitrary: w0)
  case (Cons d cs)
  let ?w = "base_candidate layer ro d w0"
  have step: "?w = w0 \<or> (\<exists>i q. ?w = Some (q, d, (0, False, i)) \<and> (i, q) \<in> set (legacy_candidates layer d)
      \<and> glob_matches (rule_pattern q) d \<and> applies_to_subject q ro)"
  proof (cases "last_max_key (\<lambda>(i, r). base_key r) (filter (\<lambda>(i, r). glob_matches (rule_pattern r) d)
      (filter (\<lambda>(i, r). applies_to_subject r ro) (legacy_candidates layer d)))")
    case None
    then show ?thesis by (simp add: base_candidate_def)
  next
    case (Some p)
    obtain i q where p: "p = (i, q)" by fastforce
    from last_max_key_greatest[OF Some] p have "(i, q) \<in> set (legacy_candidates layer d)"
      "glob_matches (rule_pattern q) d" "applies_to_subject q ro" by auto
    with Some p show ?thesis by (auto simp: base_candidate_def split: option.splits)
  qed
  from Cons.prems have "fold (base_candidate layer ro) cs ?w = Some (r, c, l)" by simp
  from Cons.IH[OF this] step show ?case by auto
qed simp

lemma base_words_possible_deny:
  "possible_restriction words Deny \<noteq> None \<Longrightarrow> fst (base_words words ex source st) = Deny"
  by (auto simp: base_words_def Let_def split: option.splits)

lemma base_words_possible_ask:
  "possible_restriction words Ask \<noteq> None \<Longrightarrow> fst (base_words words ex source st) \<noteq> Allow"
  by (auto simp: base_words_def Let_def split: option.splits)

lemma base_words_matching:
  "matching_words words = Some r \<Longrightarrow> \<not> ex \<Longrightarrow> wr_action r \<le> fst (base_words words ex source st)"
  by (cases "wr_action r") (auto simp: base_words_def Let_def split: option.splits)

lemma base_words_exact:
  "fst st = Deny \<Longrightarrow> ex \<Longrightarrow> fst (base_words words ex source st) = Deny"
  by (auto simp: base_words_def Let_def split: option.splits)

lemma base_words_allow:
  "fst (base_words words ex source st) = Allow \<Longrightarrow>
     (\<exists>r. matching_words words = Some r \<and> wr_action r = Allow \<and>
        fst (snd (base_words words ex source st)) = word_rule_as_rule r Allow) \<or>
     fst st = Allow \<and> base_words words ex source st = st"
  by (auto simp: base_words_def Let_def split: option.splits if_splits)

definition base_winner :: "'re compiled_layer \<Rightarrow> bool \<Rightarrow> subject \<Rightarrow> (rule \<times> ustring \<times> locator) option" where
  "base_winner layer ro subject = fold (base_candidate layer ro) (sub_candidates subject) None"

definition base_state_of ::
    "'re compiled_layer \<Rightarrow> subject \<Rightarrow> bool \<Rightarrow> 're classified_words \<Rightarrow> base_state" where
  "base_state_of layer subject ro words =
     base_words words (exact_legacy_deny (base_winner layer ro subject)) (sub_source subject)
       (base_start (base_winner layer ro subject) subject ro)"

lemma base_decision:
  assumes "d = evaluate_base_subject layer subject ro classes"
  shows "(ssd_action d, ssd_rule d, ssd_candidate d, ssd_locator d) =
    fold (base_raise (sub_source subject)) (restrictions layer subject) (base_state_of layer subject ro (classes ! 0))"
  using assms
  by (simp add: evaluate_base_subject_def base_state_of_def base_winner_def Let_def split: prod.splits)

lemma base_decision_ge:
  assumes "d = evaluate_base_subject layer subject ro classes"
  shows "fst (base_state_of layer subject ro (classes ! 0)) \<le> ssd_action d"
proof -
  have "fst (fold (base_raise (sub_source subject)) (restrictions layer subject)
      (base_state_of layer subject ro (classes ! 0))) = ssd_action d"
    by (simp flip: base_decision[OF assms])
  then show ?thesis
    using base_escalation.fold_rank_start[of "base_state_of layer subject ro (classes ! 0)"
        "sub_source subject" "restrictions layer subject"]
    by (simp add: less_eq_action_def)
qed

lemma base_restrictions_kept:
  assumes d: "d = evaluate_base_subject layer subject ro classes" and r: "(i, r) \<in> set (restrictions layer subject)"
  shows "rule_action r \<le> ssd_action d"
proof -
  have "fst (fold (base_raise (sub_source subject)) (restrictions layer subject)
      (base_state_of layer subject ro (classes ! 0))) = ssd_action d"
    by (simp flip: base_decision[OF d])
  then show ?thesis
    using base_escalation.fold_rank_offer[OF r, of "sub_source subject" "base_state_of layer subject ro (classes ! 0)"]
    by (simp add: less_eq_action_def)
qed

lemma exact_deny_start:
  "exact_legacy_deny w \<Longrightarrow> fst (base_start w subject ro) = Deny"
  by (auto simp: exact_legacy_deny_def base_start_def split: option.splits)

lemma classified_selected:
  assumes "(i, w, k) \<in> set words" and "k \<noteq> MAbsent"
  shows "(\<exists>q. matching_words words = Some q \<and> rank_le w q) \<or> possible_restriction words (wr_action w) \<noteq> None"
proof (cases k)
  case MDefinite
  with assms(1) have "matching_words words \<noteq> None" unfolding matching_words_None by blast
  then obtain q where q: "matching_words words = Some q" by blast
  from matching_words_best[OF q] assms(1) MDefinite have "rank_le w q" by blast
  with q show ?thesis by blast
next
  case MPossible
  with assms(1) have "possible_restriction words (wr_action w) \<noteq> None"
    unfolding possible_restriction_None by blast
  then show ?thesis ..
qed (use assms in simp)

lemma rank_le_actions: "rank_le l r \<Longrightarrow> wr_action l \<le> wr_action r"
  by (cases "wr_action l"; cases "wr_action r")
    (auto simp: rank_le_def Let_def action_priority_def less_eq_action_def action_precedence_def)

text \<open>Whatever the command becomes, no word rule that then accepts it is more severe than the decision.\<close>

lemma base_word_rules_respected:
  assumes ok: "layer_ok layer" and d: "d = evaluate_base_subject layer subject ro classes"
    and cls: "classes ! 0 = classified eng (cl_words layer) (sub_executable subject) (sub_arguments subject)"
    and w: "w \<in> set (wrs_rules (cl_words layer))"
    and ex: "expands (sub_executable subject # sub_arguments subject) vs" and acc: "accepts_words eng w vs"
  shows "wr_action w \<le> ssd_action d"
proof -
  let ?words = "classes ! 0" and ?st = "base_state_of layer subject ro (classes ! 0)"
  have "index_ok (cl_words layer)" using ok by (simp add: layer_ok_def)
  from classified_accepting[OF this w ex acc] cls obtain i k where
    "(i, w, k) \<in> set ?words" "k \<noteq> MAbsent" by auto
  from classified_selected[OF this] have "wr_action w \<le> fst ?st"
  proof
    assume "\<exists>q. matching_words ?words = Some q \<and> rank_le w q"
    then obtain q where q: "matching_words ?words = Some q" "wr_action w \<le> wr_action q"
      using rank_le_actions by blast
    show ?thesis
    proof (cases "exact_legacy_deny (base_winner layer ro subject)")
      case True
      show ?thesis
        using base_words_exact[OF exact_deny_start[OF True] True, of "classes ! 0"] True
        by (simp add: base_state_of_def)
    next
      case False
      from base_words_matching[OF q(1) False] q(2) show ?thesis
        unfolding base_state_of_def by (rule order.trans[rotated])
    qed
  next
    assume p: "possible_restriction ?words (wr_action w) \<noteq> None"
    show ?thesis
    proof (cases "wr_action w")
      case Ask
      with p base_words_possible_ask[of "classes ! 0"] have "fst ?st \<noteq> Allow" by (simp add: base_state_of_def)
      with Ask show ?thesis by (cases "fst ?st") (auto simp: less_eq_action_def action_precedence_def)
    next
      case Deny
      with p base_words_possible_deny[of "classes ! 0"] show ?thesis by (simp add: base_state_of_def)
    qed simp
  qed
  with base_decision_ge[OF d] show ?thesis by (rule order.trans[rotated])
qed

lemma action_le_Allow: "a \<le> Allow \<longleftrightarrow> a = Allow"
  by (cases a) (auto simp: less_eq_action_def action_precedence_def)

lemma base_allow:
  assumes ok: "layer_ok layer" and d: "d = evaluate_base_subject layer subject False classes"
    and cls: "classes ! 0 = classified eng (cl_words layer) (sub_executable subject) (sub_arguments subject)"
    and allow: "ssd_action d = Allow"
  shows "allow_reason eng layer subject (ssd_rule d)"
proof -
  let ?st = "base_state_of layer subject False (classes ! 0)"
  let ?fin_st = "fold (base_raise (sub_source subject)) (restrictions layer subject) ?st"
  have fin: "?fin_st = (Allow, ssd_rule d, ssd_candidate d, ssd_locator d)"
    using base_decision[OF d] allow by simp
  have "?fin_st = ?st"
    using base_escalation.fold_origin[of "sub_source subject" "restrictions layer subject" ?st] fin
    by (auto simp: action_precedence_def)
  with fin have st: "fst ?st = Allow" "fst (snd ?st) = ssd_rule d" by simp_all
  from base_words_allow[OF st(1)[unfolded base_state_of_def]]
  show ?thesis
  proof (elim disjE exE conjE)
    fix w
    assume w: "matching_words (classes ! 0) = Some w" "wr_action w = Allow"
      and "fst (snd (base_words (classes ! 0) (exact_legacy_deny (base_winner layer False subject)) (sub_source subject)
        (base_start (base_winner layer False subject) subject False))) = word_rule_as_rule w Allow"
    then have "ssd_rule d = word_rule_as_rule w Allow" using st(2) by (simp add: base_state_of_def)
    with matching_words_rule[OF ok, of eng "sub_executable subject" "sub_arguments subject" w] w cls
    show ?thesis by (auto simp: allow_reason_def word_rule_as_rule_def)
  next
    assume start: "fst (base_start (base_winner layer False subject) subject False) = Allow"
      and "base_words (classes ! 0) (exact_legacy_deny (base_winner layer False subject)) (sub_source subject)
        (base_start (base_winner layer False subject) subject False) = base_start (base_winner layer False subject) subject False"
    then have st: "?st = base_start (base_winner layer False subject) subject False" by (simp add: base_state_of_def)
    from start obtain r c l where win: "base_winner layer False subject = Some (r, c, l)"
      by (auto simp: base_start_def split: option.splits)
    with st \<open>fst (snd ?st) = ssd_rule d\<close> start have r: "ssd_rule d = r" "rule_action r = Allow"
      by (simp_all add: base_start_def)
    from base_winning[of layer False "sub_candidates subject" None r c l] win obtain i where
      "c \<in> set (sub_candidates subject)" "(i, r) \<in> set (legacy_candidates layer c)" "glob_matches (rule_pattern r) c"
      by (auto simp: base_winner_def)
    moreover from this legacy_index.cands_entries[OF ok] have "(i, r) \<in> set (enumerated (cl_legacy layer))" by blast
    then have "r \<in> set (cl_legacy layer)" by (metis nth_mem set_enumerated)
    ultimately show ?thesis using r by (auto simp: allow_reason_def)
  qed
qed

text \<open>A deny rule for exactly this text cannot be refined away by word rules.\<close>

lemma base_exact_deny:
  assumes "d = evaluate_base_subject layer subject ro classes"
    and "base_winner layer ro subject = Some (r, c, l)" and "rule_action r = Deny" and "STAR \<notin> set (rule_pattern r)"
  shows "ssd_action d = Deny"
proof -
  have ex: "exact_legacy_deny (base_winner layer ro subject)" using assms by (simp add: exact_legacy_deny_def)
  from base_words_exact[OF exact_deny_start[OF ex] ex, of "classes ! 0"] ex have "fst (base_state_of layer subject ro (classes ! 0)) = Deny"
    by (simp add: base_state_of_def)
  with base_decision_ge[OF assms(1)] show ?thesis by (cases "ssd_action d") (auto simp: less_eq_action_def action_precedence_def)
qed

subsection \<open>Ordered layers\<close>

lemma ordered_winner_last:
  assumes i: "i < length layers" "i < length classes"
    and ne: "layer_rules i (layers ! i) subject ro (classes ! i) \<noteq> []"
    and later: "\<forall>j. i < j \<longrightarrow> j < length layers \<longrightarrow> j < length classes \<longrightarrow> layer_rules j (layers ! j) subject ro (classes ! j) = []"
  shows "ordered_winner layers subject ro classes = last_max_key rule_rank (layer_rules i (layers ! i) subject ro (classes ! i))"
proof -
  let ?xs = "zip [0..<length layers] (zip layers classes)"
  let ?f = "\<lambda>(li, layer, words). last_max_key rule_rank (layer_rules li layer subject ro words)"
  let ?n = "length ?xs"
  have len: "i < ?n" using i by simp
  have split: "?xs = take i ?xs @ (i, layers ! i, classes ! i) # drop (Suc i) ?xs"
    using id_take_nth_drop[OF len] i by simp
  have none: "?f x = None" if "x \<in> set (drop (Suc i) ?xs)" for x
  proof -
    from that obtain k where k: "k < length (drop (Suc i) ?xs)" "drop (Suc i) ?xs ! k = x"
      unfolding in_set_conv_nth by blast
    have "k < ?n - Suc i" using k(1) by (simp only: length_drop)
    then have lt: "Suc i + k < ?n" by linarith
    have "x = ?xs ! (Suc i + k)" using k(2) lt by (subst (asm) nth_drop) simp_all
    with lt have "x = (Suc i + k, layers ! (Suc i + k), classes ! (Suc i + k))" by simp
    moreover have "Suc i + k < length layers" "Suc i + k < length classes" using lt by simp_all
    ultimately show ?thesis using later by simp
  qed
  have keep: "fold (\<lambda>x w. case ?f x of Some r \<Rightarrow> Some r | None \<Rightarrow> w) zs w0 = w0"
    if "\<forall>z \<in> set zs. ?f z = None" for zs w0
    using that by (induction zs) auto
  obtain y where y: "last_max_key rule_rank (layer_rules i (layers ! i) subject ro (classes ! i)) = Some y"
    using ne by (cases "last_max_key rule_rank (layer_rules i (layers ! i) subject ro (classes ! i))") auto
  have "ordered_winner layers subject ro classes = fold (\<lambda>x w. case ?f x of Some r \<Rightarrow> Some r | None \<Rightarrow> w) ?xs None"
    by (simp add: ordered_winner_def case_prod_unfold)
  also have "\<dots> = Some y"
    by (subst split) (simp add: y keep none del: not_None_eq)
  finally show ?thesis using y by simp
qed

lemma ordered_word_rules_respected:
  assumes ok: "\<forall>layer \<in> set layers. layer_ok layer"
    and d: "d = evaluate_ordered_subject layers subject ro (subject_classes eng layers subject)"
    and i: "i < length layers" and w: "w \<in> set (wrs_rules (cl_words (layers ! i)))"
    and ex: "expands (sub_executable subject # sub_arguments subject) vs" and acc: "accepts_words eng w vs"
    and later: "\<forall>j. i < j \<longrightarrow> j < length layers \<longrightarrow>
      layer_rules j (layers ! j) subject ro (subject_classes eng layers subject ! j) = []"
  shows "wr_action w \<le> ssd_action d"
proof -
  let ?classes = "subject_classes eng layers subject"
  let ?words = "?classes ! i"
  let ?start = "ordered_start (ordered_winner layers subject ro ?classes) ro"
  have cls: "?words = classified eng (cl_words (layers ! i)) (sub_executable subject) (sub_arguments subject)"
    using i by (simp add: subject_classes_def)
  have "index_ok (cl_words (layers ! i))" using ok i by (simp add: layer_ok_def)
  from classified_accepting[OF this w ex acc] cls obtain k m where
    "(m, w, k) \<in> set ?words" "k \<noteq> MAbsent" by auto
  from classified_selected[OF this] show ?thesis
  proof
    assume "\<exists>q. matching_words ?words = Some q \<and> rank_le w q"
    then obtain q where q: "matching_words ?words = Some q" "wr_action w \<le> wr_action q"
      using rank_le_actions by blast
    let ?r = "(word_rule_as_rule q (wr_action q), (i, True, wr_index q))"
    have mem: "?r \<in> set (layer_rules i (layers ! i) subject ro ?words)"
      using q by (auto simp: layer_rules_def)
    then have ne: "layer_rules i (layers ! i) subject ro ?words \<noteq> []" by auto
    have "ordered_winner layers subject ro ?classes = last_max_key rule_rank (layer_rules i (layers ! i) subject ro ?words)"
      by (rule ordered_winner_last) (use i later ne in \<open>auto simp: subject_classes_def\<close>)
    moreover obtain y where y: "last_max_key rule_rank (layer_rules i (layers ! i) subject ro ?words) = Some y"
      using ne by (cases "last_max_key rule_rank (layer_rules i (layers ! i) subject ro ?words)") auto
    moreover have "rule_rank ?r \<le> rule_rank y" using last_max_key_greatest[OF y] mem by blast
    then have "wr_action q \<le> rule_action (fst y)"
      by (cases y) (auto simp: rule_rank_def less_eq_action_def word_rule_as_rule_def less_eq_prod_def)
    ultimately have "wr_action q \<le> rule_action (fst ?start)"
      by (cases y) (simp add: ordered_start_def)
    also have "\<dots> \<le> ssd_action d"
      using rule_escalation.fold_rank_start[of ?start "all_possible layers subject ?classes"] ordered_decision(1)[OF d]
      by (simp add: less_eq_action_def)
    finally show ?thesis using q(2) by (rule order.trans[rotated])
  next
    assume "possible_restriction ?words (wr_action w) \<noteq> None"
    then obtain q where q: "possible_restriction ?words (wr_action w) = Some q" by blast
    show ?thesis
    proof (cases "wr_action w = Allow")
      case False
      then have "wr_action w \<in> {Ask, Deny}" by (cases "wr_action w") auto
      with q have "(word_rule_as_rule q (wr_action w), (i, True, wr_index q)) \<in> set (layer_possible i (layers ! i) subject ?words)"
        by (auto simp: layer_possible_iff)
      with i have "(word_rule_as_rule q (wr_action w), (i, True, wr_index q)) \<in> set (all_possible layers subject ?classes)"
        by (auto simp: all_possible_iff subject_classes_def)
      from ordered_restrictions_kept[OF this, of ro] d show ?thesis by (simp add: word_rule_as_rule_def)
    qed simp
  qed
qed

section \<open>Any policy\<close>

definition policy_ok :: "'re compiled_policy \<Rightarrow> bool" where
  "policy_ok cp \<longleftrightarrow> cp_layers cp \<noteq> [] \<and> (\<forall>layer \<in> set (cp_layers cp). layer_ok layer)"

lemma compile_policy_ok:
  assumes "compile_policy eng base ordered = Inr cp"
  shows "policy_ok cp"
  using compile_policy_layers(1)[OF assms]
  by (auto simp: policy_ok_def list_all2_Cons1 list_all2_conv_all_nth in_set_conv_nth)

lemma evaluate_subject_allow:
  assumes ok: "policy_ok cp" and allow: "ssd_action (fst (evaluate_subject eng cp subject False si)) = Allow"
  shows "\<exists>layer \<in> set (cp_layers cp). allow_reason eng layer subject (ssd_rule (fst (evaluate_subject eng cp subject False si)))"
proof (cases "cp_ordered cp")
  case True
  with ok allow ordered_allow[of "cp_layers cp" _ subject eng] show ?thesis
    by (auto simp: evaluate_subject_def Let_def policy_ok_def subject_classes_def)
next
  case False
  from ok have "0 < length (cp_layers cp)" "layer_ok (cp_layers cp ! 0)" by (auto simp: policy_ok_def)
  with False allow base_allow[of "cp_layers cp ! 0" _ subject "subject_classes eng (cp_layers cp) subject" eng]
  have "allow_reason eng (cp_layers cp ! 0) subject (ssd_rule (fst (evaluate_subject eng cp subject False si)))"
    by (auto simp: evaluate_subject_def Let_def subject_classes_def)
  with \<open>0 < length (cp_layers cp)\<close> show ?thesis by auto
qed

end
