(* ===== verification/Policy_Eval.thy ===== *)
theory Policy_Eval
  imports Command_Policy
begin

text \<open>
  Evaluation of a tool call (\<open>packages/agent-policy/src/lib.rs\<close>): the built-in
  configuration, tool enablement, shell commands with redirections, web and filesystem rules,
  compound and process operations, and the preview.

  The two third-party matchers and the compiled-policy cache are the environment of the
  evaluator. \<open>env_cached\<close> answers like \<open>compiled_commands::cached\<close>; the cache is
  proved to answer like the compiler in \<open>Compiled_Commands\<close>.
\<close>

record ('re, 'g) eval_env =
  env_regex :: "'re regex_engine"
  env_glob :: "'g glob_engine"
  env_cached :: "agent_config \<Rightarrow> ustring + 're compiled_policy"

record policy_evaluation =
  pe_response :: evaluate_tool_call_response
  pe_matched_rule :: "ustring option"
  pe_command_part :: "ustring option"
  pe_matches :: "preview_command_match list"

abbreviation pe_decision :: "policy_evaluation \<Rightarrow> agent_decision" where
  "pe_decision ev \<equiv> resp_decision (pe_response ev)"

definition evaluation :: "agent_decision \<Rightarrow> ustring \<Rightarrow> ustring option \<Rightarrow> ustring option \<Rightarrow> policy_evaluation" where
  "evaluation decision reason matched_rule command_part =
     \<lparr>pe_response = \<lparr>resp_decision = decision,
        resp_reason = (if reason = [] then None else Some reason), resp_shell = None\<rparr>,
      pe_matched_rule = matched_rule, pe_command_part = command_part, pe_matches = []\<rparr>"

definition shell_evaluation ::
    "agent_decision \<Rightarrow> ustring \<Rightarrow> ustring option \<Rightarrow> ustring option \<Rightarrow> shell_policy_diagnostic \<Rightarrow> policy_evaluation" where
  "shell_evaluation decision reason matched_rule command_part shell =
     \<lparr>pe_response = \<lparr>resp_decision = decision, resp_reason = Some reason, resp_shell = Some shell\<rparr>,
      pe_matched_rule = matched_rule, pe_command_part = command_part, pe_matches = []\<rparr>"

lemma evaluation_decision [simp]:
  "pe_decision (evaluation d r m c) = d" "pe_decision (shell_evaluation d s m c sh) = d"
  by (simp_all add: evaluation_def shell_evaluation_def)

definition quoted :: "ustring \<Rightarrow> ustring" where
  "quoted s = [SINGLE_QUOTE] @ s @ [SINGLE_QUOTE]"

fun show_decision :: "agent_decision \<Rightarrow> ustring" where
  "show_decision DAllow = str ''Allow''"
| "show_decision DAsk = str ''Ask''"
| "show_decision DDeny = str ''Deny''"

fun show_action :: "action \<Rightarrow> ustring" where
  "show_action Allow = str ''Allow''"
| "show_action Deny = str ''Deny''"
| "show_action Ask = str ''Ask''"

fun show_dialect :: "shell_dialect \<Rightarrow> ustring" where
  "show_dialect Posix = str ''Posix''"

section \<open>Built-in configuration\<close>

definition BUILD_AGENT :: ustring where "BUILD_AGENT = str ''build''"
definition PLAN_AGENT :: ustring where "PLAN_AGENT = str ''plan''"

definition build_agent_config :: agent_config where
  "build_agent_config = \<lparr>cfg_accent = None, cfg_tools = [],
     cfg_permission = default_permission_config
       \<lparr>perm_command := bt_from [(str ''*'', Ask)], perm_external_directory := Allow,
        perm_web := bt_from [(str ''*'', Ask)]\<rparr>\<rparr>"

definition plan_agent_config :: agent_config where
  "plan_agent_config = \<lparr>cfg_accent = None, cfg_tools = [],
     cfg_permission = default_permission_config
       \<lparr>perm_command := bt_from [(str ''*'', Deny),
          (str ''cargo check'', Allow), (str ''cargo check *'', Allow),
          (str ''cargo test'', Allow), (str ''cargo test *'', Allow),
          (str ''git diff'', Allow), (str ''git diff *'', Allow),
          (str ''git status'', Allow), (str ''git status *'', Allow),
          (str ''ls'', Allow), (str ''ls *'', Allow), (str ''rg *'', Allow)],
        perm_external_directory := Allow, perm_web := bt_from [(str ''*'', Ask)]\<rparr>\<rparr>"

definition default_config :: agent_permission_config where
  "default_config = \<lparr>cfg_agent =
     bt_insert PLAN_AGENT plan_agent_config (bt_insert BUILD_AGENT build_agent_config [])\<rparr>"

definition agent_config_of :: "agent_permission_config \<Rightarrow> ustring \<Rightarrow> agent_config" where
  "agent_config_of config agent_id =
     (case bt_get (cfg_agent config) agent_id of
        Some c \<Rightarrow> c
      | None \<Rightarrow>
          (case bt_get (cfg_agent config) BUILD_AGENT of
             Some c \<Rightarrow> c
           | None \<Rightarrow> (case bt_get (cfg_agent default_config) BUILD_AGENT of
                       Some c \<Rightarrow> c | None \<Rightarrow> default_agent_config)))"

definition active_tools_for :: "agent_config \<Rightarrow> ustring list" where
  "active_tools_for config =
     List.map_filter (\<lambda>(tool, enabled). if enabled then Some tool else None) (cfg_tools config)"

section \<open>Tool enablement\<close>

fun find_map :: "('a \<Rightarrow> 'b option) \<Rightarrow> 'a list \<Rightarrow> 'b option" where
  "find_map f [] = None"
| "find_map f (x # xs) = (case f x of Some y \<Rightarrow> Some y | None \<Rightarrow> find_map f xs)"

definition tool_aliases :: "evaluate_tool_call_request \<Rightarrow> ustring list" where
  "tool_aliases request = bs_from (req_tool_name request # req_aliases request)"

definition tool_enabled :: "agent_config \<Rightarrow> evaluate_tool_call_request \<Rightarrow> bool option" where
  "tool_enabled config request = find_map (bt_get (cfg_tools config)) (tool_aliases request)"

section \<open>Shell commands\<close>

definition shell_fact_denied :: "evaluate_tool_call_request \<Rightarrow> ustring \<Rightarrow> policy_evaluation" where
  "shell_fact_denied request reason =
     evaluation DDeny (req_agent_id request @ str '' agent denied shell command: '' @ reason) None None"

text \<open>The visitor of the execution views: a view may replace the decision, never soften it.\<close>

type_synonym command_result = "shell_subject_decision \<times> preview_command_match list"

definition view_replaces :: "shell_subject_decision \<Rightarrow> shell_subject_decision \<Rightarrow> bool" where
  "view_replaces restriction result \<longleftrightarrow> ssd_locator restriction \<noteq> None \<and>
     action_precedence (ssd_action restriction) > action_precedence (ssd_action result)"

definition absorb_view :: "ustring \<Rightarrow> command_result \<Rightarrow> command_result \<Rightarrow> command_result" where
  "absorb_view source = (\<lambda>(restriction, view_matches) (result, ms).
     (let replaces = view_replaces restriction result;
          result' = (if replaces then restriction\<lparr>ssd_subject := source\<rparr> else result);
          ms' = (if replaces then map (\<lambda>m. m\<lparr>pm_winning := False\<rparr>) ms else ms)
      in (result',
          fold (\<lambda>m acc.
              (let m' = m\<lparr>pm_winning := pm_winning m \<and> replaces\<rparr>
               in if pm_decision m' \<noteq> DAllow \<and> m' \<notin> set acc then acc @ [m'] else acc))
            view_matches ms')))"

definition evaluate_command ::
    "'re regex_engine \<Rightarrow> 're compiled_policy \<Rightarrow> nat \<times> shell_command \<Rightarrow> ustring + command_result" where
  "evaluate_command eng cp = (\<lambda>(si, original).
     (case effective_command original of
        Inl reason \<Rightarrow> Inl reason
      | Inr subject \<Rightarrow>
          if literal_word (sub_executable subject) = None
          then Inl (str ''effective executable identity is unresolved'')
          else if sub_candidates subject = []
          then Inl (str ''shell command has no policy match candidate'')
          else (case visit subject of
                  Inl e \<Rightarrow> Inl e
                | Inr views \<Rightarrow>
                    Inr (fold (\<lambda>view. absorb_view (sub_source subject) (evaluate_subject eng cp view True si))
                           views (evaluate_subject eng cp subject False si)))))"

definition redirection_rules :: "agent_config \<Rightarrow> redirection_kind \<Rightarrow> ((ustring, action) btree \<times> action) option" where
  "redirection_rules config kind =
     (case kind of
        Input \<Rightarrow> Some (perm_read (cfg_permission config), Allow)
      | OutputTruncate \<Rightarrow> Some (perm_write (cfg_permission config), Deny)
      | OutputAppend \<Rightarrow> Some (perm_write (cfg_permission config), Deny)
      | InputOutput \<Rightarrow> Some (perm_write (cfg_permission config), Deny)
      | _ \<Rightarrow> None)"

definition evaluate_redirection ::
    "'g glob_engine \<Rightarrow> agent_config \<Rightarrow> shell_redirection \<Rightarrow> ustring + shell_subject_decision option" where
  "evaluate_redirection glob config redirect =
     (case redir_static_path redirect of
        None \<Rightarrow>
          if redir_kind redirect \<noteq> HereDocument \<and> redir_kind redirect \<noteq> Duplicate \<and> redir_kind redirect \<noteq> Close
          then Inl (str ''shell redirection target is dynamic'')
          else Inr None
      | Some path \<Rightarrow>
          if redir_kind redirect = HereString then Inl (str ''unsupported shell redirection'')
          else (case redirection_rules config (redir_kind redirect) of
                  None \<Rightarrow> Inr None
                | Some (rules, fallback) \<Rightarrow>
                    (let act = (case matching_path_rule glob (compile_path_rules glob rules) path of
                                  Some r \<Rightarrow> path_action r | None \<Rightarrow> fallback)
                     in Inr (Some \<lparr>ssd_action = act,
                          ssd_rule = \<lparr>rule_pattern = str ''redirection:'' @ path, rule_action = act, rule_spec = USIZE_MAX\<rparr>,
                          ssd_candidate = path, ssd_subject = path, ssd_span = Some (redir_span redirect),
                          ssd_kind = RedirectionSubject, ssd_locator = None\<rparr>))))"

definition shell_remember_patterns ::
    "subject_kind \<Rightarrow> shell_command list \<Rightarrow> source_span option \<Rightarrow> ustring list" where
  "shell_remember_patterns kind commands span =
     (if kind \<noteq> CommandSubject then []
      else (case span of
              None \<Rightarrow> []
            | Some sp \<Rightarrow>
                (case List.find (\<lambda>c. cmd_span c = sp) commands of
                   None \<Rightarrow> []
                 | Some command \<Rightarrow>
                     (case cmd_executable command of
                        Dynamic _ _ _ \<Rightarrow> []
                      | Static v _ \<Rightarrow>
                          if cmd_assignments command \<noteq> [] \<or> v = [] then []
                          else [cmd_source command, v @ str '' *'']))))"

definition decision_verb :: "agent_decision \<Rightarrow> ustring" where
  "decision_verb d = (case d of DAllow \<Rightarrow> str ''allowed'' | DAsk \<Rightarrow> str ''asks before'' | DDeny \<Rightarrow> str ''denied'')"

definition aggregate_reason ::
    "agent_decision \<Rightarrow> shell_subject_decision \<Rightarrow> shell_dialect \<Rightarrow> ustring \<Rightarrow> ustring" where
  "aggregate_reason decision winner dialect certainty =
     decision_verb decision @ str '' shell program: ''
     @ (case ssd_kind winner of CommandSubject \<Rightarrow> str ''command subject'' | RedirectionSubject \<Rightarrow> str ''redirection'')
     @ str '' '' @ quoted (ssd_subject winner) @ str '' at bytes ''
     @ show_nat (case ssd_span winner of Some sp \<Rightarrow> unat (span_start sp) | None \<Rightarrow> 0) @ str ''..''
     @ show_nat (case ssd_span winner of Some sp \<Rightarrow> unat (span_end sp) | None \<Rightarrow> 0)
     @ str '' using candidate '' @ quoted (ssd_candidate winner)
     @ str '' matched rule '' @ quoted (rule_pattern (ssd_rule winner))
     @ str '' ('' @ show_dialect dialect @ str ''); configured action ''
     @ show_decision (agent_decision_of (rule_action (ssd_rule winner)))
     @ str '', '' @ certainty @ str '' match; aggregate precedence deny > ask > allow selected ''
     @ show_decision decision"

text \<open>The most severe result, its diagnostic and the response.\<close>

definition shell_outcome ::
    "shell_analysis \<Rightarrow> preview_command_match list \<Rightarrow> shell_subject_decision \<Rightarrow> policy_evaluation" where
  "shell_outcome analysis matches winner =
     (let decision = agent_decision_of (ssd_action winner);
          winner_index = position (\<lambda>c. Some (cmd_span c) = ssd_span winner \<and> cmd_source c = ssd_subject winner)
                           (an_commands analysis);
          possible = list_ex (\<lambda>m. Some (pm_subject_index m) = winner_index \<and> pm_winning m \<and> pm_uncertain m) matches;
          certainty = (if possible then str ''possible'' else str ''definite'');
          reason = aggregate_reason decision winner (an_dialect analysis) certainty;
          diagnostic = \<lparr>sd_original_source = an_source analysis, sd_subject = ssd_subject winner,
            sd_span = ssd_span winner, sd_dialect = an_dialect analysis,
            sd_match_candidate = ssd_candidate winner, sd_matched_rule = rule_pattern (ssd_rule winner),
            sd_rule_action = Some (agent_decision_of (rule_action (ssd_rule winner))),
            sd_match_certainty = Some certainty, sd_subject_kind = ssd_kind winner,
            sd_subject_decision = decision, sd_aggregate_decision = decision,
            sd_remember_patterns = shell_remember_patterns (ssd_kind winner) (an_commands analysis) (ssd_span winner),
            sd_aggregate_reason = reason\<rparr>
      in (shell_evaluation decision reason (Some (rule_pattern (ssd_rule winner))) (Some (ssd_subject winner))
            diagnostic)\<lparr>pe_matches := matches\<rparr>)"

text \<open>
  Commands and redirections are visited in order and the first fact error denies. The source
  expects a non-empty list of results; \<open>NO_RESULT\<close> stands for the panic, which
  \<open>evaluate_shell_cases\<close> excludes.
\<close>

definition NO_RESULT :: ustring where
  "NO_RESULT = str ''shell analysis contains at least one command result''"

definition evaluate_analysis ::
    "('re, 'g) eval_env \<Rightarrow> agent_config \<Rightarrow> shell_analysis \<Rightarrow> ustring + policy_evaluation" where
  "evaluate_analysis env config analysis =
     (case map_err (\<lambda>e. str ''invalid command policy: '' @ e) (env_cached env config) of
        Inl e \<Rightarrow> Inl e
      | Inr cp \<Rightarrow>
          (case traverse (evaluate_command (env_regex env) cp) (enumerated (an_commands analysis)) of
             Inl e \<Rightarrow> Inl e
           | Inr results \<Rightarrow>
               (case traverse (evaluate_redirection (env_glob env) config) (an_redirections analysis) of
                  Inl e \<Rightarrow> Inl e
                | Inr redirects \<Rightarrow>
                    (case last_max_key (\<lambda>r. action_precedence (ssd_action r))
                            (map fst results @ List.map_filter (\<lambda>r. r) redirects) of
                       None \<Rightarrow> Inl NO_RESULT
                     | Some winner \<Rightarrow> Inr (shell_outcome analysis (concat (map snd results)) winner)))))"

definition evaluate_shell ::
    "('re, 'g) eval_env \<Rightarrow> agent_config \<Rightarrow> evaluate_tool_call_request \<Rightarrow> policy_evaluation" where
  "evaluate_shell env config request =
     (case req_operation request of
        Command command analysis analysis_error \<Rightarrow>
          (case command of
             None \<Rightarrow> shell_fact_denied request (str ''shell command is missing'')
           | Some source \<Rightarrow>
               if analysis_error \<noteq> None then shell_fact_denied request (str ''shell analysis failed'')
               else (case analysis of
                 None \<Rightarrow> shell_fact_denied request (str ''structured shell analysis is missing'')
               | Some an \<Rightarrow>
                   if an_schema_version an \<noteq> SHELL_ANALYSIS_SCHEMA_VERSION \<or> an_source an \<noteq> source
                       \<or> an_dialect an \<noteq> Posix \<or> \<not> is_complete (an_completeness an)
                   then shell_fact_denied request (str ''structured shell analysis is invalid or incomplete'')
                   else if an_commands an = []
                   then shell_fact_denied request (str ''shell analysis contains no executable command'')
                   else (case evaluate_analysis env config an of
                           Inl reason \<Rightarrow> shell_fact_denied request reason
                         | Inr ev \<Rightarrow> ev)))
      | _ \<Rightarrow> shell_fact_denied request (str ''shell policy operation is not a command''))"

section \<open>Web pages, files and other tools\<close>

definition url_argument :: "evaluate_tool_call_request \<Rightarrow> ustring option" where
  "url_argument request = (case req_operation request of Web url \<Rightarrow> url | _ \<Rightarrow> None)"

definition evaluate_web_url ::
    "'g glob_engine \<Rightarrow> agent_config \<Rightarrow> evaluate_tool_call_request \<Rightarrow> policy_evaluation" where
  "evaluate_web_url glob config request =
     (let url = (case url_argument request of Some u \<Rightarrow> u | None \<Rightarrow> str ''*'')
      in case matching_path_rule glob (compile_path_rules glob (perm_web (cfg_permission config))) url of
           Some r \<Rightarrow>
             (case path_action r of
                Allow \<Rightarrow> evaluation DAllow [] (Some (path_pattern r)) None
              | Ask \<Rightarrow> evaluation DAsk (req_agent_id request @ str '' agent asks before web URL: '' @ url)
                         (Some (path_pattern r)) None
              | Deny \<Rightarrow> evaluation DDeny (req_agent_id request @ str '' agent denied web URL '' @ quoted url
                         @ str '' by rule '' @ quoted (path_pattern r)) (Some (path_pattern r)) None)
         | None \<Rightarrow>
             if tool_enabled config request = Some True
             then evaluation DAsk (req_agent_id request @ str '' agent asks before web URL'') None None
             else evaluation DDeny (req_agent_id request
                    @ str '' agent denied web URL access; enable the tool if web page reads are allowed'') None None)"

definition evaluate_mutating_fallback :: "agent_config \<Rightarrow> evaluate_tool_call_request \<Rightarrow> policy_evaluation" where
  "evaluate_mutating_fallback config request =
     (if tool_enabled config request = Some True
      then (case bt_get (perm_tools (cfg_permission config)) (req_tool_name request) of
              Some act \<Rightarrow> evaluation (agent_decision_of act)
                (req_agent_id request @ str '' agent tool rule for '' @ req_tool_name request
                   @ str '': '' @ show_action act) (Some (req_tool_name request)) None
            | None \<Rightarrow> evaluation DAsk
                (req_agent_id request @ str '' agent asks before '' @ req_tool_name request) None None)
      else evaluation DDeny
             (req_agent_id request @ str '' agent denied mutating tool '' @ req_tool_name request
                @ str ''; switch agents if implementation is needed'') None None)"

definition write_path_rules :: "agent_config \<Rightarrow> ustring \<Rightarrow> (ustring, action) btree" where
  "write_path_rules config category =
     (if category = str ''edit'' then perm_edit (cfg_permission config) else perm_write (cfg_permission config))"

definition candidate_paths :: "evaluate_tool_call_request \<Rightarrow> ustring list" where
  "candidate_paths request =
     (case req_operation request of Read paths \<Rightarrow> paths | Write paths _ \<Rightarrow> paths | _ \<Rightarrow> [])"

definition evaluate_path ::
    "'g glob_engine \<Rightarrow> agent_config \<Rightarrow> evaluate_tool_call_request \<Rightarrow> 'g path_rule list \<Rightarrow> ustring option
       \<Rightarrow> policy_evaluation" where
  "evaluate_path glob config request rules path =
     (case (case path of None \<Rightarrow> None | Some p \<Rightarrow> matching_path_rule glob rules p) of
        Some r \<Rightarrow>
          (let subject = (case path of Some p \<Rightarrow> p | None \<Rightarrow> [])
           in case path_action r of
                Allow \<Rightarrow> evaluation DAllow [] (Some (path_pattern r)) None
              | Ask \<Rightarrow> evaluation DAsk (req_agent_id request @ str '' agent asks before ''
                   @ req_tool_name request @ str '' on '' @ subject) (Some (path_pattern r)) (Some subject)
              | Deny \<Rightarrow> evaluation DDeny (req_agent_id request @ str '' agent denied '' @ req_tool_name request
                   @ str '' on '' @ quoted subject @ str '' by rule '' @ quoted (path_pattern r))
                   (Some (path_pattern r)) (Some subject))
      | None \<Rightarrow>
          (case req_operation request of
             Write _ _ \<Rightarrow> evaluate_mutating_fallback config request
           | _ \<Rightarrow> evaluation DAllow [] None None))"

definition more_severe :: "policy_evaluation \<Rightarrow> policy_evaluation \<Rightarrow> policy_evaluation" where
  "more_severe candidate result =
     (if decision_priority (pe_decision candidate) > decision_priority (pe_decision result)
      then candidate else result)"

definition evaluate_filesystem_path ::
    "'g glob_engine \<Rightarrow> agent_config \<Rightarrow> evaluate_tool_call_request \<Rightarrow> (ustring, action) btree \<Rightarrow> policy_evaluation" where
  "evaluate_filesystem_path glob config request rules =
     (let compiled = compile_path_rules glob rules;
          eval = evaluate_path glob config request compiled
      in case candidate_paths request of
           [] \<Rightarrow> eval None
         | p # ps \<Rightarrow> fold more_severe (map (\<lambda>q. eval (Some q)) ps) (eval (Some p)))"

section \<open>Tool calls\<close>

definition evaluate_after_path ::
    "('re, 'g) eval_env \<Rightarrow> agent_config \<Rightarrow> evaluate_tool_call_request \<Rightarrow> policy_evaluation" where
  "evaluate_after_path env config request =
     (case req_operation request of
        Process _ _ _ _ _ _ \<Rightarrow> evaluation DDeny (str ''process requires resource admission'') None None
      | Compound _ \<Rightarrow> evaluation DDeny (str ''invalid nested compound operation'') None None
      | Command _ _ _ \<Rightarrow> evaluate_shell env config request
      | Web _ \<Rightarrow> evaluate_web_url (env_glob env) config request
      | Write _ category \<Rightarrow>
          evaluate_filesystem_path (env_glob env) config request (write_path_rules config category)
      | Read _ \<Rightarrow> evaluate_filesystem_path (env_glob env) config request (perm_read (cfg_permission config))
      | ReadOnly \<Rightarrow> evaluation DAllow [] None None
      | Mutating \<Rightarrow> evaluate_mutating_fallback config request)"

definition external_path :: "agent_config \<Rightarrow> evaluate_tool_call_request \<Rightarrow> ustring \<Rightarrow> ustring option" where
  "external_path config request cwd =
     (if perm_external_directory (cfg_permission config) = Allow then None
      else List.find (\<lambda>p. is_external_path p cwd) (candidate_paths request))"

text \<open>\<open>evaluate_tool_call\<close> behind its process and compound branches.\<close>

definition evaluate_single ::
    "('re, 'g) eval_env \<Rightarrow> agent_config \<Rightarrow> evaluate_tool_call_request \<Rightarrow> ustring \<Rightarrow> policy_evaluation" where
  "evaluate_single env config request cwd =
     (if tool_enabled config request = Some False
      then evaluation DDeny (req_agent_id request @ str '' agent disabled tool '' @ req_tool_name request) None None
      else (case external_path config request cwd of
              None \<Rightarrow> evaluate_after_path env config request
            | Some path \<Rightarrow>
                (case perm_external_directory (cfg_permission config) of
                   Allow \<Rightarrow> evaluate_after_path env config request
                 | Ask \<Rightarrow>
                     (let asks = evaluation DAsk (req_agent_id request
                            @ str '' agent asks before external directory access: '' @ path) None None
                      in if length (candidate_paths request) > 1
                         then (let decision = evaluate_after_path env config request
                               in if pe_decision decision = DDeny then decision else asks)
                         else asks)
                 | Deny \<Rightarrow> evaluation DDeny (req_agent_id request
                     @ str '' agent blocks external directory access: '' @ path) None None)))"

definition process_name :: "ustring \<Rightarrow> ustring" where
  "process_name executable =
     (case path_components executable of
        [] \<Rightarrow> []
      | cs \<Rightarrow> (case last cs of Normal n \<Rightarrow> n | _ \<Rightarrow> []))"

definition process_name_char :: "uchar \<Rightarrow> bool" where
  "process_name_char c \<longleftrightarrow> is_ascii_alphanumeric c \<or> c \<in> set (str ''._-'')"

definition process_invalid :: "tool_policy_operation \<Rightarrow> bool" where
  "process_invalid op \<longleftrightarrow>
     (let name = process_name (proc_executable op)
      in name = [] \<or> \<not> list_all process_name_char name
         \<or> length (proc_arguments op) > 256
         \<or> list_ex (\<lambda>a. byte_len a > 16384 \<or> 0 \<in> set a) (proc_arguments op)
         \<or> length (proc_read_paths op) + length (proc_write_paths op) + length (proc_network_urls op) > 24)"

definition process_operations :: "tool_policy_operation \<Rightarrow> tool_policy_operation list" where
  "process_operations op =
     [Mutating, Read (proc_read_paths op @ (case proc_working_directory op of None \<Rightarrow> [] | Some d \<Rightarrow> [d]))]
     @ (if proc_write_paths op = [] then [] else [Write (proc_write_paths op) (str ''write'')])
     @ map (\<lambda>url. Web (Some url)) (proc_network_urls op)"

text \<open>
  \<open>evaluate_process\<close> up to its final call: the denial, or the compound request it evaluates.
\<close>

definition evaluate_process ::
    "agent_config \<Rightarrow> evaluate_tool_call_request \<Rightarrow> policy_evaluation + evaluate_tool_call_request" where
  "evaluate_process config request =
     (case req_operation request of
        Process executable _ _ _ _ _ \<Rightarrow>
          if process_invalid (req_operation request)
          then Inl (evaluation DDeny (str ''invalid process operation'') None None)
          else (let process = request\<lparr>req_tool_name := str ''process.'' @ process_name executable, req_aliases := []\<rparr>
                in if tool_enabled config process \<noteq> Some True
                   then Inl (evaluation DDeny (str ''enable '' @ req_tool_name process
                          @ str '' explicitly for literal subprocess execution'') None None)
                   else Inr (process\<lparr>req_operation := Compound (process_operations (req_operation request))\<rparr>))
      | _ \<Rightarrow> Inl (evaluation DDeny (str ''invalid process'') None None))"

fun is_compound :: "tool_policy_operation \<Rightarrow> bool" where
  "is_compound (Compound _) = True"
| "is_compound _ = False"

fun is_process :: "tool_policy_operation \<Rightarrow> bool" where
  "is_process (Process _ _ _ _ _ _) = True"
| "is_process _ = False"

definition compound_invalid :: "tool_policy_operation list \<Rightarrow> bool" where
  "compound_invalid ops \<longleftrightarrow> ops = [] \<or> length ops > 32 \<or> list_ex is_compound ops"

text \<open>The loop over the children: a denial ends it, the last ask is kept.\<close>

fun compound_loop :: "policy_evaluation \<Rightarrow> policy_evaluation list \<Rightarrow> policy_evaluation + policy_evaluation" where
  "compound_loop outcome [] = Inr outcome"
| "compound_loop outcome (result # results) =
     (if pe_decision result = DDeny then Inl result
      else compound_loop (if pe_decision result = DAsk then result else outcome) results)"

definition compound_outcome :: "policy_evaluation list \<Rightarrow> policy_evaluation" where
  "compound_outcome results =
     (case compound_loop (evaluation DAllow [] None None) results of
        Inl denied \<Rightarrow> denied
      | Inr outcome \<Rightarrow> outcome\<lparr>pe_matched_rule := None, pe_matches := [], pe_command_part := None,
          pe_response := (pe_response outcome)\<lparr>resp_shell := None\<rparr>\<rparr>)"

text \<open>
  Children of a compound operation are no compound operations, and a process becomes a compound
  operation without processes: \<open>op_rank\<close> bounds the recursion.
\<close>

definition op_rank :: "tool_policy_operation \<Rightarrow> nat" where
  "op_rank op = (case op of
       Process _ _ _ _ _ _ \<Rightarrow> 2
     | Compound ops \<Rightarrow> if list_ex is_process ops then 3 else 1
     | _ \<Rightarrow> 0)"

lemma op_rank_child:
  assumes "\<not> compound_invalid ops" and "op \<in> set ops"
  shows "op_rank op < op_rank (Compound ops)"
proof -
  have "\<not> is_compound op" using assms by (auto simp: compound_invalid_def list_ex_iff)
  then have op: "op_rank op = (if is_process op then 2 else 0)" by (cases op) (simp_all add: op_rank_def)
  moreover have "list_ex is_process ops" if "is_process op" using that assms(2) by (auto simp: list_ex_iff)
  ultimately show ?thesis by (simp add: op_rank_def)
qed

lemma process_operations_plain:
  "op \<in> set (process_operations p) \<Longrightarrow> \<not> is_process op \<and> \<not> is_compound op"
  by (auto simp: process_operations_def split: if_splits)

lemma op_rank_process:
  "evaluate_process config request = Inr child \<Longrightarrow> op_rank (req_operation child) < op_rank (req_operation request)"
  using process_operations_plain
  by (fastforce simp: evaluate_process_def op_rank_def Let_def list_ex_iff
      split: tool_policy_operation.splits if_splits)

function evaluate_tool_call ::
    "('re, 'g) eval_env \<Rightarrow> agent_config \<Rightarrow> evaluate_tool_call_request \<Rightarrow> ustring \<Rightarrow> policy_evaluation" where
  "evaluate_tool_call env config request cwd =
     (if is_process (req_operation request)
      then (case evaluate_process config request of
              Inl denied \<Rightarrow> denied
            | Inr child \<Rightarrow> evaluate_tool_call env config child cwd)
      else (case req_operation request of
              Compound operations \<Rightarrow>
                if compound_invalid operations
                then evaluation DDeny (str ''invalid compound operation'') None None
                else compound_outcome
                  (map (\<lambda>op. evaluate_tool_call env config (request\<lparr>req_operation := op\<rparr>) cwd) operations)
            | _ \<Rightarrow> evaluate_single env config request cwd))"
  by pat_completeness auto
termination
  by (relation "measure (\<lambda>(env, config, request, cwd). op_rank (req_operation request))")
    (auto simp: op_rank_child dest: op_rank_process)

declare evaluate_tool_call.simps [simp del]

record policy_preview =
  pv_decision :: agent_decision
  pv_matched_rule :: bool
  pv_matches :: "preview_command_match list"

definition preview_tool_call ::
    "('re, 'g) eval_env \<Rightarrow> agent_config \<Rightarrow> evaluate_tool_call_request \<Rightarrow> ustring \<Rightarrow> policy_preview" where
  "preview_tool_call env config request cwd =
     (let result = evaluate_tool_call env config request cwd
      in \<lparr>pv_decision = pe_decision result, pv_matched_rule = (pe_matched_rule result \<noteq> None),
          pv_matches = pe_matches result\<rparr>)"

section \<open>Severity\<close>

lemma decision_priority_inj: "decision_priority a = decision_priority b \<longleftrightarrow> a = b"
  by (cases a; cases b) (simp_all add: decision_priority_def)

instantiation agent_decision :: linorder
begin

definition less_eq_agent_decision :: "agent_decision \<Rightarrow> agent_decision \<Rightarrow> bool" where
  "less_eq_agent_decision a b \<longleftrightarrow> decision_priority a \<le> decision_priority b"

definition less_agent_decision :: "agent_decision \<Rightarrow> agent_decision \<Rightarrow> bool" where
  "less_agent_decision a b \<longleftrightarrow> decision_priority a < decision_priority b"

instance
  by standard (auto simp: less_eq_agent_decision_def less_agent_decision_def decision_priority_inj)

end

lemma decision_order [simp]: "DAllow \<le> d" "d \<le> DDeny"
  by (cases d; simp add: less_eq_agent_decision_def decision_priority_def)+

lemma decision_extremes: "d \<le> DAllow \<longleftrightarrow> d = DAllow" "DDeny \<le> d \<longleftrightarrow> d = DDeny"
  by (cases d; simp add: less_eq_agent_decision_def decision_priority_def)+

lemma agent_decision_of_mono: "agent_decision_of a \<le> agent_decision_of b \<longleftrightarrow> a \<le> b"
  by (simp add: less_eq_agent_decision_def less_eq_action_def decision_priority_of)

interpretation path_escalation: escalation "\<lambda>s. decision_priority (pe_decision s)"
  "\<lambda>p. decision_priority (pe_decision p)" "\<lambda>s. s" more_severe
  by unfold_locales (auto simp: more_severe_def)

interpretation view_escalation: escalation "\<lambda>s. action_precedence (ssd_action (fst s))"
  "\<lambda>p. if ssd_locator (fst p) = None then 0 else action_precedence (ssd_action (fst p))" fst "absorb_view source"
  by unfold_locales (auto simp: absorb_view_def view_replaces_def Let_def split: prod.splits if_splits)

section \<open>Files\<close>

lemma filesystem_severity:
  assumes "p \<in> set (candidate_paths request)"
  shows "pe_decision (evaluate_path glob config request (compile_path_rules glob rules) (Some p))
    \<le> pe_decision (evaluate_filesystem_path glob config request rules)"
proof -
  from assms obtain q qs where ps: "candidate_paths request = q # qs" by (cases "candidate_paths request") auto
  let ?eval = "evaluate_path glob config request (compile_path_rules glob rules)"
  have r: "evaluate_filesystem_path glob config request rules = fold more_severe (map (\<lambda>p. ?eval (Some p)) qs) (?eval (Some q))"
    using ps by (simp add: evaluate_filesystem_path_def Let_def)
  show ?thesis
  proof (cases "p = q")
    case True
    then show ?thesis
      using path_escalation.fold_rank_start[of "?eval (Some q)" "map (\<lambda>p. ?eval (Some p)) qs"]
      by (simp add: r less_eq_agent_decision_def)
  next
    case False
    with assms ps have "?eval (Some p) \<in> set (map (\<lambda>p. ?eval (Some p)) qs)" by auto
    from path_escalation.fold_rank_offer[OF this, of "?eval (Some q)"]
    show ?thesis by (simp add: r less_eq_agent_decision_def)
  qed
qed

lemma filesystem_origin:
  assumes "candidate_paths request \<noteq> []"
  shows "\<exists>p \<in> set (candidate_paths request). evaluate_filesystem_path glob config request rules
    = evaluate_path glob config request (compile_path_rules glob rules) (Some p)"
proof -
  obtain q qs where ps: "candidate_paths request = q # qs" using assms by (cases "candidate_paths request") auto
  let ?eval = "evaluate_path glob config request (compile_path_rules glob rules)"
  have r: "evaluate_filesystem_path glob config request rules = fold more_severe (map (\<lambda>p. ?eval (Some p)) qs) (?eval (Some q))"
    using ps by (simp add: evaluate_filesystem_path_def Let_def)
  have "more_severe e t = e" if "decision_priority (pe_decision t) < decision_priority (pe_decision e)" for e t
    using that by (simp add: more_severe_def)
  with path_escalation.fold_origin[of "map (\<lambda>p. ?eval (Some p)) qs" "?eval (Some q)"] show ?thesis
    by (auto simp: r ps)
qed

section \<open>Compound operations\<close>

lemma compound_loop_cases:
  "compound_loop start results =
     (case List.find (\<lambda>r. pe_decision r = DDeny) results of
        Some r \<Rightarrow> Inl r
      | None \<Rightarrow> Inr (fold (\<lambda>r o'. if pe_decision r = DAsk then r else o') results start))"
  by (induction start results rule: compound_loop.induct) (auto split: option.splits)

lemma fold_last_ask:
  "pe_decision (fold (\<lambda>r o'. if pe_decision r = DAsk then r else o') results start) =
     (if \<exists>r \<in> set results. pe_decision r = DAsk then DAsk else pe_decision start)"
  by (induction results arbitrary: start) auto

lemma compound_decision:
  "pe_decision (compound_outcome results) =
     (if \<exists>r \<in> set results. pe_decision r = DDeny then DDeny
      else if \<exists>r \<in> set results. pe_decision r = DAsk then DAsk else DAllow)"
proof (cases "List.find (\<lambda>r. pe_decision r = DDeny) results")
  case None
  then have "\<forall>r \<in> set results. pe_decision r \<noteq> DDeny" by (auto simp: find_None_iff)
  with None show ?thesis by (simp add: compound_outcome_def compound_loop_cases fold_last_ask)
next
  case (Some r)
  then have "r \<in> set results" "pe_decision r = DDeny" by (auto simp: find_Some_iff)
  with Some show ?thesis by (auto simp: compound_outcome_def compound_loop_cases)
qed

text \<open>An outcome that is no denial carries nothing that could be remembered.\<close>

lemma compound_forgets:
  assumes "pe_decision (compound_outcome results) \<noteq> DDeny"
  shows "pe_matched_rule (compound_outcome results) = None" and "pe_matches (compound_outcome results) = []"
    and "pe_command_part (compound_outcome results) = None" and "resp_shell (pe_response (compound_outcome results)) = None"
proof -
  from assms have "List.find (\<lambda>r. pe_decision r = DDeny) results = None"
    by (auto simp: compound_decision find_None_iff split: if_splits)
  then show "pe_matched_rule (compound_outcome results) = None" "pe_matches (compound_outcome results) = []"
    "pe_command_part (compound_outcome results) = None" "resp_shell (pe_response (compound_outcome results)) = None"
    by (simp_all add: compound_outcome_def compound_loop_cases)
qed

lemma tool_call_compound:
  assumes "req_operation request = Compound ops"
  shows "evaluate_tool_call env config request cwd =
    (if compound_invalid ops then evaluation DDeny (str ''invalid compound operation'') None None
     else compound_outcome (map (\<lambda>op. evaluate_tool_call env config (request\<lparr>req_operation := op\<rparr>) cwd) ops))"
  using assms by (simp add: evaluate_tool_call.simps[of env config request])

lemma tool_call_process:
  assumes "is_process (req_operation request)"
  shows "evaluate_tool_call env config request cwd =
    (case evaluate_process config request of Inl denied \<Rightarrow> denied | Inr child \<Rightarrow> evaluate_tool_call env config child cwd)"
  using assms by (simp add: evaluate_tool_call.simps[of env config request])

lemma tool_call_single:
  assumes "\<not> is_process (req_operation request)" and "\<not> is_compound (req_operation request)"
  shows "evaluate_tool_call env config request cwd = evaluate_single env config request cwd"
  using assms
  by (cases "req_operation request") (simp_all add: evaluate_tool_call.simps[of env config request])

lemma compound_child_severity:
  assumes "req_operation request = Compound ops" and "\<not> compound_invalid ops" and "op \<in> set ops"
  shows "pe_decision (evaluate_tool_call env config (request\<lparr>req_operation := op\<rparr>) cwd)
    \<le> pe_decision (evaluate_tool_call env config request cwd)"
proof -
  let ?r = "evaluate_tool_call env config (request\<lparr>req_operation := op\<rparr>) cwd"
  from assms have r: "?r \<in> set (map (\<lambda>op. evaluate_tool_call env config (request\<lparr>req_operation := op\<rparr>) cwd) ops)" by simp
  then show ?thesis
    using assms by (cases "pe_decision ?r")
      (auto simp: tool_call_compound compound_decision decision_extremes)
qed

text \<open>A denied process names no tool; an allowed one has been enabled under its own name.\<close>

lemma evaluate_process_Inl: "evaluate_process config request = Inl ev \<Longrightarrow> pe_decision ev = DDeny"
  by (auto simp: evaluate_process_def Let_def split: tool_policy_operation.splits if_splits)

lemma process_admission:
  assumes p: "is_process (req_operation request)"
    and allowed: "pe_decision (evaluate_tool_call env config request cwd) \<noteq> DDeny"
  shows "\<not> process_invalid (req_operation request)"
    and "bt_get (cfg_tools config) (str ''process.'' @ process_name (proc_executable (req_operation request))) = Some True"
    and "op \<in> set (process_operations (req_operation request)) \<Longrightarrow>
      pe_decision (evaluate_tool_call env config (request\<lparr>req_tool_name := str ''process.''
        @ process_name (proc_executable (req_operation request)), req_aliases := [], req_operation := op\<rparr>) cwd)
      \<le> pe_decision (evaluate_tool_call env config request cwd)"
proof -
  let ?op = "req_operation request" and ?name = "str ''process.'' @ process_name (proc_executable (req_operation request))"
  let ?process = "request\<lparr>req_tool_name := ?name, req_aliases := []\<rparr>"
  let ?child = "?process\<lparr>req_operation := Compound (process_operations ?op)\<rparr>"
  obtain ex ar wd rp wp nu where op: "?op = Process ex ar wd rp wp nu" using p by (cases ?op) auto
  from allowed tool_call_process[OF p, of env config cwd] evaluate_process_Inl[of config request]
  obtain child where ep: "evaluate_process config request = Inr child"
    by (cases "evaluate_process config request") auto
  with op show "\<not> process_invalid ?op" by (auto simp: evaluate_process_def Let_def split: if_splits)
  from ep op have enabled: "tool_enabled config ?process = Some True" and child: "child = ?child"
    by (auto simp: evaluate_process_def Let_def split: if_splits)
  then show "bt_get (cfg_tools config) ?name = Some True"
    by (simp add: tool_enabled_def tool_aliases_def bs_from_def split: option.splits)
  have eq: "evaluate_tool_call env config request cwd = evaluate_tool_call env config ?child cwd"
    using tool_call_process[OF p, of env config cwd] ep child by simp
  assume mem: "op \<in> set (process_operations ?op)"
  have "\<not> compound_invalid (process_operations ?op)"
  proof
    assume inv: "compound_invalid (process_operations ?op)"
    have "pe_decision (evaluate_tool_call env config ?child cwd) = DDeny"
      using tool_call_compound[of ?child "process_operations ?op" env config cwd] inv by simp
    with allowed eq show False by simp
  qed
  from compound_child_severity[of ?child, OF _ this mem, of env config cwd] eq
  show "pe_decision (evaluate_tool_call env config (?process\<lparr>req_operation := op\<rparr>) cwd)
      \<le> pe_decision (evaluate_tool_call env config request cwd)" by simp
qed

section \<open>The working directory and disabled tools\<close>

lemma disabled_tool_denied:
  assumes "tool_enabled config request = Some False" and "\<not> is_process (req_operation request)"
    and "\<not> is_compound (req_operation request)"
  shows "pe_decision (evaluate_tool_call env config request cwd) = DDeny"
  using assms by (simp add: tool_call_single evaluate_single_def)

lemma external_path_enforced:
  assumes "p \<in> set (candidate_paths request)" and "is_external_path p cwd"
  shows "agent_decision_of (perm_external_directory (cfg_permission config))
    \<le> pe_decision (evaluate_tool_call env config request cwd)"
proof (cases "perm_external_directory (cfg_permission config)")
  case Allow
  then show ?thesis by simp
next
  case Deny
  have "List.find (\<lambda>p. is_external_path p cwd) (candidate_paths request) \<noteq> None"
    using assms by (auto simp: find_None_iff)
  then obtain q where q: "external_path config request cwd = Some q"
    using Deny by (auto simp: external_path_def)
  have "\<not> is_process (req_operation request)" "\<not> is_compound (req_operation request)"
    using assms(1) by (cases "req_operation request"; simp add: candidate_paths_def)+
  with Deny q show ?thesis by (simp add: tool_call_single evaluate_single_def)
next
  case Ask
  have "List.find (\<lambda>p. is_external_path p cwd) (candidate_paths request) \<noteq> None"
    using assms by (auto simp: find_None_iff)
  then obtain q where q: "external_path config request cwd = Some q"
    using Ask by (auto simp: external_path_def)
  have "\<not> is_process (req_operation request)" "\<not> is_compound (req_operation request)"
    using assms(1) by (cases "req_operation request"; simp add: candidate_paths_def)+
  with Ask q show ?thesis
    by (simp add: tool_call_single evaluate_single_def Let_def decision_extremes)
qed

section \<open>One shell command\<close>

text \<open>A restriction view only raises the decision by a rule it can name.\<close>

lemma fold_raise_locator:
  assumes "rule_action (fst s) \<noteq> Allow \<longrightarrow> snd s \<noteq> None"
  shows "rule_action (fst (fold raise_rule ps s)) \<noteq> Allow \<longrightarrow> snd (fold raise_rule ps s) \<noteq> None"
  using assms
proof (induction ps arbitrary: s)
  case (Cons p ps)
  have "rule_action (fst (raise_rule p s)) \<noteq> Allow \<longrightarrow> snd (raise_rule p s) \<noteq> None"
    using Cons.prems by (cases p; cases s) (auto simp: raise_rule_def)
  from Cons.IH[OF this] show ?case by simp
qed simp

lemma fold_base_locator:
  assumes "fst s \<noteq> Allow \<longrightarrow> snd (snd (snd s)) \<noteq> None"
  shows "fst (fold (base_raise source) ps s) \<noteq> Allow \<longrightarrow> snd (snd (snd (fold (base_raise source) ps s))) \<noteq> None"
  using assms
proof (induction ps arbitrary: s)
  case (Cons p ps)
  have "fst (base_raise source p s) \<noteq> Allow \<longrightarrow> snd (snd (snd (base_raise source p s))) \<noteq> None"
    using Cons.prems by (cases p; cases s) (auto simp: base_raise_def)
  from Cons.IH[OF this] show ?case by simp
qed simp

lemma restriction_has_locator:
  assumes "ssd_action (fst (evaluate_subject eng cp view True si)) \<noteq> Allow"
  shows "ssd_locator (fst (evaluate_subject eng cp view True si)) \<noteq> None"
proof (cases "cp_ordered cp")
  case True
  let ?layers = "cp_layers cp" and ?classes = "subject_classes eng (cp_layers cp) view"
  let ?start = "ordered_start (ordered_winner ?layers view True ?classes) True"
  have d: "fst (evaluate_subject eng cp view True si) = evaluate_ordered_subject ?layers view True ?classes"
    using True by (simp add: evaluate_subject_def Let_def subject_classes_def)
  have "rule_action (fst ?start) \<noteq> Allow \<longrightarrow> snd ?start \<noteq> None"
    by (auto simp: ordered_start_def missing_rule_def split: option.splits)
  from fold_raise_locator[OF this, of "all_possible ?layers view ?classes"]
    ordered_decision(2,3)[OF refl, of ?layers view True ?classes] assms
  show ?thesis unfolding d by (metis fst_conv snd_conv)
next
  case False
  let ?layer = "cp_layers cp ! 0" and ?classes = "subject_classes eng (cp_layers cp) view"
  let ?st = "base_state_of ?layer view True (?classes ! 0)"
  have d: "fst (evaluate_subject eng cp view True si) = evaluate_base_subject ?layer view True ?classes"
    using False by (simp add: evaluate_subject_def Let_def subject_classes_def)
  have start: "fst (base_start w view True) \<noteq> Allow \<longrightarrow> snd (snd (snd (base_start w view True))) \<noteq> None" for w
    by (auto simp: base_start_def split: option.splits)
  have "fst (base_words ws ex src s) \<noteq> Allow \<longrightarrow> snd (snd (snd (base_words ws ex src s))) \<noteq> None"
    if "fst s \<noteq> Allow \<longrightarrow> snd (snd (snd s)) \<noteq> None" for ws :: "'a classified_words" and ex src s
    using that by (auto simp: base_words_def Let_def split: option.splits)
  from this[OF start] have "fst ?st \<noteq> Allow \<longrightarrow> snd (snd (snd ?st)) \<noteq> None"
    by (simp add: base_state_of_def)
  from fold_base_locator[OF this, of "sub_source view" "restrictions ?layer view"]
    base_decision[OF refl, of ?layer view True ?classes] assms
  show ?thesis unfolding d by (metis fst_conv snd_conv)
qed

lemma evaluate_command_facts:
  assumes "evaluate_command eng cp (si, c) = Inr (d, ms)"
  obtains subject views where "effective_command c = Inr subject" and "visit subject = Inr views"
    and "sub_candidates subject \<noteq> []"
    and "ssd_action (fst (evaluate_subject eng cp subject False si)) \<le> ssd_action d"
    and "\<And>view. view \<in> set views \<Longrightarrow> ssd_action (fst (evaluate_subject eng cp view True si)) \<le> ssd_action d"
    and "ssd_action d = ssd_action (fst (evaluate_subject eng cp subject False si)) \<or>
      (\<exists>view \<in> set views. ssd_action d = ssd_action (fst (evaluate_subject eng cp view True si)))"
proof -
  from assms obtain subject views where eff: "effective_command c = Inr subject" and vis: "visit subject = Inr views"
    and cands: "sub_candidates subject \<noteq> []"
    and fold: "fold (\<lambda>view. absorb_view (sub_source subject) (evaluate_subject eng cp view True si))
        views (evaluate_subject eng cp subject False si) = (d, ms)"
    by (auto simp: evaluate_command_def split: sum.splits if_splits)
  let ?s0 = "evaluate_subject eng cp subject False si" and ?ps = "map (\<lambda>view. evaluate_subject eng cp view True si) views"
  have fold': "fold (absorb_view (sub_source subject)) ?ps ?s0 = (d, ms)"
    using fold by (simp add: fold_map comp_def)
  have own: "ssd_action (fst ?s0) \<le> ssd_action d"
    using view_escalation.fold_rank_start[of ?s0 "sub_source subject" ?ps] by (simp add: fold' less_eq_action_def)
  have views: "ssd_action (fst (evaluate_subject eng cp view True si)) \<le> ssd_action d" if v: "view \<in> set views" for view
  proof (cases "ssd_action (fst (evaluate_subject eng cp view True si)) = Allow")
    case False
    from v have "evaluate_subject eng cp view True si \<in> set ?ps" by simp
    from view_escalation.fold_rank_offer[OF this, of "sub_source subject" ?s0] restriction_has_locator[OF False]
    show ?thesis by (simp add: fold' less_eq_action_def)
  qed simp
  have origin: "ssd_action d = ssd_action (fst ?s0) \<or>
      (\<exists>view \<in> set views. ssd_action d = ssd_action (fst (evaluate_subject eng cp view True si)))"
    using view_escalation.fold_origin[of "sub_source subject" ?ps ?s0]
    by (auto simp: fold' action_precedence_inj split: if_splits)
  show thesis by (rule that[OF eff vis cands own views origin])
qed

text \<open>
  The words of \<open>(e, a)\<close> as they are, or with the executable reduced to its base name.
\<close>

definition view_words :: "shell_word \<times> shell_word list \<Rightarrow> shell_word list \<Rightarrow> bool" where
  "view_words = (\<lambda>(e, a) ws. ws = e # a \<or>
     (\<exists>v. literal_word e = Some v \<and> basename v \<noteq> v \<and> ws = Static (basename v) (word_span e) # a))"

text \<open>
  Without ordered layers, a command is treated at least as severely as every word rule demands
  that accepts something the command, or a command it launches, can become.
\<close>

lemma base_subject_rules:
  assumes ok: "policy_ok cp" and base: "\<not> cp_ordered cp"
    and w: "w \<in> set (wrs_rules (cl_words (cp_layers cp ! 0)))"
    and ex: "expands (sub_executable s # sub_arguments s) vs" and acc: "accepts_words eng w vs"
  shows "wr_action w \<le> ssd_action (fst (evaluate_subject eng cp s ro si))"
proof -
  have len: "0 < length (cp_layers cp)" and lok: "layer_ok (cp_layers cp ! 0)" using ok by (auto simp: policy_ok_def)
  have d: "fst (evaluate_subject eng cp s ro si)
      = evaluate_base_subject (cp_layers cp ! 0) s ro (subject_classes eng (cp_layers cp) s)"
    using base by (simp add: evaluate_subject_def Let_def subject_classes_def)
  show ?thesis
    by (rule base_word_rules_respected[OF lok d _ w ex acc]) (use len in \<open>simp add: subject_classes_def\<close>)
qed

lemma launched_rules_enforced:
  assumes ok: "policy_ok cp" and base: "\<not> cp_ordered cp"
    and eval: "evaluate_command eng cp (si, c) = Inr (d, ms)" and eff: "effective_command c = Inr s"
    and launch: "rtranclp launches (sub_executable s, sub_arguments s) q" and vw: "view_words q words"
    and w: "w \<in> set (wrs_rules (cl_words (cp_layers cp ! 0)))"
    and ex: "expands words vs" and acc: "accepts_words eng w vs"
  shows "wr_action w \<le> ssd_action d"
proof -
  obtain subject views where "effective_command c = Inr subject" and vis: "visit subject = Inr views"
    and own: "ssd_action (fst (evaluate_subject eng cp subject False si)) \<le> ssd_action d"
    and views: "\<And>view. view \<in> set views \<Longrightarrow> ssd_action (fst (evaluate_subject eng cp view True si)) \<le> ssd_action d"
    by (rule evaluate_command_facts[OF eval]) blast
  with eff have s: "subject = s" by simp
  obtain e a where q: "q = (e, a)" by fastforce
  from visit_facts(1)[OF vis] launch q s have seen:
    "(e, a) \<noteq> (sub_executable s, sub_arguments s) \<longrightarrow> restriction_subject s e a False \<in> set views"
    "\<forall>v. literal_word e = Some v \<and> basename v \<noteq> v \<longrightarrow> restriction_subject s e a True \<in> set views"
    by (auto simp: chain_seen_def)
  from vw q consider "words = e # a" | v where "literal_word e = Some v" "basename v \<noteq> v"
    "words = Static (basename v) (word_span e) # a" by (auto simp: view_words_def)
  then show ?thesis
  proof cases
    case 1
    show ?thesis
    proof (cases "(e, a) = (sub_executable s, sub_arguments s)")
      case True
      with base_subject_rules[OF ok base w, of s vs eng False si] ex acc 1
      have "wr_action w \<le> ssd_action (fst (evaluate_subject eng cp s False si))" by simp
      with own s show ?thesis by (simp add: order.trans)
    next
      case False
      let ?v = "restriction_subject s e a False"
      have "sub_executable ?v = e" by (simp add: restriction_subject_def Let_def)
      with base_subject_rules[OF ok base w, of ?v vs eng True si] ex acc 1
      have "wr_action w \<le> ssd_action (fst (evaluate_subject eng cp ?v True si))" by simp
      also have "\<dots> \<le> ssd_action d" using views seen(1) False by blast
      finally show ?thesis .
    qed
  next
    case 2
    let ?v = "restriction_subject s e a True"
    have "sub_executable ?v = Static (basename v) (word_span e)"
      using 2 by (simp add: restriction_subject_def Let_def basename_def)
    with base_subject_rules[OF ok base w, of ?v vs eng True si] ex acc 2
    have "wr_action w \<le> ssd_action (fst (evaluate_subject eng cp ?v True si))" by simp
    also have "\<dots> \<le> ssd_action d" using views seen(2) 2 by blast
    finally show ?thesis .
  qed
qed

section \<open>Shell programs\<close>

lemma evaluate_analysis_Inr:
  assumes "evaluate_analysis env config an = Inr ev"
  obtains cp results redirects winner where "env_cached env config = Inr cp"
    and "traverse (evaluate_command (env_regex env) cp) (enumerated (an_commands an)) = Inr results"
    and "traverse (evaluate_redirection (env_glob env) config) (an_redirections an) = Inr redirects"
    and "last_max_key (\<lambda>r. action_precedence (ssd_action r)) (map fst results @ List.map_filter (\<lambda>r. r) redirects) = Some winner"
    and "ev = shell_outcome an (concat (map snd results)) winner"
  using assms
  by (auto simp: evaluate_analysis_def map_err_def split: sum.splits option.splits)

text \<open>The list of results is never empty.\<close>

lemma results_nonempty:
  assumes "traverse (evaluate_command eng cp) (enumerated (an_commands an)) = Inr results" and "an_commands an \<noteq> []"
  shows "last_max_key (\<lambda>r. action_precedence (ssd_action r)) (map fst results @ rs) \<noteq> None"
  using assms by (auto simp: traverse_Inr enumerated_def dest: list_all2_lengthD)

lemma evaluate_shell_denies:
  assumes "req_operation request = Command command analysis analysis_error"
    and "pe_decision (evaluate_shell env config request) \<noteq> DDeny"
  obtains source an ev where "command = Some source" "analysis = Some an" "analysis_error = None"
    and "an_schema_version an = SHELL_ANALYSIS_SCHEMA_VERSION" "an_source an = source" "an_dialect an = Posix"
    and "an_completeness an = Complete" "an_commands an \<noteq> []"
    and "evaluate_analysis env config an = Inr ev" "evaluate_shell env config request = ev"
proof -
  from assms show thesis
    by (cases command; cases analysis)
      (auto simp: evaluate_shell_def shell_fact_denied_def is_complete_def that split: if_splits sum.splits)
qed

lemma shell_outcome_decision [simp]: "pe_decision (shell_outcome an ms winner) = agent_decision_of (ssd_action winner)"
  by (simp add: shell_outcome_def shell_evaluation_def Let_def)

lemma shell_result_severity:
  assumes op: "req_operation request = Command command (Some an) analysis_error"
    and cp: "env_cached env config = Inr cp"
    and c: "i < length (an_commands an)"
  shows "\<exists>r. (evaluate_command (env_regex env) cp (i, an_commands an ! i) = r) \<and>
    (case r of Inl e \<Rightarrow> pe_decision (evaluate_shell env config request) = DDeny
     | Inr (d, ms) \<Rightarrow> agent_decision_of (ssd_action d) \<le> pe_decision (evaluate_shell env config request))"
proof (cases "pe_decision (evaluate_shell env config request) = DDeny")
  case True
  then show ?thesis by (auto simp: decision_extremes split: sum.splits)
next
  case False
  obtain ev where ev: "evaluate_analysis env config an = Inr ev" "evaluate_shell env config request = ev"
    by (rule evaluate_shell_denies[OF op False]) auto
  obtain results winner rs where
    t: "traverse (evaluate_command (env_regex env) cp) (enumerated (an_commands an)) = Inr results"
    and mx: "last_max_key (\<lambda>r. action_precedence (ssd_action r)) (map fst results @ rs) = Some winner"
    and out: "ev = shell_outcome an (concat (map snd results)) winner"
    by (rule evaluate_analysis_Inr[OF ev(1)]) (use cp in auto)
  from t have "list_all2 (\<lambda>x y. evaluate_command (env_regex env) cp x = Inr y) (enumerated (an_commands an)) results"
    by (simp add: traverse_Inr)
  with c have r: "evaluate_command (env_regex env) cp (i, an_commands an ! i) = Inr (results ! i)" "i < length results"
    by (auto simp: list_all2_conv_all_nth enumerated_def)
  from r(2) have "fst (results ! i) \<in> set (map fst results @ rs)" by auto
  with last_max_key_greatest[OF mx] have "ssd_action (fst (results ! i)) \<le> ssd_action winner"
    by (auto simp: less_eq_action_def)
  with r ev out show ?thesis
    by (cases "results ! i") (auto simp: agent_decision_of_mono)
qed

lemma shell_redirection_severity:
  assumes op: "req_operation request = Command command (Some an) analysis_error"
    and r: "redirect \<in> set (an_redirections an)"
    and e: "evaluate_redirection (env_glob env) config redirect = Inr (Some d)"
  shows "agent_decision_of (ssd_action d) \<le> pe_decision (evaluate_shell env config request)"
proof (cases "pe_decision (evaluate_shell env config request) = DDeny")
  case False
  obtain ev where ev: "evaluate_analysis env config an = Inr ev" "evaluate_shell env config request = ev"
    by (rule evaluate_shell_denies[OF op False]) auto
  obtain results winner redirects where
    t: "traverse (evaluate_redirection (env_glob env) config) (an_redirections an) = Inr redirects"
    and mx: "last_max_key (\<lambda>r. action_precedence (ssd_action r)) (map fst results @ List.map_filter (\<lambda>r. r) redirects) = Some winner"
    and out: "ev = shell_outcome an (concat (map snd results)) winner"
    by (rule evaluate_analysis_Inr[OF ev(1)]) auto
  from t have all: "list_all2 (\<lambda>x y. evaluate_redirection (env_glob env) config x = Inr y) (an_redirections an) redirects"
    by (simp add: traverse_Inr)
  from r obtain k where k: "k < length (an_redirections an)" "an_redirections an ! k = redirect"
    by (metis in_set_conv_nth)
  with all e have "redirects ! k = Some d" "k < length redirects"
    by (auto simp: list_all2_conv_all_nth)
  then have "d \<in> set (List.map_filter (\<lambda>r. r) redirects)"
    by (auto simp: set_map_filter) (metis nth_mem)
  with last_max_key_greatest[OF mx] have "ssd_action d \<le> ssd_action winner" by (auto simp: less_eq_action_def)
  with ev out show ?thesis by (simp add: agent_decision_of_mono)
qed (simp add: decision_extremes)

section \<open>From configured patterns to compiled rules\<close>

lemma accepts_words_index [simp]: "accepts_words eng (r\<lparr>wr_index := i\<rparr>) ws = accepts_words eng r ws"
  by (simp add: accepts_words_def gset_def edges_of_def)

lemma compile_words_from_rules:
  "compile_words_from eng ws rules = Inr ws' \<Longrightarrow>
     (\<exists>new. wrs_rules ws' = wrs_rules ws @ new \<and>
        list_all2 (\<lambda>(p, act) w. \<exists>r n i. parse_with_budget eng p act 0 = Inr (r, n) \<and> w = r\<lparr>wr_index := i\<rparr>) rules new)"
proof (induction eng ws rules rule: compile_words_from.induct)
  case (2 eng ws p act rules)
  from 2(2) obtain r n exe where parse: "parse_with_budget eng p act 0 = Inr (r, n)"
    and exe: "executable_of r = Some exe"
    and rest: "compile_words_from eng (add_word_rule r exe ws) rules = Inr ws'"
    by (auto split: sum.splits option.splits)
  from 2(1)[OF parse refl exe rest] obtain new where
    new: "wrs_rules ws' = wrs_rules (add_word_rule r exe ws) @ new"
      "list_all2 (\<lambda>(p, act) w. \<exists>r n i. parse_with_budget eng p act 0 = Inr (r, n) \<and> w = r\<lparr>wr_index := i\<rparr>) rules new" by blast
  with parse show ?case
    by (intro exI[of _ "r\<lparr>wr_index := length (wrs_rules ws)\<rparr> # new"]) (auto simp: add_word_rule_def Let_def)
qed simp

lemma compile_words_rules:
  assumes "compile_words eng rules = Inr ws"
  shows "list_all2 (\<lambda>(p, act) w. \<exists>r n i. parse_with_budget eng p act 0 = Inr (r, n) \<and> w = r\<lparr>wr_index := i\<rparr>)
    rules (wrs_rules ws)"
  using compile_words_from_rules[OF assms[unfolded compile_words_def]] by (auto simp: empty_word_rules_def)

lemma compile_words_has_rule:
  assumes "compile_words eng rules = Inr ws" and "(p, act) \<in> set rules"
  shows "\<exists>r n i. parse_with_budget eng p act 0 = Inr (r, n) \<and> r\<lparr>wr_index := i\<rparr> \<in> set (wrs_rules ws)"
proof -
  from assms(2) obtain k where k: "k < length rules" "rules ! k = (p, act)" by (metis in_set_conv_nth)
  note all = compile_words_rules[OF assms(1)]
  from list_all2_nthD[OF all k(1)] k(2)
  have "\<exists>r n i. parse_with_budget eng p act 0 = Inr (r, n) \<and> wrs_rules ws ! k = r\<lparr>wr_index := i\<rparr>" by simp
  moreover have "k < length (wrs_rules ws)" using k(1) list_all2_lengthD[OF all] by simp
  ultimately show ?thesis by (metis nth_mem)
qed

lemma compile_words_rule_from:
  assumes "compile_words eng rules = Inr ws" and "w \<in> set (wrs_rules ws)"
  shows "\<exists>p r n i. (p, wr_action w) \<in> set rules \<and> parse_with_budget eng p (wr_action w) 0 = Inr (r, n) \<and> w = r\<lparr>wr_index := i\<rparr>"
proof -
  from assms(2) obtain k where k: "k < length (wrs_rules ws)" "wrs_rules ws ! k = w" by (metis in_set_conv_nth)
  obtain p act where pa: "rules ! k = (p, act)" by fastforce
  note all = compile_words_rules[OF assms(1)]
  from list_all2_nthD2[OF all k(1)] k(2) pa obtain r n i where r: "k < length rules"
    "parse_with_budget eng p act 0 = Inr (r, n)" "w = r\<lparr>wr_index := i\<rparr>"
    using k(1) list_all2_lengthD[OF all] by auto
  with parse_with_budget_ok(3)[OF r(2)] have "wr_action w = act" by simp
  with r pa show ?thesis by (metis nth_mem)
qed

section \<open>What a pattern denotes\<close>

text \<open>The tokens of a pattern determine its segments.\<close>

fun is_atom :: "'re token \<Rightarrow> bool" where
  "is_atom (TAtom a) \<longleftrightarrow> True"
| "is_atom _ \<longleftrightarrow> False"

lemma atoms_unique:
  "map TAtom as @ t # x = map TAtom bs @ u # y \<Longrightarrow> \<not> is_atom t \<Longrightarrow> \<not> is_atom u \<Longrightarrow> as = bs \<and> t = u \<and> x = y"
proof (induction as arbitrary: bs)
  case Nil
  then show ?case by (cases bs) auto
next
  case (Cons a as)
  then show ?case by (cases bs) auto
qed

lemma branch_tail_hd: "\<exists>t z. branch_tail bs @ TClose # x = t # z \<and> \<not> is_atom t"
  by (cases bs) auto

lemma branch_tail_unique:
  "branch_tail bs @ TClose # x = branch_tail cs @ TClose # y \<Longrightarrow> bs = cs \<and> x = y"
proof (induction bs arbitrary: cs)
  case Nil
  then show ?case by (cases cs) auto
next
  case (Cons b bs)
  then obtain c cs' where cs: "cs = c # cs'" by (cases cs) auto
  obtain t z u v where t: "branch_tail bs @ TClose # x = t # z" "\<not> is_atom t"
    and u: "branch_tail cs' @ TClose # y = u # v" "\<not> is_atom u"
    using branch_tail_hd[of bs x] branch_tail_hd[of cs' y] by blast
  from Cons.prems cs have "map TAtom b @ branch_tail bs @ TClose # x = map TAtom c @ branch_tail cs' @ TClose # y"
    by simp
  with t u atoms_unique[of b t z c u v] have "b = c" "branch_tail bs @ TClose # x = branch_tail cs' @ TClose # y" by auto
  with Cons.IH cs show ?case by auto
qed

lemma pattern_tokens_no_star: "pattern_tokens segs \<noteq> TStar # x"
  by (cases segs; cases "hd segs") (auto simp: pattern_tokens_def)

lemma pattern_tokens_unique:
  "pattern_tokens ss = pattern_tokens ts \<Longrightarrow> list_all seg_ok ss \<Longrightarrow> list_all seg_ok ts \<Longrightarrow> ss = ts"
proof (induction ss arbitrary: ts)
  case Nil
  then show ?case by (cases ts; cases "hd ts") (auto simp: pattern_tokens_def)
next
  case (Cons s ss)
  have Cons_tokens: "pattern_tokens (q # qs) = seg_tokens q @ pattern_tokens qs" for q qs
    by (simp add: pattern_tokens_def)
  from Cons.prems(1) obtain t ts' where ts: "ts = t # ts'"
    by (cases ts; cases s) (auto simp: pattern_tokens_def)
  have eq: "seg_tokens s @ pattern_tokens ss = seg_tokens t @ pattern_tokens ts'"
    using Cons.prems(1) ts by (simp add: Cons_tokens)
  have "s = t \<and> pattern_tokens ss = pattern_tokens ts'"
  proof (cases s)
    case (SGroup bs st)
    with eq obtain cs st' where t: "t = SGroup cs st'" by (cases t) auto
    have ne: "bs \<noteq> []" "cs \<noteq> []" using Cons.prems(2,3) SGroup t ts by auto
    let ?x = "(if st then [TStar] else []) @ pattern_tokens ss"
    let ?y = "(if st' then [TStar] else []) @ pattern_tokens ts'"
    obtain p z u v where p: "branch_tail (tl bs) @ TClose # ?x = p # z" "\<not> is_atom p"
      and u: "branch_tail (tl cs) @ TClose # ?y = u # v" "\<not> is_atom u"
      using branch_tail_hd[of "tl bs" ?x] branch_tail_hd[of "tl cs" ?y] by blast
    have "map TAtom (hd bs) @ branch_tail (tl bs) @ TClose # ?x = map TAtom (hd cs) @ branch_tail (tl cs) @ TClose # ?y"
      using eq SGroup t by simp
    with p u atoms_unique[of "hd bs" p z "hd cs" u v] have "hd bs = hd cs"
      "branch_tail (tl bs) @ TClose # ?x = branch_tail (tl cs) @ TClose # ?y" by auto
    with branch_tail_unique[of "tl bs" ?x "tl cs" ?y] ne have "bs = cs" "?x = ?y"
      by (auto simp: list.expand)
    with SGroup t pattern_tokens_no_star[of ss] pattern_tokens_no_star[of ts'] show ?thesis
      by (cases st; cases st') (auto dest: sym)
  qed (use eq in \<open>cases t; auto\<close>)+
  with Cons ts show ?case by auto
qed

definition pattern_denotes :: "'re regex_engine \<Rightarrow> ustring \<Rightarrow> ustring list \<Rightarrow> bool" where
  "pattern_denotes eng pattern ws \<longleftrightarrow>
     (\<exists>segs n. tokenize eng pattern 0 = Inr (pattern_tokens segs, n) \<and> list_all seg_ok segs \<and> rest_last segs
        \<and> pattern_lang eng segs False ws)"

lemma pattern_denotes_accepts:
  assumes parse: "parse_with_budget eng p act 0 = Inr (r, n)" and d: "pattern_denotes eng p ws"
  shows "accepts_words eng r ws"
proof -
  from d obtain segs m where segs: "tokenize eng p 0 = Inr (pattern_tokens segs, m)" "list_all seg_ok segs"
    "pattern_lang eng segs False ws" by (auto simp: pattern_denotes_def)
  with parse have "parse_tokens p act (pattern_tokens segs) = Inr r"
    by (auto simp: parse_with_budget_def split: sum.splits)
  from parse_tokens_compiled(2)[OF this, of eng] obtain segs' where
    s: "pattern_tokens segs = pattern_tokens segs'" "list_all seg_ok segs'"
      "\<forall>ws. pattern_lang eng segs' False ws \<longrightarrow> accepts_words eng r ws" by blast
  from pattern_tokens_unique[OF s(1) segs(2) s(2)] s(3) segs(3) show ?thesis by simp
qed

section \<open>Configured patterns are enforced\<close>

text \<open>The environment answers like the compiler; by \<open>cached_transparent\<close> the cache does.\<close>

definition env_ok :: "('re, 'g) eval_env \<Rightarrow> agent_config \<Rightarrow> bool" where
  "env_ok env config \<longleftrightarrow> env_cached env config = compile_config (env_regex env) config"

lemma tool_call_command:
  assumes "req_operation request = Command c an err"
  shows "tool_enabled config request = Some False \<Longrightarrow> pe_decision (evaluate_tool_call env config request cwd) = DDeny"
    and "pe_decision (evaluate_shell env config request) \<le> pe_decision (evaluate_tool_call env config request cwd)"
    and "tool_enabled config request \<noteq> Some False \<Longrightarrow>
      evaluate_tool_call env config request cwd = evaluate_shell env config request"
proof -
  have "external_path config request cwd = None" using assms by (simp add: external_path_def candidate_paths_def)
  then show "tool_enabled config request = Some False \<Longrightarrow> pe_decision (evaluate_tool_call env config request cwd) = DDeny"
    and "pe_decision (evaluate_shell env config request) \<le> pe_decision (evaluate_tool_call env config request cwd)"
    and "tool_enabled config request \<noteq> Some False \<Longrightarrow>
      evaluate_tool_call env config request cwd = evaluate_shell env config request"
    using assms by (simp_all add: tool_call_single evaluate_single_def evaluate_after_path_def)
qed

lemma shell_bad_policy:
  assumes "req_operation request = Command c an err" and "env_cached env config = Inl e"
  shows "pe_decision (evaluate_shell env config request) = DDeny"
proof (rule ccontr)
  assume nd: "pe_decision (evaluate_shell env config request) \<noteq> DDeny"
  obtain an ev where "evaluate_analysis env config an = Inr ev"
    by (rule evaluate_shell_denies[OF assms(1) nd]) auto
  with assms(2) show False by (simp add: evaluate_analysis_def map_err_def)
qed

lemma configured_pattern_enforced:
  assumes env: "env_ok env config" and base: "perm_command_policy (cfg_permission config) = None"
    and rule: "(p, act) \<in> set (perm_command_patterns (cfg_permission config))"
    and op: "req_operation request = Command command (Some an) err" and i: "i < length (an_commands an)"
    and eff: "effective_command (an_commands an ! i) = Inr s"
    and launch: "rtranclp launches (sub_executable s, sub_arguments s) q" and vw: "view_words q words"
    and ex: "expands words vs" and d: "pattern_denotes (env_regex env) p vs"
  shows "agent_decision_of act \<le> pe_decision (evaluate_shell env config request)"
proof (cases "env_cached env config")
  case (Inl e)
  from shell_bad_policy[OF op Inl] show ?thesis by simp
next
  case (Inr cp)
  let ?eng = "env_regex env"
  have comp: "compile_policy ?eng (base_layer config) None = Inr cp"
    using Inr env base by (simp add: env_ok_def compile_config_def)
  note ok = compile_policy_ok[OF comp] and layers = compile_policy_layers[OF comp]
  from layers obtain cl where cl: "cp_layers cp = [cl]" "compile_words ?eng (layer_command_patterns (base_layer config)) = Inr (cl_words cl)"
    by (auto simp: policy_layers_of_def list_all2_Cons1)
  have "(p, act) \<in> set (layer_command_patterns (base_layer config))" using rule by (simp add: base_layer_def)
  from compile_words_has_rule[OF cl(2) this] obtain r n j where
    r: "parse_with_budget ?eng p act 0 = Inr (r, n)" "r\<lparr>wr_index := j\<rparr> \<in> set (wrs_rules (cl_words cl))" by blast
  have acc: "accepts_words ?eng (r\<lparr>wr_index := j\<rparr>) vs" using pattern_denotes_accepts[OF r(1) d] by simp
  have act: "wr_action (r\<lparr>wr_index := j\<rparr>) = act" using parse_with_budget_ok(3)[OF r(1)] by simp
  show ?thesis
  proof (cases "evaluate_command ?eng cp (i, an_commands an ! i)")
    case (Inl e)
    with shell_result_severity[OF op Inr i] show ?thesis by simp
  next
    case res: (Inr dm)
    obtain dd ms where dm: "dm = (dd, ms)" by fastforce
    have "r\<lparr>wr_index := j\<rparr> \<in> set (wrs_rules (cl_words (cp_layers cp ! 0)))" using r cl by simp
    from launched_rules_enforced[OF ok _ res[unfolded dm] eff launch vw this ex acc] layers(2) act
    have "act \<le> ssd_action dd" by simp
    moreover have "agent_decision_of (ssd_action dd) \<le> pe_decision (evaluate_shell env config request)"
      using shell_result_severity[OF op Inr i] res dm by simp
    ultimately show ?thesis using agent_decision_of_mono order.trans by blast
  qed
qed

section \<open>Allowed programs are justified\<close>

text \<open>An allow entry of some layer of the configuration that speaks for the subject.\<close>

definition configured_allow :: "'re regex_engine \<Rightarrow> agent_config \<Rightarrow> subject \<Rightarrow> bool" where
  "configured_allow eng config s \<longleftrightarrow>
     (\<exists>layer \<in> set (base_layer config # policy_layers_of (perm_command_policy (cfg_permission config))).
        (\<exists>p c. (p, Allow) \<in> set (layer_command layer) \<and> c \<in> set (sub_candidates s) \<and> glob_matches p c) \<or>
        (\<exists>p r n. (p, Allow) \<in> set (layer_command_patterns layer) \<and> parse_with_budget eng p Allow 0 = Inr (r, n) \<and>
           (\<forall>vs. expands (sub_executable s # sub_arguments s) vs \<longrightarrow> accepts_words eng r vs)))"

lemma allow_reason_configured:
  assumes comp: "compile_config eng config = Inr cp" and cl: "cl \<in> set (cp_layers cp)"
    and reason: "allow_reason eng cl s r"
  shows "configured_allow eng config s"
proof -
  note all = compile_policy_layers(1)[OF comp[unfolded compile_config_def]]
  from cl obtain k where k: "k < length (cp_layers cp)" "cp_layers cp ! k = cl" by (metis in_set_conv_nth)
  define layer where "layer = (base_layer config # policy_layers_of (perm_command_policy (cfg_permission config))) ! k"
  from list_all2_nthD2[OF all k(1)] k(2) have legacy: "cl_legacy cl = map mk_rule (layer_command layer)"
    and words: "compile_words eng (layer_command_patterns layer) = Inr (cl_words cl)" by (simp_all add: layer_def)
  have "k < length (base_layer config # policy_layers_of (perm_command_policy (cfg_permission config)))"
    using k(1) list_all2_lengthD[OF all] by simp
  then have layer: "layer \<in> set (base_layer config # policy_layers_of (perm_command_policy (cfg_permission config)))"
    unfolding layer_def by (rule nth_mem)
  from reason consider "r \<in> set (cl_legacy cl)" "rule_action r = Allow" "\<exists>c \<in> set (sub_candidates s). glob_matches (rule_pattern r) c"
    | w where "w \<in> set (wrs_rules (cl_words cl))" "wr_action w = Allow"
      "\<forall>vs. expands (sub_executable s # sub_arguments s) vs \<longrightarrow> accepts_words eng w vs"
    by (auto simp: allow_reason_def)
  then show ?thesis
  proof cases
    case 1
    with legacy obtain p where "(p, Allow) \<in> set (layer_command layer)" "rule_pattern r = p"
      by (auto simp: mk_rule_def)
    with 1 layer show ?thesis unfolding configured_allow_def by blast
  next
    case 2
    with compile_words_rule_from[OF words 2(1)] obtain p q n i where
      p: "(p, Allow) \<in> set (layer_command_patterns layer)" "parse_with_budget eng p Allow 0 = Inr (q, n)"
      and w: "w = q\<lparr>wr_index := i\<rparr>" by auto
    from 2(3) w have "\<forall>vs. expands (sub_executable s # sub_arguments s) vs \<longrightarrow> accepts_words eng q vs" by simp
    with p layer show ?thesis unfolding configured_allow_def by blast
  qed
qed

lemma shell_allow_justified:
  assumes env: "env_ok env config" and op: "req_operation request = Command command analysis err"
    and allow: "pe_decision (evaluate_shell env config request) = DAllow"
  shows "\<exists>an. analysis = Some an \<and> command = Some (an_source an) \<and> err = None \<and> an_completeness an = Complete \<and>
    an_commands an \<noteq> [] \<and>
    (\<forall>c \<in> set (an_commands an). \<exists>s. effective_command c = Inr s \<and> configured_allow (env_regex env) config s)"
proof -
  from allow have nd: "pe_decision (evaluate_shell env config request) \<noteq> DDeny" by simp
  obtain an ev where an: "analysis = Some an" "command = Some (an_source an)" "err = None" "an_completeness an = Complete"
    "an_commands an \<noteq> []" and ev: "evaluate_analysis env config an = Inr ev"
    by (rule evaluate_shell_denies[OF op nd]) auto
  obtain cp where cp: "env_cached env config = Inr cp" by (rule evaluate_analysis_Inr[OF ev])
  with env have comp: "compile_config (env_regex env) config = Inr cp" by (simp add: env_ok_def)
  have pok: "policy_ok cp" using compile_policy_ok comp by (auto simp: compile_config_def)
  have "\<exists>s. effective_command c = Inr s \<and> configured_allow (env_regex env) config s" if "c \<in> set (an_commands an)" for c
  proof -
    from that obtain i where i: "i < length (an_commands an)" "an_commands an ! i = c" by (metis in_set_conv_nth)
    have op': "req_operation request = Command command (Some an) err" using op an by simp
    from shell_result_severity[OF op' cp i(1)] allow obtain d ms where
      res: "evaluate_command (env_regex env) cp (i, c) = Inr (d, ms)" and "agent_decision_of (ssd_action d) \<le> DAllow"
      using i(2) by (auto split: sum.splits)
    then have d: "ssd_action d = Allow" by (cases "ssd_action d") (auto simp: decision_extremes)
    obtain s where s: "effective_command c = Inr s"
      and own: "ssd_action (fst (evaluate_subject (env_regex env) cp s False i)) \<le> ssd_action d"
      by (rule evaluate_command_facts[OF res]) blast
    with d have "ssd_action (fst (evaluate_subject (env_regex env) cp s False i)) = Allow"
      by (simp add: action_le_Allow)
    from evaluate_subject_allow[OF pok this] allow_reason_configured[OF comp] s show ?thesis by blast
  qed
  with an show ?thesis by blast
qed

section \<open>The plan agent\<close>

lemma plan_agent_denies:
  assumes "req_operation request = Mutating \<or> (\<exists>paths category. req_operation request = Write paths category)"
  shows "pe_decision (evaluate_tool_call env plan_agent_config request cwd) = DDeny"
proof -
  have find: "find_map (bt_get []) xs = None" for xs :: "ustring list"
    by (induction xs) (simp_all add: bt_get_def)
  have en: "tool_enabled plan_agent_config request = None"
    by (simp add: tool_enabled_def plan_agent_config_def find)
  have ext: "external_path plan_agent_config request cwd = None"
    by (simp add: external_path_def plan_agent_config_def)
  have fb: "pe_decision (evaluate_mutating_fallback plan_agent_config request) = DDeny"
    by (simp add: evaluate_mutating_fallback_def en)
  have path: "pe_decision (evaluate_path glob plan_agent_config request [] p) = DDeny"
    if "\<exists>paths category. req_operation request = Write paths category" for p and glob :: "'g glob_engine"
    using that fb by (auto simp: evaluate_path_def matching_path_rule_def split: option.splits)
  have rules: "compile_path_rules glob (write_path_rules plan_agent_config c) = []" for c and glob :: "'g glob_engine"
    by (simp add: write_path_rules_def plan_agent_config_def default_permission_config_def compile_path_rules_def List.map_filter_def)
  have fs: "pe_decision (evaluate_filesystem_path glob plan_agent_config request (write_path_rules plan_agent_config c)) = DDeny"
    if "\<exists>paths category. req_operation request = Write paths category" for c and glob :: "'g glob_engine"
  proof (cases "candidate_paths request")
    case Nil
    with path[OF that] show ?thesis by (simp add: evaluate_filesystem_path_def rules)
  next
    case (Cons p ps)
    then have "candidate_paths request \<noteq> []" by simp
    from filesystem_origin[OF this] path[OF that] rules show ?thesis by metis
  qed
  have "evaluate_tool_call env plan_agent_config request cwd = evaluate_after_path env plan_agent_config request"
    using assms by (subst tool_call_single) (auto simp: evaluate_single_def en ext)
  with assms fb fs show ?thesis by (auto simp: evaluate_after_path_def)
qed

end
