(* ===== verification/Runtime_Models.thy ===== *)
theory Runtime_Models
  imports Policy_Models
begin

text \<open>
  The data of the agent runtime (\<open>packages/agent-runtime/src/lib.rs\<close>,
  \<open>packages/tool/src/contracts.rs\<close>, \<open>packages/model/src/lib.rs\<close>): errors, tools, tool calls and
  results, token usage and the normalized event stream.

  \<open>'json\<close> is the type of JSON values; \<open>'data\<close> the type of payloads the runtime only passes
  on (structured tool results, output positions, reasoning activity, pricing details).
  A \<open>Duration\<close> is a number of nanoseconds, \<open>usize\<close> a natural number.
\<close>

type_synonym u64 = "64 word"
type_synonym duration = nat

section \<open>Errors\<close>

datatype provider_error_category =
    ConfigError | AuthError | RateLimitError | NetworkError | TimeoutError | ModelNotFoundError
  | ContextLengthError | InvalidRequestError | UnsupportedFeatureError | ProviderInternalError
  | OverloadedError | CancelledError

datatype provider_failure_capability =
    Authentication | Configuration | ModelDiscovery | ModelInvocation | ModelVerification
  | TokenRefresh | CredentialStorage

datatype provider_failure_source_kind =
    FromEnvironment | FromAuthProfile | FromModelProfile | FromConfigKey | FromCredential
  | FromCredentialStore | FromProviderResponse | FromRuntime

record provider_failure_context =
  pf_provider_id :: ustring
  pf_source_kind :: provider_failure_source_kind
  pf_source :: ustring
  pf_capability :: provider_failure_capability
  pf_remediation :: ustring

definition is_actionable :: "provider_failure_context \<Rightarrow> bool" where
  "is_actionable f \<longleftrightarrow> \<not> is_blank (pf_provider_id f) \<and> \<not> is_blank (pf_source f)
     \<and> \<not> is_blank (pf_remediation f)"

record provider_error_source =
  pes_source :: ustring
  pes_code :: "ustring option"
  pes_message :: "ustring option"

record provider_retry_hint =
  retry_after_ms :: "u64 option"
  retry_at_unix :: "u64 option"
  retry_source :: "ustring option"

record provider_error =
  perr_code :: ustring
  perr_category :: provider_error_category
  perr_message :: ustring
  perr_retryable :: bool
  perr_provider_message :: "ustring option"
  perr_failure :: "provider_failure_context option"
  perr_request_id :: "ustring option"
  perr_diagnostic_context :: "(ustring, ustring) btree"
  perr_sources :: "provider_error_source list"
  perr_retry :: "provider_retry_hint option"

datatype runtime_error =
    ProviderInvocation ustring
  | ProviderExecutionUnverified ustring
  | ProviderReported ustring ustring provider_error
  | ProviderAfterOutput runtime_error
  | ToolEffectsUnresolved
  | TurnCancelled
  | TurnTimeout duration
  | StreamBufferFull nat
  | EmptyProviderToolRound
  | MalformedProviderToolCall nat ustring
  | RepeatedToolCallBatch u32 u32
  | HostExtension ustring
  | ToolNotFound ustring
  | ToolExecution ustring ustring
  | PermissionRequired ustring
  | PermissionDenied ustring
  | MaxToolRounds u32
  | InvalidBatchResponse ustring nat nat
  | InvalidToolHostContext ustring
  | ToolPreparation ustring ustring
  | ToolPreparationTimeout ustring duration

text \<open>The \<open>Display\<close> texts; \<open>show_duration\<close> is the standard library's \<open>Debug\<close> of a duration.\<close>

primrec show_error :: "(duration \<Rightarrow> ustring) \<Rightarrow> runtime_error \<Rightarrow> ustring" where
  "show_error sd (ProviderInvocation m) = str ''provider invocation failed: '' @ m"
| "show_error sd (ProviderExecutionUnverified m) = str ''provider execution is unverified: '' @ m"
| "show_error sd (ProviderReported code m e) = str ''provider error '' @ code @ str '': '' @ m"
| "show_error sd (ProviderAfterOutput e) = str ''provider failed after visible output: '' @ show_error sd e"
| "show_error sd ToolEffectsUnresolved =
     str ''tool invocation effects are unresolved; inspect affected resources before retrying''"
| "show_error sd TurnCancelled = str ''agent turn cancelled''"
| "show_error sd (TurnTimeout t) = str ''agent turn timed out after '' @ sd t"
| "show_error sd (StreamBufferFull n) =
     str ''agent stream buffer reached its capacity of '' @ show_nat n @ str '' items''"
| "show_error sd EmptyProviderToolRound =
     str ''provider finished with tool_call but emitted no completed tool calls''"
| "show_error sd (MalformedProviderToolCall i m) =
     str ''provider emitted malformed tool call at index '' @ show_nat i @ str '': '' @ m"
| "show_error sd (RepeatedToolCallBatch n l) =
     str ''provider repeated an identical tool-call batch '' @ show_nat (unat n)
       @ str '' times; limit is '' @ show_nat (unat l)"
| "show_error sd (HostExtension m) = str ''host extension failed: '' @ m"
| "show_error sd (ToolNotFound n) = str ''tool not found: '' @ n"
| "show_error sd (ToolExecution n m) = str ''tool execution failed for '' @ n @ str '': '' @ m"
| "show_error sd (PermissionRequired r) = str ''tool execution requires permission: '' @ r"
| "show_error sd (PermissionDenied r) = str ''tool execution denied: '' @ r"
| "show_error sd (MaxToolRounds n) = str ''maximum tool rounds reached: '' @ show_nat (unat n)"
| "show_error sd (InvalidBatchResponse c n m) =
     str ''invalid '' @ c @ str '' batch response: expected '' @ show_nat n
       @ str '' decisions, received '' @ show_nat m"
| "show_error sd (InvalidToolHostContext m) = str ''invalid tool host context: '' @ m"
| "show_error sd (ToolPreparation n m) = str ''tool preparation failed for '' @ n @ str '': '' @ m"
| "show_error sd (ToolPreparationTimeout n t) =
     str ''tool preparation timed out for '' @ n @ str '' after '' @ sd t"

section \<open>Tools, calls and results\<close>

record 'json tool_call =
  call_id :: ustring
  call_name :: ustring
  call_arguments :: 'json

datatype tool_source = Inline | Plugin ustring

record 'json registered_tool =
  tool_definition :: "'json tool_definition"
  tool_source :: tool_source

definition inline_tool :: "'json tool_definition \<Rightarrow> 'json registered_tool" where
  "inline_tool d = \<lparr>tool_definition = d, tool_source = Inline\<rparr>"

definition plugin_tool :: "'json tool_definition \<Rightarrow> ustring \<Rightarrow> 'json registered_tool" where
  "plugin_tool d plugin_id = \<lparr>tool_definition = d, tool_source = Plugin plugin_id\<rparr>"

record image_metadata =
  img_width :: "u32 option"
  img_height :: "u32 option"
  img_byte_len :: "u64 option"
  img_source_path :: "ustring option"

record image_content =
  image_mime_type :: ustring
  image_data_base64 :: ustring
  image_meta :: image_metadata

record image_ref_content =
  ref_path :: ustring
  ref_mime_type :: ustring
  ref_artifact_id :: "ustring option"
  ref_reference_key :: "ustring option"
  ref_meta :: image_metadata

text \<open>
  The tool crate and the model crate declare this type with the same fields;
  \<open>model_tool_result_content\<close> copies one into the other field by field.
\<close>

datatype tool_result_content =
    TextContent ustring
  | ImageItem image_content
  | ImageRef image_ref_content

record tool_result =
  res_call_id :: ustring
  res_output :: ustring
  res_is_error :: bool
  res_content :: "tool_result_content list"

record 'data tool_invocation_response =
  inv_output :: ustring
  inv_is_error :: bool
  inv_content :: "tool_result_content list"
  inv_full_output :: "ustring option"
  inv_result :: "'data option"

record 'json tool_invocation_descriptor =
  desc_invocation_id :: ustring
  desc_tool_name :: ustring
  desc_arguments :: 'json

record 'json tool_host_context_entry =
  host_schema :: ustring
  host_schema_version :: u32
  host_payload :: 'json

record 'json tool_preparation_request =
  preq_invocation :: "'json tool_invocation_descriptor"
  preq_host_context :: "'json tool_host_context_entry list"

record 'json prepared_tool_invocation =
  pti_invocation :: "'json tool_invocation_descriptor"
  pti_preparation :: "'json tool_preparation_response"

record tool_execution_options =
  opt_parallel :: bool
  opt_max_concurrency :: "nat option"
  opt_preparation_timeout_ms :: u64

definition default_execution_options :: tool_execution_options where
  "default_execution_options = \<lparr>opt_parallel = True, opt_max_concurrency = None,
     opt_preparation_timeout_ms = 30000\<rparr>"

section \<open>Permission exchange\<close>

datatype permission_decision = PermitAllow | PermitAsk ustring | PermitDeny ustring

datatype authorization_decision = AuthAllow | AuthAsk ustring | AuthDeny ustring

record runtime_permission_context =
  pctx_session_id :: session_id
  pctx_agent_id :: ustring

definition default_permission_context :: "session_id \<Rightarrow> runtime_permission_context" where
  "default_permission_context sid = \<lparr>pctx_session_id = sid, pctx_agent_id = str ''build''\<rparr>"

record 'json runtime_permission_request =
  rpr_context :: runtime_permission_context
  rpr_call :: "'json tool_call"
  rpr_tool :: "'json registered_tool"
  rpr_facts :: "'json tool_authorization_fact list"

record 'json authorization_request =
  areq_index :: nat
  areq_call :: "'json tool_call"
  areq_tool :: "'json registered_tool"
  areq_facts :: "'json tool_authorization_fact list"
  areq_context :: runtime_permission_context

section \<open>Token usage and events\<close>

text \<open>A \<open>pricing_context\<close> of \<open>None\<close> is the default of the struct.\<close>

record 'data token_usage =
  input_tokens :: "u32 option"
  output_tokens :: "u32 option"
  total_tokens :: "u32 option"
  cached_input_tokens :: "u32 option"
  cache_write_input_tokens :: "u32 option"
  usage_details :: "'data list"
  pricing_context :: "'data option"
  reasoning_tokens :: "u32 option"

definition saturating_add32 :: "u32 \<Rightarrow> u32 \<Rightarrow> u32" where
  "saturating_add32 a b = (if unat a + unat b < 2 ^ 32 then a + b else - 1)"

definition metered_total_tokens :: "'data token_usage \<Rightarrow> u32 option" where
  "metered_total_tokens u =
     (case total_tokens u of
        Some t \<Rightarrow> Some t
      | None \<Rightarrow>
          (let input = (case input_tokens u of Some n \<Rightarrow> n | None \<Rightarrow> 0);
               output = (case output_tokens u of Some n \<Rightarrow> n | None \<Rightarrow> 0)
           in if input_tokens u \<noteq> None \<or> output_tokens u \<noteq> None
              then Some (saturating_add32 input output) else None))"

definition uncached_input_tokens :: "'data token_usage \<Rightarrow> u32 option" where
  "uncached_input_tokens u = map_option (\<lambda>input.
     saturating_sub (saturating_sub input (case cached_input_tokens u of Some n \<Rightarrow> n | None \<Rightarrow> 0))
       (case cache_write_input_tokens u of Some n \<Rightarrow> n | None \<Rightarrow> 0)) (input_tokens u)"

datatype stop_reason =
    EndTurn | StopToolCall | MaxTokens | StopSequence | Refusal | StopCancelled | StopError

datatype ('json, 'data) provider_output_event =
    OutputText ustring
  | OutputReasoning 'data
  | OutputToolStarted ustring ustring
  | OutputToolDelta ustring ustring
  | OutputToolFinished "'json tool_call"

datatype ('json, 'data) agent_runtime_event =
    TurnStarted
  | Output 'data "('json, 'data) provider_output_event"
  | TextDelta ustring
  | StructuredOutputFinalizationStarted
  | ReasoningDelta ustring
  | ReasoningActivity 'data
  | ToolCallStarted ustring ustring
  | ToolCallDelta ustring ustring
  | ToolCallFinished "'json tool_call"
  | ToolResult tool_result
  | Usage "'data token_usage"
  | ExactRequestInputTokens u64
  | RequestProjection 'data
  | ContextCompacted
  | ProviderMetadata ustring ustring
  | RetryScheduled ustring u64
  | Warning ustring
  | ProviderErrorEvent ustring ustring
  | FinishedEvent stop_reason "'data token_usage option" u64
  | CancelledEvent

record tool_result_transform =
  redaction_count :: nat
  truncated_text_fields :: nat
  omitted_content_items :: nat
  omitted_reference_fields :: nat
  omitted_binary_fields :: nat

definition no_transform :: tool_result_transform where
  "no_transform = \<lparr>redaction_count = 0, truncated_text_fields = 0, omitted_content_items = 0,
     omitted_reference_fields = 0, omitted_binary_fields = 0\<rparr>"

record ('json, 'data) tool_execution_output =
  out_model_result :: tool_result
  out_invocation :: "'data tool_invocation_response"
  out_model_transform :: tool_result_transform
  out_events :: "('json, 'data) agent_runtime_event list"

section \<open>Facts\<close>

lemma unat_saturating_add32: "unat (saturating_add32 a b) = min (unat a + unat b) (2 ^ 32 - 1)"
proof (cases "unat a + unat b < 2 ^ 32")
  case True
  then show ?thesis by (simp add: saturating_add32_def unat_word_ariths)
next
  case False
  moreover have "unat (- 1 :: u32) = 2 ^ 32 - 1" by (simp add: unsigned_minus_1_eq_mask mask_eq_exp_minus_1)
  ultimately show ?thesis by (simp add: saturating_add32_def)
qed

lemma unat_saturating_sub: "unat (saturating_sub a b) = unat a - unat b"
  by (auto simp: saturating_sub_def unat_sub word_le_nat_alt)

lemma uncached_bound:
  assumes "input_tokens u = Some n" "uncached_input_tokens u = Some m"
  shows "unat m \<le> unat n"
  using assms by (auto simp: uncached_input_tokens_def unat_saturating_sub)

end
