(* ===== verification/Permissions.thy ===== *)
theory Permissions
  imports Policy_Eval Runtime_Models
begin

text \<open>
  The adapter between the runtime's permission hook and the policy evaluator
  (\<open>packages/agent-permissions/src/lib.rs\<close>) and the batch adapter of the runtime
  (\<open>authorize_with_permission_policy\<close>, \<open>packages/agent-runtime/src/lib.rs\<close>). An ask callback
  is a function of the request and the evaluation; paths are their UTF-8 text.
\<close>

record 'json agent_permission_policy =
  app_config :: agent_config
  app_cwd :: ustring
  app_ask_callback :: "('json runtime_permission_request \<Rightarrow> evaluate_tool_call_response
                          \<Rightarrow> permission_decision) option"

definition policy_new :: "agent_config \<Rightarrow> 'json agent_permission_policy" where
  "policy_new config = \<lparr>app_config = config, app_cwd = str ''.'', app_ask_callback = None\<rparr>"

definition from_permission_config ::
    "agent_permission_config \<Rightarrow> ustring \<Rightarrow> 'json agent_permission_policy" where
  "from_permission_config config agent_id = policy_new (agent_config_of config agent_id)"

definition with_working_directory ::
    "'json agent_permission_policy \<Rightarrow> ustring \<Rightarrow> 'json agent_permission_policy" where
  "with_working_directory policy cwd = policy\<lparr>app_cwd := cwd\<rparr>"

definition with_ask_callback where
  "with_ask_callback policy callback = policy\<lparr>app_ask_callback := callback\<rparr>"

definition runtime_decision ::
    "'json agent_permission_policy \<Rightarrow> 'json runtime_permission_request \<Rightarrow> evaluate_tool_call_response
       \<Rightarrow> permission_decision" where
  "runtime_decision policy request response =
     (case resp_decision response of
        DAllow \<Rightarrow> PermitAllow
      | DDeny \<Rightarrow> PermitDeny (case resp_reason response of Some r \<Rightarrow> r
                  | None \<Rightarrow> str ''tool call denied by agent policy'')
      | DAsk \<Rightarrow> (case app_ask_callback policy of
                  Some callback \<Rightarrow> callback request response
                | None \<Rightarrow> PermitAsk (case resp_reason response of Some r \<Rightarrow> r
                    | None \<Rightarrow> str ''tool call requires permission but no ask handler is configured'')))"

definition runtime_permission_request_to_profile_request ::
    "('json \<Rightarrow> ustring + tool_policy_authorization_metadata) \<Rightarrow> 'json runtime_permission_request
       \<Rightarrow> ustring \<Rightarrow> runtime_error + evaluate_tool_call_request" where
  "runtime_permission_request_to_profile_request from_json request cwd =
     (case map_err HostExtension
             (tool_policy_authorization_metadata_of from_json (rpr_facts request) (call_name (rpr_call request))) of
        Inl e \<Rightarrow> Inl e
      | Inr metadata \<Rightarrow> Inr \<lparr>
          req_session_id = pctx_session_id (rpr_context request),
          req_agent_id = pctx_agent_id (rpr_context request),
          req_tool_name = call_name (rpr_call request),
          req_operation = meta_operation metadata,
          req_aliases = call_name (rpr_call request)
            # (case meta_permission_category metadata of None \<Rightarrow> [] | Some c \<Rightarrow> [c])
            @ meta_aliases metadata,
          req_requires_permission = meta_requires_permission metadata,
          req_policy_profile = None,
          req_cwd = Some cwd,
          req_effective_config_toml = None\<rparr>)"

definition evaluate_profile_tool_call ::
    "('re, 'g) eval_env \<Rightarrow> agent_config \<Rightarrow> evaluate_tool_call_request \<Rightarrow> ustring
       \<Rightarrow> evaluate_tool_call_response" where
  "evaluate_profile_tool_call env config request cwd = pe_response (evaluate_tool_call env config request cwd)"

definition permission_policy_evaluate ::
    "('re, 'g) eval_env \<Rightarrow> ('json \<Rightarrow> ustring + tool_policy_authorization_metadata)
       \<Rightarrow> 'json agent_permission_policy \<Rightarrow> 'json runtime_permission_request
       \<Rightarrow> runtime_error + permission_decision" where
  "permission_policy_evaluate env from_json policy request =
     (case runtime_permission_request_to_profile_request from_json request (app_cwd policy) of
        Inl e \<Rightarrow> Inl e
      | Inr profile \<Rightarrow> Inr (runtime_decision policy request
          (evaluate_profile_tool_call env (app_config policy) profile (app_cwd policy))))"

definition allow_all_config :: agent_config where
  "allow_all_config = default_agent_config\<lparr>cfg_permission := \<lparr>
     perm_tools = [], perm_command = bt_from [(str ''*'', Allow)], perm_command_patterns = [],
     perm_command_policy = None, perm_read = bt_from [(str ''*'', Allow)],
     perm_write = bt_from [(str ''*'', Allow)], perm_edit = bt_from [(str ''*'', Allow)],
     perm_web = bt_from [(str ''*'', Allow)], perm_external_directory = Allow\<rparr>\<rparr>"

definition allow_all_agent_policy :: "'json agent_permission_policy" where
  "allow_all_agent_policy = policy_new allow_all_config"

section \<open>The batch adapter of the runtime\<close>

definition authorization_of :: "permission_decision \<Rightarrow> authorization_decision" where
  "authorization_of d = (case d of PermitAllow \<Rightarrow> AuthAllow | PermitAsk r \<Rightarrow> AuthAsk r | PermitDeny r \<Rightarrow> AuthDeny r)"

definition permission_request_of :: "'json authorization_request \<Rightarrow> 'json runtime_permission_request" where
  "permission_request_of r = \<lparr>rpr_context = areq_context r, rpr_call = areq_call r,
     rpr_tool = areq_tool r, rpr_facts = areq_facts r\<rparr>"

definition authorize_with_permission_policy ::
    "('json runtime_permission_request \<Rightarrow> runtime_error + permission_decision)
       \<Rightarrow> 'json authorization_request list \<Rightarrow> runtime_error + authorization_decision list" where
  "authorize_with_permission_policy evaluate requests =
     traverse (\<lambda>r. case evaluate (permission_request_of r) of
        Inl e \<Rightarrow> Inl e | Inr d \<Rightarrow> Inr (authorization_of d)) requests"

section \<open>Facts\<close>

lemma profile_request_facts:
  assumes "runtime_permission_request_to_profile_request from_json request cwd = Inr profile"
  obtains m where
    "tool_policy_authorization_metadata_of from_json (rpr_facts request) (call_name (rpr_call request)) = Inr m"
    "req_operation profile = meta_operation m" "req_tool_name profile = call_name (rpr_call request)"
    "req_agent_id profile = pctx_agent_id (rpr_context request)"
  using assms
  by (auto simp: runtime_permission_request_to_profile_request_def map_err_def split: sum.splits)

lemma permission_policy_Inr:
  assumes "permission_policy_evaluate env from_json policy request = Inr d"
  obtains profile where
    "runtime_permission_request_to_profile_request from_json request (app_cwd policy) = Inr profile"
    "d = runtime_decision policy request
       (pe_response (evaluate_tool_call env (app_config policy) profile (app_cwd policy)))"
  using assms
  by (auto simp: permission_policy_evaluate_def evaluate_profile_tool_call_def split: sum.splits)

lemma runtime_decision_permits:
  "runtime_decision policy request ev = PermitAllow \<longleftrightarrow>
     resp_decision ev = DAllow \<or>
     resp_decision ev = DAsk \<and> (\<exists>f. app_ask_callback policy = Some f \<and> f request ev = PermitAllow)"
  by (cases "resp_decision ev") (auto simp: runtime_decision_def split: option.splits)

lemma runtime_decision_denies:
  "resp_decision ev = DDeny \<Longrightarrow> \<exists>r. runtime_decision policy request ev = PermitDeny r"
  by (simp add: runtime_decision_def)

lemma authorize_one_per_request:
  assumes "authorize_with_permission_policy evaluate requests = Inr ds"
  shows "list_all2 (\<lambda>r d. \<exists>p. evaluate (permission_request_of r) = Inr p \<and> d = authorization_of p) requests ds"
  using assms unfolding authorize_with_permission_policy_def traverse_Inr
  by (auto elim!: list_all2_mono split: sum.splits)

lemma authorization_of_Allow [simp]: "authorization_of d = AuthAllow \<longleftrightarrow> d = PermitAllow"
  by (cases d) (simp_all add: authorization_of_def)

text \<open>
  The policy that is meant to allow everything enables no tool by name: it denies every mutating
  operation.
\<close>

lemma allow_all_tools: "tool_enabled allow_all_config request = None"
proof -
  have "find_map (bt_get []) xs = None" for xs :: "ustring list"
    by (induction xs) (simp_all add: bt_get_def)
  then show ?thesis
    by (simp add: tool_enabled_def allow_all_config_def default_agent_config_def)
qed

lemma allow_all_denies_mutating:
  assumes "req_operation request = Mutating"
  shows "pe_decision (evaluate_tool_call env allow_all_config request cwd) = DDeny"
proof -
  have "evaluate_tool_call env allow_all_config request cwd
      = evaluate_single env allow_all_config request cwd"
    by (subst evaluate_tool_call.simps) (simp add: assms)
  moreover have "external_path allow_all_config request cwd = None"
    by (simp add: external_path_def allow_all_config_def)
  ultimately show ?thesis
    by (simp add: evaluate_single_def allow_all_tools evaluate_after_path_def assms evaluate_mutating_fallback_def)
qed

end
