(* ===== verification/Samples.thy ===== *)
theory Samples
  imports Permissions
begin

text \<open>
  Small concrete values for the witnesses of the root theory: matchers that accept no regular
  expression and only literal paths, shell words and commands, and a few configurations.
\<close>

definition no_regex :: "unit regex_engine" where
  "no_regex = \<lparr>re_build = \<lambda>_ _. Inl (str ''no regular expressions''), re_is_match = \<lambda>_ _. False\<rparr>"

definition literal_glob :: "ustring glob_engine" where
  "literal_glob = \<lparr>glob_build = Some, glob_is_match = (=)\<rparr>"

definition sample_span :: source_span where
  "sample_span = \<lparr>span_start = 0, span_end = 8\<rparr>"

definition sw :: "string \<Rightarrow> shell_word" where
  "sw s = Static (str s) sample_span"

definition sample_context :: shell_command_context where
  "sample_context = \<lparr>ctx_pipeline = None, ctx_conditional = False, ctx_background = False,
     ctx_loop_depth = 0, ctx_substitution_depth = 0\<rparr>"

definition sample_command :: "string \<Rightarrow> shell_word \<Rightarrow> shell_word list \<Rightarrow> shell_command" where
  "sample_command source exe args = \<lparr>cmd_id = 0, cmd_parent_id = None, cmd_relation = RootCommand,
     cmd_span = sample_span, cmd_source = str source, cmd_executable = exe, cmd_arguments = args,
     cmd_assignments = [], cmd_context = sample_context,
     cmd_match_candidates = [\<lparr>cand_subject = str source, cand_kind = OriginalCandidate,
       cand_transformation = None\<rparr>]\<rparr>"

definition sample_analysis :: "string \<Rightarrow> shell_command list \<Rightarrow> shell_redirection list \<Rightarrow> shell_analysis" where
  "sample_analysis source commands redirections = \<lparr>an_schema_version = SHELL_ANALYSIS_SCHEMA_VERSION,
     an_dialect = Posix, an_source = str source, an_commands = commands,
     an_redirections = redirections, an_completeness = Complete, an_diagnostics = []\<rparr>"

definition sample_request :: "string \<Rightarrow> tool_policy_operation \<Rightarrow> evaluate_tool_call_request" where
  "sample_request name operation = \<lparr>req_session_id = 0, req_agent_id = str ''build'',
     req_tool_name = str name, req_operation = operation, req_aliases = [],
     req_requires_permission = True, req_policy_profile = None, req_cwd = None,
     req_effective_config_toml = None\<rparr>"

definition command_config :: "(ustring, action) btree \<Rightarrow> (ustring, action) btree \<Rightarrow> agent_config" where
  "command_config globs patterns = default_agent_config\<lparr>cfg_permission :=
     default_permission_config\<lparr>perm_command := globs, perm_command_patterns := patterns\<rparr>\<rparr>"

definition sample_env :: "(unit, ustring) eval_env" where
  "sample_env = \<lparr>env_regex = no_regex, env_glob = literal_glob, env_cached = compile_config no_regex\<rparr>"

lemma sample_env_ok: "env_ok sample_env config"
  by (simp add: env_ok_def sample_env_def)

lemmas sample_defs = no_regex_def literal_glob_def sample_span_def sw_def sample_context_def
  sample_command_def sample_analysis_def sample_request_def command_config_def sample_env_def

lemmas config_defs = default_agent_config_def default_permission_config_def
  default_external_directory_action_def

text \<open>The functions that tokenize and compile a literal pattern.\<close>

lemmas pattern_eval = tokenize_def tokenize_loop.simps value_token_def literal_token_def punctuation_def
  ends_value_def is_whitespace_def str_def ch_def BACKSLASH_def SINGLE_QUOTE_def DOUBLE_QUOTE_def
  utf8_width_def MAX_PATTERN_BYTES_def

lemmas parse_eval = parse_with_budget_def parse_tokens_def empty_rule_def is_literal_token_def is_literal_def
  add_atom_def new_state_def add_edge_def edges_of_def get_eq add_group_def MAX_SEGMENTS_def MAX_STATES_def
  bump_literals_def bump_groups_def

lemma sample_pattern: "\<exists>r m. parse_with_budget no_regex (str ''git [push]*'') Deny 0 = Inr (r, m)"
  by (simp add: parse_eval pattern_eval)

lemma sample_compiles: "\<exists>ws. compile_words no_regex [(str ''git push'', Deny)] = Inr ws"
  by (simp add: compile_words_def parse_eval pattern_eval executable_of_def)

lemma literal_rest_lang: "pattern_lang eng [SAtom (Literal a), SRest] False [a, b]"
  by (simp, rule exI[of _ "[a]"], simp)

lemma sample_denotes: "pattern_denotes no_regex (str ''rm ...'') [str ''rm'', str ''x'']"
  unfolding pattern_denotes_def
proof (intro exI[of _ "[SAtom (Literal (str ''rm'')), SRest]"] exI[of _ 0] conjI)
  show "tokenize no_regex (str ''rm ...'') 0 = Inr (pattern_tokens [SAtom (Literal (str ''rm'')), SRest], 0)"
    by (simp add: pattern_eval pattern_tokens_def)
qed (simp_all add: literal_rest_lang del: pattern_lang.simps)

lemma sample_layer:
  "\<exists>cl. compile_layer no_regex (0, \<lparr>layer_command = [(str ''git *'', Ask)], layer_command_patterns = []\<rparr>) = Inr cl"
  by (simp add: compile_layer_def compile_words_def map_err_def split: prod.split)

definition launch_command :: shell_command where
  "launch_command = sample_command ''command rm x'' (sw ''command'') [sw ''rm'', sw ''x'']"

lemma launch_effective: "effective_command launch_command = Inr (original_subject launch_command)"
proof -
  have "strip_env s c = Inr (s, c)" if "sub_executable s = sw ''command''" for s c
    using that by (subst strip_env.simps) (simp add: is_env_def sw_def)
  then show ?thesis
    by (simp add: effective_command_def original_subject_def launch_command_def sample_command_def
        validate_executable_def sw_def)
qed

lemma launch_launches:
  "launches (sub_executable (original_subject launch_command), sub_arguments (original_subject launch_command))
     (sw ''rm'', [sw ''x''])"
proof -
  have "launches (sw ''command'', [sw ''rm'', sw ''x'']) ([sw ''rm'', sw ''x''] ! 0, drop (0 + 1) [sw ''rm'', sw ''x''])"
    by (rule launch[where v = "str ''command''"])
      (simp_all add: sw_def is_launcher_def launched_word_def basename_def after_last_def str_def SLASH_def ch_def)
  then show ?thesis by (simp add: original_subject_def launch_command_def sample_command_def)
qed

section \<open>An allowed script\<close>

lemma strip_env_plain: "\<not> is_env (sub_executable s) \<Longrightarrow> strip_env s c = Inr (s, c)"
  by (subst strip_env.simps) simp

lemma visit_plain:
  assumes "sub_executable s = Static v sp" and "validate_executable (Static v sp) = Inr ()"
    and "basename v = v" and "\<not> is_launcher v" and "\<not> sub_has_assignments s"
  shows "visit s = Inr []"
  unfolding visit_def by (subst visit_loop.simps) (simp add: assms visit_self_def)

lemmas compile_eval = compile_config_def compile_policy_def base_layer_def policy_layers_of_def enumerated_def
  compile_layer_def compile_words_def map_err_def empty_word_rules_def mk_rule_def legacy_executable_def
  first_word_def bt_push_def bt_get_def
definition ls_config where "ls_config = command_config [(str ''ls'', Allow)] []"
definition list_request where "list_request = sample_request ''shell'' (Command (Some (str ''ls'')) (Some (sample_analysis ''ls''
        [sample_command ''ls'' (sw ''ls'') []] [])) None)"

lemma ls_compiled: "\<exists>cp. compile_config no_regex ls_config = Inr cp \<and> \<not> cp_ordered cp \<and> cp_layers cp = 
 [\<lparr>cl_legacy = [\<lparr>rule_pattern = str ''ls'', rule_action = Allow, rule_spec = 1002\<rparr>], cl_words = empty_word_rules, cl_legacy_executables = [(str ''ls'', [0])], cl_legacy_fallback = []\<rparr>]"
  by (simp add: ls_config_def sample_defs config_defs compile_eval str_def STAR_def is_whitespace_def ch_def rule_specificity_def)

definition allows_ls :: "unit compiled_policy \<Rightarrow> bool" where
  "allows_ls cp \<longleftrightarrow> (\<exists>d ms. evaluate_command no_regex cp (0, sample_command ''ls'' (sw ''ls'') []) = Inr (d, ms)
     \<and> ssd_action d = Allow)"

lemma ls_command: "\<exists>cp. compile_config no_regex ls_config = Inr cp \<and> allows_ls cp"
proof -
  obtain cp where cp: "compile_config no_regex ls_config = Inr cp" "\<not> cp_ordered cp" "cp_layers cp = 
 [\<lparr>cl_legacy = [\<lparr>rule_pattern = str ''ls'', rule_action = Allow, rule_spec = 1002\<rparr>], cl_words = empty_word_rules, cl_legacy_executables = [(str ''ls'', [0])], cl_legacy_fallback = []\<rparr>]"
    using ls_compiled by blast
  define sub where "sub = \<lparr>sub_has_assignments = False, sub_executable = sw ''ls'', sub_arguments = [], sub_source = str ''ls'', sub_span = sample_span, sub_candidates = [str ''ls'']\<rparr>"
  have e: "effective_command (sample_command ''ls'' (sw ''ls'') []) = Inr sub"
    by (simp add: effective_command_def original_subject_def strip_env_plain is_env_def sample_command_def sw_def validate_executable_def sub_def)
  have v: "visit sub = Inr []"
    by (rule visit_plain[where v = "str ''ls''" and sp = sample_span]) (simp_all add: sub_def sw_def validate_executable_def basename_def is_launcher_def after_last_def str_def SLASH_def ch_def)
  have g: "glob_matches (str ''ls'') (str ''ls'')" by (simp add: glob_matches_def str_def STAR_def ch_def starts_with_star_def ends_with_star_def strip_prefix_def)
  have c: "legacy_candidates (cp_layers cp ! 0) (str ''ls'') = [(0, \<lparr>rule_pattern = str ''ls'', rule_action = Allow, rule_spec = 1002\<rparr>)]"
     by (simp add: cp legacy_candidates_def first_word_def str_def is_whitespace_def bt_get_def)
  have c2: "legacy_candidates (cp_layers cp ! 0) (str '' '') = []" 
     by (simp add: cp legacy_candidates_def first_word_def str_def is_whitespace_def bt_get_def)
  have r: "restrictions (cp_layers cp ! 0) sub = []" using c by (simp add: restrictions_def possibly_restricts_def sub_def sw_def)
  have cls: "classified no_regex empty_word_rules x y = []" for x y
    by (simp add: classified_def candidates_def empty_word_rules_def enumerated_def bt_get_def split: option.splits)
  have w: "fold (base_candidate (cp_layers cp ! 0) False) (sub_candidates sub) None
      = Some (\<lparr>rule_pattern = str ''ls'', rule_action = Allow, rule_spec = 1002\<rparr>, str ''ls'', (0, False, 0))"
    using c g by (simp add: base_candidate_def sub_def applies_to_subject_def last_max_key_def last_max_by_def)
  have "ssd_action (evaluate_base_subject (cp_layers cp ! 0) sub False [[]]) = Allow"
    by (simp add: evaluate_base_subject_def w r base_start_def base_words_def matching_words_def possible_restriction_def)
  then have "ssd_action (fst (evaluate_subject no_regex cp sub False 0)) = Allow"
    by (simp add: evaluate_subject_def Let_def cp cls)
  moreover obtain d ms where "evaluate_subject no_regex cp sub False 0 = (d, ms)" by fastforce
  ultimately have "\<exists>d ms. evaluate_command no_regex cp (0, sample_command ''ls'' (sw ''ls'') []) = Inr (d, ms) \<and> ssd_action d = Allow"
    using e v by (simp add: evaluate_command_def sub_def sw_def)
  with cp(1) show ?thesis unfolding allows_ls_def by blast
qed

lemma sample_allow: "pe_decision (evaluate_shell sample_env ls_config list_request) = DAllow"
  using ls_command
  by (auto simp: allows_ls_def evaluate_shell_def evaluate_analysis_def list_request_def sample_request_def
      sample_analysis_def sample_env_def map_err_def enumerated_def last_max_key_def last_max_by_def)

section \<open>Layers and subjects\<close>

definition push_command :: shell_command where
  "push_command = sample_command ''git push'' (sw ''git'') [sw ''push'']"

lemma push_denotes: "pattern_denotes no_regex (str ''git push'') [str ''git'', str ''push'']"
  unfolding pattern_denotes_def
proof (intro exI[of _ "[SAtom (Literal (str ''git'')), SAtom (Literal (str ''push''))]"] exI[of _ 0] conjI)
  have "pattern_lang eng [SAtom (Literal a), SAtom (Literal b)] False [a, b]" for eng :: "unit regex_engine" and a b
    unfolding pattern_lang.simps by (rule exI[of _ "[a]"], rule exI[of _ "[b]"], simp)
  then show "pattern_lang no_regex [SAtom (Literal (str ''git'')), SAtom (Literal (str ''push''))] False
      [str ''git'', str ''push'']" .
  show "tokenize no_regex (str ''git push'') 0 =
      Inr (pattern_tokens [SAtom (Literal (str ''git'')), SAtom (Literal (str ''push''))], 0)"
    by (simp add: pattern_eval pattern_tokens_def)
qed simp_all

definition push_layers :: command_policy where
  "push_layers = \<lparr>policy_version = 1, policy_layers =
     [\<lparr>layer_command = [], layer_command_patterns = [(str ''git push'', Deny)]\<rparr>]\<rparr>"

lemma push_policy:
  "\<exists>cp w. policy_ok cp \<and> cp_ordered cp \<and> length (cp_layers cp) = 2 \<and>
     w \<in> set (wrs_rules (cl_words (cp_layers cp ! 1))) \<and> wr_action w = Deny \<and>
     accepts_words no_regex w [str ''git'', str ''push'']"
proof -
  obtain ws where ws: "compile_words no_regex [(str ''git push'', Deny)] = Inr ws"
    using sample_compiles by blast
  define layer where "layer = \<lparr>cl_legacy = [], cl_words = empty_word_rules :: unit word_rules,
    cl_legacy_executables = [], cl_legacy_fallback = []\<rparr>"
  define cp where "cp = \<lparr>cp_layers = [layer, layer\<lparr>cl_words := ws\<rparr>], cp_ordered = True\<rparr>"
  have cp: "compile_policy no_regex \<lparr>layer_command = [], layer_command_patterns = []\<rparr> (Some push_layers) = Inr cp"
    using ws by (simp add: compile_policy_def push_layers_def policy_layers_of_def enumerated_def compile_layer_def
        map_err_def cp_def layer_def) (simp add: compile_words_def)
  obtain r n where r: "parse_with_budget no_regex (str ''git push'') Deny 0 = Inr (r, n)"
      "\<exists>w \<in> set (wrs_rules ws). \<exists>i. w = r\<lparr>wr_index := i\<rparr>"
    using compile_words_has_rule[OF ws, of "str ''git push''" Deny] by auto
  then obtain w i where w: "w \<in> set (wrs_rules ws)" "w = r\<lparr>wr_index := i\<rparr>" by blast
  have "accepts_words no_regex w [str ''git'', str ''push'']"
    using pattern_denotes_accepts[OF r(1) push_denotes] w(2) by simp
  moreover have "wr_action w = Deny" using parse_with_budget_ok(3)[OF r(1)] w(2) by simp
  moreover have "policy_ok cp" by (rule compile_policy_ok[OF cp])
  ultimately show ?thesis using w(1) by (intro exI[of _ cp] exI[of _ w]) (simp add: cp_def)
qed

definition ask_rule :: rule where
  "ask_rule = \<lparr>rule_pattern = str ''git push*'', rule_action = Ask, rule_spec = 8\<rparr>"

definition ask_layer :: "unit compiled_layer" where
  "ask_layer = \<lparr>cl_legacy = [ask_rule], cl_words = empty_word_rules,
     cl_legacy_executables = [(str ''git'', [0])], cl_legacy_fallback = []\<rparr>"

lemma ask_layer_ok: "layer_ok ask_layer"
proof -
  have "compile_layer no_regex (0, \<lparr>layer_command = [(str ''git push*'', Ask)], layer_command_patterns = []\<rparr>)
      = Inr ask_layer"
    by (simp add: compile_layer_def compile_words_def map_err_def empty_word_rules_def mk_rule_def ask_layer_def
        ask_rule_def legacy_executable_def first_word_def bt_push_def bt_get_def str_def STAR_def ch_def
        is_whitespace_def rule_specificity_def)
  then show ?thesis by (rule compile_layer_ok(1))
qed

definition dynamic_subject :: subject where
  "dynamic_subject = \<lparr>sub_has_assignments = False, sub_executable = sw ''git'',
     sub_arguments = [Dynamic Many [ParameterExpansion] sample_span], sub_source = str ''git $x'',
     sub_span = sample_span, sub_candidates = [str ''git $x'']\<rparr>"

lemma ask_restriction: "restrictions ask_layer dynamic_subject = [(0, ask_rule)]"
  by (simp add: restrictions_def dynamic_subject_def sw_def legacy_candidates_def ask_layer_def first_word_def
      bt_get_def possibly_restricts_def ask_rule_def str_def is_whitespace_def ch_def glob_matches_def
      starts_with_star_def ends_with_star_def STAR_def strip_prefix_def glob_literal_def BACKSLASH_def)

definition deny_layer :: "unit compiled_layer" where
  "deny_layer = \<lparr>cl_legacy = [\<lparr>rule_pattern = str ''git push'', rule_action = Deny, rule_spec = 1008\<rparr>],
     cl_words = empty_word_rules, cl_legacy_executables = [(str ''git'', [0])], cl_legacy_fallback = []\<rparr>"

definition push_allowed :: "unit classified_words" where
  "push_allowed = [(0, empty_rule (str ''git ...'') Allow [], MDefinite)]"

lemma deny_winner:
  "base_winner deny_layer False (original_subject push_command) =
     Some (\<lparr>rule_pattern = str ''git push'', rule_action = Deny, rule_spec = 1008\<rparr>, str ''git push'', (0, False, 0))"
  by (simp add: base_winner_def original_subject_def push_command_def sample_command_def base_candidate_def
      legacy_candidates_def deny_layer_def first_word_def bt_get_def str_def is_whitespace_def applies_to_subject_def
      glob_matches_def starts_with_star_def ends_with_star_def STAR_def ch_def strip_prefix_def last_max_key_def
      last_max_by_def)

section \<open>A subprocess and a redirection\<close>

definition make_config :: agent_config where
  "make_config = default_agent_config\<lparr>cfg_tools := [(str ''process.make'', True)]\<rparr>"

definition make_request :: evaluate_tool_call_request where
  "make_request = sample_request ''build'' (Process (str ''make'') [] None [] [] [])"

lemma make_admitted: "pe_decision (evaluate_tool_call sample_env make_config make_request (str ''/'')) \<noteq> DDeny"
proof -
  have n: "process_name (str ''make'') = str ''make''"
    by (simp add: process_name_def path_components_def component_of_def path_is_absolute_def Let_def str_def SLASH_def ch_def)
  have v: "\<not> process_invalid (Process (str ''make'') [] None [] [] [])"
    by (simp add: process_invalid_def n) (simp add: str_def process_name_char_def is_ascii_alphanumeric_def is_ascii_alphabetic_def ch_def)
  define child where "child = make_request\<lparr>req_tool_name := str ''process.'' @ str ''make'', req_aliases := [],
    req_operation := Compound [Mutating, Read []]\<rparr>"
  have en: "tool_enabled make_config (make_request\<lparr>req_tool_name := str ''process.'' @ str ''make'', req_aliases := [], req_operation := op\<rparr>) = Some True" for op
    by (simp add: tool_enabled_def tool_aliases_def make_config_def config_defs bs_from_def bt_get_def str_def)
  have en': "tool_enabled make_config (make_request\<lparr>req_tool_name := str ''process.'' @ str ''make'', req_aliases := []\<rparr>) = Some True"
    by (simp add: tool_enabled_def tool_aliases_def make_config_def config_defs bs_from_def bt_get_def str_def)
  have p: "evaluate_process make_config make_request = Inr child"
    using v en' by (simp add: evaluate_process_def make_request_def sample_request_def n child_def process_operations_def)
  have m: "pe_decision (evaluate_tool_call sample_env make_config (child\<lparr>req_operation := Mutating\<rparr>) (str ''/'')) = DAsk"
    by (subst tool_call_single) (simp_all add: child_def evaluate_single_def en external_path_def make_config_def[symmetric]
       evaluate_after_path_def evaluate_mutating_fallback_def candidate_paths_def, simp_all add: make_config_def config_defs bt_get_def)
  have r: "pe_decision (evaluate_tool_call sample_env make_config (child\<lparr>req_operation := Read []\<rparr>) (str ''/'')) = DAllow"
    by (subst tool_call_single) (simp_all add: child_def evaluate_single_def en external_path_def 
       evaluate_after_path_def evaluate_filesystem_path_def evaluate_path_def candidate_paths_def)
  have "evaluate_tool_call sample_env make_config make_request (str ''/'') = evaluate_tool_call sample_env make_config child (str ''/'')"
    by (subst tool_call_process) (simp_all add: p, simp add: make_request_def sample_request_def)
  moreover have "evaluate_tool_call sample_env make_config child (str ''/'') = compound_outcome
    (map (\<lambda>op. evaluate_tool_call sample_env make_config (child\<lparr>req_operation := op\<rparr>) (str ''/'')) [Mutating, Read []])"
    by (subst tool_call_compound[of _ "[Mutating, Read []]"]) (simp_all add: child_def compound_invalid_def)
  ultimately show ?thesis using m r by (simp add: compound_decision)
qed

definition out_redirection :: shell_redirection where
  "out_redirection = \<lparr>redir_command_id = None, redir_kind = OutputTruncate, redir_source_fd = None,
     redir_target = sw ''out'', redir_static_path = Some (str ''out''), redir_span = sample_span\<rparr>"

text \<open>The automaton of \<open>rm ...\<close>, and its classification of a command with an expansion.\<close>

definition rm_rule :: "unit word_rule" where
  "rm_rule = (empty_rule (str ''rm ...'') Deny [])\<lparr>wr_edges := [[(Some (Literal (str ''rm'')), 1)], [(Some AnyValue, 1)]], wr_accept := 1\<rparr>"

lemma rm_edges [simp]: "wr_edges rm_rule = [[(Some (Literal (str ''rm'')), 1)], [(Some AnyValue, 1)]]" "wr_accept rm_rule = 1"
  by (simp_all add: rm_rule_def)

lemma rm_edges_of [simp]: "edges_of rm_rule 0 = [(Some (Literal (str ''rm'')), 1)]" "edges_of rm_rule 1 = [(Some AnyValue, 1)]" "edges_of rm_rule (Suc 0) = [(Some AnyValue, 1)]" "states rm_rule = 2"
  by (simp_all add: edges_of_def get_eq states_def)

lemma rm_small: "\<not> oversized [Static (str ''rm'') sample_span, Dynamic Many [] sample_span]"
  by (simp add: oversized_def MAX_WORDS_def MAX_WORD_BYTES_def word_bytes_def str_def byte_len_def utf8_width_def)

lemma rm_step: "step no_regex rm_rule [(0, False)] (Some (str ''rm'')) = [(1, False)]"
  by (simp add: step_def step_edge_def closure_def bs_from_def List.map_filter_def str_def)

lemma rm_steps: "step no_regex rm_rule [(1, False)] None = [(1, True)]" "step no_regex rm_rule [(1, True)] None = [(1, True)]"
  by (auto simp: step_def step_edge_def closure_def bs_from_def List.map_filter_def str_def)

lemma rm_closure: "closure rm_rule [(0,False)] = [(0,False)]" by (simp add: closure_def)

lemma rm_definite: "classify no_regex rm_rule [Static (str ''rm'') sample_span, Dynamic Many [] sample_span] = MDefinite"
  by (auto simp: classify_def rm_small definite_def rm_closure rm_step rm_steps rm_steps[simplified] rm_step[simplified] definite_next_def get_eq MAX_WORK_def)

end
