(* ===== verification/Tool_Results.thy ===== *)
theory Tool_Results
  imports Runtime_Models
begin

text \<open>
  What the model sees of a tool result (\<open>packages/agent-runtime/src/lib.rs\<close>): the policy that
  redacts, bounds and drops parts of the model-visible result (\<open>ToolResultPolicy\<close>,
  \<open>apply_tool_result_policy\<close>), the output built from an invocation response, and the ordered
  outputs of a batch with the proof of settlement of each call.

  Counters are natural numbers; \<open>usize\<close> has 64 bits, so a \<open>u64\<close> always converts.
\<close>

section \<open>Text of bounded length\<close>

text \<open>\<open>s.is_char_boundary(n)\<close> and \<open>s.truncate(n)\<close>, which panics inside a character.\<close>

definition is_char_boundary :: "ustring \<Rightarrow> nat \<Rightarrow> bool" where
  "is_char_boundary s n \<longleftrightarrow> byte_suffix n s \<noteq> None"

fun byte_prefix :: "nat \<Rightarrow> ustring \<Rightarrow> ustring" where
  "byte_prefix n [] = []"
| "byte_prefix n (c # s) = (if n < utf8_width c then [] else c # byte_prefix (n - utf8_width c) s)"

text \<open>\<open>while !text.is_char_boundary(boundary) { boundary -= 1; }\<close>; zero is a boundary.\<close>

fun boundary_below :: "ustring \<Rightarrow> nat \<Rightarrow> nat" where
  "boundary_below s n =
     (if is_char_boundary s n then n else if n = 0 then 0 else boundary_below s (n - 1))"

declare boundary_below.simps [simp del]

section \<open>Matches and replacement\<close>

text \<open>
  \<open>text.matches(p).count()\<close> and \<open>text.replace(p, q)\<close>: occurrences from the left that do not
  overlap. The empty pattern matches between all characters.
\<close>

function matches_from :: "ustring \<Rightarrow> ustring \<Rightarrow> nat" where
  "matches_from p s =
     (if p = [] \<or> s = [] then 0
      else if prefix p s then Suc (matches_from p (drop (length p) s))
      else matches_from p (tl s))"
  by pat_completeness auto
termination by (relation "measure (length \<circ> snd)") auto

function replace_from :: "ustring \<Rightarrow> ustring \<Rightarrow> ustring \<Rightarrow> ustring" where
  "replace_from p q s =
     (if p = [] \<or> s = [] then s
      else if prefix p s then q @ replace_from p q (drop (length p) s)
      else hd s # replace_from p q (tl s))"
  by pat_completeness auto
termination by (relation "measure (length \<circ> snd \<circ> snd)") auto

declare matches_from.simps [simp del] replace_from.simps [simp del]

definition matches_count :: "ustring \<Rightarrow> ustring \<Rightarrow> nat" where
  "matches_count p s = (if p = [] then length s + 1 else matches_from p s)"

definition replace_all :: "ustring \<Rightarrow> ustring \<Rightarrow> ustring \<Rightarrow> ustring" where
  "replace_all p q s =
     (if p = [] then concat (map (\<lambda>c. q @ [c]) s) @ q else replace_from p q s)"

section \<open>The policy\<close>

record tool_result_policy =
  max_text_bytes :: nat
  max_binary_bytes :: nat
  max_content_items :: nat
  redacted_values :: "ustring list"

definition default_result_policy :: tool_result_policy where
  "default_result_policy = \<lparr>max_text_bytes = 64 * 1024, max_binary_bytes = 5 * 1024 * 1024,
     max_content_items = 64, redacted_values = []\<rparr>"

definition redact_value :: "tool_result_policy \<Rightarrow> ustring \<Rightarrow> tool_result_policy" where
  "redact_value policy v =
     (if v \<noteq> [] \<and> v \<notin> set (redacted_values policy)
      then policy\<lparr>redacted_values := redacted_values policy @ [v]\<rparr> else policy)"

definition MARKER :: ustring where
  "MARKER = str ''[REDACTED]''"

fun redact_loop :: "ustring list \<Rightarrow> ustring \<Rightarrow> nat \<Rightarrow> ustring \<times> nat" where
  "redact_loop [] text count = (text, count)"
| "redact_loop (v # vs) text count =
     (if matches_count v text \<noteq> 0
      then redact_loop vs (replace_all v MARKER text) (count + matches_count v text)
      else redact_loop vs text count)"

definition redact_model_text :: "tool_result_policy \<Rightarrow> ustring \<Rightarrow> ustring \<times> nat" where
  "redact_model_text policy text = redact_loop (redacted_values policy) text 0"

definition transform_model_text ::
    "tool_result_policy \<Rightarrow> ustring \<Rightarrow> tool_result_transform \<Rightarrow> ustring \<times> tool_result_transform" where
  "transform_model_text policy text tr =
     (case redact_model_text policy text of
        (text', n) \<Rightarrow>
          (let tr' = tr\<lparr>redaction_count := redaction_count tr + n\<rparr>
           in if byte_len text' > max_text_bytes policy
              then (byte_prefix (boundary_below text' (max_text_bytes policy)) text',
                    tr'\<lparr>truncated_text_fields := truncated_text_fields tr' + 1\<rparr>)
              else (text', tr')))"

definition transform_optional_model_text ::
    "tool_result_policy \<Rightarrow> ustring option \<Rightarrow> tool_result_transform
       \<Rightarrow> ustring option \<times> tool_result_transform" where
  "transform_optional_model_text policy text tr =
     (case text of
        None \<Rightarrow> (None, tr)
      | Some t \<Rightarrow> (case transform_model_text policy t tr of (t', tr') \<Rightarrow> (Some t', tr')))"

definition estimated_base64_decoded_bytes :: "ustring \<Rightarrow> nat" where
  "estimated_base64_decoded_bytes encoded =
     (let padding = min (length (takeWhile (\<lambda>c. c = ch CHR ''='') (rev encoded))) 2
      in min (byte_len encoded * 3) (2 ^ 64 - 1) div 4 - padding)"

section \<open>Content items\<close>

definition retain_image ::
    "tool_result_policy \<Rightarrow> image_content \<Rightarrow> tool_result_transform
       \<Rightarrow> tool_result_content option \<times> tool_result_transform" where
  "retain_image policy img tr =
     (let (mime, mime_redactions) = redact_model_text policy (image_mime_type img);
          binary_redactions = sum_list (map (\<lambda>v. matches_count v (image_data_base64 img)) (redacted_values policy));
          tr1 = tr\<lparr>redaction_count := redaction_count tr + mime_redactions + binary_redactions\<rparr>;
          (path, tr2) = transform_optional_model_text policy (img_source_path (image_meta img)) tr1;
          decoded = max (estimated_base64_decoded_bytes (image_data_base64 img))
            (case img_byte_len (image_meta img) of None \<Rightarrow> 0 | Some b \<Rightarrow> unat b)
      in if decoded > max_binary_bytes policy \<or> binary_redactions \<noteq> 0 \<or> mime_redactions \<noteq> 0
            \<or> byte_len mime > max_text_bytes policy
         then (None, tr2\<lparr>omitted_binary_fields := omitted_binary_fields tr2 + 1\<rparr>)
         else (Some (ImageItem (img\<lparr>image_mime_type := mime,
                 image_meta := (image_meta img)\<lparr>img_source_path := path\<rparr>\<rparr>)), tr2))"

definition retain_image_ref ::
    "tool_result_policy \<Rightarrow> image_ref_content \<Rightarrow> tool_result_transform
       \<Rightarrow> tool_result_content option \<times> tool_result_transform" where
  "retain_image_ref policy img tr =
     (let (path, path_redactions) = redact_model_text policy (ref_path img);
          (mime, mime_redactions) = redact_model_text policy (ref_mime_type img);
          (source, source_redactions) = (case img_source_path (ref_meta img) of
              None \<Rightarrow> (None, 0)
            | Some p \<Rightarrow> (case redact_model_text policy p of (p', n) \<Rightarrow> (Some p', n)));
          tr1 = tr\<lparr>redaction_count := redaction_count tr + path_redactions + mime_redactions + source_redactions\<rparr>
      in if path_redactions \<noteq> 0 \<or> mime_redactions \<noteq> 0 \<or> source_redactions \<noteq> 0
            \<or> byte_len path > max_text_bytes policy \<or> byte_len mime > max_text_bytes policy
            \<or> (\<exists>p \<in> set_option source. byte_len p > max_text_bytes policy)
         then (None, tr1\<lparr>omitted_reference_fields := omitted_reference_fields tr1 + 1\<rparr>)
         else (Some (ImageRef (img\<lparr>ref_path := path, ref_mime_type := mime,
                 ref_meta := (ref_meta img)\<lparr>img_source_path := source\<rparr>\<rparr>)), tr1))"

definition retain_content ::
    "tool_result_policy \<Rightarrow> tool_result_content \<Rightarrow> tool_result_transform
       \<Rightarrow> tool_result_content option \<times> tool_result_transform" where
  "retain_content policy content tr =
     (case content of
        TextContent text \<Rightarrow>
          (case transform_model_text policy text tr of (text', tr') \<Rightarrow> (Some (TextContent text'), tr'))
      | ImageItem img \<Rightarrow> retain_image policy img tr
      | ImageRef img \<Rightarrow> retain_image_ref policy img tr)"

text \<open>\<open>retain_mut\<close> with the transform threaded from item to item.\<close>

fun retain_mut ::
    "tool_result_policy \<Rightarrow> tool_result_content list \<Rightarrow> tool_result_transform
       \<Rightarrow> tool_result_content list \<times> tool_result_transform" where
  "retain_mut policy [] tr = ([], tr)"
| "retain_mut policy (c # cs) tr =
     (case retain_content policy c tr of
        (kept, tr1) \<Rightarrow>
          (case retain_mut policy cs tr1 of
             (cs', tr2) \<Rightarrow> (case kept of None \<Rightarrow> cs' | Some c' \<Rightarrow> c' # cs', tr2)))"

section \<open>The policy on an output\<close>

definition apply_tool_result_policy ::
    "tool_result_policy \<Rightarrow> ('json, 'data) tool_execution_output \<Rightarrow> ('json, 'data) tool_execution_output" where
  "apply_tool_result_policy policy output =
     (let result = out_model_result output;
          (text, tr1) = transform_model_text policy (res_output result) no_transform;
          n = length (res_content result);
          (content, tr2) = (if n > max_content_items policy
             then (take (max_content_items policy) (res_content result),
                   tr1\<lparr>omitted_content_items := n - max_content_items policy\<rparr>)
             else (res_content result, tr1));
          (content', tr3) = retain_mut policy content tr2;
          result' = result\<lparr>res_output := text, res_content := content'\<rparr>
      in output\<lparr>out_model_result := result', out_model_transform := tr3,
           out_events := map (\<lambda>e. case e of ToolResult _ \<Rightarrow> ToolResult result' | _ \<Rightarrow> e) (out_events output)\<rparr>)"

text \<open>
  \<open>tool_execution_output\<close>. \<open>model_tool_result_content\<close> copies the content of the tool crate into
  the model crate's type of the same fields, here one type.
\<close>

definition tool_execution_output_of ::
    "'json tool_call \<Rightarrow> 'data tool_invocation_response \<Rightarrow> ('json, 'data) tool_execution_output" where
  "tool_execution_output_of call invocation =
     (let result = \<lparr>res_call_id = call_id call, res_output = inv_output invocation,
            res_is_error = inv_is_error invocation, res_content = inv_content invocation\<rparr>
      in \<lparr>out_model_result = result, out_invocation = invocation, out_model_transform = no_transform,
          out_events = [ToolCallFinished call, ToolResult result]\<rparr>)"

section \<open>Outputs of a batch\<close>

datatype tool_call_settlement = NeverDispatched | Settled | Unresolved

record ('json, 'data) tool_batch_execution_output =
  batch_results :: "(runtime_error + ('json, 'data) tool_execution_output) list"
  batch_settlement :: "tool_call_settlement list"

definition settlement_at :: "('json, 'data) tool_batch_execution_output \<Rightarrow> nat \<Rightarrow> tool_call_settlement" where
  "settlement_at output i = (case get (batch_settlement output) i of None \<Rightarrow> Unresolved | Some s \<Rightarrow> s)"

text \<open>
  \<open>ordered_batch_output\<close>: the collected results by index, and one counter per call: 0 never
  dispatched, 1 dispatched, 2 returned.
\<close>

definition ordered_batch_output ::
    "nat \<Rightarrow> (nat \<rightharpoonup> runtime_error + ('json, 'data) tool_execution_output) \<Rightarrow> nat list
       \<Rightarrow> ('json, 'data) tool_batch_execution_output" where
  "ordered_batch_output len results settlement = \<lparr>
     batch_results = map (\<lambda>i. case results i of Some r \<Rightarrow> r | None \<Rightarrow> Inl TurnCancelled) [0..<len],
     batch_settlement = map (\<lambda>i.
       if results i = None then Unresolved
       else (case get settlement i of
               Some n \<Rightarrow> if n = 0 then NeverDispatched else if n = 2 then Settled else Unresolved
             | None \<Rightarrow> Unresolved)) [0..<len]\<rparr>"

definition empty_batch_output :: "('json, 'data) tool_batch_execution_output" where
  "empty_batch_output = \<lparr>batch_results = [], batch_settlement = []\<rparr>"

definition cancelled_batch_output :: "nat \<Rightarrow> ('json, 'data) tool_batch_execution_output" where
  "cancelled_batch_output len = \<lparr>batch_results = replicate len (Inl TurnCancelled),
     batch_settlement = replicate len NeverDispatched\<rparr>"

section \<open>Truncation keeps the longest text that fits\<close>

lemma byte_prefix_prefix: "prefix (byte_prefix n s) s"
  by (induction n s rule: byte_prefix.induct) auto

lemma byte_prefix_len: "byte_len (byte_prefix n s) \<le> n"
  by (induction n s rule: byte_prefix.induct) auto

lemma byte_prefix_longest: "prefix u s \<Longrightarrow> byte_len u \<le> n \<Longrightarrow> prefix u (byte_prefix n s)"
  by (induction n s arbitrary: u rule: byte_prefix.induct) (auto simp: prefix_Cons)

lemma byte_prefix_step:
  "\<not> is_char_boundary s n \<Longrightarrow> 0 < n \<Longrightarrow> byte_prefix n s = byte_prefix (n - 1) s \<or> byte_len s < n"
proof (induction n s rule: byte_prefix.induct)
  case (2 n c s)
  show ?case
  proof (cases "n < utf8_width c")
    case False
    with 2(2,3) have nb: "\<not> is_char_boundary s (n - utf8_width c)" by (simp add: is_char_boundary_def)
    then have "0 < n - utf8_width c" by (cases "n - utf8_width c") (auto simp: is_char_boundary_def elim: byte_suffix.elims)
    moreover from 2(1)[OF False nb this] this False
    have "byte_prefix (n - utf8_width c) s = byte_prefix (n - 1 - utf8_width c) s \<or> byte_len (c # s) < n"
      by (auto simp: diff_diff_add add.commute)
    ultimately show ?thesis by auto
  qed simp
qed (simp add: is_char_boundary_def)

lemma boundary_below_prefix:
  "n \<le> byte_len s \<Longrightarrow> byte_prefix (boundary_below s n) s = byte_prefix n s"
proof (induction n)
  case (Suc n)
  then show ?case using byte_prefix_step[of s "Suc n"] by (auto simp: boundary_below.simps[of s "Suc n"])
qed (simp add: boundary_below.simps)

section \<open>Redaction\<close>

lemma matches_from_eqs:
  "matches_from p [] = 0"
  "p \<noteq> [] \<Longrightarrow> prefix p (c # t) \<Longrightarrow> matches_from p (c # t) = Suc (matches_from p (drop (length p) (c # t)))"
  "\<not> prefix p (c # t) \<Longrightarrow> matches_from p (c # t) = matches_from p t"
  by (subst matches_from.simps, force)+

lemma replace_from_eqs:
  "replace_from p q [] = []"
  "replace_from [] q s = s"
  "p \<noteq> [] \<Longrightarrow> prefix p (c # t) \<Longrightarrow> replace_from p q (c # t) = q @ replace_from p q (drop (length p) (c # t))"
  "\<not> prefix p (c # t) \<Longrightarrow> replace_from p q (c # t) = c # replace_from p q t"
  by (subst replace_from.simps, force)+

lemma matches_none:
  assumes "p \<noteq> []"
  shows "matches_count p s = 0 \<longleftrightarrow> \<not> sublist p s"
proof -
  have "matches_from p s = 0 \<longleftrightarrow> \<not> sublist p s"
    using assms
  proof (induction p s rule: matches_from.induct)
    case (1 p s)
    show ?case
    proof (cases s)
      case (Cons c t)
      show ?thesis
      proof (cases "prefix p s")
        case True
        with 1(3) Cons show ?thesis by (simp add: matches_from_eqs prefix_imp_sublist)
      next
        case False
        with 1(2) 1(3) Cons show ?thesis by (simp add: matches_from_eqs sublist_Cons_right)
      qed
    qed (use 1 in \<open>simp add: matches_from_eqs\<close>)
  qed
  with assms show ?thesis by (simp add: matches_count_def)
qed

lemma sublist_behind:
  assumes "w \<noteq> []" and "set w \<inter> set q = {}" and "sublist w (q @ r)"
  shows "sublist w r"
  using assms(2,3)
proof (induction q)
  case (Cons c q)
  then have "\<not> prefix w (c # q @ r)" using assms(1) by (cases w) auto
  with Cons show ?case by (simp add: sublist_Cons_right)
qed simp

lemma replace_prefix:
  assumes "q \<noteq> []" and "set w \<inter> set q = {}" and "prefix w (replace_from p q s)"
  shows "prefix w s"
  using assms
proof (induction p q s arbitrary: w rule: replace_from.induct)
  case (1 p q s)
  consider "p = [] \<or> s = []" | "p \<noteq> []" "s \<noteq> []" "prefix p s" | c t where "p \<noteq> []" "s = c # t" "\<not> prefix p s"
    by (cases s) auto
  then show ?case
  proof cases
    case 2
    with 1(5) obtain r where "prefix w (q @ r)" by (cases s) (auto simp: replace_from_eqs)
    with 1(3,4) have "w = []" by (cases w; cases q) auto
    then show ?thesis by simp
  next
    case 3
    then have "replace_from p q s = c # replace_from p q t" by (simp add: replace_from_eqs)
    with 1(2)[OF _ _ 1(3), of "tl w"] 1(4,5) 3 show ?thesis by (cases w) auto
  qed (use 1 in \<open>auto simp: replace_from_eqs\<close>)
qed

lemma replace_sublist:
  assumes "w \<noteq> []" and "q \<noteq> []" and "set w \<inter> set q = {}" and "sublist w (replace_from p q s)"
  shows "sublist w s"
  using assms
proof (induction p q s rule: replace_from.induct)
  case (1 p q s)
  consider "p = [] \<or> s = []" | "p \<noteq> []" "s \<noteq> []" "prefix p s" | "p \<noteq> []" "s \<noteq> []" "\<not> prefix p s" by blast
  then show ?case
  proof cases
    case 2
    with 1(6) have "sublist w (replace_from p q (drop (length p) s))"
      using sublist_behind[OF 1(3,5)] by (cases s) (auto simp: replace_from_eqs)
    with 1(1)[OF _ 2(3) 1(3-5)] 2 show ?thesis by (meson sublist_drop sublist_order.order_trans)
  next
    case 3
    then obtain c t where s: "s = c # t" by (cases s) auto
    have r: "replace_from p q s = c # replace_from p q t" using 3 s by (simp add: replace_from_eqs)
    from 1(6)[unfolded r] consider "prefix w (c # replace_from p q t)" | "sublist w (replace_from p q t)"
      by (auto simp: sublist_Cons_right)
    then show ?thesis
    proof cases
      case 1
      then have "prefix w (replace_from p q s)" using r by simp
      with replace_prefix[OF \<open>q \<noteq> []\<close> \<open>set w \<inter> set q = {}\<close>] show ?thesis by blast
    qed (use 1(2) 3 1(3-5) s in \<open>auto simp: sublist_Cons_right\<close>)
  qed (use 1 in \<open>auto simp: replace_from_eqs\<close>)
qed

lemma replace_removes:
  assumes "p \<noteq> []" and "q \<noteq> []" and "set p \<inter> set q = {}"
  shows "\<not> sublist p (replace_from p q s)"
  using assms
proof (induction p q s rule: replace_from.induct)
  case (1 p q s)
  consider "s = []" | "s \<noteq> []" "prefix p s" | c t where "s = c # t" "\<not> prefix p s" by (cases s) auto
  then show ?case
  proof cases
    case 2
    with 1(1)[OF _ 2(2)] 1(3-5) sublist_behind[OF 1(3,5)] show ?thesis
      by (cases s) (auto simp: replace_from_eqs)
  next
    case 3
    with 1(3-5) have r: "replace_from p q s = c # replace_from p q t" by (simp add: replace_from_eqs)
    have "\<not> prefix p (replace_from p q s)" using replace_prefix[OF 1(4,5)] 3 by blast
    moreover have "\<not> sublist p (replace_from p q t)" using 1(2) 3 1(3-5) by simp
    ultimately show ?thesis unfolding r by (simp add: sublist_Cons_right)
  qed (use 1 in \<open>simp add: replace_from_eqs\<close>)
qed

definition marker_free :: "ustring \<Rightarrow> bool" where
  "marker_free v \<longleftrightarrow> v \<noteq> [] \<and> set v \<inter> set MARKER = {}"

lemma marker_nonempty [simp]: "MARKER \<noteq> []"
  by (simp add: MARKER_def)

lemma redact_loop_sublist:
  assumes "marker_free w" and "\<forall>v \<in> set vs. v \<noteq> []" and "sublist w (fst (redact_loop vs t n))"
  shows "sublist w t"
  using assms
proof (induction vs t n rule: redact_loop.induct)
  case (2 v vs t n)
  then show ?case
    using replace_sublist[of w MARKER v t]
    by (auto simp: marker_free_def replace_all_def split: if_splits)
qed simp

lemma redact_loop_removes:
  assumes "\<forall>v \<in> set vs. marker_free v" and "v \<in> set vs"
  shows "\<not> sublist v (fst (redact_loop vs t n))"
  using assms
proof (induction vs t n rule: redact_loop.induct)
  case (2 u us t n)
  have ne: "\<forall>v \<in> set us. v \<noteq> []" and u: "marker_free u" using 2(3) by (auto simp: marker_free_def)
  let ?text = "if matches_count u t \<noteq> 0 then replace_all u MARKER t else t"
  have gone: "\<not> sublist u ?text"
    using u matches_none[of u t] replace_removes[of u MARKER t]
    by (auto simp: marker_free_def replace_all_def)
  show ?case
  proof (cases "v \<in> set us")
    case True
    with 2 show ?thesis by auto
  next
    case False
    with 2(4) have "v = u" by simp
    moreover have "\<exists>m. redact_loop (u # us) t n = redact_loop us ?text m" by auto
    ultimately show ?thesis using gone redact_loop_sublist[OF u ne] by metis
  qed
qed simp

lemma redact_loop_count:
  "n \<le> snd (redact_loop vs t n) \<and>
     (snd (redact_loop vs t n) = n \<longrightarrow>
        fst (redact_loop vs t n) = t \<and> (\<forall>v \<in> set vs. matches_count v t = 0))"
  by (induction vs t n rule: redact_loop.induct) (auto split: if_splits)

definition clean :: "tool_result_policy \<Rightarrow> ustring \<Rightarrow> bool" where
  "clean policy t \<longleftrightarrow> (\<forall>v \<in> set (redacted_values policy). \<not> sublist v t)"

definition redactable :: "tool_result_policy \<Rightarrow> bool" where
  "redactable policy \<longleftrightarrow> (\<forall>v \<in> set (redacted_values policy). marker_free v)"

lemma clean_prefix: "clean policy t \<Longrightarrow> prefix u t \<Longrightarrow> clean policy u"
  unfolding clean_def by (meson prefix_imp_sublist sublist_order.order_trans)

lemma redact_clean: "redactable policy \<Longrightarrow> clean policy (fst (redact_model_text policy text))"
  by (simp add: redactable_def clean_def redact_model_text_def redact_loop_removes)

lemma redact_none:
  assumes "redactable policy" and "snd (redact_model_text policy text) = 0"
  shows "fst (redact_model_text policy text) = text" and "clean policy text"
  using assms redact_loop_count[of 0 "redacted_values policy" "text"] redact_clean[of policy "text"]
  by (auto simp: redact_model_text_def)

lemma transform_text:
  "fst (transform_model_text policy text tr) =
     byte_prefix (max_text_bytes policy) (fst (redact_model_text policy text))"
proof -
  have "byte_prefix n s = s" if "byte_len s \<le> n" for n s
    using that by (induction n s rule: byte_prefix.induct) auto
  then show ?thesis
    by (auto simp: transform_model_text_def boundary_below_prefix Let_def split: prod.splits)
qed

lemma transform_text_ok:
  "byte_len (fst (transform_model_text policy text tr)) \<le> max_text_bytes policy"
  "redactable policy \<Longrightarrow> clean policy (fst (transform_model_text policy text tr))"
  by (auto simp: transform_text byte_prefix_len intro: clean_prefix[OF redact_clean byte_prefix_prefix])


section \<open>Content items\<close>

text \<open>The texts of an item the model sees, and the bounds they must meet.\<close>

fun visible_texts :: "tool_result_content \<Rightarrow> ustring list" where
  "visible_texts (TextContent t) = [t]"
| "visible_texts (ImageItem img) =
     image_mime_type img # image_data_base64 img # (case img_source_path (image_meta img) of None \<Rightarrow> [] | Some p \<Rightarrow> [p])"
| "visible_texts (ImageRef r) =
     ref_path r # ref_mime_type r # (case img_source_path (ref_meta r) of None \<Rightarrow> [] | Some p \<Rightarrow> [p])"

fun within_bounds :: "tool_result_policy \<Rightarrow> tool_result_content \<Rightarrow> bool" where
  "within_bounds policy (TextContent t) \<longleftrightarrow> byte_len t \<le> max_text_bytes policy"
| "within_bounds policy (ImageItem img) \<longleftrightarrow>
     byte_len (image_mime_type img) \<le> max_text_bytes policy \<and>
     (\<forall>p. img_source_path (image_meta img) = Some p \<longrightarrow> byte_len p \<le> max_text_bytes policy) \<and>
     estimated_base64_decoded_bytes (image_data_base64 img) \<le> max_binary_bytes policy \<and>
     (\<forall>b. img_byte_len (image_meta img) = Some b \<longrightarrow> unat b \<le> max_binary_bytes policy)"
| "within_bounds policy (ImageRef r) \<longleftrightarrow>
     byte_len (ref_path r) \<le> max_text_bytes policy \<and> byte_len (ref_mime_type r) \<le> max_text_bytes policy \<and>
     (\<forall>p. img_source_path (ref_meta r) = Some p \<longrightarrow> byte_len p \<le> max_text_bytes policy)"

definition omitted :: "tool_result_transform \<Rightarrow> nat" where
  "omitted tr = omitted_content_items tr + omitted_reference_fields tr + omitted_binary_fields tr"

lemma no_matches_clean:
  assumes "redactable policy" and "sum_list (map (\<lambda>v. matches_count v t) (redacted_values policy)) = 0"
  shows "clean policy t"
  using assms by (auto simp: clean_def redactable_def marker_free_def matches_none[symmetric])

lemma transform_text_omits [simp]: "omitted (snd (transform_model_text policy t tr)) = omitted tr"
  by (simp add: transform_model_text_def omitted_def Let_def split: prod.splits)

lemma transform_text_eq:
  assumes "transform_model_text policy t tr = (t', tr')"
  shows "omitted tr' = omitted tr" and "byte_len t' \<le> max_text_bytes policy"
    and "redactable policy \<Longrightarrow> clean policy t'"
  using assms transform_text_omits[of policy t tr] transform_text_ok[of policy t tr] by simp_all

lemma transform_optional_ok:
  assumes "transform_optional_model_text policy t tr = (t', tr')"
  shows "omitted tr' = omitted tr" and "t' = Some u \<Longrightarrow> byte_len u \<le> max_text_bytes policy"
    and "redactable policy \<Longrightarrow> t' = Some u \<Longrightarrow> clean policy u"
  using assms
  by (auto simp: transform_optional_model_text_def split: option.splits prod.splits dest: transform_text_eq)

lemma retain_image_ok:
  assumes "retain_image policy img tr = (kept, tr')"
  shows "omitted tr' = (if kept = None then omitted tr + 1 else omitted tr)"
    and "kept = Some c \<Longrightarrow> within_bounds policy c"
    and "redactable policy \<Longrightarrow> kept = Some c \<Longrightarrow> t \<in> set (visible_texts c) \<Longrightarrow> clean policy t"
proof -
  obtain mime mn where m: "redact_model_text policy (image_mime_type img) = (mime, mn)" by fastforce
  define bn where "bn = sum_list (map (\<lambda>v. matches_count v (image_data_base64 img)) (redacted_values policy))"
  define tr1 where "tr1 = tr\<lparr>redaction_count := redaction_count tr + mn + bn\<rparr>"
  obtain path tr2 where p: "transform_optional_model_text policy (img_source_path (image_meta img)) tr1 = (path, tr2)"
    by fastforce
  note o = transform_optional_ok[OF p]
  have tr1: "omitted tr1 = omitted tr" by (simp add: tr1_def omitted_def)
  let ?bad = "max (estimated_base64_decoded_bytes (image_data_base64 img))
      (case img_byte_len (image_meta img) of None \<Rightarrow> 0 | Some b \<Rightarrow> unat b) > max_binary_bytes policy
    \<or> bn \<noteq> 0 \<or> mn \<noteq> 0 \<or> byte_len mime > max_text_bytes policy"
  have eq: "retain_image policy img tr = (if ?bad
      then (None, tr2\<lparr>omitted_binary_fields := omitted_binary_fields tr2 + 1\<rparr>)
      else (Some (ImageItem (img\<lparr>image_mime_type := mime, image_meta := (image_meta img)\<lparr>img_source_path := path\<rparr>\<rparr>)), tr2))"
    by (simp only: retain_image_def m Let_def prod.case bn_def[symmetric] tr1_def[symmetric] p)
  show "omitted tr' = (if kept = None then omitted tr + 1 else omitted tr)"
    using assms o(1) tr1 unfolding eq by (auto simp: omitted_def split: if_splits)
  show "kept = Some c \<Longrightarrow> within_bounds policy c"
    using assms o(2) unfolding eq by (auto split: if_splits option.splits)
  assume r: "redactable policy" and k: "kept = Some c" "t \<in> set (visible_texts c)"
  from assms k(1) have ok: "bn = 0" "mn = 0" unfolding eq by (auto split: if_splits)
  with no_matches_clean[OF r] redact_none[OF r, of "image_mime_type img"] m
  have "clean policy (image_data_base64 img)" "clean policy mime" unfolding bn_def by auto
  with assms k o(3)[OF r] show "clean policy t" unfolding eq by (auto split: if_splits option.splits)
qed

lemma retain_image_ref_ok:
  assumes "retain_image_ref policy img tr = (kept, tr')"
  shows "omitted tr' = (if kept = None then omitted tr + 1 else omitted tr)"
    and "kept = Some c \<Longrightarrow> within_bounds policy c"
    and "redactable policy \<Longrightarrow> kept = Some c \<Longrightarrow> t \<in> set (visible_texts c) \<Longrightarrow> clean policy t"
proof -
  obtain path pn where p: "redact_model_text policy (ref_path img) = (path, pn)" by fastforce
  obtain mime mn where m: "redact_model_text policy (ref_mime_type img) = (mime, mn)" by fastforce
  obtain src sn where s: "(case img_source_path (ref_meta img) of None \<Rightarrow> (None, 0)
      | Some p \<Rightarrow> (case redact_model_text policy p of (p', n) \<Rightarrow> (Some p', n))) = (src, sn)" by fastforce
  note eq = retain_image_ref_def[of policy img tr, unfolded p m s, simplified]
  show "omitted tr' = (if kept = None then omitted tr + 1 else omitted tr)"
    using assms unfolding eq by (auto simp: omitted_def Let_def split: if_splits)
  show "kept = Some c \<Longrightarrow> within_bounds policy c"
    using assms unfolding eq by (auto simp: Let_def split: if_splits)
  assume r: "redactable policy" and k: "kept = Some c" "t \<in> set (visible_texts c)"
  from assms k(1) have ok: "pn = 0" "mn = 0" "sn = 0" unfolding eq by (auto simp: Let_def split: if_splits)
  with redact_none[OF r, of "ref_path img"] redact_none[OF r, of "ref_mime_type img"] p m
  have "clean policy path" "clean policy mime" by auto
  moreover have "src = Some q \<Longrightarrow> clean policy q" for q
    using s ok(3) redact_clean[OF r] by (auto split: option.splits prod.splits) (metis fst_conv)
  ultimately show "clean policy t"
    using assms k unfolding eq by (auto simp: Let_def split: if_splits option.splits)
qed

lemma retain_content_ok:
  assumes "retain_content policy c0 tr = (kept, tr')"
  shows "omitted tr' = (if kept = None then omitted tr + 1 else omitted tr)"
    and "kept = Some c \<Longrightarrow> within_bounds policy c"
    and "redactable policy \<Longrightarrow> kept = Some c \<Longrightarrow> t \<in> set (visible_texts c) \<Longrightarrow> clean policy t"
proof -
  consider (text_item) u where "c0 = TextContent u" | (img) u where "c0 = ImageItem u" | (ref) u where "c0 = ImageRef u"
    by (cases c0)
  then have "omitted tr' = (if kept = None then omitted tr + 1 else omitted tr) \<and>
      (kept = Some c \<longrightarrow> within_bounds policy c) \<and>
      (redactable policy \<longrightarrow> kept = Some c \<longrightarrow> t \<in> set (visible_texts c) \<longrightarrow> clean policy t)"
  proof cases
    case text_item
    obtain u' where "transform_model_text policy u tr = (u', tr')" "kept = Some (TextContent u')"
      using assms text_item by (auto simp: retain_content_def split: prod.splits)
    with transform_text_eq[OF this(1)] show ?thesis by auto
  next
    case img
    with assms have "retain_image policy u tr = (kept, tr')" by (simp add: retain_content_def)
    from retain_image_ok[OF this] show ?thesis by blast
  next
    case ref
    with assms have "retain_image_ref policy u tr = (kept, tr')" by (simp add: retain_content_def)
    from retain_image_ref_ok[OF this] show ?thesis by blast
  qed
  then show "omitted tr' = (if kept = None then omitted tr + 1 else omitted tr)"
    and "kept = Some c \<Longrightarrow> within_bounds policy c"
    and "redactable policy \<Longrightarrow> kept = Some c \<Longrightarrow> t \<in> set (visible_texts c) \<Longrightarrow> clean policy t"
    by blast+
qed

lemma retain_mut_ok:
  assumes "retain_mut policy cs tr = (cs', tr')"
  shows "omitted tr' + length cs' = omitted tr + length cs \<and> length cs' \<le> length cs \<and> (\<forall>c \<in> set cs'. within_bounds policy c) \<and>
    (redactable policy \<longrightarrow> (\<forall>c \<in> set cs'. \<forall>t \<in> set (visible_texts c). clean policy t))"
  using assms
proof (induction cs arbitrary: tr cs' tr')
  case (Cons c cs)
  obtain kept tr1 where k: "retain_content policy c tr = (kept, tr1)" by fastforce
  obtain ds tr2 where d: "retain_mut policy cs tr1 = (ds, tr2)" by fastforce
  from Cons.prems k d have eq: "cs' = (case kept of None \<Rightarrow> ds | Some c' \<Rightarrow> c' # ds)" "tr' = tr2" by simp_all
  from Cons.IH[OF d] retain_content_ok[OF k] show ?case unfolding eq by (cases kept) auto
qed simp

section \<open>The policy on an output\<close>

lemma policy_on_output:
  assumes "result = out_model_result (apply_tool_result_policy policy output)"
    and "tr = out_model_transform (apply_tool_result_policy policy output)"
  shows "byte_len (res_output result) \<le> max_text_bytes policy"
    and "length (res_content result) \<le> max_content_items policy"
    and "\<forall>c \<in> set (res_content result). within_bounds policy c"
    and "length (res_content result) + omitted tr = length (res_content (out_model_result output))"
    and "redactable policy \<Longrightarrow>
      clean policy (res_output result) \<and> (\<forall>c \<in> set (res_content result). \<forall>t \<in> set (visible_texts c). clean policy t)"
    and "res_call_id result = res_call_id (out_model_result output)"
    and "res_is_error result = res_is_error (out_model_result output)"
    and "out_invocation (apply_tool_result_policy policy output) = out_invocation output"
    and "\<forall>r. ToolResult r \<in> set (out_events (apply_tool_result_policy policy output)) \<longrightarrow> r = result"
proof -
  let ?cs = "res_content (out_model_result output)"
  obtain t tr1 where t: "transform_model_text policy (res_output (out_model_result output)) no_transform = (t, tr1)"
    by fastforce
  define tr2 where "tr2 = (if length ?cs > max_content_items policy
     then tr1\<lparr>omitted_content_items := length ?cs - max_content_items policy\<rparr> else tr1)"
  obtain cs' tr3 where c: "retain_mut policy (take (max_content_items policy) ?cs) tr2 = (cs', tr3)" by fastforce
  have eq: "apply_tool_result_policy policy output =
      output\<lparr>out_model_result := (out_model_result output)\<lparr>res_output := t, res_content := cs'\<rparr>,
        out_model_transform := tr3,
        out_events := map (\<lambda>e. case e of
            ToolResult _ \<Rightarrow> ToolResult ((out_model_result output)\<lparr>res_output := t, res_content := cs'\<rparr>) | _ \<Rightarrow> e)
          (out_events output)\<rparr>"
  proof -
    have "(if length ?cs > max_content_items policy
        then (take (max_content_items policy) ?cs, tr1\<lparr>omitted_content_items := length ?cs - max_content_items policy\<rparr>)
        else (?cs, tr1)) = (take (max_content_items policy) ?cs, tr2)"
      by (simp add: tr2_def)
    then show ?thesis by (simp only: apply_tool_result_policy_def Let_def t prod.case c)
  qed
  have "omitted tr1 = omitted no_transform" "omitted_content_items tr1 = 0"
    using transform_text_eq(1)[OF t] by (simp_all add: omitted_def no_transform_def)
  then have tr2: "omitted tr2 = length ?cs - max_content_items policy"
    by (auto simp: tr2_def omitted_def no_transform_def)
  note ok = transform_text_eq(2,3)[OF t] retain_mut_ok[OF c]
  show "byte_len (res_output result) \<le> max_text_bytes policy"
    and "\<forall>c \<in> set (res_content result). within_bounds policy c"
    and "redactable policy \<Longrightarrow>
      clean policy (res_output result) \<and> (\<forall>c \<in> set (res_content result). \<forall>t \<in> set (visible_texts c). clean policy t)"
    and "res_call_id result = res_call_id (out_model_result output)"
    and "res_is_error result = res_is_error (out_model_result output)"
    and "out_invocation (apply_tool_result_policy policy output) = out_invocation output"
    using ok unfolding assms eq by auto
  have "omitted tr3 + length cs' = length ?cs - max_content_items policy + min (length ?cs) (max_content_items policy)"
    using ok(3) tr2 by (simp add: min.commute)
  then show "length (res_content result) + omitted tr = length ?cs" and "length (res_content result) \<le> max_content_items policy"
    using ok(3) tr2 unfolding assms eq by (auto simp: min_def split: if_splits)
  show "\<forall>r. ToolResult r \<in> set (out_events (apply_tool_result_policy policy output)) \<longrightarrow> r = result"
    unfolding assms eq by (auto split: agent_runtime_event.splits)
qed

text \<open>The artifact identity of a reference and its key reach the model as they are.\<close>

lemma reference_identity_untouched:
  assumes "retain_image_ref policy img tr = (Some (ImageRef r), tr')"
  shows "ref_artifact_id r = ref_artifact_id img \<and> ref_reference_key r = ref_reference_key img"
  using assms by (auto simp: retain_image_ref_def Let_def split: prod.splits if_splits option.splits)

lemma redact_value_policy:
  assumes "\<forall>v \<in> set (redacted_values policy). v \<noteq> []" and "distinct (redacted_values policy)"
  shows "(\<forall>v \<in> set (redacted_values (redact_value policy v)). v \<noteq> []) \<and>
    distinct (redacted_values (redact_value policy v))"
  using assms by (auto simp: redact_value_def)

section \<open>Outputs of a batch\<close>

lemma ordered_results:
  "i < len \<Longrightarrow> batch_results (ordered_batch_output len results st) ! i =
     (case results i of Some r \<Rightarrow> r | None \<Rightarrow> Inl TurnCancelled)"
  "length (batch_results (ordered_batch_output len results st)) = len"
  by (simp_all add: ordered_batch_output_def)

lemma ordered_settlement:
  "settlement_at (ordered_batch_output len results st) i =
     (if i < len \<and> results i \<noteq> None \<and> get st i = Some 0 then NeverDispatched
      else if i < len \<and> results i \<noteq> None \<and> get st i = Some 2 then Settled else Unresolved)"
  by (auto simp: settlement_at_def ordered_batch_output_def get_eq)

lemma cancelled_settlement:
  "settlement_at (cancelled_batch_output len) i = (if i < len then NeverDispatched else Unresolved)"
  by (simp add: settlement_at_def cancelled_batch_output_def get_eq)

end
