(* ===== verification/Tool_Batch.thy ===== *)
theory Tool_Batch
  imports Tool_Results
begin

text \<open>
  One provider round of tool calls in the runtime (\<open>packages/agent-runtime/src/lib.rs\<close>), up to the
  point where approved calls are handed to the scheduler, and what follows it: validation of the
  calls and of the host context, the guards against repeated batches and too many rounds, the
  tool catalog, preparation, authorization, and the messages the results become.

  What the code reads from the running world is an argument: whether the turn still accepts
  output when a call is looked at, which side of a \<open>select!\<close> came first, and the answers of the
  preparing and authorizing adapters.
\<close>

section \<open>Guards\<close>

definition saturating_inc32 :: "u32 \<Rightarrow> u32" where
  "saturating_inc32 n = saturating_add32 n 1"

record tool_round_state =
  max_tool_rounds :: u32
  completed_rounds :: u32

definition round_state_new :: "u32 \<Rightarrow> tool_round_state" where
  "round_state_new n = \<lparr>max_tool_rounds = n, completed_rounds = 0\<rparr>"

definition begin_round :: "tool_round_state \<Rightarrow> runtime_error + tool_round_state" where
  "begin_round s =
     (if completed_rounds s \<ge> max_tool_rounds s then Inl (MaxToolRounds (max_tool_rounds s))
      else Inr (s\<lparr>completed_rounds := saturating_inc32 (completed_rounds s)\<rparr>))"

record 'json tool_batch_repeat_guard =
  guard_limit :: u32
  guard_repeats :: u32
  guard_previous :: "(ustring \<times> 'json) list option"

definition repeat_guard_new :: "u32 \<Rightarrow> 'json tool_batch_repeat_guard" where
  "repeat_guard_new limit = \<lparr>guard_limit = limit, guard_repeats = 0, guard_previous = None\<rparr>"

definition semantic_batch :: "'json tool_call list \<Rightarrow> (ustring \<times> 'json) list" where
  "semantic_batch calls = map (\<lambda>c. (call_name c, call_arguments c)) calls"

text \<open>The guard counts also when it refuses.\<close>

definition observe_batch ::
    "'json tool_batch_repeat_guard \<Rightarrow> 'json tool_call list
       \<Rightarrow> 'json tool_batch_repeat_guard \<times> (runtime_error + unit)" where
  "observe_batch g calls =
     (let g' = (if guard_previous g = Some (semantic_batch calls)
                then g\<lparr>guard_repeats := saturating_inc32 (guard_repeats g)\<rparr>
                else g\<lparr>guard_repeats := 1, guard_previous := Some (semantic_batch calls)\<rparr>)
      in (g', if guard_repeats g' > guard_limit g'
              then Inl (RepeatedToolCallBatch (guard_repeats g') (guard_limit g')) else Inr ()))"

section \<open>Validation\<close>

fun validate_calls_from ::
    "nat \<Rightarrow> ustring set \<Rightarrow> 'json tool_call list \<Rightarrow> runtime_error + unit" where
  "validate_calls_from i ids [] = Inr ()"
| "validate_calls_from i ids (c # cs) =
     (if is_blank (call_id c) then Inl (MalformedProviderToolCall i (str ''tool-call id is empty''))
      else if is_blank (call_name c) then Inl (MalformedProviderToolCall i (str ''tool name is empty''))
      else if call_id c \<in> ids
      then Inl (MalformedProviderToolCall i (str ''duplicate tool-call id '' @ call_id c))
      else validate_calls_from (i + 1) (insert (call_id c) ids) cs)"

definition validate_provider_tool_calls :: "'json tool_call list \<Rightarrow> runtime_error + unit" where
  "validate_provider_tool_calls calls = validate_calls_from 0 {} calls"

definition TOOL_HOST_CONTEXT_MAX_ENTRIES :: nat where "TOOL_HOST_CONTEXT_MAX_ENTRIES = 32"
definition TOOL_HOST_CONTEXT_SCHEMA_MAX_BYTES :: nat where "TOOL_HOST_CONTEXT_SCHEMA_MAX_BYTES = 128"
definition TOOL_HOST_CONTEXT_PAYLOAD_MAX_BYTES :: nat where "TOOL_HOST_CONTEXT_PAYLOAD_MAX_BYTES = 64 * 1024"
definition TOOL_HOST_CONTEXT_TOTAL_MAX_BYTES :: nat where "TOOL_HOST_CONTEXT_TOTAL_MAX_BYTES = 256 * 1024"

text \<open>
  \<open>payload_len\<close> and \<open>context_len\<close> are the lengths of the JSON texts that \<open>serde_json::to_vec\<close> makes
  of a payload and of the whole context.
\<close>

fun validate_entries ::
    "('json \<Rightarrow> nat) \<Rightarrow> (ustring \<times> u32) set \<Rightarrow> 'json tool_host_context_entry list \<Rightarrow> runtime_error + unit" where
  "validate_entries payload_len seen [] = Inr ()"
| "validate_entries payload_len seen (e # es) =
     (if host_schema e = []
      then Inl (InvalidToolHostContext (str ''schema identifier must not be empty''))
      else if byte_len (host_schema e) > TOOL_HOST_CONTEXT_SCHEMA_MAX_BYTES
      then Inl (InvalidToolHostContext (str ''schema identifier is '' @ show_nat (byte_len (host_schema e))
             @ str '' bytes; maximum is '' @ show_nat TOOL_HOST_CONTEXT_SCHEMA_MAX_BYTES))
      else if host_schema_version e = 0
      then Inl (InvalidToolHostContext (str ''schema '' @ host_schema e @ str '' has version zero''))
      else if (host_schema e, host_schema_version e) \<in> seen
      then Inl (InvalidToolHostContext (str ''duplicate schema '' @ host_schema e @ str '' version ''
             @ show_nat (unat (host_schema_version e))))
      else if payload_len (host_payload e) > TOOL_HOST_CONTEXT_PAYLOAD_MAX_BYTES
      then Inl (InvalidToolHostContext (str ''schema '' @ host_schema e @ str '' payload is ''
             @ show_nat (payload_len (host_payload e)) @ str '' bytes; maximum is ''
             @ show_nat TOOL_HOST_CONTEXT_PAYLOAD_MAX_BYTES))
      else validate_entries payload_len (insert (host_schema e, host_schema_version e) seen) es)"

definition validate_tool_host_context ::
    "('json \<Rightarrow> nat) \<Rightarrow> ('json tool_host_context_entry list \<Rightarrow> nat) \<Rightarrow> 'json tool_host_context_entry list
       \<Rightarrow> runtime_error + unit" where
  "validate_tool_host_context payload_len context_len entries =
     (if length entries > TOOL_HOST_CONTEXT_MAX_ENTRIES
      then Inl (InvalidToolHostContext (str ''received '' @ show_nat (length entries)
             @ str '' entries; maximum is '' @ show_nat TOOL_HOST_CONTEXT_MAX_ENTRIES))
      else (case validate_entries payload_len {} entries of
              Inl e \<Rightarrow> Inl e
            | Inr _ \<Rightarrow>
                if context_len entries > TOOL_HOST_CONTEXT_TOTAL_MAX_BYTES
                then Inl (InvalidToolHostContext (str ''serialized context is '' @ show_nat (context_len entries)
                       @ str '' bytes; maximum is '' @ show_nat TOOL_HOST_CONTEXT_TOTAL_MAX_BYTES))
                else Inr ()))"

section \<open>The tool catalog\<close>

type_synonym 'json unified_tool_catalog = "(ustring, 'json registered_tool) btree"

definition catalog_insert ::
    "'json registered_tool \<Rightarrow> 'json unified_tool_catalog \<Rightarrow> 'json unified_tool_catalog" where
  "catalog_insert tool catalog = bt_insert (def_name (registered_tool.tool_definition tool)) tool catalog"

definition with_inline_tool ::
    "'json unified_tool_catalog \<Rightarrow> 'json tool_definition \<Rightarrow> 'json unified_tool_catalog" where
  "with_inline_tool catalog d = catalog_insert (inline_tool d) catalog"

definition with_plugin_tool ::
    "'json unified_tool_catalog \<Rightarrow> 'json tool_definition \<Rightarrow> ustring \<Rightarrow> 'json unified_tool_catalog" where
  "with_plugin_tool catalog d plugin_id = catalog_insert (plugin_tool d plugin_id) catalog"

definition find_tool :: "'json unified_tool_catalog \<Rightarrow> ustring \<Rightarrow> 'json registered_tool option" where
  "find_tool catalog name = bt_get catalog name"

definition catalog_tools :: "'json unified_tool_catalog \<Rightarrow> 'json registered_tool list" where
  "catalog_tools catalog = map snd catalog"

section \<open>Preparation\<close>

type_synonym ('json, 'data) terminal_results =
  "nat \<rightharpoonup> runtime_error + ('json, 'data) tool_execution_output"

record 'json prepared_call =
  pc_index :: nat
  pc_call :: "'json tool_call"
  pc_tool :: "'json registered_tool"
  pc_invocation :: "'json prepared_tool_invocation"

definition tool_invocation_descriptor_of :: "'json tool_call \<Rightarrow> 'json tool_invocation_descriptor" where
  "tool_invocation_descriptor_of call = \<lparr>desc_invocation_id = call_id call, desc_tool_name = call_name call,
     desc_arguments = call_arguments call\<rparr>"

text \<open>Which branch of the \<open>select!\<close> around a preparation was ready first.\<close>

datatype preparation_race = PreparationCancelled | PreparationTimedOut | PreparationAnswered

record ('json) preparation_env =
  prep_catalog :: "'json unified_tool_catalog"
  prep_tool :: "'json registered_tool \<Rightarrow> 'json tool_preparation_request
                  \<Rightarrow> runtime_error + 'json tool_preparation_response"
  prep_accepts :: "nat \<Rightarrow> bool"
  prep_race :: "nat \<Rightarrow> preparation_race"

definition prepare_call ::
    "'json preparation_env \<Rightarrow> 'json tool_host_context_entry list \<Rightarrow> duration \<Rightarrow> nat \<Rightarrow> 'json tool_call
       \<Rightarrow> runtime_error + 'json prepared_call" where
  "prepare_call env host_context timeout i call =
     (if \<not> prep_accepts env i then Inl TurnCancelled
      else (case find_tool (prep_catalog env) (call_name call) of
              None \<Rightarrow> Inl (ToolNotFound (call_name call))
            | Some tool \<Rightarrow>
                (let invocation = tool_invocation_descriptor_of call
                 in case (case prep_race env i of
                            PreparationCancelled \<Rightarrow> Inl TurnCancelled
                          | PreparationTimedOut \<Rightarrow> Inl (ToolPreparationTimeout (call_name call) timeout)
                          | PreparationAnswered \<Rightarrow>
                              prep_tool env tool \<lparr>preq_invocation = invocation, preq_host_context = host_context\<rparr>) of
                      Inl e \<Rightarrow> Inl e
                    | Inr preparation \<Rightarrow> Inr \<lparr>pc_index = i, pc_call = call, pc_tool = tool,
                        pc_invocation = \<lparr>pti_invocation = invocation, pti_preparation = preparation\<rparr>\<rparr>)))"

fun prepare_from ::
    "'json preparation_env \<Rightarrow> 'json tool_host_context_entry list \<Rightarrow> duration \<Rightarrow> nat \<Rightarrow> 'json tool_call list
       \<Rightarrow> 'json prepared_call list \<Rightarrow> ('json, 'data) terminal_results
       \<Rightarrow> 'json prepared_call list \<times> ('json, 'data) terminal_results" where
  "prepare_from env host_context timeout i [] prepared terminal = (prepared, terminal)"
| "prepare_from env host_context timeout i (c # cs) prepared terminal =
     (case prepare_call env host_context timeout i c of
        Inr p \<Rightarrow> prepare_from env host_context timeout (i + 1) cs (prepared @ [p]) terminal
      | Inl e \<Rightarrow> prepare_from env host_context timeout (i + 1) cs prepared (terminal(i \<mapsto> Inl e)))"

definition prepare_runtime_tool_batch ::
    "'json preparation_env \<Rightarrow> 'json tool_call list \<Rightarrow> 'json tool_host_context_entry list \<Rightarrow> duration
       \<Rightarrow> ('json, 'data) terminal_results \<Rightarrow> 'json prepared_call list \<times> ('json, 'data) terminal_results" where
  "prepare_runtime_tool_batch env calls host_context timeout terminal =
     prepare_from env host_context timeout 0 calls [] terminal"

section \<open>Authorization\<close>

fun insert_cancelled_calls ::
    "('json, 'data) terminal_results \<Rightarrow> 'json prepared_call list \<Rightarrow> ('json, 'data) terminal_results" where
  "insert_cancelled_calls terminal [] = terminal"
| "insert_cancelled_calls terminal (p # ps) =
     insert_cancelled_calls (terminal(pc_index p \<mapsto> Inl TurnCancelled)) ps"

fun apply_tool_authorization_decisions ::
    "'json prepared_call list \<Rightarrow> authorization_decision list \<Rightarrow> ('json, 'data) terminal_results
       \<Rightarrow> 'json prepared_call list \<times> ('json, 'data) terminal_results" where
  "apply_tool_authorization_decisions (p # ps) (d # ds) terminal =
     (case d of
        AuthAllow \<Rightarrow>
          (case apply_tool_authorization_decisions ps ds terminal of (approved, t) \<Rightarrow> (p # approved, t))
      | AuthAsk reason \<Rightarrow>
          apply_tool_authorization_decisions ps ds (terminal(pc_index p \<mapsto> Inl (PermissionRequired reason)))
      | AuthDeny reason \<Rightarrow>
          apply_tool_authorization_decisions ps ds (terminal(pc_index p \<mapsto> Inl (PermissionDenied reason))))"
| "apply_tool_authorization_decisions _ _ terminal = ([], terminal)"

definition authorization_request_of ::
    "runtime_permission_context \<Rightarrow> 'json prepared_call \<Rightarrow> 'json authorization_request" where
  "authorization_request_of context p = \<lparr>areq_index = pc_index p, areq_call = pc_call p, areq_tool = pc_tool p,
     areq_facts = pr_authorization (pti_preparation (pc_invocation p)), areq_context = context\<rparr>"

text \<open>\<open>cancelled\<close>: the turn was cancelled before the coordinator answered.\<close>

definition authorize_runtime_tool_batch ::
    "('json authorization_request list \<Rightarrow> runtime_error + authorization_decision list) \<Rightarrow> bool
       \<Rightarrow> 'json prepared_call list \<Rightarrow> runtime_permission_context \<Rightarrow> ('json, 'data) terminal_results
       \<Rightarrow> runtime_error + ('json prepared_call list \<times> ('json, 'data) terminal_results)" where
  "authorize_runtime_tool_batch authorize cancelled prepared context terminal =
     (if cancelled then Inr ([], insert_cancelled_calls terminal prepared)
      else (case authorize (map (authorization_request_of context) prepared) of
              Inl e \<Rightarrow> Inl e
            | Inr decisions \<Rightarrow>
                if length decisions \<noteq> length prepared
                then Inl (InvalidBatchResponse (str ''authorization'') (length prepared) (length decisions))
                else Inr (apply_tool_authorization_decisions prepared decisions terminal)))"

section \<open>Execution groups\<close>

definition batch_concurrency :: "tool_execution_options \<Rightarrow> nat \<Rightarrow> nat" where
  "batch_concurrency options batch_len =
     (case opt_max_concurrency options of None \<Rightarrow> max batch_len 1 | Some n \<Rightarrow> n)"

definition provider_batch_execution_groups :: "'p list \<Rightarrow> bool \<Rightarrow> 'p list list" where
  "provider_batch_execution_groups prepared in_parallel =
     (if in_parallel \<and> prepared \<noteq> [] then [prepared] else map (\<lambda>p. [p]) prepared)"

section \<open>Messages\<close>

datatype message_role = SystemRole | UserRole | AssistantRole | ToolRole

datatype ('json, 'data) content_block =
    TextBlock ustring
  | ImageBlock image_content
  | ToolCallBlock "'json tool_call"
  | ToolResultBlock tool_result
  | CachePointBlock 'data
  | ProviderExtensionBlock 'json

record ('json, 'data) model_message =
  msg_role :: message_role
  msg_content :: "('json, 'data) content_block list"

definition append_provider_tool_calls ::
    "('json, 'data) model_message list \<Rightarrow> ustring \<Rightarrow> 'json tool_call list
       \<Rightarrow> ('json, 'data) model_message list" where
  "append_provider_tool_calls messages response_text calls =
     messages @ [\<lparr>msg_role = AssistantRole,
       msg_content = (if response_text = [] then [] else [TextBlock response_text]) @ map ToolCallBlock calls\<rparr>]"

text \<open>
  \<open>append_tool_batch_results\<close>. The observer and the emission of an event may refuse; what was
  appended before stays. \<open>emits i\<close> is the answer of \<open>scope.emit\<close> for call \<open>i\<close>, \<open>show_err\<close> the text
  of an error.
\<close>

definition is_tool_result :: "('json, 'data) agent_runtime_event \<Rightarrow> bool" where
  "is_tool_result e \<longleftrightarrow> (case e of ToolResult _ \<Rightarrow> True | _ \<Rightarrow> False)"

record ('json, 'data) append_env =
  ae_observer :: "'json tool_call \<Rightarrow> ('json, 'data) tool_execution_output \<Rightarrow> runtime_error + unit"
  ae_emits :: "nat \<Rightarrow> bool"
  ae_show_err :: "runtime_error \<Rightarrow> ustring"

definition tool_message :: "tool_result \<Rightarrow> ('json, 'data) model_message" where
  "tool_message r = \<lparr>msg_role = ToolRole, msg_content = [ToolResultBlock r]\<rparr>"

definition error_tool_result ::
    "('json, 'data) append_env \<Rightarrow> tool_result_policy \<Rightarrow> 'json tool_call \<Rightarrow> runtime_error \<Rightarrow> tool_result" where
  "error_tool_result env policy call e =
     \<lparr>res_call_id = call_id call,
      res_output = fst (transform_model_text policy (ae_show_err env e) no_transform),
      res_is_error = True, res_content = []\<rparr>"

fun append_results_from ::
    "('json, 'data) append_env \<Rightarrow> tool_result_policy \<Rightarrow> nat
       \<Rightarrow> ('json tool_call \<times> (runtime_error + ('json, 'data) tool_execution_output)) list
       \<Rightarrow> ('json, 'data) model_message list \<Rightarrow> ('json, 'data) agent_runtime_event list
       \<Rightarrow> ('json, 'data) model_message list \<times> ('json, 'data) agent_runtime_event list \<times> (runtime_error + unit)" where
  "append_results_from env policy i [] messages events = (messages, events, Inr ())"
| "append_results_from env policy i ((call, Inr output) # rest) messages events =
     (case ae_observer env call output of
        Inl e \<Rightarrow> (messages, events, Inl e)
      | Inr _ \<Rightarrow>
          append_results_from env policy (i + 1) rest
            (messages @ [tool_message (out_model_result output)])
            (events @ (case List.find is_tool_result (out_events output) of None \<Rightarrow> [] | Some ev \<Rightarrow> [ev])))"
| "append_results_from env policy i ((call, Inl e) # rest) messages events =
     (let result = error_tool_result env policy call e
      in if \<not> ae_emits env i then (messages, events, Inl TurnCancelled)
         else append_results_from env policy (i + 1) rest (messages @ [tool_message result])
                (events @ [ToolResult result]))"

definition append_tool_batch_results ::
    "('json, 'data) append_env \<Rightarrow> tool_result_policy \<Rightarrow> 'json tool_call list
       \<Rightarrow> ('json, 'data) tool_batch_execution_output
       \<Rightarrow> ('json, 'data) model_message list \<Rightarrow> ('json, 'data) agent_runtime_event list
       \<Rightarrow> ('json, 'data) model_message list \<times> ('json, 'data) agent_runtime_event list \<times> (runtime_error + unit)" where
  "append_tool_batch_results env policy calls batch messages events =
     (if length (batch_results batch) \<noteq> length calls
         \<or> list_ex (\<lambda>i. settlement_at batch i = Unresolved) [0..<length calls]
      then (messages, events, Inl ToolEffectsUnresolved)
      else append_results_from env policy 0 (zip calls (batch_results batch)) messages events)"

section \<open>Facts about guards and validation\<close>

lemma begin_round_bound:
  assumes "begin_round s = Inr s'" and "unat (completed_rounds s) \<le> unat (max_tool_rounds s)"
  shows "unat (completed_rounds s') = unat (completed_rounds s) + 1"
    and "unat (completed_rounds s') \<le> unat (max_tool_rounds s')" and "max_tool_rounds s' = max_tool_rounds s"
proof -
  have lt: "unat (completed_rounds s) < unat (max_tool_rounds s)"
    using assms(1) by (auto simp: begin_round_def word_le_nat_alt not_le split: if_splits)
  also have "\<dots> \<le> 2 ^ 32 - 1" using unsigned_less[where w = "max_tool_rounds s" and 'a = nat] by simp
  finally have "unat (completed_rounds s) + 1 \<le> 2 ^ 32 - 1" by simp
  then have "unat (saturating_inc32 (completed_rounds s)) = unat (completed_rounds s) + 1"
    by (simp add: saturating_inc32_def unat_saturating_add32)
  with lt assms(1) show "unat (completed_rounds s') = unat (completed_rounds s) + 1"
    and "unat (completed_rounds s') \<le> unat (max_tool_rounds s')" and "max_tool_rounds s' = max_tool_rounds s"
    by (auto simp: begin_round_def split: if_splits)
qed

lemma validate_calls_ok:
  "validate_calls_from i ids calls = Inr () \<longleftrightarrow>
     (\<forall>c \<in> set calls. \<not> is_blank (call_id c) \<and> \<not> is_blank (call_name c)) \<and>
     distinct (map call_id calls) \<and> ids \<inter> call_id ` set calls = {}"
  by (induction i ids calls rule: validate_calls_from.induct) auto

lemma validate_calls_index:
  "validate_calls_from i ids calls = Inl e \<Longrightarrow>
     \<exists>j m. e = MalformedProviderToolCall j m \<and> i \<le> j \<and> j < i + length calls \<and>
       validate_calls_from i ids (take (j - i) calls) = Inr ()"
proof (induction i ids calls rule: validate_calls_from.induct)
  case (2 i ids c cs)
  show ?case
  proof (cases "is_blank (call_id c) \<or> is_blank (call_name c) \<or> call_id c \<in> ids")
    case True
    with 2(2) show ?thesis by (auto split: if_splits)
  next
    case False
    with 2 obtain j m where "e = MalformedProviderToolCall j m" "i + 1 \<le> j" "j < i + 1 + length cs"
      "validate_calls_from (i + 1) (insert (call_id c) ids) (take (j - (i + 1)) cs) = Inr ()"
      by auto
    moreover from this have "take (j - i) (c # cs) = c # take (j - (i + 1)) cs" by (simp add: take_Cons')
    ultimately show ?thesis using False by (intro exI[of _ j] exI[of _ m]) auto
  qed
qed simp

lemma validate_entries_ok:
  "validate_entries payload_len seen entries = Inr () \<longleftrightarrow>
     (\<forall>e \<in> set entries. host_schema e \<noteq> [] \<and> byte_len (host_schema e) \<le> TOOL_HOST_CONTEXT_SCHEMA_MAX_BYTES \<and>
        host_schema_version e \<noteq> 0 \<and> payload_len (host_payload e) \<le> TOOL_HOST_CONTEXT_PAYLOAD_MAX_BYTES) \<and>
     distinct (map (\<lambda>e. (host_schema e, host_schema_version e)) entries) \<and>
     seen \<inter> (\<lambda>e. (host_schema e, host_schema_version e)) ` set entries = {}"
  by (induction payload_len seen entries rule: validate_entries.induct) auto

lemma find_inserted:
  "btree_ok catalog \<Longrightarrow> find_tool (catalog_insert tool catalog) name =
     (if name = def_name (registered_tool.tool_definition tool) then Some tool else find_tool catalog name)"
  by (simp add: find_tool_def catalog_insert_def bt_get_insert)

text \<open>The guard lets a batch through at most \<open>limit\<close> times in a row.\<close>

fun observe_all ::
    "'json tool_batch_repeat_guard \<Rightarrow> 'json tool_call list list
       \<Rightarrow> 'json tool_batch_repeat_guard \<times> (runtime_error + unit) list" where
  "observe_all g [] = (g, [])"
| "observe_all g (b # bs) =
     (case observe_batch g b of (g1, r) \<Rightarrow> (case observe_all g1 bs of (g2, rs) \<Rightarrow> (g2, r # rs)))"

lemma observe_repeats:
  assumes "\<forall>b \<in> set bs. semantic_batch b = sem" and "guard_previous g = Some sem"
    and "unat (guard_repeats g) + length bs < 2 ^ 32"
  shows "snd (observe_all g bs) = map (\<lambda>k.
      if unat (guard_repeats g) + Suc k > unat (guard_limit g)
      then Inl (RepeatedToolCallBatch (guard_repeats g + of_nat (Suc k)) (guard_limit g)) else Inr ())
    [0..<length bs]"
  using assms
proof (induction bs arbitrary: g)
  case (Cons b bs)
  let ?g = "g\<lparr>guard_repeats := guard_repeats g + 1\<rparr>"
  from Cons.prems have lt: "unat (guard_repeats g) + 1 < 2 ^ 32" by simp
  then have inc: "saturating_inc32 (guard_repeats g) = guard_repeats g + 1"
    by (simp add: saturating_inc32_def saturating_add32_def)
  have u: "unat (guard_repeats g + 1) = unat (guard_repeats g) + 1"
    using lt by (simp add: unat_word_ariths)
  have o: "observe_batch g b = (?g, if unat (guard_repeats g) + 1 > unat (guard_limit g)
      then Inl (RepeatedToolCallBatch (guard_repeats g + 1) (guard_limit g)) else Inr ())"
    using Cons.prems inc u by (simp add: observe_batch_def Let_def word_less_nat_alt)
  have "snd (observe_all ?g bs) = map (\<lambda>k.
      if unat (guard_repeats ?g) + Suc k > unat (guard_limit ?g)
      then Inl (RepeatedToolCallBatch (guard_repeats ?g + of_nat (Suc k)) (guard_limit ?g)) else Inr ())
    [0..<length bs]"
    by (rule Cons.IH) (use Cons.prems u in simp_all)
  moreover have "snd (observe_all g (b # bs)) = snd (observe_batch g b) # snd (observe_all ?g bs)"
    by (simp add: o split: prod.splits)
  moreover have "length (b # bs) = Suc (length bs)" by simp
  ultimately show ?case
    unfolding map_upt_Suc by (simp only: o map_upt_Suc) (simp add: u u[unfolded add.commute[of _ 1]] algebra_simps)
qed simp

section \<open>Facts about preparation and authorization\<close>

lemma prepare_call_Inr:
  assumes "prepare_call env host_context timeout i call = Inr p"
  shows "pc_index p = i" and "pc_call p = call" and "prep_accepts env i"
    and "find_tool (prep_catalog env) (call_name call) = Some (pc_tool p)"
    and "prep_race env i = PreparationAnswered"
    and "prep_tool env (pc_tool p) \<lparr>preq_invocation = tool_invocation_descriptor_of call,
      preq_host_context = host_context\<rparr> = Inr (pti_preparation (pc_invocation p))"
    and "pti_invocation (pc_invocation p) = tool_invocation_descriptor_of call"
  using assms by (auto simp: prepare_call_def Let_def split: if_splits option.splits sum.splits preparation_race.splits)

text \<open>The calls that could be prepared, in order; every other call has its error as result.\<close>

lemma prepare_from_facts:
  assumes "prepare_from env host_context timeout i calls prepared terminal = (ps, t)"
  shows "\<exists>qs. ps = prepared @ qs \<and> sorted_wrt (<) (map pc_index qs) \<and>
    (\<forall>q. q \<in> set qs \<longleftrightarrow> (\<exists>k < length calls. prepare_call env host_context timeout (i + k) (calls ! k) = Inr q)) \<and>
    (\<forall>k < length calls. t (i + k) = (case prepare_call env host_context timeout (i + k) (calls ! k) of
        Inl e \<Rightarrow> Some (Inl e) | Inr _ \<Rightarrow> terminal (i + k))) \<and>
    (\<forall>j. j < i \<longrightarrow> t j = terminal j)"
  using assms
proof (induction calls arbitrary: i prepared terminal)
  case (Cons c cs)
  have split_k: "(\<exists>k < length (c # cs). P k) \<longleftrightarrow> P 0 \<or> (\<exists>k < length cs. P (Suc k))"
    "(\<forall>k < length (c # cs). P k) \<longleftrightarrow> P 0 \<and> (\<forall>k < length cs. P (Suc k))" for P
    by (auto simp: less_Suc_eq_0_disj)
  show ?case
  proof (cases "prepare_call env host_context timeout i c")
    case (Inl e)
    have "prepare_from env host_context timeout (i + 1) cs prepared (terminal(i \<mapsto> Inl e)) = (ps, t)"
      using Cons.prems Inl by simp
    from Cons.IH[OF this] obtain qs where
      qs: "ps = prepared @ qs" "sorted_wrt (<) (map pc_index qs)"
        "\<forall>q. q \<in> set qs \<longleftrightarrow> (\<exists>k < length cs. prepare_call env host_context timeout (i + 1 + k) (cs ! k) = Inr q)"
        "\<forall>k < length cs. t (i + 1 + k) = (case prepare_call env host_context timeout (i + 1 + k) (cs ! k) of
           Inl e \<Rightarrow> Some (Inl e) | Inr _ \<Rightarrow> (terminal(i \<mapsto> Inl e)) (i + 1 + k))"
        "\<forall>j. j < i + 1 \<longrightarrow> t j = (terminal(i \<mapsto> Inl e)) j"
      by auto
    then show ?thesis unfolding split_k using Inl by (intro exI[of _ qs]) (auto cong: sum.case_cong)
  next
    case (Inr p)
    from Cons.IH[of "i + 1" "prepared @ [p]" terminal] Cons.prems Inr obtain qs where
      qs: "ps = (prepared @ [p]) @ qs" "sorted_wrt (<) (map pc_index qs)"
        "\<forall>q. q \<in> set qs \<longleftrightarrow> (\<exists>k < length cs. prepare_call env host_context timeout (i + 1 + k) (cs ! k) = Inr q)"
        "\<forall>k < length cs. t (i + 1 + k) = (case prepare_call env host_context timeout (i + 1 + k) (cs ! k) of
           Inl e \<Rightarrow> Some (Inl e) | Inr _ \<Rightarrow> terminal (i + 1 + k))"
        "\<forall>j. j < i + 1 \<longrightarrow> t j = terminal j"
      by auto
    have "\<forall>q \<in> set qs. i < pc_index q" using qs(3) prepare_call_Inr(1) by fastforce
    then show ?thesis
      unfolding split_k using qs Inr prepare_call_Inr(1)[OF Inr] by (intro exI[of _ "p # qs"]) (auto cong: sum.case_cong)
  qed
qed auto

lemma prepare_batch_facts:
  assumes "prepare_runtime_tool_batch env calls host_context timeout (\<lambda>_. None) = (ps, t)"
  shows "sorted_wrt (<) (map pc_index ps)"
    and "q \<in> set ps \<Longrightarrow> pc_index q < length calls \<and> prepare_call env host_context timeout (pc_index q) (calls ! pc_index q) = Inr q"
    and "i < length calls \<Longrightarrow> prepare_call env host_context timeout i (calls ! i) = Inr q \<Longrightarrow> q \<in> set ps"
    and "i < length calls \<Longrightarrow> t i = (case prepare_call env host_context timeout i (calls ! i) of
        Inl e \<Rightarrow> Some (Inl e) | Inr _ \<Rightarrow> None)"
  using prepare_from_facts[OF assms[unfolded prepare_runtime_tool_batch_def]] prepare_call_Inr(1)
  by fastforce+

lemma prepare_batch_open:
  assumes "prepare_runtime_tool_batch env calls host_context timeout (\<lambda>_. None) = (ps, t)" and "i < length calls"
  shows "t i = None \<longleftrightarrow> i \<in> pc_index ` set ps"
proof (cases "prepare_call env host_context timeout i (calls ! i)")
  case (Inl e)
  with prepare_batch_facts(2)[OF assms(1)] have "i \<notin> pc_index ` set ps" by force
  with Inl prepare_batch_facts(4)[OF assms(1,2)] show ?thesis by simp
next
  case (Inr q)
  with prepare_batch_facts(3)[OF assms Inr] prepare_call_Inr(1)[OF Inr] have "i \<in> pc_index ` set ps" by force
  with Inr prepare_batch_facts(4)[OF assms(1,2)] show ?thesis by simp
qed

lemma insert_cancelled:
  "insert_cancelled_calls terminal ps j = (if j \<in> pc_index ` set ps then Some (Inl TurnCancelled) else terminal j)"
  by (induction ps arbitrary: terminal) simp_all

definition refusal :: "authorization_decision \<Rightarrow> runtime_error option" where
  "refusal d = (case d of AuthAllow \<Rightarrow> None | AuthAsk r \<Rightarrow> Some (PermissionRequired r) | AuthDeny r \<Rightarrow> Some (PermissionDenied r))"

lemma apply_decisions_approved:
  assumes "length ps = length ds"
  shows "fst (apply_tool_authorization_decisions ps ds terminal) = map fst (filter (\<lambda>(p, d). d = AuthAllow) (zip ps ds))"
  using assms
  by (induction ps ds arbitrary: terminal rule: list_induct2) (auto simp: case_prod_beta split: authorization_decision.splits)

lemma apply_decisions_terminal:
  assumes "length ps = length ds" and "distinct (map pc_index ps)"
  shows "\<forall>(p, d) \<in> set (zip ps ds). snd (apply_tool_authorization_decisions ps ds terminal) (pc_index p) =
      (case refusal d of None \<Rightarrow> terminal (pc_index p) | Some e \<Rightarrow> Some (Inl e))"
    and "\<forall>j. j \<notin> pc_index ` set ps \<longrightarrow> snd (apply_tool_authorization_decisions ps ds terminal) j = terminal j"
proof -
  have "(\<forall>(p, d) \<in> set (zip ps ds). snd (apply_tool_authorization_decisions ps ds terminal) (pc_index p) =
        (case refusal d of None \<Rightarrow> terminal (pc_index p) | Some e \<Rightarrow> Some (Inl e))) \<and>
      (\<forall>j. j \<notin> pc_index ` set ps \<longrightarrow> snd (apply_tool_authorization_decisions ps ds terminal) j = terminal j)"
    using assms
  proof (induction ps ds arbitrary: terminal rule: list_induct2)
    case (Cons p ps d ds)
    define t0 where "t0 = (case refusal d of None \<Rightarrow> terminal | Some e \<Rightarrow> terminal(pc_index p \<mapsto> Inl e))"
    have eq: "snd (apply_tool_authorization_decisions (p # ps) (d # ds) terminal)
        = snd (apply_tool_authorization_decisions ps ds t0)"
      by (cases d) (auto simp: t0_def refusal_def split: prod.splits)
    have other: "t0 (pc_index q) = terminal (pc_index q)" if "q \<in> set ps" for q
    proof -
      have "pc_index q \<noteq> pc_index p" using that Cons.prems by (metis distinct.simps(2) image_eqI list.map(2) set_map)
      then show ?thesis by (simp add: t0_def split: option.splits)
    qed
    have "distinct (map pc_index ps)" using Cons.prems by simp
    note IH = Cons.IH[OF this, of t0]
    have "snd (apply_tool_authorization_decisions ps ds t0) (pc_index q) =
        (case refusal e of None \<Rightarrow> terminal (pc_index q) | Some er \<Rightarrow> Some (Inl er))"
      if z: "(q, e) \<in> set (zip ps ds)" for q e
    proof -
      have "q \<in> set ps" using z by (rule set_zip_leftD)
      then have "t0 (pc_index q) = terminal (pc_index q)" by (rule other)
      with bspec[OF IH[THEN conjunct1] z] show ?thesis by (simp split: option.splits)
    qed
    moreover have "snd (apply_tool_authorization_decisions ps ds t0) (pc_index p) = t0 (pc_index p)"
      using Cons.IH[of t0] Cons.prems by auto
    moreover have "j \<notin> pc_index ` set (p # ps) \<Longrightarrow> snd (apply_tool_authorization_decisions ps ds t0) j = terminal j" for j
      using Cons.IH[of t0] Cons.prems by (auto simp: t0_def split: option.splits)
    moreover have "t0 (pc_index p) = (case refusal d of None \<Rightarrow> terminal (pc_index p) | Some e \<Rightarrow> Some (Inl e))"
      by (simp add: t0_def split: option.splits)
    ultimately show ?case unfolding eq by auto
  qed simp
  then show "\<forall>(p, d) \<in> set (zip ps ds). snd (apply_tool_authorization_decisions ps ds terminal) (pc_index p) =
      (case refusal d of None \<Rightarrow> terminal (pc_index p) | Some e \<Rightarrow> Some (Inl e))"
    and "\<forall>j. j \<notin> pc_index ` set ps \<longrightarrow> snd (apply_tool_authorization_decisions ps ds terminal) j = terminal j"
    by blast+
qed

section \<open>Facts about messages\<close>

lemma append_results_appends:
  "append_results_from env policy i rs ms es = (ms', es', r) \<Longrightarrow> prefix ms ms' \<and> prefix es es'"
proof (induction env policy i rs ms es arbitrary: ms' es' r rule: append_results_from.induct)
  case (2 env policy i call out rest ms es)
  then show ?case by (auto split: sum.splits dest: append_prefixD)
next
  case (3 env policy i call e rest ms es)
  then show ?case by (auto simp: Let_def split: if_splits dest: append_prefixD)
qed simp

text \<open>What the model is told about a call.\<close>

definition reported_result ::
    "('json, 'data) append_env \<Rightarrow> tool_result_policy \<Rightarrow> 'json tool_call
       \<Rightarrow> runtime_error + ('json, 'data) tool_execution_output \<Rightarrow> tool_result" where
  "reported_result env policy call r =
     (case r of Inr out \<Rightarrow> out_model_result out | Inl e \<Rightarrow> error_tool_result env policy call e)"

lemma append_results_ok:
  "append_results_from env policy i rs ms es = (ms', es', Inr ()) \<Longrightarrow>
     ms' = ms @ map (\<lambda>(c, r). tool_message (reported_result env policy c r)) rs"
  by (induction env policy i rs ms es arbitrary: ms' es' rule: append_results_from.induct)
    (auto simp: reported_result_def Let_def split: sum.splits if_splits)

lemma append_batch_ok:
  assumes "append_tool_batch_results env policy calls batch ms es = (ms', es', Inr ())"
  shows "length (batch_results batch) = length calls" and "i < length calls \<Longrightarrow> settlement_at batch i \<noteq> Unresolved"
    and "ms' = ms @ map (\<lambda>(c, r). tool_message (reported_result env policy c r)) (zip calls (batch_results batch))"
  using assms append_results_ok
  by (auto simp: append_tool_batch_results_def list_ex_iff split: if_splits)

lemma append_batch_unresolved:
  assumes "length (batch_results batch) \<noteq> length calls \<or> (\<exists>i < length calls. settlement_at batch i = Unresolved)"
  shows "append_tool_batch_results env policy calls batch ms es = (ms, es, Inl ToolEffectsUnresolved)"
  using assms by (auto simp: append_tool_batch_results_def list_ex_iff)

end
