(* ===== verification/Tool_Scheduler.thy ===== *)
theory Tool_Scheduler
  imports Tool_Batch "HOL-Library.Multiset"
begin

text \<open>
  The scheduler of the runtime (\<open>packages/agent-runtime/src/lib.rs\<close>): \<open>execute_runtime_tool_group\<close>
  runs the approved calls of a group with bounded concurrency, \<open>invoke_prepared_tool\<close> runs one,
  and \<open>execute_prepared_tool_batch_with_host_context\<close> composes a whole provider batch.

  A group is a step relation. Any call may be polled first, return, or be overtaken by
  cancellation at any time; the calls in flight (\<open>buffer_unordered\<close>) are the oldest that have not
  completed, at most \<open>concurrency\<close> of them. \<open>settlement\<close> is the shared array of counters: 0 never
  dispatched, 1 dispatched, 2 returned with its effects settled. \<open>gs_invoked\<close> records the calls of
  \<open>invoke_tool\<close> in their order; it has no counterpart in the code.
\<close>

section \<open>One invocation\<close>

text \<open>
  What the future of \<open>invoke_tool\<close> comes to: its answer, whether the invocation declared its
  effects unresolved, and whether the scope took the events that are published afterwards.
\<close>

record 'data invocation_outcome =
  io_response :: "ustring + 'data tool_invocation_response"
  io_unresolved :: bool
  io_emitted :: bool

text \<open>\<open>invoke_prepared_tool\<close> from the return of \<open>invoke_tool\<close> on; \<open>open\<close>: the turn accepts output.\<close>

definition finish_invocation ::
    "tool_result_policy \<Rightarrow> bool \<Rightarrow> 'json tool_call \<Rightarrow> 'data invocation_outcome
       \<Rightarrow> runtime_error + ('json, 'data) tool_execution_output" where
  "finish_invocation policy open_turn call oc =
     (case io_response oc of
        Inl message \<Rightarrow>
          if \<not> open_turn then Inl TurnCancelled else Inl (ToolExecution (call_name call) message)
      | Inr response \<Rightarrow>
          (let output = apply_tool_result_policy policy (tool_execution_output_of call response)
           in if \<not> open_turn then Inl TurnCancelled
              else if list_ex (\<lambda>e. case e of ToolCallFinished _ \<Rightarrow> False | _ \<Rightarrow> True) (out_events output)
                      \<and> \<not> io_emitted oc
              then Inl TurnCancelled
              else Inr output))"

section \<open>A group\<close>

datatype group_phase = Scheduling | Draining | Finished

record ('json, 'data) group_state =
  gs_queue :: "'json prepared_call list"
  gs_running :: "'json prepared_call list"
  gs_completions :: "(nat \<times> (runtime_error + ('json, 'data) tool_execution_output)) list"
  gs_settlement :: "nat list"
  gs_invoked :: "'json prepared_call list"
  gs_peak :: nat
  gs_open :: bool
  gs_phase :: group_phase
  gs_queued_cancellations :: nat
  gs_running_cancellations :: nat

definition group_init :: "'json prepared_call list \<Rightarrow> nat list \<Rightarrow> bool \<Rightarrow> ('json, 'data) group_state" where
  "group_init calls settlement open_turn = \<lparr>gs_queue = calls, gs_running = [], gs_completions = [],
     gs_settlement = settlement, gs_invoked = [], gs_peak = 0, gs_open = open_turn, gs_phase = Scheduling,
     gs_queued_cancellations = 0, gs_running_cancellations = 0\<rparr>"

definition remove_nth :: "nat \<Rightarrow> 'a list \<Rightarrow> 'a list" where
  "remove_nth i xs = take i xs @ drop (Suc i) xs"

text \<open>
  \<open>start_refused\<close>: the first poll of a call finds the turn closed, or its cancellation handle is
  not accepted. \<open>start_dispatch\<close>: the call is handed to \<open>invoke_tool\<close>.
\<close>

definition start_refused :: "nat \<Rightarrow> ('json, 'data) group_state \<Rightarrow> ('json, 'data) group_state" where
  "start_refused k s = s\<lparr>gs_queue := remove_nth k (gs_queue s),
     gs_peak := max (gs_peak s) (length (gs_running s) + 1),
     gs_completions := gs_completions s @ [(pc_index (gs_queue s ! k), Inl TurnCancelled)]\<rparr>"

definition start_dispatch :: "nat \<Rightarrow> ('json, 'data) group_state \<Rightarrow> ('json, 'data) group_state" where
  "start_dispatch k s =
     (let p = gs_queue s ! k
      in s\<lparr>gs_queue := remove_nth k (gs_queue s), gs_running := gs_running s @ [p],
           gs_peak := max (gs_peak s) (length (gs_running s) + 1),
           gs_settlement := (gs_settlement s)[pc_index p := 1], gs_invoked := gs_invoked s @ [p]\<rparr>)"

definition return_call ::
    "tool_result_policy \<Rightarrow> nat \<Rightarrow> 'data invocation_outcome \<Rightarrow> ('json, 'data) group_state
       \<Rightarrow> ('json, 'data) group_state" where
  "return_call policy k oc s =
     (let p = gs_running s ! k
      in s\<lparr>gs_running := remove_nth k (gs_running s),
           gs_settlement := (if io_unresolved oc then gs_settlement s
                             else (gs_settlement s)[pc_index p := 2]),
           gs_completions := gs_completions s
             @ [(pc_index p, finish_invocation policy (gs_open s) (pc_call p) oc)]\<rparr>)"

definition expire_grace :: "('json, 'data) group_state \<Rightarrow> ('json, 'data) group_state" where
  "expire_grace s = s\<lparr>gs_phase := Finished,
     gs_completions := gs_completions s
       @ map (\<lambda>p. (pc_index p, Inl TurnCancelled)) (gs_queue s @ gs_running s)\<rparr>"

inductive group_step ::
    "tool_result_policy \<Rightarrow> nat \<Rightarrow> ('json, 'data) group_state \<Rightarrow> ('json, 'data) group_state \<Rightarrow> bool"
  for policy :: tool_result_policy and concurrency :: nat where
  step_refused: "gs_phase s \<noteq> Finished \<Longrightarrow> k < length (gs_queue s) \<Longrightarrow>
    k + length (gs_running s) < concurrency \<Longrightarrow> \<not> gs_open s \<Longrightarrow>
    group_step policy concurrency s (start_refused k s)"
| step_dispatch: "gs_phase s \<noteq> Finished \<Longrightarrow> k < length (gs_queue s) \<Longrightarrow>
    k + length (gs_running s) < concurrency \<Longrightarrow> gs_open s \<Longrightarrow>
    group_step policy concurrency s (start_dispatch k s)"
| step_return: "gs_phase s \<noteq> Finished \<Longrightarrow> k < length (gs_running s) \<Longrightarrow>
    group_step policy concurrency s (return_call policy k oc s)"
| step_cancel: "gs_open s \<Longrightarrow> group_step policy concurrency s (s\<lparr>gs_open := False\<rparr>)"
| step_observe: "gs_phase s = Scheduling \<Longrightarrow> \<not> gs_open s \<Longrightarrow>
    group_step policy concurrency s (s\<lparr>gs_phase := Draining,
      gs_queued_cancellations := length (gs_queue s), gs_running_cancellations := length (gs_running s)\<rparr>)"
| step_exhausted: "gs_phase s \<noteq> Finished \<Longrightarrow> gs_queue s = [] \<Longrightarrow> gs_running s = [] \<Longrightarrow>
    group_step policy concurrency s (s\<lparr>gs_phase := Finished\<rparr>)"
| step_expire: "gs_phase s = Draining \<Longrightarrow> group_step policy concurrency s (expire_grace s)"

inductive_cases group_stepE: "group_step policy concurrency s s'"

inductive group_run ::
    "tool_result_policy \<Rightarrow> nat \<Rightarrow> ('json, 'data) group_state \<Rightarrow> ('json, 'data) group_state \<Rightarrow> bool"
  for policy :: tool_result_policy and concurrency :: nat and s0 :: "('json, 'data) group_state" where
  run_init: "group_run policy concurrency s0 s0"
| run_step: "group_run policy concurrency s0 s \<Longrightarrow> group_step policy concurrency s s' \<Longrightarrow>
    group_run policy concurrency s0 s'"

section \<open>The whole batch\<close>

record ('json, 'data) batch_progress =
  bp_terminal :: "('json, 'data) terminal_results"
  bp_settlement :: "nat list"
  bp_invoked :: "'json prepared_call list"
  bp_open :: bool

definition extend_terminal ::
    "('json, 'data) terminal_results \<Rightarrow> (nat \<times> (runtime_error + ('json, 'data) tool_execution_output)) list
       \<Rightarrow> ('json, 'data) terminal_results" where
  "extend_terminal terminal completions = fold (\<lambda>(i, r) t. t(i \<mapsto> r)) completions terminal"

text \<open>
  The loop over the groups. The turn may close between two groups; groups after that are skipped.
\<close>

inductive groups_run ::
    "tool_result_policy \<Rightarrow> tool_execution_options \<Rightarrow> 'json prepared_call list list
       \<Rightarrow> ('json, 'data) batch_progress \<Rightarrow> ('json, 'data) batch_progress \<Rightarrow> bool"
  for policy :: tool_result_policy and options :: tool_execution_options where
  groups_done: "groups_run policy options [] b b"
| groups_closed: "bp_open b \<Longrightarrow> groups_run policy options gs (b\<lparr>bp_open := False\<rparr>) b' \<Longrightarrow>
    groups_run policy options gs b b'"
| groups_skip: "\<not> bp_open b \<Longrightarrow>
    groups_run policy options gs (b\<lparr>bp_terminal := insert_cancelled_calls (bp_terminal b) g\<rparr>) b' \<Longrightarrow>
    groups_run policy options (g # gs) b b'"
| groups_exec: "bp_open b \<Longrightarrow>
    group_run policy (batch_concurrency options (length g)) (group_init g (bp_settlement b) True) s \<Longrightarrow>
    gs_phase s = Finished \<Longrightarrow>
    groups_run policy options gs \<lparr>bp_terminal = extend_terminal (bp_terminal b) (gs_completions s),
      bp_settlement = gs_settlement s, bp_invoked = bp_invoked b @ gs_invoked s, bp_open = gs_open s\<rparr> b' \<Longrightarrow>
    groups_run policy options (g # gs) b b'"

text \<open>
  \<open>execute_prepared_tool_batch_with_host_context\<close> up to the groups: either its result, or the
  approved calls that are to run, with the results already known. \<open>opens\<close> are the answers of
  \<open>accepts_normal_output\<close> at its three places.
\<close>

record 'json batch_env =
  be_preparation :: "'json preparation_env"
  be_authorize :: "'json authorization_request list \<Rightarrow> runtime_error + authorization_decision list"
  be_context :: runtime_permission_context
  be_host_context :: "'json tool_host_context_entry list"
  be_payload_len :: "'json \<Rightarrow> nat"
  be_context_len :: "'json tool_host_context_entry list \<Rightarrow> nat"
  be_options :: tool_execution_options
  be_policy :: tool_result_policy
  be_open_at_start :: bool
  be_open_prepared :: bool
  be_authorization_cancelled :: bool
  be_open_authorized :: bool

datatype ('json, 'data) batch_prefix =
    Returned "runtime_error + ('json, 'data) tool_batch_execution_output"
  | Execute "'json prepared_call list" "('json, 'data) terminal_results"

definition prepare_and_authorize ::
    "'json batch_env \<Rightarrow> 'json tool_call list \<Rightarrow> ('json, 'data) batch_prefix" where
  "prepare_and_authorize env calls =
     (let n = length calls;
          zeros = replicate n 0
      in case prepare_runtime_tool_batch (be_preparation env) calls (be_host_context env)
                (unat (opt_preparation_timeout_ms (be_options env)) * 1000000) (\<lambda>_. None) of
           (prepared, terminal) \<Rightarrow>
             if \<not> be_open_prepared env
             then Returned (Inr (ordered_batch_output n (insert_cancelled_calls terminal prepared) zeros))
             else (case authorize_runtime_tool_batch (be_authorize env) (be_authorization_cancelled env)
                          prepared (be_context env) terminal of
                     Inl e \<Rightarrow> Returned (Inl e)
                   | Inr (approved, terminal') \<Rightarrow>
                       if \<not> be_open_authorized env
                       then Returned (Inr (ordered_batch_output n (insert_cancelled_calls terminal' approved) zeros))
                       else Execute approved terminal'))"

definition begin_batch ::
    "'json batch_env \<Rightarrow> 'json tool_call list \<Rightarrow> tool_round_state
       \<Rightarrow> tool_round_state \<times> ('json, 'data) batch_prefix" where
  "begin_batch env calls rounds =
     (case validate_tool_host_context (be_payload_len env) (be_context_len env) (be_host_context env) of
        Inl e \<Rightarrow> (rounds, Returned (Inl e))
      | Inr _ \<Rightarrow>
          if calls = [] then (rounds, Returned (Inr empty_batch_output))
          else (case begin_round rounds of
                  Inl e \<Rightarrow> (rounds, Returned (Inl e))
                | Inr rounds' \<Rightarrow>
                    (rounds', if \<not> be_open_at_start env
                      then Returned (Inr (cancelled_batch_output (length calls)))
                      else prepare_and_authorize env calls)))"

inductive batch_run ::
    "'json batch_env \<Rightarrow> 'json tool_call list \<Rightarrow> tool_round_state \<Rightarrow> tool_round_state
       \<Rightarrow> runtime_error + ('json, 'data) tool_batch_execution_output \<Rightarrow> 'json prepared_call list \<Rightarrow> bool"
  for env :: "'json batch_env" and calls :: "'json tool_call list" where
  batch_returned: "begin_batch env calls rounds = (rounds', Returned r) \<Longrightarrow>
    batch_run env calls rounds rounds' r []"
| batch_executed: "begin_batch env calls rounds = (rounds', Execute approved terminal) \<Longrightarrow>
    groups_run (be_policy env) (be_options env)
      (provider_batch_execution_groups approved (opt_parallel (be_options env)))
      \<lparr>bp_terminal = terminal, bp_settlement = replicate (length calls) 0, bp_invoked = [], bp_open = True\<rparr> b \<Longrightarrow>
    batch_run env calls rounds rounds'
      (Inr (ordered_batch_output (length calls) (bp_terminal b) (bp_settlement b))) (bp_invoked b)"

text \<open>
  A batch between its start and its return: the calls invoked by the groups that have finished, and
  the group in progress. At any of these moments the batch may be abandoned, its future dropped.
\<close>

abbreviation progress_init :: "nat \<Rightarrow> ('json, 'data) terminal_results \<Rightarrow> ('json, 'data) batch_progress" where
  "progress_init n terminal \<equiv>
     \<lparr>bp_terminal = terminal, bp_settlement = replicate n 0, bp_invoked = [], bp_open = True\<rparr>"

inductive batch_moment ::
    "'json batch_env \<Rightarrow> 'json tool_call list \<Rightarrow> tool_round_state \<Rightarrow> tool_round_state
       \<Rightarrow> 'json prepared_call list \<Rightarrow> ('json, 'data) group_state option \<Rightarrow> bool"
  for env :: "'json batch_env" and calls :: "'json tool_call list" where
  moment_unpolled: "batch_moment env calls rounds rounds [] (None :: ('json, 'data) group_state option)"
| moment_prefix: "begin_batch env calls rounds = (rounds', r :: ('json, 'data) batch_prefix) \<Longrightarrow>
    batch_moment env calls rounds rounds' [] (None :: ('json, 'data) group_state option)"
| moment_between: "begin_batch env calls rounds = (rounds', Execute approved terminal) \<Longrightarrow>
    provider_batch_execution_groups approved (opt_parallel (be_options env)) = gs @ later \<Longrightarrow>
    groups_run (be_policy env) (be_options env) gs
      (progress_init (length calls) (terminal :: ('json, 'data) terminal_results)) b \<Longrightarrow>
    batch_moment env calls rounds rounds' (bp_invoked b) (None :: ('json, 'data) group_state option)"
| moment_within: "begin_batch env calls rounds = (rounds', Execute approved terminal) \<Longrightarrow>
    provider_batch_execution_groups approved (opt_parallel (be_options env)) = gs @ g # later \<Longrightarrow>
    groups_run (be_policy env) (be_options env) gs
      (progress_init (length calls) (terminal :: ('json, 'data) terminal_results)) b \<Longrightarrow> bp_open b \<Longrightarrow>
    group_run (be_policy env) (batch_concurrency (be_options env) (length g)) (group_init g (bp_settlement b) True)
      (s :: ('json, 'data) group_state) \<Longrightarrow>
    batch_moment env calls rounds rounds' (bp_invoked b) (Some s)"

definition moment_calls ::
    "'json prepared_call list \<Rightarrow> ('json, 'data) group_state option \<Rightarrow> 'json prepared_call list" where
  "moment_calls before current = before @ (case current of None \<Rightarrow> [] | Some s \<Rightarrow> gs_invoked s)"

section \<open>Invariants of a group\<close>

lemma mset_remove_nth:
  assumes "k < length xs"
  shows "mset xs = add_mset (xs ! k) (mset (remove_nth k xs))"
  by (subst id_take_nth_drop[OF assms]) (simp add: remove_nth_def)

lemma distinct_remove_nth:
  assumes "k < length xs" and "distinct xs"
  shows "distinct (remove_nth k xs)" and "xs ! k \<notin> set (remove_nth k xs)"
proof -
  have "distinct (take k xs @ xs ! k # drop (Suc k) xs)"
    using assms by (subst id_take_nth_drop[symmetric]) simp_all
  then show "distinct (remove_nth k xs)" "xs ! k \<notin> set (remove_nth k xs)" by (auto simp: remove_nth_def)
qed

lemma length_remove_nth: "k < length xs \<Longrightarrow> length (remove_nth k xs) = length xs - 1"
  by (simp add: remove_nth_def)

lemma set_remove_nth: "k < length xs \<Longrightarrow> set xs = insert (xs ! k) (set (remove_nth k xs))"
  using mset_remove_nth[of k xs] by (metis set_mset_add_mset_insert set_mset_mset)

abbreviation indices :: "'json prepared_call list \<Rightarrow> nat list" where
  "indices ps \<equiv> map pc_index ps"

text \<open>The calls of the group whose completion is still due.\<close>

definition outstanding :: "('json, 'data) group_state \<Rightarrow> 'json prepared_call list" where
  "outstanding s = (if gs_phase s = Finished then [] else gs_queue s @ gs_running s)"

definition group_inv ::
    "tool_result_policy \<Rightarrow> 'json prepared_call list \<Rightarrow> nat list \<Rightarrow> nat \<Rightarrow> ('json, 'data) group_state \<Rightarrow> bool" where
  "group_inv policy calls st0 concurrency s \<longleftrightarrow>
     mset (indices (outstanding s)) + mset (map fst (gs_completions s)) = mset (indices calls) \<and>
     distinct (gs_queue s @ gs_invoked s) \<and> set (gs_queue s @ gs_invoked s) \<subseteq> set calls \<and>
     set (gs_running s) \<subseteq> set (gs_invoked s) \<and> distinct (gs_running s) \<and>
     length (gs_running s) \<le> concurrency \<and> gs_peak s \<le> concurrency \<and>
     length (gs_settlement s) = length st0 \<and>
     (\<forall>i < length st0. i \<notin> set (indices (gs_invoked s)) \<longrightarrow> gs_settlement s ! i = st0 ! i) \<and>
     (\<forall>p \<in> set (gs_invoked s). gs_settlement s ! pc_index p \<in> {1, 2}) \<and>
     (\<forall>p \<in> set (gs_running s). gs_settlement s ! pc_index p = 1) \<and>
     (gs_phase s = Draining \<longrightarrow> \<not> gs_open s) \<and>
     (gs_open s \<longrightarrow> fst ` set (gs_completions s) \<subseteq> set (indices (gs_invoked s))) \<and>
     (\<forall>(i, r) \<in> set (gs_completions s). r = Inl TurnCancelled \<or>
        (\<exists>p \<in> set (gs_invoked s). pc_index p = i \<and> (\<exists>b oc. r = finish_invocation policy b (pc_call p) oc)))"

definition group_ok :: "'json prepared_call list \<Rightarrow> nat list \<Rightarrow> bool" where
  "group_ok calls st0 \<longleftrightarrow> distinct (indices calls) \<and> (\<forall>p \<in> set calls. pc_index p < length st0)"

lemma group_ok_inj:
  "group_ok calls st0 \<Longrightarrow> p \<in> set calls \<Longrightarrow> q \<in> set calls \<Longrightarrow> pc_index p = pc_index q \<Longrightarrow> p = q"
  by (auto simp: group_ok_def distinct_map dest: inj_onD)

lemma group_inv_init: "group_ok calls st0 \<Longrightarrow> group_inv policy calls st0 concurrency (group_init calls st0 b)"
  by (simp add: group_inv_def group_init_def outstanding_def group_ok_def distinct_map)

lemma group_inv_refused:
  assumes inv: "group_inv policy calls st0 c s" and ph: "gs_phase s \<noteq> Finished"
    and k: "k < length (gs_queue s)" "k + length (gs_running s) < c" and cl: "\<not> gs_open s"
  shows "group_inv policy calls st0 c (start_refused k s)"
proof -
  let ?p = "gs_queue s ! k" and ?q = "remove_nth k (gs_queue s)"
  have q: "mset (gs_queue s) = add_mset ?p (mset ?q)" using k(1) by (rule mset_remove_nth)
  have "mset (indices (outstanding (start_refused k s))) + mset (map fst (gs_completions (start_refused k s))) = mset (indices calls)"
    using inv ph q by (simp add: group_inv_def outstanding_def start_refused_def)
  moreover have "distinct (?q @ gs_invoked s) \<and> set (?q @ gs_invoked s) \<subseteq> set calls"
    using inv distinct_remove_nth[OF k(1)] set_remove_nth[OF k(1)] by (auto simp: group_inv_def)
  ultimately show ?thesis
    using inv k cl unfolding group_inv_def by (simp add: start_refused_def)
qed

lemma group_inv_dispatch:
  assumes inv: "group_inv policy calls st0 c s" and ok: "group_ok calls st0" and ph: "gs_phase s \<noteq> Finished"
    and k: "k < length (gs_queue s)" "k + length (gs_running s) < c" and op: "gs_open s"
  shows "group_inv policy calls st0 c (start_dispatch k s)"
proof -
  let ?p = "gs_queue s ! k" and ?q = "remove_nth k (gs_queue s)"
  define t where "t = s\<lparr>gs_queue := ?q, gs_running := gs_running s @ [?p],
     gs_peak := max (gs_peak s) (length (gs_running s) + 1),
     gs_settlement := (gs_settlement s)[pc_index ?p := 1], gs_invoked := gs_invoked s @ [?p]\<rparr>"
  have t: "start_dispatch k s = t" by (simp add: start_dispatch_def t_def Let_def)
  have q: "mset (gs_queue s) = add_mset ?p (mset ?q)" using k(1) by (rule mset_remove_nth)
  have set_q: "set (gs_queue s) = insert ?p (set ?q)" using k(1) by (rule set_remove_nth)
  have dist: "distinct (gs_queue s @ gs_invoked s)" and sub: "set (gs_queue s @ gs_invoked s) \<subseteq> set calls"
    and run: "set (gs_running s) \<subseteq> set (gs_invoked s)" using inv by (simp_all add: group_inv_def)
  have new: "?p \<notin> set (gs_invoked s)" "?p \<in> set calls" using dist sub set_q by auto
  have idx: "pc_index r \<noteq> pc_index ?p" if "r \<in> set (gs_invoked s)" for r
    using that group_ok_inj[OF ok _ new(2), of r] sub new(1) by auto
  have lt: "pc_index ?p < length (gs_settlement s)" using new(2) ok inv by (auto simp: group_ok_def group_inv_def)
  have a: "mset (indices (outstanding t)) + mset (map fst (gs_completions t)) = mset (indices calls)"
    using inv ph q by (simp add: group_inv_def outstanding_def t_def)
  have b: "distinct (gs_queue t @ gs_invoked t) \<and> set (gs_queue t @ gs_invoked t) \<subseteq> set calls"
    using dist sub distinct_remove_nth[OF k(1)] set_q by (auto simp: t_def)
  have d: "\<forall>r \<in> set (gs_invoked t). gs_settlement t ! pc_index r \<in> {1, 2}"
    using inv idx lt by (auto simp: group_inv_def t_def nth_list_update)
  have e: "\<forall>r \<in> set (gs_running t). gs_settlement t ! pc_index r = 1"
    using inv idx lt run by (auto simp: group_inv_def t_def nth_list_update)
  have f: "\<forall>i < length st0. i \<notin> set (indices (gs_invoked t)) \<longrightarrow> gs_settlement t ! i = st0 ! i"
    using inv by (auto simp: group_inv_def t_def nth_list_update)
  have g: "set (gs_running t) \<subseteq> set (gs_invoked t) \<and> distinct (gs_running t)"
    using run new inv by (auto simp: group_inv_def t_def)
  have h: "length (gs_running t) \<le> c \<and> gs_peak t \<le> c \<and> length (gs_settlement t) = length st0 \<and>
      (gs_phase t = Draining \<longrightarrow> \<not> gs_open t)"
    using inv k op by (auto simp: group_inv_def t_def)
  have i: "gs_open t \<longrightarrow> fst ` set (gs_completions t) \<subseteq> set (indices (gs_invoked t))"
    using inv by (auto simp: group_inv_def t_def)
  have j: "\<forall>(i, r) \<in> set (gs_completions t). r = Inl TurnCancelled \<or>
        (\<exists>p \<in> set (gs_invoked t). pc_index p = i \<and> (\<exists>b oc. r = finish_invocation policy b (pc_call p) oc))"
    using inv by (auto simp: group_inv_def t_def)
  show ?thesis unfolding t group_inv_def using a b d e f g h i j by blast
qed

lemma group_inv_return:
  assumes inv: "group_inv policy calls st0 c s" and ok: "group_ok calls st0" and ph: "gs_phase s \<noteq> Finished"
    and k: "k < length (gs_running s)"
  shows "group_inv policy calls st0 c (return_call policy k oc s)"
proof -
  let ?p = "gs_running s ! k" and ?r = "remove_nth k (gs_running s)"
  define t where "t = s\<lparr>gs_running := ?r,
     gs_settlement := (if io_unresolved oc then gs_settlement s else (gs_settlement s)[pc_index ?p := 2]),
     gs_completions := gs_completions s @ [(pc_index ?p, finish_invocation policy (gs_open s) (pc_call ?p) oc)]\<rparr>"
  have t: "return_call policy k oc s = t" by (simp add: return_call_def t_def Let_def)
  have r: "mset (gs_running s) = add_mset ?p (mset ?r)" using k by (rule mset_remove_nth)
  have set_r: "set (gs_running s) = insert ?p (set ?r)" using k by (rule set_remove_nth)
  have run: "set (gs_running s) \<subseteq> set (gs_invoked s)" and sub: "set (gs_invoked s) \<subseteq> set calls"
    and "distinct (gs_running s)" using inv by (simp_all add: group_inv_def)
  note dist = distinct_remove_nth[OF k this(3)]
  have p: "?p \<in> set (gs_invoked s)" "?p \<in> set calls" using set_r run sub by auto
  have idx: "pc_index u \<noteq> pc_index ?p" if "u \<in> set ?r" for u
    using that group_ok_inj[OF ok _ p(2), of u] set_r run sub dist(2) by auto
  have lt: "pc_index ?p < length (gs_settlement s)" using p(2) ok inv by (auto simp: group_ok_def group_inv_def)
  have a: "mset (indices (outstanding t)) + mset (map fst (gs_completions t)) = mset (indices calls)"
    using inv ph r by (simp add: group_inv_def outstanding_def t_def)
  have b: "distinct (gs_queue t @ gs_invoked t) \<and> set (gs_queue t @ gs_invoked t) \<subseteq> set calls"
    using inv by (simp add: group_inv_def t_def)
  have d: "\<forall>u \<in> set (gs_invoked t). gs_settlement t ! pc_index u \<in> {1, 2}"
    using inv lt by (auto simp: group_inv_def t_def nth_list_update)
  have e: "\<forall>u \<in> set (gs_running t). gs_settlement t ! pc_index u = 1"
  proof
    fix u
    assume "u \<in> set (gs_running t)"
    then have u: "u \<in> set ?r" by (simp add: t_def)
    then have "gs_settlement s ! pc_index u = 1" using inv set_r by (simp add: group_inv_def)
    with idx[OF u] show "gs_settlement t ! pc_index u = 1" by (simp add: t_def)
  qed
  have f: "\<forall>i < length st0. i \<notin> set (indices (gs_invoked t)) \<longrightarrow> gs_settlement t ! i = st0 ! i"
  proof (intro allI impI)
    fix i
    assume i: "i < length st0" "i \<notin> set (indices (gs_invoked t))"
    then have "i \<noteq> pc_index ?p" using p(1) by (auto simp: t_def)
    moreover have "gs_settlement s ! i = st0 ! i" using inv i by (simp add: group_inv_def t_def)
    ultimately show "gs_settlement t ! i = st0 ! i" by (simp add: t_def)
  qed
  have g: "set (gs_running t) \<subseteq> set (gs_invoked t) \<and> distinct (gs_running t)"
    using run dist set_r by (auto simp: t_def)
  have h: "length (gs_running t) \<le> c \<and> gs_peak t \<le> c \<and> length (gs_settlement t) = length st0 \<and>
      (gs_phase t = Draining \<longrightarrow> \<not> gs_open t)"
    using inv k by (auto simp: group_inv_def t_def length_remove_nth)
  have i: "gs_open t \<longrightarrow> fst ` set (gs_completions t) \<subseteq> set (indices (gs_invoked t))"
    using inv p(1) by (auto simp: group_inv_def t_def)
  have "\<exists>u \<in> set (gs_invoked s). pc_index u = pc_index ?p \<and>
      (\<exists>b oc'. finish_invocation policy (gs_open s) (pc_call ?p) oc = finish_invocation policy b (pc_call u) oc')"
    using p(1) by (intro bexI[of _ ?p]) auto
  moreover have "\<forall>(i, r) \<in> set (gs_completions s). r = Inl TurnCancelled \<or>
        (\<exists>p \<in> set (gs_invoked s). pc_index p = i \<and> (\<exists>b oc. r = finish_invocation policy b (pc_call p) oc))"
    using inv by (simp add: group_inv_def)
  ultimately have j: "\<forall>(i, r) \<in> set (gs_completions t). r = Inl TurnCancelled \<or>
        (\<exists>p \<in> set (gs_invoked t). pc_index p = i \<and> (\<exists>b oc. r = finish_invocation policy b (pc_call p) oc))"
    by (simp add: t_def)
  show ?thesis unfolding t group_inv_def using a b d e f g h i j by blast
qed

lemma group_inv_step:
  assumes "group_step policy c s s'" and inv: "group_inv policy calls st0 c s" and ok: "group_ok calls st0"
  shows "group_inv policy calls st0 c s'"
  using assms(1)
proof (cases rule: group_step.cases)
  case step_exhausted
  with inv show ?thesis by (simp add: group_inv_def outstanding_def)
next
  case step_expire
  with inv show ?thesis
    unfolding group_inv_def by (auto simp: outstanding_def expire_grace_def comp_def add_ac)
next
  case step_cancel
  have "outstanding (s\<lparr>gs_open := False\<rparr>) = outstanding s" by (simp add: outstanding_def)
  with step_cancel inv show ?thesis by (simp add: group_inv_def)
next
  case step_observe
  with inv show ?thesis by (simp add: group_inv_def outstanding_def)
qed (simp_all add: group_inv_refused[OF inv] group_inv_dispatch[OF inv ok] group_inv_return[OF inv ok])

lemma group_inv_run:
  "group_run policy c (group_init calls st0 b) s \<Longrightarrow> group_ok calls st0 \<Longrightarrow> group_inv policy calls st0 c s"
  by (induction rule: group_run.induct) (auto intro: group_inv_init group_inv_step)

section \<open>Termination of a group\<close>

definition phase_weight :: "group_phase \<Rightarrow> nat" where
  "phase_weight ph = (case ph of Scheduling \<Rightarrow> 2 | Draining \<Rightarrow> 1 | Finished \<Rightarrow> 0)"

definition group_measure :: "('json, 'data) group_state \<Rightarrow> nat" where
  "group_measure s = 3 * length (gs_queue s) + 2 * length (gs_running s) + (if gs_open s then 1 else 0)
     + phase_weight (gs_phase s)"

lemma group_step_measure: "group_step policy c s s' \<Longrightarrow> group_measure s' < group_measure s"
  by (induction rule: group_step.induct)
    (auto simp: group_measure_def phase_weight_def start_refused_def start_dispatch_def return_call_def
      expire_grace_def length_remove_nth Let_def split: group_phase.splits)

lemma group_step_wf: "wf {(s', s). group_step policy c s s'}"
  by (rule wf_subset[OF wf_measure[of group_measure]]) (auto simp: group_step_measure)

text \<open>Until it is finished, a group can go on: nothing it waits for is missing.\<close>

lemma group_progress:
  assumes "gs_phase s \<noteq> Finished" and "0 < c"
  shows "\<exists>s'. group_step policy c s s' \<and> (gs_open s \<longrightarrow> gs_open s')"
proof (cases "gs_running s")
  case (Cons p ps)
  then have "group_step policy c s (return_call policy 0 undefined s)" using assms by (intro step_return) simp_all
  then show ?thesis by (auto simp: return_call_def Let_def)
next
  case Nil
  show ?thesis
  proof (cases "gs_queue s")
    case (Cons p ps)
    then have "group_step policy c s (if gs_open s then start_dispatch 0 s else start_refused 0 s)"
      using assms Nil by (auto intro: step_dispatch step_refused)
    then show ?thesis by (auto simp: start_dispatch_def Let_def split: if_splits)
  next
    case Nil': Nil
    with assms Nil have "group_step policy c s (s\<lparr>gs_phase := Finished\<rparr>)" by (intro step_exhausted)
    then show ?thesis by auto
  qed
qed

lemma group_can_finish:
  assumes "group_run policy c s0 s" and "0 < c"
  shows "\<exists>s'. group_run policy c s0 s' \<and> gs_phase s' = Finished \<and> (gs_open s \<longrightarrow> gs_open s')"
  using assms(1)
proof (induction "group_measure s" arbitrary: s rule: less_induct)
  case less
  show ?case
  proof (cases "gs_phase s = Finished")
    case False
    then obtain s1 where s1: "group_step policy c s s1" "gs_open s \<longrightarrow> gs_open s1"
      using group_progress[OF False assms(2)] by blast
    from less(1)[OF group_step_measure[OF s1(1)] run_step[OF less(2) s1(1)]] s1(2) show ?thesis by blast
  qed (use less in blast)
qed

section \<open>A finished group\<close>

lemma finished_indices:
  assumes "group_inv policy calls st0 c s" and "gs_phase s = Finished"
  shows "fst ` set (gs_completions s) = set (indices calls)"
    and "distinct (indices calls) \<Longrightarrow> distinct (map fst (gs_completions s))"
proof -
  have m: "mset (map fst (gs_completions s)) = mset (indices calls)"
    using assms by (simp add: group_inv_def outstanding_def)
  show "fst ` set (gs_completions s) = set (indices calls)"
    using arg_cong[OF m, of set_mset] by simp
  show "distinct (indices calls) \<Longrightarrow> distinct (map fst (gs_completions s))"
    using mset_eq_imp_distinct_iff[OF m] by simp
qed

lemma extend_terminal_Cons: "extend_terminal t ((i, r) # cs) = extend_terminal (t(i \<mapsto> r)) cs"
  by (simp add: extend_terminal_def)

lemma extend_terminal_other: "j \<notin> fst ` set cs \<Longrightarrow> extend_terminal t cs j = t j"
  by (induction cs arbitrary: t) (auto simp: extend_terminal_def)

lemma extend_terminal_mem: "j \<in> fst ` set cs \<Longrightarrow> \<exists>r. extend_terminal t cs j = Some r \<and> (j, r) \<in> set cs"
proof (induction cs arbitrary: t)
  case (Cons c cs)
  obtain i r where c: "c = (i, r)" by fastforce
  show ?case
  proof (cases "j \<in> fst ` set cs")
    case True
    from Cons.IH[OF this, of "t(i \<mapsto> r)"] show ?thesis
      unfolding c extend_terminal_Cons by (metis list.set_intros(2))
  next
    case False
    with Cons.prems c have "j = i" by auto
    with False extend_terminal_other[of j cs "t(i \<mapsto> r)"] show ?thesis
      by (simp add: extend_terminal_Cons c)
  qed
qed simp

text \<open>What the execution of some calls leaves behind: \<open>invoked\<close> are the ones handed to the tools.\<close>

definition executed ::
    "tool_result_policy \<Rightarrow> 'json prepared_call list \<Rightarrow> ('json, 'data) batch_progress
       \<Rightarrow> 'json prepared_call list \<Rightarrow> ('json, 'data) batch_progress \<Rightarrow> bool" where
  "executed policy calls b invoked b' \<longleftrightarrow>
     bp_invoked b' = bp_invoked b @ invoked \<and> distinct invoked \<and> set invoked \<subseteq> set calls \<and>
     length (bp_settlement b') = length (bp_settlement b) \<and>
     (\<forall>j. j \<notin> set (indices calls) \<longrightarrow> bp_terminal b' j = bp_terminal b j) \<and>
     (\<forall>j < length (bp_settlement b). j \<notin> set (indices invoked) \<longrightarrow> bp_settlement b' ! j = bp_settlement b ! j) \<and>
     (\<forall>p \<in> set invoked. bp_settlement b' ! pc_index p \<in> {1, 2}) \<and>
     (\<forall>p \<in> set calls. \<exists>r. bp_terminal b' (pc_index p) = Some r \<and>
        (r = Inl TurnCancelled \<or> p \<in> set invoked \<and> (\<exists>b oc. r = finish_invocation policy b (pc_call p) oc))) \<and>
     (bp_open b' \<longrightarrow> bp_open b \<and> set invoked = set calls)"

lemma executed_nil: "executed policy [] b [] b"
  by (simp add: executed_def)

lemma executed_append:
  assumes 1: "executed policy xs b us b1" and 2: "executed policy ys b1 vs b2"
    and dist: "distinct (indices (xs @ ys))" and lt: "\<forall>p \<in> set (xs @ ys). pc_index p < length (bp_settlement b)"
  shows "executed policy (xs @ ys) b (us @ vs) b2"
proof -
  have len: "length (bp_settlement b1) = length (bp_settlement b)" using 1 by (simp add: executed_def)
  have sub: "set us \<subseteq> set xs" "set vs \<subseteq> set ys" using 1 2 by (simp_all add: executed_def)
  have disj: "set (indices xs) \<inter> set (indices ys) = {}" using dist by simp
  then have apart: "pc_index p \<notin> set (indices ys)" "p \<notin> set ys" if "p \<in> set xs" for p
    using that by auto
  have apart': "pc_index p \<notin> set (indices xs)" if "p \<in> set ys" for p using that disj by auto
  have a: "distinct (us @ vs)" using 1 2 sub apart(2) by (auto simp: executed_def)
  have b: "bp_terminal b2 j = bp_terminal b j" if "j \<notin> set (indices (xs @ ys))" for j
    using that 1 2 by (simp add: executed_def)
  have c: "bp_settlement b2 ! j = bp_settlement b ! j"
    if "j < length (bp_settlement b)" "j \<notin> set (indices (us @ vs))" for j
    using that 1 2 len by (simp add: executed_def)
  have d: "bp_settlement b2 ! pc_index p \<in> {1, 2}" if p: "p \<in> set (us @ vs)" for p
  proof (cases "p \<in> set us")
    case True
    then have "pc_index p \<notin> set (indices vs)" using sub apart(1)[of p] by auto
    moreover have "pc_index p < length (bp_settlement b1)" using True sub lt len by auto
    ultimately have "bp_settlement b2 ! pc_index p = bp_settlement b1 ! pc_index p" using 2 by (simp add: executed_def)
    with True 1 show ?thesis by (simp add: executed_def)
  next
    case False
    with p 2 show ?thesis by (simp add: executed_def)
  qed
  have e: "\<exists>r. bp_terminal b2 (pc_index p) = Some r \<and> (r = Inl TurnCancelled \<or>
      p \<in> set (us @ vs) \<and> (\<exists>b oc. r = finish_invocation policy b (pc_call p) oc))" if p: "p \<in> set (xs @ ys)" for p
  proof (cases "p \<in> set xs")
    case True
    then have "bp_terminal b2 (pc_index p) = bp_terminal b1 (pc_index p)" using 2 apart(1) by (simp add: executed_def)
    moreover obtain r where "bp_terminal b1 (pc_index p) = Some r" "r = Inl TurnCancelled \<or>
        p \<in> set us \<and> (\<exists>b oc. r = finish_invocation policy b (pc_call p) oc)"
      using 1 True unfolding executed_def by blast
    ultimately show ?thesis by auto
  next
    case False
    with p have "p \<in> set ys" by simp
    with 2 obtain r where "bp_terminal b2 (pc_index p) = Some r" "r = Inl TurnCancelled \<or>
        p \<in> set vs \<and> (\<exists>b oc. r = finish_invocation policy b (pc_call p) oc)"
      unfolding executed_def by blast
    then show ?thesis by auto
  qed
  have f: "bp_open b2 \<longrightarrow> bp_open b \<and> set (us @ vs) = set (xs @ ys)" using 1 2 by (auto simp: executed_def)
  have g: "bp_invoked b2 = bp_invoked b @ us @ vs \<and> set (us @ vs) \<subseteq> set (xs @ ys) \<and>
      length (bp_settlement b2) = length (bp_settlement b)"
    using 1 2 sub len by (auto simp: executed_def)
  show ?thesis unfolding executed_def using a b c d e f g by blast
qed

lemma executed_skip:
  assumes "\<not> bp_open b"
  shows "executed policy g b [] (b\<lparr>bp_terminal := insert_cancelled_calls (bp_terminal b) g\<rparr>)"
  using assms by (simp add: executed_def insert_cancelled)

lemma executed_group:
  assumes run: "group_run policy c (group_init g (bp_settlement b) True) s" and fin: "gs_phase s = Finished"
    and ok: "group_ok g (bp_settlement b)" and op: "bp_open b"
  shows "executed policy g b (gs_invoked s) \<lparr>bp_terminal = extend_terminal (bp_terminal b) (gs_completions s),
      bp_settlement = gs_settlement s, bp_invoked = bp_invoked b @ gs_invoked s, bp_open = gs_open s\<rparr>"
proof -
  let ?b = "\<lparr>bp_terminal = extend_terminal (bp_terminal b) (gs_completions s),
      bp_settlement = gs_settlement s, bp_invoked = bp_invoked b @ gs_invoked s, bp_open = gs_open s\<rparr>"
  note inv = group_inv_run[OF run ok]
  note fi = finished_indices[OF inv fin]
  have mem: "distinct (gs_invoked s)" "set (gs_invoked s) \<subseteq> set g" using inv by (simp_all add: group_inv_def)
  have other: "bp_terminal ?b j = bp_terminal b j" if "j \<notin> set (indices g)" for j
    using that fi(1) by (simp add: extend_terminal_other)
  have res: "\<exists>r. bp_terminal ?b (pc_index p) = Some r \<and> (r = Inl TurnCancelled \<or>
      p \<in> set (gs_invoked s) \<and> (\<exists>b oc. r = finish_invocation policy b (pc_call p) oc))" if p: "p \<in> set g" for p
  proof -
    from p fi(1) have "pc_index p \<in> fst ` set (gs_completions s)" by simp
    from extend_terminal_mem[OF this] obtain r where
      r: "bp_terminal ?b (pc_index p) = Some r" "(pc_index p, r) \<in> set (gs_completions s)" by auto
    have "\<forall>(i, r) \<in> set (gs_completions s). r = Inl TurnCancelled \<or>
        (\<exists>p \<in> set (gs_invoked s). pc_index p = i \<and> (\<exists>b oc. r = finish_invocation policy b (pc_call p) oc))"
      using inv by (simp add: group_inv_def)
    from bspec[OF this r(2)] have "r = Inl TurnCancelled \<or>
        (\<exists>q \<in> set (gs_invoked s). pc_index q = pc_index p \<and> (\<exists>b oc. r = finish_invocation policy b (pc_call q) oc))"
      by simp
    with r(1) mem(2) p group_ok_inj[OF ok] show ?thesis by blast
  qed
  have all: "set (gs_invoked s) = set g" if "gs_open s"
  proof
    show "set g \<subseteq> set (gs_invoked s)"
    proof
      fix p
      assume p: "p \<in> set g"
      with fi(1) inv that have "pc_index p \<in> set (indices (gs_invoked s))" by (auto simp: group_inv_def)
      then obtain q where "q \<in> set (gs_invoked s)" "pc_index q = pc_index p" by auto
      with group_ok_inj[OF ok p, of q] mem(2) show "p \<in> set (gs_invoked s)" by auto
    qed
  qed (rule mem(2))
  show ?thesis
    unfolding executed_def using inv mem other res all op
    by (simp only: batch_progress.simps) (simp add: group_inv_def)
qed

lemma groups_run_executed:
  assumes "groups_run policy options gs b b'" and "distinct (indices (concat gs))"
    and "\<forall>p \<in> set (concat gs). pc_index p < length (bp_settlement b)"
  shows "\<exists>invoked. executed policy (concat gs) b invoked b'"
  using assms
proof (induction rule: groups_run.induct)
  case (groups_done b)
  then show ?case using executed_nil by auto
next
  case (groups_closed b gs b')
  then obtain us where "executed policy (concat gs) (b\<lparr>bp_open := False\<rparr>) us b'" by auto
  with groups_closed(1) show ?case by (auto simp: executed_def)
next
  case (groups_skip b gs g b')
  then obtain us where "executed policy (concat gs) (b\<lparr>bp_terminal := insert_cancelled_calls (bp_terminal b) g\<rparr>) us b'"
    by auto
  with executed_append[OF executed_skip[OF groups_skip(1)] this] groups_skip(4,5) show ?case by auto
next
  case (groups_exec b g s gs b')
  let ?b = "\<lparr>bp_terminal = extend_terminal (bp_terminal b) (gs_completions s),
      bp_settlement = gs_settlement s, bp_invoked = bp_invoked b @ gs_invoked s, bp_open = gs_open s\<rparr>"
  have "group_ok g (bp_settlement b)" using groups_exec(6,7) by (simp add: group_ok_def)
  note ex = executed_group[OF groups_exec(2,3) this groups_exec(1)]
  then have "length (bp_settlement ?b) = length (bp_settlement b)" by (simp add: executed_def)
  with groups_exec(5-7) obtain us where "executed policy (concat gs) ?b us b'" by auto
  from executed_append[OF ex this] groups_exec(6,7) show ?case by auto
qed

lemma concat_groups [simp]: "concat (provider_batch_execution_groups ps par) = ps"
  by (simp add: provider_batch_execution_groups_def concat_map_singleton)

section \<open>The whole batch\<close>

text \<open>
  A call that may be invoked: it is the call of its index, its tool is registered under its name,
  the tool has prepared it, and the coordinator has answered its request with \<open>Allow\<close>.
\<close>

definition call_authorized ::
    "'json batch_env \<Rightarrow> 'json tool_call list \<Rightarrow> 'json prepared_call \<Rightarrow> bool" where
  "call_authorized env calls p \<longleftrightarrow>
     pc_index p < length calls \<and> pc_call p = calls ! pc_index p \<and>
     find_tool (prep_catalog (be_preparation env)) (call_name (pc_call p)) = Some (pc_tool p) \<and>
     prep_tool (be_preparation env) (pc_tool p) \<lparr>preq_invocation = tool_invocation_descriptor_of (pc_call p),
       preq_host_context = be_host_context env\<rparr> = Inr (pti_preparation (pc_invocation p)) \<and>
     (\<exists>requests decisions k. be_authorize env requests = Inr decisions \<and> length decisions = length requests \<and>
        k < length requests \<and> requests ! k = authorization_request_of (be_context env) p \<and> decisions ! k = AuthAllow)"

definition prepared_batch ::
    "'json batch_env \<Rightarrow> 'json tool_call list \<Rightarrow> 'json prepared_call list \<times> ('json, 'data) terminal_results" where
  "prepared_batch env calls = prepare_runtime_tool_batch (be_preparation env) calls (be_host_context env)
     (unat (opt_preparation_timeout_ms (be_options env)) * 1000000) (\<lambda>_. None)"

text \<open>Results that are known without running anything are errors.\<close>

definition errors_outside :: "nat \<Rightarrow> nat set \<Rightarrow> ('json, 'data) terminal_results \<Rightarrow> bool" where
  "errors_outside n I t \<longleftrightarrow> (\<forall>i < n. if i \<in> I then t i = None else (\<exists>e. t i = Some (Inl e)))"

lemma prepared_batch_facts:
  assumes "prepared_batch env calls = (ps, t)"
  shows "distinct (indices ps)" and "p \<in> set ps \<Longrightarrow> pc_index p < length calls"
    and "errors_outside (length calls) (set (indices ps)) t"
    and "p \<in> set ps \<Longrightarrow> prepare_call (be_preparation env) (be_host_context env)
      (unat (opt_preparation_timeout_ms (be_options env)) * 1000000) (pc_index p) (calls ! pc_index p) = Inr p"
proof -
  note eq = assms[unfolded prepared_batch_def]
  show "distinct (indices ps)" using prepare_batch_facts(1)[OF eq] by (simp add: strict_sorted_iff)
  show "p \<in> set ps \<Longrightarrow> pc_index p < length calls"
    and "p \<in> set ps \<Longrightarrow> prepare_call (be_preparation env) (be_host_context env)
      (unat (opt_preparation_timeout_ms (be_options env)) * 1000000) (pc_index p) (calls ! pc_index p) = Inr p"
    using prepare_batch_facts(2)[OF eq] by blast+
  show "errors_outside (length calls) (set (indices ps)) t"
    unfolding errors_outside_def
  proof (intro allI impI)
    fix i
    assume i: "i < length calls"
    show "if i \<in> set (indices ps) then t i = None else (\<exists>e. t i = Some (Inl e))"
      using prepare_batch_open[OF eq i] prepare_batch_facts(4)[OF eq i] by (auto split: sum.splits)
  qed
qed

lemma authorize_batch_facts:
  assumes "authorize_runtime_tool_batch authorize cancelled ps context t = Inr (approved, t')"
    and dist: "distinct (indices ps)" and lt: "\<forall>p \<in> set ps. pc_index p < n"
    and t: "errors_outside n (set (indices ps)) t"
  shows "distinct (indices approved)" and "set approved \<subseteq> set ps"
    and "errors_outside n (set (indices approved)) t'"
    and "p \<in> set approved \<Longrightarrow> \<exists>ds k. authorize (map (authorization_request_of context) ps) = Inr ds \<and>
      length ds = length ps \<and> k < length ps \<and> ps ! k = p \<and> ds ! k = AuthAllow"
    and "\<not> cancelled \<Longrightarrow> authorize (map (authorization_request_of context) ps) = Inr ds \<Longrightarrow> k < length ps \<Longrightarrow>
      refusal (ds ! k) = Some e \<Longrightarrow> t' (pc_index (ps ! k)) = Some (Inl e) \<and> ps ! k \<notin> set approved"
proof -
  have "distinct (indices approved) \<and> set approved \<subseteq> set ps \<and> errors_outside n (set (indices approved)) t' \<and>
    (\<forall>p \<in> set approved. \<exists>ds k. authorize (map (authorization_request_of context) ps) = Inr ds \<and>
      length ds = length ps \<and> k < length ps \<and> ps ! k = p \<and> ds ! k = AuthAllow) \<and>
    (\<forall>ds k e. \<not> cancelled \<longrightarrow> authorize (map (authorization_request_of context) ps) = Inr ds \<longrightarrow> k < length ps \<longrightarrow>
      refusal (ds ! k) = Some e \<longrightarrow> t' (pc_index (ps ! k)) = Some (Inl e) \<and> ps ! k \<notin> set approved)"
  proof (cases cancelled)
    case True
    with assms(1) have "approved = []" "t' = insert_cancelled_calls t ps"
      by (simp_all add: authorize_runtime_tool_batch_def)
    with t True show ?thesis by (auto simp: errors_outside_def insert_cancelled)
  next
    case False
    then obtain ds where ds: "authorize (map (authorization_request_of context) ps) = Inr ds" "length ps = length ds"
      and eq: "apply_tool_authorization_decisions ps ds t = (approved, t')"
      using assms(1) by (auto simp: authorize_runtime_tool_batch_def split: sum.splits if_splits)
    have approved: "approved = map fst (filter (\<lambda>(p, d). d = AuthAllow) (zip ps ds))"
      using apply_decisions_approved[OF ds(2), of t] eq by simp
    have mem: "p \<in> set approved \<longleftrightarrow> (\<exists>k < length ps. ps ! k = p \<and> ds ! k = AuthAllow)" for p
      using ds(2) by (force simp: approved in_set_zip)
    have at: "t' (pc_index (ps ! k)) = (case refusal (ds ! k) of None \<Rightarrow> t (pc_index (ps ! k)) | Some e \<Rightarrow> Some (Inl e))"
      if k: "k < length ps" for k
    proof -
      have "(ps ! k, ds ! k) \<in> set (zip ps ds)" using k ds(2) by (auto simp: in_set_zip)
      from bspec[OF apply_decisions_terminal(1)[OF ds(2) dist, of t] this] show ?thesis by (simp add: eq)
    qed
    have other: "t' j = t j" if "j \<notin> set (indices ps)" for j
      using apply_decisions_terminal(2)[OF ds(2) dist, of t] that by (simp add: eq)
    have idx: "ps ! k = ps ! l" if "pc_index (ps ! k) = pc_index (ps ! l)" "k < length ps" "l < length ps" for k l
      using that dist by (metis length_map nth_eq_iff_index_eq nth_map)
    have uniq: "k = l" if "ps ! k = ps ! l" "k < length ps" "l < length ps" for k l
      using that dist by (metis distinct_map nth_eq_iff_index_eq)
    have sub: "set approved \<subseteq> set ps" using mem by auto
    have "distinct (map pc_index (map fst (filter (\<lambda>(p, d). d = AuthAllow) (zip ps ds))))"
    proof -
      have "distinct (map pc_index (map fst (filter P (zip ps ds))))" for P
        using ds(2) dist
        by (induction ps ds rule: list_induct2) (auto dest!: set_zip_leftD)
      then show ?thesis .
    qed
    then have dist': "distinct (indices approved)" by (simp add: approved)
    have err: "errors_outside n (set (indices approved)) t'"
      unfolding errors_outside_def
    proof (intro allI impI)
      fix i
      assume i: "i < n"
      show "if i \<in> set (indices approved) then t' i = None else (\<exists>e. t' i = Some (Inl e))"
      proof (cases "i \<in> set (indices ps)")
        case True
        then obtain k where k: "k < length ps" "i = pc_index (ps ! k)" by (auto simp: in_set_conv_nth)
        have "t i = None" using t i True by (auto simp: errors_outside_def split: if_splits)
        moreover have "i \<in> set (indices approved) \<longleftrightarrow> ds ! k = AuthAllow"
        proof
          assume "i \<in> set (indices approved)"
          then obtain l where "l < length ps" "pc_index (ps ! l) = i" "ds ! l = AuthAllow" using mem by auto
          with idx[of l k] uniq[of l k] k show "ds ! k = AuthAllow" by simp
        qed (use k mem in auto)
        ultimately show ?thesis using at[OF k(1)] k(2)
          by (cases "ds ! k") (auto simp: refusal_def)
      next
        case False
        with sub have "i \<notin> set (indices approved)" by auto
        moreover have "\<exists>e. t i = Some (Inl e)" using t i False by (auto simp: errors_outside_def split: if_splits)
        ultimately show ?thesis using other[OF False] by simp
      qed
    qed
    have refused: "t' (pc_index (ps ! k)) = Some (Inl e) \<and> ps ! k \<notin> set approved"
      if k: "k < length ps" and r: "refusal (ds ! k) = Some e" for k e
    proof -
      have "ds ! k \<noteq> AuthAllow" using r by (auto simp: refusal_def)
      then have "ps ! k \<notin> set approved" using mem uniq[of _ k] k by blast
      with at[OF k] r show ?thesis by simp
    qed
    show ?thesis using dist' sub err mem refused ds False by fastforce
  qed
  then show "distinct (indices approved)" and "set approved \<subseteq> set ps"
    and "errors_outside n (set (indices approved)) t'"
    and "p \<in> set approved \<Longrightarrow> \<exists>ds k. authorize (map (authorization_request_of context) ps) = Inr ds \<and>
      length ds = length ps \<and> k < length ps \<and> ps ! k = p \<and> ds ! k = AuthAllow"
    and "\<not> cancelled \<Longrightarrow> authorize (map (authorization_request_of context) ps) = Inr ds \<Longrightarrow> k < length ps \<Longrightarrow>
      refusal (ds ! k) = Some e \<Longrightarrow> t' (pc_index (ps ! k)) = Some (Inl e) \<and> ps ! k \<notin> set approved"
    by blast+
qed

lemma begin_batch_execute:
  fixes t :: "('json, 'data) terminal_results"
  assumes "begin_batch env calls rounds = (rounds', Execute approved t)"
  shows "distinct (indices approved)" and "p \<in> set approved \<Longrightarrow> call_authorized env calls p"
    and "errors_outside (length calls) (set (indices approved)) t"
proof -
  have pa: "prepare_and_authorize env calls = Execute approved t"
    using assms by (auto simp: begin_batch_def split: sum.splits if_splits)
  obtain ps and t0 :: "('json, 'data) terminal_results" where ps: "prepared_batch env calls = (ps, t0)" by fastforce
  have au: "authorize_runtime_tool_batch (be_authorize env) (be_authorization_cancelled env) ps (be_context env) t0
      = Inr (approved, t)"
    using pa ps unfolding prepare_and_authorize_def prepared_batch_def
    by (auto simp: Let_def split: if_splits sum.splits prod.splits)
  note pf = prepared_batch_facts[OF ps]
  note af = authorize_batch_facts[OF au pf(1) _ pf(3)]
  show "distinct (indices approved)" "errors_outside (length calls) (set (indices approved)) t"
    using af(1,3) pf(2) by blast+
  assume p: "p \<in> set approved"
  with af(2) pf(2) have p': "p \<in> set ps" by blast
  have au': "\<exists>ds k. be_authorize env (map (authorization_request_of (be_context env)) ps) = Inr ds \<and>
      length ds = length ps \<and> k < length ps \<and> ps ! k = p \<and> ds ! k = AuthAllow"
    using af(4)[OF _ p] pf(2) by blast
  note pc = prepare_call_Inr[OF pf(4)[OF p']]
  from au' have "\<exists>requests decisions k. be_authorize env requests = Inr decisions \<and> length decisions = length requests \<and>
        k < length requests \<and> requests ! k = authorization_request_of (be_context env) p \<and> decisions ! k = AuthAllow"
    by (metis length_map nth_map)
  then show "call_authorized env calls p"
    unfolding call_authorized_def using pc pf(2)[OF p'] by simp
qed

lemma begin_batch_returned:
  fixes out :: "('json, 'data) tool_batch_execution_output"
  assumes "begin_batch env calls rounds = (rounds', Returned (Inr out))"
  shows "length (batch_results out) = length calls"
    and "i < length calls \<Longrightarrow> settlement_at out i = NeverDispatched \<and> (\<exists>e. batch_results out ! i = Inl e)"
proof -
  consider "calls = []" "out = empty_batch_output" | "out = cancelled_batch_output (length calls)"
    | t where "out = ordered_batch_output (length calls) t (replicate (length calls) 0)"
        "errors_outside (length calls) {} t"
  proof -
    obtain ps and t0 :: "('json, 'data) terminal_results" where ps: "prepared_batch env calls = (ps, t0)" by fastforce
    note pf = prepared_batch_facts[OF ps]
    have cancelled: "errors_outside (length calls) {} (insert_cancelled_calls t' qs)"
      if "errors_outside (length calls) (set (indices qs)) t'" for t' :: "('json, 'data) terminal_results" and qs
      using that by (auto simp: errors_outside_def insert_cancelled split: if_splits)
    show ?thesis
    proof (cases "calls = [] \<or> \<not> be_open_at_start env")
      case True
      with assms that(1,2) show ?thesis by (auto simp: begin_batch_def split: sum.splits if_splits)
    next
      case False
      with assms have pa: "prepare_and_authorize env calls = Returned (Inr out)"
        by (auto simp: begin_batch_def split: sum.splits if_splits)
      show ?thesis
      proof (cases "be_open_prepared env")
        case False
        with pa ps have "out = ordered_batch_output (length calls) (insert_cancelled_calls t0 ps) (replicate (length calls) 0)"
          by (simp add: prepare_and_authorize_def prepared_batch_def[symmetric] Let_def)
        with that(3) cancelled[OF pf(3)] show ?thesis by blast
      next
        case True
        with pa ps obtain approved t1 where
          au: "authorize_runtime_tool_batch (be_authorize env) (be_authorization_cancelled env) ps (be_context env) t0
            = Inr (approved, t1)"
          and out: "out = ordered_batch_output (length calls) (insert_cancelled_calls t1 approved) (replicate (length calls) 0)"
          by (auto simp: prepare_and_authorize_def prepared_batch_def[symmetric] Let_def split: sum.splits if_splits)
        have "errors_outside (length calls) (set (indices approved)) t1"
          using authorize_batch_facts(3)[OF au pf(1) _ pf(3)] pf(2) by blast
        with that(3) cancelled out show ?thesis by blast
      qed
    qed
  qed
  note cs = this
  show "length (batch_results out) = length calls"
    by (rule cs) (simp_all add: empty_batch_output_def cancelled_batch_output_def ordered_results)
  assume i: "i < length calls"
  show "settlement_at out i = NeverDispatched \<and> (\<exists>e. batch_results out ! i = Inl e)"
  proof (rule cs)
    fix t
    assume out: "out = ordered_batch_output (length calls) t (replicate (length calls) 0)"
      and "errors_outside (length calls) {} t"
    then obtain e where "t i = Some (Inl e)" using i by (auto simp: errors_outside_def)
    with i out show ?thesis by (simp add: ordered_results ordered_settlement get_eq)
  qed (use i in \<open>simp_all add: cancelled_settlement, simp add: cancelled_batch_output_def\<close>)
qed

lemma batch_run_executed:
  assumes "begin_batch env calls rounds = (rounds', Execute approved t)"
    and "groups_run (be_policy env) options (provider_batch_execution_groups approved par)
      \<lparr>bp_terminal = t, bp_settlement = replicate (length calls) 0, bp_invoked = [], bp_open = True\<rparr> b"
  shows "executed (be_policy env) approved
    \<lparr>bp_terminal = t, bp_settlement = replicate (length calls) 0, bp_invoked = [], bp_open = True\<rparr> (bp_invoked b) b"
proof -
  have "\<forall>p \<in> set approved. pc_index p < length calls"
    using begin_batch_execute(2)[OF assms(1)] by (simp add: call_authorized_def)
  with groups_run_executed[OF assms(2)] begin_batch_execute(1)[OF assms(1)] obtain us where
    "executed (be_policy env) approved
      \<lparr>bp_terminal = t, bp_settlement = replicate (length calls) 0, bp_invoked = [], bp_open = True\<rparr> us b"
    by auto
  moreover from this have "bp_invoked b = us" by (simp add: executed_def)
  ultimately show ?thesis by simp
qed

text \<open>Nothing is invoked that was not found, prepared and allowed, and nothing twice.\<close>

lemma batch_run_authorized:
  assumes "batch_run env calls rounds rounds' r invoked"
  shows "distinct (indices invoked)" and "p \<in> set invoked \<Longrightarrow> call_authorized env calls p"
proof -
  have "distinct (indices invoked) \<and> (\<forall>p \<in> set invoked. call_authorized env calls p)"
    using assms
  proof (cases rule: batch_run.cases)
    case (batch_executed approved terminal b)
    note ex = batch_run_executed[OF batch_executed(3,4)]
    note be = begin_batch_execute[OF batch_executed(3)]
    from ex have "distinct (bp_invoked b)" "set (bp_invoked b) \<subseteq> set approved" by (simp_all add: executed_def)
    with be(1,2) batch_executed(2) show ?thesis
      by (auto simp: distinct_map intro: inj_on_subset)
  qed simp
  then show "distinct (indices invoked)" and "p \<in> set invoked \<Longrightarrow> call_authorized env calls p" by blast+
qed

text \<open>
  One result per call, in the order of the calls; \<open>NeverDispatched\<close> is claimed of exactly the
  calls that were not handed to a tool, and a success is the bounded report of an invocation.
\<close>

lemma finish_invocation_Inr:
  "finish_invocation policy b call oc = Inr out \<Longrightarrow>
     \<exists>response. io_response oc = Inr response \<and> out = apply_tool_result_policy policy (tool_execution_output_of call response)"
  by (auto simp: finish_invocation_def Let_def split: sum.splits if_splits)

lemma batch_run_results:
  assumes "batch_run env calls rounds rounds' (Inr out) invoked"
  shows "length (batch_results out) = length calls"
    and "i < length calls \<Longrightarrow> settlement_at out i = NeverDispatched \<longleftrightarrow> i \<notin> set (indices invoked)"
    and "i < length calls \<Longrightarrow> batch_results out ! i = Inr res \<Longrightarrow>
      \<exists>p \<in> set invoked. pc_index p = i \<and>
        (\<exists>response. res = apply_tool_result_policy (be_policy env) (tool_execution_output_of (pc_call p) response))"
proof -
  have "length (batch_results out) = length calls \<and>
    (\<forall>i < length calls. (settlement_at out i = NeverDispatched \<longleftrightarrow> i \<notin> set (indices invoked)) \<and>
      (\<forall>res. batch_results out ! i = Inr res \<longrightarrow> (\<exists>p \<in> set invoked. pc_index p = i \<and>
        (\<exists>response. res = apply_tool_result_policy (be_policy env) (tool_execution_output_of (pc_call p) response)))))"
    using assms
  proof (cases rule: batch_run.cases)
    case batch_returned
    from begin_batch_returned[OF batch_returned(2)] batch_returned(1) show ?thesis by force
  next
    case (batch_executed approved t b)
    let ?n = "length calls"
    note ex = batch_run_executed[OF batch_executed(3,4)]
    note be = begin_batch_execute[OF batch_executed(3)]
    have lt: "\<forall>p \<in> set approved. pc_index p < ?n" using be(2) by (simp add: call_authorized_def)
    have sub: "set (bp_invoked b) \<subseteq> set approved" using ex by (simp add: executed_def)
    have len: "length (bp_settlement b) = ?n" using ex by (simp add: executed_def)
    have point: "(settlement_at out i = NeverDispatched \<longleftrightarrow> i \<notin> set (indices invoked)) \<and>
      (\<forall>res. batch_results out ! i = Inr res \<longrightarrow> (\<exists>p \<in> set invoked. pc_index p = i \<and>
        (\<exists>response. res = apply_tool_result_policy (be_policy env) (tool_execution_output_of (pc_call p) response))))"
      if i: "i < ?n" for i
    proof (cases "i \<in> set (indices approved)")
      case False
      with ex have "bp_terminal b i = t i" by (simp add: executed_def)
      moreover obtain e where "t i = Some (Inl e)" using be(3) i False unfolding errors_outside_def by (auto split: if_splits)
      moreover have ni: "i \<notin> set (indices (bp_invoked b))" using False sub by auto
      moreover have "bp_settlement b ! i = 0" using ex ni i by (simp add: executed_def)
      ultimately show ?thesis
        using i len batch_executed(1,2) by (simp add: ordered_results ordered_settlement get_eq)
    next
      case True
      then obtain p where p: "p \<in> set approved" "pc_index p = i" by auto
      with ex obtain r where r: "bp_terminal b i = Some r" "r = Inl TurnCancelled \<or>
          p \<in> set (bp_invoked b) \<and> (\<exists>b oc. r = finish_invocation (be_policy env) b (pc_call p) oc)"
        unfolding executed_def by blast
      have "i \<in> set (indices (bp_invoked b)) \<longleftrightarrow> p \<in> set (bp_invoked b)"
      proof
        assume "i \<in> set (indices (bp_invoked b))"
        then obtain q where "q \<in> set (bp_invoked b)" "pc_index q = i" by auto
        with sub p be(1) show "p \<in> set (bp_invoked b)" by (auto simp: distinct_map dest: inj_onD)
      qed (use p in auto)
      moreover have "p \<notin> set (bp_invoked b) \<Longrightarrow> bp_settlement b ! i = 0"
        using ex i calculation by (simp add: executed_def)
      moreover have "p \<in> set (bp_invoked b) \<Longrightarrow> bp_settlement b ! i \<noteq> 0"
        using ex p(2) by (auto simp: executed_def)
      ultimately have "settlement_at out i = NeverDispatched \<longleftrightarrow> i \<notin> set (indices invoked)"
        using i r(1) len batch_executed(1,2) by (auto simp: ordered_settlement get_eq)
      moreover have "\<exists>p \<in> set invoked. pc_index p = i \<and>
          (\<exists>response. res = apply_tool_result_policy (be_policy env) (tool_execution_output_of (pc_call p) response))"
        if res: "batch_results out ! i = Inr res" for res
      proof -
        have "batch_results out ! i = r" using i r(1) batch_executed(1) by (simp add: ordered_results)
        with res r(2) obtain b' oc where "p \<in> set (bp_invoked b)" "finish_invocation (be_policy env) b' (pc_call p) oc = Inr res"
          by auto
        with finish_invocation_Inr p(2) batch_executed(2) show ?thesis by metis
      qed
      ultimately show ?thesis by blast
    qed
    with batch_executed(1) show ?thesis by (simp add: ordered_results)
  qed
  then show "length (batch_results out) = length calls"
    and "i < length calls \<Longrightarrow> settlement_at out i = NeverDispatched \<longleftrightarrow> i \<notin> set (indices invoked)"
    and "i < length calls \<Longrightarrow> batch_results out ! i = Inr res \<Longrightarrow>
      \<exists>p \<in> set invoked. pc_index p = i \<and>
        (\<exists>response. res = apply_tool_result_policy (be_policy env) (tool_execution_output_of (pc_call p) response))"
    by blast+
qed

text \<open>A call that was asked about or denied is not invoked, and its result says so.\<close>

lemma batch_run_refused:
  fixes out :: "('json, 'data) tool_batch_execution_output"
  assumes run: "batch_run env calls rounds rounds' (Inr out) invoked"
    and ps: "prepared_batch env calls = (ps, t0 :: ('json, 'data) terminal_results)"
    and ds: "be_authorize env (map (authorization_request_of (be_context env)) ps) = Inr ds"
    and ok: "be_open_at_start env" "be_open_prepared env" "\<not> be_authorization_cancelled env" "be_open_authorized env"
    and k: "k < length ps" "refusal (ds ! k) = Some e"
  shows "batch_results out ! pc_index (ps ! k) = Inl e \<and> pc_index (ps ! k) \<notin> set (indices invoked)"
  using run
proof (cases rule: batch_run.cases)
  case batch_returned
  note pf = prepared_batch_facts[OF ps]
  from k pf(2)[of "ps ! k"] have "calls \<noteq> []" by auto
  with batch_returned(2) ok have "prepare_and_authorize env calls = Returned (Inr out)"
    by (auto simp: begin_batch_def split: sum.splits if_splits)
  with ok ps ds show ?thesis
    by (auto simp: prepare_and_authorize_def prepared_batch_def[symmetric] Let_def split: sum.splits if_splits)
next
  case (batch_executed approved t b)
  note pf = prepared_batch_facts[OF ps]
  have pa: "prepare_and_authorize env calls = Execute approved t"
    using batch_executed(3) by (auto simp: begin_batch_def split: sum.splits if_splits)
  have au: "authorize_runtime_tool_batch (be_authorize env) (be_authorization_cancelled env) ps (be_context env) t0
      = Inr (approved, t)"
    using pa ps ok unfolding prepare_and_authorize_def prepared_batch_def
    by (auto simp: Let_def split: if_splits sum.splits prod.splits)
  have r: "t (pc_index (ps ! k)) = Some (Inl e)" "ps ! k \<notin> set approved"
    using authorize_batch_facts(5)[OF au pf(1) _ pf(3) ok(3) ds k] pf(2) by blast+
  have sub: "set approved \<subseteq> set ps" using authorize_batch_facts(2)[OF au pf(1) _ pf(3)] pf(2) by blast
  have na: "pc_index (ps ! k) \<notin> set (indices approved)"
    using r(2) sub k(1) pf(1) by (auto simp: distinct_map dest: inj_onD)
  note ex = batch_run_executed[OF batch_executed(3,4)]
  from ex have "set (bp_invoked b) \<subseteq> set approved" by (simp add: executed_def)
  with na have "pc_index (ps ! k) \<notin> set (indices (bp_invoked b))" by auto
  moreover have "bp_terminal b (pc_index (ps ! k)) = Some (Inl e)" using ex na r(1) by (simp add: executed_def)
  moreover have "pc_index (ps ! k) < length calls" using pf(2) k(1) by simp
  ultimately show ?thesis using batch_executed(1,2) by (simp add: ordered_results)
qed

text \<open>
  No deadlock: with a positive concurrency, a batch whose turn stays open can always complete with
  every approved call invoked.
\<close>

definition options_ok :: "tool_execution_options \<Rightarrow> bool" where
  "options_ok options \<longleftrightarrow> opt_max_concurrency options \<noteq> Some 0"

lemma concurrency_pos: "options_ok options \<Longrightarrow> 0 < batch_concurrency options n"
  by (auto simp: options_ok_def batch_concurrency_def split: option.splits)

lemma groups_can_complete:
  fixes b :: "('json, 'data) batch_progress"
  assumes "options_ok options" and "bp_open b"
  shows "\<exists>b'. groups_run policy options gs b b' \<and> bp_open b'"
  using assms(2)
proof (induction gs arbitrary: b)
  case Nil
  then show ?case using groups_done by blast
next
  case (Cons g gs)
  have "group_run policy (batch_concurrency options (length g)) (group_init g (bp_settlement b) True)
      (group_init g (bp_settlement b) True :: ('json, 'data) group_state)" by (rule run_init)
  from group_can_finish[OF this concurrency_pos[OF assms(1)]] obtain s :: "('json, 'data) group_state" where
    s: "group_run policy (batch_concurrency options (length g)) (group_init g (bp_settlement b) True) s"
      "gs_phase s = Finished" "gs_open s"
    by (auto simp: group_init_def)
  let ?b = "\<lparr>bp_terminal = extend_terminal (bp_terminal b) (gs_completions s),
      bp_settlement = gs_settlement s, bp_invoked = bp_invoked b @ gs_invoked s, bp_open = gs_open s\<rparr>"
  from Cons.IH[of ?b] s(3) obtain b' where "groups_run policy options gs ?b b'" "bp_open b'" by auto
  with groups_exec[OF Cons.prems s(1,2) this(1)] show ?case by blast
qed

lemma batch_can_complete:
  fixes t :: "('json, 'data) terminal_results"
  assumes "options_ok (be_options env)" and "begin_batch env calls rounds = (rounds', Execute approved t)"
  shows "\<exists>(out :: ('json, 'data) tool_batch_execution_output) invoked.
    batch_run env calls rounds rounds' (Inr out) invoked \<and> set invoked = set approved"
proof -
  let ?b = "\<lparr>bp_terminal = t, bp_settlement = replicate (length calls) 0, bp_invoked = [], bp_open = True\<rparr>"
  obtain b where b: "groups_run (be_policy env) (be_options env)
      (provider_batch_execution_groups approved (opt_parallel (be_options env))) ?b b" "bp_open b"
    using groups_can_complete[OF assms(1), of ?b] by auto
  have "set (bp_invoked b) = set approved"
    using batch_run_executed[OF assms(2) b(1)] b(2) by (simp add: executed_def)
  with batch_executed[OF assms(2) b(1)] show ?thesis by blast
qed

section \<open>Moments of a batch\<close>

text \<open>What a batch has done up to a moment within it.\<close>

lemma groups_before:
  assumes begun: "begin_batch env calls rounds = (rounds', Execute approved terminal)"
    and gs: "provider_batch_execution_groups approved (opt_parallel (be_options env)) = gs @ later"
    and run: "groups_run (be_policy env) (be_options env) gs (progress_init (length calls) terminal) b"
  shows "distinct (indices (concat gs @ concat later))" and "\<forall>p \<in> set (concat gs @ concat later). call_authorized env calls p"
    and "distinct (bp_invoked b)" and "set (bp_invoked b) \<subseteq> set (concat gs)" and "length (bp_settlement b) = length calls"
proof -
  note be = begin_batch_execute[OF begun]
  have approved: "approved = concat gs @ concat later" using concat_groups gs by (metis concat_append)
  with be(1,2) show d: "distinct (indices (concat gs @ concat later))"
    and "\<forall>p \<in> set (concat gs @ concat later). call_authorized env calls p" by simp_all
  then have "\<forall>p \<in> set (concat gs). pc_index p < length calls" by (simp add: call_authorized_def)
  with groups_run_executed[OF run] d obtain us where
    "executed (be_policy env) (concat gs) (progress_init (length calls) terminal) us b" by auto
  then show "distinct (bp_invoked b)" "set (bp_invoked b) \<subseteq> set (concat gs)" "length (bp_settlement b) = length calls"
    by (simp_all add: executed_def)
qed

lemma group_within:
  assumes begun: "begin_batch env calls rounds = (rounds', Execute approved terminal)"
    and gs: "provider_batch_execution_groups approved (opt_parallel (be_options env)) = gs @ g # later"
    and run: "groups_run (be_policy env) (be_options env) gs (progress_init (length calls) terminal) b"
    and s: "group_run (be_policy env) c (group_init g (bp_settlement b) True) s"
  shows "group_inv (be_policy env) g (bp_settlement b) c s"
proof (rule group_inv_run[OF s])
  note before = groups_before[OF begun gs run]
  from before(1,2,5) show "group_ok g (bp_settlement b)" by (simp add: group_ok_def call_authorized_def)
qed

text \<open>Up to every moment only authorized calls have been invoked, none twice.\<close>

lemma batch_moment_authorized:
  assumes "batch_moment env calls rounds rounds' before current"
  shows "distinct (indices (moment_calls before current)) \<and>
    (\<forall>p \<in> set (moment_calls before current). call_authorized env calls p)"
  using assms
proof (cases rule: batch_moment.cases)
  case (moment_between approved terminal gs later b)
  note before = groups_before[OF moment_between(3,4,5)]
  have "inj_on pc_index (set (bp_invoked b))"
    using before(1,4) by (auto simp: distinct_map intro: inj_on_subset)
  with before(2-4) show ?thesis unfolding moment_between(1,2) by (auto simp: moment_calls_def distinct_map)
next
  case (moment_within approved terminal gs g later b s)
  note before = groups_before[OF moment_within(3,4,5)]
  note inv = group_within[OF moment_within(3,4,5,7), unfolded group_inv_def]
  let ?all = "concat gs @ concat (g # later)"
  have sub: "set (bp_invoked b @ gs_invoked s) \<subseteq> set ?all" using before(4) inv by auto
  have "distinct ?all" using before(1) by (metis distinct_map)
  then have "set (concat gs) \<inter> set g = {}" by (metis concat.simps(2) distinct_append set_append inf_sup_distrib1 sup_eq_bot_iff)
  with before(3,4) inv have "distinct (bp_invoked b @ gs_invoked s)" by auto
  moreover have "inj_on pc_index (set (bp_invoked b @ gs_invoked s))"
    using before(1) sub by (metis distinct_map inj_on_subset)
  ultimately have "distinct (indices (bp_invoked b @ gs_invoked s))" unfolding distinct_map by blast
  moreover have "\<forall>p \<in> set (bp_invoked b @ gs_invoked s). call_authorized env calls p" using before(2) sub by blast
  ultimately show ?thesis unfolding moment_within(1,2) by (simp add: moment_calls_def)
qed (simp_all add: moment_calls_def)

text \<open>Bounded concurrency, at every moment of every run of a group and of a batch.\<close>

lemma group_concurrency:
  assumes "group_run policy c (group_init calls st0 b) s" and "group_ok calls st0"
  shows "length (gs_running s) \<le> c" and "gs_peak s \<le> c"
  using group_inv_run[OF assms] by (simp_all add: group_inv_def)

lemma group_running_size:
  assumes "group_inv policy g st0 c s"
  shows "length (gs_running s) \<le> length g"
proof -
  have "set (gs_running s) \<subseteq> set g" "distinct (gs_running s)" using assms by (auto simp: group_inv_def)
  then have "length (gs_running s) = card (set (gs_running s))" "card (set (gs_running s)) \<le> card (set g)"
    by (simp_all add: distinct_card[symmetric] card_mono del: distinct_card)
  with card_length[of g] show ?thesis by linarith
qed

lemma batch_moment_concurrency:
  assumes "batch_moment env calls rounds rounds' before (Some s)"
  shows "length (gs_running s) \<le> length calls"
    and "opt_max_concurrency (be_options env) = Some n \<Longrightarrow> length (gs_running s) \<le> n \<and> gs_peak s \<le> n"
    and "\<not> opt_parallel (be_options env) \<Longrightarrow> length (gs_running s) \<le> 1"
proof -
  from assms obtain approved terminal gs g later b where
    m: "begin_batch env calls rounds = (rounds', Execute approved (terminal :: ('a, 'b) terminal_results))"
      "provider_batch_execution_groups approved (opt_parallel (be_options env)) = gs @ g # later"
      "groups_run (be_policy env) (be_options env) gs (progress_init (length calls) terminal) b"
      "group_run (be_policy env) (batch_concurrency (be_options env) (length g)) (group_init g (bp_settlement b) True) s"
    by (cases rule: batch_moment.cases) auto
  note before = groups_before[OF m(1-3)]
  note inv = group_within[OF m]
  have "distinct (indices g)" "set (indices g) \<subseteq> {..<length calls}"
    using before(1,2) by (auto simp: call_authorized_def)
  then have "length g \<le> length calls" by (metis card_lessThan card_mono distinct_card finite_lessThan length_map)
  with group_running_size[OF inv] show "length (gs_running s) \<le> length calls" by linarith
  show "opt_max_concurrency (be_options env) = Some n \<Longrightarrow> length (gs_running s) \<le> n \<and> gs_peak s \<le> n"
    using inv by (simp add: group_inv_def batch_concurrency_def)
  assume "\<not> opt_parallel (be_options env)"
  with m(2) have "g \<in> set (map (\<lambda>p. [p]) approved)" by (simp add: provider_batch_execution_groups_def)
  then have "length g = 1" by auto
  with group_running_size[OF inv] show "length (gs_running s) \<le> 1" by simp
qed

text \<open>
  Every schedule of a group completes: until it is finished it can go on without being cancelled,
  it cannot go on for ever, and when nothing is left to do every call has exactly one completion.
\<close>

lemma no_infinite_group: "\<not> (\<forall>i. group_step policy c (f i) (f (Suc i)))"
  using group_step_wf[of policy c] unfolding wf_iff_no_infinite_down_chain by blast

lemma stuck_group_finished:
  assumes run: "group_run policy c (group_init calls st0 b) s" and ok: "group_ok calls st0" and "0 < c"
    and stuck: "\<And>s'. \<not> group_step policy c s s'"
  shows "gs_phase s = Finished \<and> mset (map fst (gs_completions s)) = mset (indices calls)"
proof -
  have "gs_phase s = Finished" using group_progress[of s c policy] stuck assms(3) by blast
  then show ?thesis using group_inv_run[OF run ok] by (simp add: group_inv_def outstanding_def)
qed

end
