(* ===== verification/Governed_Batch.thy ===== *)
theory Governed_Batch
  imports Permissions Tool_Scheduler
begin

text \<open>
  The runtime's tool batch under an agent's permission policy: the coordinator is the adapter
  \<open>PermissionPolicyAuthorization\<close> over \<open>AgentPermissionPolicy\<close>. Here the policy evaluator and the
  scheduler meet: what a profile denies is never handed to a tool.
\<close>

definition governed_by ::
    "('re, 'g) eval_env \<Rightarrow> ('json \<Rightarrow> ustring + tool_policy_authorization_metadata)
       \<Rightarrow> 'json agent_permission_policy \<Rightarrow> 'json batch_env \<Rightarrow> bool" where
  "governed_by penv from_json policy env \<longleftrightarrow>
     be_authorize env = authorize_with_permission_policy (permission_policy_evaluate penv from_json policy)"

text \<open>The profile request of a prepared call, and what the policy says of it.\<close>

definition profile_of ::
    "('json \<Rightarrow> ustring + tool_policy_authorization_metadata) \<Rightarrow> 'json agent_permission_policy \<Rightarrow> 'json batch_env
       \<Rightarrow> 'json prepared_call \<Rightarrow> runtime_error + evaluate_tool_call_request" where
  "profile_of from_json policy env p = runtime_permission_request_to_profile_request from_json
     (permission_request_of (authorization_request_of (be_context env) p)) (app_cwd policy)"

definition policy_permits ::
    "('re, 'g) eval_env \<Rightarrow> 'json agent_permission_policy \<Rightarrow> 'json runtime_permission_request
       \<Rightarrow> evaluate_tool_call_request \<Rightarrow> bool" where
  "policy_permits penv policy request profile \<longleftrightarrow>
     (let response = pe_response (evaluate_tool_call penv (app_config policy) profile (app_cwd policy))
      in resp_decision response = DAllow \<or>
         resp_decision response = DAsk \<and>
           (\<exists>ask. app_ask_callback policy = Some ask \<and> ask request response = PermitAllow))"

section \<open>The gate\<close>

text \<open>
  What the scheduler needs of a coordinator: an allowed request is one it permits. The client's
  facts hold for every coordinator that keeps this contract.
\<close>

locale authorization_gate =
  fixes authorize :: "'json authorization_request list \<Rightarrow> runtime_error + authorization_decision list"
    and permits :: "'json authorization_request \<Rightarrow> bool"
  assumes allow_permits: "authorize requests = Inr decisions \<Longrightarrow> length decisions = length requests \<Longrightarrow>
    k < length requests \<Longrightarrow> decisions ! k = AuthAllow \<Longrightarrow> permits (requests ! k)"
begin

lemma call_permitted:
  "be_authorize env = authorize \<Longrightarrow> call_authorized env calls p \<Longrightarrow> permits (authorization_request_of (be_context env) p)"
  unfolding call_authorized_def by (metis allow_permits)

lemma batch_permitted:
  assumes "be_authorize env = authorize" and "batch_run env calls rounds rounds' r invoked" and "p \<in> set invoked"
  shows "permits (authorization_request_of (be_context env) p)"
  using call_permitted[OF assms(1) batch_run_authorized(2)[OF assms(2,3)]] .

end

text \<open>The agent's permission policy behind the batch adapter is such a coordinator.\<close>

definition request_permitted ::
    "('re, 'g) eval_env \<Rightarrow> ('json \<Rightarrow> ustring + tool_policy_authorization_metadata)
       \<Rightarrow> 'json agent_permission_policy \<Rightarrow> 'json authorization_request \<Rightarrow> bool" where
  "request_permitted penv from_json policy r \<longleftrightarrow>
     (\<exists>profile. runtime_permission_request_to_profile_request from_json (permission_request_of r) (app_cwd policy) = Inr profile \<and>
        policy_permits penv policy (permission_request_of r) profile)"

interpretation profile_gate: authorization_gate
  "authorize_with_permission_policy (permission_policy_evaluate penv from_json policy)"
  "request_permitted penv from_json policy" for penv from_json policy
proof
  fix requests decisions k
  assume a: "authorize_with_permission_policy (permission_policy_evaluate penv from_json policy) requests = Inr decisions"
    "k < length requests" "decisions ! k = AuthAllow"
  let ?r = "requests ! k"
  from authorize_one_per_request[OF a(1)] a(2,3) obtain d where
    d: "permission_policy_evaluate penv from_json policy (permission_request_of ?r) = Inr d" "d = PermitAllow"
    by (auto dest!: list_all2_nthD[of _ _ _ k] simp: eq_commute[of AuthAllow])
  from permission_policy_Inr[OF d(1)] obtain profile where
    "runtime_permission_request_to_profile_request from_json (permission_request_of ?r) (app_cwd policy) = Inr profile"
    "PermitAllow = runtime_decision policy (permission_request_of ?r)
       (pe_response (evaluate_tool_call penv (app_config policy) profile (app_cwd policy)))"
    using d(2) by auto
  then show "request_permitted penv from_json policy ?r"
    unfolding request_permitted_def policy_permits_def Let_def
    by (metis runtime_decision_permits)
qed

lemma governed_invocation:
  assumes "governed_by penv from_json policy env" and "call_authorized env calls p"
  shows "\<exists>profile. profile_of from_json policy env p = Inr profile \<and>
    policy_permits penv policy (permission_request_of (authorization_request_of (be_context env) p)) profile"
  using profile_gate.call_permitted[of env penv from_json policy calls p] assms
  by (simp add: governed_by_def request_permitted_def profile_of_def)

lemma governed_batch_invocations:
  assumes "governed_by penv from_json policy env" and "batch_run env calls rounds rounds' r invoked"
    and "p \<in> set invoked"
  shows "\<exists>profile. profile_of from_json policy env p = Inr profile \<and>
    policy_permits penv policy (permission_request_of (authorization_request_of (be_context env) p)) profile"
  using governed_invocation[OF assms(1) batch_run_authorized(2)[OF assms(2,3)]] .

text \<open>Under the plan agent, no tool that declares itself mutating is ever invoked.\<close>

lemma plan_agent_permits:
  assumes "request_permitted penv from_json policy (authorization_request_of context p)"
    and "app_config policy = plan_agent_config"
  shows "\<exists>m. tool_policy_authorization_metadata_of from_json
      (pr_authorization (pti_preparation (pc_invocation p))) (call_name (pc_call p)) = Inr m \<and>
    meta_operation m \<noteq> Mutating \<and> (\<forall>paths category. meta_operation m \<noteq> Write paths category)"
proof -
  let ?r = "permission_request_of (authorization_request_of context p)"
  from assms(1) obtain profile where
    pr: "runtime_permission_request_to_profile_request from_json ?r (app_cwd policy) = Inr profile"
      "policy_permits penv policy ?r profile"
    by (auto simp: request_permitted_def)
  from profile_request_facts[OF pr(1)] obtain m where
    m: "tool_policy_authorization_metadata_of from_json
        (pr_authorization (pti_preparation (pc_invocation p))) (call_name (pc_call p)) = Inr m"
      "req_operation profile = meta_operation m"
    by (auto simp: permission_request_of_def authorization_request_of_def)
  from pr(2) assms(2) have "resp_decision (pe_response (evaluate_tool_call penv plan_agent_config profile (app_cwd policy))) \<noteq> DDeny"
    by (auto simp: policy_permits_def Let_def)
  with plan_agent_denies[of profile penv "app_cwd policy"] m show ?thesis by metis
qed

lemma plan_agent_batch:
  assumes "governed_by penv from_json policy env" and "batch_run env calls rounds rounds' r invoked"
    and "p \<in> set invoked" and "app_config policy = plan_agent_config"
  shows "\<exists>m. tool_policy_authorization_metadata_of from_json
      (pr_authorization (pti_preparation (pc_invocation p))) (call_name (pc_call p)) = Inr m \<and>
    meta_operation m \<noteq> Mutating \<and> (\<forall>paths category. meta_operation m \<noteq> Write paths category)"
  using plan_agent_permits[OF profile_gate.batch_permitted[OF _ assms(2,3)] assms(4)] assms(1)
  unfolding governed_by_def by blast

end
