(* ===== verification/Batch_Samples.thy ===== *)
theory Batch_Samples
  imports Samples Governed_Batch
begin

text \<open>
  A concrete batch for the witnesses of the runtime properties: one registered tool that prepares
  itself as read only, two calls (the second to a tool nobody has registered), and the permission
  policy of the plan agent.
\<close>

definition read_tool :: "unit registered_tool" where
  "read_tool = inline_tool \<lparr>def_name = str ''look'', def_description = [], def_input_schema = ()\<rparr>"

definition read_fact :: "unit tool_authorization_fact" where
  "read_fact = \<lparr>fact_namespace = TOOL_POLICY_AUTHORIZATION_NAMESPACE,
     fact_schema_version = TOOL_POLICY_AUTHORIZATION_SCHEMA_VERSION,
     fact_action = TOOL_POLICY_AUTHORIZATION_ACTION_INVOKE, fact_resource = Some (str ''look''), fact_metadata = ()\<rparr>"

definition read_metadata :: tool_policy_authorization_metadata where
  "read_metadata = \<lparr>meta_requires_permission = False, meta_aliases = [], meta_compatibility_aliases = [],
     meta_capabilities = [], meta_permission_category = None, meta_operation = ReadOnly\<rparr>"

definition sample_calls :: "unit tool_call list" where
  "sample_calls = [\<lparr>call_id = str ''1'', call_name = str ''look'', call_arguments = ()\<rparr>,
     \<lparr>call_id = str ''2'', call_name = str ''leap'', call_arguments = ()\<rparr>]"

definition sample_preparation :: "unit preparation_env" where
  "sample_preparation = \<lparr>prep_catalog = [(str ''look'', read_tool)],
     prep_tool = \<lambda>_ _. Inr \<lparr>pr_authorization = [read_fact], pr_descriptor = ()\<rparr>,
     prep_accepts = \<lambda>_. True, prep_race = \<lambda>_. PreparationAnswered\<rparr>"

definition plan_policy :: "unit agent_permission_policy" where
  "plan_policy = policy_new plan_agent_config"

definition sample_batch ::
    "(unit authorization_request list \<Rightarrow> runtime_error + authorization_decision list) \<Rightarrow> unit batch_env" where
  "sample_batch authorize = \<lparr>be_preparation = sample_preparation, be_authorize = authorize,
     be_context = default_permission_context 0, be_host_context = [], be_payload_len = \<lambda>_. 4,
     be_context_len = \<lambda>_. 2, be_options = default_execution_options, be_policy = default_result_policy,
     be_open_at_start = True, be_open_prepared = True, be_authorization_cancelled = False,
     be_open_authorized = True\<rparr>"

definition plan_batch :: "unit batch_env" where
  "plan_batch = sample_batch (authorize_with_permission_policy
     (permission_policy_evaluate sample_env (\<lambda>_. Inr read_metadata) plan_policy))"

definition look_call :: "unit prepared_call" where
  "look_call = \<lparr>pc_index = 0, pc_call = hd sample_calls, pc_tool = read_tool,
     pc_invocation = \<lparr>pti_invocation = tool_invocation_descriptor_of (hd sample_calls),
       pti_preparation = \<lparr>pr_authorization = [read_fact], pr_descriptor = ()\<rparr>\<rparr>\<rparr>"

lemma sample_prepared:
  "prepare_runtime_tool_batch sample_preparation sample_calls hc timeout (\<lambda>_. None)
     = ([look_call], [Suc 0 \<mapsto> Inl (ToolNotFound (str ''leap''))])"
  by (simp add: prepare_runtime_tool_batch_def sample_calls_def prepare_call_def sample_preparation_def
      find_tool_def bt_get_def look_call_def)

lemma look_profile:
  "runtime_permission_request_to_profile_request (\<lambda>_. Inr read_metadata)
     (permission_request_of (authorization_request_of ctx look_call)) cwd =
   Inr \<lparr>req_session_id = pctx_session_id ctx, req_agent_id = pctx_agent_id ctx, req_tool_name = str ''look'',
     req_operation = ReadOnly, req_aliases = [str ''look''], req_requires_permission = False,
     req_policy_profile = None, req_cwd = Some cwd, req_effective_config_toml = None\<rparr>"
  by (simp add: runtime_permission_request_to_profile_request_def permission_request_of_def
      authorization_request_of_def look_call_def tool_policy_authorization_metadata_of_def read_fact_def
      map_err_def read_metadata_def sample_calls_def)

lemma look_allowed:
  "authorize_with_permission_policy (permission_policy_evaluate sample_env (\<lambda>_. Inr read_metadata) plan_policy)
     [authorization_request_of ctx look_call] = Inr [AuthAllow]"
proof -
  let ?request = "\<lparr>req_session_id = pctx_session_id ctx, req_agent_id = pctx_agent_id ctx, req_tool_name = str ''look'',
     req_operation = ReadOnly, req_aliases = [str ''look''], req_requires_permission = False,
     req_policy_profile = None, req_cwd = Some (app_cwd plan_policy), req_effective_config_toml = None\<rparr>"
  have "tool_enabled plan_agent_config ?request = None"
    by (simp add: tool_enabled_def tool_aliases_def bs_from_def bt_get_def plan_agent_config_def default_config_def
        str_def)
  then have "pe_decision (evaluate_tool_call sample_env plan_agent_config ?request (app_cwd plan_policy)) = DAllow"
    by (subst tool_call_single)
      (simp_all add: evaluate_single_def external_path_def candidate_paths_def evaluate_after_path_def evaluation_def)
  then show ?thesis
    by (simp add: authorize_with_permission_policy_def permission_policy_evaluate_def look_profile
        evaluate_profile_tool_call_def runtime_decision_def authorization_of_def plan_policy_def policy_new_def)
qed

text \<open>Both batches get past authorization; the first one then can run to its end.\<close>

definition denied_batch :: "unit batch_env" where
  "denied_batch = sample_batch (\<lambda>_. Inr [AuthDeny (str ''no'')])"

definition sample_rounds :: tool_round_state where
  "sample_rounds = \<lparr>max_tool_rounds = 3, completed_rounds = 1\<rparr>"

lemma sample_begins:
  assumes "authorize [authorization_request_of (default_permission_context 0) look_call] = Inr [d]"
  shows "begin_batch (sample_batch authorize) sample_calls (round_state_new 3) = (sample_rounds,
    case apply_tool_authorization_decisions [look_call] [d] [Suc 0 \<mapsto> Inl (ToolNotFound (str ''leap''))] of
      (approved, t) \<Rightarrow> Execute approved t)"
proof -
  have round: "begin_round (round_state_new 3) = Inr sample_rounds"
    by (simp add: begin_round_def round_state_new_def sample_rounds_def saturating_inc32_def saturating_add32_def)
  have ctx: "validate_tool_host_context l m [] = Inr ()" if "m [] = 2" for l :: "unit \<Rightarrow> nat" and m
    using that by (simp add: validate_tool_host_context_def TOOL_HOST_CONTEXT_MAX_ENTRIES_def TOOL_HOST_CONTEXT_TOTAL_MAX_BYTES_def)
  have ne: "sample_calls \<noteq> []" by (simp add: sample_calls_def)
  show ?thesis
    using assms ne
    by (simp add: begin_batch_def sample_batch_def round ctx prepare_and_authorize_def sample_prepared
        authorize_runtime_tool_batch_def Let_def split: prod.splits)
qed

lemma plan_batch_runs:
  "\<exists>(out :: (unit, unit) tool_batch_execution_output).
     batch_run plan_batch sample_calls (round_state_new 3) sample_rounds (Inr out) [look_call]"
proof -
  have "begin_batch plan_batch sample_calls (round_state_new 3) = (sample_rounds,
      Execute [look_call] ([Suc 0 \<mapsto> Inl (ToolNotFound (str ''leap''))] :: (unit, unit) terminal_results))"
    unfolding plan_batch_def by (subst sample_begins[where d = AuthAllow]) (simp_all add: look_allowed)
  moreover have "options_ok (be_options plan_batch)"
    by (simp add: options_ok_def plan_batch_def sample_batch_def default_execution_options_def)
  ultimately obtain out :: "(unit, unit) tool_batch_execution_output" and invoked where
    run: "batch_run plan_batch sample_calls (round_state_new 3) sample_rounds (Inr out) invoked"
      "set invoked = set [look_call]"
    using batch_can_complete by blast
  from batch_run_authorized(1)[OF run(1)] have "distinct invoked" by (simp add: distinct_map)
  with run(2) have "invoked = [look_call]"
    by (cases invoked; cases "tl invoked") (auto simp: insert_eq_iff)
  with run(1) show ?thesis by blast
qed

lemma plan_batch_governed: "governed_by sample_env (\<lambda>_. Inr read_metadata) plan_policy plan_batch"
  by (simp add: governed_by_def plan_batch_def sample_batch_def)

lemma denied_batch_runs:
  "\<exists>(out :: (unit, unit) tool_batch_execution_output) invoked.
     batch_run denied_batch sample_calls (round_state_new 3) sample_rounds (Inr out) invoked"
proof -
  have "begin_batch denied_batch sample_calls (round_state_new 3) = (sample_rounds,
      Execute [] ([Suc 0 \<mapsto> Inl (ToolNotFound (str ''leap'')), 0 \<mapsto> Inl (PermissionDenied (str ''no''))]
        :: (unit, unit) terminal_results))"
    unfolding denied_batch_def
    by (subst sample_begins[where d = "AuthDeny (str ''no'')"]) (simp_all add: look_call_def)
  moreover have "options_ok (be_options denied_batch)"
    by (simp add: options_ok_def denied_batch_def sample_batch_def default_execution_options_def)
  ultimately show ?thesis using batch_can_complete by blast
qed

lemma denied_batch_prepared:
  "prepared_batch denied_batch sample_calls = ([look_call], [Suc 0 \<mapsto> Inl (ToolNotFound (str ''leap''))])"
  by (simp add: prepared_batch_def denied_batch_def sample_batch_def sample_prepared)

text \<open>A result policy with one sensitive value, and an output that carries it.\<close>

definition secret_policy :: tool_result_policy where
  "secret_policy = redact_value (default_result_policy\<lparr>max_text_bytes := 12\<rparr>) (str ''hunter'')"

definition secret_output :: "(unit, unit) tool_execution_output" where
  "secret_output = tool_execution_output_of (hd sample_calls)
     \<lparr>inv_output = str ''pw hunter'', inv_is_error = False, inv_content = [TextContent (str ''hunter hunter'')],
      inv_full_output = None, inv_result = None\<rparr>"

lemma secret_redactable: "redactable secret_policy"
  by (simp add: redactable_def secret_policy_def redact_value_def default_result_policy_def marker_free_def
      MARKER_def str_def)

end
