(* ===== verification/Provider_Turn.thy ===== *)
theory Provider_Turn
  imports Tool_Batch
begin

text \<open>
  One provider turn of the runtime (\<open>packages/agent-runtime/src/lib.rs\<close>): \<open>run_text_turn_in_scope\<close>
  with the start, poll and cleanup helpers, the normalization of provider events
  (\<open>packages/model/src/lib.rs\<close>) and the accumulation of text, usage and events.

  The provider, the clock and the turn scope are input: for each place where the code asks them,
  the answer. A provider operation answers, fails or panics; \<open>select!\<close> is biased, so its input is
  the first side that was ready. \<open>releases\<close> are the \<open>cancel_turn\<close> and \<open>finish_turn\<close> calls made, in
  order. Tracing and the fields of \<open>ModelTurnRequest\<close> that are constants here (lineage, schema
  mode, context management, cache and reuse hints) are left out.
\<close>

section \<open>Requests and responses\<close>

datatype tool_choice = ChoiceAuto | ChoiceNone | ChoiceRequired | ChoiceTool ustring

record tool_call_request_policy =
  tcp_parallel :: "bool option"
  tcp_choice :: tool_choice

definition default_tool_call_policy :: tool_call_request_policy where
  "default_tool_call_policy = \<lparr>tcp_parallel = None, tcp_choice = ChoiceAuto\<rparr>"

record 'json structured_output_request =
  so_name :: ustring
  so_schema :: 'json
  so_strict :: bool

datatype capability_execution = Direct | ToolFreeProviderRound

datatype agent_loop_termination_reason = ProviderStop | StopCondition

record ('json, 'data) agent_turn_response =
  atr_text :: ustring
  atr_stop_reason :: "stop_reason option"
  atr_usage :: "'data token_usage option"
  atr_latency_ms :: u64
  atr_termination_reason :: agent_loop_termination_reason
  atr_events :: "('json, 'data) agent_runtime_event list"

text \<open>A stop condition sees the round, its response and its completed calls.\<close>

record ('json, 'data) agent_turn_request =
  rq_provider_plugin_id :: "ustring option"
  rq_model_id :: ustring
  rq_provider_context :: 'data
  rq_system_prompt :: "ustring option"
  rq_messages :: "('json, 'data) model_message list"
  rq_prompt :: ustring
  rq_append_prompt :: bool
  rq_tools :: "'json tool_definition list"
  rq_tool_call_policy :: tool_call_request_policy
  rq_structured_output :: "'json structured_output_request option"
  rq_structured_output_execution :: capability_execution
  rq_parameters :: 'data
  rq_metadata :: "(ustring, ustring) btree"
  rq_timeout :: duration
  rq_max_tool_rounds :: u32
  rq_max_repeated_tool_batches :: u32
  rq_stop_condition :: "(u32 \<Rightarrow> ('json, 'data) agent_turn_response \<Rightarrow> 'json tool_call list \<Rightarrow> bool) option"
  rq_cache_routing_identity :: "ustring option"

definition agent_turn_request_new ::
    "'data \<Rightarrow> 'data \<Rightarrow> ustring \<Rightarrow> ustring \<Rightarrow> ('json, 'data) agent_turn_request" where
  "agent_turn_request_new default_context default_parameters model_id prompt =
     \<lparr>rq_provider_plugin_id = None, rq_model_id = model_id, rq_provider_context = default_context,
      rq_system_prompt = None, rq_messages = [], rq_prompt = prompt, rq_append_prompt = True, rq_tools = [],
      rq_tool_call_policy = default_tool_call_policy, rq_structured_output = None,
      rq_structured_output_execution = Direct, rq_parameters = default_parameters, rq_metadata = [],
      rq_timeout = 120 * 1000000000, rq_max_tool_rounds = 8, rq_max_repeated_tool_batches = 2,
      rq_stop_condition = None, rq_cache_routing_identity = Some (str ''direct'')\<rparr>"

record provider_request_identity =
  pri_session_id :: session_id
  pri_turn_id :: ustring

record ('json, 'data) model_turn_request =
  mtr_session_id :: session_id
  mtr_turn_id :: ustring
  mtr_model_id :: ustring
  mtr_provider_context :: 'data
  mtr_system_prompt :: "ustring option"
  mtr_messages :: "('json, 'data) model_message list"
  mtr_tools :: "'json tool_definition list"
  mtr_tool_call_policy :: tool_call_request_policy
  mtr_parameters :: 'data
  mtr_structured_output :: "'json structured_output_request option"
  mtr_metadata :: "(ustring, ustring) btree"

definition user_text :: "ustring \<Rightarrow> ('json, 'data) model_message" where
  "user_text t = \<lparr>msg_role = UserRole, msg_content = [TextBlock t]\<rparr>"

definition initial_loop_messages :: "('json, 'data) agent_turn_request \<Rightarrow> ('json, 'data) model_message list" where
  "initial_loop_messages r = rq_messages r @ (if rq_append_prompt r then [user_text (rq_prompt r)] else [])"

text \<open>\<open>source\<close> is the answer of the identity source, if there is one, \<open>fresh\<close> the new random session id.\<close>

definition model_turn_request_of ::
    "(session_id \<Rightarrow> ustring) \<Rightarrow> session_id \<Rightarrow> (runtime_error + provider_request_identity) option
       \<Rightarrow> ('json, 'data) agent_turn_request \<Rightarrow> runtime_error + ('json, 'data) model_turn_request" where
  "model_turn_request_of show_session fresh source r =
     (case (case source of
              Some answer \<Rightarrow> answer
            | None \<Rightarrow> Inr \<lparr>pri_session_id = fresh, pri_turn_id = str ''sdk-turn-'' @ show_session fresh\<rparr>) of
        Inl e \<Rightarrow> Inl e
      | Inr identity \<Rightarrow> Inr \<lparr>mtr_session_id = pri_session_id identity, mtr_turn_id = pri_turn_id identity,
          mtr_model_id = rq_model_id r, mtr_provider_context = rq_provider_context r,
          mtr_system_prompt = rq_system_prompt r, mtr_messages = initial_loop_messages r,
          mtr_tools = rq_tools r, mtr_tool_call_policy = rq_tool_call_policy r,
          mtr_parameters = rq_parameters r, mtr_structured_output = rq_structured_output r,
          mtr_metadata = rq_metadata r\<rparr>)"

section \<open>Provider events\<close>

datatype ('json, 'data) provider_turn_event =
    PModelAvailability 'data
  | PAttemptTiming 'data
  | PTurnStarted
  | POutput 'data "('json, 'data) provider_output_event"
  | PTextDelta ustring
  | PReasoningDelta ustring
  | PReasoningActivity 'data
  | PToolCallStarted ustring ustring
  | PToolCallDelta ustring ustring
  | PToolCallFinished "'json tool_call"
  | PUsage "'data token_usage"
  | PExactRequestInputTokens u64
  | PRequestProjection 'data
  | PContextCompacted "('json, 'data) model_message list" 'data
  | PProviderMetadata ustring ustring
  | PWarning ustring
  | PRetryScheduled ustring u64
  | PError provider_error
  | PTurnFinished stop_reason
  | PCancelled
  | POriginalUsage 'data

datatype ('json, 'data) event_disposition =
    ContinueWith "('json, 'data) agent_runtime_event"
  | PrivateMetadata
  | FinishedWith stop_reason
  | CancelledWith "('json, 'data) agent_runtime_event"

text \<open>The buffers of text and usage are the second and third argument and result.\<close>

fun normalize_provider_event ::
    "('json, 'data) provider_turn_event \<Rightarrow> ustring \<Rightarrow> 'data token_usage option
       \<Rightarrow> ustring \<times> 'data token_usage option \<times> (runtime_error + ('json, 'data) event_disposition)" where
  "normalize_provider_event (PModelAvailability x) t u = (t, u, Inr PrivateMetadata)"
| "normalize_provider_event PTurnStarted t u = (t, u, Inr (ContinueWith TurnStarted))"
| "normalize_provider_event (POutput p e) t u =
     (case e of OutputText x \<Rightarrow> t @ x | _ \<Rightarrow> t, u, Inr (ContinueWith (Output p e)))"
| "normalize_provider_event (PTextDelta x) t u = (t @ x, u, Inr (ContinueWith (TextDelta x)))"
| "normalize_provider_event (PReasoningDelta x) t u = (t, u, Inr (ContinueWith (ReasoningDelta x)))"
| "normalize_provider_event (PReasoningActivity x) t u = (t, u, Inr (ContinueWith (ReasoningActivity x)))"
| "normalize_provider_event (PToolCallStarted i n) t u = (t, u, Inr (ContinueWith (ToolCallStarted i n)))"
| "normalize_provider_event (PToolCallDelta i d) t u = (t, u, Inr (ContinueWith (ToolCallDelta i d)))"
| "normalize_provider_event (PToolCallFinished c) t u = (t, u, Inr (ContinueWith (ToolCallFinished c)))"
| "normalize_provider_event (PAttemptTiming x) t u = (t, u, Inr PrivateMetadata)"
| "normalize_provider_event (POriginalUsage x) t u = (t, u, Inr PrivateMetadata)"
| "normalize_provider_event (PUsage x) t u = (t, Some x, Inr (ContinueWith (Usage x)))"
| "normalize_provider_event (PExactRequestInputTokens n) t u = (t, u, Inr (ContinueWith (ExactRequestInputTokens n)))"
| "normalize_provider_event (PRequestProjection x) t u = (t, u, Inr (ContinueWith (RequestProjection x)))"
| "normalize_provider_event (PContextCompacted ms f) t u = (t, u, Inr (ContinueWith ContextCompacted))"
| "normalize_provider_event (PProviderMetadata k v) t u =
     (t, u, Inr (if k = str ''provider_state'' then PrivateMetadata else ContinueWith (ProviderMetadata k v)))"
| "normalize_provider_event (PRetryScheduled m n) t u = (t, u, Inr (ContinueWith (RetryScheduled m n)))"
| "normalize_provider_event (PWarning m) t u = (t, u, Inr (ContinueWith (Warning m)))"
| "normalize_provider_event (PError e) t u = (t, u, Inl (ProviderReported (perr_code e) (perr_message e) e))"
| "normalize_provider_event (PTurnFinished s) t u = (t, u, Inr (FinishedWith s))"
| "normalize_provider_event PCancelled t u = (t, u, Inr (CancelledWith CancelledEvent))"

definition visible_output :: "('json, 'data) agent_runtime_event \<Rightarrow> bool" where
  "visible_output e =
     (case e of TextDelta _ \<Rightarrow> True | ReasoningDelta _ \<Rightarrow> True | ReasoningActivity _ \<Rightarrow> True
      | ToolCallStarted _ _ \<Rightarrow> True | ToolCallDelta _ _ \<Rightarrow> True | ToolCallFinished _ \<Rightarrow> True
      | ToolResult _ \<Rightarrow> True | _ \<Rightarrow> False)"

definition terminal_after_visible_output ::
    "runtime_error \<Rightarrow> ('json, 'data) agent_runtime_event list \<Rightarrow> runtime_error" where
  "terminal_after_visible_output e events =
     (if list_ex visible_output events \<and>
         (case e of ProviderInvocation _ \<Rightarrow> True | ProviderReported _ _ _ \<Rightarrow> True | _ \<Rightarrow> False)
      then ProviderAfterOutput e else e)"

section \<open>Provider operations\<close>

datatype 'a answer = Answers 'a | Fails runtime_error | Panics

datatype turn_race = RequestCancelled | ScopeCancelled | DeadlinePassed | ProviderReady

datatype release = CancelTurn | FinishTurn

definition duration_millis :: "duration \<Rightarrow> u64" where
  "duration_millis d = of_nat (min (d div 1000000) (2 ^ 64 - 1))"

definition start_provider_safely :: "ustring answer \<Rightarrow> runtime_error + ustring" where
  "start_provider_safely a =
     (case a of Answers i \<Rightarrow> Inr i | Fails e \<Rightarrow> Inl e
      | Panics \<Rightarrow> Inl (ProviderExecutionUnverified
          (str ''provider startup panicked; partial acquisition cleanup is unverified'')))"

definition start_provider_turn ::
    "bool \<Rightarrow> duration \<Rightarrow> duration \<Rightarrow> turn_race \<Rightarrow> ustring answer \<Rightarrow> runtime_error + ustring" where
  "start_provider_turn admitted timeout elapsed race a =
     (if \<not> admitted then Inl TurnCancelled
      else if timeout - elapsed = 0 then Inl (TurnTimeout timeout)
      else (case race of
              RequestCancelled \<Rightarrow> Inl TurnCancelled
            | ScopeCancelled \<Rightarrow> Inl TurnCancelled
            | DeadlinePassed \<Rightarrow> Inl (TurnTimeout timeout)
            | ProviderReady \<Rightarrow> start_provider_safely a))"

definition poll_provider_safely :: "'a answer \<Rightarrow> runtime_error + 'a" where
  "poll_provider_safely a =
     (case a of Answers x \<Rightarrow> Inr x | Fails e \<Rightarrow> Inl e
      | Panics \<Rightarrow> Inl (ProviderExecutionUnverified (str ''provider event polling panicked'')))"

definition finish_provider_safely :: "unit answer \<Rightarrow> runtime_error + unit" where
  "finish_provider_safely a =
     (case a of
        Answers _ \<Rightarrow> Inr ()
      | Fails (ProviderExecutionUnverified m) \<Rightarrow> Inl (ProviderExecutionUnverified m)
      | Fails _ \<Rightarrow> Inl (ProviderExecutionUnverified (str ''provider finish failed; resource release is unverified''))
      | Panics \<Rightarrow> Inl (ProviderExecutionUnverified (str ''provider finish panicked; resource release is unverified'')))"

definition provider_cleanup_succeeded :: "unit answer \<Rightarrow> bool" where
  "provider_cleanup_succeeded a = (case a of Answers _ \<Rightarrow> True | _ \<Rightarrow> False)"

section \<open>Input of a turn\<close>

record ('json, 'data) poll_input =
  pi_active :: bool
  pi_admitted :: bool
  pi_elapsed :: duration
  pi_race :: turn_race
  pi_answer :: "('json, 'data) provider_turn_event list answer"
  pi_emits :: "nat \<Rightarrow> bool"
  pi_finished_elapsed :: duration
  pi_response_elapsed :: duration

record ('json, 'data) provider_turn_env =
  pe_admitted :: bool
  pe_fresh :: session_id
  pe_identity :: "(runtime_error + provider_request_identity) option"
  pe_start_admitted :: bool
  pe_start_elapsed :: duration
  pe_start_race :: turn_race
  pe_start_answer :: "ustring answer"
  pe_cleanup_panics :: bool
  pe_started_emitted :: bool
  pe_finish_answer :: "unit answer"

text \<open>
  \<open>cancel_and_finish\<close>: both operations are tried, the finish decides. A turn reaches at most one of
  its uses, so the answer of \<open>finish_turn\<close> is one input.
\<close>

definition cancel_and_finish :: "('json, 'data) provider_turn_env \<Rightarrow> release list \<times> bool" where
  "cancel_and_finish env = ([CancelTurn, FinishTurn], provider_cleanup_succeeded (pe_finish_answer env))"

section \<open>Events of one poll\<close>

record ('json, 'data) turn_buffer =
  tb_text :: ustring
  tb_usage :: "'data token_usage option"
  tb_events :: "('json, 'data) agent_runtime_event list"

datatype ('json, 'data) turn_result =
    Running_turn "('json, 'data) turn_buffer"
  | Ended "release list" "runtime_error + ('json, 'data) agent_turn_response"

definition normalize_or_cleanup ::
    "('json, 'data) provider_turn_env \<Rightarrow> ('json, 'data) provider_turn_event \<Rightarrow> ('json, 'data) turn_buffer
       \<Rightarrow> ('json, 'data) turn_buffer \<times> ((release list \<times> runtime_error) + ('json, 'data) event_disposition)" where
  "normalize_or_cleanup env e b =
     (case normalize_provider_event e (tb_text b) (tb_usage b) of
        (t, u, r) \<Rightarrow>
          (b\<lparr>tb_text := t, tb_usage := u\<rparr>,
           case r of
             Inr d \<Rightarrow> Inr d
           | Inl err \<Rightarrow>
               (case cancel_and_finish env of
                  (rel, released) \<Rightarrow> Inl (rel, if released then err
                    else ProviderExecutionUnverified (str ''provider event failed and resource release is unverified'')))))"

definition finished_event ::
    "'data token_usage option \<Rightarrow> duration \<Rightarrow> stop_reason \<Rightarrow> ('json, 'data) agent_runtime_event" where
  "finished_event usage latency stop = FinishedEvent stop usage (duration_millis latency)"

definition apply_disposition ::
    "('json, 'data) provider_turn_env \<Rightarrow> ('json, 'data) poll_input \<Rightarrow> bool \<Rightarrow> ('json, 'data) event_disposition
       \<Rightarrow> ('json, 'data) turn_buffer \<Rightarrow> ('json, 'data) turn_result" where
  "apply_disposition env p emitted d b =
     (case d of
        ContinueWith e \<Rightarrow>
          if \<not> emitted then Ended (fst (cancel_and_finish env)) (Inl TurnCancelled)
          else Running_turn (b\<lparr>tb_events := tb_events b @ [e]\<rparr>)
      | PrivateMetadata \<Rightarrow> Running_turn b
      | FinishedWith stop \<Rightarrow>
          (case finish_provider_safely (pe_finish_answer env) of
             Inl err \<Rightarrow> Ended [FinishTurn] (Inl (terminal_after_visible_output err (tb_events b)))
           | Inr _ \<Rightarrow>
               (let e = finished_event (tb_usage b) (pi_finished_elapsed p) stop
                in if \<not> emitted then Ended [FinishTurn] (Inl TurnCancelled)
                   else Ended [FinishTurn] (Inr \<lparr>atr_text = tb_text b, atr_stop_reason = Some stop,
                     atr_usage = tb_usage b, atr_latency_ms = duration_millis (pi_response_elapsed p),
                     atr_termination_reason = ProviderStop, atr_events = tb_events b @ [e]\<rparr>)))
      | CancelledWith e \<Rightarrow> Ended [FinishTurn] (Inl TurnCancelled))"

fun process_events ::
    "('json, 'data) provider_turn_env \<Rightarrow> ('json, 'data) poll_input \<Rightarrow> nat
       \<Rightarrow> ('json, 'data) provider_turn_event list \<Rightarrow> ('json, 'data) turn_buffer \<Rightarrow> ('json, 'data) turn_result" where
  "process_events env p i [] b = Running_turn b"
| "process_events env p i (e # es) b =
     (case normalize_or_cleanup env e b of
        (b', Inl (rel, err)) \<Rightarrow> Ended rel (Inl (terminal_after_visible_output err (tb_events b')))
      | (b', Inr d) \<Rightarrow>
          (case apply_disposition env p (pi_emits p i) d b' of
             Ended rel r \<Rightarrow> Ended rel r
           | Running_turn b'' \<Rightarrow> process_events env p (i + 1) es b''))"

section \<open>The turn\<close>

definition poll_provider_events ::
    "('json, 'data) provider_turn_env \<Rightarrow> duration \<Rightarrow> ('json, 'data) poll_input
       \<Rightarrow> (release list \<times> runtime_error) + ('json, 'data) provider_turn_event list" where
  "poll_provider_events env timeout p =
     (let released = fst (cancel_and_finish env)
      in if \<not> pi_admitted p then Inl (released, TurnCancelled)
         else if timeout - pi_elapsed p = 0 then Inl (released, TurnTimeout timeout)
         else (case pi_race p of
                 RequestCancelled \<Rightarrow> Inl (released, TurnCancelled)
               | ScopeCancelled \<Rightarrow> Inl (released, TurnCancelled)
               | DeadlinePassed \<Rightarrow> Inl (released, TurnTimeout timeout)
               | ProviderReady \<Rightarrow>
                   (case poll_provider_safely (pi_answer p) of
                      Inr events \<Rightarrow> Inr events
                    | Inl err \<Rightarrow> Inl (released, if snd (cancel_and_finish env) then err
                        else ProviderExecutionUnverified
                               (str ''provider polling failed and resource release is unverified'')))))"

text \<open>The loop, over the polls that happen; \<open>None\<close>: still polling after the given ones.\<close>

fun poll_loop ::
    "('json, 'data) provider_turn_env \<Rightarrow> duration \<Rightarrow> ('json, 'data) poll_input list \<Rightarrow> ('json, 'data) turn_buffer
       \<Rightarrow> (release list \<times> (runtime_error + ('json, 'data) agent_turn_response)) option" where
  "poll_loop env timeout [] b = None"
| "poll_loop env timeout (p # ps) b =
     (if \<not> pi_active p then Some (fst (cancel_and_finish env), Inl TurnCancelled)
      else (case poll_provider_events env timeout p of
              Inl (rel, err) \<Rightarrow> Some (rel, Inl (terminal_after_visible_output err (tb_events b)))
            | Inr events \<Rightarrow>
                (case process_events env p 0 events b of
                   Ended rel r \<Rightarrow> Some (rel, r)
                 | Running_turn b' \<Rightarrow> poll_loop env timeout ps b')))"

record ('json, 'data) turn_outcome =
  to_request :: "('json, 'data) model_turn_request option"
  to_acquired :: bool
  to_releases :: "release list"
  to_result :: "runtime_error + ('json, 'data) agent_turn_response"

definition run_text_turn_in_scope ::
    "(session_id \<Rightarrow> ustring) \<Rightarrow> ('json, 'data) provider_turn_env \<Rightarrow> ('json, 'data) poll_input list
       \<Rightarrow> ('json, 'data) agent_turn_request \<Rightarrow> ('json, 'data) turn_outcome option" where
  "run_text_turn_in_scope show_session env polls request =
     (if \<not> pe_admitted env
      then Some \<lparr>to_request = None, to_acquired = False, to_releases = [], to_result = Inl TurnCancelled\<rparr>
      else (case model_turn_request_of show_session (pe_fresh env) (pe_identity env) request of
        Inl e \<Rightarrow> Some \<lparr>to_request = None, to_acquired = False, to_releases = [], to_result = Inl e\<rparr>
      | Inr model_request \<Rightarrow>
          (case start_provider_turn (pe_start_admitted env) (rq_timeout request) (pe_start_elapsed env)
                  (pe_start_race env) (pe_start_answer env) of
             Inl e \<Rightarrow> Some \<lparr>to_request = Some model_request, to_acquired = False, to_releases = [], to_result = Inl e\<rparr>
           | Inr provider_turn_id \<Rightarrow>
               (let ended = (\<lambda>(rel, r). \<lparr>to_request = Some model_request, to_acquired = True, to_releases = rel,
                      to_result = r\<rparr>)
                in if pe_cleanup_panics env
                   then Some (ended (fst (cancel_and_finish env), Inl (ProviderExecutionUnverified
                          (str ''provider cleanup acquisition panicked; execution is unverified''))))
                   else if \<not> pe_started_emitted env
                   then Some (ended (fst (cancel_and_finish env), Inl TurnCancelled))
                   else map_option ended (poll_loop env (rq_timeout request) polls
                          \<lparr>tb_text = [], tb_usage = None, tb_events = [TurnStarted]\<rparr>)))))"

section \<open>What a turn accumulates\<close>

text \<open>The contribution of one event to the text, the usage and the events of a turn.\<close>

definition event_text :: "('json, 'data) provider_turn_event \<Rightarrow> ustring" where
  "event_text e = (case e of PTextDelta x \<Rightarrow> x | POutput _ (OutputText x) \<Rightarrow> x | _ \<Rightarrow> [])"

definition usage_after :: "'data token_usage option \<Rightarrow> ('json, 'data) provider_turn_event \<Rightarrow> 'data token_usage option" where
  "usage_after u e = (case e of PUsage x \<Rightarrow> Some x | _ \<Rightarrow> u)"

definition disposition :: "('json, 'data) provider_turn_event \<Rightarrow> runtime_error + ('json, 'data) event_disposition" where
  "disposition e = snd (snd (normalize_provider_event e [] None))"

definition runtime_events :: "('json, 'data) provider_turn_event \<Rightarrow> ('json, 'data) agent_runtime_event list" where
  "runtime_events e = (case disposition e of Inr (ContinueWith r) \<Rightarrow> [r] | _ \<Rightarrow> [])"

definition ends_turn :: "('json, 'data) provider_turn_event \<Rightarrow> bool" where
  "ends_turn e = (case e of PError _ \<Rightarrow> True | PTurnFinished _ \<Rightarrow> True | PCancelled \<Rightarrow> True | _ \<Rightarrow> False)"

definition absorb :: "('json, 'data) provider_turn_event list \<Rightarrow> ('json, 'data) turn_buffer \<Rightarrow> ('json, 'data) turn_buffer" where
  "absorb es b = \<lparr>tb_text = tb_text b @ concat (map event_text es), tb_usage = foldl usage_after (tb_usage b) es,
     tb_events = tb_events b @ concat (map runtime_events es)\<rparr>"

lemma absorb_Nil [simp]: "absorb [] b = b"
  by (simp add: absorb_def)

lemma absorb_append: "absorb (es @ fs) b = absorb fs (absorb es b)"
  by (simp add: absorb_def)

lemma normalize_eq:
  "normalize_provider_event e t u = (t @ event_text e, usage_after u e, disposition e)"
  by (cases e) (simp_all add: event_text_def usage_after_def disposition_def split: provider_output_event.split)

lemma disposition_cases:
  "disposition e = Inl err \<longleftrightarrow> (\<exists>x. e = PError x \<and> err = ProviderReported (perr_code x) (perr_message x) x)"
  "disposition e = Inr (FinishedWith stop) \<longleftrightarrow> e = PTurnFinished stop"
  "disposition e = Inr (CancelledWith r) \<longleftrightarrow> e = PCancelled \<and> r = CancelledEvent"
  by (cases e; auto simp: disposition_def)+

lemma step_running:
  assumes "normalize_or_cleanup env e b = (b', Inr d)" and "apply_disposition env p emitted d b' = Running_turn b''"
  shows "b'' = absorb [e] b" and "\<not> ends_turn e"
proof -
  have n: "b' = b\<lparr>tb_text := tb_text b @ event_text e, tb_usage := usage_after (tb_usage b) e\<rparr>" "disposition e = Inr d"
    using assms(1) by (auto simp: normalize_or_cleanup_def normalize_eq split: sum.splits prod.splits)
  from assms(2) have d: "d = PrivateMetadata \<and> b'' = b' \<or> (\<exists>r. d = ContinueWith r \<and> b'' = b'\<lparr>tb_events := tb_events b' @ [r]\<rparr>)"
    by (auto simp: apply_disposition_def Let_def split: event_disposition.splits if_splits sum.splits)
  with n show "b'' = absorb [e] b" by (auto simp: absorb_def runtime_events_def)
  from d n(2) show "\<not> ends_turn e"
    by (cases e) (auto simp: ends_turn_def disposition_def)
qed

lemma process_running:
  "process_events env p i es b = Running_turn b' \<Longrightarrow> b' = absorb es b \<and> list_all (\<lambda>e. \<not> ends_turn e) es"
proof (induction env p i es b rule: process_events.induct)
  case (2 env p i e es b)
  from 2(2) obtain b1 d b2 where n: "normalize_or_cleanup env e b = (b1, Inr d)"
    and a: "apply_disposition env p (pi_emits p i) d b1 = Running_turn b2"
    and r: "process_events env p (i + 1) es b2 = Running_turn b'"
    by (auto split: prod.splits sum.splits turn_result.splits)
  from 2(1)[OF n[symmetric] refl a r] step_running[OF n a] absorb_append[of "[e]" es b] show ?case by simp
qed simp

section \<open>Release\<close>

text \<open>
  A way an acquired turn may end: one attempt to finish it, as the last call; success only if the
  finish succeeded, and an error that could be retried only if the release is known.
\<close>

definition unretryable :: "runtime_error \<Rightarrow> bool" where
  "unretryable e = (case e of TurnCancelled \<Rightarrow> True | TurnTimeout _ \<Rightarrow> True | ProviderExecutionUnverified _ \<Rightarrow> True | _ \<Rightarrow> False)"

definition released_well :: "('json, 'data) provider_turn_env \<Rightarrow> release list \<Rightarrow> runtime_error + 'a \<Rightarrow> bool" where
  "released_well env rel r \<longleftrightarrow> rel \<in> {[CancelTurn, FinishTurn], [FinishTurn]} \<and>
     (case r of
        Inr _ \<Rightarrow> rel = [FinishTurn] \<and> pe_finish_answer env = Answers ()
      | Inl e \<Rightarrow> pe_finish_answer env = Answers () \<or> unretryable e)"

lemma cleanup_answer: "provider_cleanup_succeeded a \<longleftrightarrow> a = Answers ()"
  by (auto simp: provider_cleanup_succeeded_def split: answer.splits)

lemma terminal_unretryable [simp]: "unretryable e \<Longrightarrow> terminal_after_visible_output e es = e"
  by (auto simp: unretryable_def terminal_after_visible_output_def split: runtime_error.splits)

lemma finish_safely_error: "finish_provider_safely a = Inl e \<Longrightarrow> unretryable e"
  by (auto simp: finish_provider_safely_def unretryable_def split: answer.splits runtime_error.splits)

lemma finish_safely_ok: "finish_provider_safely a = Inr () \<Longrightarrow> a = Answers ()"
  by (auto simp: finish_provider_safely_def split: answer.splits runtime_error.splits)

lemma normalize_released:
  assumes "normalize_or_cleanup env e b = (b', Inl (rel, err))"
  shows "released_well env rel (Inl (terminal_after_visible_output err es))"
proof -
  have "rel = [CancelTurn, FinishTurn]" and "pe_finish_answer env = Answers () \<or> unretryable err"
    using assms by (auto simp: normalize_or_cleanup_def cancel_and_finish_def cleanup_answer unretryable_def
        split: prod.splits sum.splits if_splits)
  then show ?thesis by (auto simp: released_well_def)
qed

lemma disposition_released:
  assumes "apply_disposition env p emitted d b = Ended rel r"
  shows "released_well env rel r"
proof (cases d)
  case (FinishedWith stop)
  show ?thesis
  proof (cases "finish_provider_safely (pe_finish_answer env)")
    case (Inl err)
    with assms FinishedWith finish_safely_error[OF Inl]
    show ?thesis by (auto simp: apply_disposition_def released_well_def)
  next
    case (Inr x)
    with assms FinishedWith finish_safely_ok[of "pe_finish_answer env"] show ?thesis
      by (auto simp: apply_disposition_def released_well_def Let_def split: if_splits)
  qed
qed (use assms in \<open>auto simp: apply_disposition_def released_well_def cancel_and_finish_def unretryable_def split: if_splits\<close>)

lemma process_released: "process_events env p i es b = Ended rel r \<Longrightarrow> released_well env rel r"
proof (induction env p i es b rule: process_events.induct)
  case (2 env p i e es b)
  obtain b1 x where n: "normalize_or_cleanup env e b = (b1, x)" by fastforce
  show ?case
  proof (cases x)
    case (Inl y)
    obtain rel1 err where "y = (rel1, err)" by fastforce
    with Inl n 2(2) normalize_released[of env e b b1 rel1 err "tb_events b1"] show ?thesis by auto
  next
    case (Inr d)
    show ?thesis
    proof (cases "apply_disposition env p (pi_emits p i) d b1")
      case (Running_turn b2)
      with Inr n 2(2) 2(1)[OF n[unfolded Inr, symmetric] refl Running_turn] show ?thesis by simp
    next
      case (Ended rel1 r1)
      with Inr n 2(2) disposition_released[OF Ended] show ?thesis by simp
    qed
  qed
qed simp

lemma poll_released:
  assumes "poll_provider_events env timeout p = Inl (rel, err)"
  shows "released_well env rel (Inl (terminal_after_visible_output err es))"
proof -
  have "rel = [CancelTurn, FinishTurn]" and "pe_finish_answer env = Answers () \<or> unretryable err"
    using assms by (auto simp: poll_provider_events_def cancel_and_finish_def cleanup_answer unretryable_def Let_def
        split: if_splits turn_race.splits sum.splits)
  then show ?thesis by (auto simp: released_well_def)
qed

lemma poll_loop_released: "poll_loop env timeout ps b = Some (rel, r) \<Longrightarrow> released_well env rel r"
proof (induction env timeout ps b rule: poll_loop.induct)
  case (2 env timeout p ps b)
  show ?case
  proof (cases "pi_active p")
    case True
    show ?thesis
    proof (cases "poll_provider_events env timeout p")
      case (Inl y)
      obtain rel1 err where "y = (rel1, err)" by fastforce
      with Inl True 2(2) poll_released[of env timeout p rel1 err "tb_events b"] show ?thesis by auto
    next
      case (Inr events)
      show ?thesis
      proof (cases "process_events env p 0 events b")
        case (Running_turn b1)
        with Inr True 2 show ?thesis by simp
      next
        case (Ended rel1 r1)
        with Inr True 2(2) process_released[OF Ended] show ?thesis by simp
      qed
    qed
  qed (use 2(2) in \<open>auto simp: released_well_def cancel_and_finish_def unretryable_def\<close>)
qed simp

lemma provider_turn_releases:
  assumes "run_text_turn_in_scope show_session env polls request = Some out"
  shows "if to_acquired out then released_well env (to_releases out) (to_result out)
         else to_releases out = [] \<and> (\<exists>e. to_result out = Inl e)"
proof -
  have early: "released_well env [CancelTurn, FinishTurn] (Inl TurnCancelled :: runtime_error + ('a, 'b) agent_turn_response)"
    "released_well env [CancelTurn, FinishTurn] (Inl (ProviderExecutionUnverified m) :: runtime_error + ('a, 'b) agent_turn_response)" for m
    by (simp_all add: released_well_def unretryable_def)
  show ?thesis
    using assms early poll_loop_released
    unfolding run_text_turn_in_scope_def
    by (auto simp: Let_def cancel_and_finish_def split: if_splits sum.splits)
qed

section \<open>The response\<close>

definition answered :: "('json, 'data) poll_input \<Rightarrow> ('json, 'data) provider_turn_event list" where
  "answered p = (case pi_answer p of Answers es \<Rightarrow> es | _ \<Rightarrow> [])"

definition response_of ::
    "('json, 'data) turn_buffer \<Rightarrow> stop_reason \<Rightarrow> ('json, 'data) poll_input \<Rightarrow> ('json, 'data) agent_turn_response" where
  "response_of b stop p = \<lparr>atr_text = tb_text b, atr_stop_reason = Some stop, atr_usage = tb_usage b,
     atr_latency_ms = duration_millis (pi_response_elapsed p), atr_termination_reason = ProviderStop,
     atr_events = tb_events b @ [FinishedEvent stop (tb_usage b) (duration_millis (pi_finished_elapsed p))]\<rparr>"

lemma step_response:
  assumes "normalize_or_cleanup env e b = (b', Inr d)" and "apply_disposition env p emitted d b' = Ended rel (Inr resp)"
  shows "\<exists>stop. e = PTurnFinished stop \<and> resp = response_of b stop p"
proof -
  obtain stop where d: "d = FinishedWith stop" and r: "resp = response_of b' stop p"
    using assms(2)
    by (auto simp: apply_disposition_def Let_def response_of_def finished_event_def
        split: event_disposition.splits if_splits sum.splits)
  from assms(1) have "disposition e = Inr d"
    and b': "b' = b\<lparr>tb_text := tb_text b @ event_text e, tb_usage := usage_after (tb_usage b) e\<rparr>"
    by (auto simp: normalize_or_cleanup_def normalize_eq split: sum.splits prod.splits)
  with d have "e = PTurnFinished stop" by (simp add: disposition_cases)
  with r b' show ?thesis by (simp add: event_text_def usage_after_def)
qed

lemma process_response:
  "process_events env p i es b = Ended rel (Inr resp) \<Longrightarrow>
     \<exists>evs stop rest. es = evs @ PTurnFinished stop # rest \<and> list_all (\<lambda>e. \<not> ends_turn e) evs \<and>
       resp = response_of (absorb evs b) stop p"
proof (induction env p i es b rule: process_events.induct)
  case (2 env p i e es b)
  obtain b1 x where n: "normalize_or_cleanup env e b = (b1, x)" by fastforce
  with 2(2) obtain d where x: "x = Inr d" by (cases x) auto
  show ?case
  proof (cases "apply_disposition env p (pi_emits p i) d b1")
    case (Running_turn b2)
    with n x 2(2) have "process_events env p (i + 1) es b2 = Ended rel (Inr resp)" by simp
    from 2(1)[OF n[unfolded x, symmetric] refl Running_turn this] obtain evs stop rest where
      "es = evs @ PTurnFinished stop # rest" "list_all (\<lambda>e. \<not> ends_turn e) evs" "resp = response_of (absorb evs b2) stop p"
      by blast
    then show ?thesis
      using step_running[OF n[unfolded x] Running_turn] absorb_append[of "[e]" evs b]
      by (intro exI[of _ "e # evs"] exI[of _ stop] exI[of _ rest]) simp
  next
    case (Ended rel1 r1)
    with n x 2(2) step_response[of env e b b1 d p "pi_emits p i" rel resp] show ?thesis
      by (fastforce intro: exI[of _ "[]"])
  qed
qed simp

lemma poll_answered: "poll_provider_events env timeout p = Inr es \<Longrightarrow> answered p = es"
  by (auto simp: poll_provider_events_def poll_provider_safely_def answered_def Let_def
      split: if_splits turn_race.splits sum.splits answer.splits)

lemma poll_loop_response:
  "poll_loop env timeout ps b = Some (rel, Inr resp) \<Longrightarrow>
     \<exists>done p later evs stop rest. ps = done @ p # later \<and> answered p = evs @ PTurnFinished stop # rest \<and>
       list_all (\<lambda>e. \<not> ends_turn e) (concat (map answered done) @ evs) \<and>
       resp = response_of (absorb (concat (map answered done) @ evs) b) stop p"
proof (induction env timeout ps b rule: poll_loop.induct)
  case (2 env timeout p ps b)
  from 2(2) have active: "pi_active p" by (simp split: if_splits)
  with 2(2) obtain es where es: "poll_provider_events env timeout p = Inr es"
    by (cases "poll_provider_events env timeout p") (auto split: prod.splits)
  show ?case
  proof (cases "process_events env p 0 es b")
    case (Running_turn b1)
    with active es 2(2) have "poll_loop env timeout ps b1 = Some (rel, Inr resp)" by simp
    with 2(1) active es Running_turn obtain dn p' later evs stop rest where
      "ps = dn @ p' # later" "answered p' = evs @ PTurnFinished stop # rest"
      "list_all (\<lambda>e. \<not> ends_turn e) (concat (map answered dn) @ evs)"
      "resp = response_of (absorb (concat (map answered dn) @ evs) b1) stop p'"
      by blast
    with process_running[OF Running_turn] poll_answered[OF es] show ?thesis
      by (intro exI[of _ "p # dn"] exI[of _ p'] exI[of _ later] exI[of _ evs] exI[of _ stop] exI[of _ rest])
        (simp add: absorb_append)
  next
    case (Ended rel1 r1)
    with active es 2(2) process_response[of env p 0 es b rel resp] obtain evs stop rest where
      "es = evs @ PTurnFinished stop # rest" "list_all (\<lambda>e. \<not> ends_turn e) evs"
      "resp = response_of (absorb evs b) stop p"
      by auto
    with poll_answered[OF es] show ?thesis
      by (intro exI[of _ "[]"] exI[of _ p] exI[of _ ps] exI[of _ evs] exI[of _ stop] exI[of _ rest]) simp
  qed
qed simp

lemma turn_response:
  assumes "run_text_turn_in_scope show_session env polls request = Some out" and "to_result out = Inr resp"
  shows "\<exists>done p later evs stop rest. polls = done @ p # later \<and> answered p = evs @ PTurnFinished stop # rest \<and>
     list_all (\<lambda>e. \<not> ends_turn e) (concat (map answered done) @ evs) \<and>
     resp = response_of (absorb (concat (map answered done) @ evs)
       \<lparr>tb_text = [], tb_usage = None, tb_events = [TurnStarted]\<rparr>) stop p"
proof -
  obtain rel where "poll_loop env (rq_timeout request) polls
      \<lparr>tb_text = [], tb_usage = None, tb_events = [TurnStarted]\<rparr> = Some (rel, Inr resp)"
    using assms unfolding run_text_turn_in_scope_def by (auto simp: Let_def split: if_splits sum.splits)
  from poll_loop_response[OF this] show ?thesis .
qed

section \<open>Endings\<close>

text \<open>A poll after which the turn has ended: the scope or the request is closed, the time is over, the
  provider failed or reported the end.\<close>

definition ending_poll :: "duration \<Rightarrow> ('json, 'data) poll_input \<Rightarrow> bool" where
  "ending_poll timeout p \<longleftrightarrow> \<not> pi_active p \<or> \<not> pi_admitted p \<or> timeout \<le> pi_elapsed p \<or> pi_race p \<noteq> ProviderReady \<or>
     (\<forall>es. pi_answer p \<noteq> Answers es) \<or> list_ex ends_turn (answered p)"

lemma ending_poll_ends:
  assumes "ending_poll timeout p" and "pi_active p" and "poll_provider_events env timeout p = Inr es"
  shows "process_events env p i es b \<noteq> Running_turn b'"
proof
  assume "process_events env p i es b = Running_turn b'"
  from process_running[OF this] have "list_all (\<lambda>e. \<not> ends_turn e) es" ..
  moreover have "list_ex ends_turn es"
    using assms poll_answered[OF assms(3)]
    by (auto simp: ending_poll_def poll_provider_events_def poll_provider_safely_def Let_def
        split: if_splits turn_race.splits sum.splits answer.splits)
  ultimately show False by (auto simp: list_all_iff list_ex_iff)
qed

lemma poll_loop_ends: "list_ex (ending_poll timeout) ps \<Longrightarrow> poll_loop env timeout ps b \<noteq> None"
proof (induction env timeout ps b rule: poll_loop.induct)
  case (2 env timeout p ps b)
  show ?case
  proof (cases "pi_active p")
    case True
    show ?thesis
    proof (cases "poll_provider_events env timeout p")
      case (Inr es)
      show ?thesis
      proof (cases "process_events env p 0 es b")
        case (Running_turn b1)
        with ending_poll_ends[OF _ True Inr] have "\<not> ending_poll timeout p" by metis
        with 2 True Inr Running_turn show ?thesis by simp
      qed (use True Inr in simp)
    qed (use True in \<open>auto split: prod.splits\<close>)
  qed simp
qed simp

lemma turn_ends:
  "list_ex (ending_poll (rq_timeout request)) polls \<Longrightarrow> run_text_turn_in_scope show_session env polls request \<noteq> None"
  using poll_loop_ends unfolding run_text_turn_in_scope_def by (auto simp: Let_def split: sum.splits)

text \<open>The provider's continuation state is not among the events of a turn.\<close>

lemma runtime_events_private: "ProviderMetadata (str ''provider_state'') v \<notin> set (runtime_events e)"
  by (cases e) (auto simp: runtime_events_def disposition_def)

end
