(* ===== verification/Agent_Loop.thy ===== *)
theory Agent_Loop
  imports Provider_Turn Tool_Scheduler
begin

text \<open>
  The loop of the agent runtime (\<open>run_provider_tool_loop_in_scope\<close> in
  \<open>packages/agent-runtime/src/lib.rs\<close>): planned provider rounds with retries, the stop condition,
  the tool-free finalization round of structured output, the guards, one tool batch per round and
  the conversation that the next round sees.

  The loop is a step relation over its local variables because a batch is one (\<open>batch_run\<close>).
  A step is one pass through the loop body. Readings of the clock, answers of the scope, the
  planner's race and the provider are input of the step; \<open>ls_turns\<close> and \<open>ls_batches\<close> record the
  provider turns and the batches with the calls they handed to tools, and have no counterpart in
  the code.
\<close>

section \<open>Usage\<close>

fun aggregate_complete_bucket :: "('data token_usage \<Rightarrow> u32 option) \<Rightarrow> u32 \<Rightarrow> 'data token_usage list \<Rightarrow> u32 option" where
  "aggregate_complete_bucket bucket acc [] = Some acc"
| "aggregate_complete_bucket bucket acc (u # us) =
     (case bucket u of None \<Rightarrow> None | Some n \<Rightarrow> aggregate_complete_bucket bucket (saturating_add32 acc n) us)"

definition finished_usages :: "('json, 'data) agent_runtime_event list \<Rightarrow> 'data token_usage list" where
  "finished_usages events = List.map_filter (\<lambda>e. case e of FinishedEvent _ u _ \<Rightarrow> u | _ \<Rightarrow> None) events"

definition aggregate_finished_usage :: "('json, 'data) agent_runtime_event list \<Rightarrow> 'data token_usage option" where
  "aggregate_finished_usage events =
     (let us = finished_usages events
      in if us = [] then None
         else Some \<lparr>input_tokens = aggregate_complete_bucket input_tokens 0 us,
           output_tokens = aggregate_complete_bucket output_tokens 0 us,
           total_tokens = aggregate_complete_bucket total_tokens 0 us,
           cached_input_tokens = aggregate_complete_bucket cached_input_tokens 0 us,
           cache_write_input_tokens = aggregate_complete_bucket cache_write_input_tokens 0 us,
           usage_details = concat (map usage_details us), pricing_context = None,
           reasoning_tokens = aggregate_complete_bucket reasoning_tokens 0 us\<rparr>)"

definition agent_response ::
    "agent_loop_termination_reason \<Rightarrow> ('json, 'data) agent_turn_response \<Rightarrow> duration
       \<Rightarrow> ('json, 'data) agent_runtime_event list \<Rightarrow> ('json, 'data) agent_turn_response" where
  "agent_response reason response elapsed events =
     \<lparr>atr_text = atr_text response, atr_stop_reason = atr_stop_reason response,
      atr_usage = (case aggregate_finished_usage events of Some u \<Rightarrow> Some u | None \<Rightarrow> atr_usage response),
      atr_latency_ms = duration_millis elapsed, atr_termination_reason = reason, atr_events = events\<rparr>"

definition completed_agent_response ::
    "('json, 'data) agent_turn_response \<Rightarrow> duration \<Rightarrow> ('json, 'data) agent_runtime_event list
       \<Rightarrow> ('json, 'data) agent_turn_response" where
  "completed_agent_response = agent_response ProviderStop"

definition stopped_agent_response ::
    "('json, 'data) agent_turn_response \<Rightarrow> duration \<Rightarrow> ('json, 'data) agent_runtime_event list
       \<Rightarrow> ('json, 'data) agent_turn_response" where
  "stopped_agent_response = agent_response StopCondition"

section \<open>Planned provider rounds\<close>

record ('json, 'data) provider_round_context =
  prc_round :: u32
  prc_attempt :: u32
  prc_proposed :: "('json, 'data) agent_turn_request"
  prc_previous :: "runtime_error option"

datatype ('json, 'data) provider_round_plan =
    Proceed "('json, 'data) agent_turn_request"
  | RetryAfter "('json, 'data) agent_turn_request" duration
  | PlanFails "runtime_error option"

type_synonym ('json, 'data) provider_round_planner =
  "('json, 'data) provider_round_context \<Rightarrow> runtime_error + ('json, 'data) provider_round_plan"

definition noop_planner :: "('json, 'data) provider_round_planner" where
  "noop_planner c = Inr (if prc_previous c \<noteq> None then PlanFails None else Proceed (prc_proposed c))"

definition remaining_turn_duration :: "duration \<Rightarrow> duration \<Rightarrow> runtime_error + duration" where
  "remaining_turn_duration elapsed timeout =
     (if timeout < elapsed then Inl (TurnTimeout timeout) else Inr (timeout - elapsed))"

text \<open>\<open>ProviderReady\<close> is the planner's answer, or the end of the retry delay.\<close>

record ('json, 'data) attempt_input =
  at_elapsed :: duration
  at_plan_elapsed :: duration
  at_plan_race :: turn_race
  at_delay_elapsed :: duration
  at_delay_race :: turn_race
  at_turn_elapsed :: duration
  at_env :: "('json, 'data) provider_turn_env"
  at_polls :: "('json, 'data) poll_input list"

definition race_won :: "duration \<Rightarrow> duration \<Rightarrow> turn_race \<Rightarrow> (runtime_error + 'a) \<Rightarrow> runtime_error + 'a" where
  "race_won elapsed timeout race won =
     (case remaining_turn_duration elapsed timeout of
        Inl e \<Rightarrow> Inl e
      | Inr _ \<Rightarrow>
          (case race of
             RequestCancelled \<Rightarrow> Inl TurnCancelled
           | ScopeCancelled \<Rightarrow> Inl TurnCancelled
           | DeadlinePassed \<Rightarrow> Inl (TurnTimeout timeout)
           | ProviderReady \<Rightarrow> won))"

definition plan_provider_round ::
    "('json, 'data) provider_round_planner \<Rightarrow> ('json, 'data) provider_round_context \<Rightarrow> duration
       \<Rightarrow> ('json, 'data) attempt_input \<Rightarrow> runtime_error + ('json, 'data) provider_round_plan" where
  "plan_provider_round planner context timeout a =
     race_won (at_plan_elapsed a) timeout (at_plan_race a) (planner context)"

definition wait_for_provider_retry_delay :: "duration \<Rightarrow> ('json, 'data) attempt_input \<Rightarrow> runtime_error + unit" where
  "wait_for_provider_retry_delay timeout a = race_won (at_delay_elapsed a) timeout (at_delay_race a) (Inr ())"

text \<open>From the head of the attempt loop to the request that is run.\<close>

definition planned_request ::
    "('json, 'data) provider_round_planner \<Rightarrow> bool option \<Rightarrow> duration \<Rightarrow> u32 \<Rightarrow> u32 \<Rightarrow> runtime_error option
       \<Rightarrow> ('json, 'data) agent_turn_request \<Rightarrow> ('json, 'data) attempt_input
       \<Rightarrow> runtime_error + ('json, 'data) agent_turn_request" where
  "planned_request planner negotiated timeout round attempt previous proposed a =
     (case remaining_turn_duration (at_elapsed a) timeout of
        Inl e \<Rightarrow> Inl e
      | Inr left \<Rightarrow>
          (case plan_provider_round planner \<lparr>prc_round = round, prc_attempt = attempt,
                  prc_proposed = proposed\<lparr>rq_timeout := left\<rparr>, prc_previous = previous\<rparr> timeout a of
             Inl e \<Rightarrow> Inl e
           | Inr plan \<Rightarrow>
               (case (case plan of
                        Proceed r \<Rightarrow> Inr r
                      | RetryAfter r delay \<Rightarrow>
                          (case wait_for_provider_retry_delay timeout a of Inl e \<Rightarrow> Inl e | Inr _ \<Rightarrow> Inr r)
                      | PlanFails err \<Rightarrow>
                          Inl (case err of Some e \<Rightarrow> e | None \<Rightarrow> (case previous of Some e \<Rightarrow> e | None \<Rightarrow>
                            HostExtension (str ''provider planner returned fail before a provider attempt without an error'')))) of
                  Inl e \<Rightarrow> Inl e
                | Inr r \<Rightarrow>
                    (case remaining_turn_duration (at_turn_elapsed a) timeout of
                       Inl e \<Rightarrow> Inl e
                     | Inr left' \<Rightarrow>
                         Inr (r\<lparr>rq_tool_call_policy := (rq_tool_call_policy r)\<lparr>tcp_parallel := negotiated\<rparr>,
                                rq_timeout := left'\<rparr>)))))"

text \<open>An error of a turn after which no other attempt is planned.\<close>

definition final_error :: "duration \<Rightarrow> runtime_error \<Rightarrow> runtime_error option" where
  "final_error timeout e =
     (case e of TurnCancelled \<Rightarrow> Some TurnCancelled | TurnTimeout _ \<Rightarrow> Some (TurnTimeout timeout) | _ \<Rightarrow> None)"

text \<open>\<open>None\<close>: the attempts given are not enough. The first component are the turns run.\<close>

fun run_planned_provider_round ::
    "(session_id \<Rightarrow> ustring) \<Rightarrow> ('json, 'data) provider_round_planner \<Rightarrow> bool option \<Rightarrow> duration \<Rightarrow> u32 \<Rightarrow> u32
       \<Rightarrow> runtime_error option \<Rightarrow> ('json, 'data) agent_turn_request \<Rightarrow> ('json, 'data) attempt_input list
       \<Rightarrow> (('json, 'data) turn_outcome list \<times>
           (runtime_error + ('json, 'data) agent_turn_request \<times> ('json, 'data) agent_turn_response)) option" where
  "run_planned_provider_round sh planner negotiated timeout round attempt previous proposed [] = None"
| "run_planned_provider_round sh planner negotiated timeout round attempt previous proposed (a # as) =
     (case planned_request planner negotiated timeout round attempt previous proposed a of
        Inl e \<Rightarrow> Some ([], Inl e)
      | Inr r \<Rightarrow>
          (case run_text_turn_in_scope sh (at_env a) (at_polls a) r of
             None \<Rightarrow> None
           | Some out \<Rightarrow>
               (case to_result out of
                  Inr response \<Rightarrow> Some ([out], Inr (r, response))
                | Inl e \<Rightarrow>
                    (case final_error timeout e of
                       Some e' \<Rightarrow> Some ([out], Inl e')
                     | None \<Rightarrow>
                         map_option (\<lambda>(outs, x). (out # outs, x))
                           (run_planned_provider_round sh planner negotiated timeout round (saturating_inc32 attempt)
                              (Some e) r as)))))"

section \<open>State of the loop\<close>

record ('json, 'data) loop_config =
  lc_show :: "session_id \<Rightarrow> ustring"
  lc_planner :: "('json, 'data) provider_round_planner"
  lc_negotiated :: "bool option"
  lc_timeout :: duration
  lc_structured_output :: "'json structured_output_request option"
  lc_finalizes :: bool
  lc_catalog :: "'json unified_tool_catalog"
  lc_authorize :: "'json authorization_request list \<Rightarrow> runtime_error + authorization_decision list"
  lc_context :: runtime_permission_context
  lc_host_context :: "'json tool_host_context_entry list"
  lc_options :: tool_execution_options
  lc_policy :: tool_result_policy

record ('json, 'data) loop_state =
  ls_request :: "('json, 'data) agent_turn_request"
  ls_rounds :: tool_round_state
  ls_guard :: "'json tool_batch_repeat_guard"
  ls_messages :: "('json, 'data) model_message list"
  ls_events :: "('json, 'data) agent_runtime_event list"
  ls_round :: u32
  ls_finalizing :: bool
  ls_turns :: "('json, 'data) turn_outcome list"
  ls_batches :: "('json tool_call list \<times> 'json prepared_call list) list"

text \<open>The part before the loop: configuration and first state.\<close>

definition negotiated_parallel :: "tool_execution_options \<Rightarrow> tool_call_request_policy \<Rightarrow> bool option" where
  "negotiated_parallel options policy =
     (if \<not> opt_parallel options then Some False
      else (case tcp_parallel policy of None \<Rightarrow> Some False | Some b \<Rightarrow> Some b))"

definition requires_finalization :: "('json, 'data) agent_turn_request \<Rightarrow> bool" where
  "requires_finalization r \<longleftrightarrow> rq_structured_output r \<noteq> None \<and>
     rq_structured_output_execution r = ToolFreeProviderRound \<and> rq_tools r \<noteq> []"

definition loop_init ::
    "tool_execution_options \<Rightarrow> ('json, 'data) agent_turn_request \<Rightarrow> ('json, 'data) loop_state" where
  "loop_init options request =
     (let r = request\<lparr>rq_tool_call_policy := (rq_tool_call_policy request)\<lparr>
                tcp_parallel := negotiated_parallel options (rq_tool_call_policy request)\<rparr>\<rparr>;
          r' = (if requires_finalization r then r\<lparr>rq_structured_output := None\<rparr> else r)
      in \<lparr>ls_request = r', ls_rounds = round_state_new (rq_max_tool_rounds r),
          ls_guard = repeat_guard_new (rq_max_repeated_tool_batches r), ls_messages = initial_loop_messages r',
          ls_events = [], ls_round = 0, ls_finalizing = False, ls_turns = [], ls_batches = []\<rparr>)"

definition config_for :: "('json, 'data) loop_config \<Rightarrow> ('json, 'data) agent_turn_request \<Rightarrow> bool" where
  "config_for c request \<longleftrightarrow> lc_negotiated c = negotiated_parallel (lc_options c) (rq_tool_call_policy request) \<and>
     lc_timeout c = rq_timeout request \<and> lc_structured_output c = rq_structured_output request \<and>
     lc_finalizes c = requires_finalization request"

section \<open>One pass\<close>

record round_input =
  ri_elapsed :: duration
  ri_transition_emitted :: bool
  ri_before_batch :: "runtime_error + unit"
  ri_batch_elapsed :: duration

definition completed_calls :: "('json, 'data) agent_runtime_event list \<Rightarrow> 'json tool_call list" where
  "completed_calls events = List.map_filter (\<lambda>e. case e of ToolCallFinished c \<Rightarrow> Some c | _ \<Rightarrow> None) events"

definition finalization_instruction :: ustring where
  "finalization_instruction = str ''Return the final result now. Produce only the requested structured output from the completed work and tool results.''"

datatype ('json, 'data) round_decision =
    Returns "runtime_error + ('json, 'data) agent_turn_response"
  | Resumes
  | RunsBatch "'json tool_call list"

definition begin_finalization ::
    "('json, 'data) loop_config \<Rightarrow> ('json, 'data) agent_turn_response \<Rightarrow> ('json, 'data) loop_state
       \<Rightarrow> ('json, 'data) loop_state" where
  "begin_finalization c response s =
     (let messages = ls_messages s
            @ (if atr_text response = [] then []
               else [\<lparr>msg_role = AssistantRole, msg_content = [TextBlock (atr_text response)]\<rparr>])
            @ [user_text finalization_instruction]
      in s\<lparr>ls_events := ls_events s @ [StructuredOutputFinalizationStarted], ls_messages := messages,
           ls_request := (ls_request s)\<lparr>rq_messages := messages, rq_prompt := [], rq_append_prompt := False,
             rq_tools := [], rq_tool_call_policy := \<lparr>tcp_parallel = Some False, tcp_choice = ChoiceNone\<rparr>,
             rq_structured_output := lc_structured_output c\<rparr>,
           ls_round := saturating_inc32 (ls_round s), ls_finalizing := True\<rparr>)"

text \<open>What follows a provider round that ended with a tool call.\<close>

definition start_batch ::
    "('json, 'data) loop_config \<Rightarrow> round_input \<Rightarrow> ('json, 'data) agent_turn_response \<Rightarrow> 'json tool_call list
       \<Rightarrow> ('json, 'data) loop_state \<Rightarrow> ('json, 'data) loop_state \<times> ('json, 'data) round_decision" where
  "start_batch c inp response calls s =
     (if ls_finalizing s
      then (s, Returns (Inl (HostExtension
             (str ''structured-output finalization requested a host tool despite tool-free execution''))))
      else if calls = [] then (s, Returns (Inl EmptyProviderToolRound))
      else (case validate_provider_tool_calls calls of
              Inl e \<Rightarrow> (s, Returns (Inl e))
            | Inr _ \<Rightarrow>
                (case observe_batch (ls_guard s) calls of
                   (g, Inl e) \<Rightarrow> (s\<lparr>ls_guard := g\<rparr>, Returns (Inl e))
                 | (g, Inr _) \<Rightarrow>
                     (let s' = s\<lparr>ls_guard := g,
                            ls_messages := append_provider_tool_calls (ls_messages s) (atr_text response) calls\<rparr>
                      in case ri_before_batch inp of
                           Inl e \<Rightarrow> (s', Returns (Inl e))
                         | Inr _ \<Rightarrow>
                             (case remaining_turn_duration (ri_batch_elapsed inp) (lc_timeout c) of
                                Inl e \<Rightarrow> (s', Returns (Inl e))
                              | Inr _ \<Rightarrow> (s', RunsBatch calls))))))"

definition after_round ::
    "('json, 'data) loop_config \<Rightarrow> round_input \<Rightarrow> ('json, 'data) agent_turn_response
       \<Rightarrow> ('json, 'data) loop_state \<Rightarrow> ('json, 'data) loop_state \<times> ('json, 'data) round_decision" where
  "after_round c inp response s =
     (let s1 = s\<lparr>ls_events := ls_events s @ atr_events response\<rparr>;
          calls = completed_calls (atr_events response)
      in if (\<not> lc_finalizes c \<or> ls_finalizing s1) \<and>
            (case rq_stop_condition (ls_request s1) of None \<Rightarrow> False | Some f \<Rightarrow> f (ls_round s1) response calls)
         then (s1, Returns (Inr (stopped_agent_response response (ri_elapsed inp) (ls_events s1))))
         else if atr_stop_reason response \<noteq> Some StopToolCall
         then (if lc_finalizes c \<and> \<not> ls_finalizing s1
               then (if \<not> ri_transition_emitted inp then (s1, Returns (Inl TurnCancelled))
                     else (begin_finalization c response s1, Resumes))
               else (s1, Returns (Inr (completed_agent_response response (ri_elapsed inp) (ls_events s1)))))
         else start_batch c inp response calls s1)"

definition round_part ::
    "('json, 'data) loop_config \<Rightarrow> ('json, 'data) attempt_input list \<Rightarrow> round_input \<Rightarrow> ('json, 'data) loop_state
       \<Rightarrow> (('json, 'data) loop_state \<times> ('json, 'data) round_decision) option" where
  "round_part c attempts inp s =
     (case run_planned_provider_round (lc_show c) (lc_planner c) (lc_negotiated c) (lc_timeout c) (ls_round s) 0 None
             (ls_request s) attempts of
        None \<Rightarrow> None
      | Some (turns, r) \<Rightarrow>
          (let s0 = s\<lparr>ls_turns := ls_turns s @ turns\<rparr>
           in case r of
                Inl e \<Rightarrow> Some (s0, Returns (Inl e))
              | Inr (request, response) \<Rightarrow> Some (after_round c inp response (s0\<lparr>ls_request := request\<rparr>))))"

text \<open>After a batch whose results could be appended.\<close>

definition after_batch ::
    "tool_round_state \<Rightarrow> ('json, 'data) model_message list \<Rightarrow> ('json, 'data) agent_runtime_event list
       \<Rightarrow> ('json tool_call list \<times> 'json prepared_call list) \<Rightarrow> ('json, 'data) loop_state \<Rightarrow> ('json, 'data) loop_state" where
  "after_batch rounds messages events batch s =
     s\<lparr>ls_rounds := rounds, ls_messages := messages, ls_events := events,
       ls_request := (ls_request s)\<lparr>rq_messages := messages, rq_prompt := [], rq_append_prompt := False\<rparr>,
       ls_round := saturating_inc32 (ls_round s), ls_batches := ls_batches s @ [batch]\<rparr>"

text \<open>The environment of a batch of this loop.\<close>

definition batch_of :: "('json, 'data) loop_config \<Rightarrow> 'json batch_env \<Rightarrow> bool" where
  "batch_of c env \<longleftrightarrow> prep_catalog (be_preparation env) = lc_catalog c \<and> be_authorize env = lc_authorize c \<and>
     be_context env = lc_context c \<and> be_host_context env = lc_host_context c \<and>
     be_options env = lc_options c \<and> be_policy env = lc_policy c"

datatype ('json, 'data) loop_next =
    Again "('json, 'data) loop_state"
  | Done "('json, 'data) loop_state" "runtime_error + ('json, 'data) agent_turn_response"

definition record_batch ::
    "tool_round_state \<Rightarrow> ('json tool_call list \<times> 'json prepared_call list) \<Rightarrow> ('json, 'data) loop_state
       \<Rightarrow> ('json, 'data) loop_state" where
  "record_batch rounds batch s = s\<lparr>ls_rounds := rounds, ls_batches := ls_batches s @ [batch]\<rparr>"

text \<open>
  An interrupted batch is given \<open>TOOL_SETTLEMENT_GRACE\<close> to settle and is then dropped at whatever
  moment it has reached; its results are dropped in any case. The batch of a pass that ends the
  loop is recorded like that of any other.
\<close>

inductive loop_step ::
    "('json, 'data) loop_config \<Rightarrow> ('json, 'data) loop_state \<Rightarrow> ('json, 'data) loop_next \<Rightarrow> bool"
  for c :: "('json, 'data) loop_config" where
  loop_returns: "round_part c attempts inp s = Some (s', Returns r) \<Longrightarrow> loop_step c s (Done s' r)"
| loop_finalizes: "round_part c attempts inp s = Some (s', Resumes) \<Longrightarrow> loop_step c s (Again s')"
| loop_interrupted: "round_part c attempts inp s = Some (s', RunsBatch calls) \<Longrightarrow>
    batch_of c env \<Longrightarrow> batch_moment env calls (ls_rounds s') rounds before (current :: ('json, 'data) group_state option) \<Longrightarrow>
    e \<in> {TurnCancelled, TurnTimeout (lc_timeout c)} \<Longrightarrow>
    loop_step c s (Done (record_batch rounds (calls, moment_calls before current) s') (Inl e))"
| loop_batch_failed: "round_part c attempts inp s = Some (s', RunsBatch calls) \<Longrightarrow> batch_of c env \<Longrightarrow>
    batch_run env calls (ls_rounds s') rounds
      (Inl e :: runtime_error + ('json, 'data) tool_batch_execution_output) invoked \<Longrightarrow>
    loop_step c s (Done (record_batch rounds (calls, invoked) s') (Inl e))"
| loop_results_refused: "round_part c attempts inp s = Some (s', RunsBatch calls) \<Longrightarrow> batch_of c env \<Longrightarrow>
    batch_run env calls (ls_rounds s') rounds (Inr batch) invoked \<Longrightarrow>
    append_tool_batch_results aenv (lc_policy c) calls batch (ls_messages s') (ls_events s') = (messages, events, Inl e) \<Longrightarrow>
    loop_step c s (Done (after_batch rounds messages events (calls, invoked) s') (Inl e))"
| loop_continues: "round_part c attempts inp s = Some (s', RunsBatch calls) \<Longrightarrow> batch_of c env \<Longrightarrow>
    batch_run env calls (ls_rounds s') rounds (Inr batch) invoked \<Longrightarrow>
    append_tool_batch_results aenv (lc_policy c) calls batch (ls_messages s') (ls_events s') = (messages, events, Inr ()) \<Longrightarrow>
    loop_step c s (Again (after_batch rounds messages events (calls, invoked) s'))"

inductive_cases loop_stepE: "loop_step c s n"
inductive_cases loop_againE: "loop_step c s (Again s')"

text \<open>\<open>loop_reaches c s0 n s\<close>: after \<open>n\<close> full passes.\<close>

inductive loop_reaches ::
    "('json, 'data) loop_config \<Rightarrow> ('json, 'data) loop_state \<Rightarrow> nat \<Rightarrow> ('json, 'data) loop_state \<Rightarrow> bool"
  for c :: "('json, 'data) loop_config" and s0 :: "('json, 'data) loop_state" where
  reach_init: "loop_reaches c s0 0 s0"
| reach_again: "loop_reaches c s0 n s \<Longrightarrow> loop_step c s (Again s') \<Longrightarrow> loop_reaches c s0 (Suc n) s'"

end
