(* ===== verification/Loop_Invariants.thy ===== *)
theory Loop_Invariants
  imports Agent_Loop
begin

text \<open>
  Invariants of the agent loop: the bounds on rounds and repetitions, the shape of the
  conversation, the account of usage, and the finalization round.
\<close>

section \<open>Repetitions\<close>

text \<open>The length of the run of equal elements at the end of a list.\<close>

definition trailing :: "'a list \<Rightarrow> nat" where
  "trailing xs = length (takeWhile (\<lambda>x. x = last xs) (rev xs))"

lemma trailing_Nil [simp]: "trailing [] = 0"
  by (simp add: trailing_def)

lemma trailing_snoc: "trailing (xs @ [x]) = (if xs \<noteq> [] \<and> last xs = x then Suc (trailing xs) else 1)"
  by (cases xs rule: rev_cases) (auto simp: trailing_def)

lemma trailing_replicate: "k \<le> trailing (xs @ replicate k x)"
proof (induction k)
  case (Suc k)
  have "xs @ replicate (Suc k) x = (xs @ replicate k x) @ [x]" by (simp add: replicate_append_same)
  moreover have "last (xs @ replicate k x) = x" if "k \<noteq> 0" using that by simp
  ultimately show ?case using Suc by (cases "k = 0") (simp_all only: trailing_snoc, auto)
qed simp

definition runs_within :: "nat \<Rightarrow> 'a list \<Rightarrow> bool" where
  "runs_within limit xs \<longleftrightarrow> (\<forall>n \<le> length xs. trailing (take n xs) \<le> limit)"

lemma runs_within_no_run: "runs_within limit xs \<Longrightarrow> xs \<noteq> pre @ replicate (Suc limit) x @ suf"
proof
  assume w: "runs_within limit xs" and xs: "xs = pre @ replicate (Suc limit) x @ suf"
  then have "length pre + Suc limit \<le> length xs" by simp
  with w have "trailing (take (length pre + Suc limit) xs) \<le> limit" unfolding runs_within_def by blast
  moreover have "take (length pre + Suc limit) xs = pre @ replicate (Suc limit) x" by (simp add: xs)
  ultimately show False using trailing_replicate[of "Suc limit" pre x] by (metis not_less_eq_eq)
qed

lemma runs_within_snoc: "runs_within limit xs \<Longrightarrow> trailing (xs @ [x]) \<le> limit \<Longrightarrow> runs_within limit (xs @ [x])"
  by (auto simp: runs_within_def le_Suc_eq)

text \<open>What the guard knows of the batches it has passed; its counter saturates.\<close>

definition guard_ok :: "u32 \<Rightarrow> 'json tool_batch_repeat_guard \<Rightarrow> (ustring \<times> 'json) list list \<Rightarrow> bool" where
  "guard_ok limit g sems \<longleftrightarrow> guard_limit g = limit \<and>
     guard_previous g = (if sems = [] then None else Some (last sems)) \<and>
     unat (guard_repeats g) = min (trailing sems) (2 ^ 32 - 1) \<and>
     (limit \<noteq> - 1 \<longrightarrow> runs_within (unat limit) sems)"

lemma guard_ok_new: "guard_ok limit (repeat_guard_new limit) []"
  by (simp add: guard_ok_def repeat_guard_new_def runs_within_def)

lemma unat_less_max: "(limit :: u32) \<noteq> - 1 \<Longrightarrow> unat limit < 2 ^ 32 - 1"
proof -
  assume "limit \<noteq> - 1"
  then have "limit < - 1" using word_order.not_eq_extremum by blast
  then show "unat limit < 2 ^ 32 - 1" by (simp add: word_less_nat_alt unsigned_minus_1_eq_mask mask_eq_exp_minus_1)
qed

lemma guard_ok_observe:
  assumes g: "guard_ok limit g sems" and o: "observe_batch g calls = (g', Inr ())"
  shows "guard_ok limit g' (sems @ [semantic_batch calls])"
proof -
  let ?sem = "semantic_batch calls"
  have lim: "guard_limit g' = limit" and prev: "guard_previous g' = Some ?sem"
    using g o by (auto simp: guard_ok_def observe_batch_def Let_def split: if_splits)
  have rep: "unat (guard_repeats g') = min (trailing (sems @ [?sem])) (2 ^ 32 - 1)"
    using g o by (auto simp: guard_ok_def observe_batch_def Let_def trailing_snoc saturating_inc32_def
        unat_saturating_add32 min_def split: if_splits)
  have le: "unat (guard_repeats g') \<le> unat limit"
    using o lim by (auto simp: observe_batch_def Let_def word_less_nat_alt not_less split: if_splits)
  have "trailing (sems @ [?sem]) \<le> unat limit" if "limit \<noteq> - 1"
    using le rep unat_less_max[OF that] by linarith
  with g lim prev rep show ?thesis by (simp add: guard_ok_def runs_within_snoc)
qed

section \<open>Conversation\<close>

text \<open>
  One executed batch in the conversation: the assistant's message with its calls, and one tool
  message for each call, in order and with its id.
\<close>

definition tool_exchange :: "'json tool_call list \<Rightarrow> ('json, 'data) model_message list \<Rightarrow> bool" where
  "tool_exchange calls block \<longleftrightarrow> (\<exists>response_text results.
     block = append_provider_tool_calls [] response_text calls @ map tool_message results \<and>
     map res_call_id results = map call_id calls)"

definition conversation ::
    "('json, 'data) model_message list \<Rightarrow> 'json tool_call list list \<Rightarrow> ('json, 'data) model_message list
       \<Rightarrow> ('json, 'data) model_message list \<Rightarrow> bool" where
  "conversation start batches tail_msgs messages \<longleftrightarrow>
     (\<exists>blocks. messages = start @ concat blocks @ tail_msgs \<and> list_all2 tool_exchange batches blocks)"

lemma conversation_start: "conversation start [] tail_msgs (start @ tail_msgs)"
  by (simp add: conversation_def)

lemma conversation_batch:
  assumes "conversation start batches [] messages" and "map res_call_id results = map call_id calls"
  shows "conversation start (batches @ [calls]) []
    (append_provider_tool_calls messages response_text calls @ map tool_message results)"
proof -
  obtain blocks where b: "messages = start @ concat blocks" "list_all2 tool_exchange batches blocks"
    using assms(1) by (auto simp: conversation_def)
  let ?block = "append_provider_tool_calls [] response_text calls @ map tool_message results"
  have "tool_exchange calls ?block" using assms(2) by (auto simp: tool_exchange_def)
  then have "list_all2 tool_exchange (batches @ [calls]) (blocks @ [?block])"
    using b(2) by (auto intro: list_all2_appendI)
  moreover have "append_provider_tool_calls messages response_text calls @ map tool_message results
      = start @ concat (blocks @ [?block])"
    by (simp add: b(1) append_provider_tool_calls_def)
  ultimately show ?thesis unfolding conversation_def by (intro exI[of _ "blocks @ [?block]"]) simp
qed

lemma append_results_messages:
  assumes "append_results_from aenv policy i rs messages events = (messages', events', Inr ())"
    and "\<forall>(call, r) \<in> set rs. case r of Inl e \<Rightarrow> True | Inr out \<Rightarrow> res_call_id (out_model_result out) = call_id call"
  shows "\<exists>results. messages' = messages @ map tool_message results \<and>
    map res_call_id results = map (call_id \<circ> fst) rs \<and>
    (\<exists>new. events' = events @ map ToolResult new)"
  using assms
proof (induction aenv policy i rs messages events rule: append_results_from.induct)
  case (2 aenv policy i call out rest messages events)
  let ?ev = "case List.find is_tool_result (out_events out) of None \<Rightarrow> [] | Some ev \<Rightarrow> [ev]"
  have ev: "\<exists>new. ?ev = map ToolResult new"
  proof (cases "List.find is_tool_result (out_events out)")
    case (Some e)
    then have "is_tool_result e" by (auto simp: find_Some_iff)
    then obtain r where "e = ToolResult r" by (cases e) (auto simp: is_tool_result_def)
    with Some show ?thesis by (intro exI[of _ "[r]"]) simp
  qed (auto intro: exI[of _ "[]"])
  obtain x where x: "ae_observer aenv call out = Inr x"
    using 2(2) by (cases "ae_observer aenv call out") auto
  with 2(2,3) have "append_results_from aenv policy (i + 1) rest (messages @ [tool_message (out_model_result out)])
      (events @ ?ev) = (messages', events', Inr ())" by simp
  from 2(1)[OF x this] 2(3) obtain results new where
    "messages' = (messages @ [tool_message (out_model_result out)]) @ map tool_message results"
    "map res_call_id results = map (call_id \<circ> fst) rest" "events' = (events @ ?ev) @ map ToolResult new"
    by auto
  with ev 2(3) show ?case
    by (intro exI[of _ "out_model_result out # results"]) (auto intro: exI[of _ "_ @ _"] simp flip: map_append)
next
  case (3 aenv policy i call e rest messages events)
  let ?r = "error_tool_result aenv policy call e"
  have em: "ae_emits aenv i" using 3(2) by (auto simp: Let_def split: if_splits)
  with 3(2) have "append_results_from aenv policy (i + 1) rest (messages @ [tool_message ?r])
      (events @ [ToolResult ?r]) = (messages', events', Inr ())" by (simp add: Let_def)
  from 3(1)[OF refl _ this] em 3(3) obtain results new where
    "messages' = (messages @ [tool_message ?r]) @ map tool_message results"
    "map res_call_id results = map (call_id \<circ> fst) rest" "events' = (events @ [ToolResult ?r]) @ map ToolResult new"
    by auto
  then show ?case
    by (intro exI[of _ "?r # results"] conjI exI[of _ "?r # new"]) (auto simp: error_tool_result_def)
qed (auto intro: exI[of _ "[]"])

text \<open>Every success of a batch carries the id of its call.\<close>

lemma batch_success_ids:
  assumes "batch_run env calls rounds rounds' (Inr batch) invoked"
    and "i < length calls" and "batch_results batch ! i = Inr out"
  shows "res_call_id (out_model_result out) = call_id (calls ! i)"
proof -
  obtain p response where p: "p \<in> set invoked" "pc_index p = i"
    and out: "out = apply_tool_result_policy (be_policy env) (tool_execution_output_of (pc_call p) response)"
    using batch_run_results(3)[OF assms] by blast
  have "pc_call p = calls ! i" using batch_run_authorized(2)[OF assms(1) p(1)] p(2) by (simp add: call_authorized_def)
  then show ?thesis
    using policy_on_output(6)[OF refl refl, of "be_policy env" "tool_execution_output_of (pc_call p) response"] out
    by (simp add: tool_execution_output_of_def Let_def)
qed

lemma batch_messages:
  assumes "batch_run env calls rounds rounds' (Inr batch) invoked"
    and "append_tool_batch_results aenv policy calls batch messages events = (messages', events', Inr ())"
  shows "\<exists>results. messages' = messages @ map tool_message results \<and> map res_call_id results = map call_id calls \<and>
    (\<exists>new. events' = events @ map ToolResult new)"
proof -
  have len: "length (batch_results batch) = length calls" by (rule batch_run_results(1)[OF assms(1)])
  have app: "append_results_from aenv policy 0 (zip calls (batch_results batch)) messages events = (messages', events', Inr ())"
    using assms(2) by (auto simp: append_tool_batch_results_def split: if_splits)
  have "\<forall>(call, r) \<in> set (zip calls (batch_results batch)).
      case r of Inl e \<Rightarrow> True | Inr out \<Rightarrow> res_call_id (out_model_result out) = call_id call"
    using batch_success_ids[OF assms(1)] by (auto simp: set_zip split: sum.split)
  from append_results_messages[OF app this] len show ?thesis by (simp flip: map_map)
qed

lemma batch_rounds:
  assumes "batch_run env calls rounds rounds' (Inr batch) invoked" and "calls \<noteq> []"
  shows "begin_round rounds = Inr rounds'"
  using assms by (auto elim!: batch_run.cases simp: begin_batch_def split: sum.splits if_splits)

section \<open>Usage\<close>

definition bucket_sum :: "('data token_usage \<Rightarrow> u32 option) \<Rightarrow> 'data token_usage list \<Rightarrow> nat" where
  "bucket_sum bucket us = sum_list (map (\<lambda>u. unat (the (bucket u))) us)"

text \<open>A bucket is known if every round knows it, and then it is the sum, capped at 32 bits.\<close>

lemma aggregate_bucket:
  "map_option unat (aggregate_complete_bucket bucket acc us) =
     (if \<exists>u \<in> set us. bucket u = None then None else Some (min (unat acc + bucket_sum bucket us) (2 ^ 32 - 1)))"
proof (induction us arbitrary: acc)
  case Nil
  have "unat acc \<le> 2 ^ 32 - 1" using unsigned_less[where w = acc and 'a = nat] by simp
  then show ?case by (simp add: bucket_sum_def)
next
  case (Cons u us)
  show ?case
  proof (cases "bucket u")
    case (Some n)
    have "min (unat (saturating_add32 acc n) + bucket_sum bucket us) (2 ^ 32 - 1)
        = min (unat acc + bucket_sum bucket (u # us)) (2 ^ 32 - 1)"
      using Some by (simp add: unat_saturating_add32 bucket_sum_def)
    with Cons.IH[of "saturating_add32 acc n"] Some show ?thesis by simp
  qed simp
qed

lemma aggregate_usage_buckets:
  assumes "us = finished_usages events" and "us \<noteq> []"
  shows "\<exists>u. aggregate_finished_usage events = Some u \<and>
    (\<forall>bucket \<in> {input_tokens, output_tokens, total_tokens, cached_input_tokens, cache_write_input_tokens,
        reasoning_tokens}.
      map_option unat (bucket u) = (if \<exists>v \<in> set us. bucket v = None then None
        else Some (min (bucket_sum bucket us) (2 ^ 32 - 1))))"
proof -
  let ?agg = "\<lambda>bucket. aggregate_complete_bucket bucket 0 us"
  define u where "u = \<lparr>input_tokens = ?agg input_tokens, output_tokens = ?agg output_tokens,
    total_tokens = ?agg total_tokens, cached_input_tokens = ?agg cached_input_tokens,
    cache_write_input_tokens = ?agg cache_write_input_tokens, usage_details = concat (map usage_details us),
    pricing_context = None, reasoning_tokens = ?agg reasoning_tokens\<rparr>"
  have u: "aggregate_finished_usage events = Some u" using assms by (simp add: aggregate_finished_usage_def Let_def u_def)
  have b: "bucket u = ?agg bucket"
    if "bucket \<in> {input_tokens, output_tokens, total_tokens, cached_input_tokens, cache_write_input_tokens,
        reasoning_tokens}" for bucket
    using that by (auto simp: u_def)
  have "map_option unat (bucket u) = (if \<exists>v \<in> set us. bucket v = None then None
        else Some (min (bucket_sum bucket us) (2 ^ 32 - 1)))"
    if "bucket \<in> {input_tokens, output_tokens, total_tokens, cached_input_tokens, cache_write_input_tokens,
        reasoning_tokens}" for bucket
    using aggregate_bucket[of bucket 0 us] unfolding b[OF that] by simp
  with u show ?thesis by blast
qed

lemma finished_usages_append: "finished_usages (xs @ ys) = finished_usages xs @ finished_usages ys"
  by (simp add: finished_usages_def map_filter_def)

lemma finished_usages_none: "(\<And>e. e \<in> set es \<Longrightarrow> (\<forall>s u l. e \<noteq> FinishedEvent s u l)) \<Longrightarrow> finished_usages es = []"
  by (induction es) (auto simp: finished_usages_def List.map_filter_simps split: agent_runtime_event.split)

lemma runtime_events_not_finished [simp]: "FinishedEvent s u l \<notin> set (runtime_events e)"
  by (cases e) (auto simp: runtime_events_def disposition_def split: if_splits)

definition turn_usage :: "('json, 'data) turn_outcome \<Rightarrow> 'data token_usage option" where
  "turn_usage out = (case to_result out of Inr r \<Rightarrow> atr_usage r | Inl _ \<Rightarrow> None)"

definition reported_usages :: "('json, 'data) turn_outcome list \<Rightarrow> 'data token_usage list" where
  "reported_usages outs = List.map_filter turn_usage outs"

lemma reported_usages_append: "reported_usages (xs @ ys) = reported_usages xs @ reported_usages ys"
  by (simp add: reported_usages_def map_filter_def)

lemma finished_usages_turn:
  assumes "run_text_turn_in_scope sh env polls request = Some out" and "to_result out = Inr resp"
  shows "finished_usages (atr_events resp) = (case atr_usage resp of None \<Rightarrow> [] | Some u \<Rightarrow> [u])"
proof -
  obtain evs stop p where r: "resp = response_of (absorb evs
      \<lparr>tb_text = [], tb_usage = None, tb_events = [TurnStarted]\<rparr>) stop p"
    using turn_response[OF assms] by blast
  have none: "finished_usages (TurnStarted # concat (map runtime_events evs)) = []"
    by (rule finished_usages_none) auto
  have "finished_usages ((TurnStarted # concat (map runtime_events evs)) @ [FinishedEvent stop (foldl usage_after None evs) n])
      = (case foldl usage_after None evs of None \<Rightarrow> [] | Some u \<Rightarrow> [u])" for n
    unfolding finished_usages_append none by (simp add: finished_usages_def List.map_filter_simps split: option.split)
  then show ?thesis by (simp add: r response_of_def absorb_def)
qed

text \<open>A planned round succeeds with its last turn; every earlier turn of it failed.\<close>

lemma planned_round:
  "run_planned_provider_round sh planner neg timeout round attempt previous proposed as = Some (outs, x) \<Longrightarrow>
     (\<forall>r response. x = Inr (r, response) \<longrightarrow>
        (\<exists>failed out. outs = failed @ [out] \<and> to_result out = Inr response \<and> (\<forall>f \<in> set failed. \<exists>e. to_result f = Inl e) \<and>
           finished_usages (atr_events response) = (case atr_usage response of None \<Rightarrow> [] | Some u \<Rightarrow> [u])))"
proof (induction sh planner neg timeout round attempt previous proposed as arbitrary: outs
    rule: run_planned_provider_round.induct)
  case (2 sh planner neg timeout round attempt previous proposed a as)
  show ?case
  proof (intro allI impI)
    fix r response assume x: "x = Inr (r, response)"
    obtain q where q: "planned_request planner neg timeout round attempt previous proposed a = Inr q"
      using 2(2) x by (auto split: sum.splits)
    obtain out where out: "run_text_turn_in_scope sh (at_env a) (at_polls a) q = Some out"
      using 2(2) x q by (auto split: option.splits)
    show "\<exists>failed out. outs = failed @ [out] \<and> to_result out = Inr response \<and> (\<forall>f \<in> set failed. \<exists>e. to_result f = Inl e) \<and>
           finished_usages (atr_events response) = (case atr_usage response of None \<Rightarrow> [] | Some u \<Rightarrow> [u])"
    proof (cases "to_result out")
      case (Inr resp)
      with 2(2) q out x finished_usages_turn[OF out Inr] show ?thesis by (intro exI[of _ "[]"] exI[of _ out]) simp
    next
      case (Inl e)
      with 2(2) q out x obtain outs' where
        rest: "run_planned_provider_round sh planner neg timeout round (saturating_inc32 attempt) (Some e) q as = Some (outs', x)"
          "outs = out # outs'" "final_error timeout e = None"
        by (auto split: option.splits)
      from 2(1)[OF q out Inl rest(3) rest(1)] x obtain failed last where
        "outs' = failed @ [last]" "to_result last = Inr response" "\<forall>f \<in> set failed. \<exists>e. to_result f = Inl e"
        "finished_usages (atr_events response) = (case atr_usage response of None \<Rightarrow> [] | Some u \<Rightarrow> [u])"
        by blast
      with rest(2) Inl show ?thesis by (intro exI[of _ "out # failed"] exI[of _ last]) simp
    qed
  qed
qed simp

section \<open>One pass\<close>

lemma round_part_cases:
  assumes "round_part c attempts inp s = Some (s', d)"
  obtains (failed) turns e where "d = Returns (Inl e)" and "s' = s\<lparr>ls_turns := ls_turns s @ turns\<rparr>"
  | (answered) turns request response where
      "(s', d) = after_round c inp response (s\<lparr>ls_turns := ls_turns s @ turns, ls_request := request\<rparr>)"
      "finished_usages (atr_events response) = reported_usages turns"
      "finished_usages (atr_events response) = (case atr_usage response of None \<Rightarrow> [] | Some u \<Rightarrow> [u])"
      "turns \<noteq> []" "to_result (last turns) = Inr response"
proof -
  from assms obtain turns r where run: "run_planned_provider_round (lc_show c) (lc_planner c) (lc_negotiated c)
      (lc_timeout c) (ls_round s) 0 None (ls_request s) attempts = Some (turns, r)"
    by (auto simp: round_part_def split: option.splits)
  show thesis
  proof (cases r)
    case (Inl e)
    with run assms show thesis by (intro failed) (auto simp: round_part_def Let_def)
  next
    case (Inr x)
    obtain request response where x: "x = (request, response)" by fastforce
    from planned_round[OF run] Inr x obtain bad out where
      ok: "turns = bad @ [out]" "to_result out = Inr response" "\<forall>f \<in> set bad. \<exists>e. to_result f = Inl e"
        "finished_usages (atr_events response) = (case atr_usage response of None \<Rightarrow> [] | Some u \<Rightarrow> [u])"
      by blast
    have "reported_usages bad = []"
      using ok(3) by (induction bad) (auto simp: reported_usages_def turn_usage_def)
    then have "reported_usages turns = (case atr_usage response of None \<Rightarrow> [] | Some u \<Rightarrow> [u])"
      using ok(1,2) by (simp add: reported_usages_append)
        (simp add: reported_usages_def turn_usage_def split: option.split)
    with run assms Inr x ok show thesis
      by (intro answered[where response = response and turns = turns and request = request]) (auto simp: round_part_def Let_def)
  qed
qed

lemma start_batch_RunsBatch:
  assumes "start_batch c inp response calls s = (s', RunsBatch calls')"
  shows "calls' = calls" and "\<not> ls_finalizing s" and "calls \<noteq> []" and "validate_provider_tool_calls calls = Inr ()"
    and "\<exists>g. observe_batch (ls_guard s) calls = (g, Inr ()) \<and> s' = s\<lparr>ls_guard := g,
      ls_messages := append_provider_tool_calls (ls_messages s) (atr_text response) calls\<rparr>"
  using assms by (auto simp: start_batch_def Let_def split: if_splits sum.splits prod.splits)

lemma start_batch_not [simp]:
  "start_batch c inp response calls s \<noteq> (s', Resumes)" "start_batch c inp response calls s \<noteq> (s', Returns (Inr r))"
  by (auto simp: start_batch_def Let_def split: sum.splits prod.splits)

lemmas start_batch_not_sym [simp] = start_batch_not[symmetric]

text \<open>The state with which the decision after a successful provider round is made.\<close>

definition answered_state ::
    "('json, 'data) turn_outcome list \<Rightarrow> ('json, 'data) agent_turn_request \<Rightarrow> ('json, 'data) agent_turn_response
       \<Rightarrow> ('json, 'data) loop_state \<Rightarrow> ('json, 'data) loop_state" where
  "answered_state turns request response s = s\<lparr>ls_turns := ls_turns s @ turns, ls_request := request,
     ls_events := ls_events s @ atr_events response\<rparr>"

lemma answered_finalizing [simp]: "ls_finalizing (answered_state turns request response s) = ls_finalizing s"
  by (simp add: answered_state_def)

lemma answered_batches [simp]: "ls_batches (answered_state turns request response s) = ls_batches s"
  by (simp add: answered_state_def)

lemma after_round_answered:
  "after_round c inp response (s\<lparr>ls_turns := ls_turns s @ turns, ls_request := request\<rparr>) =
     (let s1 = answered_state turns request response s; calls = completed_calls (atr_events response)
      in if (\<not> lc_finalizes c \<or> ls_finalizing s) \<and>
            (case rq_stop_condition request of None \<Rightarrow> False | Some f \<Rightarrow> f (ls_round s) response calls)
         then (s1, Returns (Inr (stopped_agent_response response (ri_elapsed inp) (ls_events s1))))
         else if atr_stop_reason response \<noteq> Some StopToolCall
         then (if lc_finalizes c \<and> \<not> ls_finalizing s
               then (if \<not> ri_transition_emitted inp then (s1, Returns (Inl TurnCancelled))
                     else (begin_finalization c response s1, Resumes))
               else (s1, Returns (Inr (completed_agent_response response (ri_elapsed inp) (ls_events s1)))))
         else start_batch c inp response calls s1)"
  by (simp add: after_round_def answered_state_def Let_def cong: option.case_cong)

lemma round_resumes:
  assumes "round_part c attempts inp s = Some (s', Resumes)"
  obtains turns request response where "s' = begin_finalization c response (answered_state turns request response s)"
    and "lc_finalizes c" and "\<not> ls_finalizing s" and "finished_usages (atr_events response) = reported_usages turns"
    and "turns \<noteq> []" and "to_result (last turns) = Inr response"
  using assms
proof (cases rule: round_part_cases)
  case (answered turns request response)
  then have "s' = begin_finalization c response (answered_state turns request response s) \<and> lc_finalizes c \<and> \<not> ls_finalizing s"
    unfolding after_round_answered by (auto simp: Let_def split: if_splits)
  with answered(2,4,5) show thesis by (intro that[where response = response and turns = turns and request = request]) simp_all
qed simp

lemma round_batch:
  assumes "round_part c attempts inp s = Some (s', RunsBatch calls)"
  obtains turns request response g where
    "s' = (answered_state turns request response s)\<lparr>ls_guard := g,
       ls_messages := append_provider_tool_calls (ls_messages s) (atr_text response) calls\<rparr>"
    and "observe_batch (ls_guard s) calls = (g, Inr ())" and "\<not> ls_finalizing s" and "calls \<noteq> []"
    and "validate_provider_tool_calls calls = Inr ()" and "calls = completed_calls (atr_events response)"
    and "finished_usages (atr_events response) = reported_usages turns"
  using assms
proof (cases rule: round_part_cases)
  case (answered turns request response)
  let ?s = "answered_state turns request response s"
  have "start_batch c inp response (completed_calls (atr_events response)) ?s = (s', RunsBatch calls)"
    using answered(1) unfolding after_round_answered by (auto simp: Let_def split: if_splits)
  from start_batch_RunsBatch[OF this] answered(2) show thesis
    by (auto simp: answered_state_def intro: that[where response = response and turns = turns and request = request])
qed simp

lemma round_returns_batches:
  assumes "round_part c attempts inp s = Some (s', Returns r)"
  shows "ls_batches s' = ls_batches s"
  using assms
proof (cases rule: round_part_cases)
  case (answered turns request response)
  then show ?thesis
    by (auto simp: after_round_def start_batch_def Let_def split: if_splits sum.splits prod.splits)
qed simp

lemma round_returns:
  assumes "round_part c attempts inp s = Some (s', Returns (Inr resp))"
  obtains turns request response reason where "s' = answered_state turns request response s"
    and "resp = agent_response reason response (ri_elapsed inp) (ls_events s')"
    and "finished_usages (atr_events response) = reported_usages turns"
    and "finished_usages (atr_events response) = (case atr_usage response of None \<Rightarrow> [] | Some u \<Rightarrow> [u])"
  using assms
proof (cases rule: round_part_cases)
  case (answered turns request response)
  let ?s = "answered_state turns request response s"
  from answered(1) have "s' = ?s \<and> (\<exists>reason. resp = agent_response reason response (ri_elapsed inp) (ls_events ?s))"
    unfolding after_round_answered
    by (auto simp: Let_def completed_agent_response_def stopped_agent_response_def split: if_splits)
  with answered(2,3) show thesis by (auto intro: that)
qed simp

section \<open>The invariant\<close>

lemma conversation_tail: "conversation start batches [] messages \<Longrightarrow> conversation start batches t (messages @ t)"
  by (auto simp: conversation_def)

text \<open>What the finalization round adds: the last answer, if it has a text, and the instruction.\<close>

definition finalization_tail :: "('json, 'data) agent_turn_response \<Rightarrow> ('json, 'data) model_message list" where
  "finalization_tail response =
     (if atr_text response = [] then []
      else [\<lparr>msg_role = AssistantRole, msg_content = [TextBlock (atr_text response)]\<rparr>])
     @ [user_text finalization_instruction]"

definition pending_tail :: "('json, 'data) loop_state \<Rightarrow> ('json, 'data) model_message list \<Rightarrow> bool" where
  "pending_tail s t \<longleftrightarrow>
     (if ls_finalizing s
      then ls_turns s \<noteq> [] \<and> (\<exists>response. to_result (last (ls_turns s)) = Inr response \<and> t = finalization_tail response)
      else t = [])"

lemma begin_finalization_facts:
  fixes response :: "('json, 'data) agent_turn_response"
  assumes "s' = begin_finalization c response s"
  shows "ls_messages s' = ls_messages s @ finalization_tail response" and "initial_loop_messages (ls_request s') = ls_messages s'"
    and "rq_tools (ls_request s') = []" and "tcp_choice (rq_tool_call_policy (ls_request s')) = ChoiceNone"
    and "rq_structured_output (ls_request s') = lc_structured_output c" and "ls_finalizing s'"
    and "ls_events s' = ls_events s @ [StructuredOutputFinalizationStarted]" and "ls_turns s' = ls_turns s"
    and "ls_batches s' = ls_batches s" and "ls_rounds s' = ls_rounds s" and "ls_guard s' = ls_guard s"
  by (simp_all add: assms begin_finalization_def Let_def initial_loop_messages_def finalization_tail_def)

definition loop_inv ::
    "('json, 'data) loop_config \<Rightarrow> ('json, 'data) agent_turn_request \<Rightarrow> nat \<Rightarrow> ('json, 'data) loop_state \<Rightarrow> bool" where
  "loop_inv c request n s \<longleftrightarrow>
     n = length (ls_batches s) + (if ls_finalizing s then 1 else 0) \<and>
     max_tool_rounds (ls_rounds s) = rq_max_tool_rounds request \<and>
     unat (completed_rounds (ls_rounds s)) = length (ls_batches s) \<and>
     length (ls_batches s) \<le> unat (rq_max_tool_rounds request) \<and>
     guard_ok (rq_max_repeated_tool_batches request) (ls_guard s) (map (semantic_batch \<circ> fst) (ls_batches s)) \<and>
     (\<exists>t. conversation (initial_loop_messages request) (map fst (ls_batches s)) t (ls_messages s) \<and> pending_tail s t) \<and>
     initial_loop_messages (ls_request s) = ls_messages s \<and>
     finished_usages (ls_events s) = reported_usages (ls_turns s) \<and>
     (ls_finalizing s \<longrightarrow> lc_finalizes c \<and> rq_tools (ls_request s) = [] \<and>
        tcp_choice (rq_tool_call_policy (ls_request s)) = ChoiceNone \<and>
        rq_structured_output (ls_request s) = lc_structured_output c)"

lemma loop_inv_init: "loop_inv c request 0 (loop_init options request)"
  using conversation_start[of "initial_loop_messages request" "[]"]
  by (auto simp: loop_inv_def loop_init_def Let_def round_state_new_def guard_ok_new initial_loop_messages_def
      finished_usages_def reported_usages_def pending_tail_def)

lemma loop_inv_step:
  assumes inv: "loop_inv c request n s" and step: "loop_step c s (Again s')"
  shows "loop_inv c request (Suc n) s' \<and> \<not> ls_finalizing s"
  using step
proof (cases rule: loop_step.cases)
  case (loop_finalizes attempts inp)
  from round_resumes[OF loop_finalizes] obtain turns rq response where
    s': "s' = begin_finalization c response (answered_state turns rq response s)"
    and fin: "lc_finalizes c" "\<not> ls_finalizing s" and us: "finished_usages (atr_events response) = reported_usages turns"
    and turn: "turns \<noteq> []" "to_result (last turns) = Inr response"
    by metis
  from inv fin(2) have conv: "conversation (initial_loop_messages request) (map fst (ls_batches s)) [] (ls_messages s)"
    by (auto simp: loop_inv_def pending_tail_def)
  note f = begin_finalization_facts[OF s', unfolded answered_state_def, simplified, folded answered_state_def]
  have "finished_usages [StructuredOutputFinalizationStarted :: ('a, 'b) agent_runtime_event] = []"
    by (rule finished_usages_none) auto
  then have "finished_usages (ls_events s') = reported_usages (ls_turns s')"
    using inv us by (simp add: f loop_inv_def finished_usages_append reported_usages_append)
  moreover have "pending_tail s' (finalization_tail response)" using turn f(6,8) by (simp add: pending_tail_def)
  with conversation_tail[OF conv, of "finalization_tail response"] f(1) have
    "\<exists>t. conversation (initial_loop_messages request) (map fst (ls_batches s)) t (ls_messages s') \<and> pending_tail s' t"
    by auto
  ultimately show ?thesis using inv fin f(2-6,9-11) by (simp add: loop_inv_def)
next
  case (loop_continues attempts inp s1 calls env rounds batch invoked aenv messages events)
  from round_batch[OF loop_continues(2)] obtain turns rq response g where
    s1: "s1 = (answered_state turns rq response s)\<lparr>ls_guard := g,
       ls_messages := append_provider_tool_calls (ls_messages s) (atr_text response) calls\<rparr>"
    and g: "observe_batch (ls_guard s) calls = (g, Inr ())" and nf: "\<not> ls_finalizing s" and ne: "calls \<noteq> []"
    and us: "finished_usages (atr_events response) = reported_usages turns"
    by metis
  have br: "begin_round (ls_rounds s) = Inr rounds"
    using batch_rounds[OF loop_continues(4) ne] by (simp add: s1 answered_state_def)
  from batch_messages[OF loop_continues(4,5)] obtain results new where
    ms: "messages = ls_messages s1 @ map tool_message results" "map res_call_id results = map call_id calls"
      "events = ls_events s1 @ map ToolResult new"
    by blast
  have r: "unat (completed_rounds rounds) = length (ls_batches s) + 1"
    "length (ls_batches s) + 1 \<le> unat (rq_max_tool_rounds request)" "max_tool_rounds rounds = rq_max_tool_rounds request"
    using begin_round_bound[OF br] inv by (auto simp: loop_inv_def)
  have gd: "guard_ok (rq_max_repeated_tool_batches request) g (map (semantic_batch \<circ> fst) (ls_batches s) @ [semantic_batch calls])"
    using guard_ok_observe[OF _ g] inv by (simp add: loop_inv_def)
  have conv: "conversation (initial_loop_messages request) (map fst (ls_batches s) @ [calls]) [] messages"
    using conversation_batch[OF _ ms(2)] inv nf by (auto simp: loop_inv_def pending_tail_def ms(1) s1 answered_state_def)
  have "finished_usages (map ToolResult new :: ('a, 'b) agent_runtime_event list) = []"
    by (rule finished_usages_none) auto
  then have ev: "finished_usages events = reported_usages (ls_turns s @ turns)"
    using inv us by (simp add: ms(3) s1 answered_state_def finished_usages_append reported_usages_append loop_inv_def)
  show ?thesis
    using inv nf r gd conv ev
    by (simp add: loop_inv_def pending_tail_def loop_continues(1) after_batch_def s1 answered_state_def
        initial_loop_messages_def)
qed

lemma loop_reaches_inv: "loop_reaches c s0 n s \<Longrightarrow> s0 = loop_init options request \<Longrightarrow> loop_inv c request n s"
  by (induction rule: loop_reaches.induct) (auto simp: loop_inv_init dest: loop_inv_step)

text \<open>The answer of a loop: every event, and the usage of every round that reported one.\<close>

lemma loop_answer:
  assumes inv: "loop_inv c request n s" and step: "loop_step c s (Done s' (Inr resp))"
  shows "atr_events resp = ls_events s'" and "atr_usage resp = aggregate_finished_usage (ls_events s')"
    and "finished_usages (ls_events s') = reported_usages (ls_turns s')"
proof -
  from step obtain attempts inp where "round_part c attempts inp s = Some (s', Returns (Inr resp))"
    by (cases rule: loop_stepE) auto
  from round_returns[OF this] obtain turns rq response reason where
    s': "s' = answered_state turns rq response s"
    and resp: "resp = agent_response reason response (ri_elapsed inp) (ls_events s')"
    and us: "finished_usages (atr_events response) = reported_usages turns"
      "finished_usages (atr_events response) = (case atr_usage response of None \<Rightarrow> [] | Some u \<Rightarrow> [u])"
    by metis
  show "atr_events resp = ls_events s'" by (simp add: resp agent_response_def)
  show "finished_usages (ls_events s') = reported_usages (ls_turns s')"
    using inv us(1) by (simp add: s' answered_state_def finished_usages_append reported_usages_append loop_inv_def)
  have "atr_usage response = None" if "finished_usages (ls_events s') = []"
    using that us(2) by (auto simp: s' answered_state_def finished_usages_append split: option.splits)
  then show "atr_usage resp = aggregate_finished_usage (ls_events s')"
    by (auto simp: resp agent_response_def aggregate_finished_usage_def Let_def)
qed

end
