(* ===== verification/Governed_Loop.thy ===== *)
theory Governed_Loop
  imports Governed_Batch Loop_Invariants
begin

text \<open>
  The agent loop under a coordinator: what a gate does not permit is never invoked by any batch of
  the loop, however many rounds it makes.
\<close>

lemma loop_batches_authorized:
  assumes "loop_reaches c s0 n s" and "ls_batches s0 = []"
  shows "\<forall>(calls, invoked) \<in> set (ls_batches s). distinct (indices invoked) \<and>
    (\<forall>p \<in> set invoked. \<exists>env. batch_of c env \<and> call_authorized env calls p)"
  using assms
proof (induction rule: loop_reaches.induct)
  case (reach_again n s s')
  from reach_again(2) show ?case
  proof (cases rule: loop_step.cases)
    case (loop_finalizes attempts inp)
    have "ls_batches s' = ls_batches s"
      by (rule round_resumes[OF loop_finalizes]) (simp add: begin_finalization_facts(9)[OF refl])
    with reach_again show ?thesis by simp
  next
    case (loop_continues attempts inp s1 calls env rounds batch invoked aenv messages events)
    have "ls_batches s1 = ls_batches s" by (rule round_batch[OF loop_continues(2)]) simp
    with loop_continues(1) have "ls_batches s' = ls_batches s @ [(calls, invoked)]" by (simp add: after_batch_def)
    with reach_again batch_run_authorized[OF loop_continues(4)] loop_continues(3) show ?thesis by auto
  qed
qed simp

text \<open>The batch of the pass that ends the loop, however it ends, is no exception.\<close>

lemma ended_batches_authorized:
  assumes "loop_step c s (Done t r)"
    and "\<forall>(calls, invoked) \<in> set (ls_batches s). distinct (indices invoked) \<and>
      (\<forall>p \<in> set invoked. \<exists>env. batch_of c env \<and> call_authorized env calls p)"
  shows "\<forall>(calls, invoked) \<in> set (ls_batches t). distinct (indices invoked) \<and>
    (\<forall>p \<in> set invoked. \<exists>env. batch_of c env \<and> call_authorized env calls p)"
  using assms(1)
proof (cases rule: loop_step.cases)
  case (loop_returns attempts inp)
  with round_returns_batches[OF loop_returns] assms(2) show ?thesis by simp
next
  case (loop_interrupted attempts inp s' calls env rounds before current e)
  have "ls_batches s' = ls_batches s" by (rule round_batch[OF loop_interrupted(3)]) simp
  with assms(2) batch_moment_authorized[OF loop_interrupted(5)] loop_interrupted(1,4) show ?thesis
    by (auto simp: record_batch_def)
next
  case (loop_batch_failed attempts inp s' calls env rounds e invoked)
  have "ls_batches s' = ls_batches s" by (rule round_batch[OF loop_batch_failed(3)]) simp
  with assms(2) batch_run_authorized[OF loop_batch_failed(5)] loop_batch_failed(1,4) show ?thesis
    by (auto simp: record_batch_def)
next
  case (loop_results_refused attempts inp s' calls env rounds batch invoked aenv messages events e)
  have "ls_batches s' = ls_batches s" by (rule round_batch[OF loop_results_refused(3)]) simp
  with assms(2) batch_run_authorized[OF loop_results_refused(5)] loop_results_refused(1,4) show ?thesis
    by (auto simp: after_batch_def)
qed

text \<open>The states of a loop: after full passes, or after the pass that ended it.\<close>

definition loop_state_of ::
    "('json, 'data) loop_config \<Rightarrow> ('json, 'data) loop_state \<Rightarrow> ('json, 'data) loop_state \<Rightarrow> bool" where
  "loop_state_of c s0 t \<longleftrightarrow> (\<exists>n s. loop_reaches c s0 n s \<and> (t = s \<or> (\<exists>r. loop_step c s (Done t r))))"

lemma loop_state_authorized:
  assumes "loop_state_of c (loop_init options request) t" and "(calls, invoked) \<in> set (ls_batches t)" and "p \<in> set invoked"
  shows "\<exists>env. batch_of c env \<and> call_authorized env calls p"
proof -
  from assms(1) obtain n s where s: "loop_reaches c (loop_init options request) n s"
    "t = s \<or> (\<exists>r. loop_step c s (Done t r))" by (auto simp: loop_state_of_def)
  have "ls_batches (loop_init options request) = []" by (simp add: loop_init_def Let_def)
  note reached = loop_batches_authorized[OF s(1) this]
  from s(2) have "\<forall>(calls, invoked) \<in> set (ls_batches t). distinct (indices invoked) \<and>
      (\<forall>p \<in> set invoked. \<exists>env. batch_of c env \<and> call_authorized env calls p)"
    using reached ended_batches_authorized[OF _ reached] by blast
  with assms(2,3) show ?thesis by blast
qed

context authorization_gate
begin

lemma loop_permitted:
  assumes "lc_authorize c = authorize" and "loop_state_of c (loop_init options request) t"
    and "(calls, invoked) \<in> set (ls_batches t)" and "p \<in> set invoked"
  shows "permits (authorization_request_of (lc_context c) p)"
proof -
  from loop_state_authorized[OF assms(2-4)] obtain env where "batch_of c env" "call_authorized env calls p" by blast
  with call_permitted[of env calls p] assms(1) show ?thesis by (simp add: batch_of_def)
qed

end

text \<open>Under the plan agent the loop never invokes a tool that declares itself mutating.\<close>

lemma plan_agent_loop:
  assumes "lc_authorize c = authorize_with_permission_policy (permission_policy_evaluate penv from_json policy)"
    and "loop_state_of c (loop_init options request) t" and "(calls, invoked) \<in> set (ls_batches t)" and "p \<in> set invoked"
    and "app_config policy = plan_agent_config"
  shows "\<exists>m. tool_policy_authorization_metadata_of from_json
      (pr_authorization (pti_preparation (pc_invocation p))) (call_name (pc_call p)) = Inr m \<and>
    meta_operation m \<noteq> Mutating \<and> (\<forall>paths category. meta_operation m \<noteq> Write paths category)"
  by (rule plan_agent_permits[OF profile_gate.loop_permitted[OF assms(1-4)] assms(5)])

end
