(* ===== verification/Turn_Lifecycle.thy ===== *)
theory Turn_Lifecycle
  imports Runtime_Models
begin

text \<open>
  Turn scopes (\<open>packages/agent-runtime/src/turn.rs\<close>): the owner that allocates generations and
  knows the active turn, the shared control of a turn with its lifecycle, cancellation handles and
  counters, and the gates that events must pass.

  \<open>Arc<TurnControl>\<close> values live in a store, a scope names its control by its place there. Each
  operation is atomic where the code holds the owner's lock or the publication gate; an emission
  is two steps, because the code checks the generation before it takes the gate. Handles (\<open>'h\<close>) and
  events (\<open>'e\<close>) are opaque; of an invocation's lifecycle event the control reads and sets only the
  stage, which is kept beside it. \<open>signalled\<close> lists the handles whose \<open>request_cancel\<close> has been
  called, \<open>published\<close> everything that the sinks of the turns have taken and every committed artifact.
\<close>

section \<open>Control of one turn\<close>

datatype turn_lifecycle = Running | Cancelling | Cancelled | Completed

definition lifecycle_decode :: "8 word \<Rightarrow> turn_lifecycle" where
  "lifecycle_decode n = (if n = 0 then Running else if n = 1 then Cancelling else if n = 3 then Completed else Cancelled)"

definition lifecycle_encode :: "turn_lifecycle \<Rightarrow> 8 word" where
  "lifecycle_encode l = (case l of Running \<Rightarrow> 0 | Cancelling \<Rightarrow> 1 | Cancelled \<Rightarrow> 2 | Completed \<Rightarrow> 3)"

record 'h turn_control =
  tc_lifecycle :: turn_lifecycle
  tc_cancelled :: bool
  tc_cancellations :: "(ustring, 'h) btree"
  tc_queued_cancellations :: u64
  tc_running_cancellations :: u64
  tc_discarded_events :: u64

definition control_new :: "'h turn_control" where
  "control_new = \<lparr>tc_lifecycle = Running, tc_cancelled = False, tc_cancellations = [],
     tc_queued_cancellations = 0, tc_running_cancellations = 0, tc_discarded_events = 0\<rparr>"

definition accepts_normal_output :: "'h turn_control \<Rightarrow> bool" where
  "accepts_normal_output c \<longleftrightarrow> tc_lifecycle c = Running \<and> \<not> tc_cancelled c"

text \<open>The second component: the handles to signal, or nothing if this was not the transition.\<close>

definition close_for_cancellation :: "'h turn_control \<Rightarrow> 'h turn_control \<times> 'h list option" where
  "close_for_cancellation c =
     (if tc_lifecycle c \<noteq> Running then (c, None)
      else (c\<lparr>tc_lifecycle := Cancelling, tc_cancelled := True, tc_cancellations := []\<rparr>,
            Some (map snd (tc_cancellations c))))"

text \<open>New control, handles signalled by the call, its return value.\<close>

definition begin_cancellation :: "'h turn_control \<Rightarrow> 'h turn_control \<times> 'h list \<times> bool" where
  "begin_cancellation c =
     (case close_for_cancellation c of
        (c', None) \<Rightarrow> (c', [], False)
      | (c', Some handles) \<Rightarrow> (c', handles, True))"

definition mark_cancelled :: "'h turn_control \<Rightarrow> 'h turn_control \<times> bool" where
  "mark_cancelled c =
     (if tc_lifecycle c = Cancelling then (c\<lparr>tc_lifecycle := Cancelled\<rparr>, True) else (c, False))"

definition complete_control :: "'h turn_control \<Rightarrow> 'h turn_control \<times> bool" where
  "complete_control c =
     (if tc_lifecycle c = Running then (c\<lparr>tc_lifecycle := Completed\<rparr>, True) else (c, False))"

definition register_cancellation ::
    "ustring \<Rightarrow> 'h \<Rightarrow> 'h turn_control \<Rightarrow> 'h turn_control \<times> 'h list \<times> bool" where
  "register_cancellation invocation_id h c =
     (if tc_lifecycle c \<noteq> Running then (c, [h], False)
      else (c\<lparr>tc_cancellations := bt_insert invocation_id h (tc_cancellations c)\<rparr>, [], True))"

definition unregister_cancellation :: "ustring \<Rightarrow> 'h turn_control \<Rightarrow> 'h turn_control \<times> bool" where
  "unregister_cancellation invocation_id c =
     (c\<lparr>tc_cancellations := filter (\<lambda>(k, _). k \<noteq> invocation_id) (tc_cancellations c)\<rparr>,
      bt_get (tc_cancellations c) invocation_id \<noteq> None)"

definition usize_to_u64_saturating :: "nat \<Rightarrow> u64" where
  "usize_to_u64_saturating n = of_nat (min n (2 ^ 64 - 1))"

definition record_queued_cancellations :: "nat \<Rightarrow> 'h turn_control \<Rightarrow> 'h turn_control" where
  "record_queued_cancellations n c =
     c\<lparr>tc_queued_cancellations := tc_queued_cancellations c + usize_to_u64_saturating n\<rparr>"

definition record_running_cancellations :: "nat \<Rightarrow> 'h turn_control \<Rightarrow> 'h turn_control" where
  "record_running_cancellations n c =
     c\<lparr>tc_running_cancellations := tc_running_cancellations c + usize_to_u64_saturating n\<rparr>"

text \<open>
  Lifecycle bookkeeping of an invocation: the stage with which its event is handed to the sink, if
  it is. The terminal event of a cancelled turn becomes \<open>Cancelled\<close>; the bookkeeping of a
  cancellation passes only once normal output has closed.
\<close>

datatype tool_invocation_lifecycle_stage =
  StageStarted | StageProgress | StageWaiting | StageCompleted | StageCancelled | StageFailed

definition control_emit_invocation_terminal ::
    "tool_invocation_lifecycle_stage \<Rightarrow> 'h turn_control \<Rightarrow> tool_invocation_lifecycle_stage option" where
  "control_emit_invocation_terminal stage c =
     (case tc_lifecycle c of
        Running \<Rightarrow> if stage \<in> {StageCompleted, StageFailed} then Some stage else None
      | Completed \<Rightarrow> None
      | _ \<Rightarrow> Some StageCancelled)"

definition control_emit_cancellation_lifecycle ::
    "tool_invocation_lifecycle_stage \<Rightarrow> 'h turn_control \<Rightarrow> tool_invocation_lifecycle_stage option" where
  "control_emit_cancellation_lifecycle stage c =
     (if tc_lifecycle c \<notin> {Cancelling, Cancelled} \<or> stage \<noteq> StageCancelled then None else Some stage)"

definition record_discarded_normal_event :: "'h turn_control \<Rightarrow> 'h turn_control" where
  "record_discarded_normal_event c = c\<lparr>tc_discarded_events := tc_discarded_events c + 1\<rparr>"

section \<open>The owner\<close>

record turn_scope =
  scope_generation :: u64
  scope_control :: nat

datatype 'e publication =
    NormalEvent 'e
  | CommittedArtifact 'e
  | InvocationEnd tool_invocation_lifecycle_stage 'e

record ('h, 'e) turn_world =
  next_generation :: u64
  active_generation :: u64
  active_control :: "nat option"
  controls :: "'h turn_control list"
  scopes :: "turn_scope list"
  signalled :: "'h list"
  pending :: "(nat \<times> 'e) list"
  pending_ends :: "(nat \<times> tool_invocation_lifecycle_stage \<times> 'e) list"
  published :: "(u64 \<times> 'e publication) list"

definition owner_new :: "('h, 'e) turn_world" where
  "owner_new = \<lparr>next_generation = 1, active_generation = 0, active_control = None, controls = [],
     scopes = [], signalled = [], pending = [], pending_ends = [], published = []\<rparr>"

definition put_control :: "nat \<Rightarrow> 'h turn_control \<Rightarrow> ('h, 'e) turn_world \<Rightarrow> ('h, 'e) turn_world" where
  "put_control k c w = w\<lparr>controls := (controls w)[k := c]\<rparr>"

text \<open>
  \<open>begin_turn\<close>. Exhausting the generations panics after the previous turn has been closed; its
  handles are then dropped unsignalled.
\<close>

definition close_active :: "('h, 'e) turn_world \<Rightarrow> ('h, 'e) turn_world \<times> 'h list" where
  "close_active w =
     (case active_control w of
        None \<Rightarrow> (w, [])
      | Some k \<Rightarrow>
          (case close_for_cancellation (controls w ! k) of
             (c, handles) \<Rightarrow> (put_control k c w, case handles of None \<Rightarrow> [] | Some hs \<Rightarrow> hs)))"

definition begin_turn :: "('h, 'e) turn_world \<Rightarrow> ('h, 'e) turn_world \<times> turn_scope option" where
  "begin_turn w =
     (case close_active w of
        (w1, handles) \<Rightarrow>
          if next_generation w1 = - 1 then (w1, None)
          else (let generation = next_generation w1;
                    k = length (controls w1);
                    scope = \<lparr>scope_generation = generation, scope_control = k\<rparr>
                in (w1\<lparr>next_generation := generation + 1, active_generation := generation,
                       active_control := Some k, controls := controls w1 @ [control_new],
                       scopes := scopes w1 @ [scope], signalled := signalled w1 @ handles\<rparr>,
                    Some scope)))"

definition active_turn_generation :: "('h, 'e) turn_world \<Rightarrow> u64 option" where
  "active_turn_generation w = (if active_generation w \<noteq> 0 then Some (active_generation w) else None)"

definition is_active :: "turn_scope \<Rightarrow> ('h, 'e) turn_world \<Rightarrow> bool" where
  "is_active scope w \<longleftrightarrow> active_control w = Some (scope_control scope) \<and>
     scope_generation scope = active_generation w"

definition cancel_turn :: "turn_scope \<Rightarrow> ('h, 'e) turn_world \<Rightarrow> ('h, 'e) turn_world \<times> bool" where
  "cancel_turn scope w =
     (if \<not> is_active scope w then (w, False)
      else (case close_for_cancellation (controls w ! scope_control scope) of
              (c, None) \<Rightarrow> (w, False)
            | (c, Some handles) \<Rightarrow>
                ((put_control (scope_control scope) c w)\<lparr>signalled := signalled w @ handles\<rparr>, True)))"

definition clear_active :: "('h, 'e) turn_world \<Rightarrow> ('h, 'e) turn_world" where
  "clear_active w = w\<lparr>active_control := None, active_generation := 0\<rparr>"

definition complete_turn :: "turn_scope \<Rightarrow> ('h, 'e) turn_world \<Rightarrow> ('h, 'e) turn_world \<times> bool" where
  "complete_turn scope w =
     (if \<not> is_active scope w then (w, False)
      else (case complete_control (controls w ! scope_control scope) of
              (c, False) \<Rightarrow> (w, False)
            | (c, True) \<Rightarrow> (clear_active (put_control (scope_control scope) c w), True)))"

definition release_terminal_turn :: "turn_scope \<Rightarrow> ('h, 'e) turn_world \<Rightarrow> ('h, 'e) turn_world \<times> bool" where
  "release_terminal_turn scope w =
     (if is_active scope w \<and>
         tc_lifecycle (controls w ! scope_control scope) \<in> {Cancelled, Completed}
      then (clear_active w, True) else (w, False))"

text \<open>\<open>TurnScope::accepts_work\<close> of a scope that an owner has made.\<close>

definition accepts_work :: "turn_scope \<Rightarrow> ('h, 'e) turn_world \<Rightarrow> bool" where
  "accepts_work scope w \<longleftrightarrow> active_generation w = scope_generation scope \<and>
     accepts_normal_output (controls w ! scope_control scope)"

section \<open>Runs\<close>

text \<open>
  \<open>TurnScope::emit\<close> in two steps: the check, and the publication under the gate. \<open>taken\<close> is the
  answer of the sink.
\<close>

definition emit_check :: "nat \<Rightarrow> 'e \<Rightarrow> ('h, 'e) turn_world \<Rightarrow> ('h, 'e) turn_world" where
  "emit_check k e w =
     (if accepts_work (scopes w ! k) w then w\<lparr>pending := pending w @ [(k, e)]\<rparr>
      else put_control (scope_control (scopes w ! k))
             (record_discarded_normal_event (controls w ! scope_control (scopes w ! k))) w)"

definition emit_publish :: "nat \<Rightarrow> bool \<Rightarrow> ('h, 'e) turn_world \<Rightarrow> ('h, 'e) turn_world" where
  "emit_publish i taken w =
     (let (k, e) = pending w ! i;
          scope = scopes w ! k;
          c = controls w ! scope_control scope;
          w' = w\<lparr>pending := take i (pending w) @ drop (Suc i) (pending w)\<rparr>
      in if tc_lifecycle c \<noteq> Running
         then put_control (scope_control scope) (record_discarded_normal_event c) w'
         else if taken then w'\<lparr>published := published w @ [(scope_generation scope, NormalEvent e)]\<rparr> else w')"

text \<open>
  \<open>TurnScope::emit_invocation_terminal\<close>: the generation is checked before the gate is taken, under
  which the lifecycle decides on the stage. \<open>TurnScope::emit_cancellation_lifecycle\<close> checks no
  generation.
\<close>

definition terminal_check ::
    "nat \<Rightarrow> tool_invocation_lifecycle_stage \<Rightarrow> 'e \<Rightarrow> ('h, 'e) turn_world \<Rightarrow> ('h, 'e) turn_world" where
  "terminal_check k stage e w =
     (if active_generation w = scope_generation (scopes w ! k)
      then w\<lparr>pending_ends := pending_ends w @ [(k, stage, e)]\<rparr>
      else put_control (scope_control (scopes w ! k))
             (record_discarded_normal_event (controls w ! scope_control (scopes w ! k))) w)"

definition publish_end ::
    "nat \<Rightarrow> tool_invocation_lifecycle_stage option \<Rightarrow> 'e \<Rightarrow> bool \<Rightarrow> ('h, 'e) turn_world \<Rightarrow> ('h, 'e) turn_world" where
  "publish_end k stage e taken w =
     (case stage of
        None \<Rightarrow> w
      | Some st \<Rightarrow>
          if taken then w\<lparr>published := published w @ [(scope_generation (scopes w ! k), InvocationEnd st e)]\<rparr>
          else w)"

definition terminal_publish :: "nat \<Rightarrow> bool \<Rightarrow> ('h, 'e) turn_world \<Rightarrow> ('h, 'e) turn_world" where
  "terminal_publish i taken w =
     (let (k, stage, e) = pending_ends w ! i;
          w' = w\<lparr>pending_ends := take i (pending_ends w) @ drop (Suc i) (pending_ends w)\<rparr>
      in publish_end k (control_emit_invocation_terminal stage (controls w ! scope_control (scopes w ! k))) e taken w')"

definition cancellation_publish ::
    "nat \<Rightarrow> tool_invocation_lifecycle_stage \<Rightarrow> 'e \<Rightarrow> bool \<Rightarrow> ('h, 'e) turn_world \<Rightarrow> ('h, 'e) turn_world" where
  "cancellation_publish k stage e taken w =
     publish_end k (control_emit_cancellation_lifecycle stage (controls w ! scope_control (scopes w ! k))) e taken w"

text \<open>
  \<open>ArtifactCommitGuard::commit\<close>: one step, the gate is held around the check and the closure. The
  artifact enters the same log as the events.
\<close>

definition commit_artifact :: "nat \<Rightarrow> 'e \<Rightarrow> ('h, 'e) turn_world \<Rightarrow> ('h, 'e) turn_world \<times> bool" where
  "commit_artifact k a w =
     (if accepts_work (scopes w ! k) w
      then (w\<lparr>published := published w @ [(scope_generation (scopes w ! k), CommittedArtifact a)]\<rparr>, True)
      else (w, False))"

inductive turn_step :: "('h, 'e) turn_world \<Rightarrow> ('h, 'e) turn_world \<Rightarrow> bool" where
  turn_begins: "turn_step w (fst (begin_turn w))"
| turn_cancelled: "k < length (scopes w) \<Longrightarrow> turn_step w (fst (cancel_turn (scopes w ! k) w))"
| turn_completed: "k < length (scopes w) \<Longrightarrow> turn_step w (fst (complete_turn (scopes w ! k) w))"
| turn_released: "k < length (scopes w) \<Longrightarrow> turn_step w (fst (release_terminal_turn (scopes w ! k) w))"
| control_cancelled: "k < length (controls w) \<Longrightarrow> begin_cancellation (controls w ! k) = (c, hs, b) \<Longrightarrow>
    turn_step w ((put_control k c w)\<lparr>signalled := signalled w @ hs\<rparr>)"
| control_marked: "k < length (controls w) \<Longrightarrow>
    turn_step w (put_control k (fst (mark_cancelled (controls w ! k))) w)"
| control_completed: "k < length (controls w) \<Longrightarrow>
    turn_step w (put_control k (fst (complete_control (controls w ! k))) w)"
| token_cancelled: "k < length (controls w) \<Longrightarrow>
    turn_step w (put_control k ((controls w ! k)\<lparr>tc_cancelled := True\<rparr>) w)"
| handle_registered: "k < length (controls w) \<Longrightarrow>
    register_cancellation i h (controls w ! k) = (c, hs, b) \<Longrightarrow>
    turn_step w ((put_control k c w)\<lparr>signalled := signalled w @ hs\<rparr>)"
| handle_unregistered: "k < length (controls w) \<Longrightarrow>
    turn_step w (put_control k (fst (unregister_cancellation i (controls w ! k))) w)"
| event_checked: "k < length (scopes w) \<Longrightarrow> turn_step w (emit_check k e w)"
| event_published: "i < length (pending w) \<Longrightarrow> turn_step w (emit_publish i taken w)"
| terminal_checked: "k < length (scopes w) \<Longrightarrow> turn_step w (terminal_check k stage e w)"
| terminal_published: "i < length (pending_ends w) \<Longrightarrow> turn_step w (terminal_publish i taken w)"
| cancellation_published: "k < length (scopes w) \<Longrightarrow> turn_step w (cancellation_publish k stage e taken w)"
| artifact_committed: "k < length (scopes w) \<Longrightarrow> turn_step w (fst (commit_artifact k a w))"

inductive turn_reachable :: "('h, 'e) turn_world \<Rightarrow> bool" where
  reachable_new: "turn_reachable owner_new"
| reachable_step: "turn_reachable w \<Longrightarrow> turn_step w w' \<Longrightarrow> turn_reachable w'"

inductive_cases turn_stepE: "turn_step w w'"

section \<open>Invariants\<close>

lemma lifecycle_roundtrip: "lifecycle_decode (lifecycle_encode l) = l"
  by (cases l) (simp_all add: lifecycle_decode_def lifecycle_encode_def)

definition lifecycle_step :: "turn_lifecycle \<Rightarrow> turn_lifecycle \<Rightarrow> bool" where
  "lifecycle_step a b \<longleftrightarrow> a = b \<or> a = Running \<and> b \<in> {Cancelling, Completed} \<or> a = Cancelling \<and> b = Cancelled"

text \<open>A change of one control that respects the lifecycle and holds no handle once cancelled.\<close>

definition control_step :: "'h turn_control \<Rightarrow> 'h turn_control \<Rightarrow> bool" where
  "control_step c c' \<longleftrightarrow> lifecycle_step (tc_lifecycle c) (tc_lifecycle c') \<and>
     ((tc_lifecycle c \<in> {Cancelling, Cancelled} \<longrightarrow> tc_cancellations c = []) \<longrightarrow>
      tc_lifecycle c' \<in> {Cancelling, Cancelled} \<longrightarrow> tc_cancellations c' = [])"

lemma control_step_refl [simp]: "control_step c c"
  by (simp add: control_step_def lifecycle_step_def)

lemma control_steps:
  "close_for_cancellation c = (c', hs) \<Longrightarrow> control_step c c'"
  "begin_cancellation c = (c', ss, b) \<Longrightarrow> control_step c c'"
  "control_step c (fst (mark_cancelled c))"
  "complete_control c = (c', b) \<Longrightarrow> control_step c c'"
  "control_step c (c\<lparr>tc_cancelled := True\<rparr>)"
  "register_cancellation i h c = (c', ss, b) \<Longrightarrow> control_step c c'"
  "control_step c (fst (unregister_cancellation i c))"
  "control_step c (record_discarded_normal_event c)"
  by (auto simp: control_step_def lifecycle_step_def close_for_cancellation_def begin_cancellation_def
      mark_cancelled_def complete_control_def register_cancellation_def unregister_cancellation_def
      record_discarded_normal_event_def split: if_splits option.splits prod.splits)

definition generations_ok :: "('h, 'e) turn_world \<Rightarrow> bool" where
  "generations_ok w \<longleftrightarrow> length (controls w) = length (scopes w) \<and> 0 < next_generation w \<and>
     sorted_wrt (<) (map scope_generation (scopes w)) \<and>
     (\<forall>k < length (scopes w). scope_control (scopes w ! k) = k \<and>
        0 < scope_generation (scopes w ! k) \<and> scope_generation (scopes w ! k) < next_generation w)"

definition activity_ok :: "('h, 'e) turn_world \<Rightarrow> bool" where
  "activity_ok w \<longleftrightarrow>
     (case active_control w of
        None \<Rightarrow> active_generation w = 0 \<and> (\<forall>c \<in> set (controls w). tc_lifecycle c \<noteq> Running)
      | Some k \<Rightarrow> Suc k = length (controls w) \<and> active_generation w = scope_generation (scopes w ! k) \<and>
          (\<forall>j < k. tc_lifecycle (controls w ! j) \<noteq> Running))"

definition handles_ok :: "('h, 'e) turn_world \<Rightarrow> bool" where
  "handles_ok w \<longleftrightarrow> (\<forall>c \<in> set (controls w). tc_lifecycle c \<in> {Cancelling, Cancelled} \<longrightarrow> tc_cancellations c = [])"

text \<open>
  The order of the log: whatever is published after another entry is of the same or of a later
  turn, and of a later one if that entry closed its turn, unless it is itself the bookkeeping of a
  cancellation.
\<close>

fun cancelled_end :: "'e publication \<Rightarrow> bool" where
  "cancelled_end (InvocationEnd st e) = (st = StageCancelled)"
| "cancelled_end p = False"

fun end_stages :: "'e publication \<Rightarrow> tool_invocation_lifecycle_stage set" where
  "end_stages (InvocationEnd st e) = {st}"
| "end_stages p = {}"

definition follows :: "u64 \<times> 'e publication \<Rightarrow> u64 \<times> 'e publication \<Rightarrow> bool" where
  "follows = (\<lambda>(g, p) (g', p'). cancelled_end p' \<or> g < g' \<or> g = g' \<and> \<not> cancelled_end p)"

definition published_by :: "('h, 'e) turn_world \<Rightarrow> nat \<Rightarrow> u64 \<times> 'e publication \<Rightarrow> bool" where
  "published_by w k = (\<lambda>(g, p). k < length (scopes w) \<and> g = scope_generation (scopes w ! k) \<and>
     end_stages p \<subseteq> {StageCompleted, StageFailed, StageCancelled} \<and>
     (cancelled_end p \<longrightarrow> tc_lifecycle (controls w ! k) \<in> {Cancelling, Cancelled}))"

definition published_ok :: "('h, 'e) turn_world \<Rightarrow> bool" where
  "published_ok w \<longleftrightarrow> fst ` set (pending w) \<subseteq> {..<length (scopes w)} \<and>
     fst ` set (pending_ends w) \<subseteq> {..<length (scopes w)} \<and>
     sorted_wrt follows (published w) \<and> (\<forall>x \<in> set (published w). \<exists>k. published_by w k x)"

lemma published_by_frame [simp]:
  "published_by (w\<lparr>signalled := ss\<rparr>) = published_by w" "published_by (w\<lparr>pending := ps\<rparr>) = published_by w"
  "published_by (w\<lparr>pending_ends := es\<rparr>) = published_by w" "published_by (w\<lparr>published := ls\<rparr>) = published_by w"
  "published_by (clear_active w) = published_by w"
  by (simp_all add: published_by_def clear_active_def fun_eq_iff)

text \<open>The log keeps its order while scopes are only added and no closed turn opens again.\<close>

lemma published_ok_mono:
  assumes "published_ok w" and "pending w' = pending w" "pending_ends w' = pending_ends w" "published w' = published w"
    and "length (scopes w) \<le> length (scopes w')"
    and "\<And>k. k < length (scopes w) \<Longrightarrow> scopes w' ! k = scopes w ! k \<and>
      (tc_lifecycle (controls w ! k) \<in> {Cancelling, Cancelled} \<longrightarrow> tc_lifecycle (controls w' ! k) \<in> {Cancelling, Cancelled})"
  shows "published_ok w'"
proof -
  have "published_by w' k x" if "published_by w k x" for k x
    using that assms(5,6) by (cases x) (auto simp: published_by_def)
  then have "\<forall>x \<in> set (published w'). \<exists>k. published_by w' k x"
    using assms(1,4) unfolding published_ok_def by metis
  moreover have "{..<length (scopes w)} \<subseteq> {..<length (scopes w')}" using assms(5) by auto
  ultimately show ?thesis using assms(1-4) unfolding published_ok_def by auto
qed

definition world_ok :: "('h, 'e) turn_world \<Rightarrow> bool" where
  "world_ok w \<longleftrightarrow> generations_ok w \<and> activity_ok w \<and> handles_ok w \<and> published_ok w"

lemma world_ok_new: "world_ok owner_new"
  by (simp add: world_ok_def generations_ok_def activity_ok_def handles_ok_def published_ok_def owner_new_def)

lemma world_ok_put:
  assumes "world_ok w" and "k < length (controls w)" and "control_step (controls w ! k) c"
  shows "world_ok (put_control k c w)"
proof -
  have run: "tc_lifecycle c \<noteq> Running" if "tc_lifecycle (controls w ! k) \<noteq> Running"
    using assms(3) that by (auto simp: control_step_def lifecycle_step_def)
  have hd: "tc_lifecycle c \<in> {Cancelling, Cancelled} \<Longrightarrow> tc_cancellations c = []"
    using assms by (auto simp: control_step_def world_ok_def handles_ok_def)
  have a: "activity_ok (put_control k c w)"
  proof (cases "active_control w")
    case None
    with assms(1,2) run show ?thesis
      by (auto simp: world_ok_def activity_ok_def put_control_def dest!: set_update_subset_insert[THEN subsetD])
  next
    case (Some i)
    with assms(1,2) run show ?thesis by (auto simp: world_ok_def activity_ok_def put_control_def nth_list_update)
  qed
  have h: "handles_ok (put_control k c w)"
    using assms(1) hd by (auto simp: world_ok_def handles_ok_def put_control_def dest!: set_update_subset_insert[THEN subsetD])
  have cl: "tc_lifecycle (controls w ! k) \<in> {Cancelling, Cancelled} \<Longrightarrow> tc_lifecycle c \<in> {Cancelling, Cancelled}"
    using assms(3) by (auto simp: control_step_def lifecycle_step_def)
  have p: "published_ok (put_control k c w)"
    by (rule published_ok_mono[of w])
      (use assms(1,2) cl in \<open>auto simp: world_ok_def generations_ok_def put_control_def nth_list_update\<close>)
  show ?thesis using assms(1) a h p by (simp add: world_ok_def generations_ok_def put_control_def)
qed

lemma log_frame [simp]:
  "generations_ok (w\<lparr>signalled := ss\<rparr>) = generations_ok w" "generations_ok (w\<lparr>pending := ps\<rparr>) = generations_ok w"
  "generations_ok (w\<lparr>pending_ends := es\<rparr>) = generations_ok w" "generations_ok (w\<lparr>published := ls\<rparr>) = generations_ok w"
  "activity_ok (w\<lparr>signalled := ss\<rparr>) = activity_ok w" "activity_ok (w\<lparr>pending := ps\<rparr>) = activity_ok w"
  "activity_ok (w\<lparr>pending_ends := es\<rparr>) = activity_ok w" "activity_ok (w\<lparr>published := ls\<rparr>) = activity_ok w"
  "handles_ok (w\<lparr>signalled := ss\<rparr>) = handles_ok w" "handles_ok (w\<lparr>pending := ps\<rparr>) = handles_ok w"
  "handles_ok (w\<lparr>pending_ends := es\<rparr>) = handles_ok w" "handles_ok (w\<lparr>published := ls\<rparr>) = handles_ok w"
  by (simp_all add: generations_ok_def activity_ok_def handles_ok_def cong: option.case_cong)

lemma world_ok_signalled [simp]: "world_ok (w\<lparr>signalled := s\<rparr>) = world_ok w"
  by (simp add: world_ok_def published_ok_def)

lemma world_ok_pending:
  "world_ok w \<Longrightarrow> fst ` set ps \<subseteq> {..<length (scopes w)} \<Longrightarrow> world_ok (w\<lparr>pending := ps\<rparr>)"
  "world_ok w \<Longrightarrow> fst ` set es \<subseteq> {..<length (scopes w)} \<Longrightarrow> world_ok (w\<lparr>pending_ends := es\<rparr>)"
  by (simp_all add: world_ok_def published_ok_def)

lemma world_ok_scopes:
  "world_ok w \<Longrightarrow> fst ` set (pending w) \<subseteq> {..<length (scopes w)}"
  "world_ok w \<Longrightarrow> fst ` set (pending_ends w) \<subseteq> {..<length (scopes w)}"
  by (simp_all add: world_ok_def published_ok_def)

lemma set_without: "fst ` set xs \<subseteq> A \<Longrightarrow> fst ` set (take i xs @ drop (Suc i) xs) \<subseteq> A"
  by (auto dest!: in_set_takeD in_set_dropD)

lemma put_control_same [simp]: "k < length (controls w) \<Longrightarrow> put_control k (controls w ! k) w = w"
  by (simp add: put_control_def)

lemma is_active_control:
  assumes "world_ok w" and "k < length (scopes w)"
  shows "scope_control (scopes w ! k) = k" and "k < length (controls w)"
  using assms by (simp_all add: world_ok_def generations_ok_def)

lemma close_active_ok:
  assumes "world_ok w" and "close_active w = (w1, hs)"
  shows "world_ok w1" and "\<forall>c \<in> set (controls w1). tc_lifecycle c \<noteq> Running"
    and "next_generation w1 = next_generation w" "scopes w1 = scopes w" "pending w1 = pending w"
      "published w1 = published w" "length (controls w1) = length (controls w)" "signalled w1 = signalled w"
proof -
  have "world_ok w1 \<and> (\<forall>c \<in> set (controls w1). tc_lifecycle c \<noteq> Running) \<and>
      next_generation w1 = next_generation w \<and> scopes w1 = scopes w \<and> pending w1 = pending w \<and>
      published w1 = published w \<and> length (controls w1) = length (controls w) \<and> signalled w1 = signalled w"
  proof (cases "active_control w")
    case None
    with assms show ?thesis by (auto simp: close_active_def world_ok_def activity_ok_def)
  next
    case (Some k)
    obtain c hs' where c: "close_for_cancellation (controls w ! k) = (c, hs')" by fastforce
    have k: "Suc k = length (controls w)" and other: "\<forall>j < k. tc_lifecycle (controls w ! j) \<noteq> Running"
      using assms(1) Some by (simp_all add: world_ok_def activity_ok_def)
    have w1: "w1 = put_control k c w" using assms(2) Some c by (simp add: close_active_def)
    have "tc_lifecycle c \<noteq> Running" using c by (auto simp: close_for_cancellation_def split: if_splits)
    with other k have "\<forall>j < length (controls w). tc_lifecycle ((controls w)[k := c] ! j) \<noteq> Running"
      by (auto simp: nth_list_update less_Suc_eq)
    then have "\<forall>c \<in> set (controls w1). tc_lifecycle c \<noteq> Running"
      unfolding w1 by (auto simp: put_control_def set_conv_nth)
    moreover have "world_ok w1"
      unfolding w1 using world_ok_put[OF assms(1) _ control_steps(1)[OF c]] k by simp
    ultimately show ?thesis unfolding w1 by (simp add: put_control_def)
  qed
  then show "world_ok w1" and "\<forall>c \<in> set (controls w1). tc_lifecycle c \<noteq> Running"
    and "next_generation w1 = next_generation w" "scopes w1 = scopes w" "pending w1 = pending w"
      "published w1 = published w" "length (controls w1) = length (controls w)" "signalled w1 = signalled w"
    by blast+
qed

lemma begin_turn_ok:
  assumes ok: "world_ok w"
  shows "world_ok (fst (begin_turn w))"
proof -
  obtain w1 hs where w1: "close_active w = (w1, hs)" by fastforce
  note ca = close_active_ok[OF ok w1]
  show ?thesis
  proof (cases "next_generation w1 = - 1")
    case True
    with w1 ca(1) show ?thesis by (simp add: begin_turn_def)
  next
    case False
    let ?g = "next_generation w1" and ?k = "length (controls w1)"
    let ?w = "w1\<lparr>next_generation := ?g + 1, active_generation := ?g, active_control := Some ?k,
      controls := controls w1 @ [control_new], scopes := scopes w1 @ [\<lparr>scope_generation = ?g, scope_control = ?k\<rparr>],
      signalled := signalled w1 @ hs\<rparr>"
    have eq: "fst (begin_turn w) = ?w" using w1 False by (simp add: begin_turn_def Let_def)
    have "1 + ?g \<noteq> 0" using False by (metis add.commute add_eq_0_iff)
    then have suc: "unat (?g + 1) = Suc (unat ?g)" by (metis add.commute unatSuc)
    then have lt: "g < ?g + 1" if "g \<le> ?g" for g
      using that by (simp add: word_less_nat_alt word_le_nat_alt)
    have len: "length (scopes w1) = ?k" using ca(1) by (simp add: world_ok_def generations_ok_def)
    have old: "0 < ?g" "sorted_wrt (<) (map scope_generation (scopes w1))"
      "\<forall>k < length (scopes w1). scope_control (scopes w1 ! k) = k \<and>
        0 < scope_generation (scopes w1 ! k) \<and> scope_generation (scopes w1 ! k) < ?g"
      using ca(1) by (simp_all add: world_ok_def generations_ok_def)
    then have below: "\<forall>s \<in> set (scopes w1). scope_generation s < ?g" by (auto simp: in_set_conv_nth)
    have up: "\<forall>k < length (scopes w1). scope_generation (scopes w1 ! k) < ?g + 1"
      using old(3) lt by (meson order.strict_implies_order)
    have gens: "generations_ok ?w"
      using old below lt[OF order_refl] up len
      by (auto simp: generations_ok_def sorted_wrt_append nth_append less_Suc_eq intro: order.strict_trans)
    have act: "activity_ok ?w"
      using ca(2) len by (auto simp: activity_ok_def nth_append)
    have han: "handles_ok ?w"
      using ca(1) by (auto simp: world_ok_def handles_ok_def control_new_def)
    have pub: "published_ok ?w"
      by (rule published_ok_mono[of w1]) (use ca(1) len in \<open>auto simp: world_ok_def nth_append\<close>)
    show ?thesis unfolding eq world_ok_def using gens act han pub by blast
  qed
qed


lemma scope_op_ok:
  assumes ok: "world_ok w" and k: "k < length (scopes w)"
  shows "world_ok (fst (cancel_turn (scopes w ! k) w))" and "world_ok (fst (complete_turn (scopes w ! k) w))"
    and "world_ok (fst (release_terminal_turn (scopes w ! k) w))"
proof -
  note sc = is_active_control[OF ok k]
  show "world_ok (fst (cancel_turn (scopes w ! k) w))"
    using ok world_ok_put[OF ok sc(2) control_steps(1)]
    by (auto simp: cancel_turn_def sc(1) split: prod.splits option.splits)
  have clear: "world_ok (clear_active w')" if w': "world_ok w'" "active_control w' = Some k"
      "tc_lifecycle (controls w' ! k) \<noteq> Running" for w' :: "('a, 'b) turn_world"
  proof -
    have "Suc k = length (controls w')" "\<forall>j < k. tc_lifecycle (controls w' ! j) \<noteq> Running"
      using w' by (simp_all add: world_ok_def activity_ok_def)
    then have "\<forall>j < length (controls w'). tc_lifecycle (controls w' ! j) \<noteq> Running"
      using w'(3) by (metis less_Suc_eq)
    then have "\<forall>c \<in> set (controls w'). tc_lifecycle c \<noteq> Running" by (auto simp: set_conv_nth)
    moreover have "published_ok (clear_active w')"
      by (rule published_ok_mono[of w']) (use w'(1) in \<open>auto simp: world_ok_def clear_active_def\<close>)
    ultimately show ?thesis using w'(1)
      by (simp add: world_ok_def clear_active_def activity_ok_def generations_ok_def handles_ok_def)
  qed
  show "world_ok (fst (complete_turn (scopes w ! k) w))"
  proof (cases "is_active (scopes w ! k) w \<and> tc_lifecycle (controls w ! k) = Running")
    case True
    obtain c b where c: "complete_control (controls w ! k) = (c, b)" by fastforce
    have "world_ok (put_control k c w)" by (rule world_ok_put[OF ok sc(2) control_steps(4)[OF c]])
    moreover have "active_control (put_control k c w) = Some k"
      using True sc(1) by (simp add: is_active_def put_control_def)
    moreover have "tc_lifecycle (controls (put_control k c w) ! k) \<noteq> Running" and "b"
      using True c sc(2) by (auto simp: complete_control_def put_control_def)
    ultimately show ?thesis
      using clear True c sc(1) by (simp add: complete_turn_def)
  qed (use ok sc in \<open>auto simp: complete_turn_def complete_control_def\<close>)
  show "world_ok (fst (release_terminal_turn (scopes w ! k) w))"
    using ok clear[OF ok] sc by (auto simp: release_terminal_turn_def is_active_def)
qed

lemma latest_generation:
  assumes "world_ok w" and "tc_lifecycle (controls w ! k) = Running" and "k < length (scopes w)"
  shows "active_control w = Some k" and "Suc k = length (scopes w)"
    and "active_generation w = scope_generation (scopes w ! k)"
    and "j < length (scopes w) \<Longrightarrow> scope_generation (scopes w ! j) \<le> scope_generation (scopes w ! k)"
proof -
  have len: "length (controls w) = length (scopes w)" using assms(1) by (simp add: world_ok_def generations_ok_def)
  then have mem: "controls w ! k \<in> set (controls w)" using assms(3) by simp
  show act: "active_control w = Some k"
  proof (cases "active_control w")
    case None
    with assms mem show ?thesis by (auto simp: world_ok_def activity_ok_def)
  next
    case (Some i)
    with assms(1) have i: "Suc i = length (controls w)" "\<forall>j < i. tc_lifecycle (controls w ! j) \<noteq> Running"
      by (simp_all add: world_ok_def activity_ok_def)
    with assms(2,3) len have "\<not> k < i" by auto
    with i(1) assms(3) len Some show ?thesis by simp
  qed
  with assms(1) len show last: "Suc k = length (scopes w)"
    and "active_generation w = scope_generation (scopes w ! k)"
    by (simp_all add: world_ok_def activity_ok_def)
  assume j: "j < length (scopes w)"
  show "scope_generation (scopes w ! j) \<le> scope_generation (scopes w ! k)"
  proof (cases "j = k")
    case False
    with j last have "j < k" by simp
    moreover have "sorted_wrt (<) (map scope_generation (scopes w))"
      using assms(1) by (simp add: world_ok_def generations_ok_def)
    ultimately have "map scope_generation (scopes w) ! j < map scope_generation (scopes w) ! k"
      using assms(3) by (intro sorted_wrt_nth_less) auto
    with j assms(3) show ?thesis by simp
  qed simp
qed

text \<open>
  A publication of a running turn keeps the order of the log, since no later turn has begun; so
  does, at any time, the bookkeeping of a cancelled turn.
\<close>

lemma follows_cancelled [simp]: "cancelled_end p \<Longrightarrow> follows x (g, p)"
  by (cases x) (simp add: follows_def)

lemma log_append:
  assumes ok: "world_ok w" and pub: "published_by w k x" and "\<forall>y \<in> set (published w). follows y x"
  shows "world_ok (w\<lparr>published := published w @ [x]\<rparr>)"
proof -
  have "sorted_wrt follows (published w @ [x])"
    using ok assms(3) by (simp add: world_ok_def published_ok_def sorted_wrt_append)
  with ok pub show ?thesis by (auto simp: world_ok_def published_ok_def)
qed

lemma publish_ok:
  assumes ok: "world_ok w" and k: "k < length (scopes w)" and run: "tc_lifecycle (controls w ! k) = Running"
    and p: "end_stages p \<subseteq> {StageCompleted, StageFailed}"
  shows "world_ok (w\<lparr>published := published w @ [(scope_generation (scopes w ! k), p)]\<rparr>)"
proof (rule log_append[OF ok])
  let ?g = "scope_generation (scopes w ! k)"
  note lg = latest_generation[OF ok run k]
  show "published_by w k (?g, p)" using k p by (cases p) (auto simp: published_by_def)
  show "\<forall>y \<in> set (published w). follows y (?g, p)"
  proof
    fix y
    assume "y \<in> set (published w)"
    then obtain j where y: "published_by w j y" using ok by (auto simp: world_ok_def published_ok_def)
    obtain g q where gq: "y = (g, q)" by fastforce
    with y have j: "j < length (scopes w)" "g = scope_generation (scopes w ! j)" by (simp_all add: published_by_def)
    have "g \<noteq> ?g" if "cancelled_end q"
    proof
      assume "g = ?g"
      with j k ok have "j = k"
        by (metis (no_types, lifting) generations_ok_def length_map nth_map sorted_wrt_less_idx strict_sorted_iff
            nth_eq_iff_index_eq world_ok_def)
      with y that run show False by (auto simp: published_by_def gq)
    qed
    with lg(4)[OF j(1)] j(2) show "follows y (?g, p)" by (auto simp: gq follows_def)
  qed
qed

text \<open>The stages that an invocation may end with, as its turn runs or is cancelled.\<close>

definition end_allowed :: "'h turn_control \<Rightarrow> tool_invocation_lifecycle_stage option \<Rightarrow> bool" where
  "end_allowed c stage \<longleftrightarrow> (\<forall>s. stage = Some s \<longrightarrow>
     (if tc_lifecycle c = Running then s \<in> {StageCompleted, StageFailed}
      else s = StageCancelled \<and> tc_lifecycle c \<in> {Cancelling, Cancelled}))"

lemma terminal_stage:
  "end_allowed c (control_emit_invocation_terminal stage c)" "end_allowed c (control_emit_cancellation_lifecycle stage c)"
  by (auto simp: end_allowed_def control_emit_invocation_terminal_def control_emit_cancellation_lifecycle_def
      split: turn_lifecycle.splits if_splits)

lemma publish_end_ok:
  assumes ok: "world_ok w" and k: "k < length (scopes w)" and st: "end_allowed (controls w ! k) stage"
  shows "world_ok (publish_end k stage e taken w)"
proof (cases "\<exists>s. stage = Some s \<and> taken")
  case True
  then obtain s where s: "stage = Some s" "taken" by blast
  have "world_ok (w\<lparr>published := published w @ [(scope_generation (scopes w ! k), InvocationEnd s e)]\<rparr>)"
  proof (cases "tc_lifecycle (controls w ! k) = Running")
    case True
    with st s(1) show ?thesis by (intro publish_ok[OF ok k]) (simp_all add: end_allowed_def)
  next
    case False
    with st s(1) k show ?thesis by (intro log_append[OF ok, of k]) (simp_all add: published_by_def end_allowed_def)
  qed
  with s show ?thesis by (simp add: publish_end_def)
qed (use ok in \<open>auto simp: publish_end_def split: option.splits\<close>)

lemma terminal_publish_ok:
  assumes ok: "world_ok w" and i: "i < length (pending_ends w)"
  shows "world_ok (terminal_publish i taken w)"
proof -
  obtain k st e where p: "pending_ends w ! i = (k, st, e)" using prod_cases3 by blast
  with i have "(k, st, e) \<in> set (pending_ends w)" by (metis nth_mem)
  with ok have k: "k < length (scopes w)" by (auto simp: world_ok_def published_ok_def)
  let ?w = "w\<lparr>pending_ends := take i (pending_ends w) @ drop (Suc i) (pending_ends w)\<rparr>"
  have "world_ok ?w" using ok by (intro world_ok_pending set_without world_ok_scopes)
  from publish_end_ok[OF this, of k] k terminal_stage(1)[of "controls w ! k"] is_active_control(1)[OF ok k] show ?thesis
    by (simp add: terminal_publish_def p)
qed

lemma commit_artifact_ok:
  assumes "world_ok w" and "k < length (scopes w)"
  shows "world_ok (fst (commit_artifact k a w))"
  using assms publish_ok[OF assms] is_active_control[OF assms]
  by (simp add: commit_artifact_def accepts_work_def accepts_normal_output_def)

lemma stale_not_active:
  assumes "world_ok w" and "Suc k < length (scopes w)"
  shows "\<not> is_active (scopes w ! k) w"
  using assms is_active_control(1)[OF assms(1), of k]
  by (auto simp: is_active_def world_ok_def activity_ok_def generations_ok_def)

lemma emit_publish_ok:
  assumes ok: "world_ok w" and i: "i < length (pending w)"
  shows "world_ok (emit_publish i taken w)"
proof -
  obtain k e where p: "pending w ! i = (k, e)" by fastforce
  with i have "(k, e) \<in> set (pending w)" by (metis nth_mem)
  with ok have k: "k < length (scopes w)" by (auto simp: world_ok_def published_ok_def)
  note sc = is_active_control[OF ok k]
  let ?w = "w\<lparr>pending := take i (pending w) @ drop (Suc i) (pending w)\<rparr>"
  have w': "world_ok ?w" using ok by (intro world_ok_pending set_without world_ok_scopes)
  show ?thesis
  proof (cases "tc_lifecycle (controls w ! k) = Running \<and> taken")
    case True
    have "emit_publish i taken w = ?w\<lparr>published := published ?w @ [(scope_generation (scopes ?w ! k), NormalEvent e)]\<rparr>"
      using True p sc(1) by (simp add: emit_publish_def)
    moreover have "world_ok (?w\<lparr>published := published ?w @ [(scope_generation (scopes ?w ! k), NormalEvent e)]\<rparr>)"
      using True k by (intro publish_ok[OF w']) simp_all
    ultimately show ?thesis by (simp only:)
  next
    case False
    have "world_ok (put_control k (record_discarded_normal_event (controls w ! k)) ?w)"
      using world_ok_put[OF w', of k] sc(2) control_steps(8)[of "controls w ! k"] by simp
    with False w' p sc(1) show ?thesis by (auto simp: emit_publish_def Let_def)
  qed
qed

lemma turn_step_ok: "turn_step w w' \<Longrightarrow> world_ok w \<Longrightarrow> world_ok w'"
proof (induction rule: turn_step.induct)
  case (turn_begins w)
  then show ?case by (rule begin_turn_ok)
next
  case (control_cancelled k w c hs b)
  then show ?case using world_ok_put[OF _ _ control_steps(2)] by simp
next
  case (control_marked k w)
  then show ?case by (intro world_ok_put control_steps(3))
next
  case (control_completed k w)
  then show ?case using world_ok_put[OF _ _ control_steps(4)[OF prod.collapse[symmetric]]] by blast
next
  case (token_cancelled k w)
  then show ?case by (intro world_ok_put control_steps(5))
next
  case (handle_registered k w i h c hs b)
  then show ?case using world_ok_put[OF _ _ control_steps(6)] by simp
next
  case (handle_unregistered k w i)
  then show ?case by (intro world_ok_put control_steps(7))
next
  case (event_checked k w e)
  then have "world_ok (put_control k (record_discarded_normal_event (controls w ! k)) w)"
    using is_active_control[of w k] by (intro world_ok_put control_steps(8)) simp_all
  moreover have "world_ok (w\<lparr>pending := pending w @ [(k, e)]\<rparr>)"
    using event_checked world_ok_scopes(1)[of w] by (intro world_ok_pending) auto
  ultimately show ?case using is_active_control[of w k] event_checked by (simp add: emit_check_def)
next
  case (terminal_checked k w stage e)
  then have "world_ok (put_control k (record_discarded_normal_event (controls w ! k)) w)"
    using is_active_control[of w k] by (intro world_ok_put control_steps(8)) simp_all
  moreover have "world_ok (w\<lparr>pending_ends := pending_ends w @ [(k, stage, e)]\<rparr>)"
    using terminal_checked world_ok_scopes(2)[of w] by (intro world_ok_pending) auto
  ultimately show ?case using is_active_control[of w k] terminal_checked by (simp add: terminal_check_def)
next
  case (terminal_published i w taken)
  then show ?case by (intro terminal_publish_ok)
next
  case (cancellation_published k w stage e taken)
  then show ?case
    unfolding cancellation_publish_def using is_active_control(1)[of w k] terminal_stage(2)
    by (intro publish_end_ok) simp_all
next
  case (event_published i w taken)
  then show ?case by (intro emit_publish_ok)
qed (simp_all add: scope_op_ok commit_artifact_ok)

lemma reachable_ok: "turn_reachable w \<Longrightarrow> world_ok w"
  by (induction rule: turn_reachable.induct) (auto intro: world_ok_new turn_step_ok)

end
