(* ===== verification/Presentation_Scope.thy ===== *)
theory Presentation_Scope
  imports Runtime_Models
begin

text \<open>
  Presentation updates of a tool invocation (\<open>packages/tool/models/src/lib.rs\<close>): the scope that
  decides which updates are current, by generation and by revision per identity, with a bound on
  the encoded size. The JSON serializer is a parameter: the lengths of the chunks it writes, and
  an error text if it fails by itself.
\<close>

section \<open>Data\<close>

datatype tool_presentation_retention = RetainLatest | ActiveOnly

datatype tool_presentation_identity = Primary | Supplemental ustring

text \<open>The derived order: \<open>Primary\<close> before every supplemental item, those by their item.\<close>

instantiation tool_presentation_identity :: linorder
begin

definition less_eq_tool_presentation_identity :: "tool_presentation_identity \<Rightarrow> tool_presentation_identity \<Rightarrow> bool" where
  "less_eq_tool_presentation_identity a b \<longleftrightarrow>
     (case a of Primary \<Rightarrow> True | Supplemental i \<Rightarrow> (case b of Primary \<Rightarrow> False | Supplemental j \<Rightarrow> i \<le> j))"

definition less_tool_presentation_identity :: "tool_presentation_identity \<Rightarrow> tool_presentation_identity \<Rightarrow> bool" where
  "less_tool_presentation_identity a b \<longleftrightarrow> a \<le> b \<and> \<not> b \<le> a"

instance
  by standard (auto simp: less_eq_tool_presentation_identity_def less_tool_presentation_identity_def
      split: tool_presentation_identity.splits)

end

record tool_contribution_artifact =
  art_artifact_id :: ustring
  art_reference_key :: ustring
  art_content_type :: "ustring option"
  art_storage_uri :: ustring
  art_committed_bytes :: u64
  art_revision :: u64
  art_finalized :: bool
  art_availability :: "ustring option"

record 'json tool_presentation_update =
  upd_invocation_id :: ustring
  upd_producer_id :: ustring
  upd_generation :: u64
  upd_revision :: u64
  upd_identity :: tool_presentation_identity
  upd_retention :: tool_presentation_retention
  upd_schema :: ustring
  upd_schema_version :: u32
  upd_artifact :: "tool_contribution_artifact option"
  upd_payload :: 'json

datatype tool_presentation_scope_state = ScopeOpen | ScopeClosed

datatype tool_presentation_update_error =
    MissingInvocationId
  | MissingProducerId
  | MissingSupplementalId
  | MissingSchema
  | InvocationMismatch
  | ProducerMismatch
  | Unavailable
  | UpdatesClosed
  | StaleGeneration
  | FutureGeneration
  | StaleRevision
  | TooLarge nat nat
  | EncodeError ustring

record tool_presentation_update_scope =
  ps_state :: tool_presentation_scope_state
  ps_generation :: u64
  ps_highest :: "(tool_presentation_identity, u64) btree"

definition default_update_scope :: tool_presentation_update_scope where
  "default_update_scope = \<lparr>ps_state = ScopeOpen, ps_generation = 0, ps_highest = []\<rparr>"

definition highest_revision :: "tool_presentation_update_scope \<Rightarrow> tool_presentation_identity \<Rightarrow> u64 option" where
  "highest_revision s i = bt_get (ps_highest s) i"

section \<open>The bounded writer\<close>

record bounded_json_size_writer =
  bw_written :: nat
  bw_limit :: nat
  bw_exceeded :: bool

definition writer_new :: "nat \<Rightarrow> bounded_json_size_writer" where
  "writer_new limit = \<lparr>bw_written = 0, bw_limit = limit, bw_exceeded = False\<rparr>"

definition bw_write :: "nat \<Rightarrow> bounded_json_size_writer \<Rightarrow> bounded_json_size_writer \<times> bool" where
  "bw_write n w =
     (let written = min (bw_written w + n) (2 ^ 64 - 1)
      in if written > bw_limit w then (w\<lparr>bw_written := written, bw_exceeded := True\<rparr>, False)
         else (w\<lparr>bw_written := written\<rparr>, True))"

text \<open>\<open>serde_json::to_writer\<close>: the writer's refusal stops it, then its own error counts.\<close>

type_synonym 'json json_encoder = "'json tool_presentation_update \<Rightarrow> nat list \<times> ustring option"

fun to_writer :: "nat list \<Rightarrow> ustring option \<Rightarrow> bounded_json_size_writer \<Rightarrow> bounded_json_size_writer \<times> ustring option" where
  "to_writer [] err w = (w, err)"
| "to_writer (n # ns) err w =
     (case bw_write n w of
        (w', False) \<Rightarrow> (w', Some (str ''encoded size limit exceeded''))
      | (w', True) \<Rightarrow> to_writer ns err w')"

section \<open>Acceptance\<close>

definition saturating_inc64 :: "u64 \<Rightarrow> u64" where
  "saturating_inc64 n = (if n = - 1 then n else n + 1)"

definition update_malformed :: "'json tool_presentation_update \<Rightarrow> tool_presentation_update_error option" where
  "update_malformed u =
     (if is_blank (upd_invocation_id u) then Some MissingInvocationId
      else if is_blank (upd_producer_id u) then Some MissingProducerId
      else if is_blank (upd_schema u) then Some MissingSchema
      else (case upd_identity u of
              Supplemental item \<Rightarrow> if is_blank item then Some MissingSupplementalId else None
            | Primary \<Rightarrow> None))"

definition advance_generation ::
    "'json tool_presentation_update \<Rightarrow> tool_presentation_update_scope \<Rightarrow> tool_presentation_update_scope" where
  "advance_generation u s =
     (if upd_generation u > ps_generation s then s\<lparr>ps_generation := upd_generation u, ps_highest := []\<rparr> else s)"

definition accept_with_writer_limit ::
    "'json json_encoder \<Rightarrow> 'json tool_presentation_update \<Rightarrow> nat \<Rightarrow> nat \<Rightarrow> bool
       \<Rightarrow> tool_presentation_update_scope
       \<Rightarrow> tool_presentation_update_scope \<times> (tool_presentation_update_error + unit)" where
  "accept_with_writer_limit enc u max_bytes writer_limit atomic s =
     (if ps_state s = ScopeClosed then (s, Inl UpdatesClosed)
      else (case update_malformed u of
        Some e \<Rightarrow> (s, Inl e)
      | None \<Rightarrow>
          if upd_generation u < ps_generation s then (s, Inl StaleGeneration)
          else if upd_generation u > saturating_inc64 (ps_generation s) then (s, Inl FutureGeneration)
          else (let s1 = (if atomic then s else advance_generation u s)
                in if upd_generation u = ps_generation s1 \<and>
                      (\<exists>r \<in> set_option (bt_get (ps_highest s1) (upd_identity u)). upd_revision u \<le> r)
                   then (s1, Inl StaleRevision)
                   else (case enc u of
                     (chunks, own_error) \<Rightarrow>
                       (case to_writer chunks own_error (writer_new writer_limit) of
                          (w, Some err) \<Rightarrow>
                            (s1, Inl (if bw_exceeded w then TooLarge (bw_written w) max_bytes else EncodeError err))
                        | (w, None) \<Rightarrow>
                            if bw_written w > max_bytes then (s1, Inl (TooLarge (bw_written w) max_bytes))
                            else (let s2 = advance_generation u s1
                                  in (s2\<lparr>ps_highest := bt_insert (upd_identity u) (upd_revision u) (ps_highest s2)\<rparr>,
                                      Inr ())))))))"

definition accept_update ::
    "'json json_encoder \<Rightarrow> 'json tool_presentation_update \<Rightarrow> nat \<Rightarrow> tool_presentation_update_scope
       \<Rightarrow> tool_presentation_update_scope \<times> (tool_presentation_update_error + unit)" where
  "accept_update enc u max_bytes s = accept_with_writer_limit enc u max_bytes (2 ^ 64 - 1) False s"

definition accept_bounded ::
    "'json json_encoder \<Rightarrow> 'json tool_presentation_update \<Rightarrow> nat \<Rightarrow> tool_presentation_update_scope
       \<Rightarrow> tool_presentation_update_scope \<times> (tool_presentation_update_error + unit)" where
  "accept_bounded enc u max_bytes s = accept_with_writer_limit enc u max_bytes max_bytes True s"

definition close_scope :: "tool_presentation_update_scope \<Rightarrow> tool_presentation_update_scope" where
  "close_scope s = s\<lparr>ps_state := ScopeClosed\<rparr>"

section \<open>Facts\<close>

text \<open>A writer that refused nothing has counted every byte, up to saturation.\<close>

lemma to_writer_ok:
  assumes "to_writer ns err w = (w', None)" and "bw_written w \<le> 2 ^ 64 - 1"
  shows "bw_written w' = min (bw_written w + sum_list ns) (2 ^ 64 - 1)"
    and "ns \<noteq> [] \<Longrightarrow> bw_written w' \<le> bw_limit w" and "err = None"
proof -
  have "bw_written w' = min (bw_written w + sum_list ns) (2 ^ 64 - 1) \<and> (ns \<noteq> [] \<longrightarrow> bw_written w' \<le> bw_limit w) \<and> err = None"
    using assms
  proof (induction ns err w arbitrary: w' rule: to_writer.induct)
    case (2 n ns err w)
    show ?case
    proof (cases "min (bw_written w + n) (2 ^ 64 - 1) > bw_limit w")
      case True
      then have "snd (bw_write n w) = False" by (simp add: bw_write_def Let_def)
      with 2(2) show ?thesis by (simp split: prod.splits)
    next
      case False
      let ?w = "w\<lparr>bw_written := min (bw_written w + n) (2 ^ 64 - 1)\<rparr>"
      have w: "bw_write n w = (?w, True)" using False by (simp add: bw_write_def Let_def)
      have ih: "bw_written w' = min (bw_written ?w + sum_list ns) (2 ^ 64 - 1) \<and> (ns \<noteq> [] \<longrightarrow> bw_written w' \<le> bw_limit ?w) \<and> err = None"
        by (rule 2(1)[OF w[symmetric] refl]) (use 2(2) w in simp_all)
      moreover have "ns = [] \<longrightarrow> w' = ?w" using 2(2) w by auto
      moreover have "min (min (bw_written w + n) (2 ^ 64 - 1) + sum_list ns) (2 ^ 64 - 1)
          = min (bw_written w + (n + sum_list ns)) (2 ^ 64 - 1)" by linarith
      ultimately show ?thesis using False by auto
    qed
  qed simp
  then show "bw_written w' = min (bw_written w + sum_list ns) (2 ^ 64 - 1)"
    and "ns \<noteq> [] \<Longrightarrow> bw_written w' \<le> bw_limit w" and "err = None"
    by blast+
qed

lemma scope_advance [simp]: "ps_state (advance_generation u s) = ps_state s"
  by (simp add: advance_generation_def)

definition scope_ok :: "tool_presentation_update_scope \<Rightarrow> bool" where
  "scope_ok s \<longleftrightarrow> btree_ok (ps_highest s)"

text \<open>An accepted update is newer than everything accepted under its identity.\<close>

lemma accept_Inr:
  assumes "accept_with_writer_limit enc u m l atomic s = (s', Inr ())"
  shows "ps_state s = ScopeOpen" and "ps_state s' = ScopeOpen" and "update_malformed u = None"
    and "ps_generation s \<le> upd_generation u" and "upd_generation u \<le> saturating_inc64 (ps_generation s)"
    and "ps_generation s' = upd_generation u"
    and "ps_highest s' = bt_insert (upd_identity u) (upd_revision u)
      (if ps_generation s < upd_generation u then [] else ps_highest s)"
    and "upd_generation u = ps_generation s \<Longrightarrow> bt_get (ps_highest s) (upd_identity u) = Some r \<Longrightarrow> r < upd_revision u"
proof -
  have "ps_state s \<noteq> ScopeClosed" using assms by (auto simp: accept_with_writer_limit_def)
  then show op: "ps_state s = ScopeOpen" by (cases "ps_state s") auto
  from assms op show mf: "update_malformed u = None"
    by (auto simp: accept_with_writer_limit_def split: option.splits)
  from assms op mf show ge: "ps_generation s \<le> upd_generation u"
    and le: "upd_generation u \<le> saturating_inc64 (ps_generation s)"
    by (auto simp: accept_with_writer_limit_def not_less split: if_splits)
  let ?s1 = "if atomic then s else advance_generation u s"
  let ?s2 = "advance_generation u ?s1"
  from assms op mf ge le have
    eq: "s' = ?s2\<lparr>ps_highest := bt_insert (upd_identity u) (upd_revision u) (ps_highest ?s2)\<rparr>"
    and fresh: "\<not> (upd_generation u = ps_generation ?s1 \<and>
      (\<exists>r \<in> set_option (bt_get (ps_highest ?s1) (upd_identity u)). upd_revision u \<le> r))"
    by (simp_all add: accept_with_writer_limit_def Let_def split: if_splits prod.splits option.splits)
  from eq op show "ps_state s' = ScopeOpen" by simp
  from eq ge show "ps_generation s' = upd_generation u"
    and "ps_highest s' = bt_insert (upd_identity u) (upd_revision u)
      (if ps_generation s < upd_generation u then [] else ps_highest s)"
    by (auto simp: advance_generation_def split: if_splits)
  assume "upd_generation u = ps_generation s" "bt_get (ps_highest s) (upd_identity u) = Some r"
  with fresh show "r < upd_revision u" by (auto simp: advance_generation_def not_le split: if_splits)
qed

lemma accept_Inl:
  "accept_with_writer_limit enc u m l atomic s = (s', Inl e) \<Longrightarrow> s' = s \<or> \<not> atomic \<and> s' = advance_generation u s"
  by (auto simp: accept_with_writer_limit_def Let_def split: if_splits option.splits prod.splits)

text \<open>An accepted update fits the bound.\<close>

lemma accept_size:
  assumes "accept_with_writer_limit enc u m l atomic s = (s', Inr ())" and "m < 2 ^ 64 - 1"
  shows "sum_list (fst (enc u)) \<le> m"
proof -
  obtain chunks own where e: "enc u = (chunks, own)" by fastforce
  obtain w r where w: "to_writer chunks own (writer_new l) = (w, r)" by fastforce
  from assms(1) e w have "r = None \<and> bw_written w \<le> m"
    by (auto simp: accept_with_writer_limit_def Let_def not_less split: if_splits option.splits)
  moreover from this w to_writer_ok(1)[of chunks own "writer_new l" w] have "bw_written w = min (sum_list chunks) (2 ^ 64 - 1)"
    by (simp add: writer_new_def)
  ultimately have "min (sum_list chunks) (2 ^ 64 - 1) \<le> m" by simp
  with assms(2) have "sum_list chunks \<le> m" by linarith
  with e show ?thesis by simp
qed

text \<open>A bounded acceptance that fails changes nothing; closure refuses for good.\<close>

lemma accept_bounded_atomic:
  "accept_bounded enc u m s = (s', Inl e) \<Longrightarrow> s' = s"
  unfolding accept_bounded_def by (drule accept_Inl) simp

lemma accept_closed:
  "ps_state s = ScopeClosed \<Longrightarrow> accept_with_writer_limit enc u m l atomic s = (s, Inl UpdatesClosed)"
  by (simp add: accept_with_writer_limit_def)

section \<open>Sequences of updates\<close>

text \<open>
  The updates a scope accepts of a sequence, by either operation (\<open>b\<close>: the bounded one).
\<close>

fun accept_all ::
    "'json json_encoder \<Rightarrow> nat \<Rightarrow> (bool \<times> 'json tool_presentation_update) list \<Rightarrow> tool_presentation_update_scope
       \<Rightarrow> tool_presentation_update_scope \<times> 'json tool_presentation_update list" where
  "accept_all enc m [] s = (s, [])"
| "accept_all enc m ((b, u) # us) s =
     (case (if b then accept_bounded enc u m s else accept_update enc u m s) of
        (s1, r) \<Rightarrow> (case accept_all enc m us s1 of
           (s2, acc) \<Rightarrow> (s2, case r of Inr _ \<Rightarrow> u # acc | Inl _ \<Rightarrow> acc)))"

definition newer :: "'json tool_presentation_update \<Rightarrow> 'json tool_presentation_update \<Rightarrow> bool" where
  "newer u v \<longleftrightarrow> upd_generation u \<le> upd_generation v \<and>
     (upd_generation u = upd_generation v \<longrightarrow> upd_identity u = upd_identity v \<longrightarrow> upd_revision u < upd_revision v)"

text \<open>\<open>fences s u\<close>: whatever the scope accepts from now on is newer than \<open>u\<close>.\<close>

definition fences :: "tool_presentation_update_scope \<Rightarrow> 'json tool_presentation_update \<Rightarrow> bool" where
  "fences s u \<longleftrightarrow> upd_generation u < ps_generation s \<or>
     upd_generation u = ps_generation s \<and>
       (\<exists>r. bt_get (ps_highest s) (upd_identity u) = Some r \<and> upd_revision u \<le> r)"

lemma btree_ok_single [simp]: "btree_ok []" "btree_ok [(k, v)]"
  by (simp_all add: btree_ok_def)

lemma scope_ok_advance: "scope_ok s \<Longrightarrow> scope_ok (advance_generation u s)"
  by (simp add: scope_ok_def advance_generation_def)

lemma accept_ok:
  assumes "scope_ok s"
  shows "scope_ok (fst (accept_with_writer_limit enc u m l atomic s))"
proof -
  obtain s' r where eq: "accept_with_writer_limit enc u m l atomic s = (s', r)" by fastforce
  have "scope_ok s'"
  proof (cases r)
    case (Inl e)
    with accept_Inl[of enc u m l atomic s s' e] eq assms scope_ok_advance[OF assms, of u] show ?thesis by auto
  next
    case (Inr x)
    with accept_Inr(7)[of enc u m l atomic s s'] eq assms show ?thesis by (simp add: scope_ok_def bt_insert_ok)
  qed
  with eq show ?thesis by simp
qed

lemma accept_keeps_fence:
  assumes "scope_ok s" and "fences s u"
  shows "fences (fst (accept_with_writer_limit enc v m l atomic s)) u"
proof (cases "snd (accept_with_writer_limit enc v m l atomic s)")
  case (Inl e)
  have "fst (accept_with_writer_limit enc v m l atomic s) \<in> {s, advance_generation v s}"
    using accept_Inl[of enc v m l atomic s _ e] Inl by (metis insertCI prod.collapse)
  then show ?thesis using assms(2) by (auto simp: fences_def advance_generation_def)
next
  case (Inr x)
  then have eq: "accept_with_writer_limit enc v m l atomic s = (fst (accept_with_writer_limit enc v m l atomic s), Inr ())"
    by (metis old.unit.exhaust prod.collapse)
  note a = accept_Inr[OF eq]
  have ok: "btree_ok (ps_highest s)" using assms(1) by (simp add: scope_ok_def)
  show ?thesis
  proof (cases "ps_generation s < upd_generation v")
    case True
    then show ?thesis using assms(2) a(6) by (auto simp: fences_def)
  next
    case False
    then have g: "upd_generation v = ps_generation s" using a(4) by simp
    then show ?thesis
      using assms(2) a(6,7,8) False ok
      by (auto simp: fences_def bt_get_insert intro: order.trans[OF _ order.strict_implies_order])
  qed
qed

lemma accept_fences:
  assumes "scope_ok s" and "accept_with_writer_limit enc u m l atomic s = (s', Inr ())"
  shows "fences s' u"
  using assms(1) accept_Inr(6,7)[OF assms(2)]
  by (auto simp: fences_def scope_ok_def bt_get_insert)

lemma accepted_newer:
  assumes "fences s u" and "accept_with_writer_limit enc v m l atomic s = (s', Inr ())"
  shows "newer u v"
  using assms(1) accept_Inr(4,8)[OF assms(2)] unfolding fences_def newer_def by (auto intro: order.strict_trans1)

lemma accept_either:
  "(if b then accept_bounded enc u m s else accept_update enc u m s) =
     accept_with_writer_limit enc u m (if b then m else 2 ^ 64 - 1) b s"
  by (simp add: accept_bounded_def accept_update_def)

lemma accept_all_admitted:
  "m < 2 ^ 64 - 1 \<Longrightarrow> u \<in> set (snd (accept_all enc m us s)) \<Longrightarrow> update_malformed u = None \<and> sum_list (fst (enc u)) \<le> m"
proof (induction enc m us s rule: accept_all.induct)
  case (2 enc m b v us s)
  obtain s1 r where a: "accept_with_writer_limit enc v m (if b then m else 2 ^ 64 - 1) b s = (s1, r)" by fastforce
  then have ih: "u \<in> set (snd (accept_all enc m us s1)) \<Longrightarrow> update_malformed u = None \<and> sum_list (fst (enc u)) \<le> m"
    using 2(1) 2(2) a unfolding accept_either by metis
  have new: "update_malformed v = None \<and> sum_list (fst (enc v)) \<le> m" if "r = Inr ()"
    using accept_size[OF a[unfolded that] 2(2)] accept_Inr(3)[OF a[unfolded that]] by simp
  from 2(3) a have "u \<in> set (snd (accept_all enc m us s1)) \<or> u = v \<and> r = Inr ()"
    unfolding accept_all.simps accept_either by (cases r) (auto split: prod.splits)
  with ih new show ?case by blast
qed simp

lemma accept_all_newer:
  "scope_ok s \<Longrightarrow> (\<forall>u. fences s u \<longrightarrow> (\<forall>v \<in> set (snd (accept_all enc m us s)). newer u v)) \<and>
     sorted_wrt newer (snd (accept_all enc m us s))"
proof (induction us arbitrary: s)
  case (Cons p us)
  obtain b v where p: "p = (b, v)" by fastforce
  define l where "l = (if b then m else 2 ^ 64 - 1)"
  obtain s1 r where a: "accept_with_writer_limit enc v m l b s = (s1, r)" by fastforce
  then have step: "(if b then accept_bounded enc v m s else accept_update enc v m s) = (s1, r)"
    unfolding accept_either l_def .
  have ok: "scope_ok s1" using accept_ok[OF Cons.prems, of enc v m l b] a by simp
  have keep: "fences s u \<Longrightarrow> fences s1 u" for u :: "'a tool_presentation_update"
    using accept_keeps_fence[OF Cons.prems, of u enc v m l b] a by simp
  show ?case
  proof (cases r)
    case (Inl e)
    with Cons.IH[OF ok] keep show ?thesis by (simp add: p step split: prod.splits)
  next
    case (Inr x)
    with a have a': "accept_with_writer_limit enc v m l b s = (s1, Inr ())" by simp
    have "snd (accept_all enc m (p # us) s) = v # snd (accept_all enc m us s1)"
      using Inr by (simp add: p step split: prod.splits)
    with Cons.IH[OF ok] keep accept_fences[OF Cons.prems a'] accepted_newer[OF _ a'] show ?thesis by auto
  qed
qed simp

end
