(* ===== verification/Invocation_Scope.thy ===== *)
theory Invocation_Scope
  imports Turn_Lifecycle Presentation_Scope "HOL-Library.Multiset"
begin

text \<open>
  Scopes of single invocations (\<open>packages/agent-runtime/src/turn.rs\<close>): the host event sink, the
  ownership checks of the \<open>emit_*\<close> methods, and the host capabilities (exchanges, inputs, services,
  artifacts) bounded by cancellation.

  A capability call is split where the code awaits: \<open>*_start\<close> is the part before the \<open>select!\<close>,
  \<open>*_finish\<close> the part after it. The world at the finish is any later world; the answer of the
  host and which side of the \<open>select!\<close> was ready are input.
\<close>

section \<open>Contracts\<close>

datatype tool_contribution_operation = Upsert | AppendData | RemoveContribution

datatype tool_contribution_placement =
  RequestPlacement | ProgressPlacement | ResultPlacement | SupplementalPlacement | HiddenPlacement

datatype tool_contribution_persistence = Transient | Durable

record 'json tool_contribution_event =
  ctb_invocation_id :: ustring
  ctb_contribution_id :: ustring
  ctb_sequence :: u64
  ctb_producer_id :: ustring
  ctb_schema :: ustring
  ctb_schema_version :: u32
  ctb_operation :: tool_contribution_operation
  ctb_persistence :: tool_contribution_persistence
  ctb_artifact :: "tool_contribution_artifact option"
  ctb_payload :: 'json

record 'json tool_contribution_envelope =
  env_schema_version :: "16 word"
  env_placement :: tool_contribution_placement
  env_contribution :: "'json tool_contribution_event"

definition envelope_new ::
    "tool_contribution_placement \<Rightarrow> 'json tool_contribution_event \<Rightarrow> 'json tool_contribution_envelope" where
  "envelope_new placement contribution =
     \<lparr>env_schema_version = 1, env_placement = placement, env_contribution = contribution\<rparr>"

record 'json tool_invocation_lifecycle_event =
  lce_invocation_id :: ustring
  lce_sequence :: u64
  lce_stage :: tool_invocation_lifecycle_stage
  lce_message :: "ustring option"
  lce_metadata :: 'json

datatype tool_exchange_response_policy = RequiredResponse | OptionalResponse

record 'json tool_exchange_request =
  exr_invocation_id :: ustring
  exr_exchange_id :: ustring
  exr_producer_id :: ustring
  exr_schema :: ustring
  exr_schema_version :: u32
  exr_payload :: 'json
  exr_response_policy :: tool_exchange_response_policy

datatype 'json tool_exchange_resolution =
    ExchangeResponded 'json
  | ExchangeCancelled
  | ExchangeTimedOut
  | NoCompatibleConsumer
  | ConsumerDetached
  | ExchangeFailed ustring ustring

record 'json tool_invocation_input =
  tin_invocation_id :: ustring
  tin_input_id :: ustring
  tin_producer_id :: ustring
  tin_schema :: ustring
  tin_schema_version :: u32
  tin_payload :: 'json

datatype 'json tool_invocation_input_resolution =
    InputReceived "'json tool_invocation_input"
  | InputCancelled
  | InputTimedOut
  | InputClosed
  | InputFailed ustring ustring

record 'json tool_invocation_service_request =
  svr_invocation_id :: ustring
  svr_request_id :: ustring
  svr_route_id :: "ustring option"
  svr_interface_id :: ustring
  svr_operation :: ustring
  svr_payload :: 'json

datatype 'json tool_invocation_service_resolution =
    ServiceResponded 'json
  | ServiceCancelled
  | ServiceUnsupported
  | ServiceFailed ustring ustring

record 'json tool_artifact_write_request =
  awr_invocation_id :: ustring
  awr_artifact_id :: ustring
  awr_content_type :: ustring
  awr_bytes :: "8 word list"
  awr_metadata :: 'json

datatype 'json tool_artifact_write_resolution =
    ArtifactWritten ustring u64 'json
  | ArtifactCancelled
  | ArtifactTooLarge u64
  | ArtifactFailed ustring ustring

datatype ('json, 'data) scoped_turn_event =
    RuntimeEvent "('json, 'data) agent_runtime_event"
  | InvocationLifecycle "'json tool_invocation_lifecycle_event"
  | Contribution "'json tool_contribution_event"
  | PresentationUpdate "'json tool_presentation_update"

section \<open>The host event sink\<close>

text \<open>
  The seams are their answers; the effects are the list of calls made, in order.
\<close>

datatype 'e sink_call = Persist 'e | Observe 'e | Publish 'e

record 'e host_turn_event_sink =
  hs_publication :: "'e \<Rightarrow> bool"
  hs_persistence :: "('e \<Rightarrow> bool) option"
  hs_observability :: bool

definition host_sink_new :: "('e \<Rightarrow> bool) \<Rightarrow> 'e host_turn_event_sink" where
  "host_sink_new publication = \<lparr>hs_publication = publication, hs_persistence = None, hs_observability = False\<rparr>"

definition with_persistence :: "('e \<Rightarrow> bool) \<Rightarrow> 'e host_turn_event_sink \<Rightarrow> 'e host_turn_event_sink" where
  "with_persistence p s = s\<lparr>hs_persistence := Some p\<rparr>"

definition with_observability :: "'e host_turn_event_sink \<Rightarrow> 'e host_turn_event_sink" where
  "with_observability s = s\<lparr>hs_observability := True\<rparr>"

definition transient_contribution :: "('json, 'data) scoped_turn_event \<Rightarrow> bool" where
  "transient_contribution e =
     (case e of Contribution c \<Rightarrow> ctb_persistence c = Transient | _ \<Rightarrow> False)"

definition host_sink_emit ::
    "('json, 'data) scoped_turn_event host_turn_event_sink \<Rightarrow> ('json, 'data) scoped_turn_event
       \<Rightarrow> ('json, 'data) scoped_turn_event sink_call list \<times> bool" where
  "host_sink_emit s e =
     (let persisting = (\<not> transient_contribution e \<and> hs_persistence s \<noteq> None);
          persisted = (if persisting then [Persist e] else []);
          observed = (if hs_observability s then [Observe e] else [])
      in if persisting \<and> \<not> the (hs_persistence s) e then (persisted, False)
         else (persisted @ observed @ [Publish e], hs_publication s e))"

section \<open>Events of an invocation\<close>

record invocation_scope =
  is_turn :: nat
  is_invocation_id :: ustring
  is_exchange_ids :: "ustring set"
  is_settlement_unresolved :: bool

definition invocation_scope_new :: "nat \<Rightarrow> ustring \<Rightarrow> invocation_scope" where
  "invocation_scope_new k i = \<lparr>is_turn = k, is_invocation_id = i, is_exchange_ids = {}, is_settlement_unresolved = False\<rparr>"

definition mark_settlement_unresolved :: "invocation_scope \<Rightarrow> invocation_scope" where
  "mark_settlement_unresolved i = i\<lparr>is_settlement_unresolved := True\<rparr>"

definition invocation_accepts_work :: "invocation_scope \<Rightarrow> ('h, 'e) turn_world \<Rightarrow> bool" where
  "invocation_accepts_work i w = accepts_work (scopes w ! is_turn i) w"

text \<open>The check part of the emitting methods; \<open>emit_publish\<close> is the rest.\<close>

definition emit_lifecycle ::
    "invocation_scope \<Rightarrow> 'json tool_invocation_lifecycle_event \<Rightarrow> ('h, ('json, 'data) scoped_turn_event) turn_world
       \<Rightarrow> ('h, ('json, 'data) scoped_turn_event) turn_world" where
  "emit_lifecycle i e w =
     (if lce_invocation_id e = is_invocation_id i \<and> lce_stage e \<in> {StageProgress, StageWaiting}
      then emit_check (is_turn i) (InvocationLifecycle e) w else w)"

definition emit_presentation_update ::
    "invocation_scope \<Rightarrow> 'json tool_presentation_update \<Rightarrow> ('h, ('json, 'data) scoped_turn_event) turn_world
       \<Rightarrow> ('h, ('json, 'data) scoped_turn_event) turn_world" where
  "emit_presentation_update i u w =
     (if invocation_accepts_work i w \<and> upd_invocation_id u = is_invocation_id i
      then emit_check (is_turn i) (PresentationUpdate u) w else w)"

definition emit_contribution ::
    "invocation_scope \<Rightarrow> 'json tool_contribution_event \<Rightarrow> ('h, ('json, 'data) scoped_turn_event) turn_world
       \<Rightarrow> ('h, ('json, 'data) scoped_turn_event) turn_world" where
  "emit_contribution i c w =
     (if ctb_invocation_id c = is_invocation_id i
      then emit_check (is_turn i) (Contribution c) w else w)"

text \<open>The orchestrator's bookkeeping of the invocation; \<open>terminal_publish\<close> is the rest of the first.\<close>

definition emit_invocation_terminal ::
    "invocation_scope \<Rightarrow> 'json tool_invocation_lifecycle_event \<Rightarrow> ('h, ('json, 'data) scoped_turn_event) turn_world
       \<Rightarrow> ('h, ('json, 'data) scoped_turn_event) turn_world" where
  "emit_invocation_terminal i e w =
     (if lce_invocation_id e = is_invocation_id i
      then terminal_check (is_turn i) (lce_stage e) (InvocationLifecycle e) w else w)"

definition emit_cancellation_lifecycle ::
    "invocation_scope \<Rightarrow> 'json tool_invocation_lifecycle_event \<Rightarrow> bool \<Rightarrow> ('h, ('json, 'data) scoped_turn_event) turn_world
       \<Rightarrow> ('h, ('json, 'data) scoped_turn_event) turn_world" where
  "emit_cancellation_lifecycle i e taken w =
     (if lce_invocation_id e = is_invocation_id i
      then cancellation_publish (is_turn i) (lce_stage e) (InvocationLifecycle e) taken w else w)"

section \<open>Host capabilities\<close>

text \<open>
  An exchange is first admitted, with the turn as it is then, and later submitted under the lock of
  the shared set. \<open>Some\<close> is a resolution without asking the host.
\<close>

definition exchange_admit ::
    "'json tool_exchange_request \<Rightarrow> ('h, 'e) turn_world \<Rightarrow> invocation_scope \<Rightarrow> 'json tool_exchange_resolution option" where
  "exchange_admit r w i =
     (if exr_invocation_id r \<noteq> is_invocation_id i
      then Some (ExchangeFailed (str ''invocation_id_mismatch'')
             (str ''exchange request does not belong to this invocation scope''))
      else if exr_exchange_id r = []
      then Some (ExchangeFailed (str ''invalid_exchange_id'') (str ''exchange request ID must not be empty''))
      else if \<not> invocation_accepts_work i w then Some ExchangeCancelled
      else None)"

definition exchange_submit ::
    "'json tool_exchange_request \<Rightarrow> invocation_scope \<Rightarrow> invocation_scope \<times> 'json tool_exchange_resolution option" where
  "exchange_submit r i =
     (if exr_exchange_id r \<in> is_exchange_ids i
      then (i, Some (ExchangeFailed (str ''duplicate_exchange_id'')
             (str ''exchange request ID was already submitted by this invocation'')))
      else (i\<lparr>is_exchange_ids := insert (exr_exchange_id r) (is_exchange_ids i)\<rparr>, None))"

text \<open>The answer \<open>None\<close>: the cancellation side of the \<open>select!\<close>.\<close>

definition exchange_finish ::
    "'json tool_exchange_resolution option \<Rightarrow> ('h, 'e) turn_world \<Rightarrow> invocation_scope \<Rightarrow> 'json tool_exchange_resolution" where
  "exchange_finish answer w i =
     (let resolution = (case answer of None \<Rightarrow> ExchangeCancelled | Some x \<Rightarrow> x)
      in if invocation_accepts_work i w then resolution else ExchangeCancelled)"

definition input_start ::
    "('h, 'e) turn_world \<Rightarrow> invocation_scope \<Rightarrow> 'json tool_invocation_input_resolution + ustring" where
  "input_start w i = (if \<not> invocation_accepts_work i w then Inl InputCancelled else Inr (is_invocation_id i))"

definition input_finish ::
    "'json tool_invocation_input_resolution option \<Rightarrow> ('h, 'e) turn_world \<Rightarrow> invocation_scope
       \<Rightarrow> 'json tool_invocation_input_resolution" where
  "input_finish answer w i =
     (let resolution = (case answer of
            None \<Rightarrow> InputCancelled
          | Some (InputReceived x) \<Rightarrow>
              if tin_invocation_id x \<noteq> is_invocation_id i
              then InputFailed (str ''invocation_id_mismatch'')
                     (str ''received input does not belong to this invocation scope'')
              else InputReceived x
          | Some x \<Rightarrow> x)
      in if invocation_accepts_work i w then resolution else InputCancelled)"

definition service_start ::
    "'json tool_invocation_service_request \<Rightarrow> ('h, 'e) turn_world \<Rightarrow> invocation_scope
       \<Rightarrow> 'json tool_invocation_service_resolution + 'json tool_invocation_service_request" where
  "service_start r w i =
     (if svr_invocation_id r \<noteq> is_invocation_id i
      then Inl (ServiceFailed (str ''invocation_id_mismatch'')
             (str ''service request does not belong to this invocation scope''))
      else if \<not> invocation_accepts_work i w then Inl ServiceCancelled else Inr r)"

definition service_finish ::
    "'json tool_invocation_service_resolution option \<Rightarrow> ('h, 'e) turn_world \<Rightarrow> invocation_scope
       \<Rightarrow> 'json tool_invocation_service_resolution" where
  "service_finish answer w i =
     (let resolution = (case answer of None \<Rightarrow> ServiceCancelled | Some x \<Rightarrow> x)
      in if invocation_accepts_work i w then resolution else ServiceCancelled)"

definition artifact_start ::
    "'json tool_artifact_write_request \<Rightarrow> ('h, 'e) turn_world \<Rightarrow> invocation_scope
       \<Rightarrow> 'json tool_artifact_write_resolution + 'json tool_artifact_write_request" where
  "artifact_start r w i =
     (if awr_invocation_id r \<noteq> is_invocation_id i
      then Inl (ArtifactFailed (str ''invocation_id_mismatch'')
             (str ''artifact request does not belong to this invocation scope''))
      else if \<not> invocation_accepts_work i w then Inl ArtifactCancelled else Inr r)"

definition artifact_finish ::
    "'json tool_artifact_write_resolution option \<Rightarrow> ('h, 'e) turn_world \<Rightarrow> invocation_scope
       \<Rightarrow> 'json tool_artifact_write_resolution" where
  "artifact_finish answer w i =
     (let resolution = (case answer of None \<Rightarrow> ArtifactCancelled | Some x \<Rightarrow> x)
      in if invocation_accepts_work i w then resolution else ArtifactCancelled)"

text \<open>The capabilities of a host that has none.\<close>

definition unsupported_exchange :: "'json tool_exchange_request \<Rightarrow> 'json tool_exchange_resolution" where
  "unsupported_exchange r = NoCompatibleConsumer"

definition unsupported_input :: "ustring \<Rightarrow> 'json tool_invocation_input_resolution" where
  "unsupported_input i = InputClosed"

definition unsupported_service ::
    "'json tool_invocation_service_request \<Rightarrow> 'json tool_invocation_service_resolution" where
  "unsupported_service r = ServiceUnsupported"

definition unsupported_artifact ::
    "'json tool_artifact_write_request \<Rightarrow> 'json tool_artifact_write_resolution" where
  "unsupported_artifact r = ArtifactFailed (str ''artifact_sink_unavailable'')
     (str ''host does not provide an invocation artifact sink'')"

section \<open>One invocation in a running world\<close>

text \<open>
  The world moves on by turn steps while the invocation asks, and the calls on the clones of the
  scope overlap: \<open>ir_admitted\<close> are the requests between their two checks, \<open>ir_waiting\<close> those at the
  host, \<open>ir_forwarded\<close> all that were ever handed to the host. \<open>ir_answers\<close> is everything the tool got
  back: \<open>None\<close> marks an answer for which the host was not asked, \<open>Some\<close> one after asking it, with
  whether the turn accepted work at that moment.
\<close>

record ('h, 'e, 'json) invocation_run =
  ir_world :: "('h, 'e) turn_world"
  ir_scope :: invocation_scope
  ir_admitted :: "'json tool_exchange_request list"
  ir_waiting :: "'json tool_exchange_request list"
  ir_forwarded :: "'json tool_exchange_request list"
  ir_answers :: "('json tool_exchange_request \<times> 'json tool_exchange_resolution \<times> bool option) list"

inductive invocation_step :: "('h, 'e, 'json) invocation_run \<Rightarrow> ('h, 'e, 'json) invocation_run \<Rightarrow> bool" where
  world_moves: "turn_step (ir_world s) w \<Longrightarrow> invocation_step s (s\<lparr>ir_world := w\<rparr>)"
| exchange_refused: "exchange_admit r (ir_world s) (ir_scope s) = Some x \<Longrightarrow>
    invocation_step s (s\<lparr>ir_answers := ir_answers s @ [(r, x, None)]\<rparr>)"
| exchange_admitted: "exchange_admit r (ir_world s) (ir_scope s) = None \<Longrightarrow>
    invocation_step s (s\<lparr>ir_admitted := ir_admitted s @ [r]\<rparr>)"
| exchange_duplicate: "j < length (ir_admitted s) \<Longrightarrow> r = ir_admitted s ! j \<Longrightarrow>
    exchange_submit r (ir_scope s) = (i, Some x) \<Longrightarrow>
    invocation_step s (s\<lparr>ir_scope := i, ir_admitted := take j (ir_admitted s) @ drop (Suc j) (ir_admitted s),
      ir_answers := ir_answers s @ [(r, x, None)]\<rparr>)"
| exchange_forwarded: "j < length (ir_admitted s) \<Longrightarrow> r = ir_admitted s ! j \<Longrightarrow>
    exchange_submit r (ir_scope s) = (i, None) \<Longrightarrow>
    invocation_step s (s\<lparr>ir_scope := i, ir_admitted := take j (ir_admitted s) @ drop (Suc j) (ir_admitted s),
      ir_waiting := ir_waiting s @ [r], ir_forwarded := ir_forwarded s @ [r]\<rparr>)"
| exchange_answered: "j < length (ir_waiting s) \<Longrightarrow>
    invocation_step s (s\<lparr>ir_waiting := take j (ir_waiting s) @ drop (Suc j) (ir_waiting s),
      ir_answers := ir_answers s @ [(ir_waiting s ! j, exchange_finish answer (ir_world s) (ir_scope s),
        Some (invocation_accepts_work (ir_scope s) (ir_world s)))]\<rparr>)"

definition invocation_start :: "('h, 'e) turn_world \<Rightarrow> nat \<Rightarrow> ustring \<Rightarrow> ('h, 'e, 'json) invocation_run" where
  "invocation_start w k i = \<lparr>ir_world = w, ir_scope = invocation_scope_new k i, ir_admitted = [], ir_waiting = [],
     ir_forwarded = [], ir_answers = []\<rparr>"

inductive invocation_reachable :: "('h, 'e, 'json) invocation_run \<Rightarrow> bool" where
  invocation_new: "turn_reachable w \<Longrightarrow> k < length (scopes w) \<Longrightarrow> invocation_reachable (invocation_start w k i)"
| invocation_steps: "invocation_reachable s \<Longrightarrow> invocation_step s s' \<Longrightarrow> invocation_reachable s'"

text \<open>The answers to the requests that the host was asked.\<close>

definition host_answered :: "('h, 'e, 'json) invocation_run \<Rightarrow> 'json tool_exchange_request list" where
  "host_answered s = map fst (filter (\<lambda>(_, _, asked). asked \<noteq> None) (ir_answers s))"

text \<open>Why a request is answered without asking the host.\<close>

definition answered_locally ::
    "invocation_scope \<Rightarrow> 'json tool_exchange_request list \<Rightarrow> 'json tool_exchange_request
       \<Rightarrow> 'json tool_exchange_resolution \<Rightarrow> bool" where
  "answered_locally i forwarded r x \<longleftrightarrow>
     (case x of
        ExchangeCancelled \<Rightarrow> exr_invocation_id r = is_invocation_id i \<and> exr_exchange_id r \<noteq> []
      | ExchangeFailed code _ \<Rightarrow>
          (if exr_invocation_id r \<noteq> is_invocation_id i then code = str ''invocation_id_mismatch''
           else if exr_exchange_id r = [] then code = str ''invalid_exchange_id''
           else code = str ''duplicate_exchange_id'' \<and> exr_exchange_id r \<in> exr_exchange_id ` set forwarded)
      | _ \<Rightarrow> False)"

text \<open>Of a host's answer only \<open>Cancelled\<close> may be given when the turn no longer accepts work.\<close>

definition answer_ok ::
    "invocation_scope \<Rightarrow> 'json tool_exchange_request list
       \<Rightarrow> 'json tool_exchange_request \<times> 'json tool_exchange_resolution \<times> bool option \<Rightarrow> bool" where
  "answer_ok i forwarded = (\<lambda>(r, x, asked).
     case asked of None \<Rightarrow> answered_locally i forwarded r x | Some working \<Rightarrow> working \<or> x = ExchangeCancelled)"

lemma answer_ok_simps [simp]:
  "answer_ok i forwarded (r, x, None) = answered_locally i forwarded r x"
  "answer_ok i forwarded (r, x, Some working) = (working \<or> x = ExchangeCancelled)"
  by (simp_all add: answer_ok_def)

definition exchanges_ok :: "('h, 'e, 'json) invocation_run \<Rightarrow> bool" where
  "exchanges_ok s \<longleftrightarrow> distinct (map exr_exchange_id (ir_forwarded s)) \<and>
     exr_exchange_id ` set (ir_forwarded s) = is_exchange_ids (ir_scope s) \<and>
     (\<forall>r \<in> set (ir_admitted s @ ir_forwarded s).
        exr_invocation_id r = is_invocation_id (ir_scope s) \<and> exr_exchange_id r \<noteq> []) \<and>
     mset (ir_waiting s) + mset (host_answered s) = mset (ir_forwarded s) \<and>
     (\<forall>a \<in> set (ir_answers s). answer_ok (ir_scope s) (ir_forwarded s) a)"

lemma exchange_admit_cases:
  "exchange_admit r w i = Some x \<Longrightarrow> answered_locally i forwarded r x"
  "exchange_admit r w i = None \<Longrightarrow> exr_invocation_id r = is_invocation_id i \<and> exr_exchange_id r \<noteq> []"
  by (auto simp: exchange_admit_def answered_locally_def split: if_splits)

lemma exchange_submit_cases:
  "exchange_submit r i = (i', Some x) \<Longrightarrow> i' = i \<and> exr_exchange_id r \<in> is_exchange_ids i \<and>
     (\<exists>m. x = ExchangeFailed (str ''duplicate_exchange_id'') m)"
  "exchange_submit r i = (i', None) \<Longrightarrow> exr_exchange_id r \<notin> is_exchange_ids i \<and>
     i' = i\<lparr>is_exchange_ids := insert (exr_exchange_id r) (is_exchange_ids i)\<rparr>"
  by (auto simp: exchange_submit_def split: if_splits)

lemma answered_locally_mono:
  "answered_locally i forwarded r x \<Longrightarrow> answered_locally (i\<lparr>is_exchange_ids := ids\<rparr>) (forwarded @ later) r x"
  by (auto simp: answered_locally_def split: tool_exchange_resolution.splits if_splits)

lemma answered_locally_cases:
  "answered_locally i forwarded r x \<Longrightarrow>
     if exr_invocation_id r \<noteq> is_invocation_id i then \<exists>m. x = ExchangeFailed (str ''invocation_id_mismatch'') m
     else if exr_exchange_id r = [] then \<exists>m. x = ExchangeFailed (str ''invalid_exchange_id'') m
     else x = ExchangeCancelled \<or>
       (\<exists>m. x = ExchangeFailed (str ''duplicate_exchange_id'') m) \<and> exr_exchange_id r \<in> exr_exchange_id ` set forwarded"
  by (cases x) (auto simp: answered_locally_def split: if_splits)

lemma answer_ok_mono:
  "answer_ok i forwarded a \<Longrightarrow> answer_ok (i\<lparr>is_exchange_ids := ids\<rparr>) (forwarded @ later) a"
  by (auto simp: answer_ok_def answered_locally_mono split: option.splits prod.splits)

lemma mset_without: "j < length xs \<Longrightarrow> mset xs = add_mset (xs ! j) (mset (take j xs @ drop (Suc j) xs))"
  by (subst id_take_nth_drop[of j xs]) simp_all

lemma set_without_subset: "set (take j xs @ drop (Suc j) xs) \<subseteq> set xs"
  by (auto dest: in_set_takeD in_set_dropD)

lemma exchange_step_ok:
  assumes step: "invocation_step s s'" and ok: "exchanges_ok s"
  shows "exchanges_ok s'"
  using step
proof (cases rule: invocation_step.cases)
  case (world_moves w)
  with ok show ?thesis by (simp add: exchanges_ok_def host_answered_def)
next
  case (exchange_refused r x)
  with ok exchange_admit_cases(1)[OF exchange_refused(2)] show ?thesis
    by (simp add: exchanges_ok_def host_answered_def)
next
  case (exchange_admitted r)
  with ok exchange_admit_cases(2)[OF exchange_admitted(2)] show ?thesis
    by (auto simp: exchanges_ok_def host_answered_def)
next
  case (exchange_duplicate j r i x)
  note sub = exchange_submit_cases(1)[OF exchange_duplicate(4)]
  have "r \<in> set (ir_admitted s)" using exchange_duplicate(2,3) by simp
  with ok sub have "answered_locally (ir_scope s) (ir_forwarded s) r x"
    by (auto simp: exchanges_ok_def answered_locally_def)
  with ok sub set_without_subset[of j "ir_admitted s"] show ?thesis
    unfolding exchange_duplicate(1) by (auto simp: exchanges_ok_def host_answered_def)
next
  case (exchange_forwarded j r i)
  note sub = exchange_submit_cases(2)[OF exchange_forwarded(4)]
  have r: "r \<in> set (ir_admitted s)" using exchange_forwarded(2,3) by simp
  have answers: "\<forall>a \<in> set (ir_answers s). answer_ok i (ir_forwarded s @ [r]) a"
    using ok sub by (auto simp: exchanges_ok_def answer_ok_mono)
  with ok sub r set_without_subset[of j "ir_admitted s"] show ?thesis
    unfolding exchange_forwarded(1) by (auto simp: exchanges_ok_def host_answered_def)
next
  case (exchange_answered j answer)
  with ok mset_without[OF exchange_answered(2)] show ?thesis
    by (auto simp: exchanges_ok_def host_answered_def exchange_finish_def)
qed

lemma exchanges_reachable: "invocation_reachable s \<Longrightarrow> exchanges_ok s \<and> turn_reachable (ir_world s)"
proof (induction rule: invocation_reachable.induct)
  case (invocation_new w k i)
  then show ?case
    by (simp add: exchanges_ok_def invocation_start_def invocation_scope_new_def host_answered_def)
next
  case (invocation_steps s s')
  then have "exchanges_ok s'" using exchange_step_ok by blast
  moreover have "turn_reachable (ir_world s')"
    using invocation_steps(2,3) by (cases rule: invocation_step.cases) (auto intro: reachable_step)
  ultimately show ?case by blast
qed

section \<open>Facts\<close>

text \<open>Order of the seams: nothing is published that persistence refused or has not seen.\<close>

lemma host_sink_order:
  "host_sink_emit s e = (calls, taken) \<Longrightarrow> Publish e \<in> set calls \<Longrightarrow>
     (\<exists>pre. calls = pre @ [Publish e] \<and> (hs_observability s \<longrightarrow> Observe e \<in> set pre) \<and>
        (\<forall>p. hs_persistence s = Some p \<longrightarrow> \<not> transient_contribution e \<longrightarrow> p e \<and> hd pre = Persist e))"
  by (auto simp: host_sink_emit_def Let_def split: if_splits)

lemma host_sink_refused:
  "hs_persistence s = Some p \<Longrightarrow> \<not> transient_contribution e \<Longrightarrow> \<not> p e \<Longrightarrow> host_sink_emit s e = ([Persist e], False)"
  by (simp add: host_sink_emit_def)

end
