(* ===== verification/Runtime_Samples.thy ===== *)
theory Runtime_Samples
  imports Batch_Samples Governed_Loop Invocation_Scope
begin

text \<open>
  Concrete runs for the witnesses of the loop and turn properties: a provider that asks for one
  tool batch and then answers, a loop over it under the plan agent, and small turn worlds.
\<close>

section \<open>A provider\<close>

definition quiet_env :: "(unit, unit) provider_turn_env" where
  "quiet_env = \<lparr>pe_admitted = True, pe_fresh = 0, pe_identity = None, pe_start_admitted = True,
     pe_start_elapsed = 0, pe_start_race = ProviderReady, pe_start_answer = Answers (str ''t''),
     pe_cleanup_panics = False, pe_started_emitted = True, pe_finish_answer = Answers ()\<rparr>"

definition quiet_poll :: "(unit, unit) provider_turn_event list \<Rightarrow> (unit, unit) poll_input" where
  "quiet_poll es = \<lparr>pi_active = True, pi_admitted = True, pi_elapsed = 0, pi_race = ProviderReady,
     pi_answer = Answers es, pi_emits = \<lambda>_. True, pi_finished_elapsed = 0, pi_response_elapsed = 0\<rparr>"

definition quiet_attempt :: "(unit, unit) provider_turn_event list \<Rightarrow> (unit, unit) attempt_input" where
  "quiet_attempt es = \<lparr>at_elapsed = 0, at_plan_elapsed = 0, at_plan_race = ProviderReady, at_delay_elapsed = 0,
     at_delay_race = ProviderReady, at_turn_elapsed = 0, at_env = quiet_env, at_polls = [quiet_poll es]\<rparr>"

definition sample_loop_request :: "(unit, unit) agent_turn_request" where
  "sample_loop_request = (agent_turn_request_new () () [] (str ''hi''))\<lparr>rq_max_tool_rounds := 3\<rparr>"

definition plan_loop :: "(unit, unit) loop_config" where
  "plan_loop = \<lparr>lc_show = \<lambda>_. [], lc_planner = noop_planner, lc_negotiated = Some False,
     lc_timeout = 120 * 1000000000, lc_structured_output = None, lc_finalizes = False,
     lc_catalog = prep_catalog sample_preparation, lc_authorize = be_authorize plan_batch,
     lc_context = default_permission_context 0, lc_host_context = [], lc_options = default_execution_options,
     lc_policy = default_result_policy\<rparr>"

definition tool_events :: "(unit, unit) provider_turn_event list" where
  "tool_events = map PToolCallFinished sample_calls @ [PTurnFinished StopToolCall]"

definition small_usage :: "unit token_usage" where
  "small_usage = \<lparr>input_tokens = Some 5, output_tokens = Some 7, total_tokens = None, cached_input_tokens = None,
     cache_write_input_tokens = None, usage_details = [], pricing_context = None, reasoning_tokens = None\<rparr>"

definition answer_events :: "(unit, unit) provider_turn_event list" where
  "answer_events = [PTextDelta (str ''ok''), PUsage small_usage, PTurnFinished EndTurn]"

definition quiet_round :: round_input where
  "quiet_round = \<lparr>ri_elapsed = 0, ri_transition_emitted = True, ri_before_batch = Inr (), ri_batch_elapsed = 0\<rparr>"

lemmas quiet_defs = quiet_env_def quiet_poll_def quiet_attempt_def quiet_round_def

lemma quiet_turn:
  assumes "0 < rq_timeout request"
  shows "run_text_turn_in_scope sh quiet_env [quiet_poll es] request =
    map_option (\<lambda>(rel, r). \<lparr>to_request = Some (case model_turn_request_of sh 0 None request of Inr m \<Rightarrow> m),
        to_acquired = True, to_releases = rel, to_result = r\<rparr>)
      (case process_events quiet_env (quiet_poll es) 0 es \<lparr>tb_text = [], tb_usage = None, tb_events = [TurnStarted]\<rparr> of
         Ended rel r \<Rightarrow> Some (rel, r) | Running_turn _ \<Rightarrow> None)"
  using assms
  by (simp add: run_text_turn_in_scope_def quiet_defs model_turn_request_of_def start_provider_turn_def
      start_provider_safely_def poll_provider_events_def poll_provider_safely_def Let_def case_prod_unfold
      split: turn_result.split)

section \<open>A loop\<close>

lemma quiet_round_run:
  "run_planned_provider_round sh noop_planner neg timeout round 0 None request [quiet_attempt es] =
    (let r = request\<lparr>rq_tool_call_policy := (rq_tool_call_policy request)\<lparr>tcp_parallel := neg\<rparr>, rq_timeout := timeout\<rparr>
     in case run_text_turn_in_scope sh quiet_env [quiet_poll es] r of
          None \<Rightarrow> None
        | Some out \<Rightarrow>
            (case to_result out of
               Inr response \<Rightarrow> Some ([out], Inr (r, response))
             | Inl e \<Rightarrow> (case final_error timeout e of Some e' \<Rightarrow> Some ([out], Inl e') | None \<Rightarrow> None)))"
  by (simp add: planned_request_def quiet_attempt_def remaining_turn_duration_def plan_provider_round_def race_won_def
      noop_planner_def Let_def split: option.split sum.split)

lemma tool_turn:
  "process_events quiet_env (quiet_poll tool_events) 0 tool_events b =
     Ended [FinishTurn] (Inr (response_of (absorb (map PToolCallFinished sample_calls) b) StopToolCall (quiet_poll tool_events)))"
  by (simp add: tool_events_def sample_calls_def quiet_defs normalize_or_cleanup_def apply_disposition_def
      finish_provider_safely_def Let_def response_of_def absorb_def runtime_events_def disposition_def event_text_def
      usage_after_def finished_event_def)

lemma answer_turn:
  "process_events quiet_env (quiet_poll answer_events) 0 answer_events b =
     Ended [FinishTurn] (Inr (response_of (absorb [PTextDelta (str ''ok''), PUsage small_usage] b) EndTurn (quiet_poll answer_events)))"
  by (simp add: answer_events_def quiet_defs normalize_or_cleanup_def apply_disposition_def
      finish_provider_safely_def Let_def response_of_def absorb_def runtime_events_def disposition_def event_text_def
      usage_after_def finished_event_def)

abbreviation started_buffer :: "(unit, unit) turn_buffer" where
  "started_buffer \<equiv> \<lparr>tb_text = [], tb_usage = None, tb_events = [TurnStarted]\<rparr>"

lemma quiet_planned:
  assumes "\<And>b. process_events quiet_env (quiet_poll es) 0 es b = Ended rel (Inr (response_of (absorb evs b) stop p))"
    and "0 < timeout"
  shows "\<exists>out. run_planned_provider_round sh noop_planner neg timeout round 0 None request [quiet_attempt es] =
    Some ([out], Inr (request\<lparr>rq_tool_call_policy := (rq_tool_call_policy request)\<lparr>tcp_parallel := neg\<rparr>,
      rq_timeout := timeout\<rparr>, response_of (absorb evs started_buffer) stop p)) \<and>
    to_result out = Inr (response_of (absorb evs started_buffer) stop p)"
  unfolding quiet_round_run Let_def using assms(2) by (simp add: quiet_turn assms(1))

lemma sample_calls_valid: "validate_provider_tool_calls sample_calls = Inr ()"
  by (simp add: validate_provider_tool_calls_def sample_calls_def is_blank_def str_def is_whitespace_def ch_def)

definition tool_response :: "(unit, unit) agent_turn_response" where
  "tool_response = response_of (absorb (map PToolCallFinished sample_calls) started_buffer) StopToolCall (quiet_poll tool_events)"

lemma tool_response_facts:
  "completed_calls (atr_events tool_response) = sample_calls" "atr_stop_reason tool_response = Some StopToolCall"
  "atr_text tool_response = []"
  by (simp_all add: tool_response_def response_of_def absorb_def sample_calls_def runtime_events_def disposition_def
      event_text_def completed_calls_def)

lemma plan_loop_facts:
  "lc_planner plan_loop = noop_planner" "0 < lc_timeout plan_loop" "\<not> lc_finalizes plan_loop"
  "lc_policy plan_loop = default_result_policy" "batch_of plan_loop plan_batch"
  by (simp_all add: plan_loop_def batch_of_def plan_batch_def sample_batch_def)

lemma sample_init:
  "rq_stop_condition (ls_request (loop_init default_execution_options sample_loop_request)) = None"
  "ls_rounds (loop_init default_execution_options sample_loop_request) = round_state_new 3"
  "ls_batches (loop_init default_execution_options sample_loop_request) = []"
  "ls_guard (loop_init default_execution_options sample_loop_request) = repeat_guard_new 2"
  "\<not> ls_finalizing (loop_init default_execution_options sample_loop_request)"
  by (simp_all add: loop_init_def Let_def sample_loop_request_def agent_turn_request_new_def)

lemma quiet_round_part:
  assumes "\<And>b. process_events quiet_env (quiet_poll es) 0 es b = Ended rel (Inr (response_of (absorb evs b) stop p))"
  shows "\<exists>out request. round_part plan_loop [quiet_attempt es] quiet_round s =
      Some (after_round plan_loop quiet_round (response_of (absorb evs started_buffer) stop p)
        (s\<lparr>ls_turns := ls_turns s @ [out], ls_request := request\<rparr>)) \<and>
    to_result out = Inr (response_of (absorb evs started_buffer) stop p) \<and>
    rq_stop_condition request = rq_stop_condition (ls_request s)"
proof -
  from quiet_planned[OF assms plan_loop_facts(2)] obtain out where
    out: "run_planned_provider_round (lc_show plan_loop) noop_planner (lc_negotiated plan_loop)
      (lc_timeout plan_loop) (ls_round s) 0 None (ls_request s) [quiet_attempt es] = Some ([out],
      Inr ((ls_request s)\<lparr>rq_tool_call_policy := (rq_tool_call_policy (ls_request s))\<lparr>tcp_parallel := lc_negotiated plan_loop\<rparr>,
        rq_timeout := lc_timeout plan_loop\<rparr>, response_of (absorb evs started_buffer) stop p))"
    "to_result out = Inr (response_of (absorb evs started_buffer) stop p)"
    by blast
  let ?r = "(ls_request s)\<lparr>rq_tool_call_policy := (rq_tool_call_policy (ls_request s))\<lparr>tcp_parallel := lc_negotiated plan_loop\<rparr>,
        rq_timeout := lc_timeout plan_loop\<rparr>"
  show ?thesis unfolding round_part_def plan_loop_facts(1) out(1)
    using out(2) by (intro exI[of _ out] exI[of _ ?r]) (simp add: Let_def)
qed

lemma tool_round:
  "\<exists>s'. round_part plan_loop [quiet_attempt tool_events] quiet_round
     (loop_init default_execution_options sample_loop_request) = Some (s', RunsBatch sample_calls) \<and>
   ls_rounds s' = round_state_new 3 \<and> ls_batches s' = []"
proof -
  have ne: "sample_calls \<noteq> []" by (simp add: sample_calls_def)
  have ob: "observe_batch (repeat_guard_new 2) sample_calls =
      (\<lparr>guard_limit = 2, guard_repeats = 1, guard_previous = Some (semantic_batch sample_calls)\<rparr>, Inr ())"
    by (simp add: observe_batch_def repeat_guard_new_def)
  have q: "ri_before_batch quiet_round = Inr ()"
    "remaining_turn_duration (ri_batch_elapsed quiet_round) (lc_timeout plan_loop) = Inr (lc_timeout plan_loop)"
    by (simp_all add: quiet_round_def remaining_turn_duration_def)
  let ?s = "loop_init default_execution_options sample_loop_request"
  from quiet_round_part[OF tool_turn, of ?s, folded tool_response_def] obtain out request where
    part: "round_part plan_loop [quiet_attempt tool_events] quiet_round ?s = Some (after_round plan_loop quiet_round
      tool_response (?s\<lparr>ls_turns := ls_turns ?s @ [out], ls_request := request\<rparr>))"
    "rq_stop_condition request = None"
    by (auto simp: sample_init)
  show ?thesis
    unfolding part(1) after_round_answered
    using part(2) sample_init q ne ob sample_calls_valid tool_response_facts
    by (simp add: start_batch_def Let_def answered_state_def)
qed

section \<open>Its batch\<close>

definition settled_outcome :: "unit invocation_outcome" where
  "settled_outcome = \<lparr>io_response = Inr \<lparr>inv_output = str ''seen'', inv_is_error = False, inv_content = [],
     inv_full_output = None, inv_result = None\<rparr>, io_unresolved = False, io_emitted = True\<rparr>"

lemma group_run_single:
  fixes policy :: tool_result_policy
  shows "\<exists>s :: (unit, unit) group_state. group_run policy 1 (group_init [look_call] [0, 0] True) s \<and>
    gs_phase s = Finished \<and> gs_settlement s = [2, 0] \<and> gs_invoked s = [look_call] \<and> gs_open s \<and>
    fst ` set (gs_completions s) = {0}"
proof -
  define s0 :: "(unit, unit) group_state" where "s0 = group_init [look_call] [0, 0] True"
  define s1 where "s1 = start_dispatch 0 s0"
  define s2 where "s2 = return_call policy 0 settled_outcome s1"
  define s3 where "s3 = s2\<lparr>gs_phase := Finished\<rparr>"
  have i: "pc_index look_call = 0" by (simp add: look_call_def)
  have f0: "gs_phase s0 = Scheduling" "gs_queue s0 = [look_call]" "gs_running s0 = []" "gs_open s0" "gs_completions s0 = []"
    "gs_settlement s0 = [0, 0]" "gs_invoked s0 = []"
    by (simp_all add: s0_def group_init_def)
  have f1: "gs_phase s1 = Scheduling" "gs_queue s1 = []" "gs_running s1 = [look_call]" "gs_open s1" "gs_completions s1 = []"
    "gs_settlement s1 = [1, 0]" "gs_invoked s1 = [look_call]"
    by (simp_all add: s1_def start_dispatch_def f0 remove_nth_def i)
  have f2: "gs_phase s2 = Scheduling" "gs_queue s2 = []" "gs_running s2 = []" "gs_open s2"
    "fst ` set (gs_completions s2) = {0}" "gs_settlement s2 = [2, 0]" "gs_invoked s2 = [look_call]"
    by (simp_all add: s2_def return_call_def f1 remove_nth_def i settled_outcome_def Let_def)
  have "group_step policy 1 s0 s1" unfolding s1_def by (rule step_dispatch) (simp_all add: f0)
  moreover have "group_step policy 1 s1 s2" unfolding s2_def by (rule step_return) (simp_all add: f1)
  moreover have "group_step policy 1 s2 s3" unfolding s3_def by (rule step_exhausted) (simp_all add: f2)
  ultimately have "group_run policy 1 s0 s3" by (meson run_init run_step)
  with f2 show ?thesis unfolding s0_def[symmetric] by (intro exI[of _ s3]) (simp add: s3_def)
qed

lemma settled_batch:
  "\<exists>(out :: (unit, unit) tool_batch_execution_output).
     batch_run plan_batch sample_calls (round_state_new 3) sample_rounds (Inr out) [look_call] \<and>
     length (batch_results out) = length sample_calls \<and> (\<forall>i < 2. settlement_at out i \<noteq> Unresolved)"
proof -
  let ?t = "[Suc 0 \<mapsto> Inl (ToolNotFound (str ''leap''))] :: (unit, unit) terminal_results"
  have begins: "begin_batch plan_batch sample_calls (round_state_new 3) = (sample_rounds, Execute [look_call] ?t)"
    unfolding plan_batch_def by (subst sample_begins[where d = AuthAllow]) (simp_all add: look_allowed)
  obtain s :: "(unit, unit) group_state" where
    s: "group_run (be_policy plan_batch) 1 (group_init [look_call] [0, 0] True) s" "gs_phase s = Finished"
      "gs_settlement s = [2, 0]" "gs_invoked s = [look_call]" "fst ` set (gs_completions s) = {0}"
    using group_run_single by blast
  let ?start = "\<lparr>bp_terminal = ?t, bp_settlement = replicate (length sample_calls) 0, bp_invoked = [], bp_open = True\<rparr>"
  let ?b = "\<lparr>bp_terminal = extend_terminal ?t (gs_completions s), bp_settlement = [2, 0], bp_invoked = [look_call], bp_open = gs_open s\<rparr>"
  have conc: "batch_concurrency (be_options plan_batch) (length [look_call]) = 1"
    by (simp add: batch_concurrency_def plan_batch_def sample_batch_def default_execution_options_def)
  have len: "replicate (length sample_calls) (0 :: nat) = [0, 0]" by (simp add: sample_calls_def numeral_2_eq_2)
  have run: "groups_run (be_policy plan_batch) (be_options plan_batch) [[look_call]] ?start ?b"
  proof (rule groups_exec)
    show "group_run (be_policy plan_batch) (batch_concurrency (be_options plan_batch) (length [look_call]))
        (group_init [look_call] (bp_settlement ?start) True) s"
      unfolding conc using s(1) len by simp
  qed (use s in \<open>simp_all add: groups_done\<close>)
  have groups: "provider_batch_execution_groups [look_call] (opt_parallel (be_options plan_batch)) = [[look_call]]"
    by (simp add: provider_batch_execution_groups_def)
  let ?out = "ordered_batch_output (length sample_calls) (bp_terminal ?b) (bp_settlement ?b)"
  have ran: "batch_run plan_batch sample_calls (round_state_new 3) sample_rounds (Inr ?out) (bp_invoked ?b)"
    by (rule batch_executed[OF begins]) (use run groups in simp)
  have "extend_terminal ?t (gs_completions s) (Suc 0) = ?t (Suc 0)"
    by (rule extend_terminal_other) (simp add: s(5))
  moreover obtain r where "extend_terminal ?t (gs_completions s) 0 = Some r"
    using extend_terminal_mem[of 0 "gs_completions s" ?t] s(5) by auto
  ultimately have "settlement_at ?out i \<noteq> Unresolved" if "i < 2" for i
    using that by (simp add: ordered_settlement sample_calls_def get_eq less_2_cases_iff) auto
  with ran show ?thesis by (intro exI[of _ ?out]) (simp add: ordered_results)
qed

lemma plan_batch_moment:
  "batch_moment plan_batch sample_calls (round_state_new 3) sample_rounds []
     (Some (start_dispatch 0 (group_init [look_call] [0, 0] True) :: (unit, unit) group_state))"
proof -
  let ?t = "[Suc 0 \<mapsto> Inl (ToolNotFound (str ''leap''))] :: (unit, unit) terminal_results"
  let ?s = "group_init [look_call] [0, 0] True :: (unit, unit) group_state"
  have begins: "begin_batch plan_batch sample_calls (round_state_new 3) = (sample_rounds, Execute [look_call] ?t)"
    unfolding plan_batch_def by (subst sample_begins[where d = AuthAllow]) (simp_all add: look_allowed)
  have conc: "batch_concurrency (be_options plan_batch) (length [look_call]) = 1"
    by (simp add: batch_concurrency_def plan_batch_def sample_batch_def default_execution_options_def)
  have len: "replicate (length sample_calls) (0 :: nat) = [0, 0]" by (simp add: sample_calls_def numeral_2_eq_2)
  have groups: "provider_batch_execution_groups [look_call] (opt_parallel (be_options plan_batch)) = [] @ [look_call] # []"
    by (simp add: provider_batch_execution_groups_def)
  have "group_step (be_policy plan_batch) 1 ?s (start_dispatch 0 ?s)"
    by (rule step_dispatch) (simp_all add: group_init_def)
  with run_init have run: "group_run (be_policy plan_batch) 1 ?s (start_dispatch 0 ?s)" by (rule run_step)
  show ?thesis
    using moment_within[OF begins groups groups_done] run len conc by simp
qed

definition taking_env :: "(unit, unit) append_env" where
  "taking_env = \<lparr>ae_observer = \<lambda>_ _. Inr (), ae_emits = \<lambda>_. True, ae_show_err = \<lambda>_. str ''error''\<rparr>"

lemma taking_results: "\<exists>ms evs. append_results_from taking_env policy i rs messages events = (ms, evs, Inr ())"
proof (induction rs arbitrary: i messages events)
  case (Cons r rs)
  obtain call x where "r = (call, x)" by fastforce
  with Cons show ?case by (cases x) (auto simp: taking_env_def Let_def)
qed simp

lemma plan_loop_continues:
  "\<exists>s. loop_reaches plan_loop (loop_init default_execution_options sample_loop_request) 1 s \<and>
     ls_batches s = [(sample_calls, [look_call])] \<and> \<not> ls_finalizing s"
proof -
  let ?first = "loop_init default_execution_options sample_loop_request"
  obtain s1 where s1: "round_part plan_loop [quiet_attempt tool_events] quiet_round ?first = Some (s1, RunsBatch sample_calls)"
    "ls_rounds s1 = round_state_new 3" "ls_batches s1 = []"
    using tool_round by blast
  obtain out :: "(unit, unit) tool_batch_execution_output" where
    out: "batch_run plan_batch sample_calls (ls_rounds s1) sample_rounds (Inr out) [look_call]"
      "length (batch_results out) = length sample_calls" "\<forall>i < 2. settlement_at out i \<noteq> Unresolved"
    using settled_batch s1(2) by auto
  obtain ms evs where app: "append_tool_batch_results taking_env (lc_policy plan_loop) sample_calls out (ls_messages s1) (ls_events s1)
      = (ms, evs, Inr ())"
  proof -
    have "append_tool_batch_results taking_env (lc_policy plan_loop) sample_calls out (ls_messages s1) (ls_events s1) =
        append_results_from taking_env (lc_policy plan_loop) 0 (zip sample_calls (batch_results out)) (ls_messages s1) (ls_events s1)"
      using out(2,3) by (auto simp: append_tool_batch_results_def list_ex_iff sample_calls_def)
    with taking_results that show thesis by metis
  qed
  let ?s = "after_batch sample_rounds ms evs (sample_calls, [look_call]) s1"
  have "loop_step plan_loop ?first (Again ?s)"
    by (rule loop_continues[OF s1(1) plan_loop_facts(5) out(1) app])
  then have "loop_reaches plan_loop ?first 1 ?s" by (metis One_nat_def reach_again reach_init)
  moreover have "\<not> ls_finalizing ?s"
    using s1(1) sample_init(5) by (auto simp: after_batch_def elim!: round_batch)
  ultimately show ?thesis using s1(3) by (intro exI[of _ ?s]) (simp add: after_batch_def)
qed

lemma plan_loop_answers:
  "\<exists>s' resp. loop_step plan_loop (loop_init default_execution_options sample_loop_request) (Done s' (Inr resp)) \<and>
     reported_usages (ls_turns s') = [small_usage]"
proof -
  let ?s = "loop_init default_execution_options sample_loop_request"
  let ?r = "response_of (absorb [PTextDelta (str ''ok''), PUsage small_usage] started_buffer) EndTurn (quiet_poll answer_events)"
  from quiet_round_part[OF answer_turn, of ?s] obtain out request where
    part: "round_part plan_loop [quiet_attempt answer_events] quiet_round ?s = Some (after_round plan_loop quiet_round
      ?r (?s\<lparr>ls_turns := ls_turns ?s @ [out], ls_request := request\<rparr>))"
    "to_result out = Inr ?r" "rq_stop_condition request = None"
    by (auto simp: sample_init)
  have "atr_stop_reason ?r = Some EndTurn" by (simp add: response_of_def)
  then have "round_part plan_loop [quiet_attempt answer_events] quiet_round ?s =
      Some (answered_state [out] request ?r ?s, Returns (Inr (completed_agent_response ?r (ri_elapsed quiet_round)
        (ls_events (answered_state [out] request ?r ?s)))))"
    unfolding part(1) after_round_answered using part(3) plan_loop_facts(3) by (simp add: Let_def)
  from loop_returns[OF this] have
    "loop_step plan_loop ?s (Done (answered_state [out] request ?r ?s) (Inr (completed_agent_response ?r
      (ri_elapsed quiet_round) (ls_events (answered_state [out] request ?r ?s)))))" .
  moreover have "reported_usages (ls_turns (answered_state [out] request ?r ?s)) = [small_usage]"
    by (simp add: answered_state_def loop_init_def Let_def reported_usages_def turn_usage_def part(2) response_of_def
        absorb_def usage_after_def)
  ultimately show ?thesis by blast
qed

text \<open>A loop that finalizes structured output.\<close>

definition final_request :: "(unit, unit) agent_turn_request" where
  "final_request = sample_loop_request\<lparr>rq_structured_output := Some \<lparr>so_name = str ''out'', so_schema = (), so_strict = True\<rparr>,
     rq_structured_output_execution := ToolFreeProviderRound,
     rq_tools := [\<lparr>def_name = str ''look'', def_description = [], def_input_schema = ()\<rparr>]\<rparr>"

definition final_loop :: "(unit, unit) loop_config" where
  "final_loop = plan_loop\<lparr>lc_structured_output := rq_structured_output final_request, lc_finalizes := True\<rparr>"

lemma final_config: "config_for final_loop final_request"
  by (simp add: config_for_def final_loop_def final_request_def plan_loop_def sample_loop_request_def
      agent_turn_request_new_def requires_finalization_def negotiated_parallel_def default_execution_options_def
      default_tool_call_policy_def)

lemma final_loop_finalizes:
  "\<exists>s. loop_reaches final_loop (loop_init default_execution_options final_request) 1 s \<and> ls_finalizing s"
proof -
  let ?init = "loop_init default_execution_options final_request"
  let ?r = "response_of (absorb [PTextDelta (str ''ok''), PUsage small_usage] started_buffer) EndTurn (quiet_poll answer_events)"
  have f: "lc_planner final_loop = noop_planner" "0 < lc_timeout final_loop" "lc_finalizes final_loop"
    by (simp_all add: final_loop_def plan_loop_def)
  from quiet_planned[OF answer_turn f(2)] obtain out request where
    "run_planned_provider_round (lc_show final_loop) noop_planner (lc_negotiated final_loop)
      (lc_timeout final_loop) (ls_round ?init) 0 None (ls_request ?init) [quiet_attempt answer_events] = Some ([out], Inr (request, ?r))"
    by blast
  then have part: "round_part final_loop [quiet_attempt answer_events] quiet_round ?init = Some (after_round final_loop quiet_round
      ?r (?init\<lparr>ls_turns := ls_turns ?init @ [out], ls_request := request\<rparr>))"
    unfolding round_part_def f(1) by (simp add: Let_def)
  have "atr_stop_reason ?r = Some EndTurn" "\<not> ls_finalizing ?init" "ri_transition_emitted quiet_round"
    by (simp_all add: response_of_def loop_init_def Let_def quiet_round_def)
  then have "round_part final_loop [quiet_attempt answer_events] quiet_round ?init =
      Some (begin_finalization final_loop ?r (answered_state [out] request ?r ?init), Resumes)"
    unfolding part after_round_answered using f(3) by (simp add: Let_def)
  from loop_finalizes[OF this] have "loop_reaches final_loop ?init 1
      (begin_finalization final_loop ?r (answered_state [out] request ?r ?init))"
    by (metis One_nat_def reach_again reach_init)
  then show ?thesis using begin_finalization_facts(6)[OF refl] by blast
qed

section \<open>Turns\<close>

definition two_turns :: "(nat, unit) turn_world" where
  "two_turns = fst (begin_turn (fst (begin_turn owner_new)))"

lemma two_turns_reachable: "turn_reachable two_turns"
  unfolding two_turns_def by (intro reachable_step[OF _ turn_begins] reachable_new)

text \<open>The bookkeeping of the first turn's cancellation, after an event of the second.\<close>

definition late_end :: "(nat, unit) turn_world" where
  "late_end = cancellation_publish 0 StageCancelled () True (emit_publish 0 True (emit_check 1 () two_turns))"

lemma late_end_facts:
  "turn_reachable late_end" "map fst (published late_end) = [2, 1]" "length (scopes late_end) = 2"
proof -
  note eval = two_turns_def begin_turn_def close_active_def owner_new_def Let_def close_for_cancellation_def control_new_def
    put_control_def emit_check_def emit_publish_def accepts_work_def accepts_normal_output_def cancellation_publish_def
    publish_end_def control_emit_cancellation_lifecycle_def
  have "length (scopes two_turns) = 2" by (simp add: eval)
  moreover have "length (pending (emit_check 1 () two_turns)) = 1" "length (scopes (emit_publish 0 True (emit_check 1 () two_turns))) = 2"
    by (simp_all add: eval)
  ultimately show "turn_reachable late_end"
    unfolding late_end_def
    by (intro reachable_step[OF _ cancellation_published] reachable_step[OF _ event_published]
        reachable_step[OF _ event_checked] two_turns_reachable) simp_all
  show "map fst (published late_end) = [2, 1]" "length (scopes late_end) = 2"
    by (simp_all add: late_end_def eval)
qed

definition one_turn :: "(nat, unit) turn_world" where
  "one_turn = fst (begin_turn owner_new)"

definition registered_turn :: "(nat, unit) turn_world" where
  "registered_turn = put_control 0 (fst (register_cancellation (str ''call'') 9 (controls one_turn ! 0))) one_turn"

lemma one_turn_facts: "turn_reachable one_turn" "length (scopes one_turn) = 1" "length (controls one_turn) = 1"
  "controls one_turn ! 0 = control_new"
proof -
  show "turn_reachable one_turn" unfolding one_turn_def by (intro reachable_step[OF _ turn_begins] reachable_new)
qed (simp_all add: one_turn_def begin_turn_def close_active_def owner_new_def Let_def)

lemma registered_turn_facts:
  "turn_reachable registered_turn" "length (scopes registered_turn) = 1"
  "map snd (tc_cancellations (controls registered_turn ! 0)) = [9]"
  "snd (cancel_turn (scopes registered_turn ! 0) registered_turn)"
proof -
  have r: "register_cancellation (str ''call'') 9 control_new = (control_new\<lparr>tc_cancellations := [(str ''call'', 9)]\<rparr>, [], True)"
    by (simp add: register_cancellation_def control_new_def)
  have "turn_step one_turn ((put_control 0 (control_new\<lparr>tc_cancellations := [(str ''call'', 9)]\<rparr>) one_turn)\<lparr>signalled := signalled one_turn @ []\<rparr>)"
    by (rule handle_registered[of _ _ "str ''call''" 9]) (simp_all add: one_turn_facts r)
  moreover have "registered_turn = (put_control 0 (control_new\<lparr>tc_cancellations := [(str ''call'', 9)]\<rparr>) one_turn)\<lparr>signalled := signalled one_turn @ []\<rparr>"
    by (simp add: registered_turn_def one_turn_facts r put_control_def)
  ultimately show "turn_reachable registered_turn" using one_turn_facts(1) by (metis reachable_step)
  show "length (scopes registered_turn) = 1" by (simp add: registered_turn_def put_control_def one_turn_facts)
  show "map snd (tc_cancellations (controls registered_turn ! 0)) = [9]"
    by (simp add: registered_turn_def put_control_def one_turn_facts r)
  show "snd (cancel_turn (scopes registered_turn ! 0) registered_turn)"
    by (simp add: registered_turn_def register_cancellation_def one_turn_facts put_control_def cancel_turn_def is_active_def one_turn_def
        begin_turn_def close_active_def owner_new_def Let_def close_for_cancellation_def control_new_def)
qed

definition ask_exchange :: "unit tool_exchange_request" where
  "ask_exchange = \<lparr>exr_invocation_id = str ''call'', exr_exchange_id = str ''x'', exr_producer_id = [], exr_schema = [],
     exr_schema_version = 1, exr_payload = (), exr_response_policy = RequiredResponse\<rparr>"

definition asked_run :: "(nat, unit, unit) invocation_run" where
  "asked_run = \<lparr>ir_world = one_turn, ir_scope = (invocation_scope_new 0 (str ''call''))\<lparr>is_exchange_ids := {str ''x''}\<rparr>,
     ir_admitted = [], ir_waiting = [ask_exchange], ir_forwarded = [ask_exchange], ir_answers = []\<rparr>"

text \<open>A request that names another invocation is answered at once.\<close>

definition foreign_exchange :: "unit tool_exchange_request" where
  "foreign_exchange = ask_exchange\<lparr>exr_invocation_id := str ''other''\<rparr>"

definition refused_run :: "(nat, unit, unit) invocation_run" where
  "refused_run = asked_run\<lparr>ir_answers := [(foreign_exchange, ExchangeFailed (str ''invocation_id_mismatch'')
     (str ''exchange request does not belong to this invocation scope''), None)]\<rparr>"

lemma asked_reachable: "invocation_reachable asked_run"
proof -
  let ?s = "invocation_start one_turn 0 (str ''call'') :: (nat, unit, unit) invocation_run"
  have "invocation_reachable ?s" by (rule invocation_new) (simp_all add: one_turn_facts)
  moreover have "exchange_admit ask_exchange (ir_world ?s) (ir_scope ?s) = None"
    by (simp add: exchange_admit_def ask_exchange_def invocation_start_def invocation_scope_new_def invocation_accepts_work_def
        accepts_work_def one_turn_def begin_turn_def close_active_def owner_new_def Let_def accepts_normal_output_def
        control_new_def str_def)
  ultimately have admitted: "invocation_reachable (?s\<lparr>ir_admitted := [ask_exchange]\<rparr>)"
    using invocation_steps[OF _ exchange_admitted, of ?s ask_exchange] by (simp add: invocation_start_def)
  have submit: "exchange_submit ask_exchange (invocation_scope_new 0 (str ''call'')) =
      ((invocation_scope_new 0 (str ''call''))\<lparr>is_exchange_ids := {str ''x''}\<rparr>, None)"
    by (simp add: exchange_submit_def ask_exchange_def invocation_scope_new_def)
  have "invocation_step (?s\<lparr>ir_admitted := [ask_exchange]\<rparr>) asked_run"
    using exchange_forwarded[of 0 "?s\<lparr>ir_admitted := [ask_exchange]\<rparr>" ask_exchange] submit
    by (simp add: asked_run_def invocation_start_def)
  with admitted show ?thesis by (rule invocation_steps)
qed

lemma refused_reachable: "invocation_reachable refused_run"
proof -
  have "invocation_step asked_run refused_run"
    using exchange_refused[of foreign_exchange asked_run]
    by (simp add: refused_run_def exchange_admit_def foreign_exchange_def ask_exchange_def asked_run_def
        invocation_scope_new_def str_def)
  with asked_reachable show ?thesis by (rule invocation_steps)
qed

section \<open>Presentation updates\<close>

definition sample_update :: "u64 \<Rightarrow> u64 \<Rightarrow> unit tool_presentation_update" where
  "sample_update g r = \<lparr>upd_invocation_id = str ''i'', upd_producer_id = str ''p'', upd_generation = g,
     upd_revision = r, upd_identity = Primary, upd_retention = RetainLatest, upd_schema = str ''s'',
     upd_schema_version = 1, upd_artifact = None, upd_payload = ()\<rparr>"

definition sample_updates :: "(bool \<times> unit tool_presentation_update) list" where
  "sample_updates = [(True, sample_update 0 1), (True, sample_update 0 1), (False, sample_update 1 0),
     (True, sample_update 0 9)]"

text \<open>A repeated revision and an update of an older generation are refused.\<close>

lemma sample_updates_run:
  "snd (accept_all (\<lambda>_. ([4], None)) 10 sample_updates default_update_scope) = [sample_update 0 1, sample_update 1 0]"
  by (simp add: sample_updates_def sample_update_def default_update_scope_def accept_bounded_def accept_update_def
      accept_with_writer_limit_def update_malformed_def is_blank_def is_whitespace_def str_def bt_get_def saturating_inc64_def writer_new_def bw_write_def
      advance_generation_def Let_def)

end
