(* ===== verification/Workflow_Values.thy ===== *)
theory Workflow_Values
  imports Runtime_Models
begin

text \<open>
  What the workflow contracts of \<open>packages/workflow/src/lib.rs\<close> share: errors, structured
  values, value selectors and assertions.

  A structured value is a \<open>serde_json::Value\<close>, the enum the code matches on. Its numbers are a
  parameter type \<open>'num\<close>: what the code asks of a \<open>serde_json::Number\<close>, the length of an
  encoded value, the JSON-Schema validators and SHA-256 are fields of \<open>value_env\<close>. An
  \<open>i64\<close> is a 64-bit word read by \<open>sint\<close>.
\<close>

section \<open>Errors\<close>

datatype workflow_error =
    BuildError ustring ustring
  | StepError ustring ustring
  | PanickedError ustring
  | InvalidInputError ustring ustring
  | InvalidOutputError ustring ustring
  | CancelledError ustring
  | TimedOutError ustring duration
  | RetryExhaustedError ustring u32 "ustring list"

section \<open>Structured values\<close>

datatype 'num json =
    JNull
  | JBool bool
  | JNumber 'num
  | JString ustring
  | JArray "'num json list"
  | JObject "(ustring \<times> 'num json) list"

datatype ordering = Less | Equal | Greater

definition cmp :: "'a::linorder \<Rightarrow> 'a \<Rightarrow> ordering" where
  "cmp a b = (if a < b then Less else if a = b then Equal else Greater)"

record 'num value_schema =
  vs_type_name :: ustring
  vs_schema :: "'num json"

text \<open>\<open>Value::get\<close> with a key and with an index.\<close>

fun value_get :: "'num json \<Rightarrow> ustring \<Rightarrow> 'num json option" where
  "value_get (JObject kvs) name = map_of kvs name"
| "value_get _ name = None"

fun value_at :: "'num json \<Rightarrow> nat \<Rightarrow> 'num json option" where
  "value_at (JArray items) i = get items i"
| "value_at _ i = None"

fun as_str :: "'num json \<Rightarrow> ustring option" where
  "as_str (JString s) = Some s"
| "as_str _ = None"

fun as_bool :: "'num json \<Rightarrow> bool option" where
  "as_bool (JBool b) = Some b"
| "as_bool _ = None"

fun is_object :: "'num json \<Rightarrow> bool" where
  "is_object (JObject _) = True"
| "is_object _ = False"

definition predicate_value_kind :: "'num json \<Rightarrow> ustring" where
  "predicate_value_kind v = str (case v of
      JNull \<Rightarrow> ''null'' | JBool _ \<Rightarrow> ''boolean'' | JNumber _ \<Rightarrow> ''number'' | JString _ \<Rightarrow> ''string''
    | JArray _ \<Rightarrow> ''array'' | JObject _ \<Rightarrow> ''object'')"

definition predicate_values_compatible :: "'num json \<Rightarrow> 'num json \<Rightarrow> bool" where
  "predicate_values_compatible a b \<longleftrightarrow> (case (a, b) of
      (JNull, JNull) \<Rightarrow> True | (JBool _, JBool _) \<Rightarrow> True | (JNumber _, JNumber _) \<Rightarrow> True
    | (JString _, JString _) \<Rightarrow> True | (JArray _, JArray _) \<Rightarrow> True | (JObject _, JObject _) \<Rightarrow> True
    | _ \<Rightarrow> False)"

text \<open>The value at a dotted path: empty segments are skipped.\<close>

fun follow :: "'num json \<Rightarrow> ustring list \<Rightarrow> 'num json option" where
  "follow v [] = Some v"
| "follow v (p # ps) = (case value_get v p of None \<Rightarrow> None | Some w \<Rightarrow> follow w ps)"

definition path_parts :: "ustring \<Rightarrow> ustring list" where
  "path_parts path = filter (\<lambda>p. p \<noteq> []) (split_on (\<lambda>c. c = ch CHR ''.'') path)"

section \<open>Selectors and assertions\<close>

datatype selector_segment = FieldSegment ustring | IndexSegment nat

record workflow_value_selector =
  sel_version :: u32
  sel_segments :: "selector_segment list"

datatype workflow_value_assertion =
    TextEquals ustring
  | ByteLength u64
  | Sha256Is ustring

record ('num, 'f) value_env =
  ve_as_i64 :: "'num \<Rightarrow> 64 word option"
  ve_as_u64 :: "'num \<Rightarrow> u64 option"
  ve_as_f64 :: "'num \<Rightarrow> 'f option"
  ve_f64_cmp :: "'f \<Rightarrow> 'f \<Rightarrow> ordering option"
  ve_from_i64 :: "64 word \<Rightarrow> 'num"
  ve_encode :: "'num json \<Rightarrow> ustring + nat"
  ve_encode_assertion :: "workflow_value_assertion \<Rightarrow> ustring + nat"
  ve_validator :: "'num json \<Rightarrow> ustring + ('num json \<Rightarrow> ustring option)"
  ve_sha256 :: "ustring \<Rightarrow> ustring"

definition WORKFLOW_VALUE_SELECTOR_VERSION :: u32 where
  "WORKFLOW_VALUE_SELECTOR_VERSION = 1"

definition MAX_VALUE_SELECTOR_SEGMENTS :: nat where
  "MAX_VALUE_SELECTOR_SEGMENTS = 64"

definition MAX_VALUE_SELECTOR_FIELD_BYTES :: nat where
  "MAX_VALUE_SELECTOR_FIELD_BYTES = 256"

definition MAX_VALUE_SELECTOR_INDEX :: nat where
  "MAX_VALUE_SELECTOR_INDEX = 1000000"

definition segment_path :: "nat \<Rightarrow> ustring" where
  "segment_path position = str ''selector.segments.'' @ show_nat position"

fun validate_segments :: "nat \<Rightarrow> selector_segment list \<Rightarrow> workflow_error + unit" where
  "validate_segments i [] = Inr ()"
| "validate_segments i (FieldSegment name # rest) =
     (if name = [] \<or> byte_len name > MAX_VALUE_SELECTOR_FIELD_BYTES
      then Inl (BuildError (segment_path i) (str ''selector field must contain 1..=256 bytes''))
      else validate_segments (i + 1) rest)"
| "validate_segments i (IndexSegment index # rest) =
     (if index > MAX_VALUE_SELECTOR_INDEX
      then Inl (BuildError (segment_path i) (str ''selector index exceeds durable maximum 1000000''))
      else validate_segments (i + 1) rest)"

definition validate_selector :: "workflow_value_selector \<Rightarrow> workflow_error + unit" where
  "validate_selector s =
     (if sel_version s \<noteq> WORKFLOW_VALUE_SELECTOR_VERSION
      then Inl (BuildError (str ''selector.version'')
             (str ''unsupported workflow value selector version '' @ show_nat (unat (sel_version s)) @ str ''; expected 1''))
      else if length (sel_segments s) > MAX_VALUE_SELECTOR_SEGMENTS
      then Inl (BuildError (str ''selector.segments'') (str ''value selector exceeds 64 segments''))
      else validate_segments 0 (sel_segments s))"

definition field_absent :: "ustring \<Rightarrow> ustring" where
  "field_absent name = str ''selected object field '' @ str [CHR 0x27] @ name @ str [CHR 0x27] @ str '' was not present''"

definition index_absent :: "nat \<Rightarrow> ustring" where
  "index_absent i = str ''selected array index '' @ show_nat i @ str '' was not present''"

fun select_segments :: "nat \<Rightarrow> selector_segment list \<Rightarrow> 'num json \<Rightarrow> workflow_error + 'num json" where
  "select_segments i [] v = Inr v"
| "select_segments i (FieldSegment name # rest) v =
     (case value_get v name of
        None \<Rightarrow> Inl (BuildError (segment_path i) (field_absent name))
      | Some w \<Rightarrow> select_segments (i + 1) rest w)"
| "select_segments i (IndexSegment index # rest) v =
     (case value_at v index of
        None \<Rightarrow> Inl (BuildError (segment_path i) (index_absent index))
      | Some w \<Rightarrow> select_segments (i + 1) rest w)"

definition select_value :: "workflow_value_selector \<Rightarrow> 'num json \<Rightarrow> workflow_error + 'num json" where
  "select_value s v =
     (case validate_selector s of Inl e \<Rightarrow> Inl e | Inr _ \<Rightarrow> select_segments 0 (sel_segments s) v)"

definition assertion_error :: "ustring \<Rightarrow> workflow_error" where
  "assertion_error message = BuildError (str ''assertion'') message"

definition is_lowercase_hex :: "uchar \<Rightarrow> bool" where
  "is_lowercase_hex c \<longleftrightarrow> is_ascii_digit c \<or> 97 \<le> c \<and> c \<le> 102"

definition validate_sha256 :: "ustring \<Rightarrow> ustring \<Rightarrow> workflow_error + unit" where
  "validate_sha256 path value =
     (if byte_len value \<noteq> 64 \<or> \<not> list_all is_lowercase_hex value
      then Inl (BuildError path (str ''SHA-256 digest must be 64 lowercase hexadecimal bytes''))
      else Inr ())"

definition assertion_text :: "'num json \<Rightarrow> workflow_error + ustring \<times> bool" where
  "assertion_text value =
     (case as_str value of
        Some t \<Rightarrow> Inr (t, True)
      | None \<Rightarrow>
          if \<not> is_object value then Inl (assertion_error (str ''text assertion requires a string or typed text result''))
          else (case Option.bind (value_get value (str ''text'')) as_str of
              None \<Rightarrow> Inl (assertion_error (str ''typed text result is missing text''))
            | Some t \<Rightarrow>
                (case Option.bind (value_get value (str ''encoding'')) as_str of
                   None \<Rightarrow> Inl (assertion_error (str ''typed text result is missing encoding''))
                 | Some encoding \<Rightarrow>
                     (case Option.bind (value_get value (str ''truncated'')) as_bool of
                        None \<Rightarrow> Inl (assertion_error (str ''typed text result is missing truncation state''))
                      | Some truncated \<Rightarrow> Inr (t, encoding = str ''utf8'' \<and> \<not> truncated)))))"

definition assertion_byte_length :: "('num, 'f) value_env \<Rightarrow> 'num json \<Rightarrow> workflow_error + u64" where
  "assertion_byte_length env value =
     (case as_str value of
        Some t \<Rightarrow> if byte_len t < 2 ^ 64 then Inr (of_nat (byte_len t))
                  else Inl (assertion_error (str ''out of range integral type conversion attempted''))
      | None \<Rightarrow>
          (case value_get value (str ''byte_length'') of
             Some (JNumber n) \<Rightarrow>
               ok_or (assertion_error (str ''byte-length assertion requires typed byte_length'')) (ve_as_u64 env n)
           | _ \<Rightarrow> Inl (assertion_error (str ''byte-length assertion requires typed byte_length''))))"

definition assertion_sha256 :: "('num, 'f) value_env \<Rightarrow> 'num json \<Rightarrow> workflow_error + ustring" where
  "assertion_sha256 env value =
     (case as_str value of
        Some t \<Rightarrow> Inr (ve_sha256 env t)
      | None \<Rightarrow>
          (case Option.bind (value_get value (str ''checksum_sha256'')) as_str of
             None \<Rightarrow> Inl (assertion_error (str ''SHA-256 assertion requires typed checksum_sha256''))
           | Some checksum \<Rightarrow>
               (case validate_sha256 (str ''assertion.value.checksum_sha256'') checksum of
                  Inl e \<Rightarrow> Inl e | Inr _ \<Rightarrow> Inr checksum)))"

fun evaluate_assertion ::
    "('num, 'f) value_env \<Rightarrow> workflow_value_assertion \<Rightarrow> 'num json \<Rightarrow> workflow_error + bool" where
  "evaluate_assertion env (TextEquals expected) value =
     (case assertion_text value of
        Inl e \<Rightarrow> Inl e
      | Inr (t, complete_utf8) \<Rightarrow>
          if \<not> complete_utf8
          then Inl (assertion_error (str ''text assertions require complete valid UTF-8 without truncation''))
          else Inr (t = expected))"
| "evaluate_assertion env (ByteLength expected) value =
     (case assertion_byte_length env value of Inl e \<Rightarrow> Inl e | Inr n \<Rightarrow> Inr (n = expected))"
| "evaluate_assertion env (Sha256Is expected) value =
     (case validate_sha256 (str ''assertion.sha256'') expected of
        Inl e \<Rightarrow> Inl e
      | Inr _ \<Rightarrow> (case assertion_sha256 env value of Inl e \<Rightarrow> Inl e | Inr d \<Rightarrow> Inr (d = expected)))"

section \<open>Numbers\<close>

definition compare_json_numbers :: "('num, 'f) value_env \<Rightarrow> 'num \<Rightarrow> 'num \<Rightarrow> ordering option" where
  "compare_json_numbers env left right =
     (let floats = (case (ve_as_f64 env left, ve_as_f64 env right) of
                      (Some l, Some r) \<Rightarrow> ve_f64_cmp env l r | _ \<Rightarrow> None);
          negative = (\<lambda>n. \<exists>i \<in> set_option (ve_as_i64 env n). sint i < 0);
          unsigned = (case (ve_as_u64 env left, ve_as_u64 env right) of
                        (Some l, Some r) \<Rightarrow> Some (cmp l r)
                      | (Some _, None) \<Rightarrow> if negative right then Some Greater else floats
                      | (None, Some _) \<Rightarrow> if negative left then Some Less else floats
                      | (None, None) \<Rightarrow> floats)
      in case (ve_as_i64 env left, ve_as_i64 env right) of
           (Some l, Some r) \<Rightarrow> Some (cmp (sint l) (sint r))
         | (Some l, None) \<Rightarrow> if 0 \<le> sint l then map_option (cmp l) (ve_as_u64 env right) else unsigned
         | (None, Some r) \<Rightarrow> if 0 \<le> sint r then map_option (\<lambda>l. cmp l r) (ve_as_u64 env left) else unsigned
         | (None, None) \<Rightarrow> unsigned)"

section \<open>Facts\<close>

text \<open>
  The documented behaviour of \<open>serde_json::Number\<close> on integers: \<open>value_of n\<close> is the integer of
  an integral number, and \<open>as_i64\<close> and \<open>as_u64\<close> give it exactly when it is in their range.
\<close>

definition numbers_ok :: "('num, 'f) value_env \<Rightarrow> ('num \<Rightarrow> int option) \<Rightarrow> bool" where
  "numbers_ok env value_of \<longleftrightarrow> (\<forall>n.
     (case ve_as_i64 env n of
        Some i \<Rightarrow> value_of n = Some (sint i)
      | None \<Rightarrow> (\<forall>k. value_of n = Some k \<longrightarrow> k < - (2 ^ 63) \<or> 2 ^ 63 \<le> k)) \<and>
     (case ve_as_u64 env n of
        Some u \<Rightarrow> value_of n = Some (uint u)
      | None \<Rightarrow> (\<forall>k. value_of n = Some k \<longrightarrow> k < 0 \<or> 2 ^ 64 \<le> k)) \<and>
     (\<forall>k. value_of n = Some k \<longrightarrow> - (2 ^ 63) \<le> k \<and> k < 2 ^ 64))"

lemma uint_of_nonneg_sint: "0 \<le> sint (w :: 64 word) \<Longrightarrow> uint w = sint w"
  using sint_less[of w] by (simp add: uint_sint take_bit_int_eq_self)

lemma numbers_ok_cases:
  assumes "numbers_ok env value_of" and "value_of n = Some a"
  obtains i u where "ve_as_i64 env n = Some i" "sint i = a" "ve_as_u64 env n = Some u" "uint u = a" "0 \<le> a"
  | i where "ve_as_i64 env n = Some i" "sint i = a" "ve_as_u64 env n = None" "a < 0"
  | u where "ve_as_i64 env n = None" "ve_as_u64 env n = Some u" "uint u = a" "2 ^ 63 \<le> a"
proof -
  have n: "case ve_as_i64 env n of Some i \<Rightarrow> a = sint i | None \<Rightarrow> a < - (2 ^ 63) \<or> 2 ^ 63 \<le> a"
      "case ve_as_u64 env n of Some u \<Rightarrow> a = uint u | None \<Rightarrow> a < 0 \<or> 2 ^ 64 \<le> a"
      "- (2 ^ 63) \<le> a" "a < 2 ^ 64"
    using assms(1)[unfolded numbers_ok_def, rule_format, of n] assms(2) by (auto split: option.splits)
  show thesis
  proof (cases "ve_as_i64 env n")
    case None
    then have a: "2 ^ 63 \<le> a" using n(1,3) by simp
    then obtain u where "ve_as_u64 env n = Some u" "uint u = a" using n(2,4) by (auto split: option.splits)
    then show thesis using None a that(3) by blast
  next
    case (Some i)
    then have i: "sint i = a" using n(1) by simp
    show thesis
    proof (cases "ve_as_u64 env n")
      case None
      then have "a < 0" using n(2,4) by simp
      then show thesis using None Some i that(2) by blast
    next
      case u: (Some u)
      then have "uint u = a" using n(2) by simp
      moreover from this have "0 \<le> a" by (metis uint_ge_0)
      ultimately show thesis using Some i u that(1) by blast
    qed
  qed
qed

text \<open>Integers compare exactly, across the signed and the unsigned range.\<close>

lemma cmp_uint: "cmp u w = cmp (uint u) (uint w)"
  by (simp add: cmp_def word_less_def word_uint_eq_iff)

lemma integers_compare:
  assumes "numbers_ok env value_of" and "value_of l = Some a" and "value_of r = Some b"
  shows "compare_json_numbers env l r = Some (cmp a b)"
proof -
  have u: "cmp i w = cmp (sint i) (uint w)" if "0 \<le> sint i" for i w :: "64 word"
    using uint_of_nonneg_sint[OF that] by (simp add: cmp_uint)
  have u': "cmp w i = cmp (uint w) (sint i)" if "0 \<le> sint i" for i w :: "64 word"
    using uint_of_nonneg_sint[OF that] by (simp add: cmp_uint)
  show ?thesis
  proof (cases rule: numbers_ok_cases[OF assms(1,2)])
    case 1
    note l = this
    show ?thesis
      by (cases rule: numbers_ok_cases[OF assms(1,3)]) (use l u in \<open>auto simp: compare_json_numbers_def\<close>)
  next
    case 2
    note l = this
    show ?thesis
      by (cases rule: numbers_ok_cases[OF assms(1,3)]) (use l in \<open>auto simp: compare_json_numbers_def cmp_def\<close>)
  next
    case 3
    note l = this
    show ?thesis
      by (cases rule: numbers_ok_cases[OF assms(1,3)])
        (use l u' in \<open>auto simp: compare_json_numbers_def cmp_uint cmp_def[of a b]\<close>)
  qed
qed

text \<open>
  A number that is no integer compares with no integer of the non-negative signed range, whatever
  its value.
\<close>

lemma fractions_refused:
  assumes "ve_as_i64 env l = Some i" and "0 \<le> sint i" and "ve_as_i64 env r = None" and "ve_as_u64 env r = None"
  shows "compare_json_numbers env l r = None" and "compare_json_numbers env r l = None"
  using assms by (simp_all add: compare_json_numbers_def)

end
