(* ===== verification/Workflow_Policy.thy ===== *)
theory Workflow_Policy
  imports Workflow_Values
begin

text \<open>
  Authorization and automatic retry of workflow nodes (\<open>packages/workflow/src/lib.rs\<close>): grants
  and their scopes, the preflight that intersects profile, initiating context and grant, the
  resolution of an approval, and the retry decision with its backoff. The approval host is an
  argument, a function from what it is asked to what it answers.
\<close>

section \<open>Grants\<close>

datatype workflow_tool_capability = CapDisabled | CapReadOnly | CapMutating

fun capability_rank :: "workflow_tool_capability \<Rightarrow> nat" where
  "capability_rank CapDisabled = 0"
| "capability_rank CapReadOnly = 1"
| "capability_rank CapMutating = 2"

lemma capability_rank_inject [simp]: "capability_rank a = capability_rank b \<longleftrightarrow> a = b"
  by (cases a; cases b) simp_all

text \<open>The derived order of the variants.\<close>

instantiation workflow_tool_capability :: linorder
begin

definition less_eq_workflow_tool_capability :: "workflow_tool_capability \<Rightarrow> workflow_tool_capability \<Rightarrow> bool" where
  "less_eq_workflow_tool_capability a b \<longleftrightarrow> capability_rank a \<le> capability_rank b"

definition less_workflow_tool_capability :: "workflow_tool_capability \<Rightarrow> workflow_tool_capability \<Rightarrow> bool" where
  "less_workflow_tool_capability a b \<longleftrightarrow> capability_rank a < capability_rank b"

instance
  by standard (auto simp: less_eq_workflow_tool_capability_def less_workflow_tool_capability_def)

end

record workflow_grant_scope =
  gs_definition :: ustring
  gs_definition_version :: u32
  gs_workspace :: ustring
  gs_node :: ustring
  gs_run :: "ustring option"

record workflow_policy_grant =
  pg_grant_id :: ustring
  pg_scope :: workflow_grant_scope
  pg_capability :: workflow_tool_capability

record workflow_policy_request =
  wp_initiating :: workflow_tool_capability
  wp_profile :: workflow_tool_capability
  wp_node :: workflow_tool_capability
  wp_scope :: workflow_grant_scope
  wp_grant :: "workflow_policy_grant option"

datatype workflow_policy_preflight =
    PreAuthorized workflow_tool_capability ustring
  | PreApprovalRequired workflow_tool_capability workflow_grant_scope
  | PreRejected ustring

definition MAX_POLICY_SCOPE_ID_BYTES :: nat where "MAX_POLICY_SCOPE_ID_BYTES = 512"
definition MAX_POLICY_GRANT_ID_BYTES :: nat where "MAX_POLICY_GRANT_ID_BYTES = 512"

fun validate_labels :: "(string \<times> ustring) list \<Rightarrow> ustring + unit" where
  "validate_labels [] = Inr ()"
| "validate_labels ((label, v) # rest) =
     (if is_blank v then Inl (str ''grant scope '' @ str label @ str '' must not be empty'')
      else if byte_len v > MAX_POLICY_SCOPE_ID_BYTES
      then Inl (str ''grant scope '' @ str label @ str '' exceeds 512 bytes'')
      else validate_labels rest)"

definition validate_grant_scope :: "workflow_grant_scope \<Rightarrow> ustring + unit" where
  "validate_grant_scope scope =
     (case validate_labels [(''definition'', gs_definition scope), (''workspace'', gs_workspace scope), (''node'', gs_node scope)] of
        Inl e \<Rightarrow> Inl e
      | Inr _ \<Rightarrow>
          if gs_definition_version scope = 0
          then Inl (str ''grant scope definition version must be positive'')
          else (case gs_run scope of
                  None \<Rightarrow> Inr ()
                | Some run \<Rightarrow> validate_labels [(''run'', run)]))"

definition validate_policy_grant :: "workflow_policy_grant \<Rightarrow> ustring + unit" where
  "validate_policy_grant g =
     (case validate_grant_scope (pg_scope g) of
        Inl e \<Rightarrow> Inl e
      | Inr _ \<Rightarrow>
          if is_blank (pg_grant_id g) \<or> byte_len (pg_grant_id g) > MAX_POLICY_GRANT_ID_BYTES
          then Inl (str ''invalid workflow policy grant identity'') else Inr ())"

definition capability_name :: "workflow_tool_capability \<Rightarrow> ustring" where
  "capability_name c = str (case c of CapDisabled \<Rightarrow> ''Disabled'' | CapReadOnly \<Rightarrow> ''ReadOnly'' | CapMutating \<Rightarrow> ''Mutating'')"

definition policy_audit_identity :: "workflow_policy_request \<Rightarrow> ustring option \<Rightarrow> ustring" where
  "policy_audit_identity request grant_id =
     (let scope = wp_scope request
      in str ''workflow='' @ gs_definition scope @ str '';version='' @ show_nat (unat (gs_definition_version scope))
         @ str '';workspace='' @ gs_workspace scope @ str '';node='' @ gs_node scope
         @ str '';run='' @ (case gs_run scope of None \<Rightarrow> str ''*'' | Some r \<Rightarrow> r)
         @ str '';profile='' @ capability_name (wp_profile request)
         @ str '';node_capability='' @ capability_name (wp_node request)
         @ str '';grant='' @ (case grant_id of None \<Rightarrow> str ''none'' | Some g \<Rightarrow> g))"

section \<open>Preflight\<close>

definition preflight_workflow_policy :: "workflow_policy_request \<Rightarrow> workflow_policy_preflight" where
  "preflight_workflow_policy request =
     (case validate_grant_scope (wp_scope request) of
        Inl reason \<Rightarrow> PreRejected reason
      | Inr _ \<Rightarrow>
          if wp_node request > wp_profile request
          then PreRejected (str ''node requests capability broader than its configured profile'')
          else if wp_node request \<le> wp_initiating request
          then PreAuthorized (wp_node request) (policy_audit_identity request None)
          else (case wp_grant request of
                  None \<Rightarrow> PreApprovalRequired (wp_node request) (wp_scope request)
                | Some grant \<Rightarrow>
                    if is_blank (pg_grant_id grant) then PreRejected (str ''grant identity must not be empty'')
                    else if byte_len (pg_grant_id grant) > MAX_POLICY_GRANT_ID_BYTES
                    then PreRejected (str ''grant identity exceeds 512 bytes'')
                    else if pg_scope grant \<noteq> wp_scope request
                    then PreRejected (str ''grant scope does not match the requested workflow node'')
                    else if pg_capability grant < wp_node request
                    then PreRejected (str ''grant capability does not cover the node request'')
                    else PreAuthorized (wp_node request)
                           (policy_audit_identity request (Some (pg_grant_id grant)))))"

text \<open>
  The approval is asked for at most once. The arm that the code declares unreachable is the
  outcome \<open>Unreachable\<close>.
\<close>

datatype authorization_outcome =
    PolicyAuthorized workflow_tool_capability ustring
  | PolicyRefused workflow_error
  | Unreachable

type_synonym approval_resolver =
  "workflow_tool_capability \<Rightarrow> workflow_grant_scope \<Rightarrow> workflow_error + workflow_policy_grant option"

definition authorize_workflow_policy :: "workflow_policy_request \<Rightarrow> approval_resolver \<Rightarrow> authorization_outcome" where
  "authorize_workflow_policy request resolver =
     (case preflight_workflow_policy request of
        PreAuthorized effective audit \<Rightarrow> PolicyAuthorized effective audit
      | PreRejected reason \<Rightarrow> PolicyRefused (BuildError (gs_node (wp_scope request)) reason)
      | PreApprovalRequired requested scope \<Rightarrow>
          (case resolver requested scope of
             Inl e \<Rightarrow> PolicyRefused e
           | Inr None \<Rightarrow> PolicyRefused (BuildError (gs_node scope) (str ''workflow elevation was not approved''))
           | Inr (Some grant) \<Rightarrow>
               (let granted = request\<lparr>wp_grant := Some grant\<rparr>
                in case preflight_workflow_policy granted of
                     PreAuthorized effective audit \<Rightarrow> PolicyAuthorized effective audit
                   | PreRejected reason \<Rightarrow> PolicyRefused (BuildError (gs_node (wp_scope granted)) reason)
                   | PreApprovalRequired _ _ \<Rightarrow> Unreachable)))"

section \<open>Automatic retry\<close>

datatype workflow_block_effect = EffectReadOnly | EffectMutating

datatype workflow_block_reconciliation = IdempotentReplay | ReceiptStatus | RepairRequired

datatype automatic_retry_failure_kind =
    OwnerUnavailableBeforeAcceptance | OwnerReportedRetryable | CancellationFailure | TerminalTimeout
  | ApprovalDenied | SchemaFailure | AmbiguousMutation | TerminalFailure

record automatic_retry_eligibility =
  re_version :: u32
  re_effect :: workflow_block_effect
  re_reconciliation :: workflow_block_reconciliation
  re_failure :: automatic_retry_failure_kind
  re_attempts_completed :: u32
  re_max_attempts :: u32
  re_retry_cap :: u32

datatype automatic_retry_ineligible_reason =
    UnsupportedPolicyVersion | InvalidLimit | AttemptsExhausted | ReasonCancellation | ReasonTerminalTimeout
  | ReasonApprovalDenied | ReasonSchemaFailure | ReasonAmbiguousMutation | ReasonTerminalFailure
  | UnsafeEffectOrReconciliation

datatype automatic_retry_decision = Eligible u32 | Ineligible automatic_retry_ineligible_reason

definition WORKFLOW_AUTOMATIC_RETRY_POLICY_VERSION :: u32 where
  "WORKFLOW_AUTOMATIC_RETRY_POLICY_VERSION = 1"

fun excluded_failure :: "automatic_retry_failure_kind \<Rightarrow> automatic_retry_ineligible_reason option" where
  "excluded_failure CancellationFailure = Some ReasonCancellation"
| "excluded_failure TerminalTimeout = Some ReasonTerminalTimeout"
| "excluded_failure ApprovalDenied = Some ReasonApprovalDenied"
| "excluded_failure SchemaFailure = Some ReasonSchemaFailure"
| "excluded_failure AmbiguousMutation = Some ReasonAmbiguousMutation"
| "excluded_failure TerminalFailure = Some ReasonTerminalFailure"
| "excluded_failure OwnerUnavailableBeforeAcceptance = None"
| "excluded_failure OwnerReportedRetryable = None"

fun retry_is_safe :: "automatic_retry_failure_kind \<Rightarrow> workflow_block_effect \<Rightarrow> workflow_block_reconciliation \<Rightarrow> bool" where
  "retry_is_safe OwnerUnavailableBeforeAcceptance _ _ = True"
| "retry_is_safe OwnerReportedRetryable EffectReadOnly r = (r \<in> {IdempotentReplay, ReceiptStatus})"
| "retry_is_safe OwnerReportedRetryable EffectMutating r = (r = ReceiptStatus)"
| "retry_is_safe _ _ _ = False"

definition automatic_retry_decision :: "automatic_retry_eligibility \<Rightarrow> automatic_retry_decision" where
  "automatic_retry_decision e =
     (if re_version e \<noteq> WORKFLOW_AUTOMATIC_RETRY_POLICY_VERSION then Ineligible UnsupportedPolicyVersion
      else if re_max_attempts e = 0 \<or> re_retry_cap e = 0 then Ineligible InvalidLimit
      else (let effective_limit = (if re_max_attempts e < re_retry_cap e then re_max_attempts e else re_retry_cap e)
            in if re_attempts_completed e = - 1 then Ineligible AttemptsExhausted
               else (let next_attempt = re_attempts_completed e + 1
                     in if next_attempt > effective_limit then Ineligible AttemptsExhausted
                        else (case excluded_failure (re_failure e) of
                                Some reason \<Rightarrow> Ineligible reason
                              | None \<Rightarrow>
                                  if retry_is_safe (re_failure e) (re_effect e) (re_reconciliation e)
                                  then Eligible next_attempt else Ineligible UnsafeEffectOrReconciliation))))"

record workflow_automatic_retry_policy =
  rp_version :: u32
  rp_max_attempts :: u32
  rp_eligible_failures :: "automatic_retry_failure_kind list"
  rp_initial_backoff_ms :: u64
  rp_backoff_multiplier :: u32
  rp_maximum_backoff_ms :: u64

definition validate_retry_policy :: "workflow_automatic_retry_policy \<Rightarrow> workflow_error + unit" where
  "validate_retry_policy p =
     (if rp_version p \<noteq> WORKFLOW_AUTOMATIC_RETRY_POLICY_VERSION \<or> rp_max_attempts p = 0
         \<or> rp_initial_backoff_ms p = 0 \<or> rp_maximum_backoff_ms p < rp_initial_backoff_ms p
         \<or> rp_maximum_backoff_ms p > 86400000 \<or> rp_backoff_multiplier p = 0 \<or> rp_backoff_multiplier p > 100
         \<or> rp_eligible_failures p = []
      then Inl (BuildError (str ''automatic_retry'') (str ''retry version, limits, backoff, or failure inventory is invalid''))
      else if \<not> distinct (rp_eligible_failures p) \<or>
              (\<exists>f \<in> set (rp_eligible_failures p). f \<notin> {OwnerUnavailableBeforeAcceptance, OwnerReportedRetryable})
      then Inl (BuildError (str ''automatic_retry.eligible_failures'')
             (str ''retry failure classes must be unique and safely owner-retryable''))
      else Inr ())"

definition retry_policy_admits :: "workflow_automatic_retry_policy \<Rightarrow> automatic_retry_failure_kind \<Rightarrow> bool" where
  "retry_policy_admits p f \<longleftrightarrow> f \<in> set (rp_eligible_failures p)"

text \<open>\<open>saturating_mul\<close> and \<open>checked_pow\<close> of \<open>u64\<close>.\<close>

definition saturating_mul64 :: "u64 \<Rightarrow> u64 \<Rightarrow> u64" where
  "saturating_mul64 a b = (if unat a * unat b < 2 ^ 64 then a * b else - 1)"

definition checked_pow64 :: "u64 \<Rightarrow> nat \<Rightarrow> u64 option" where
  "checked_pow64 a n = (if unat a ^ n < 2 ^ 64 then Some (a ^ n) else None)"

definition saturating_sub32 :: "u32 \<Rightarrow> u32 \<Rightarrow> u32" where
  "saturating_sub32 a b = (if b \<le> a then a - b else 0)"

definition backoff_ms :: "workflow_automatic_retry_policy \<Rightarrow> u32 \<Rightarrow> workflow_error + u64" where
  "backoff_ms p next_attempt =
     (case checked_pow64 (ucast (rp_backoff_multiplier p)) (unat (saturating_sub32 next_attempt 2)) of
        None \<Rightarrow> Inl (BuildError (str ''automatic_retry.backoff_multiplier'') (str ''retry backoff multiplier overflow''))
      | Some multiplier \<Rightarrow>
          Inr (min (saturating_mul64 (rp_initial_backoff_ms p) multiplier) (rp_maximum_backoff_ms p)))"

section \<open>Facts\<close>

lemma preflight_Authorized:
  assumes "preflight_workflow_policy request = PreAuthorized effective audit"
  shows "effective = wp_node request" and "effective \<le> wp_profile request"
    and "effective \<le> wp_initiating request \<or> (\<exists>grant. wp_grant request = Some grant \<and>
      pg_scope grant = wp_scope request \<and> effective \<le> pg_capability grant \<and> validate_policy_grant grant = Inr ())"
proof -
  have scope: "validate_grant_scope (wp_scope request) = Inr ()" and profile: "\<not> wp_node request > wp_profile request"
    using assms by (auto simp: preflight_workflow_policy_def split: sum.splits if_splits)
  show "effective = wp_node request"
    using assms scope profile by (simp add: preflight_workflow_policy_def split: if_splits option.splits)
  with profile show "effective \<le> wp_profile request" by simp
  show "effective \<le> wp_initiating request \<or> (\<exists>grant. wp_grant request = Some grant \<and>
      pg_scope grant = wp_scope request \<and> effective \<le> pg_capability grant \<and> validate_policy_grant grant = Inr ())"
  proof (cases "wp_node request \<le> wp_initiating request")
    case False
    then obtain grant where "wp_grant request = Some grant" "pg_scope grant = wp_scope request"
      "\<not> pg_capability grant < wp_node request" "\<not> is_blank (pg_grant_id grant)"
      "\<not> byte_len (pg_grant_id grant) > MAX_POLICY_GRANT_ID_BYTES"
      using assms scope profile by (simp add: preflight_workflow_policy_def split: if_splits option.splits)
    with scope \<open>effective = wp_node request\<close> show ?thesis by (simp add: validate_policy_grant_def not_less)
  qed (simp add: \<open>effective = wp_node request\<close>)
qed

lemma granted_settles:
  "preflight_workflow_policy (request\<lparr>wp_grant := Some grant\<rparr>) \<noteq> PreApprovalRequired c scope"
  by (simp add: preflight_workflow_policy_def split: sum.splits)

lemma authorize_reachable: "authorize_workflow_policy request resolver \<noteq> Unreachable"
  by (auto simp: authorize_workflow_policy_def Let_def granted_settles
      split: workflow_policy_preflight.splits sum.splits option.splits)

text \<open>
  Authority comes from the profile, and beyond the initiating context only from a grant that the
  request carries or the host answers for exactly this node's scope.
\<close>

lemma authorize_Authorized:
  assumes "authorize_workflow_policy request resolver = PolicyAuthorized effective audit"
  shows "effective = wp_node request" and "effective \<le> wp_profile request"
    and "effective \<le> wp_initiating request \<or> (\<exists>grant. (wp_grant request = Some grant \<or>
        wp_grant request = None \<and> resolver (wp_node request) (wp_scope request) = Inr (Some grant)) \<and>
      pg_scope grant = wp_scope request \<and> effective \<le> pg_capability grant \<and> validate_policy_grant grant = Inr ())"
proof -
  consider "preflight_workflow_policy request = PreAuthorized effective audit"
    | requested scope grant where "preflight_workflow_policy request = PreApprovalRequired requested scope"
      "resolver requested scope = Inr (Some grant)"
      "preflight_workflow_policy (request\<lparr>wp_grant := Some grant\<rparr>) = PreAuthorized effective audit"
    using assms by (auto simp: authorize_workflow_policy_def Let_def
        split: workflow_policy_preflight.splits sum.splits option.splits)
  then have "effective = wp_node request \<and> effective \<le> wp_profile request \<and>
    (effective \<le> wp_initiating request \<or> (\<exists>grant. (wp_grant request = Some grant \<or>
        wp_grant request = None \<and> resolver (wp_node request) (wp_scope request) = Inr (Some grant)) \<and>
      pg_scope grant = wp_scope request \<and> effective \<le> pg_capability grant \<and> validate_policy_grant grant = Inr ()))"
  proof cases
    case 1
    with preflight_Authorized[OF 1] show ?thesis by blast
  next
    case 2
    then have "requested = wp_node request" "scope = wp_scope request" "wp_grant request = None"
      by (auto simp: preflight_workflow_policy_def split: sum.splits if_splits option.splits)
    with preflight_Authorized[OF 2(3)] 2(2) show ?thesis by simp
  qed
  then show "effective = wp_node request" and "effective \<le> wp_profile request"
    and "effective \<le> wp_initiating request \<or> (\<exists>grant. (wp_grant request = Some grant \<or>
        wp_grant request = None \<and> resolver (wp_node request) (wp_scope request) = Inr (Some grant)) \<and>
      pg_scope grant = wp_scope request \<and> effective \<le> pg_capability grant \<and> validate_policy_grant grant = Inr ())"
    by blast+
qed

text \<open>A retry is eligible only within both limits and where the repetition is provably harmless.\<close>

lemma retry_eligible:
  assumes "automatic_retry_decision e = Eligible n"
  shows "unat n = unat (re_attempts_completed e) + 1" and "n \<le> re_max_attempts e" and "n \<le> re_retry_cap e"
    and "re_failure e = OwnerUnavailableBeforeAcceptance \<or> re_failure e = OwnerReportedRetryable \<and>
      re_reconciliation e \<noteq> RepairRequired \<and> (re_effect e = EffectMutating \<longrightarrow> re_reconciliation e = ReceiptStatus)"
proof -
  from assms have n: "n = re_attempts_completed e + 1" and top: "re_attempts_completed e \<noteq> - 1"
    and lim: "\<not> n > (if re_max_attempts e < re_retry_cap e then re_max_attempts e else re_retry_cap e)"
    and safe: "retry_is_safe (re_failure e) (re_effect e) (re_reconciliation e)"
    by (auto simp: automatic_retry_decision_def Let_def split: if_splits option.splits)
  show "unat n = unat (re_attempts_completed e) + 1"
    using n top by (metis Suc_eq_plus1 add.commute unatSuc add_eq_0_iff)
  show "n \<le> re_max_attempts e" "n \<le> re_retry_cap e" using lim by (auto split: if_splits)
  show "re_failure e = OwnerUnavailableBeforeAcceptance \<or> re_failure e = OwnerReportedRetryable \<and>
      re_reconciliation e \<noteq> RepairRequired \<and> (re_effect e = EffectMutating \<longrightarrow> re_reconciliation e = ReceiptStatus)"
    using safe by (cases "(re_failure e, re_effect e, re_reconciliation e)" rule: retry_is_safe.cases) auto
qed

text \<open>The backoff in the numbers: the power of the multiplier, capped.\<close>

lemma unat_saturating_mul64: "unat (saturating_mul64 a b) = min (unat a * unat b) (2 ^ 64 - 1)"
  using unat_mult_lem[of a b] by (auto simp: saturating_mul64_def unsigned_minus_1_eq_mask mask_eq_exp_minus_1)

lemma checked_pow64_Some: "checked_pow64 a n = Some p \<longleftrightarrow> unat a ^ n < 2 ^ 64 \<and> unat p = unat a ^ n"
proof -
  have "unat (a ^ n) = unat a ^ n" if "unat a ^ n < 2 ^ 64"
  proof -
    have "unat (a ^ n) = unat (word_of_nat (unat a ^ n) :: u64)" by simp
    also have "\<dots> = take_bit 64 (unat a ^ n)" unfolding unsigned_of_nat by simp
    finally show ?thesis using that by (simp add: take_bit_nat_eq_self)
  qed
  then show ?thesis by (auto simp: checked_pow64_def) (metis word_unat_eq_iff)
qed

lemma backoff_value:
  "backoff_ms p n = Inr d \<longleftrightarrow> unat (rp_backoff_multiplier p) ^ (unat n - 2) < 2 ^ 64 \<and>
     unat d = min (unat (rp_initial_backoff_ms p) * unat (rp_backoff_multiplier p) ^ (unat n - 2)) (unat (rp_maximum_backoff_ms p))"
proof -
  have m: "unat (ucast (rp_backoff_multiplier p) :: u64) = unat (rp_backoff_multiplier p)"
  proof -
    have "unat (rp_backoff_multiplier p) < 2 ^ 64"
      by (rule less_trans[OF unsigned_less]) simp
    then show ?thesis by (simp add: unsigned_ucast_eq take_bit_nat_eq_self)
  qed
  have e: "unat (saturating_sub32 n 2) = unat n - 2"
    by (auto simp: saturating_sub32_def unat_sub word_le_nat_alt)
  have le: "unat (min a b) = min (unat a) (unat b)" for a b :: u64
    by (simp add: min_def word_le_nat_alt)
  have top: "unat (rp_maximum_backoff_ms p) \<le> 2 ^ 64 - 1"
    using unsigned_less[where 'a = nat, of "rp_maximum_backoff_ms p"] by simp
  show ?thesis
  proof (cases "checked_pow64 (ucast (rp_backoff_multiplier p)) (unat (saturating_sub32 n 2))")
    case None
    then show ?thesis using m e by (simp add: backoff_ms_def checked_pow64_def split: if_splits)
  next
    case (Some k)
    then have k: "unat (rp_backoff_multiplier p) ^ (unat n - 2) < 2 ^ 64" "unat k = unat (rp_backoff_multiplier p) ^ (unat n - 2)"
      using m e by (simp_all add: checked_pow64_Some)
    have "backoff_ms p n = Inr d \<longleftrightarrow> d = min (saturating_mul64 (rp_initial_backoff_ms p) k) (rp_maximum_backoff_ms p)"
      using Some by (auto simp: backoff_ms_def)
    also have "\<dots> \<longleftrightarrow> unat d = min (min (unat (rp_initial_backoff_ms p) * unat k) (2 ^ 64 - 1)) (unat (rp_maximum_backoff_ms p))"
      by (simp add: word_unat_eq_iff le unat_saturating_mul64)
    also have "\<dots> \<longleftrightarrow> unat d = min (unat (rp_initial_backoff_ms p) * unat k) (unat (rp_maximum_backoff_ms p))"
      using top by (simp add: min.assoc min_absorb2)
    finally show ?thesis using k by simp
  qed
qed

lemma backoff_exists:
  "(\<exists>d. backoff_ms p n = Inr d) \<longleftrightarrow> unat (rp_backoff_multiplier p) ^ (unat n - 2) < 2 ^ 64"
proof -
  let ?d = "min (unat (rp_initial_backoff_ms p) * unat (rp_backoff_multiplier p) ^ (unat n - 2)) (unat (rp_maximum_backoff_ms p))"
  have "?d < 2 ^ 64"
    using unsigned_less[where 'a = nat, of "rp_maximum_backoff_ms p"] by (simp add: min_less_iff_disj)
  then have "unat (word_of_nat ?d :: u64) = ?d" by (simp add: unsigned_of_nat take_bit_nat_eq_self)
  then show ?thesis unfolding backoff_value by blast
qed

lemma backoff_monotone:
  assumes "backoff_ms p n = Inr d" and "backoff_ms p n' = Inr d'" and "n \<le> n'" and "0 < rp_backoff_multiplier p"
  shows "d \<le> d'"
proof -
  have "unat (rp_backoff_multiplier p) ^ (unat n - 2) \<le> unat (rp_backoff_multiplier p) ^ (unat n' - 2)"
    using assms(3,4) by (intro power_increasing) (auto simp: word_le_nat_alt unat_gt_0 Suc_leI)
  then have "unat d \<le> unat d'"
    using assms(1,2) unfolding backoff_value by (simp add: min.coboundedI1 min_le_iff_disj)
  then show ?thesis by (simp add: word_le_nat_alt)
qed

end
