(* ===== verification/Workflow_Transforms.thy ===== *)
theory Workflow_Transforms
  imports Workflow_Values
begin

text \<open>
  The declarative transforms on workflow edges (\<open>packages/workflow/src/lib.rs\<close>): validation and
  evaluation with the depth and operation budgets threaded as the code threads its counter, and
  a reference evaluator without budgets.
\<close>

section \<open>Expressions\<close>

datatype transform_merge_conflict = RejectConflict | KeepFirst | KeepLast

datatype 'num transform_expression =
    InputExpr ustring ustring
  | SelectedInput ustring workflow_value_selector
  | ConstantExpr "'num json"
  | ObjectExpr "(ustring \<times> 'num transform_expression) list"
  | ArrayExpr "'num transform_expression list"
  | MergeExpr "'num transform_expression list" transform_merge_conflict
  | IncrementExpr "'num transform_expression" "64 word"
  | DefaultExpr "'num transform_expression" "'num transform_expression"

record 'num workflow_transform =
  wt_version :: u32
  wt_expression :: "'num transform_expression"
  wt_output :: "'num value_schema"

type_synonym 'num transform_inputs = "(ustring \<times> 'num json) list"

section \<open>Budgets\<close>

definition MAX_TRANSFORM_DEPTH :: nat where "MAX_TRANSFORM_DEPTH = 16"
definition MAX_TRANSFORM_OPERATIONS :: nat where "MAX_TRANSFORM_OPERATIONS = 256"
definition MAX_TRANSFORM_FIELDS :: nat where "MAX_TRANSFORM_FIELDS = 256"
definition MAX_TRANSFORM_VALUE_BYTES :: nat where "MAX_TRANSFORM_VALUE_BYTES = 1048576"
definition WORKFLOW_TRANSFORM_VERSION :: u32 where "WORKFLOW_TRANSFORM_VERSION = 2"
definition WORKFLOW_TRANSFORM_MIN_VERSION :: u32 where "WORKFLOW_TRANSFORM_MIN_VERSION = 1"

text \<open>The result of a check or an evaluation next to the operation counter it leaves.\<close>

type_synonym 'a counted = "(workflow_error + 'a) \<times> nat"

definition check_transform_budget :: "nat \<Rightarrow> nat \<Rightarrow> unit counted" where
  "check_transform_budget depth operations =
     (if depth > MAX_TRANSFORM_DEPTH
      then (Inl (BuildError (str ''transform'') (str ''transform depth exceeds 16'')), operations)
      else if operations + 1 \<ge> 2 ^ 64
      then (Inl (BuildError (str ''transform'') (str ''transform operation count overflow'')), operations)
      else if operations + 1 > MAX_TRANSFORM_OPERATIONS
      then (Inl (BuildError (str ''transform'') (str ''transform operations exceed 256'')), operations + 1)
      else (Inr (), operations + 1))"

fun then_counted :: "'a counted \<Rightarrow> ('a \<Rightarrow> nat \<Rightarrow> 'b counted) \<Rightarrow> 'b counted" where
  "then_counted (Inl e, n) f = (Inl e, n)"
| "then_counted (Inr x, n) f = f x n"

lemma then_counted_cong [fundef_cong]:
  "r = r' \<Longrightarrow> (\<And>x n. r' = (Inr x, n) \<Longrightarrow> f x n = g x n) \<Longrightarrow> then_counted r f = then_counted r' g"
  by (cases "(r', g)" rule: then_counted.cases) auto

text \<open>The value bound: depth first, then encoded bytes.\<close>

fun json_depth_ok :: "nat \<Rightarrow> 'num json \<Rightarrow> bool" where
  "json_depth_ok depth (JArray items) \<longleftrightarrow>
     depth \<le> MAX_TRANSFORM_DEPTH \<and> (\<forall>v \<in> set items. json_depth_ok (depth + 1) v)"
| "json_depth_ok depth (JObject kvs) \<longleftrightarrow>
     depth \<le> MAX_TRANSFORM_DEPTH \<and> (\<forall>(k, v) \<in> set kvs. json_depth_ok (depth + 1) v)"
| "json_depth_ok depth _ \<longleftrightarrow> depth \<le> MAX_TRANSFORM_DEPTH"

definition ensure_transform_value_bound ::
    "('num, 'f) value_env \<Rightarrow> ustring \<Rightarrow> 'num json \<Rightarrow> workflow_error + unit" where
  "ensure_transform_value_bound env path value =
     (if \<not> json_depth_ok 0 value then Inl (BuildError path (str ''transform JSON depth exceeds 16''))
      else (case ve_encode env value of
              Inl e \<Rightarrow> Inl (BuildError path e)
            | Inr n \<Rightarrow> if n > MAX_TRANSFORM_VALUE_BYTES
                       then Inl (BuildError path (str ''transform value exceeds 1048576 bytes'')) else Inr ()))"

section \<open>Validation\<close>

definition validate_transform_leaf ::
    "('num, 'f) value_env \<Rightarrow> u32 \<Rightarrow> 'num transform_expression \<Rightarrow> workflow_error + unit" where
  "validate_transform_leaf env version e =
     (case e of
        InputExpr source path \<Rightarrow>
          if is_blank source \<or> byte_len source > 256 \<or> byte_len path > 512
          then Inl (BuildError (str ''transform.input'') (str ''transform input source/path exceeds bounds''))
          else Inr ()
      | SelectedInput source selector \<Rightarrow>
          if version < 2
          then Inl (BuildError (str ''transform.selected_input'') (str ''selected input requires transform version 2''))
          else if is_blank source \<or> byte_len source > 256
          then Inl (BuildError (str ''transform.selected_input'') (str ''transform input source exceeds bounds''))
          else validate_selector selector
      | ConstantExpr value \<Rightarrow> ensure_transform_value_bound env (str ''transform.constant'') value
      | ObjectExpr kvs \<Rightarrow>
          if length kvs > MAX_TRANSFORM_FIELDS \<or> (\<exists>(k, _) \<in> set kvs. k = [] \<or> byte_len k > 256)
          then Inl (BuildError (str ''transform.object'') (str ''transform object fields exceed 256''))
          else Inr ()
      | ArrayExpr items \<Rightarrow>
          if length items > MAX_TRANSFORM_FIELDS
          then Inl (BuildError (str ''transform.array'') (str ''transform items exceed 256'')) else Inr ()
      | MergeExpr items _ \<Rightarrow>
          if length items > MAX_TRANSFORM_FIELDS
          then Inl (BuildError (str ''transform.array'') (str ''transform items exceed 256'')) else Inr ()
      | _ \<Rightarrow> Inr ())"

fun subexpressions :: "'num transform_expression \<Rightarrow> 'num transform_expression list" where
  "subexpressions (ObjectExpr kvs) = map snd kvs"
| "subexpressions (ArrayExpr items) = items"
| "subexpressions (MergeExpr items _) = items"
| "subexpressions (IncrementExpr v _) = [v]"
| "subexpressions (DefaultExpr v d) = [v, d]"
| "subexpressions _ = []"

lemma subexpressions_size [termination_simp]: "e' \<in> set (subexpressions e) \<Longrightarrow> size e' < size e"
proof (cases e)
  case (ObjectExpr kvs)
  assume "e' \<in> set (subexpressions e)"
  with ObjectExpr obtain kv where "kv \<in> set kvs" "e' = snd kv" by auto
  then have "size e' \<le> size_list (size_prod (\<lambda>_. 0) size) kvs"
    by (intro size_list_estimation'[of kv]) (auto simp: size_prod_simp)
  with ObjectExpr show ?thesis by simp
qed (auto simp: less_Suc_eq_le dest: size_list_estimation'[OF _ order.refl, where f = size])

text \<open>The number of operations of an expression and the levels below it.\<close>

fun transform_operations :: "'num transform_expression \<Rightarrow> nat" where
  "transform_operations e = 1 + sum_list (map transform_operations (subexpressions e))"

declare transform_operations.simps [simp del]

lemma transform_operations_pos [simp]: "0 < transform_operations e"
  by (simp add: transform_operations.simps)

function validate_transform_expression ::
    "('num, 'f) value_env \<Rightarrow> u32 \<Rightarrow> 'num transform_expression \<Rightarrow> nat \<Rightarrow> nat \<Rightarrow> unit counted"
  and validate_transform_items ::
    "('num, 'f) value_env \<Rightarrow> u32 \<Rightarrow> 'num transform_expression list \<Rightarrow> nat \<Rightarrow> nat \<Rightarrow> unit counted"
where
  "validate_transform_expression env version e depth operations =
     then_counted (check_transform_budget depth operations) (\<lambda>_ n.
       then_counted (validate_transform_leaf env version e, n) (\<lambda>_ n.
         validate_transform_items env version (subexpressions e) (depth + 1) n))"
| "validate_transform_items env version [] depth operations = (Inr (), operations)"
| "validate_transform_items env version (e # es) depth operations =
     then_counted (validate_transform_expression env version e depth operations) (\<lambda>_ n.
       validate_transform_items env version es depth n)"
  by pat_completeness auto

termination
  by (relation "measure (case_sum (\<lambda>(_, _, e, _). 2 * transform_operations e)
        (\<lambda>(_, _, es, _). 2 * sum_list (map transform_operations es) + 1))")
    (auto simp: transform_operations.simps[of e for e])

declare validate_transform_expression.simps [simp del]

definition schema_valid :: "('num, 'f) value_env \<Rightarrow> 'num value_schema \<Rightarrow> workflow_error + ('num json \<Rightarrow> ustring option)" where
  "schema_valid env schema =
     map_err (\<lambda>e. BuildError (str ''transform.output'') (str ''invalid transform output schema: '' @ e))
       (ve_validator env (vs_schema schema))"

definition validate_transform :: "('num, 'f) value_env \<Rightarrow> 'num workflow_transform \<Rightarrow> workflow_error + unit" where
  "validate_transform env t =
     (if \<not> (WORKFLOW_TRANSFORM_MIN_VERSION \<le> wt_version t \<and> wt_version t \<le> WORKFLOW_TRANSFORM_VERSION)
      then Inl (BuildError (str ''transform.version'')
             (str ''unsupported workflow transform version '' @ show_nat (unat (wt_version t)) @ str ''; expected 1 through 2''))
      else (case schema_valid env (wt_output t) of
              Inl e \<Rightarrow> Inl e
            | Inr _ \<Rightarrow> fst (validate_transform_expression env (wt_version t) (wt_expression t) 0 0)))"

fun expression_sources :: "'num transform_expression \<Rightarrow> ustring set" where
  "expression_sources (InputExpr source _) = {source}"
| "expression_sources (SelectedInput source _) = {source}"
| "expression_sources e = (\<Union>e' \<in> set (subexpressions e). expression_sources e')"

definition referenced_sources :: "'num workflow_transform \<Rightarrow> ustring set" where
  "referenced_sources t = expression_sources (wt_expression t)"

section \<open>Evaluation\<close>

definition field_not_present :: ustring where
  "field_not_present = str ''transform input field was not present''"

definition unknown_input :: "ustring \<Rightarrow> workflow_error" where
  "unknown_input source = BuildError source (str ''transform references an unknown named input'')"

fun merge_fields ::
    "transform_merge_conflict \<Rightarrow> (ustring, 'num json) btree \<Rightarrow> (ustring \<times> 'num json) list
       \<Rightarrow> workflow_error + (ustring, 'num json) btree" where
  "merge_fields conflict merged [] = Inr merged"
| "merge_fields conflict merged ((field, v) # rest) =
     (if bt_get merged field \<noteq> None \<and> conflict = RejectConflict
      then Inl (BuildError field (str ''transform merge field conflict''))
      else if bt_get merged field \<noteq> None \<and> conflict = KeepFirst
      then merge_fields conflict merged rest
      else merge_fields conflict (bt_insert field v merged) rest)"

definition merge_object ::
    "transform_merge_conflict \<Rightarrow> (ustring, 'num json) btree \<Rightarrow> 'num json \<Rightarrow> workflow_error + (ustring, 'num json) btree" where
  "merge_object conflict merged v =
     (case v of
        JObject kvs \<Rightarrow> merge_fields conflict merged kvs
      | _ \<Rightarrow> Inl (BuildError (str ''transform.merge'') (str ''transform merge inputs must be objects'')))"

definition increment_value :: "('num, 'f) value_env \<Rightarrow> 64 word \<Rightarrow> 'num json \<Rightarrow> workflow_error + 'num json" where
  "increment_value env by v =
     (case (case v of JNumber n \<Rightarrow> ve_as_i64 env n | _ \<Rightarrow> None) of
        None \<Rightarrow> Inl (BuildError (str ''transform.increment'') (str ''transform increment input must be a signed integer''))
      | Some i \<Rightarrow>
          if - (2 ^ 63) \<le> sint i + sint by \<and> sint i + sint by < 2 ^ 63
          then Inr (JNumber (ve_from_i64 env (i + by)))
          else Inl (BuildError (str ''transform.increment'') (str ''transform increment overflow'')))"

definition missing_field :: "workflow_error + 'num json \<Rightarrow> bool" where
  "missing_field r \<longleftrightarrow>
     (case r of Inr JNull \<Rightarrow> True | Inl (BuildError _ message) \<Rightarrow> message = field_not_present | _ \<Rightarrow> False)"

function evaluate_transform_expression ::
    "('num, 'f) value_env \<Rightarrow> 'num transform_inputs \<Rightarrow> 'num transform_expression \<Rightarrow> nat \<Rightarrow> nat \<Rightarrow> 'num json counted"
  and evaluate_transform_items ::
    "('num, 'f) value_env \<Rightarrow> 'num transform_inputs \<Rightarrow> 'num transform_expression list \<Rightarrow> nat \<Rightarrow> nat
       \<Rightarrow> 'num json list counted"
  and evaluate_transform_merge ::
    "('num, 'f) value_env \<Rightarrow> 'num transform_inputs \<Rightarrow> transform_merge_conflict \<Rightarrow> (ustring, 'num json) btree
       \<Rightarrow> 'num transform_expression list \<Rightarrow> nat \<Rightarrow> nat \<Rightarrow> 'num json counted"
where
  "evaluate_transform_expression env inputs e depth operations =
     then_counted (check_transform_budget depth operations) (\<lambda>_ n.
       case e of
         InputExpr source path \<Rightarrow>
           (case map_of inputs source of
              None \<Rightarrow> (Inl (unknown_input source), n)
            | Some v \<Rightarrow> (ok_or (BuildError path field_not_present) (follow v (path_parts path)), n))
       | SelectedInput source selector \<Rightarrow>
           (case map_of inputs source of
              None \<Rightarrow> (Inl (unknown_input source), n)
            | Some v \<Rightarrow> (select_value selector v, n))
       | ConstantExpr v \<Rightarrow> (Inr v, n)
       | ObjectExpr kvs \<Rightarrow>
           then_counted (evaluate_transform_items env inputs (map snd kvs) (depth + 1) n) (\<lambda>vs n.
             (Inr (JObject (zip (map fst kvs) vs)), n))
       | ArrayExpr items \<Rightarrow>
           then_counted (evaluate_transform_items env inputs items (depth + 1) n) (\<lambda>vs n. (Inr (JArray vs), n))
       | MergeExpr objects conflict \<Rightarrow> evaluate_transform_merge env inputs conflict [] objects (depth + 1) n
       | IncrementExpr value by \<Rightarrow>
           then_counted (evaluate_transform_expression env inputs value (depth + 1) n) (\<lambda>v n.
             (increment_value env by v, n))
       | DefaultExpr value fallback \<Rightarrow>
           (case evaluate_transform_expression env inputs value (depth + 1) n of
              (r, n) \<Rightarrow> if missing_field r then evaluate_transform_expression env inputs fallback (depth + 1) n
                        else (r, n)))"
| "evaluate_transform_items env inputs [] depth operations = (Inr [], operations)"
| "evaluate_transform_items env inputs (e # es) depth operations =
     then_counted (evaluate_transform_expression env inputs e depth operations) (\<lambda>v n.
       then_counted (evaluate_transform_items env inputs es depth n) (\<lambda>vs n. (Inr (v # vs), n)))"
| "evaluate_transform_merge env inputs conflict merged [] depth operations = (Inr (JObject merged), operations)"
| "evaluate_transform_merge env inputs conflict merged (e # es) depth operations =
     then_counted (evaluate_transform_expression env inputs e depth operations) (\<lambda>v n.
       then_counted (merge_object conflict merged v, n) (\<lambda>merged n.
         evaluate_transform_merge env inputs conflict merged es depth n))"
  by pat_completeness auto

termination
  by (relation "measure (case_sum (\<lambda>(_, _, e, _). 2 * transform_operations e)
        (case_sum (\<lambda>(_, _, es, _). 2 * sum_list (map transform_operations es) + 1)
           (\<lambda>(_, _, _, _, es, _). 2 * sum_list (map transform_operations es) + 1)))")
    (auto simp: transform_operations.simps[of "ObjectExpr x" for x] transform_operations.simps[of "ArrayExpr x" for x]
      transform_operations.simps[of "MergeExpr x y" for x y] transform_operations.simps[of "IncrementExpr x y" for x y]
      transform_operations.simps[of "DefaultExpr x y" for x y])

declare evaluate_transform_expression.simps [simp del]

fun named_inputs :: "(ustring \<times> 'num json) list \<Rightarrow> 'num transform_inputs \<Rightarrow> workflow_error + 'num transform_inputs" where
  "named_inputs [] named = Inr named"
| "named_inputs ((name, v) # rest) named =
     (if is_blank name \<or> bt_get named name \<noteq> None
      then Inl (BuildError (str ''transform.inputs'') (str ''transform input names must be non-empty and unique''))
      else named_inputs rest (bt_insert name v named))"

definition check_output :: "('num, 'f) value_env \<Rightarrow> 'num value_schema \<Rightarrow> 'num json \<Rightarrow> workflow_error + 'num json" where
  "check_output env schema v =
     (case ensure_transform_value_bound env (str ''transform.output'') v of
        Inl e \<Rightarrow> Inl e
      | Inr _ \<Rightarrow>
          (case schema_valid env schema of
             Inl e \<Rightarrow> Inl e
           | Inr validate \<Rightarrow>
               (case validate v of
                  Some e \<Rightarrow> Inl (BuildError (str ''transform.output'')
                              (str ''transform output does not match its declared schema: '' @ e))
                | None \<Rightarrow> Inr v)))"

definition evaluate_transform ::
    "('num, 'f) value_env \<Rightarrow> 'num workflow_transform \<Rightarrow> (ustring \<times> 'num json) list \<Rightarrow> workflow_error + 'num json" where
  "evaluate_transform env t inputs =
     (case validate_transform env t of
        Inl e \<Rightarrow> Inl e
      | Inr _ \<Rightarrow>
          (case named_inputs inputs [] of
             Inl e \<Rightarrow> Inl e
           | Inr named \<Rightarrow>
               (case fst (evaluate_transform_expression env named (wt_expression t) 0 0) of
                  Inl e \<Rightarrow> Inl e
                | Inr v \<Rightarrow> check_output env (wt_output t) v)))"

section \<open>The reference evaluator\<close>

fun try_fold :: "('s \<Rightarrow> 'a \<Rightarrow> 'e + 's) \<Rightarrow> 's \<Rightarrow> 'a list \<Rightarrow> 'e + 's" where
  "try_fold f s [] = Inr s"
| "try_fold f s (x # xs) = (case f s x of Inl e \<Rightarrow> Inl e | Inr s' \<Rightarrow> try_fold f s' xs)"

lemma try_fold_cong [fundef_cong]:
  "xs = ys \<Longrightarrow> s = t \<Longrightarrow> (\<And>u x. x \<in> set ys \<Longrightarrow> f u x = g u x) \<Longrightarrow> try_fold f s xs = try_fold g t ys"
proof (induction ys arbitrary: xs s t)
  case (Cons y ys)
  then show ?case by (auto split: sum.splits)
qed simp

lemma traverse_cong [fundef_cong]:
  "xs = ys \<Longrightarrow> (\<And>x. x \<in> set ys \<Longrightarrow> f x = g x) \<Longrightarrow> traverse f xs = traverse g ys"
proof (induction ys arbitrary: xs)
  case (Cons y ys)
  then show ?case by (auto split: sum.splits)
qed simp

definition result_bind :: "'e + 'a \<Rightarrow> ('a \<Rightarrow> 'e + 'b) \<Rightarrow> 'e + 'b" where
  "result_bind r f = (case r of Inl e \<Rightarrow> Inl e | Inr x \<Rightarrow> f x)"

lemma result_bind_simps [simp]: "result_bind (Inl e) f = Inl e" "result_bind (Inr x) f = f x"
  by (simp_all add: result_bind_def)

lemma result_bind_cong [fundef_cong]:
  "r = r' \<Longrightarrow> (\<And>x. r' = Inr x \<Longrightarrow> f x = g x) \<Longrightarrow> result_bind r f = result_bind r' g"
  by (cases r') auto

text \<open>What an expression means, without budgets or counters.\<close>

function denote :: "('num, 'f) value_env \<Rightarrow> 'num transform_inputs \<Rightarrow> 'num transform_expression \<Rightarrow> workflow_error + 'num json" where
  "denote env inputs (InputExpr source path) =
     result_bind (ok_or (unknown_input source) (map_of inputs source)) (\<lambda>v.
       ok_or (BuildError path field_not_present) (follow v (path_parts path)))"
| "denote env inputs (SelectedInput source selector) =
     result_bind (ok_or (unknown_input source) (map_of inputs source)) (select_value selector)"
| "denote env inputs (ConstantExpr v) = Inr v"
| "denote env inputs (ObjectExpr kvs) =
     result_bind (traverse (denote env inputs) (map snd kvs)) (\<lambda>vs. Inr (JObject (zip (map fst kvs) vs)))"
| "denote env inputs (ArrayExpr items) = result_bind (traverse (denote env inputs) items) (\<lambda>vs. Inr (JArray vs))"
| "denote env inputs (MergeExpr objects conflict) =
     result_bind (try_fold (\<lambda>merged e. result_bind (denote env inputs e) (merge_object conflict merged)) [] objects)
       (\<lambda>merged. Inr (JObject merged))"
| "denote env inputs (IncrementExpr value by) = result_bind (denote env inputs value) (increment_value env by)"
| "denote env inputs (DefaultExpr value fallback) =
     (if missing_field (denote env inputs value) then denote env inputs fallback else denote env inputs value)"
  by pat_completeness auto

termination
proof (relation "measure (\<lambda>(_, _, e). size e)")
  fix kvs :: "(ustring \<times> 'a transform_expression) list" and x
  assume "x \<in> set (map snd kvs)"
  then show "((env, inputs, x), (env, inputs, ObjectExpr kvs)) \<in> measure (\<lambda>(_, _, e). size e)" for env :: "('a, 'b) value_env" and inputs
    using subexpressions_size[of x "ObjectExpr kvs"] by simp
qed (auto simp: less_Suc_eq_le dest: size_list_estimation'[OF _ order.refl, where f = size])

section \<open>Facts\<close>

fun transform_within :: "nat \<Rightarrow> 'num transform_expression \<Rightarrow> bool" where
  "transform_within d e \<longleftrightarrow> d \<le> MAX_TRANSFORM_DEPTH \<and> (\<forall>e' \<in> set (subexpressions e). transform_within (d + 1) e')"

declare transform_within.simps [simp del]

lemma check_budget_ok:
  "check_transform_budget d n = (Inr (), m) \<longleftrightarrow> d \<le> 16 \<and> m = Suc n \<and> m \<le> 256"
  by (auto simp: check_transform_budget_def MAX_TRANSFORM_DEPTH_def MAX_TRANSFORM_OPERATIONS_def)

lemma then_counted_Inr:
  "then_counted r f = (Inr y, m) \<longleftrightarrow> (\<exists>x n. r = (Inr x, n) \<and> f x n = (Inr y, m))"
  by (cases "(r, f)" rule: then_counted.cases) auto

lemma validated_within:
  "validate_transform_expression env v e d n = (Inr (), m) \<Longrightarrow>
     m = n + transform_operations e \<and> m \<le> 256 \<and> transform_within d e"
  "validate_transform_items env v es d n = (Inr (), m) \<Longrightarrow>
     m = n + sum_list (map transform_operations es) \<and> (n \<le> 256 \<longrightarrow> m \<le> 256) \<and> (\<forall>e \<in> set es. transform_within d e)"
proof (induction env v e d n and env v es d n arbitrary: m and m
    rule: validate_transform_expression_validate_transform_items.induct)
  case (1 env v e d n)
  from 1(2) obtain k where k: "check_transform_budget d n = (Inr (), k)"
    and leaf: "validate_transform_leaf env v e = Inr ()"
    and items: "validate_transform_items env v (subexpressions e) (d + 1) k = (Inr (), m)"
    by (auto simp: validate_transform_expression.simps then_counted_Inr)
  from 1(1)[OF k _ items] leaf k show ?case
    by (auto simp: check_budget_ok transform_operations.simps[of e] transform_within.simps[of d] MAX_TRANSFORM_DEPTH_def)
next
  case (3 env v e es d n)
  from 3(3) obtain k where k: "validate_transform_expression env v e d n = (Inr (), k)"
    and items: "validate_transform_items env v es d k = (Inr (), m)"
    by (auto simp: then_counted_Inr)
  from 3(1)[OF k] 3(2)[OF k items] show ?case by auto
qed auto

text \<open>
  Within its bounds an expression evaluates to its meaning, and uses at most as many operations as
  it has: the unevaluated fallback of a default is what makes the difference.
\<close>

definition denotes :: "'a counted \<Rightarrow> workflow_error + 'a \<Rightarrow> nat \<Rightarrow> bool" where
  "denotes r x m \<longleftrightarrow> fst r = x \<and> (snd r \<le> m)"

lemma denotes_then:
  assumes "denotes r x m" and "\<And>y k. x = Inr y \<Longrightarrow> k \<le> m \<Longrightarrow> denotes (f y k) (g y) n" and "m \<le> n"
  shows "denotes (then_counted r f) (result_bind x g) n"
proof -
  obtain y k where r: "r = (y, k)" by fastforce
  with assms show ?thesis by (cases y) (auto simp: denotes_def)
qed

lemma counted_cases [case_names 1 2]:
  obtains e k where "r = (Inl e, k)" | x k where "r = (Inr x, k)"
  by (metis surj_pair sum.exhaust)

lemma within_step:
  assumes "transform_within d e" and "n + transform_operations e \<le> 256"
  shows "check_transform_budget d n = (Inr (), Suc n)"
    and "n + transform_operations e = Suc n + sum_list (map transform_operations (subexpressions e))"
    and "\<And>e'. e' \<in> set (subexpressions e) \<Longrightarrow> transform_within (d + 1) e'"
proof -
  show "n + transform_operations e = Suc n + sum_list (map transform_operations (subexpressions e))"
    by (simp add: transform_operations.simps[of e])
  with assms show "check_transform_budget d n = (Inr (), Suc n)"
    by (auto simp: check_budget_ok transform_within.simps[of d] MAX_TRANSFORM_DEPTH_def)
  fix e'
  assume "e' \<in> set (subexpressions e)"
  with assms(1) show "transform_within (d + 1) e'" by (simp add: transform_within.simps[of d])
qed

lemma result_bind_Inr [simp]: "result_bind r Inr = r"
  by (cases r) simp_all

lemma evaluate_denotes:
  "transform_within d e \<Longrightarrow> n + transform_operations e \<le> 256 \<Longrightarrow>
     denotes (evaluate_transform_expression env inputs e d n) (denote env inputs e) (n + transform_operations e)"
  "\<forall>e \<in> set es. transform_within d e \<Longrightarrow> n + sum_list (map transform_operations es) \<le> 256 \<Longrightarrow>
     denotes (evaluate_transform_items env inputs es d n) (traverse (denote env inputs) es)
       (n + sum_list (map transform_operations es))"
  "\<forall>e \<in> set es. transform_within d e \<Longrightarrow> n + sum_list (map transform_operations es) \<le> 256 \<Longrightarrow>
     denotes (evaluate_transform_merge env inputs conflict merged es d n)
       (result_bind (try_fold (\<lambda>merged e. result_bind (denote env inputs e) (merge_object conflict merged)) merged es)
          (\<lambda>merged. Inr (JObject merged))) (n + sum_list (map transform_operations es))"
proof (induction env inputs e d n and env inputs es d n and env inputs conflict merged es d n
    rule: evaluate_transform_expression_evaluate_transform_items_evaluate_transform_merge.induct)
  case (1 env inputs e d n)
  note w = within_step[OF 1(7,8)]
  note ev = evaluate_transform_expression.simps[of env inputs e d n, unfolded w(1) then_counted.simps]
  show ?case
  proof (cases e)
    case (ObjectExpr kvs)
    have "denotes (evaluate_transform_items env inputs (map snd kvs) (d + 1) (Suc n))
        (traverse (denote env inputs) (map snd kvs)) (n + transform_operations e)"
      using 1(1)[OF w(1) ObjectExpr] w(2,3) 1(8) ObjectExpr by simp
    then show ?thesis
      unfolding ev unfolding ObjectExpr transform_expression.case denote.simps
      by (rule denotes_then) (simp_all add: denotes_def)
  next
    case (ArrayExpr items)
    have "denotes (evaluate_transform_items env inputs items (d + 1) (Suc n))
        (traverse (denote env inputs) items) (n + transform_operations e)"
      using 1(2)[OF w(1) ArrayExpr] w(2,3) 1(8) ArrayExpr by simp
    then show ?thesis
      unfolding ev unfolding ArrayExpr transform_expression.case denote.simps
      by (rule denotes_then) (simp_all add: denotes_def)
  next
    case (MergeExpr objects conflict)
    with 1(3)[OF w(1) MergeExpr] w 1(8) show ?thesis
      unfolding ev by simp
  next
    case (IncrementExpr val delta)
    have "denotes (evaluate_transform_expression env inputs val (d + 1) (Suc n))
        (denote env inputs val) (n + transform_operations e)"
      using 1(4)[OF w(1) IncrementExpr] w(2,3) 1(8) IncrementExpr by simp
    then show ?thesis
      unfolding ev unfolding IncrementExpr transform_expression.case denote.simps
      by (rule denotes_then) (simp_all add: denotes_def)
  next
    case (DefaultExpr val fallback)
    have v: "denotes (evaluate_transform_expression env inputs val (d + 1) (Suc n))
        (denote env inputs val) (Suc n + transform_operations val)"
      using 1(5)[OF w(1) DefaultExpr] w(2,3) 1(8) DefaultExpr by simp
    then obtain m where m: "evaluate_transform_expression env inputs val (d + 1) (Suc n) = (denote env inputs val, m)"
      "m \<le> Suc n + transform_operations val"
      by (cases "evaluate_transform_expression env inputs val (d + 1) (Suc n)") (auto simp: denotes_def)
    show ?thesis
    proof (cases "missing_field (denote env inputs val)")
      case True
      have "denotes (evaluate_transform_expression env inputs fallback (d + 1) m) (denote env inputs fallback)
          (m + transform_operations fallback)"
        using 1(6)[OF w(1) DefaultExpr m(1)[symmetric] True] w(2,3) 1(8) DefaultExpr m(2) by simp
      then show ?thesis unfolding ev using True m w DefaultExpr by (simp add: denotes_def)
    next
      case False
      then show ?thesis unfolding ev using m w DefaultExpr by (simp add: denotes_def)
    qed
  qed (unfold ev, auto simp: denotes_def ok_or_def Suc_leI split: option.splits)
next
  case (3 env inputs e es d n)
  have head: "denotes (evaluate_transform_expression env inputs e d n) (denote env inputs e) (n + transform_operations e)"
    using 3(1,3,4) by simp
  have tail: "denotes (evaluate_transform_items env inputs es d k) (traverse (denote env inputs) es)
      (k + sum_list (map transform_operations es))"
    if "evaluate_transform_expression env inputs e d n = (Inr y, k)" for y k
    using 3(2)[OF that] 3(3,4) head that by (simp add: denotes_def)
  show ?case
  proof (cases "evaluate_transform_expression env inputs e d n" rule: counted_cases)
    case (1 err k)
    with head have "denote env inputs e = Inl err" and "k \<le> n + transform_operations e" by (auto simp: denotes_def)
    with 1 show ?thesis by (simp add: denotes_def)
  next
    case (2 v k)
    with head have v: "denote env inputs e = Inr v" and k: "k \<le> n + transform_operations e" by (auto simp: denotes_def)
    have "denotes (then_counted (evaluate_transform_items env inputs es d k) (\<lambda>vs n. (Inr (v # vs), n)))
        (result_bind (traverse (denote env inputs) es) (\<lambda>vs. Inr (v # vs))) (n + sum_list (map transform_operations (e # es)))"
      by (rule denotes_then[OF tail[OF 2]]) (use k in \<open>simp_all add: denotes_def\<close>)
    with 2 v show ?thesis by (simp add: result_bind_def)
  qed
next
  case (5 env inputs conflict merged e es d n)
  have head: "denotes (evaluate_transform_expression env inputs e d n) (denote env inputs e) (n + transform_operations e)"
    using 5(1,3,4) by simp
  show ?case
  proof (cases "evaluate_transform_expression env inputs e d n" rule: counted_cases)
    case (1 err k)
    with head have "denote env inputs e = Inl err" and "k \<le> n + transform_operations e" by (auto simp: denotes_def)
    with 1 show ?thesis by (simp add: denotes_def)
  next
    case (2 v k)
    with head have v: "denote env inputs e = Inr v" and k: "k \<le> n + transform_operations e" by (auto simp: denotes_def)
    show ?thesis
    proof (cases "merge_object conflict merged v")
      case (Inr merged')
      with 5(2)[OF 2, of merged' k] 5(3,4) k 2 v show ?thesis by (simp add: denotes_def)
    qed (use 2 v k in \<open>simp add: denotes_def\<close>)
  qed
qed (auto simp: denotes_def)

text \<open>A transform that validates never runs out of its budgets: it means what it says.\<close>

lemma validate_transform_Inr:
  assumes "validate_transform env t = Inr ()"
  shows "transform_operations (wt_expression t) \<le> 256" and "transform_within 0 (wt_expression t)"
    and "\<exists>check. ve_validator env (vs_schema (wt_output t)) = Inr check"
proof -
  from assms obtain check where "schema_valid env (wt_output t) = Inr check"
    and "fst (validate_transform_expression env (wt_version t) (wt_expression t) 0 0) = Inr ()"
    by (auto simp: validate_transform_def split: if_splits sum.splits)
  moreover from this obtain m where "validate_transform_expression env (wt_version t) (wt_expression t) 0 0 = (Inr (), m)"
    by (metis prod.collapse)
  ultimately show "transform_operations (wt_expression t) \<le> 256" and "transform_within 0 (wt_expression t)"
    and "\<exists>check. ve_validator env (vs_schema (wt_output t)) = Inr check"
    using validated_within(1) by (fastforce simp: schema_valid_def map_err_def split: sum.splits)+
qed

lemma evaluate_transform_denotes:
  assumes "validate_transform env t = Inr ()" and "named_inputs inputs [] = Inr named"
  shows "evaluate_transform env t inputs = result_bind (denote env named (wt_expression t)) (check_output env (wt_output t))"
proof -
  have "fst (evaluate_transform_expression env named (wt_expression t) 0 0) = denote env named (wt_expression t)"
    using evaluate_denotes(1)[OF validate_transform_Inr(2)[OF assms(1)], of 0 env named] validate_transform_Inr(1)[OF assms(1)]
    by (simp add: denotes_def)
  with assms show ?thesis by (simp add: evaluate_transform_def result_bind_def)
qed

lemma named_inputs_map:
  "named_inputs inputs named = Inr named' \<Longrightarrow> btree_ok named \<Longrightarrow>
     btree_ok named' \<and> distinct (map fst inputs) \<and> (\<forall>k \<in> fst ` set inputs. bt_get named k = None) \<and>
     (\<forall>k. bt_get named' k = (case map_of inputs k of None \<Rightarrow> bt_get named k | Some v \<Rightarrow> Some v))"
proof (induction inputs named rule: named_inputs.induct)
  case (2 name v rest named)
  from 2(2) have fresh: "bt_get named name = None" and blank: "\<not> (is_blank name \<or> bt_get named name \<noteq> None)"
    and rest: "named_inputs rest (bt_insert name v named) = Inr named'"
    by (auto split: if_splits)
  note ih = 2(1)[OF blank rest bt_insert_ok[OF 2(3)]]
  then have "name \<notin> fst ` set rest" using bt_get_insert[OF 2(3)] by fastforce
  moreover from this have "map_of rest name = None" by (simp add: map_of_eq_None_iff)
  ultimately show ?case using ih fresh bt_get_insert[OF 2(3)]
    by (auto split: option.splits if_splits)
qed auto

lemma named_inputs_get:
  assumes "named_inputs inputs [] = Inr named"
  shows "map_of named k = map_of inputs k" and "distinct (map fst inputs)"
  using named_inputs_map[OF assms] by (auto simp: bt_get_def split: option.splits)

text \<open>The value of an expression depends on the referenced sources only.\<close>

lemma denote_sources:
  "(\<And>s. s \<in> expression_sources e \<Longrightarrow> map_of ins s = map_of ins' s) \<Longrightarrow> denote env ins e = denote env ins' e"
proof (induction env ins e rule: denote.induct)
  case (4 env ins kvs)
  then have "denote env ins e = denote env ins' e" if "e \<in> set (map snd kvs)" for e
    using that by (intro 4(1)) auto
  then have "traverse (denote env ins) (map snd kvs) = traverse (denote env ins') (map snd kvs)"
    by (rule traverse_cong[OF refl])
  then show ?case by simp
next
  case (5 env ins items)
  then have "denote env ins e = denote env ins' e" if "e \<in> set items" for e
    using that by (intro 5(1)) auto
  then show ?case by (simp cong: traverse_cong)
next
  case (6 env ins objects conflict)
  then have "denote env ins e = denote env ins' e" if "e \<in> set objects" for e
    using that by (intro 6(1)) auto
  then show ?case by (simp cong: try_fold_cong)
next
  case (8 env ins val fallback)
  have "denote env ins val = denote env ins' val" by (rule 8(1)) (use 8(4) in auto)
  moreover have "denote env ins fallback = denote env ins' fallback" if "missing_field (denote env ins val)"
    by (rule 8(2)[OF that]) (use 8(4) in auto)
  ultimately show ?case by simp
qed auto

lemma evaluate_transform_frame:
  assumes "named_inputs inputs [] = Inr named" and "named_inputs inputs' [] = Inr named'"
    and "\<And>s. s \<in> referenced_sources t \<Longrightarrow> map_of inputs s = map_of inputs' s"
  shows "evaluate_transform env t inputs = evaluate_transform env t inputs'"
proof (cases "validate_transform env t")
  case (Inr u)
  have "denote env named (wt_expression t) = denote env named' (wt_expression t)"
    by (rule denote_sources) (use assms(3) in \<open>simp add: referenced_sources_def named_inputs_get(1)[OF assms(1)]
        named_inputs_get(1)[OF assms(2)]\<close>)
  with evaluate_transform_denotes[OF _ assms(1), of env t] evaluate_transform_denotes[OF _ assms(2), of env t] Inr
  show ?thesis by simp
qed (simp add: evaluate_transform_def)

text \<open>What an evaluation returns is bounded and matches the declared schema.\<close>

lemma evaluate_transform_typed:
  assumes "evaluate_transform env t inputs = Inr v"
  shows "json_depth_ok 0 v" and "\<exists>n. ve_encode env v = Inr n \<and> n \<le> MAX_TRANSFORM_VALUE_BYTES"
    and "\<exists>check. ve_validator env (vs_schema (wt_output t)) = Inr check \<and> check v = None"
proof -
  from assms obtain v' where "check_output env (wt_output t) v' = Inr v"
    by (auto simp: evaluate_transform_def split: sum.splits)
  then show "json_depth_ok 0 v" and "\<exists>n. ve_encode env v = Inr n \<and> n \<le> MAX_TRANSFORM_VALUE_BYTES"
    and "\<exists>check. ve_validator env (vs_schema (wt_output t)) = Inr check \<and> check v = None"
    by (auto simp: check_output_def ensure_transform_value_bound_def schema_valid_def map_err_def not_less
        split: if_splits sum.splits option.splits)
qed

text \<open>
  A default replaces a missing field of an \<open>Input\<close>, but not of a \<open>SelectedInput\<close>, whose
  selector reports it with another message.
\<close>

lemma field_absent_not_missing: "field_absent name \<noteq> field_not_present"
  by (simp add: field_absent_def field_not_present_def str_basic)

lemma selected_default_fails:
  assumes "map_of named source = Some v" and "validate_selector sel = Inr ()" and "sel_segments sel = [FieldSegment name]"
    and "value_get v name = None"
  shows "denote env named (DefaultExpr (SelectedInput source sel) fallback) = Inl (BuildError (segment_path 0) (field_absent name))"
    and "path_parts path = [name] \<Longrightarrow> denote env named (DefaultExpr (InputExpr source path) fallback) = denote env named fallback"
  using assms by (simp_all add: select_value_def missing_field_def field_absent_not_missing ok_or_def)

end
