(* ===== verification/Workflow_Predicates.thy ===== *)
theory Workflow_Predicates
  imports Workflow_Values
begin

text \<open>
  The deterministic predicates of workflow branches and repeats
  (\<open>packages/workflow/src/lib.rs\<close>): validation with its depth and operation bounds, and
  evaluation on a structured value with short-circuits and errors as the code has them.
\<close>

section \<open>Expressions\<close>

datatype predicate_numeric_comparison = LessThan | LessThanOrEqual | GreaterThan | GreaterThanOrEqual

datatype 'num predicate_expression =
    EqualsPred u32 ustring "'num json"
  | FieldsEqual u32 ustring ustring
  | AllOf u32 "'num predicate_expression list"
  | AnyOf u32 "'num predicate_expression list"
  | NotPred u32 "'num predicate_expression"
  | NumericCompare u32 ustring ustring predicate_numeric_comparison
  | SelectedAssertion u32 workflow_value_selector workflow_value_assertion
  | SelectedEquals u32 workflow_value_selector "'num json"
  | SelectedValuesEqual u32 workflow_value_selector workflow_value_selector
  | SelectedNumericCompare u32 workflow_value_selector workflow_value_selector predicate_numeric_comparison

fun predicate_version :: "'num predicate_expression \<Rightarrow> u32" where
  "predicate_version (EqualsPred v _ _) = v"
| "predicate_version (FieldsEqual v _ _) = v"
| "predicate_version (AllOf v _) = v"
| "predicate_version (AnyOf v _) = v"
| "predicate_version (NotPred v _) = v"
| "predicate_version (NumericCompare v _ _ _) = v"
| "predicate_version (SelectedAssertion v _ _) = v"
| "predicate_version (SelectedEquals v _ _) = v"
| "predicate_version (SelectedValuesEqual v _ _) = v"
| "predicate_version (SelectedNumericCompare v _ _ _) = v"

section \<open>Evaluation\<close>

definition predicate_value_at_path :: "'num json \<Rightarrow> ustring \<Rightarrow> workflow_error + 'num json" where
  "predicate_value_at_path value path =
     ok_or (BuildError path (str ''predicate field was not present in the structured value''))
       (follow value (path_parts path))"

definition predicate_type_mismatch :: "ustring \<Rightarrow> 'num json \<Rightarrow> 'num json \<Rightarrow> workflow_error" where
  "predicate_type_mismatch path actual expected =
     BuildError path (str ''predicate value type '' @ predicate_value_kind actual
       @ str '' is incompatible with expected type '' @ predicate_value_kind expected)"

definition compare_values :: "ustring \<Rightarrow> 'num json \<Rightarrow> 'num json \<Rightarrow> workflow_error + bool" where
  "compare_values path actual expected =
     (if \<not> predicate_values_compatible actual expected
      then Inl (predicate_type_mismatch path actual expected)
      else Inr (actual = expected))"

fun ordering_holds :: "predicate_numeric_comparison \<Rightarrow> ordering \<Rightarrow> bool" where
  "ordering_holds LessThan x \<longleftrightarrow> x = Less"
| "ordering_holds LessThanOrEqual x \<longleftrightarrow> x \<noteq> Greater"
| "ordering_holds GreaterThan x \<longleftrightarrow> x = Greater"
| "ordering_holds GreaterThanOrEqual x \<longleftrightarrow> x \<noteq> Less"

definition not_a_number :: "ustring \<Rightarrow> 'num json \<Rightarrow> workflow_error" where
  "not_a_number path value =
     BuildError path (str ''numeric predicate expected number, found '' @ predicate_value_kind value)"

definition evaluate_numeric_predicate_values ::
    "('num, 'f) value_env \<Rightarrow> 'num json \<Rightarrow> 'num json \<Rightarrow> predicate_numeric_comparison \<Rightarrow> ustring \<Rightarrow> ustring
       \<Rightarrow> workflow_error + bool" where
  "evaluate_numeric_predicate_values env left_value right_value comparison left_path right_path =
     (case left_value of
        JNumber left \<Rightarrow>
          (case right_value of
             JNumber right \<Rightarrow>
               (case compare_json_numbers env left right of
                  None \<Rightarrow> Inl (BuildError (left_path @ str '','' @ right_path)
                            (str ''numeric predicate values cannot be compared exactly''))
                | Some c \<Rightarrow> Inr (ordering_holds comparison c))
           | _ \<Rightarrow> Inl (not_a_number right_path right_value))
      | _ \<Rightarrow> Inl (not_a_number left_path left_value))"

definition with_two :: "workflow_error + 'a \<Rightarrow> workflow_error + 'b \<Rightarrow> ('a \<Rightarrow> 'b \<Rightarrow> workflow_error + 'c) \<Rightarrow> workflow_error + 'c" where
  "with_two a b f = (case a of Inl e \<Rightarrow> Inl e | Inr x \<Rightarrow> (case b of Inl e \<Rightarrow> Inl e | Inr y \<Rightarrow> f x y))"

fun evaluate_validated :: "('num, 'f) value_env \<Rightarrow> 'num predicate_expression \<Rightarrow> 'num json \<Rightarrow> workflow_error + bool"
  and evaluate_all :: "('num, 'f) value_env \<Rightarrow> 'num predicate_expression list \<Rightarrow> 'num json \<Rightarrow> workflow_error + bool"
  and evaluate_any :: "('num, 'f) value_env \<Rightarrow> 'num predicate_expression list \<Rightarrow> 'num json \<Rightarrow> workflow_error + bool"
where
  "evaluate_validated env (EqualsPred _ path expected) value =
     (case predicate_value_at_path value path of
        Inl e \<Rightarrow> Inl e | Inr actual \<Rightarrow> compare_values path actual expected)"
| "evaluate_validated env (FieldsEqual _ left_path right_path) value =
     with_two (predicate_value_at_path value left_path) (predicate_value_at_path value right_path)
       (compare_values left_path)"
| "evaluate_validated env (AllOf _ predicates) value = evaluate_all env predicates value"
| "evaluate_validated env (AnyOf _ predicates) value = evaluate_any env predicates value"
| "evaluate_validated env (NotPred _ p) value =
     (case evaluate_validated env p value of Inl e \<Rightarrow> Inl e | Inr b \<Rightarrow> Inr (\<not> b))"
| "evaluate_validated env (NumericCompare _ left_path right_path comparison) value =
     with_two (predicate_value_at_path value left_path) (predicate_value_at_path value right_path)
       (\<lambda>left right. evaluate_numeric_predicate_values env left right comparison left_path right_path)"
| "evaluate_validated env (SelectedAssertion _ selector assertion) value =
     (case select_value selector value of
        Inl e \<Rightarrow> Inl e | Inr selected \<Rightarrow> evaluate_assertion env assertion selected)"
| "evaluate_validated env (SelectedEquals _ selector expected) value =
     (case select_value selector value of
        Inl e \<Rightarrow> Inl e | Inr actual \<Rightarrow> compare_values (str ''selector'') actual expected)"
| "evaluate_validated env (SelectedValuesEqual _ left_selector right_selector) value =
     with_two (select_value left_selector value) (select_value right_selector value)
       (compare_values (str ''selector''))"
| "evaluate_validated env (SelectedNumericCompare _ left_selector right_selector comparison) value =
     with_two (select_value left_selector value) (select_value right_selector value)
       (\<lambda>left right. evaluate_numeric_predicate_values env left right comparison
          (str ''left_selector'') (str ''right_selector''))"
| "evaluate_all env [] value = Inr True"
| "evaluate_all env (p # ps) value =
     (case evaluate_validated env p value of
        Inl e \<Rightarrow> Inl e | Inr b \<Rightarrow> if \<not> b then Inr False else evaluate_all env ps value)"
| "evaluate_any env [] value = Inr False"
| "evaluate_any env (p # ps) value =
     (case evaluate_validated env p value of
        Inl e \<Rightarrow> Inl e | Inr b \<Rightarrow> if b then Inr True else evaluate_any env ps value)"

section \<open>Validation\<close>

definition WORKFLOW_PREDICATE_VERSION :: u32 where "WORKFLOW_PREDICATE_VERSION = 3"
definition WORKFLOW_PREDICATE_MIN_VERSION :: u32 where "WORKFLOW_PREDICATE_MIN_VERSION = 1"
definition MAX_PREDICATE_DEPTH :: nat where "MAX_PREDICATE_DEPTH = 16"
definition MAX_PREDICATE_OPERATIONS :: nat where "MAX_PREDICATE_OPERATIONS = 256"
definition MAX_PREDICATE_PATH_BYTES :: nat where "MAX_PREDICATE_PATH_BYTES = 512"
definition MAX_PREDICATE_PATH_SEGMENT_BYTES :: nat where "MAX_PREDICATE_PATH_SEGMENT_BYTES = 256"
definition MAX_PREDICATE_VALUE_BYTES :: nat where "MAX_PREDICATE_VALUE_BYTES = 65536"

definition validate_predicate_path :: "ustring \<Rightarrow> workflow_error + unit" where
  "validate_predicate_path path =
     (if byte_len path > MAX_PREDICATE_PATH_BYTES \<or>
         (\<exists>part \<in> set (split_on (\<lambda>c. c = ch CHR ''.'') path). byte_len part > MAX_PREDICATE_PATH_SEGMENT_BYTES)
      then Inl (BuildError path (str ''predicate path exceeds durable bounds''))
      else Inr ())"

definition predicate_error :: "ustring \<Rightarrow> workflow_error" where
  "predicate_error message = BuildError (str ''predicate'') message"

definition requires_version :: "string \<Rightarrow> 'num predicate_expression \<Rightarrow> workflow_error" where
  "requires_version n e = predicate_error
     (str ''predicate operation requires version '' @ str n @ str '', found '' @ show_nat (unat (predicate_version e)))"

definition bounded_encoding :: "ustring \<Rightarrow> string \<Rightarrow> ustring + nat \<Rightarrow> workflow_error + unit" where
  "bounded_encoding path what encoded =
     (case encoded of
        Inl e \<Rightarrow> Inl (BuildError path (str what @ str '' cannot be serialized: '' @ e))
      | Inr n \<Rightarrow> if n > MAX_PREDICATE_VALUE_BYTES
                 then Inl (BuildError path (str what @ str '' exceeds 65536 bytes'')) else Inr ())"

definition both :: "workflow_error + unit \<Rightarrow> workflow_error + unit \<Rightarrow> workflow_error + unit" where
  "both a b = (case a of Inl e \<Rightarrow> Inl e | Inr _ \<Rightarrow> b)"

text \<open>The rules of an operation without children.\<close>

fun validate_leaf :: "('num, 'f) value_env \<Rightarrow> 'num predicate_expression \<Rightarrow> workflow_error + unit" where
  "validate_leaf env (EqualsPred v path value) =
     both (validate_predicate_path path) (bounded_encoding path ''predicate value'' (ve_encode env value))"
| "validate_leaf env (FieldsEqual v l r) =
     (if v < 2 then Inl (requires_version ''2'' (FieldsEqual v l r :: 'num predicate_expression))
      else both (validate_predicate_path l) (validate_predicate_path r))"
| "validate_leaf env (NumericCompare v l r c) =
     (if v < 2 then Inl (requires_version ''2'' (NumericCompare v l r c :: 'num predicate_expression))
      else both (validate_predicate_path l) (validate_predicate_path r))"
| "validate_leaf env (SelectedAssertion v selector assertion) =
     (if v < 3 then Inl (requires_version ''3'' (SelectedAssertion v selector assertion :: 'num predicate_expression))
      else both (validate_selector selector)
         (both (bounded_encoding (str ''assertion'') ''assertion'' (ve_encode_assertion env assertion))
            (case assertion of Sha256Is expected \<Rightarrow> validate_sha256 (str ''assertion.sha256'') expected | _ \<Rightarrow> Inr ())))"
| "validate_leaf env (SelectedEquals v selector value) =
     (if v < 3 then Inl (requires_version ''3'' (SelectedEquals v selector value))
      else both (validate_selector selector)
             (bounded_encoding (str ''selector'') ''predicate value'' (ve_encode env value)))"
| "validate_leaf env (SelectedValuesEqual v l r) =
     (if v < 3 then Inl (requires_version ''3'' (SelectedValuesEqual v l r :: 'num predicate_expression))
      else both (validate_selector l) (validate_selector r))"
| "validate_leaf env (SelectedNumericCompare v l r c) =
     (if v < 3 then Inl (requires_version ''3'' (SelectedNumericCompare v l r c :: 'num predicate_expression))
      else both (validate_selector l) (validate_selector r))"
| "validate_leaf env e = (if predicate_version e < 2 then Inl (requires_version ''2'' e) else Inr ())"

definition saturating_inc_usize :: "nat \<Rightarrow> nat" where
  "saturating_inc_usize n = min (n + 1) (2 ^ 64 - 1)"

definition nested_version :: workflow_error where
  "nested_version = predicate_error (str ''nested predicate versions must match their parent'')"

definition check_predicate_bounds :: "nat \<Rightarrow> nat \<Rightarrow> u32 \<Rightarrow> workflow_error + nat" where
  "check_predicate_bounds depth operations version =
     (if depth > MAX_PREDICATE_DEPTH then Inl (predicate_error (str ''predicate depth exceeds 16''))
      else if saturating_inc_usize operations > MAX_PREDICATE_OPERATIONS
      then Inl (predicate_error (str ''predicate operations exceed 256''))
      else if \<not> (WORKFLOW_PREDICATE_MIN_VERSION \<le> version \<and> version \<le> WORKFLOW_PREDICATE_VERSION)
      then Inl (predicate_error (str ''unsupported workflow predicate version '' @ show_nat (unat version)
             @ str ''; expected 1 through 3''))
      else Inr (saturating_inc_usize operations))"

fun validate_predicate_inner ::
    "('num, 'f) value_env \<Rightarrow> 'num predicate_expression \<Rightarrow> nat \<Rightarrow> nat \<Rightarrow> workflow_error + nat"
  and validate_children ::
    "('num, 'f) value_env \<Rightarrow> u32 \<Rightarrow> 'num predicate_expression list \<Rightarrow> nat \<Rightarrow> nat \<Rightarrow> workflow_error + nat"
where
  "validate_predicate_inner env e depth operations =
     (case check_predicate_bounds depth operations (predicate_version e) of
        Inl err \<Rightarrow> Inl err
      | Inr ops \<Rightarrow>
          (case validate_leaf env e of
             Inl err \<Rightarrow> Inl err
           | Inr _ \<Rightarrow>
               (case e of
                  AllOf v ps \<Rightarrow>
                    if ps = [] \<or> length ps > MAX_PREDICATE_OPERATIONS
                    then Inl (predicate_error (str ''predicate child count must be between 1 and 256''))
                    else validate_children env v ps (depth + 1) ops
                | AnyOf v ps \<Rightarrow>
                    if ps = [] \<or> length ps > MAX_PREDICATE_OPERATIONS
                    then Inl (predicate_error (str ''predicate child count must be between 1 and 256''))
                    else validate_children env v ps (depth + 1) ops
                | NotPred v p \<Rightarrow>
                    if predicate_version p \<noteq> v then Inl nested_version
                    else validate_predicate_inner env p (depth + 1) ops
                | _ \<Rightarrow> Inr ops)))"
| "validate_children env v [] depth operations = Inr operations"
| "validate_children env v (p # ps) depth operations =
     (if predicate_version p \<noteq> v then Inl nested_version
      else (case validate_predicate_inner env p depth operations of
              Inl err \<Rightarrow> Inl err
            | Inr ops \<Rightarrow> validate_children env v ps depth ops))"

declare validate_predicate_inner.simps(1) [simp del]

definition validate_predicate_expression :: "('num, 'f) value_env \<Rightarrow> 'num predicate_expression \<Rightarrow> workflow_error + unit" where
  "validate_predicate_expression env e =
     (case validate_predicate_inner env e 1 0 of Inl err \<Rightarrow> Inl err | Inr _ \<Rightarrow> Inr ())"

definition evaluate_value :: "('num, 'f) value_env \<Rightarrow> 'num predicate_expression \<Rightarrow> 'num json \<Rightarrow> workflow_error + bool" where
  "evaluate_value env e value =
     (case validate_predicate_expression env e of Inl err \<Rightarrow> Inl err | Inr _ \<Rightarrow> evaluate_validated env e value)"

section \<open>Facts\<close>

lemma evaluate_all_True: "evaluate_all env ps x = Inr True \<longleftrightarrow> (\<forall>p \<in> set ps. evaluate_validated env p x = Inr True)"
  by (induction ps) (auto split: sum.splits)

lemma evaluate_any_False: "evaluate_any env ps x = Inr False \<longleftrightarrow> (\<forall>p \<in> set ps. evaluate_validated env p x = Inr False)"
  by (induction ps) (auto split: sum.splits)

text \<open>Children are evaluated in order, and the first that decides or fails ends the evaluation.\<close>

lemma evaluate_all_stops:
  "(\<forall>p \<in> set ps. evaluate_validated env p x = Inr True) \<Longrightarrow> evaluate_validated env q x \<noteq> Inr True \<Longrightarrow>
     evaluate_all env (ps @ q # qs) x = evaluate_validated env q x"
  by (induction ps) (auto split: sum.splits)

lemma evaluate_any_negated:
  "evaluate_any env (map (NotPred v) ps) x = (case evaluate_all env ps x of Inl e \<Rightarrow> Inl e | Inr b \<Rightarrow> Inr (\<not> b))"
  by (induction ps) (auto split: sum.splits)

lemma evaluate_all_negated:
  "evaluate_all env (map (NotPred v) ps) x = (case evaluate_any env ps x of Inl e \<Rightarrow> Inl e | Inr b \<Rightarrow> Inr (\<not> b))"
  by (induction ps) (auto split: sum.splits)

text \<open>The numbers of operations and levels of an expression, and the versions in it.\<close>

fun pred_nodes :: "'num predicate_expression \<Rightarrow> nat" where
  "pred_nodes (AllOf v ps) = 1 + sum_list (map pred_nodes ps)"
| "pred_nodes (AnyOf v ps) = 1 + sum_list (map pred_nodes ps)"
| "pred_nodes (NotPred v p) = 1 + pred_nodes p"
| "pred_nodes _ = 1"

fun pred_within :: "nat \<Rightarrow> 'num predicate_expression \<Rightarrow> bool" where
  "pred_within d (AllOf v ps) \<longleftrightarrow> 0 < d \<and> (\<forall>p \<in> set ps. pred_within (d - 1) p)"
| "pred_within d (AnyOf v ps) \<longleftrightarrow> 0 < d \<and> (\<forall>p \<in> set ps. pred_within (d - 1) p)"
| "pred_within d (NotPred v p) \<longleftrightarrow> 0 < d \<and> pred_within (d - 1) p"
| "pred_within d _ \<longleftrightarrow> 0 < d"

fun pred_versions :: "'num predicate_expression \<Rightarrow> u32 set" where
  "pred_versions (AllOf v ps) = insert v (\<Union>p \<in> set ps. pred_versions p)"
| "pred_versions (AnyOf v ps) = insert v (\<Union>p \<in> set ps. pred_versions p)"
| "pred_versions (NotPred v p) = insert v (pred_versions p)"
| "pred_versions p = {predicate_version p}"

lemma check_predicate_bounds_Inr:
  "check_predicate_bounds depth ops version = Inr n \<longleftrightarrow>
     depth \<le> 16 \<and> n = Suc ops \<and> n \<le> 256 \<and> 1 \<le> version \<and> version \<le> 3"
proof -
  have "min (ops + 1) (2 ^ 64 - 1) \<le> 256 \<longleftrightarrow> Suc ops \<le> 256" by auto
  moreover have "Suc ops \<le> 256 \<Longrightarrow> min (ops + 1) (2 ^ 64 - 1) = Suc ops" by simp
  ultimately show ?thesis
    by (auto simp: check_predicate_bounds_def saturating_inc_usize_def not_less MAX_PREDICATE_DEPTH_def
        MAX_PREDICATE_OPERATIONS_def WORKFLOW_PREDICATE_MIN_VERSION_def WORKFLOW_PREDICATE_VERSION_def)
qed

lemma validated_bounds:
  "validate_predicate_inner env e depth ops = Inr n \<Longrightarrow>
     n = ops + pred_nodes e \<and> n \<le> 256 \<and> pred_within (17 - depth) e \<and> pred_versions e = {predicate_version e}"
  "validate_children env v ps depth ops = Inr n \<Longrightarrow>
     n = ops + sum_list (map pred_nodes ps) \<and> (ops \<le> 256 \<longrightarrow> n \<le> 256) \<and>
     (\<forall>p \<in> set ps. pred_within (17 - depth) p \<and> pred_versions p = {v})"
proof (induction env e depth ops and env v ps depth ops arbitrary: n and n
    rule: validate_predicate_inner_validate_children.induct)
  case (1 env e depth ops)
  from 1(4) obtain m where m: "check_predicate_bounds depth ops (predicate_version e) = Inr m"
    and leaf: "validate_leaf env e = Inr ()"
    by (auto simp: validate_predicate_inner.simps(1) split: sum.splits)
  note b = m[unfolded check_predicate_bounds_Inr]
  note IH = 1(1-3)[OF m leaf]
  show ?case
  proof (cases e)
    case (AllOf v ps)
    with 1(4) m leaf have ps: "\<not> (ps = [] \<or> length ps > MAX_PREDICATE_OPERATIONS)"
      and c: "validate_children env v ps (depth + 1) m = Inr n"
      by (auto simp: validate_predicate_inner.simps(1) split: if_splits)
    with IH(1)[OF AllOf ps c] b AllOf show ?thesis by auto
  next
    case (AnyOf v ps)
    with 1(4) m leaf have ps: "\<not> (ps = [] \<or> length ps > MAX_PREDICATE_OPERATIONS)"
      and c: "validate_children env v ps (depth + 1) m = Inr n"
      by (auto simp: validate_predicate_inner.simps(1) split: if_splits)
    with IH(2)[OF AnyOf ps c] b AnyOf show ?thesis by auto
  next
    case (NotPred v p)
    with 1(4) m leaf have v: "\<not> predicate_version p \<noteq> v" and c: "validate_predicate_inner env p (depth + 1) m = Inr n"
      by (auto simp: validate_predicate_inner.simps(1) split: if_splits)
    with IH(3)[OF NotPred v c] b NotPred show ?thesis by auto
  qed (use 1(4) m leaf b in \<open>auto simp: validate_predicate_inner.simps(1)\<close>)
next
  case (3 env v p ps depth ops)
  from 3(3) obtain m where v: "predicate_version p = v" and m: "validate_predicate_inner env p depth ops = Inr m"
    and r: "validate_children env v ps depth m = Inr n"
    by (auto split: if_splits sum.splits)
  from 3(1)[OF _ m] 3(2)[OF _ m r] v show ?case by auto
qed auto

lemma predicate_bounds:
  assumes "validate_predicate_expression env e = Inr ()"
  shows "pred_nodes e \<le> 256" and "pred_within 16 e" and "pred_versions e = {predicate_version e}"
proof -
  obtain n where "validate_predicate_inner env e 1 0 = Inr n"
    using assms by (auto simp: validate_predicate_expression_def split: sum.splits)
  from validated_bounds(1)[OF this] show "pred_nodes e \<le> 256" "pred_within 16 e" "pred_versions e = {predicate_version e}"
    by auto
qed

lemma integer_comparison:
  assumes "numbers_ok env value_of" and "value_of l = Some a" and "value_of r = Some b"
  shows "evaluate_numeric_predicate_values env (JNumber l) (JNumber r) c lp rp =
    Inr (case c of LessThan \<Rightarrow> a < b | LessThanOrEqual \<Rightarrow> a \<le> b | GreaterThan \<Rightarrow> b < a | GreaterThanOrEqual \<Rightarrow> b \<le> a)"
  unfolding evaluate_numeric_predicate_values_def integers_compare[OF assms] json.case option.case
  by (cases c) (auto simp: cmp_def)

end
