(* ===== verification/Workflow_Resources.thy ===== *)
theory Workflow_Resources
  imports Workflow_Values
begin

text \<open>
  Resource leases of an in-process workflow run (\<open>packages/workflow/src/lib.rs\<close>):
  normalisation of claims, the coordinator of shared readers and exclusive writers, and the
  snapshot of the run that observers see. Every attempt to acquire, every dropped lease and every
  transition is one step; the steps of all nodes interleave.
\<close>

section \<open>Claims\<close>

datatype resource_access = ReadAccess | WriteAccess

record resource_claim =
  rc_resource :: ustring
  rc_access :: resource_access

definition stronger_access :: "resource_access \<Rightarrow> resource_access option \<Rightarrow> resource_access" where
  "stronger_access a old = (case old of None \<Rightarrow> a | Some b \<Rightarrow> if a = WriteAccess then WriteAccess else b)"

fun collect_claims ::
    "resource_claim list \<Rightarrow> (ustring, resource_access) btree \<Rightarrow> workflow_error + (ustring, resource_access) btree" where
  "collect_claims [] normalized = Inr normalized"
| "collect_claims (c # cs) normalized =
     (let resource = trim (rc_resource c)
      in if resource = []
         then Inl (BuildError (str ''resource'') (str ''resource identity must not be empty''))
         else collect_claims cs (bt_insert resource (stronger_access (rc_access c) (bt_get normalized resource)) normalized))"

definition normalize_resource_claims :: "resource_claim list \<Rightarrow> workflow_error + resource_claim list" where
  "normalize_resource_claims claims =
     (case collect_claims claims [] of
        Inl e \<Rightarrow> Inl e
      | Inr normalized \<Rightarrow> Inr (map (\<lambda>(r, a). \<lparr>rc_resource = r, rc_access = a\<rparr>) normalized))"

section \<open>The coordinator\<close>

record resource_state =
  rs_readers :: nat
  rs_writer :: bool

type_synonym resource_table = "(ustring, resource_state) btree"

definition claims_available :: "resource_table \<Rightarrow> resource_claim list \<Rightarrow> bool" where
  "claims_available state claims \<longleftrightarrow> list_all (\<lambda>c.
     case bt_get state (rc_resource c) of
       None \<Rightarrow> True
     | Some r \<Rightarrow> (case rc_access c of
         ReadAccess \<Rightarrow> \<not> rs_writer r
       | WriteAccess \<Rightarrow> \<not> rs_writer r \<and> rs_readers r = 0)) claims"

definition apply_claim :: "resource_claim \<Rightarrow> resource_table \<Rightarrow> resource_table" where
  "apply_claim c state =
     (let r = (case bt_get state (rc_resource c) of None \<Rightarrow> \<lparr>rs_readers = 0, rs_writer = False\<rparr> | Some r \<Rightarrow> r)
      in bt_insert (rc_resource c) (case rc_access c of
           ReadAccess \<Rightarrow> r\<lparr>rs_readers := min (rs_readers r + 1) (2 ^ 64 - 1)\<rparr>
         | WriteAccess \<Rightarrow> r\<lparr>rs_writer := True\<rparr>) state)"

definition apply_claims :: "resource_table \<Rightarrow> resource_claim list \<Rightarrow> resource_table" where
  "apply_claims state claims = fold apply_claim claims state"

definition bt_remove :: "'k \<Rightarrow> ('k, 'v) btree \<Rightarrow> ('k, 'v) btree" where
  "bt_remove k m = filter (\<lambda>(k', _). k' \<noteq> k) m"

definition release_claim :: "resource_claim \<Rightarrow> resource_table \<Rightarrow> resource_table" where
  "release_claim c state =
     (case bt_get state (rc_resource c) of
        None \<Rightarrow> state
      | Some r \<Rightarrow>
          (let r' = (case rc_access c of
                 ReadAccess \<Rightarrow> r\<lparr>rs_readers := rs_readers r - 1\<rparr> | WriteAccess \<Rightarrow> r\<lparr>rs_writer := False\<rparr>)
           in if rs_readers r' = 0 \<and> \<not> rs_writer r' then bt_remove (rc_resource c) state
              else bt_insert (rc_resource c) r' state))"

definition release_claims :: "resource_table \<Rightarrow> resource_claim list \<Rightarrow> resource_table" where
  "release_claims state claims = fold release_claim claims state"

section \<open>The snapshot of a run\<close>

datatype node_run_state =
    NodePending | NodeReady | WaitingForConcurrency | WaitingForResources | NodeRunning
  | NodeSucceeded | NodeFailed | NodeCancelled | NodeTimedOut | NodeSkipped

datatype workflow_outcome = RunSucceeded | RunFailed | RunCancelled | RunTimedOut

record workflow_run_snapshot =
  sn_nodes :: "(ustring, node_run_state) btree"
  sn_ready :: "ustring set"
  sn_waiting :: "ustring set"
  sn_running :: "ustring set"
  sn_terminal :: "ustring set"
  sn_resource_holders :: "(ustring, nat) btree"

record run_state_tracker =
  tr_snapshot :: workflow_run_snapshot
  tr_incomplete :: "ustring set"

definition snapshot_new :: "(ustring, nat) btree \<Rightarrow> workflow_run_snapshot" where
  "snapshot_new dependencies = \<lparr>
     sn_nodes = map (\<lambda>(n, d). (n, if d = 0 then NodeReady else NodePending)) dependencies,
     sn_ready = fst ` set (filter (\<lambda>(_, d). d = 0) dependencies), sn_waiting = {}, sn_running = {}, sn_terminal = {},
     sn_resource_holders = []\<rparr>"

definition tracker_new :: "(ustring, nat) btree \<Rightarrow> run_state_tracker" where
  "tracker_new dependencies = \<lparr>tr_snapshot = snapshot_new dependencies, tr_incomplete = fst ` set dependencies\<rparr>"

definition terminal_state :: "node_run_state \<Rightarrow> bool" where
  "terminal_state s \<longleftrightarrow> s \<in> {NodeSucceeded, NodeFailed, NodeCancelled, NodeTimedOut, NodeSkipped}"

definition forget_node :: "ustring \<Rightarrow> workflow_run_snapshot \<Rightarrow> workflow_run_snapshot" where
  "forget_node n s = s\<lparr>sn_ready := sn_ready s - {n}, sn_waiting := sn_waiting s - {n},
     sn_running := sn_running s - {n}, sn_terminal := sn_terminal s - {n}\<rparr>"

definition track_transition :: "ustring \<Rightarrow> node_run_state \<Rightarrow> run_state_tracker \<Rightarrow> run_state_tracker" where
  "track_transition n state t =
     (let s = forget_node n (tr_snapshot t);
          s' = (if state = NodePending then s
                else if state = NodeReady then s\<lparr>sn_ready := insert n (sn_ready s)\<rparr>
                else if state \<in> {WaitingForConcurrency, WaitingForResources} then s\<lparr>sn_waiting := insert n (sn_waiting s)\<rparr>
                else if state = NodeRunning then s\<lparr>sn_running := insert n (sn_running s)\<rparr>
                else s\<lparr>sn_terminal := insert n (sn_terminal s)\<rparr>)
      in t\<lparr>tr_snapshot := s'\<lparr>sn_nodes := bt_insert n state (sn_nodes s')\<rparr>,
           tr_incomplete := (if terminal_state state then tr_incomplete t - {n} else tr_incomplete t)\<rparr>)"

fun outcome_state :: "workflow_outcome \<Rightarrow> node_run_state" where
  "outcome_state RunSucceeded = NodeSkipped"
| "outcome_state RunFailed = NodeSkipped"
| "outcome_state RunCancelled = NodeCancelled"
| "outcome_state RunTimedOut = NodeTimedOut"

definition finish_node :: "node_run_state \<Rightarrow> ustring \<Rightarrow> workflow_run_snapshot \<Rightarrow> workflow_run_snapshot" where
  "finish_node replacement n s =
     s\<lparr>sn_ready := sn_ready s - {n}, sn_waiting := sn_waiting s - {n}, sn_running := sn_running s - {n},
       sn_terminal := insert n (sn_terminal s), sn_nodes := bt_insert n replacement (sn_nodes s)\<rparr>"

definition finish_incomplete :: "workflow_outcome \<Rightarrow> run_state_tracker \<Rightarrow> run_state_tracker" where
  "finish_incomplete outcome t =
     t\<lparr>tr_snapshot := fold (finish_node (outcome_state outcome)) (sorted_list_of_set (tr_incomplete t)) (tr_snapshot t),
       tr_incomplete := {}\<rparr>"

definition resource_acquired :: "resource_claim list \<Rightarrow> run_state_tracker \<Rightarrow> run_state_tracker" where
  "resource_acquired claims t =
     t\<lparr>tr_snapshot := (tr_snapshot t)\<lparr>sn_resource_holders := fold (\<lambda>c m.
         bt_insert (rc_resource c) ((case bt_get m (rc_resource c) of None \<Rightarrow> 0 | Some k \<Rightarrow> k) + 1) m)
       claims (sn_resource_holders (tr_snapshot t))\<rparr>\<rparr>"

definition resource_released :: "resource_claim list \<Rightarrow> run_state_tracker \<Rightarrow> run_state_tracker" where
  "resource_released claims t =
     t\<lparr>tr_snapshot := (tr_snapshot t)\<lparr>sn_resource_holders := fold (\<lambda>c m.
         case bt_get m (rc_resource c) of
           None \<Rightarrow> m
         | Some k \<Rightarrow> if k - 1 = 0 then bt_remove (rc_resource c) m else bt_insert (rc_resource c) (k - 1) m)
       claims (sn_resource_holders (tr_snapshot t))\<rparr>\<rparr>"

section \<open>Leases\<close>

record lease_world =
  lw_state :: resource_table
  lw_tracker :: run_state_tracker
  lw_leases :: "(ustring \<times> resource_claim list) list"
  lw_cancelled :: bool

datatype acquisition = NoClaims | Refused workflow_error | Leased | Waits

text \<open>One pass of the loop of \<open>acquire\<close>.\<close>

definition try_acquire :: "ustring \<Rightarrow> resource_claim list \<Rightarrow> lease_world \<Rightarrow> lease_world \<times> acquisition" where
  "try_acquire node claims w =
     (if claims = [] then (w, NoClaims)
      else if lw_cancelled w then (w, Refused (CancelledError node))
      else if claims_available (lw_state w) claims
      then (w\<lparr>lw_state := apply_claims (lw_state w) claims, lw_tracker := resource_acquired claims (lw_tracker w),
              lw_leases := lw_leases w @ [(node, claims)]\<rparr>, Leased)
      else (w\<lparr>lw_tracker := track_transition node WaitingForResources (lw_tracker w)\<rparr>, Waits))"

text \<open>A lease that is dropped.\<close>

definition drop_lease :: "nat \<Rightarrow> lease_world \<Rightarrow> lease_world" where
  "drop_lease k w =
     (let claims = snd (lw_leases w ! k)
      in w\<lparr>lw_state := release_claims (lw_state w) claims, lw_tracker := resource_released claims (lw_tracker w),
           lw_leases := take k (lw_leases w) @ drop (Suc k) (lw_leases w)\<rparr>)"

definition lease_world_new :: "(ustring, nat) btree \<Rightarrow> lease_world" where
  "lease_world_new dependencies =
     \<lparr>lw_state = [], lw_tracker = tracker_new dependencies, lw_leases = [], lw_cancelled = False\<rparr>"

text \<open>
  Fewer than \<open>2 ^ 64 - 1\<close> leases exist at a time: each is an object in memory. Steps take their
  claims from \<open>normalize_resource_claims\<close>.
\<close>

inductive lease_step :: "lease_world \<Rightarrow> lease_world \<Rightarrow> bool" where
  step_acquire: "normalize_resource_claims raw = Inr claims \<Longrightarrow> length (lw_leases w) < 2 ^ 64 - 2 \<Longrightarrow>
    lease_step w (fst (try_acquire node claims w))"
| step_drop: "k < length (lw_leases w) \<Longrightarrow> lease_step w (drop_lease k w)"
| step_transition: "lease_step w (w\<lparr>lw_tracker := track_transition node state (lw_tracker w)\<rparr>)"
| step_finish: "lease_step w (w\<lparr>lw_tracker := finish_incomplete outcome (lw_tracker w)\<rparr>)"
| step_cancel: "lease_step w (w\<lparr>lw_cancelled := True\<rparr>)"

inductive lease_reachable :: "lease_world \<Rightarrow> bool" where
  lease_init: "btree_ok dependencies \<Longrightarrow> lease_reachable (lease_world_new dependencies)"
| lease_next: "lease_reachable w \<Longrightarrow> lease_step w w' \<Longrightarrow> lease_reachable w'"

inductive_cases lease_stepE: "lease_step w w'"

section \<open>Facts about claims\<close>

lemma collect_claims_ok:
  "collect_claims cs m = Inr m' \<Longrightarrow> btree_ok m \<Longrightarrow> btree_ok m'"
  by (induction cs m rule: collect_claims.induct) (auto simp: Let_def bt_insert_ok split: if_splits)

definition hits :: "ustring \<Rightarrow> resource_claim list \<Rightarrow> resource_claim list" where
  "hits r cs = filter (\<lambda>c. trim (rc_resource c) = r) cs"

lemma collect_claims_get:
  "collect_claims cs m = Inr m' \<Longrightarrow> btree_ok m \<Longrightarrow>
     bt_get m' r = fold (\<lambda>c old. Some (stronger_access (rc_access c) old)) (hits r cs) (bt_get m r)"
proof (induction cs m rule: collect_claims.induct)
  case (2 c cs m)
  let ?r = "trim (rc_resource c)"
  from 2(2) have ne: "?r \<noteq> []"
    and rest: "collect_claims cs (bt_insert ?r (stronger_access (rc_access c) (bt_get m ?r)) m) = Inr m'"
    by (auto simp: Let_def split: if_splits)
  show ?case
    using 2(1)[OF refl ne rest bt_insert_ok[OF 2(3)]] bt_get_insert[OF 2(3)] by (auto simp: hits_def)
qed (simp add: hits_def)

lemma strongest_access:
  "fold (\<lambda>c old. Some (stronger_access (rc_access c) old)) cs old =
     (if cs = [] then old
      else Some (if old = Some WriteAccess \<or> (\<exists>c \<in> set cs. rc_access c = WriteAccess) then WriteAccess else ReadAccess))"
proof (induction cs arbitrary: old)
  case (Cons c cs)
  have "stronger_access (rc_access c) old = (if old = Some WriteAccess \<or> rc_access c = WriteAccess then WriteAccess else ReadAccess)"
    by (cases "rc_access c"; cases old) (auto simp: stronger_access_def intro: resource_access.exhaust)
  then show ?case unfolding fold.simps comp_def Cons.IH by auto
qed simp

text \<open>
  What normalisation returns: the trimmed resources, each once and in order, and the strongest
  access that some claim asked for.
\<close>

lemma normalized_claims:
  assumes "normalize_resource_claims raw = Inr claims"
  shows "sorted_wrt (<) (map rc_resource claims)"
    and "c \<in> set claims \<longleftrightarrow> (\<exists>d \<in> set raw. trim (rc_resource d) = rc_resource c) \<and>
      rc_access c = (if \<exists>d \<in> set raw. trim (rc_resource d) = rc_resource c \<and> rc_access d = WriteAccess
                     then WriteAccess else ReadAccess)"
proof -
  from assms obtain m where m: "collect_claims raw [] = Inr m"
    and claims: "claims = map (\<lambda>(r, a). \<lparr>rc_resource = r, rc_access = a\<rparr>) m"
    by (auto simp: normalize_resource_claims_def split: sum.splits)
  have ok: "btree_ok m" using collect_claims_ok[OF m] by simp
  then show "sorted_wrt (<) (map rc_resource claims)"
    by (simp add: claims btree_ok_def comp_def case_prod_beta sorted_wrt_map)
  have "c \<in> set claims \<longleftrightarrow> bt_get m (rc_resource c) = Some (rc_access c)"
    using ok by (cases c) (force simp: claims bt_get_def btree_ok_distinct)
  with collect_claims_get[OF m, of "rc_resource c"] strongest_access[of "hits (rc_resource c) raw"]
  show "c \<in> set claims \<longleftrightarrow> (\<exists>d \<in> set raw. trim (rc_resource d) = rc_resource c) \<and>
      rc_access c = (if \<exists>d \<in> set raw. trim (rc_resource d) = rc_resource c \<and> rc_access d = WriteAccess
                     then WriteAccess else ReadAccess)"
    by (auto simp: bt_get_def hits_def filter_empty_conv)
qed

section \<open>Leases exclude each other\<close>

lemma bt_remove_ok: "btree_ok m \<Longrightarrow> btree_ok (bt_remove k m)"
  unfolding btree_ok_def bt_remove_def sorted_wrt_map by (rule sorted_wrt_filter)

lemma bt_get_remove: "bt_get (bt_remove k m) j = (if j = k then None else bt_get m j)"
  by (induction m) (auto simp: bt_remove_def bt_get_def)

definition claim_of :: "resource_claim list \<Rightarrow> ustring \<Rightarrow> resource_access option" where
  "claim_of claims r = map_of (map (\<lambda>c. (rc_resource c, rc_access c)) claims) r"

lemma claim_of_simps [simp]:
  "claim_of [] r = None"
  "claim_of (c # cs) r = (if r = rc_resource c then Some (rc_access c) else claim_of cs r)"
  by (simp_all add: claim_of_def)

lemma claim_of_None: "claim_of cs r = None \<longleftrightarrow> r \<notin> rc_resource ` set cs"
  by (induction cs) auto

lemma claim_eq: "c = d \<longleftrightarrow> rc_resource c = rc_resource d \<and> rc_access c = rc_access (d :: resource_claim)"
  by (cases c, cases d) simp

lemma claim_of_mem: "distinct (map rc_resource cs) \<Longrightarrow> c \<in> set cs \<longleftrightarrow> claim_of cs (rc_resource c) = Some (rc_access c)"
proof (induction cs)
  case (Cons d cs)
  then have "claim_of cs (rc_resource d) = None" by (auto simp: claim_of_None)
  with Cons show ?case by (auto simp: claim_eq[of c d])
qed simp

text \<open>A pass over the claims updates each claimed entry once.\<close>

lemma fold_claims:
  assumes "\<And>c m. btree_ok m \<Longrightarrow> btree_ok (F c m)"
    and "\<And>c m r. btree_ok m \<Longrightarrow>
      bt_get (F c m) r = (if r = rc_resource c then upd (rc_access c) (bt_get m r) else bt_get m r)"
    and "btree_ok m" and "distinct (map rc_resource claims)"
  shows "btree_ok (fold F claims m) \<and>
    bt_get (fold F claims m) r = (case claim_of claims r of None \<Rightarrow> bt_get m r | Some a \<Rightarrow> upd a (bt_get m r))"
  using assms(3,4)
proof (induction claims arbitrary: m)
  case (Cons c claims)
  from Cons.prems have "rc_resource c \<notin> rc_resource ` set claims" by simp
  then have "claim_of claims (rc_resource c) = None" by (simp add: claim_of_None)
  with Cons.IH[of "F c m"] Cons.prems assms(1,2)[OF Cons.prems(1)] show ?case by (auto split: option.splits)
qed simp

definition idle :: resource_state where
  "idle = \<lparr>rs_readers = 0, rs_writer = False\<rparr>"

definition entry :: "resource_state option \<Rightarrow> resource_state" where
  "entry s = (case s of None \<Rightarrow> idle | Some r \<Rightarrow> r)"

fun upd_apply :: "resource_access \<Rightarrow> resource_state option \<Rightarrow> resource_state option" where
  "upd_apply ReadAccess s = Some ((entry s)\<lparr>rs_readers := min (rs_readers (entry s) + 1) (2 ^ 64 - 1)\<rparr>)"
| "upd_apply WriteAccess s = Some ((entry s)\<lparr>rs_writer := True\<rparr>)"

definition kept :: "resource_state \<Rightarrow> resource_state option" where
  "kept r = (if rs_readers r = 0 \<and> \<not> rs_writer r then None else Some r)"

fun upd_release :: "resource_access \<Rightarrow> resource_state option \<Rightarrow> resource_state option" where
  "upd_release a None = None"
| "upd_release ReadAccess (Some r) = kept (r\<lparr>rs_readers := rs_readers r - 1\<rparr>)"
| "upd_release WriteAccess (Some r) = kept (r\<lparr>rs_writer := False\<rparr>)"

lemma apply_claims_get:
  assumes "btree_ok m" and "distinct (map rc_resource claims)"
  shows "btree_ok (apply_claims m claims)"
    and "bt_get (apply_claims m claims) r = (case claim_of claims r of None \<Rightarrow> bt_get m r | Some a \<Rightarrow> upd_apply a (bt_get m r))"
proof -
  have "bt_get (apply_claim c m) r = (if r = rc_resource c then upd_apply (rc_access c) (bt_get m r) else bt_get m r)"
    if "btree_ok m" for c m r
    using bt_get_insert[OF that]
    by (cases "rc_access c") (auto simp: apply_claim_def Let_def entry_def idle_def split: option.splits)
  moreover have "btree_ok (apply_claim c m)" if "btree_ok m" for c m
    using that by (simp add: apply_claim_def Let_def bt_insert_ok)
  ultimately show "btree_ok (apply_claims m claims)"
    and "bt_get (apply_claims m claims) r = (case claim_of claims r of None \<Rightarrow> bt_get m r | Some a \<Rightarrow> upd_apply a (bt_get m r))"
    unfolding apply_claims_def using fold_claims[of apply_claim upd_apply, OF _ _ assms] by blast+
qed

lemma release_claims_get:
  assumes "btree_ok m" and "distinct (map rc_resource claims)"
  shows "btree_ok (release_claims m claims)"
    and "bt_get (release_claims m claims) r = (case claim_of claims r of None \<Rightarrow> bt_get m r | Some a \<Rightarrow> upd_release a (bt_get m r))"
proof -
  have "bt_get (release_claim c m) r = (if r = rc_resource c then upd_release (rc_access c) (bt_get m r) else bt_get m r)"
    if "btree_ok m" for c m r
    using bt_get_insert[OF that]
    by (cases "rc_access c") (auto simp: release_claim_def Let_def kept_def bt_get_remove split: option.splits)
  moreover have "btree_ok (release_claim c m)" if "btree_ok m" for c m
    using that by (auto simp: release_claim_def Let_def bt_insert_ok bt_remove_ok split: option.splits)
  ultimately show "btree_ok (release_claims m claims)"
    and "bt_get (release_claims m claims) r = (case claim_of claims r of None \<Rightarrow> bt_get m r | Some a \<Rightarrow> upd_release a (bt_get m r))"
    unfolding release_claims_def using fold_claims[of release_claim upd_release, OF _ _ assms] by blast+
qed

text \<open>How many leases of a list claim a resource in a mode, and the table entry that follows.\<close>

definition holders :: "ustring \<Rightarrow> resource_access \<Rightarrow> (ustring \<times> resource_claim list) list \<Rightarrow> nat" where
  "holders r a ls = length (filter (\<lambda>l. claim_of (snd l) r = Some a) ls)"

lemma holders_append [simp]: "holders r a (ls @ ms) = holders r a ls + holders r a ms"
  by (simp add: holders_def)

lemma holders_simps [simp]:
  "holders r a [] = 0"
  "holders r a (l # ls) = (if claim_of (snd l) r = Some a then 1 else 0) + holders r a ls"
  by (simp_all add: holders_def)

lemma holders_le: "holders r a ls \<le> length ls"
  by (simp add: holders_def)

definition entry_of :: "(ustring \<times> resource_claim list) list \<Rightarrow> ustring \<Rightarrow> resource_state option" where
  "entry_of ls r = kept \<lparr>rs_readers = holders r ReadAccess ls, rs_writer = 0 < holders r WriteAccess ls\<rparr>"

definition exclusive :: "(ustring \<times> resource_claim list) list \<Rightarrow> bool" where
  "exclusive ls \<longleftrightarrow> (\<forall>r. 0 < holders r WriteAccess ls \<longrightarrow> holders r ReadAccess ls = 0 \<and> holders r WriteAccess ls = 1)"

definition table_inv :: "resource_table \<Rightarrow> (ustring \<times> resource_claim list) list \<Rightarrow> bool" where
  "table_inv state ls \<longleftrightarrow> btree_ok state \<and> length ls < 2 ^ 64 - 1 \<and> exclusive ls \<and>
     (\<forall>l \<in> set ls. distinct (map rc_resource (snd l))) \<and> (\<forall>r. bt_get state r = entry_of ls r)"

text \<open>Claims are available exactly when no held lease conflicts with them.\<close>

lemma available_iff:
  assumes "table_inv state ls" and "distinct (map rc_resource claims)"
  shows "claims_available state claims \<longleftrightarrow> (\<forall>r a. claim_of claims r = Some a \<longrightarrow>
    holders r WriteAccess ls = 0 \<and> (a = WriteAccess \<longrightarrow> holders r ReadAccess ls = 0))"
proof -
  have "claims_available state claims \<longleftrightarrow> (\<forall>c \<in> set claims. holders (rc_resource c) WriteAccess ls = 0 \<and>
      (rc_access c = WriteAccess \<longrightarrow> holders (rc_resource c) ReadAccess ls = 0))"
    using assms(1) unfolding claims_available_def table_inv_def list_all_iff
    by (intro ball_cong refl) (auto simp: entry_of_def kept_def split: resource_access.splits)
  also have "\<dots> \<longleftrightarrow> (\<forall>r a. claim_of claims r = Some a \<longrightarrow>
    holders r WriteAccess ls = 0 \<and> (a = WriteAccess \<longrightarrow> holders r ReadAccess ls = 0))"
    using claim_of_mem[OF assms(2)] by (metis resource_claim.select_convs(1,2))
  finally show ?thesis .
qed

lemma acquire_inv:
  assumes inv: "table_inv state ls" and d: "distinct (map rc_resource claims)"
    and av: "claims_available state claims" and len: "length ls < 2 ^ 64 - 2"
  shows "table_inv (apply_claims state claims) (ls @ [(n, claims)])"
proof -
  have ok: "btree_ok state" using inv by (simp add: table_inv_def)
  note get = apply_claims_get[OF ok d]
  note free = av[unfolded available_iff[OF inv d], rule_format]
  have "exclusive (ls @ [(n, claims)])"
    using inv free by (fastforce simp: exclusive_def table_inv_def)
  moreover have "bt_get (apply_claims state claims) r = entry_of (ls @ [(n, claims)]) r" for r
  proof (cases "claim_of claims r")
    case None
    with get(2)[of r] inv show ?thesis by (simp add: table_inv_def entry_of_def)
  next
    case (Some a)
    have "holders r ReadAccess ls < 2 ^ 64 - 2" using holders_le[of r ReadAccess ls] len by linarith
    with get(2)[of r] inv Some free[OF Some] show ?thesis
      by (cases a) (auto simp: table_inv_def entry_of_def kept_def entry_def idle_def min_def)
  qed
  ultimately show ?thesis using inv get(1) d len by (auto simp: table_inv_def)
qed

lemma drop_inv:
  assumes inv: "table_inv state (ls @ l # ms)"
  shows "table_inv (release_claims state (snd l)) (ls @ ms)"
proof -
  have ok: "btree_ok state" and d: "distinct (map rc_resource (snd l))" using inv by (simp_all add: table_inv_def)
  note get = release_claims_get[OF ok d]
  have ex: "exclusive (ls @ l # ms)" using inv by (simp add: table_inv_def)
  have "exclusive (ls @ ms)"
    unfolding exclusive_def
  proof
    fix r
    show "0 < holders r WriteAccess (ls @ ms) \<longrightarrow>
        holders r ReadAccess (ls @ ms) = 0 \<and> holders r WriteAccess (ls @ ms) = 1"
      using ex[unfolded exclusive_def, rule_format, of r] by (auto split: if_splits)
  qed
  moreover have "bt_get (release_claims state (snd l)) r = entry_of (ls @ ms) r" for r
  proof (cases "claim_of (snd l) r")
    case None
    with get(2)[of r] inv show ?thesis by (simp add: table_inv_def entry_of_def)
  next
    case (Some a)
    with get(2)[of r] inv ex[unfolded exclusive_def, rule_format, of r] show ?thesis
      by (cases a) (auto simp: table_inv_def entry_of_def kept_def)
  qed
  ultimately show ?thesis using inv get(1) by (auto simp: table_inv_def)
qed

section \<open>The snapshot is a partition\<close>

definition snapshot_inv :: "workflow_run_snapshot \<Rightarrow> bool" where
  "snapshot_inv s \<longleftrightarrow> btree_ok (sn_nodes s) \<and> (\<forall>n.
     (n \<in> sn_ready s \<longleftrightarrow> bt_get (sn_nodes s) n = Some NodeReady) \<and>
     (n \<in> sn_waiting s \<longleftrightarrow> bt_get (sn_nodes s) n \<in> {Some WaitingForConcurrency, Some WaitingForResources}) \<and>
     (n \<in> sn_running s \<longleftrightarrow> bt_get (sn_nodes s) n = Some NodeRunning) \<and>
     (n \<in> sn_terminal s \<longleftrightarrow> (\<exists>state. bt_get (sn_nodes s) n = Some state \<and> terminal_state state)))"

lemma snapshot_inv_new:
  assumes "btree_ok dependencies"
  shows "snapshot_inv (snapshot_new dependencies)"
proof -
  have get: "bt_get (map (\<lambda>(n, d). (n, if d = 0 then NodeReady else NodePending)) dependencies) n =
      map_option (\<lambda>d. if d = 0 then NodeReady else NodePending) (bt_get dependencies n)" for n
    by (simp add: bt_get_def map_of_map)
  have zero: "n \<in> fst ` set (filter (\<lambda>(_, d). d = 0) dependencies) \<longleftrightarrow> bt_get dependencies n = Some 0" for n
    using assms by (auto simp: bt_get_def map_of_eq_Some_iff[OF btree_ok_distinct] image_iff)
  have ok: "btree_ok (map (\<lambda>(n, d). (n, if d = 0 then NodeReady else NodePending)) dependencies)"
    using assms by (simp add: btree_ok_def comp_def case_prod_beta)
  have t: "\<not> terminal_state NodeReady" "\<not> terminal_state NodePending" by (simp_all add: terminal_state_def)
  show ?thesis
    unfolding snapshot_inv_def snapshot_new_def workflow_run_snapshot.simps get zero
    using ok t by (auto split: if_splits)
qed

lemma track_transition_sets:
  "m \<in> sn_ready (tr_snapshot (track_transition n state t)) \<longleftrightarrow>
     (if m = n then state = NodeReady else m \<in> sn_ready (tr_snapshot t))"
  "m \<in> sn_waiting (tr_snapshot (track_transition n state t)) \<longleftrightarrow>
     (if m = n then state \<in> {WaitingForConcurrency, WaitingForResources} else m \<in> sn_waiting (tr_snapshot t))"
  "m \<in> sn_running (tr_snapshot (track_transition n state t)) \<longleftrightarrow>
     (if m = n then state = NodeRunning else m \<in> sn_running (tr_snapshot t))"
  "m \<in> sn_terminal (tr_snapshot (track_transition n state t)) \<longleftrightarrow>
     (if m = n then terminal_state state else m \<in> sn_terminal (tr_snapshot t))"
  "sn_nodes (tr_snapshot (track_transition n state t)) = bt_insert n state (sn_nodes (tr_snapshot t))"
  by (cases state; simp add: track_transition_def forget_node_def Let_def terminal_state_def)+

lemma snapshot_inv_transition:
  assumes "snapshot_inv (tr_snapshot t)"
  shows "snapshot_inv (tr_snapshot (track_transition n state t))"
proof -
  have ok: "btree_ok (sn_nodes (tr_snapshot t))" using assms by (simp add: snapshot_inv_def)
  note inv = assms[unfolded snapshot_inv_def, THEN conjunct2, rule_format]
  show ?thesis
    unfolding snapshot_inv_def track_transition_sets bt_get_insert[OF ok]
    using bt_insert_ok[OF ok] inv by simp
qed

lemma snapshot_inv_finish:
  assumes "snapshot_inv s" and "terminal_state state"
  shows "snapshot_inv (fold (finish_node state) ns s) \<and>
    (\<forall>m. bt_get (sn_nodes (fold (finish_node state) ns s)) m = (if m \<in> set ns then Some state else bt_get (sn_nodes s) m))"
  using assms(1)
proof (induction ns arbitrary: s)
  case (Cons n ns)
  have ok: "btree_ok (sn_nodes s)" using Cons.prems by (simp add: snapshot_inv_def)
  have "snapshot_inv (finish_node state n s)"
    using Cons.prems assms(2) bt_insert_ok[OF ok] bt_get_insert[OF ok]
    by (auto simp: snapshot_inv_def finish_node_def terminal_state_def)
  with Cons.IH[of "finish_node state n s"] bt_get_insert[OF ok] show ?case
    by (auto simp: finish_node_def)
qed simp

lemma terminal_outcome: "terminal_state (outcome_state outcome)"
  by (cases outcome) (simp_all add: terminal_state_def)

text \<open>Ending a run settles the nodes that never were terminal, and no other.\<close>

lemma finish_incomplete_nodes:
  assumes "snapshot_inv (tr_snapshot t)" and "finite (tr_incomplete t)"
  shows "snapshot_inv (tr_snapshot (finish_incomplete outcome t))"
    and "bt_get (sn_nodes (tr_snapshot (finish_incomplete outcome t))) n =
      (if n \<in> tr_incomplete t then Some (outcome_state outcome) else bt_get (sn_nodes (tr_snapshot t)) n)"
  using snapshot_inv_finish[OF assms(1) terminal_outcome, where ns = "sorted_list_of_set (tr_incomplete t)"] assms(2)
  by (simp_all add: finish_incomplete_def)

text \<open>A node that runs again after a terminal state is left running by the end of the run.\<close>

lemma rerun_survives_finish:
  assumes "snapshot_inv (tr_snapshot t)" and "finite (tr_incomplete t)" and "terminal_state state"
  shows "n \<in> sn_running (tr_snapshot (finish_incomplete outcome
    (track_transition n NodeRunning (track_transition n state t))))"
proof -
  let ?t = "track_transition n NodeRunning (track_transition n state t)"
  have inv: "snapshot_inv (tr_snapshot ?t)" using assms(1) by (intro snapshot_inv_transition)
  have fin: "finite (tr_incomplete ?t)" and "n \<notin> tr_incomplete ?t"
    using assms(2,3) by (auto simp: track_transition_def Let_def terminal_state_def)
  moreover have "n \<in> sn_running (tr_snapshot ?t)" by (simp add: track_transition_sets)
  then have "bt_get (sn_nodes (tr_snapshot ?t)) n = Some NodeRunning" using inv by (simp add: snapshot_inv_def)
  ultimately show ?thesis
    using finish_incomplete_nodes[OF inv fin, of outcome] by (simp add: snapshot_inv_def)
qed

section \<open>Every reachable state\<close>

definition claimants :: "ustring \<Rightarrow> (ustring \<times> resource_claim list) list \<Rightarrow> nat" where
  "claimants r ls = length (filter (\<lambda>l. claim_of (snd l) r \<noteq> None) ls)"

lemma claimants_simps [simp]:
  "claimants r [] = 0"
  "claimants r (l # ls) = (if claim_of (snd l) r = None then 0 else 1) + claimants r ls"
  "claimants r (ls @ ms) = claimants r ls + claimants r ms"
  by (simp_all add: claimants_def)

definition some_if_pos :: "nat \<Rightarrow> nat option" where
  "some_if_pos k = (if k = 0 then None else Some k)"

definition holders_inv :: "(ustring, nat) btree \<Rightarrow> (ustring \<times> resource_claim list) list \<Rightarrow> bool" where
  "holders_inv m ls \<longleftrightarrow> btree_ok m \<and> (\<forall>r. bt_get m r = some_if_pos (claimants r ls))"

lemma acquired_holders:
  assumes "holders_inv m ls" and "distinct (map rc_resource claims)"
  shows "holders_inv (fold (\<lambda>c m. bt_insert (rc_resource c)
      ((case bt_get m (rc_resource c) of None \<Rightarrow> 0 | Some k \<Rightarrow> k) + 1) m) claims m) (ls @ [(n, claims)])"
    (is "holders_inv (fold ?F claims m) _")
proof -
  have ok: "btree_ok m" using assms(1) by (simp add: holders_inv_def)
  have f: "btree_ok (fold ?F claims m) \<and> bt_get (fold ?F claims m) r = (case claim_of claims r of
      None \<Rightarrow> bt_get m r | Some a \<Rightarrow> Some ((case bt_get m r of None \<Rightarrow> 0 | Some k \<Rightarrow> k) + 1))" for r
    by (rule fold_claims[of ?F "\<lambda>a s. Some ((case s of None \<Rightarrow> 0 | Some k \<Rightarrow> k) + 1)", OF _ _ ok assms(2)])
      (simp_all add: bt_insert_ok bt_get_insert)
  have "bt_get (fold ?F claims m) r = some_if_pos (claimants r (ls @ [(n, claims)]))" for r
    using f[of r] assms(1) by (simp add: holders_inv_def some_if_pos_def split: option.splits)
  with f show ?thesis by (simp add: holders_inv_def)
qed

lemma released_holders:
  assumes "holders_inv m (ls @ l # ms)" and "distinct (map rc_resource (snd l))"
  shows "holders_inv (fold (\<lambda>c m. case bt_get m (rc_resource c) of
           None \<Rightarrow> m
         | Some k \<Rightarrow> if k - 1 = 0 then bt_remove (rc_resource c) m else bt_insert (rc_resource c) (k - 1) m) (snd l) m)
      (ls @ ms)" (is "holders_inv (fold ?F (snd l) m) _")
proof -
  have ok: "btree_ok m" using assms(1) by (simp add: holders_inv_def)
  have f: "btree_ok (fold ?F (snd l) m) \<and> bt_get (fold ?F (snd l) m) r = (case claim_of (snd l) r of
      None \<Rightarrow> bt_get m r | Some a \<Rightarrow> (case bt_get m r of None \<Rightarrow> None | Some k \<Rightarrow> some_if_pos (k - 1)))" for r
    by (rule fold_claims[of ?F "\<lambda>a s. case s of None \<Rightarrow> None | Some k \<Rightarrow> some_if_pos (k - 1)", OF _ _ ok assms(2)])
      (auto simp: bt_insert_ok bt_get_insert bt_remove_ok bt_get_remove some_if_pos_def split: option.splits)
  have "bt_get (fold ?F (snd l) m) r = some_if_pos (claimants r (ls @ ms))" for r
    using f[of r] assms(1) by (simp add: holders_inv_def some_if_pos_def split: option.splits)
  with f show ?thesis by (simp add: holders_inv_def)
qed

definition lease_inv :: "lease_world \<Rightarrow> bool" where
  "lease_inv w \<longleftrightarrow> table_inv (lw_state w) (lw_leases w) \<and>
     holders_inv (sn_resource_holders (tr_snapshot (lw_tracker w))) (lw_leases w) \<and>
     snapshot_inv (tr_snapshot (lw_tracker w)) \<and> finite (tr_incomplete (lw_tracker w))"

lemma snapshot_inv_holders [simp]: "snapshot_inv (s\<lparr>sn_resource_holders := m\<rparr>) = snapshot_inv s"
  by (simp add: snapshot_inv_def)

lemma tracked_holders [simp]:
  "sn_resource_holders (tr_snapshot (track_transition n state t)) = sn_resource_holders (tr_snapshot t)"
  "sn_resource_holders (tr_snapshot (finish_incomplete outcome t)) = sn_resource_holders (tr_snapshot t)"
proof -
  have "sn_resource_holders (fold (finish_node state) ns s) = sn_resource_holders s" for state ns s
    by (induction ns arbitrary: s) (simp_all add: finish_node_def)
  then show "sn_resource_holders (tr_snapshot (finish_incomplete outcome t)) = sn_resource_holders (tr_snapshot t)"
    by (simp add: finish_incomplete_def)
qed (simp add: track_transition_def forget_node_def Let_def)

lemma tracked_incomplete:
  "finite (tr_incomplete t) \<Longrightarrow> finite (tr_incomplete (track_transition n state t))"
  by (simp add: track_transition_def Let_def)

lemma lease_inv_transition:
  "lease_inv w \<Longrightarrow> lease_inv (w\<lparr>lw_tracker := track_transition n state (lw_tracker w)\<rparr>)"
  by (simp add: lease_inv_def snapshot_inv_transition tracked_incomplete)

lemma lease_step_inv:
  assumes "lease_step w w'" and "lease_inv w"
  shows "lease_inv w'"
  using assms(1)
proof (cases rule: lease_step.cases)
  case (step_acquire raw claims node)
  have d: "distinct (map rc_resource claims)"
    using normalized_claims(1)[OF step_acquire(2)] by (simp add: strict_sorted_iff)
  show ?thesis
  proof (cases "claims \<noteq> [] \<and> \<not> lw_cancelled w \<and> claims_available (lw_state w) claims")
    case True
    with step_acquire(1,3) assms(2) acquire_inv[OF _ d, of "lw_state w" "lw_leases w" node] acquired_holders[OF _ d, of _ "lw_leases w" node]
    show ?thesis by (auto simp: try_acquire_def lease_inv_def resource_acquired_def)
  next
    case False
    with step_acquire(1) assms(2) lease_inv_transition[OF assms(2)] show ?thesis
      by (auto simp: try_acquire_def)
  qed
next
  case (step_drop k)
  have split: "lw_leases w = take k (lw_leases w) @ lw_leases w ! k # drop (Suc k) (lw_leases w)"
    using step_drop(2) by (rule id_take_nth_drop)
  from assms(2) have t: "table_inv (lw_state w) (take k (lw_leases w) @ lw_leases w ! k # drop (Suc k) (lw_leases w))"
    and h: "holders_inv (sn_resource_holders (tr_snapshot (lw_tracker w)))
      (take k (lw_leases w) @ lw_leases w ! k # drop (Suc k) (lw_leases w))"
    using split by (simp_all add: lease_inv_def)
  have d: "distinct (map rc_resource (snd (lw_leases w ! k)))" using t by (simp add: table_inv_def)
  show ?thesis using step_drop(1) drop_inv[OF t] released_holders[OF h d] assms(2)
    by (simp add: drop_lease_def Let_def lease_inv_def resource_released_def)
next
  case (step_finish outcome)
  with assms(2) finish_incomplete_nodes(1)[of "lw_tracker w" outcome] show ?thesis
    by (simp add: lease_inv_def finish_incomplete_def[of outcome "lw_tracker w", THEN arg_cong[of _ _ tr_incomplete]])
qed (use assms(2) lease_inv_transition in \<open>auto simp: lease_inv_def\<close>)

lemma lease_inv_reachable: "lease_reachable w \<Longrightarrow> lease_inv w"
proof (induction rule: lease_reachable.induct)
  case (lease_init dependencies)
  then show ?case using snapshot_inv_new[OF lease_init]
    by (simp add: lease_inv_def lease_world_new_def tracker_new_def table_inv_def exclusive_def entry_of_def kept_def
        holders_inv_def snapshot_new_def bt_get_def some_if_pos_def)
qed (rule lease_step_inv)

text \<open>Two leases of one resource are both shared, and a lease is refused only for a conflict.\<close>

lemma leases_compatible:
  assumes "exclusive ls" and "i < j" and "j < length ls"
    and "claim_of (snd (ls ! i)) r = Some a" and "claim_of (snd (ls ! j)) r = Some b"
  shows "a = ReadAccess \<and> b = ReadAccess"
proof -
  define ps where "ps = take i ls"
  define qs where "qs = take (j - Suc i) (drop (Suc i) ls)"
  define rs where "rs = drop (Suc j) ls"
  have eq: "ls = ps @ ls ! i # qs @ ls ! j # rs"
  proof -
    have "drop (Suc i) ls = qs @ ls ! j # rs"
      using assms(2,3) id_take_nth_drop[of "j - Suc i" "drop (Suc i) ls"] by (simp add: qs_def rs_def)
    with id_take_nth_drop[of i ls] assms(2,3) show ?thesis by (simp add: ps_def)
  qed
  have "holders r a' ls = holders r a' ps + (if a' = a then 1 else 0) + holders r a' qs
      + (if a' = b then 1 else 0) + holders r a' rs" for a'
  proof -
    have "holders r a' ls = holders r a' (ps @ ls ! i # qs @ ls ! j # rs)" by (rule arg_cong[OF eq])
    also have "\<dots> = holders r a' ps + (if a' = a then 1 else 0) + holders r a' qs
      + (if a' = b then 1 else 0) + holders r a' rs" using assms(4,5) by simp
    finally show ?thesis .
  qed
  with assms(1)[unfolded exclusive_def, rule_format, of r] show ?thesis
    by (cases a; cases b) auto
qed

end
