(* ===== verification/Workflow_Schemas.thy ===== *)
theory Workflow_Schemas
  imports Workflow_Values
begin

text \<open>
  The admission of runtime value schemas (\<open>compile_runtime_value_schema\<close> and its checks in
  \<open>packages/workflow/src/lib.rs\<close>): structural bounds, local references and the bounded cache of
  compiled validators, and the checks of persistable authoring values.

  The JSON text of a value (\<open>serde_json::to_vec\<close>), a JSON pointer (\<open>Value::pointer\<close>) and the
  compiler of validators (\<open>jsonschema\<close>) are the fields of \<open>schema_env\<close>.
\<close>

section \<open>Bounds\<close>

definition MAX_WORKFLOW_AUTHORING_ID_BYTES :: nat where
  "MAX_WORKFLOW_AUTHORING_ID_BYTES = 256"

definition MAX_WORKFLOW_AUTHORING_SCHEMA_BYTES :: nat where
  "MAX_WORKFLOW_AUTHORING_SCHEMA_BYTES = 131072"

definition MAX_WORKFLOW_AUTHORING_JSON_DEPTH :: nat where
  "MAX_WORKFLOW_AUTHORING_JSON_DEPTH = 64"

definition MAX_WORKFLOW_AUTHORING_SCHEMA_PROPERTIES :: nat where
  "MAX_WORKFLOW_AUTHORING_SCHEMA_PROPERTIES = 4096"

definition MAX_WORKFLOW_AUTHORING_SCHEMA_ENUM_VALUES :: nat where
  "MAX_WORKFLOW_AUTHORING_SCHEMA_ENUM_VALUES = 4096"

definition MAX_WORKFLOW_AUTHORING_SCHEMA_REFERENCES :: nat where
  "MAX_WORKFLOW_AUTHORING_SCHEMA_REFERENCES = 4096"

definition WORKFLOW_AUTHORING_JSON_SCHEMA_DIALECT :: ustring where
  "WORKFLOW_AUTHORING_JSON_SCHEMA_DIALECT = str ''https://json-schema.org/draft/2020-12/schema''"

type_synonym 'num validator = "'num json \<Rightarrow> ustring option"

record 'num schema_env =
  se_bytes :: "'num json \<Rightarrow> ustring + nat list"
  se_pointer :: "'num json \<Rightarrow> ustring \<Rightarrow> 'num json option"
  se_validator :: "'num json \<Rightarrow> ustring + 'num validator"

definition sat_usize :: "nat \<Rightarrow> nat" where
  "sat_usize n = min n (2 ^ 64 - 1)"

definition as_object :: "'num json \<Rightarrow> (ustring \<times> 'num json) list option" where
  "as_object v = (case v of JObject kvs \<Rightarrow> Some kvs | _ \<Rightarrow> None)"

definition as_array :: "'num json \<Rightarrow> 'num json list option" where
  "as_array v = (case v of JArray items \<Rightarrow> Some items | _ \<Rightarrow> None)"

text \<open>The values of a structured value, by key and by index.\<close>

fun members :: "'num json \<Rightarrow> 'num json list" where
  "members (JArray items) = items"
| "members (JObject kvs) = map snd kvs"
| "members _ = []"

lemma members_size [termination_simp]: "w \<in> set (members v) \<Longrightarrow> size w < size v"
proof (cases v)
  case (JObject kvs)
  assume "w \<in> set (members v)"
  with JObject obtain kv where "kv \<in> set kvs" "w = snd kv" by auto
  then have "size w \<le> size_list (size_prod (\<lambda>_. 0) size) kvs"
    by (intro size_list_estimation'[of kv]) (auto simp: size_prod_simp)
  with JObject show ?thesis by simp
qed (auto simp: less_Suc_eq_le dest: size_list_estimation'[OF _ order.refl, where f = size])

text \<open>The nodes of a value: what a walk over all of it has to do.\<close>

fun json_nodes :: "'num json \<Rightarrow> nat" where
  "json_nodes v = 1 + sum_list (map json_nodes (members v))"

declare json_nodes.simps [simp del]

lemma json_nodes_pos [simp]: "0 < json_nodes v"
  by (simp add: json_nodes.simps)

lemma json_nodes_members: "sum_list (map json_nodes (members v)) < json_nodes v"
  by (simp add: json_nodes.simps[of v])

section \<open>Structural bounds\<close>

record schema_counts =
  sc_properties :: nat
  sc_enum_values :: nat
  sc_references :: nat

definition count_reference ::
    "ustring \<Rightarrow> (ustring \<times> 'num json) list \<Rightarrow> schema_counts \<Rightarrow> workflow_error + schema_counts" where
  "count_reference path kvs counts =
     (case map_of kvs (str ''$ref'') of
        None \<Rightarrow> Inr counts
      | Some reference \<Rightarrow>
          (case as_str reference of
             None \<Rightarrow> Inl (BuildError path (str ''schema $ref values must be strings''))
           | Some r \<Rightarrow>
               if strip_prefix (str ''#/'') r = None
               then Inl (BuildError path (str ''remote and non-local schema references are unsupported''))
               else Inr (counts\<lparr>sc_references := sat_usize (sc_references counts + 1)\<rparr>)))"

definition count_fields ::
    "ustring \<Rightarrow> (ustring \<times> 'num json) list \<Rightarrow> schema_counts \<Rightarrow> workflow_error + schema_counts" where
  "count_fields path kvs counts =
     (let properties = (case Option.bind (map_of kvs (str ''properties'')) as_object of None \<Rightarrow> 0 | Some p \<Rightarrow> length p);
          values = (case Option.bind (map_of kvs (str ''enum'')) as_array of None \<Rightarrow> 0 | Some vs \<Rightarrow> length vs)
      in case count_reference path kvs
                (counts\<lparr>sc_properties := sat_usize (sc_properties counts + properties),
                        sc_enum_values := sat_usize (sc_enum_values counts + values)\<rparr>) of
           Inl e \<Rightarrow> Inl e
         | Inr counts \<Rightarrow>
             if sc_properties counts > MAX_WORKFLOW_AUTHORING_SCHEMA_PROPERTIES
               \<or> sc_enum_values counts > MAX_WORKFLOW_AUTHORING_SCHEMA_ENUM_VALUES
               \<or> sc_references counts > MAX_WORKFLOW_AUTHORING_SCHEMA_REFERENCES
             then Inl (BuildError path
                    (str ''schema exceeds property, enum, or local-reference bounds (4096/4096/4096)''))
             else Inr counts)"

definition count_node :: "ustring \<Rightarrow> 'num json \<Rightarrow> schema_counts \<Rightarrow> workflow_error + schema_counts" where
  "count_node path v counts = (case v of JObject kvs \<Rightarrow> count_fields path kvs counts | _ \<Rightarrow> Inr counts)"

function validate_runtime_schema_value ::
    "ustring \<Rightarrow> 'num json \<Rightarrow> nat \<Rightarrow> schema_counts \<Rightarrow> workflow_error + schema_counts"
  and validate_runtime_schema_items ::
    "ustring \<Rightarrow> 'num json list \<Rightarrow> nat \<Rightarrow> schema_counts \<Rightarrow> workflow_error + schema_counts"
where
  "validate_runtime_schema_value path v depth counts =
     (if depth > MAX_WORKFLOW_AUTHORING_JSON_DEPTH
      then Inl (BuildError path (str ''JSON depth exceeds 64''))
      else (case count_node path v counts of
              Inl e \<Rightarrow> Inl e
            | Inr counts \<Rightarrow> validate_runtime_schema_items path (members v) (depth + 1) counts))"
| "validate_runtime_schema_items path [] depth counts = Inr counts"
| "validate_runtime_schema_items path (v # vs) depth counts =
     (case validate_runtime_schema_value path v depth counts of
        Inl e \<Rightarrow> Inl e
      | Inr counts \<Rightarrow> validate_runtime_schema_items path vs depth counts)"
  by pat_completeness auto

termination
  by (relation "measure (case_sum (\<lambda>(_, v, _, _). 2 * json_nodes v) (\<lambda>(_, vs, _, _). 2 * sum_list (map json_nodes vs) + 1))")
    (auto simp: json_nodes.simps[of v for v])

declare validate_runtime_schema_value.simps [simp del]

section \<open>Local references\<close>

text \<open>\<open>str::replace\<close> of a two-character pattern, and of a character.\<close>

fun replace_pair :: "uchar \<Rightarrow> uchar \<Rightarrow> ustring \<Rightarrow> ustring \<Rightarrow> ustring" where
  "replace_pair a b t (x # y # s) =
     (if x = a \<and> y = b then t @ replace_pair a b t s else x # replace_pair a b t (y # s))"
| "replace_pair a b t s = s"

definition replace_char :: "uchar \<Rightarrow> ustring \<Rightarrow> ustring \<Rightarrow> ustring" where
  "replace_char a t s = concat (map (\<lambda>c. if c = a then t else [c]) s)"

definition tilde :: uchar where "tilde = ch CHR ''~''"
definition slash :: uchar where "slash = ch CHR ''/''"
definition zero :: uchar where "zero = ch CHR ''0''"
definition one :: uchar where "one = ch CHR ''1''"

definition decode_pointer_component :: "ustring \<Rightarrow> ustring" where
  "decode_pointer_component s = replace_pair tilde zero [tilde] (replace_pair tilde one [slash] s)"

definition encode_pointer_component :: "ustring \<Rightarrow> ustring" where
  "encode_pointer_component s = replace_char slash [tilde, one] (replace_char tilde [tilde, zero] s)"

definition reference_of :: "'num json \<Rightarrow> ustring option" where
  "reference_of v = (case v of JObject kvs \<Rightarrow> Option.bind (map_of kvs (str ''$ref'')) as_str | _ \<Rightarrow> None)"

definition reference_escaped :: "ustring \<Rightarrow> bool" where
  "reference_escaped r \<longleftrightarrow>
     (\<forall>c \<in> set (split_on (\<lambda>c. c = slash) (case strip_prefix (str ''#/'') r of None \<Rightarrow> [] | Some p \<Rightarrow> p)).
        encode_pointer_component (decode_pointer_component c) = c)"

definition malformed_reference :: "ustring \<Rightarrow> ustring \<Rightarrow> workflow_error" where
  "malformed_reference path r =
     BuildError path (str ''malformed local schema reference '' @ str [CHR 0x27] @ r @ str [CHR 0x27])"

function validate_pointer_syntax :: "ustring \<Rightarrow> 'num json \<Rightarrow> workflow_error + unit"
  and validate_pointer_items :: "ustring \<Rightarrow> 'num json list \<Rightarrow> workflow_error + unit"
where
  "validate_pointer_syntax path v =
     (case reference_of v of
        Some r \<Rightarrow> if reference_escaped r then validate_pointer_items path (members v)
                  else Inl (malformed_reference path r)
      | None \<Rightarrow> validate_pointer_items path (members v))"
| "validate_pointer_items path [] = Inr ()"
| "validate_pointer_items path (v # vs) =
     (case validate_pointer_syntax path v of Inl e \<Rightarrow> Inl e | Inr _ \<Rightarrow> validate_pointer_items path vs)"
  by pat_completeness auto

termination
  by (relation "measure (case_sum (\<lambda>(_, v). 2 * json_nodes v) (\<lambda>(_, vs). 2 * sum_list (map json_nodes vs) + 1))")
    (auto simp: json_nodes.simps[of v for v])

declare validate_pointer_syntax.simps [simp del]

definition resolve_reference :: "'num schema_env \<Rightarrow> 'num json \<Rightarrow> ustring \<Rightarrow> 'num json option" where
  "resolve_reference env root r =
     (case strip_prefix (str ''#'') r of
        None \<Rightarrow> None
      | Some pointer \<Rightarrow> if pointer = [] then Some root else se_pointer env root pointer)"

text \<open>
  One reference: it is counted, resolved and must not be active. The result is the target with
  the new count, \<open>None\<close> for a value that is no reference.
\<close>

definition follow_reference ::
    "'num schema_env \<Rightarrow> ustring \<Rightarrow> 'num json \<Rightarrow> 'num json \<Rightarrow> ustring set \<Rightarrow> nat
       \<Rightarrow> workflow_error + (ustring \<times> 'num json \<times> nat) option" where
  "follow_reference env path root v active expansions =
     (case reference_of v of
        None \<Rightarrow> Inr None
      | Some r \<Rightarrow>
          (let n = sat_usize (expansions + 1) in
           if n > MAX_WORKFLOW_AUTHORING_SCHEMA_REFERENCES
           then Inl (BuildError path (str ''local schema reference expansion exceeds 4096''))
           else (case resolve_reference env root r of
                   None \<Rightarrow> Inl (BuildError path
                             (str ''unresolved local schema reference '' @ str [CHR 0x27] @ r @ str [CHR 0x27]))
                 | Some target \<Rightarrow>
                     if r \<in> active
                     then Inl (BuildError path (str ''recursive local schema reference '' @ str [CHR 0x27] @ r
                            @ str [CHR 0x27] @ str '' is unsupported''))
                     else Inr (Some (r, target, n)))))"

text \<open>The members of a value without the reference itself.\<close>

definition plain_members :: "'num json \<Rightarrow> 'num json list" where
  "plain_members v =
     (case v of JObject kvs \<Rightarrow> map snd (filter (\<lambda>(k, _). k \<noteq> str ''$ref'') kvs) | _ \<Rightarrow> members v)"

lemma plain_members_nodes: "sum_list (map json_nodes (plain_members v)) < json_nodes v"
proof (cases v)
  case (JObject kvs)
  have "sum_list (map json_nodes (map snd (filter P kvs))) \<le> sum_list (map json_nodes (map snd kvs))" for P
    by (induction kvs) auto
  then show ?thesis using json_nodes_members[of v] JObject
    by (auto simp: plain_members_def intro: le_less_trans)
qed (use json_nodes_members[of v] in \<open>simp_all add: plain_members_def\<close>)

text \<open>
  The walk over a value and everything its references expand to. The active set is the one of the
  source, which takes a reference out again when its expansion is done.
\<close>

function walk ::
    "'num schema_env \<Rightarrow> ustring \<Rightarrow> 'num json \<Rightarrow> 'num json \<Rightarrow> ustring set \<Rightarrow> nat \<Rightarrow> workflow_error + nat"
  and walk_items ::
    "'num schema_env \<Rightarrow> ustring \<Rightarrow> 'num json \<Rightarrow> 'num json list \<Rightarrow> ustring set \<Rightarrow> nat \<Rightarrow> workflow_error + nat"
where
  "walk env path root v active expansions =
     (case follow_reference env path root v active expansions of
        Inl e \<Rightarrow> Inl e
      | Inr None \<Rightarrow> walk_items env path root (plain_members v) active expansions
      | Inr (Some (r, target, n)) \<Rightarrow>
          (case walk env path root target (insert r active) n of
             Inl e \<Rightarrow> Inl e
           | Inr n \<Rightarrow> walk_items env path root (plain_members v) active n))"
| "walk_items env path root [] active expansions = Inr expansions"
| "walk_items env path root (v # vs) active expansions =
     (case walk env path root v active expansions of
        Inl e \<Rightarrow> Inl e
      | Inr n \<Rightarrow> walk_items env path root vs active n)"
  by pat_completeness auto

lemma follow_reference_Some:
  "follow_reference env path root v active expansions = Inr (Some (r, target, n)) \<longleftrightarrow>
     reference_of v = Some r \<and> resolve_reference env root r = Some target \<and> r \<notin> active \<and>
     n = expansions + 1 \<and> n \<le> MAX_WORKFLOW_AUTHORING_SCHEMA_REFERENCES"
  by (auto simp: follow_reference_def sat_usize_def Let_def MAX_WORKFLOW_AUTHORING_SCHEMA_REFERENCES_def
      split: option.splits if_splits)

lemma follow_reference_None: "follow_reference env path root v active expansions = Inr None \<longleftrightarrow> reference_of v = None"
  by (auto simp: follow_reference_def Let_def split: option.splits if_splits)

text \<open>The count only grows, so the walk ends: every expansion spends one of the 4,096.\<close>

lemma walk_grows:
  "walk_walk_items_dom (Inl (env, path, root, v, active, n)) \<Longrightarrow> walk env path root v active n = Inr m \<Longrightarrow> n \<le> m"
  "walk_walk_items_dom (Inr (env, path, root, vs, active, n)) \<Longrightarrow> walk_items env path root vs active n = Inr m \<Longrightarrow> n \<le> m"
proof (induction env path root v active n and env path root vs active n arbitrary: m and m rule: walk_walk_items.pinduct)
  case (1 env path root v active n)
  show ?case
  proof (cases "follow_reference env path root v active n")
    case (Inr x)
    show ?thesis
    proof (cases x)
      case None
      from 1(2)[OF Inr None, of m] 1(1,5) Inr None show ?thesis by (simp add: walk.psimps)
    next
      case (Some y)
      then obtain r target k where y: "x = Some (r, target, k)" by (cases y) auto
      with Inr have k: "k = n + 1" by (simp add: follow_reference_Some)
      from 1(1,5) Inr y obtain k' where w: "walk env path root target (insert r active) k = Inr k'"
        and i: "walk_items env path root (plain_members v) active k' = Inr m"
        by (auto simp: walk.psimps split: sum.splits)
      have "(r, target, k) = y" using y Some by simp
      from 1(3)[OF Inr Some this refl w] 1(4)[OF Inr Some this refl w i] k show ?thesis by simp
    qed
  qed (use 1(1,5) in \<open>simp add: walk.psimps\<close>)
next
  case (3 env path root v vs active n)
  from 3(1,4) obtain k where "walk env path root v active n = Inr k" "walk_items env path root vs active k = Inr m"
    by (auto simp: walk_items.psimps split: sum.splits)
  with 3(2)[of k] 3(3)[of k m] show ?case by simp
qed (simp add: walk_items.psimps)

lemma plain_members_measure: "Suc (2 * sum_list (map json_nodes (plain_members v))) < 2 * json_nodes v"
  using plain_members_nodes[of v] by simp

termination walk
  by (relation "measures [case_sum (\<lambda>(_, _, _, _, _, n). 4097 - n) (\<lambda>(_, _, _, _, _, n). 4097 - n),
      case_sum (\<lambda>(_, _, _, v, _, _). 2 * json_nodes v) (\<lambda>(_, _, _, vs, _, _). 2 * sum_list (map json_nodes vs) + 1)]")
    (auto simp: follow_reference_Some MAX_WORKFLOW_AUTHORING_SCHEMA_REFERENCES_def plain_members_measure
      dest!: walk_grows)

declare walk.simps [simp del]

definition validate_local_schema_references :: "'num schema_env \<Rightarrow> ustring \<Rightarrow> 'num json \<Rightarrow> workflow_error + unit" where
  "validate_local_schema_references env path root =
     (case validate_pointer_syntax path root of
        Inl e \<Rightarrow> Inl e
      | Inr _ \<Rightarrow> (case walk env path root root {} 0 of Inl e \<Rightarrow> Inl e | Inr _ \<Rightarrow> Inr ()))"

section \<open>Compilation and its cache\<close>

definition admit_type_name :: "ustring \<Rightarrow> ustring \<Rightarrow> workflow_error + unit" where
  "admit_type_name path name =
     (if is_blank name \<or> byte_len name > MAX_WORKFLOW_AUTHORING_ID_BYTES
      then Inl (BuildError (path @ str ''.type_name'') (str ''schema type name must contain 1..=256 bytes''))
      else Inr ())"

definition schema_key :: "'num schema_env \<Rightarrow> ustring \<Rightarrow> 'num json \<Rightarrow> workflow_error + nat list" where
  "schema_key env path schema =
     (case se_bytes env schema of
        Inl e \<Rightarrow> Inl (BuildError path (str ''schema cannot be serialized: '' @ e))
      | Inr bytes \<Rightarrow> if length bytes > MAX_WORKFLOW_AUTHORING_SCHEMA_BYTES
                     then Inl (BuildError path (str ''schema exceeds 131072 bytes'')) else Inr bytes)"

definition admit_dialect :: "ustring \<Rightarrow> 'num json \<Rightarrow> workflow_error + unit" where
  "admit_dialect path schema =
     (case value_get schema (str ''$schema'') of
        None \<Rightarrow> Inr ()
      | Some dialect \<Rightarrow> if as_str dialect \<noteq> Some WORKFLOW_AUTHORING_JSON_SCHEMA_DIALECT
                        then Inl (BuildError (path @ str ''.$schema'') (str ''unsupported JSON Schema dialect; expected ''
                               @ WORKFLOW_AUTHORING_JSON_SCHEMA_DIALECT))
                        else Inr ())"

definition compile_schema :: "'num schema_env \<Rightarrow> ustring \<Rightarrow> 'num json \<Rightarrow> workflow_error + 'num validator" where
  "compile_schema env path schema =
     (case admit_dialect path schema of
        Inl e \<Rightarrow> Inl e
      | Inr _ \<Rightarrow>
     (case validate_runtime_schema_value path schema 0 \<lparr>sc_properties = 0, sc_enum_values = 0, sc_references = 0\<rparr> of
        Inl e \<Rightarrow> Inl e
      | Inr _ \<Rightarrow>
     (case validate_local_schema_references env path schema of
        Inl e \<Rightarrow> Inl e
      | Inr _ \<Rightarrow> map_err (\<lambda>e. BuildError path (str ''invalid JSON Schema: '' @ e)) (se_validator env schema))))"

type_synonym 'num validator_cache = "(nat list \<times> 'num validator) list"

definition MAX_CACHED_SCHEMAS :: nat where "MAX_CACHED_SCHEMAS = 64"
definition MAX_CACHED_SCHEMA_BYTES :: nat where "MAX_CACHED_SCHEMA_BYTES = 16384"

text \<open>A hit moves its entry to the back; a full cache drops its front.\<close>

definition compile_cached ::
    "'num schema_env \<Rightarrow> ustring \<Rightarrow> 'num json \<Rightarrow> nat list \<Rightarrow> 'num validator_cache
       \<Rightarrow> (workflow_error + 'num validator) \<times> 'num validator_cache" where
  "compile_cached env path schema bytes cache =
     (case find (\<lambda>(key, _). key = bytes) cache of
        Some entry \<Rightarrow> (Inr (snd entry), remove1 entry cache @ [entry])
      | None \<Rightarrow>
          (case compile_schema env path schema of
             Inl e \<Rightarrow> (Inl e, cache)
           | Inr validator \<Rightarrow>
               (Inr validator, (if length cache \<ge> MAX_CACHED_SCHEMAS then tl cache else cache) @ [(bytes, validator)])))"

definition compile_runtime_value_schema ::
    "'num schema_env \<Rightarrow> ustring \<Rightarrow> 'num value_schema \<Rightarrow> 'num validator_cache
       \<Rightarrow> (workflow_error + 'num validator) \<times> 'num validator_cache" where
  "compile_runtime_value_schema env path schema cache =
     (case admit_type_name path (vs_type_name schema) of
        Inl e \<Rightarrow> (Inl e, cache)
      | Inr _ \<Rightarrow>
     (case schema_key env path (vs_schema schema) of
        Inl e \<Rightarrow> (Inl e, cache)
      | Inr bytes \<Rightarrow>
          if length bytes \<le> MAX_CACHED_SCHEMA_BYTES then compile_cached env path (vs_schema schema) bytes cache
          else (compile_schema env path (vs_schema schema), cache)))"

text \<open>The same without a cache.\<close>

definition admit_schema :: "'num schema_env \<Rightarrow> ustring \<Rightarrow> 'num value_schema \<Rightarrow> workflow_error + 'num validator" where
  "admit_schema env path schema =
     (case admit_type_name path (vs_type_name schema) of
        Inl e \<Rightarrow> Inl e
      | Inr _ \<Rightarrow> (case schema_key env path (vs_schema schema) of
                   Inl e \<Rightarrow> Inl e
                 | Inr _ \<Rightarrow> compile_schema env path (vs_schema schema)))"

definition validate_runtime_value_schema :: "'num schema_env \<Rightarrow> ustring \<Rightarrow> 'num value_schema \<Rightarrow> workflow_error + unit" where
  "validate_runtime_value_schema env path schema =
     (case admit_schema env path schema of Inl e \<Rightarrow> Inl e | Inr _ \<Rightarrow> Inr ())"

definition validate_value_against_schema ::
    "'num schema_env \<Rightarrow> ustring \<Rightarrow> 'num json \<Rightarrow> 'num value_schema \<Rightarrow> workflow_error + unit" where
  "validate_value_against_schema env path value schema =
     (case admit_schema env path schema of
        Inl e \<Rightarrow> Inl e
      | Inr validator \<Rightarrow>
          (case validator value of
             Some e \<Rightarrow> Inl (BuildError path (str ''value does not match schema: '' @ e))
           | None \<Rightarrow> Inr ()))"

section \<open>Persistable values\<close>

definition ascii_lower :: "uchar \<Rightarrow> uchar" where
  "ascii_lower c = (if 65 \<le> c \<and> c \<le> 90 then c + 32 else c)"

definition sensitive_field :: "ustring \<Rightarrow> bool" where
  "sensitive_field name \<longleftrightarrow> map ascii_lower name \<in> set (map str
     [''api_key'', ''access_token'', ''refresh_token'', ''password'', ''private_key'', ''client_secret'',
      ''credential'', ''credentials'', ''secret'', ''secrets''])"

definition secret_reference :: "'num json \<Rightarrow> bool" where
  "secret_reference v \<longleftrightarrow> (case v of
       JObject kvs \<Rightarrow> Option.bind (map_of kvs (str ''backend'')) as_str \<in> {Some (str ''env''), Some (str ''sshenv'')} \<and>
         (map_of kvs (str ''name'') \<noteq> None \<or> map_of kvs (str ''key'') \<noteq> None \<or> map_of kvs (str ''profile'') \<noteq> None)
     | _ \<Rightarrow> False)"

function persist_value :: "ustring \<Rightarrow> 'num json \<Rightarrow> workflow_error + unit"
  and persist_items :: "ustring \<Rightarrow> nat \<Rightarrow> 'num json list \<Rightarrow> workflow_error + unit"
  and persist_fields :: "ustring \<Rightarrow> (ustring \<times> 'num json) list \<Rightarrow> workflow_error + unit"
where
  "persist_value path v =
     (case v of
        JArray items \<Rightarrow> persist_items path 0 items
      | JObject kvs \<Rightarrow>
          if secret_reference v
          then Inl (BuildError path (str ''invocation-time secret references cannot be persisted in authored state''))
          else persist_fields path kvs
      | _ \<Rightarrow> Inr ())"
| "persist_items path i [] = Inr ()"
| "persist_items path i (v # vs) =
     (case persist_value (path @ str ''.'' @ show_nat i) v of Inl e \<Rightarrow> Inl e | Inr _ \<Rightarrow> persist_items path (i + 1) vs)"
| "persist_fields path [] = Inr ()"
| "persist_fields path ((k, v) # kvs) =
     (if sensitive_field k \<and> v \<noteq> JNull
      then Inl (BuildError (path @ str ''.'' @ k)
             (str ''inline secret-bearing fields cannot be persisted in authored state''))
      else (case persist_value (path @ str ''.'' @ k) v of Inl e \<Rightarrow> Inl e | Inr _ \<Rightarrow> persist_fields path kvs))"
  by pat_completeness auto

termination
  by (relation "measure (case_sum (\<lambda>(_, v). 2 * json_nodes v)
        (case_sum (\<lambda>(_, _, vs). 2 * sum_list (map json_nodes vs) + 1)
           (\<lambda>(_, kvs). 2 * sum_list (map json_nodes (map snd kvs)) + 1)))")
    (auto simp: json_nodes.simps[of "JArray x" for x] json_nodes.simps[of "JObject x" for x])

declare persist_value.simps [simp del]

definition validate_persistable_authoring_value :: "ustring \<Rightarrow> 'num json \<Rightarrow> workflow_error + unit" where
  "validate_persistable_authoring_value path v = persist_value path v"

text \<open>The depth bound of authoring values.\<close>

function authoring_depth :: "ustring \<Rightarrow> 'num json \<Rightarrow> nat \<Rightarrow> workflow_error + unit"
  and authoring_depth_items :: "ustring \<Rightarrow> 'num json list \<Rightarrow> nat \<Rightarrow> workflow_error + unit"
where
  "authoring_depth path v depth =
     (if depth > MAX_WORKFLOW_AUTHORING_JSON_DEPTH then Inl (BuildError path (str ''JSON depth exceeds 64''))
      else authoring_depth_items path (members v) (depth + 1))"
| "authoring_depth_items path [] depth = Inr ()"
| "authoring_depth_items path (v # vs) depth =
     (case authoring_depth path v depth of Inl e \<Rightarrow> Inl e | Inr _ \<Rightarrow> authoring_depth_items path vs depth)"
  by pat_completeness auto

termination
  by (relation "measure (case_sum (\<lambda>(_, v, _). 2 * json_nodes v) (\<lambda>(_, vs, _). 2 * sum_list (map json_nodes vs) + 1))")
    (auto simp: json_nodes.simps[of v for v])

declare authoring_depth.simps [simp del]

definition validate_authoring_json_value :: "ustring \<Rightarrow> 'num json \<Rightarrow> workflow_error + unit" where
  "validate_authoring_json_value path v = authoring_depth path v 0"

text \<open>The canonical form sorts the fields of every object.\<close>

fun normalize_json :: "'num json \<Rightarrow> 'num json" where
  "normalize_json (JArray items) = JArray (map normalize_json items)"
| "normalize_json (JObject kvs) = JObject (bt_from (map (\<lambda>(k, v). (k, normalize_json v)) kvs))"
| "normalize_json v = v"

section \<open>Facts about references\<close>

text \<open>Every reference of a value, and the references its target holds.\<close>

lemma plain_members_size [termination_simp]: "w \<in> set (plain_members v) \<Longrightarrow> size w < size v"
  by (rule members_size) (auto simp: plain_members_def split: json.splits)

fun schema_references :: "'num json \<Rightarrow> ustring set" where
  "schema_references v = set_option (reference_of v) \<union> (\<Union>w \<in> set (plain_members v). schema_references w)"

declare schema_references.simps [simp del]

definition expands_to :: "'num schema_env \<Rightarrow> 'num json \<Rightarrow> (ustring \<times> ustring) set" where
  "expands_to env root = {(r, s). \<exists>target. resolve_reference env root r = Some target \<and> s \<in> schema_references target}"

text \<open>A walk that succeeds has walked through the target of every reference below its value.\<close>

lemma walk_references:
  "walk env path root v active n = Inr m \<Longrightarrow> r \<in> schema_references v \<Longrightarrow>
     r \<notin> active \<and> (\<exists>target k m'. resolve_reference env root r = Some target \<and> walk env path root target (insert r active) k = Inr m')"
  "walk_items env path root vs active n = Inr m \<Longrightarrow> w \<in> set vs \<Longrightarrow> r \<in> schema_references w \<Longrightarrow>
     r \<notin> active \<and> (\<exists>target k m'. resolve_reference env root r = Some target \<and> walk env path root target (insert r active) k = Inr m')"
proof (induction env path root v active n and env path root vs active n arbitrary: r m and w r m rule: walk_walk_items.induct)
  case (1 env path root v active n)
  note ev = 1(4)[unfolded walk.simps[of env path root v]]
  show ?case
  proof (cases "follow_reference env path root v active n")
    case (Inr x)
    show ?thesis
    proof (cases x)
      case None
      with Inr have "reference_of v = None" by (simp add: follow_reference_None)
      with 1(5) obtain w where "w \<in> set (plain_members v)" "r \<in> schema_references w"
        by (auto simp: schema_references.simps[of v])
      with 1(1)[OF Inr None, of m w r] ev Inr None show ?thesis by simp
    next
      case (Some y)
      obtain s target k where y: "y = (s, target, k)" by (cases y) auto
      from ev Inr Some y obtain k' where w: "walk env path root target (insert s active) k = Inr k'"
        and i: "walk_items env path root (plain_members v) active k' = Inr m"
        by (auto split: sum.splits)
      from Inr Some y have s: "reference_of v = Some s" "resolve_reference env root s = Some target" "s \<notin> active"
        by (simp_all add: follow_reference_Some)
      show ?thesis
      proof (cases "r = s")
        case True
        with s w show ?thesis by blast
      next
        case False
        with 1(5) s obtain u where "u \<in> set (plain_members v)" "r \<in> schema_references u"
          by (auto simp: schema_references.simps[of v])
        with 1(3)[OF Inr Some y[symmetric] refl w i] show ?thesis by blast
      qed
    qed
  qed (use ev in simp)
next
  case (3 env path root v vs active n)
  from 3(3) obtain k where "walk env path root v active n = Inr k" "walk_items env path root vs active k = Inr m"
    by (auto split: sum.splits)
  with 3(1)[of k] 3(2)[of k m] 3(4,5) show ?case by auto
qed simp

lemma walk_avoids_active:
  assumes "(r, s) \<in> (expands_to env root)\<^sup>*" and "walk env path root v active n = Inr m" and "r \<in> schema_references v"
  shows "s \<notin> active \<and> resolve_reference env root s \<noteq> None"
  using assms
proof (induction arbitrary: v active n m rule: converse_rtrancl_induct)
  case base
  then show ?case using walk_references(1)[OF base] by auto
next
  case (step r r')
  from walk_references(1)[OF step(4,5)] step(1) obtain target k m' where
    "walk env path root target (insert r active) k = Inr m'" "r' \<in> schema_references target"
    by (auto simp: expands_to_def)
  with step.IH show ?case by blast
qed

lemma accepted_references:
  assumes "validate_local_schema_references env path root = Inr ()" and "r \<in> schema_references root"
    and "(r, s) \<in> (expands_to env root)\<^sup>*"
  shows "resolve_reference env root s \<noteq> None" and "(s, s) \<notin> (expands_to env root)\<^sup>+"
proof -
  obtain m where w: "walk env path root root {} 0 = Inr m"
    using assms(1) by (auto simp: validate_local_schema_references_def split: sum.splits)
  show "resolve_reference env root s \<noteq> None" using walk_avoids_active[OF assms(3) w assms(2)] by simp
  have "(s, s) \<notin> (expands_to env root)\<^sup>+"
    if "(r, s) \<in> (expands_to env root)\<^sup>*" "walk env path root v active n = Inr m" "r \<in> schema_references v" for r v active n m
    using that
  proof (induction arbitrary: v active n m rule: converse_rtrancl_induct)
    case base
    show ?case
    proof
      assume "(s, s) \<in> (expands_to env root)\<^sup>+"
      then obtain s' where s': "(s, s') \<in> expands_to env root" "(s', s) \<in> (expands_to env root)\<^sup>*" by (meson tranclD)
      from walk_references(1)[OF base] s'(1) obtain target k m' where
        "walk env path root target (insert s active) k = Inr m'" "s' \<in> schema_references target"
        by (auto simp: expands_to_def)
      from walk_avoids_active[OF s'(2) this] show False by simp
    qed
  next
    case (step r r')
    from walk_references(1)[OF step(4,5)] step(1) obtain target k m' where
      "walk env path root target (insert r active) k = Inr m'" "r' \<in> schema_references target"
      by (auto simp: expands_to_def)
    with step.IH show ?case by blast
  qed
  from this[OF assms(3) w assms(2)] show "(s, s) \<notin> (expands_to env root)\<^sup>+" .
qed

section \<open>Facts about pointer components\<close>

fun well_escaped :: "ustring \<Rightarrow> bool" where
  "well_escaped (c # d # s) =
     (if c = tilde then (d = zero \<or> d = one) \<and> well_escaped s else well_escaped (d # s))"
| "well_escaped [c] = (c \<noteq> tilde)"
| "well_escaped [] = True"

lemma pointer_chars [simp]:
  "tilde \<noteq> slash" "slash \<noteq> tilde" "zero \<noteq> one" "one \<noteq> zero" "tilde \<noteq> zero" "zero \<noteq> tilde" "tilde \<noteq> one" "one \<noteq> tilde"
  "slash \<noteq> zero" "zero \<noteq> slash" "slash \<noteq> one" "one \<noteq> slash"
  by (simp_all add: tilde_def slash_def zero_def one_def)

lemma well_escaped_Cons: "c \<noteq> tilde \<Longrightarrow> well_escaped (c # s) = well_escaped s"
  by (cases s) simp_all

lemma encode_pointer_simps [simp]:
  "encode_pointer_component [] = []"
  "encode_pointer_component (c # s) =
     (if c = tilde then [tilde, zero] else if c = slash then [tilde, one] else [c]) @ encode_pointer_component s"
  by (simp_all add: encode_pointer_component_def replace_char_def)

lemma encode_well_escaped: "well_escaped (encode_pointer_component s)"
  by (induction s) (auto simp: well_escaped_Cons)

lemma replace_pair_skip: "c \<noteq> a \<Longrightarrow> replace_pair a b t (c # s) = c # replace_pair a b t s"
  by (cases s) simp_all

lemma replace_pair_other: "d \<noteq> b \<Longrightarrow> d \<noteq> a \<Longrightarrow> replace_pair a b t (a # d # s) = a # d # replace_pair a b t s"
  by (simp add: replace_pair_skip)

lemma decode_encode: "well_escaped s \<Longrightarrow> slash \<notin> set s \<Longrightarrow> encode_pointer_component (decode_pointer_component s) = s"
proof (induction s rule: well_escaped.induct)
  case (1 c d s)
  show ?case
  proof (cases "c = tilde")
    case True
    with 1 show ?thesis
      by (auto simp: decode_pointer_component_def replace_pair_other replace_pair_skip)
  next
    case False
    with 1 show ?thesis by (simp add: decode_pointer_component_def replace_pair_skip del: replace_pair.simps)
  qed
qed (auto simp: decode_pointer_component_def)

lemma decode_of_encode: "decode_pointer_component (encode_pointer_component s) = s"
  by (induction s) (auto simp: decode_pointer_component_def replace_pair_other replace_pair_skip)

lemma reencoded_iff:
  assumes "slash \<notin> set c"
  shows "encode_pointer_component (decode_pointer_component c) = c \<longleftrightarrow> well_escaped c"
  using decode_encode[OF _ assms] encode_well_escaped[of "decode_pointer_component c"] by metis

section \<open>Facts about the cache\<close>

text \<open>The path of a check is its diagnostic only: it does not decide whether the check succeeds.\<close>

definition agree :: "workflow_error + 'a \<Rightarrow> workflow_error + 'a \<Rightarrow> bool" where
  "agree r s \<longleftrightarrow> rel_sum (\<lambda>_ _. True) (=) r s"

lemma agree_simps [simp]:
  "agree (Inl e) (Inl f)" "agree (Inr x) (Inr y) \<longleftrightarrow> x = y" "\<not> agree (Inl e) (Inr y)" "\<not> agree (Inr x) (Inl f)"
  by (simp_all add: agree_def)

lemma agree_refl: "agree r r"
  by (cases r) simp_all

lemma agree_Inr: "agree r s \<Longrightarrow> r = Inr x \<Longrightarrow> s = Inr x"
  by (cases s) auto

lemma agree_case:
  "agree r s \<Longrightarrow> (\<And>x. r = Inr x \<Longrightarrow> s = Inr x \<Longrightarrow> agree (f x) (g x)) \<Longrightarrow>
     agree (case r of Inl e \<Rightarrow> Inl e | Inr x \<Rightarrow> f x) (case s of Inl e \<Rightarrow> Inl e | Inr x \<Rightarrow> g x)"
  by (cases r; cases s) auto

lemma agree_count_node: "agree (count_node path v counts) (count_node path' v counts)"
proof -
  have "agree (count_reference path kvs counts) (count_reference path' kvs counts)" for kvs counts
    by (auto simp: count_reference_def split: option.splits)
  then show ?thesis
    by (auto simp: count_node_def count_fields_def Let_def agree_refl split: json.splits intro!: agree_case)
qed

lemma agree_runtime_schema:
  fixes v :: "'num json" and vs :: "'num json list"
  shows "agree (validate_runtime_schema_value path v depth counts) (validate_runtime_schema_value path' v depth counts)"
    and "agree (validate_runtime_schema_items path vs depth counts) (validate_runtime_schema_items path' vs depth counts)"
proof (induction path v depth counts and path vs depth counts rule: validate_runtime_schema_value_validate_runtime_schema_items.induct)
  case (1 path v depth counts)
  show ?case
    unfolding validate_runtime_schema_value.simps[of path v] validate_runtime_schema_value.simps[of path' v]
    using 1 by (auto intro!: agree_case agree_count_node)
qed (auto intro!: agree_case)

lemma agree_pointer_syntax:
  fixes v :: "'num json" and vs :: "'num json list"
  shows "agree (validate_pointer_syntax path v) (validate_pointer_syntax path' v)"
    and "agree (validate_pointer_items path vs) (validate_pointer_items path' vs)"
proof (induction path v and path vs rule: validate_pointer_syntax_validate_pointer_items.induct)
  case (1 path v)
  show ?case
    unfolding validate_pointer_syntax.simps[of path v] validate_pointer_syntax.simps[of path' v]
    using 1 by (auto split: option.splits)
qed (auto intro!: agree_case)

lemma agree_follow: "agree (follow_reference env path root v active n) (follow_reference env path' root v active n)"
  by (auto simp: follow_reference_def Let_def agree_refl split: option.splits)

lemma agree_walk:
  "agree (walk env path root v active n) (walk env path' root v active n)"
  "agree (walk_items env path root vs active n) (walk_items env path' root vs active n)"
proof (induction env path root v active n and env path root vs active n rule: walk_walk_items.induct)
  case (1 env path root v active n)
  show ?case
    unfolding walk.simps[of env path root v] walk.simps[of env path' root v]
  proof (rule agree_case[OF agree_follow])
    fix x assume x: "follow_reference env path root v active n = Inr x"
    show "agree
        (case x of None \<Rightarrow> walk_items env path root (plain_members v) active n
         | Some (r, target, k) \<Rightarrow> (case walk env path root target (insert r active) k of
             Inl e \<Rightarrow> Inl e | Inr k \<Rightarrow> walk_items env path root (plain_members v) active k))
        (case x of None \<Rightarrow> walk_items env path' root (plain_members v) active n
         | Some (r, target, k) \<Rightarrow> (case walk env path' root target (insert r active) k of
             Inl e \<Rightarrow> Inl e | Inr k \<Rightarrow> walk_items env path' root (plain_members v) active k))"
      using 1 x by (auto split: option.splits intro!: agree_case)
  qed
qed (auto intro!: agree_case)

lemma agree_compile: "agree (compile_schema env path schema) (compile_schema env path' schema)"
proof -
  have "agree (admit_dialect path schema) (admit_dialect path' schema)"
    by (auto simp: admit_dialect_def split: option.splits)
  moreover have "agree (validate_local_schema_references env path schema) (validate_local_schema_references env path' schema)"
    unfolding validate_local_schema_references_def
    by (intro agree_case agree_pointer_syntax agree_walk) simp
  moreover have "agree (map_err (\<lambda>e. BuildError path (str ''invalid JSON Schema: '' @ e)) r)
      (map_err (\<lambda>e. BuildError path' (str ''invalid JSON Schema: '' @ e)) r)" for r :: "ustring + 'a validator"
    by (cases r) (simp_all add: map_err_def)
  ultimately show ?thesis
    unfolding compile_schema_def by (intro agree_case agree_runtime_schema)
qed

definition validator_cache_ok :: "'num schema_env \<Rightarrow> 'num validator_cache \<Rightarrow> bool" where
  "validator_cache_ok env cache \<longleftrightarrow> length cache \<le> MAX_CACHED_SCHEMAS \<and> distinct (map fst cache) \<and>
     (\<forall>(key, validator) \<in> set cache. length key \<le> MAX_CACHED_SCHEMA_BYTES \<and>
        (\<exists>schema path. se_bytes env schema = Inr key \<and> compile_schema env path schema = Inr validator))"

text \<open>The documented behaviour of \<open>serde_json::to_vec\<close>: different values have different texts.\<close>

definition bytes_injective :: "'num schema_env \<Rightarrow> bool" where
  "bytes_injective env \<longleftrightarrow> (\<forall>a b key. se_bytes env a = Inr key \<longrightarrow> se_bytes env b = Inr key \<longrightarrow> a = b)"

lemma schema_key_Inr: "schema_key env path schema = Inr key \<Longrightarrow> se_bytes env schema = Inr key"
  by (auto simp: schema_key_def split: sum.splits if_splits)

lemma cached_validator:
  assumes "validator_cache_ok env cache" and "bytes_injective env" and "se_bytes env schema = Inr key"
    and "(key, validator) \<in> set cache"
  shows "compile_schema env path schema = Inr validator"
proof -
  from assms(1,4) obtain schema' path' where "se_bytes env schema' = Inr key" "compile_schema env path' schema' = Inr validator"
    unfolding validator_cache_ok_def by blast
  with assms(2,3) have "compile_schema env path' schema = Inr validator" unfolding bytes_injective_def by metis
  then show ?thesis by (rule agree_Inr[OF agree_compile])
qed

lemma compile_cached_transparent:
  assumes "validator_cache_ok env cache" and "bytes_injective env" and "se_bytes env schema = Inr bytes"
  shows "fst (compile_cached env path schema bytes cache) = compile_schema env path schema"
proof (cases "find (\<lambda>(key, _). key = bytes) cache")
  case (Some entry)
  then obtain i where "i < length cache" "cache ! i = entry" "fst entry = bytes"
    by (auto simp: find_Some_iff case_prod_beta)
  then obtain i where "i < length cache" "cache ! i = entry" "fst entry = bytes"
    by (auto simp: find_Some_iff case_prod_beta)
  then have "(bytes, snd entry) \<in> set cache" by (metis nth_mem prod.collapse)
  from cached_validator[OF assms this] Some show ?thesis by (simp add: compile_cached_def)
qed (simp add: compile_cached_def split: sum.split)

lemma compile_cached_ok:
  assumes "validator_cache_ok env cache" and "se_bytes env schema = Inr bytes" and "length bytes \<le> MAX_CACHED_SCHEMA_BYTES"
  shows "validator_cache_ok env (snd (compile_cached env path schema bytes cache))"
proof (cases "find (\<lambda>(key, _). key = bytes) cache")
  case (Some entry)
  then have "entry \<in> set cache" by (metis find_Some_iff nth_mem)
  then obtain xs ys where "cache = xs @ entry # ys" "entry \<notin> set xs" by (meson split_list_first)
  with assms(1) Some show ?thesis by (auto simp: compile_cached_def validator_cache_ok_def remove1_append)
next
  case None
  let ?c = "if length cache \<ge> MAX_CACHED_SCHEMAS then tl cache else cache"
  have sub: "set ?c \<subseteq> set cache" by (cases cache) auto
  have "bytes \<notin> fst ` set cache" using None by (auto simp: find_None_iff)
  with sub have "bytes \<notin> fst ` set ?c" by blast
  moreover have "length ?c < MAX_CACHED_SCHEMAS"
    using assms(1) by (auto simp: validator_cache_ok_def MAX_CACHED_SCHEMAS_def)
  moreover have "distinct (map fst ?c)" using assms(1) by (auto simp: validator_cache_ok_def map_tl intro: distinct_tl)
  moreover have "\<forall>(key, v) \<in> set ?c. length key \<le> MAX_CACHED_SCHEMA_BYTES \<and>
      (\<exists>schema path. se_bytes env schema = Inr key \<and> compile_schema env path schema = Inr v)"
    using assms(1) sub unfolding validator_cache_ok_def by blast
  ultimately have "validator_cache_ok env (?c @ [(bytes, validator)])" if "compile_schema env path schema = Inr validator" for validator
    using assms(2,3) that unfolding validator_cache_ok_def by auto
  with None assms(1) show ?thesis by (cases "compile_schema env path schema") (simp_all add: compile_cached_def)
qed

lemma cache_transparent:
  assumes "validator_cache_ok env cache" and "bytes_injective env"
  shows "fst (compile_runtime_value_schema env path schema cache) = admit_schema env path schema"
  by (simp add: compile_runtime_value_schema_def admit_schema_def compile_cached_transparent[OF assms schema_key_Inr]
      split: sum.split)

lemma cache_kept:
  assumes "validator_cache_ok env cache"
  shows "validator_cache_ok env (snd (compile_runtime_value_schema env path schema cache))"
  by (simp add: compile_runtime_value_schema_def assms compile_cached_ok[OF assms schema_key_Inr] split: sum.split)

section \<open>Facts about persisted values\<close>

text \<open>The values inside a value, itself included.\<close>

inductive inside :: "'num json \<Rightarrow> 'num json \<Rightarrow> bool" where
  itself: "inside v v"
| below: "w \<in> set (members v) \<Longrightarrow> inside u w \<Longrightarrow> inside u v"

lemma persist_items_member:
  "persist_items path i vs = Inr () \<Longrightarrow> w \<in> set vs \<Longrightarrow> \<exists>p. persist_value p w = Inr ()"
  by (induction vs arbitrary: i) (auto split: sum.splits)

lemma persist_fields_member:
  "persist_fields path kvs = Inr () \<Longrightarrow> (k, w) \<in> set kvs \<Longrightarrow>
     (\<exists>p. persist_value p w = Inr ()) \<and> (sensitive_field k \<longrightarrow> w = JNull)"
  by (induction kvs) (auto split: sum.splits if_splits)

lemma persist_inside: "inside u v \<Longrightarrow> persist_value path v = Inr () \<Longrightarrow> \<exists>p. persist_value p u = Inr ()"
proof (induction arbitrary: path rule: inside.induct)
  case (below w v u)
  have "\<exists>p. persist_value p w = Inr ()"
  proof (cases v)
    case (JArray items)
    with below show ?thesis using persist_items_member[of path 0 items w]
      by (simp add: persist_value.simps[of path "JArray items"])
  next
    case (JObject kvs)
    with below obtain k where "(k, w) \<in> set kvs" "persist_fields path kvs = Inr ()"
      by (auto simp: persist_value.simps[of path "JObject kvs"] split: if_splits)
    then show ?thesis using persist_fields_member by blast
  qed (use below in simp_all)
  with below show ?case by blast
qed blast

lemma persisted_value_safe:
  assumes "validate_persistable_authoring_value path v = Inr ()" and "inside (JObject kvs) v"
  shows "\<not> secret_reference (JObject kvs)" and "(k, w) \<in> set kvs \<Longrightarrow> sensitive_field k \<Longrightarrow> w = JNull"
proof -
  obtain p where p: "persist_value p (JObject kvs) = Inr ()"
    using persist_inside[OF assms(2)] assms(1) by (auto simp: validate_persistable_authoring_value_def)
  then have f: "\<not> secret_reference (JObject kvs)" "persist_fields p kvs = Inr ()"
    by (auto simp: persist_value.simps[of p] split: if_splits)
  show "\<not> secret_reference (JObject kvs)" by (fact f)
  show "(k, w) \<in> set kvs \<Longrightarrow> sensitive_field k \<Longrightarrow> w = JNull" using persist_fields_member[OF f(2)] by blast
qed

end
