(* ===== verification/Workflow_Cycles.thy ===== *)
theory Workflow_Cycles
  imports Prelude
begin

text \<open>
  The cycle check of a workflow definition (\<open>ensure_acyclic\<close> of
  \<open>packages/workflow/src/lib.rs\<close>) on node identities and the forward edges between them: counting
  of dependencies, the queue of free nodes, and the count of the nodes that became free. An
  \<open>expect\<close> that fails is \<open>None\<close>.
\<close>

section \<open>The algorithm\<close>

type_synonym edge_list = "(ustring \<times> ustring) list"

fun count_edges ::
    "edge_list \<Rightarrow> (ustring, nat) btree \<Rightarrow> (ustring, ustring list) btree
       \<Rightarrow> ((ustring, nat) btree \<times> (ustring, ustring list) btree) option" where
  "count_edges [] indegree outgoing = Some (indegree, outgoing)"
| "count_edges ((u, v) # es) indegree outgoing =
     (case bt_get indegree v of
        None \<Rightarrow> None
      | Some d \<Rightarrow> count_edges es (bt_insert v (d + 1) indegree)
                    (bt_insert u ((case bt_get outgoing u of None \<Rightarrow> [] | Some ts \<Rightarrow> ts) @ [v]) outgoing))"

fun free_targets ::
    "ustring list \<Rightarrow> ustring list \<Rightarrow> (ustring, nat) btree \<Rightarrow> (ustring list \<times> (ustring, nat) btree) option" where
  "free_targets [] ready indegree = Some (ready, indegree)"
| "free_targets (t # ts) ready indegree =
     (case bt_get indegree t of
        None \<Rightarrow> None
      | Some d \<Rightarrow> free_targets ts (if d - 1 = 0 then bs_insert t ready else ready) (bt_insert t (d - 1) indegree))"

partial_function (option) visit_ready ::
    "(ustring, ustring list) btree \<Rightarrow> ustring list \<Rightarrow> (ustring, nat) btree \<Rightarrow> nat \<Rightarrow> nat option" where
  "visit_ready outgoing ready indegree visited =
     (case ready of
        [] \<Rightarrow> Some visited
      | node # rest \<Rightarrow>
          (case free_targets (case bt_get outgoing node of None \<Rightarrow> [] | Some ts \<Rightarrow> ts) rest indegree of
             None \<Rightarrow> None
           | Some (ready', indegree') \<Rightarrow> visit_ready outgoing ready' indegree' (min (visited + 1) (2 ^ 64 - 1))))"

declare visit_ready.simps [code]

text \<open>\<open>Some True\<close>: every node became free.\<close>

definition graph_is_acyclic :: "ustring list \<Rightarrow> edge_list \<Rightarrow> bool option" where
  "graph_is_acyclic ids es =
     (case count_edges es (map (\<lambda>i. (i, 0)) ids) [] of
        None \<Rightarrow> None
      | Some (indegree, outgoing) \<Rightarrow>
          (case visit_ready outgoing (map fst (filter (\<lambda>(i, d). d = 0) indegree)) indegree 0 of
             None \<Rightarrow> None
           | Some visited \<Rightarrow> Some (visited = length ids)))"

section \<open>Counting\<close>

definition edges_into :: "ustring set \<Rightarrow> edge_list \<Rightarrow> ustring \<Rightarrow> nat" where
  "edges_into done es v = length (filter (\<lambda>(u, w). w = v \<and> u \<notin> done) es)"

definition targets_of :: "edge_list \<Rightarrow> ustring \<Rightarrow> ustring list" where
  "targets_of es u = map snd (filter (\<lambda>(w, _). w = u) es)"

definition degrees :: "ustring set \<Rightarrow> (ustring \<Rightarrow> nat) \<Rightarrow> (ustring, nat) btree \<Rightarrow> bool" where
  "degrees ids f m \<longleftrightarrow> btree_ok m \<and> (\<forall>v. bt_get m v = (if v \<in> ids then Some (f v) else None))"

lemma degrees_insert: "degrees ids f m \<Longrightarrow> v \<in> ids \<Longrightarrow> degrees ids (f(v := n)) (bt_insert v n m)"
  by (auto simp: degrees_def bt_insert_ok bt_get_insert)

lemma degrees_cong: "degrees ids f m \<Longrightarrow> (\<And>v. v \<in> ids \<Longrightarrow> f v = g v) \<Longrightarrow> degrees ids g m"
  by (auto simp: degrees_def)

lemma count_edges_degrees:
  "degrees ids f indegree \<Longrightarrow> btree_ok outgoing \<Longrightarrow> (\<forall>(u, v) \<in> set es. v \<in> ids) \<Longrightarrow>
     \<exists>indegree' outgoing'. count_edges es indegree outgoing = Some (indegree', outgoing') \<and>
       degrees ids (\<lambda>v. f v + edges_into {} es v) indegree' \<and>
       (\<forall>u. (case bt_get outgoing' u of None \<Rightarrow> [] | Some ts \<Rightarrow> ts) =
         (case bt_get outgoing u of None \<Rightarrow> [] | Some ts \<Rightarrow> ts) @ targets_of es u)"
proof (induction es indegree outgoing arbitrary: f rule: count_edges.induct)
  case (2 u v es indegree outgoing)
  let ?out = "bt_insert u ((case bt_get outgoing u of None \<Rightarrow> [] | Some ts \<Rightarrow> ts) @ [v]) outgoing"
  from 2(2,4) have v: "v \<in> ids" and d: "bt_get indegree v = Some (f v)" by (auto simp: degrees_def)
  from 2(1)[OF d degrees_insert[OF 2(2) v] bt_insert_ok[OF 2(3)]] 2(4) obtain indegree' outgoing' where
    c: "count_edges es (bt_insert v (f v + 1) indegree) ?out = Some (indegree', outgoing')"
    and deg: "degrees ids (\<lambda>w. (f(v := f v + 1)) w + edges_into {} es w) indegree'"
    and out: "\<And>u'. (case bt_get outgoing' u' of None \<Rightarrow> [] | Some ts \<Rightarrow> ts) =
         (case bt_get ?out u' of None \<Rightarrow> [] | Some ts \<Rightarrow> ts) @ targets_of es u'"
    by auto
  have "degrees ids (\<lambda>w. f w + edges_into {} ((u, v) # es) w) indegree'"
    by (rule degrees_cong[OF deg]) (auto simp: edges_into_def)
  moreover have "(case bt_get outgoing' u' of None \<Rightarrow> [] | Some ts \<Rightarrow> ts) =
         (case bt_get outgoing u' of None \<Rightarrow> [] | Some ts \<Rightarrow> ts) @ targets_of ((u, v) # es) u'" for u'
    unfolding out bt_get_insert[OF 2(3)] by (auto simp: targets_of_def split: option.splits)
  ultimately show ?case using c d by auto
qed (simp add: edges_into_def targets_of_def)

lemma free_targets_degrees:
  "degrees ids f indegree \<Longrightarrow> set ts \<subseteq> ids \<Longrightarrow> (\<And>v. count_list ts v \<le> f v) \<Longrightarrow> sorted_wrt (<) ready \<Longrightarrow>
     \<exists>ready' indegree'. free_targets ts ready indegree = Some (ready', indegree') \<and>
       degrees ids (\<lambda>v. f v - count_list ts v) indegree' \<and> sorted_wrt (<) ready' \<and>
       set ready' = set ready \<union> {v \<in> set ts. f v = count_list ts v}"
proof (induction ts ready indegree arbitrary: f rule: free_targets.induct)
  case (2 t ts ready indegree)
  let ?ready = "if f t - 1 = 0 then bs_insert t ready else ready"
  from 2(2,3) have t: "t \<in> ids" and d: "bt_get indegree t = Some (f t)" by (auto simp: degrees_def)
  have le: "count_list ts v \<le> (f(t := f t - 1)) v" for v using 2(4)[of v] by (auto split: if_splits)
  have rest: "set ts \<subseteq> ids" using 2(3) by simp
  have ins: "sorted_wrt (<) ?ready" using bs_insert_sorted[OF 2(5), of t] 2(5) by simp
  from 2(1)[OF d degrees_insert[OF 2(2) t] rest le ins] obtain ready' indegree' where
    c: "free_targets ts ?ready (bt_insert t (f t - 1) indegree) = Some (ready', indegree')"
    and deg: "degrees ids (\<lambda>v. (f(t := f t - 1)) v - count_list ts v) indegree'"
    and sorted: "sorted_wrt (<) ready'"
    and ready: "set ready' = set ?ready \<union> {v \<in> set ts. (f(t := f t - 1)) v = count_list ts v}"
    by blast
  have "degrees ids (\<lambda>v. f v - count_list (t # ts) v) indegree'"
    by (rule degrees_cong[OF deg]) auto
  moreover have "set ready' = set ready \<union> {v \<in> set (t # ts). f v = count_list (t # ts) v}"
  proof -
    have "count_list ts t < f t" using 2(4)[of t] by simp
    moreover have "count_list ts t = 0 \<longleftrightarrow> t \<notin> set ts" by (rule count_list_0_iff)
    ultimately show ?thesis unfolding ready by (auto split: if_splits)
  qed
  ultimately show ?case using c d sorted by simp
qed simp

section \<open>The invariant of the loop\<close>

definition ordered_by :: "edge_list \<Rightarrow> ustring list \<Rightarrow> bool" where
  "ordered_by es ps \<longleftrightarrow> (\<forall>i < length ps. \<forall>u. (u, ps ! i) \<in> set es \<longrightarrow> u \<in> set (take i ps))"

lemma ordered_by_snoc:
  "ordered_by es (ps @ [p]) \<longleftrightarrow> ordered_by es ps \<and> (\<forall>u. (u, p) \<in> set es \<longrightarrow> u \<in> set ps)"
  unfolding ordered_by_def by (auto simp: less_Suc_eq nth_append)

definition visit_inv :: "ustring set \<Rightarrow> edge_list \<Rightarrow> ustring list \<Rightarrow> ustring list \<Rightarrow> (ustring, nat) btree \<Rightarrow> bool" where
  "visit_inv ids es ps ready indegree \<longleftrightarrow> distinct ps \<and> set ps \<subseteq> ids \<and> set ready \<subseteq> ids \<and> sorted_wrt (<) ready \<and>
     set ps \<inter> set ready = {} \<and> degrees ids (edges_into (set ps) es) indegree \<and>
     (\<forall>v \<in> ids. v \<in> set ps \<union> set ready \<longleftrightarrow> edges_into (set ps) es v = 0) \<and> ordered_by es ps"

lemma edges_into_0: "edges_into done es v = 0 \<longleftrightarrow> (\<forall>u. (u, v) \<in> set es \<longrightarrow> u \<in> done)"
  by (auto simp: edges_into_def filter_empty_conv)

lemma edges_into_insert:
  "u \<notin> done \<Longrightarrow> edges_into done es v = edges_into (insert u done) es v + count_list (targets_of es u) v"
  by (induction es) (auto simp: edges_into_def targets_of_def)

lemma visit_step:
  assumes inv: "visit_inv ids es ps (p # rest) indegree" and es: "\<forall>(u, v) \<in> set es. u \<in> ids \<and> v \<in> ids"
  shows "\<exists>ready' indegree'. free_targets (targets_of es p) rest indegree = Some (ready', indegree') \<and>
    visit_inv ids es (ps @ [p]) ready' indegree'"
proof -
  have p: "p \<notin> set ps" "p \<in> ids" "p \<notin> set rest" and free: "edges_into (set ps) es p = 0"
    using inv by (auto simp: visit_inv_def strict_sorted_iff)
  note split = edges_into_insert[OF p(1), of es]
  have t: "set (targets_of es p) \<subseteq> ids" using es by (auto simp: targets_of_def)
  have le: "count_list (targets_of es p) v \<le> edges_into (set ps) es v" for v by (simp add: split)
  have deg: "degrees ids (edges_into (set ps) es) indegree" and sorted: "sorted_wrt (<) rest"
    using inv by (simp_all add: visit_inv_def)
  obtain ready' indegree' where step: "free_targets (targets_of es p) rest indegree = Some (ready', indegree')"
    and deg': "degrees ids (\<lambda>v. edges_into (set ps) es v - count_list (targets_of es p) v) indegree'"
    and sorted': "sorted_wrt (<) ready'"
    and ready': "set ready' = set rest \<union> {v \<in> set (targets_of es p). edges_into (set ps) es v = count_list (targets_of es p) v}"
    using free_targets_degrees[OF deg t le sorted] by auto
  have "degrees ids (edges_into (set (ps @ [p])) es) indegree'"
    by (rule degrees_cong[OF deg']) (simp add: split)
  moreover have no: "v \<notin> set (targets_of es p)" if "v \<in> set ps \<union> set (p # rest)" for v
  proof -
    have "v \<in> ids" using that inv by (auto simp: visit_inv_def)
    with that inv have "edges_into (set ps) es v = 0" unfolding visit_inv_def by blast
    with p(1) show ?thesis by (auto simp: edges_into_0 targets_of_def)
  qed
  moreover have "v \<in> set (ps @ [p]) \<union> set ready' \<longleftrightarrow> edges_into (set (ps @ [p])) es v = 0" if "v \<in> ids" for v
  proof -
    have old: "v \<in> set ps \<union> set (p # rest) \<longleftrightarrow> edges_into (set ps) es v = 0" using inv that by (simp add: visit_inv_def)
    show ?thesis
    proof (cases "v \<in> set (targets_of es p)")
      case True
      then show ?thesis using no[of v] ready' split[of v] by auto
    next
      case False
      then have "count_list (targets_of es p) v = 0" by (simp add: count_list_0_iff)
      with False old ready' split[of v] show ?thesis by auto
    qed
  qed
  moreover have "ordered_by es (ps @ [p])"
    using inv free by (auto simp: visit_inv_def ordered_by_snoc edges_into_0)
  moreover have "set (ps @ [p]) \<inter> set ready' = {}" using no ready' inv p by (auto simp: visit_inv_def)
  moreover have "set ready' \<subseteq> ids" using ready' t inv by (auto simp: visit_inv_def)
  ultimately show ?thesis
    using step sorted' inv p unfolding visit_inv_def by auto
qed

text \<open>The loop ends, and what it has visited then is closed under predecessors and leaves no free node.\<close>

lemma visit_ready_ends:
  assumes "visit_inv ids es ps ready indegree" and "\<forall>(u, v) \<in> set es. u \<in> ids \<and> v \<in> ids" and "finite ids"
    and "card ids < 2 ^ 64 - 1" and "\<And>u. (case bt_get outgoing u of None \<Rightarrow> [] | Some ts \<Rightarrow> ts) = targets_of es u"
  shows "\<exists>qs indegree'. visit_ready outgoing ready indegree (length ps) = Some (length qs) \<and> visit_inv ids es qs [] indegree'"
  using assms(1)
proof (induction "card ids - length ps" arbitrary: ps ready indegree rule: less_induct)
  case less
  show ?case
  proof (cases ready)
    case Nil
    with less.prems show ?thesis by (subst visit_ready.simps) auto
  next
    case (Cons p rest)
    from visit_step[OF less.prems[unfolded Cons] assms(2)] obtain ready' indegree' where
      s: "free_targets (targets_of es p) rest indegree = Some (ready', indegree')"
      and inv: "visit_inv ids es (ps @ [p]) ready' indegree'" by blast
    have "length (ps @ [p]) \<le> card ids"
      using inv assms(3) by (metis visit_inv_def card_mono distinct_card)
    then have "card ids - length (ps @ [p]) < card ids - length ps" and "length ps + 1 < 2 ^ 64"
      using assms(4) by simp_all
    with less.hyps[OF _ inv] s Cons assms(5)[of p] show ?thesis
      by (subst visit_ready.simps) (simp add: min_def)
  qed
qed

lemma ordered_acyclic:
  assumes "ordered_by es ps" and "distinct ps" and "\<forall>(u, v) \<in> set es. v \<in> set ps"
  shows "acyclic (set es)"
proof -
  define pos where "pos v = (LEAST i. i < length ps \<and> ps ! i = v)" for v
  have pos: "pos (ps ! i) = i" if "i < length ps" for i
    unfolding pos_def using that assms(2) by (intro Least_equality) (auto simp: nth_eq_iff_index_eq)
  have "pos u < pos v" if e: "(u, v) \<in> set es" for u v
  proof -
    obtain i where i: "i < length ps" "ps ! i = v" using e assms(3) by (metis (no_types, lifting) case_prodD in_set_conv_nth)
    with e assms(1) have "u \<in> set (take i ps)" by (auto simp: ordered_by_def)
    then obtain j where "j < i" "ps ! j = u" using i(1) by (auto simp: in_set_conv_nth)
    with i pos[of i] pos[of j] show ?thesis by auto
  qed
  then have "acyclic ((set es)\<inverse>)" by (intro acyclicI_order[where f = pos]) auto
  then show ?thesis by (simp add: acyclic_converse)
qed

lemma graph_is_acyclic_correct:
  assumes "sorted_wrt (<) ids" and "\<forall>(u, v) \<in> set es. u \<in> set ids \<and> v \<in> set ids" and "length ids < 2 ^ 64 - 1"
  shows "graph_is_acyclic ids es = Some (acyclic (set es))"
proof -
  have get: "bt_get (map (\<lambda>i. (i, 0 :: nat)) ids) v = (if v \<in> set ids then Some 0 else None)" for v
    by (induction ids) (auto simp: bt_get_def)
  have deg0: "degrees (set ids) (\<lambda>_. 0) (map (\<lambda>i. (i, 0)) ids)"
    using assms(1) get by (simp add: degrees_def btree_ok_def comp_def)
  have "\<forall>(u, v) \<in> set es. v \<in> set ids" using assms(2) by auto
  from count_edges_degrees[OF deg0 btree_ok_Nil this] obtain indegree outgoing where
    c: "count_edges es (map (\<lambda>i. (i, 0)) ids) [] = Some (indegree, outgoing)"
    and deg: "degrees (set ids) (edges_into {} es) indegree"
    and out: "\<And>u. (case bt_get outgoing u of None \<Rightarrow> [] | Some ts \<Rightarrow> ts) = targets_of es u"
    by (auto simp: bt_get_def)
  let ?ready = "map fst (filter (\<lambda>(i, d). d = 0) indegree)"
  have mem: "v \<in> set ?ready \<longleftrightarrow> bt_get indegree v = Some 0" for v
  proof -
    have ok: "distinct (map fst indegree)" using deg btree_ok_distinct by (auto simp: degrees_def)
    show ?thesis by (simp add: bt_get_def map_of_eq_Some_iff[OF ok]) force
  qed
  have ready: "set ?ready = {v \<in> set ids. edges_into {} es v = 0}"
  proof (intro set_eqI)
    fix v
    show "v \<in> set ?ready \<longleftrightarrow> v \<in> {v \<in> set ids. edges_into {} es v = 0}"
      unfolding mem using deg by (simp add: degrees_def)
  qed
  have "sorted_wrt (<) ?ready"
    using deg by (auto simp: degrees_def btree_ok_def sorted_wrt_map intro: sorted_wrt_filter)
  then have inv: "visit_inv (set ids) es [] ?ready indegree"
    using deg ready by (auto simp: visit_inv_def ordered_by_def)
  have card: "card (set ids) = length ids" using assms(1) by (simp add: distinct_card strict_sorted_iff)
  obtain qs indegree' where v: "visit_ready outgoing ?ready indegree 0 = Some (length qs)"
    and q: "visit_inv (set ids) es qs [] indegree'"
    using visit_ready_ends[OF inv assms(2) finite_set _ out] assms(3) card by auto
  have sub: "set qs \<subseteq> set ids" "distinct qs" using q by (auto simp: visit_inv_def)
  have "length qs = length ids \<longleftrightarrow> set qs = set ids"
    using sub card card_subset_eq[OF finite_set sub(1)] by (metis distinct_card)
  also have "\<dots> \<longleftrightarrow> acyclic (set es)"
  proof
    assume "set qs = set ids"
    with q assms(2) show "acyclic (set es)" by (intro ordered_acyclic[of es qs]) (auto simp: visit_inv_def)
  next
    assume "acyclic (set es)"
    then have wf: "wf (set es)" by (simp add: finite_acyclic_wf)
    show "set qs = set ids"
    proof (rule ccontr)
      assume "set qs \<noteq> set ids"
      with sub(1) obtain v where "v \<in> set ids - set qs" by auto
      then obtain z where z: "z \<in> set ids - set qs" and min: "\<And>u. (u, z) \<in> set es \<Longrightarrow> u \<notin> set ids - set qs"
        using wfE_min[OF wf] by metis
      have "edges_into (set qs) es z = 0" using min assms(2) by (auto simp: edges_into_0)
      with q z show False by (auto simp: visit_inv_def)
    qed
  qed
  finally show ?thesis using c v by (simp add: graph_is_acyclic_def)
qed

end
