(* ===== verification/Workflow_Graph.thy ===== *)
theory Workflow_Graph
  imports Workflow_Transforms Workflow_Predicates Workflow_Resources Workflow_Schemas Workflow_Cycles
begin

text \<open>
  Workflow definitions (\<open>packages/workflow/src/lib.rs\<close>): nodes, edges and the compiled graph,
  their validation, and the scheduling indexes compiled from a validated definition.

  The configuration of a node is a structured value that the code decodes where it needs it. The
  decoders (\<open>serde_json::from_value\<close> of the derived types) are fields of \<open>graph_env\<close>, next to
  the values and the schemas.
\<close>

section \<open>Nodes\<close>

datatype node_kind =
    Task | Agent | Branch | Repeat | Retry | ParallelNode | FanOut | PluginBlock | InputGate | Approval | WorkflowCall

definition node_kind_name :: "node_kind \<Rightarrow> ustring" where
  "node_kind_name kind = str (case kind of
      Task \<Rightarrow> ''task'' | Agent \<Rightarrow> ''agent'' | Branch \<Rightarrow> ''branch'' | Repeat \<Rightarrow> ''repeat'' | Retry \<Rightarrow> ''retry''
    | ParallelNode \<Rightarrow> ''parallel'' | FanOut \<Rightarrow> ''fan_out'' | PluginBlock \<Rightarrow> ''plugin_block'' | InputGate \<Rightarrow> ''input''
    | Approval \<Rightarrow> ''approval'' | WorkflowCall \<Rightarrow> ''workflow_call'')"

datatype dataflow_policy = DirectFlow | StateEnvelopeV1 | RetainedInputV1

record 'num node_definition =
  nd_id :: ustring
  nd_name :: ustring
  nd_kind :: node_kind
  nd_dataflow :: dataflow_policy
  nd_input :: "'num value_schema"
  nd_output :: "'num value_schema"
  nd_resources :: "resource_claim list"
  nd_configuration :: "'num json"

record gate_presentation =
  gp_version :: u32
  gp_reason_field :: ustring
  gp_evidence_field :: ustring
  gp_next_action :: ustring

record 'num input_resolution =
  ir_version :: u32
  ir_supplied :: "'num value_schema"
  ir_transform :: "'num workflow_transform"

datatype repeat_exhaustion_policy = ExhaustionFail | EmitOutcome

datatype parallel_failure_policy = WaitAll | FailFast | CollectOutcomes

record 'num fan_out_configuration =
  fc_version :: u32
  fc_member_node :: "'num node_definition"
  fc_max_members :: u32
  fc_max_concurrency :: u32
  fc_failure_policy :: parallel_failure_policy

section \<open>Workflow calls\<close>

record definition_identity =
  di_kind :: ustring
  di_definition_id :: ustring
  di_definition_version :: u32

record 'num package_local_call =
  pl_version :: u32
  pl_member_id :: ustring
  pl_workflow_id :: ustring
  pl_input :: "'num value_schema"
  pl_output :: "'num value_schema"

record call_preset =
  cp_preset_id :: ustring
  cp_generation :: u64

datatype 'num call_target =
    PackageLocal "'num package_local_call"
  | PackageMember ustring definition_identity
  | ExactDefinition definition_identity
  | AuthoredRevision ustring u64 definition_identity "call_preset option"

record 'num call_configuration =
  cc_version :: u32
  cc_target :: "'num call_target"
  cc_input :: "'num workflow_transform option"
  cc_output :: "'num workflow_transform option"

record ('num, 'f) graph_env =
  ge_values :: "('num, 'f) value_env"
  ge_schemas :: "'num schema_env"
  ge_presentation :: "'num json \<Rightarrow> ustring + gate_presentation"
  ge_resolution :: "'num json \<Rightarrow> ustring + 'num input_resolution"
  ge_predicate :: "'num json \<Rightarrow> ustring + 'num predicate_expression"
  ge_exhaustion :: "'num json \<Rightarrow> ustring + repeat_exhaustion_policy"
  ge_fan_out :: "'num json \<Rightarrow> ustring + 'num fan_out_configuration"
  ge_call :: "'num json \<Rightarrow> ustring + 'num call_configuration"
  ge_failure_policy :: "'num json \<Rightarrow> ustring + parallel_failure_policy"

definition build_error :: "ustring \<Rightarrow> string \<Rightarrow> workflow_error + 'a" where
  "build_error path message = Inl (BuildError path (str message))"

text \<open>One check before the next: \<open>?\<close> on a result without a value.\<close>

definition also_valid :: "workflow_error + unit \<Rightarrow> workflow_error + unit \<Rightarrow> workflow_error + unit" where
  "also_valid r s = (case r of Inl e \<Rightarrow> Inl e | Inr _ \<Rightarrow> s)"

lemma also_valid_Inr [simp]: "also_valid r s = Inr () \<longleftrightarrow> r = Inr () \<and> s = Inr ()"
  by (auto simp: also_valid_def split: sum.split)

definition ensure :: "bool \<Rightarrow> ustring \<Rightarrow> string \<Rightarrow> workflow_error + unit" where
  "ensure ok path message = (if ok then Inr () else build_error path message)"

lemma ensure_Inr [simp]: "ensure ok path message = Inr () \<longleftrightarrow> ok"
  by (simp add: ensure_def build_error_def)

fun all_valid :: "('a \<Rightarrow> workflow_error + unit) \<Rightarrow> 'a list \<Rightarrow> workflow_error + unit" where
  "all_valid f [] = Inr ()"
| "all_valid f (x # xs) = also_valid (f x) (all_valid f xs)"

lemma all_valid_Inr [simp]: "all_valid f xs = Inr () \<longleftrightarrow> (\<forall>x \<in> set xs. f x = Inr ())"
  by (induction xs) auto

definition WORKFLOW_CALL_VERSION :: u32 where "WORKFLOW_CALL_VERSION = 2"
definition WORKFLOW_TRANSFORM_SOURCE_CURRENT :: ustring where "WORKFLOW_TRANSFORM_SOURCE_CURRENT = str ''current''"
definition WORKFLOW_TRANSFORM_SOURCE_STATE :: ustring where "WORKFLOW_TRANSFORM_SOURCE_STATE = str ''state''"
definition WORKFLOW_TRANSFORM_SOURCE_DEPENDENCY_PREFIX :: ustring where
  "WORKFLOW_TRANSFORM_SOURCE_DEPENDENCY_PREFIX = str ''dependency.''"

definition validate_workflow_call_id :: "string \<Rightarrow> ustring \<Rightarrow> workflow_error + unit" where
  "validate_workflow_call_id path value =
     ensure (\<not> (is_blank value \<or> byte_len value > 512)) (str path) ''workflow call identity must contain 1 to 512 bytes''"

definition validate_authoring_id :: "ustring \<Rightarrow> ustring \<Rightarrow> workflow_error + unit" where
  "validate_authoring_id path value =
     ensure (\<not> (is_blank value \<or> byte_len value > MAX_WORKFLOW_AUTHORING_ID_BYTES \<or>
         \<not> list_all (\<lambda>c. is_ascii_alphanumeric c \<or> c \<in> set (str ''._-:/@'')) value))
       path ''identity must contain 1..=256 ASCII identity bytes''"

definition validate_package_local_call :: "'num schema_env \<Rightarrow> 'num package_local_call \<Rightarrow> workflow_error + unit" where
  "validate_package_local_call env call =
     also_valid (ensure (pl_version call = 1) (str ''package_call.version'') ''unsupported package-local call version'')
    (also_valid (validate_authoring_id (str ''package_call.member_id'') (pl_member_id call))
    (also_valid (validate_authoring_id (str ''package_call.workflow_id'') (pl_workflow_id call))
    (also_valid (validate_runtime_value_schema env (str ''package_call.input'') (pl_input call))
       (validate_runtime_value_schema env (str ''package_call.output'') (pl_output call)))))"

definition validate_call_identity :: "definition_identity \<Rightarrow> workflow_error + unit" where
  "validate_call_identity identity =
     also_valid (validate_workflow_call_id ''workflow_call.target.kind'' (di_kind identity))
    (also_valid (validate_workflow_call_id ''workflow_call.target.definition_id'' (di_definition_id identity))
       (ensure (di_definition_version identity \<noteq> 0) (str ''workflow_call.target.definition_version'')
          ''workflow call definition version must be greater than zero''))"

fun validate_call_target :: "'num schema_env \<Rightarrow> 'num call_target \<Rightarrow> workflow_error + unit" where
  "validate_call_target env (PackageLocal reference) = validate_package_local_call env reference"
| "validate_call_target env (PackageMember member_id identity) =
     also_valid (validate_workflow_call_id ''workflow_call.target.member_id'' member_id) (validate_call_identity identity)"
| "validate_call_target env (ExactDefinition identity) = validate_call_identity identity"
| "validate_call_target env (AuthoredRevision workflow_id revision identity preset) =
     also_valid (validate_call_identity identity)
    (also_valid (validate_workflow_call_id ''workflow_call.target.workflow_id'' workflow_id)
    (also_valid (ensure (\<not> (workflow_id \<noteq> di_kind identity \<or> revision = 0)) (str ''workflow_call.target.authored_revision'')
         ''authored call target must use a nonzero revision and matching logical identity'')
       (case preset of
          None \<Rightarrow> Inr ()
        | Some p \<Rightarrow>
            also_valid (validate_workflow_call_id ''workflow_call.target.preset_id'' (cp_preset_id p))
              (ensure (cp_generation p \<noteq> 0) (str ''workflow_call.target.preset_generation'')
                 ''workflow call preset generation must be greater than zero''))))"

definition validate_call_configuration :: "('num, 'f) graph_env \<Rightarrow> 'num call_configuration \<Rightarrow> workflow_error + unit" where
  "validate_call_configuration env call =
     (if cc_version call \<noteq> WORKFLOW_CALL_VERSION
      then Inl (BuildError (str ''workflow_call.version'')
             (str ''unsupported workflow call version '' @ show_nat (unat (cc_version call)) @ str ''; expected 2''))
      else
     also_valid (validate_call_target (ge_schemas env) (cc_target call))
    (also_valid (case cc_input call of None \<Rightarrow> Inr () | Some t \<Rightarrow> validate_transform (ge_values env) t)
       (case cc_output call of
          None \<Rightarrow> Inr ()
        | Some t \<Rightarrow>
            also_valid (validate_transform (ge_values env) t)
              (ensure (referenced_sources t = {WORKFLOW_TRANSFORM_SOURCE_CURRENT}) (str ''workflow_call.output'')
                 ''child-call output mapping may reference only the canonical child result''))))"

section \<open>Control nodes\<close>

definition as_u64 :: "('num, 'f) graph_env \<Rightarrow> 'num json \<Rightarrow> u64 option" where
  "as_u64 env v = (case v of JNumber n \<Rightarrow> ve_as_u64 (ge_values env) n | _ \<Rightarrow> None)"

definition config_u64 :: "('num, 'f) graph_env \<Rightarrow> 'num node_definition \<Rightarrow> string \<Rightarrow> u64 option" where
  "config_u64 env node key = Option.bind (value_get (nd_configuration node) (str key)) (as_u64 env)"

definition decoding_error :: "ustring \<Rightarrow> string \<Rightarrow> ustring + 'a \<Rightarrow> workflow_error + 'a" where
  "decoding_error path message r = map_err (\<lambda>e. BuildError path (str message @ e)) r"

definition validate_presentation :: "('num, 'f) graph_env \<Rightarrow> 'num node_definition \<Rightarrow> workflow_error + unit" where
  "validate_presentation env node =
     (case value_get (nd_configuration node) (str ''presentation'') of
        None \<Rightarrow> Inr ()
      | Some presentation \<Rightarrow>
          (case decoding_error (nd_id node) ''invalid gate presentation: '' (ge_presentation env presentation) of
             Inl e \<Rightarrow> Inl e
           | Inr p \<Rightarrow>
               ensure (\<not> (nd_kind node \<notin> {InputGate, Approval} \<or> gp_version p \<noteq> 1 \<or> is_blank (gp_reason_field p) \<or>
                   is_blank (gp_evidence_field p) \<or> is_blank (gp_next_action p)))
                 (nd_id node) ''unsupported or incomplete gate presentation''))"

definition validate_resolution :: "('num, 'f) graph_env \<Rightarrow> 'num node_definition \<Rightarrow> workflow_error + unit" where
  "validate_resolution env node =
     (case value_get (nd_configuration node) (str ''input_resolution'') of
        None \<Rightarrow> Inr ()
      | Some resolution \<Rightarrow>
          (case decoding_error (nd_id node) ''invalid input resolution: '' (ge_resolution env resolution) of
             Inl e \<Rightarrow> Inl e
           | Inr r \<Rightarrow>
               also_valid (ensure (\<not> (nd_kind node \<noteq> InputGate \<or> ir_version r \<noteq> 1 \<or> wt_output (ir_transform r) \<noteq> nd_output node))
                   (nd_id node) ''unsupported input resolution or output schema mismatch'')
              (also_valid (validate_transform (ge_values env) (ir_transform r))
                 (ensure (referenced_sources (ir_transform r)
                       \<subseteq> {WORKFLOW_TRANSFORM_SOURCE_STATE, WORKFLOW_TRANSFORM_SOURCE_CURRENT})
                   (nd_id node) ''input resolution may reference only retained state and supplied input''))))"

definition WORKFLOW_REPEAT_OUTCOME_VERSION :: u32 where "WORKFLOW_REPEAT_OUTCOME_VERSION = 1"

definition validate_repeat_outcome :: "('num, 'f) graph_env \<Rightarrow> 'num node_definition \<Rightarrow> workflow_error + unit" where
  "validate_repeat_outcome env node =
     (case (case value_get (nd_configuration node) (str ''exhaustion_policy'') of
              None \<Rightarrow> Inr ExhaustionFail
            | Some p \<Rightarrow> decoding_error (nd_id node) ''repeat exhaustion_policy is invalid: '' (ge_exhaustion env p)) of
        Inl e \<Rightarrow> Inl e
      | Inr policy \<Rightarrow>
          ensure (\<not> (policy = EmitOutcome \<and>
              config_u64 env node ''repeat_outcome_version'' \<noteq> Some (ucast WORKFLOW_REPEAT_OUTCOME_VERSION)))
            (nd_id node) ''emit_outcome repeat must declare repeat_outcome_version 1'')"

text \<open>The predicate of a branch or repeat, with its declared version.\<close>

definition declared_predicate_version :: "('num, 'f) graph_env \<Rightarrow> 'num node_definition \<Rightarrow> u32 option" where
  "declared_predicate_version env node =
     (case config_u64 env node ''predicate_version'' of
        None \<Rightarrow> None
      | Some v \<Rightarrow> if unat v < 2 ^ 32 \<and> WORKFLOW_PREDICATE_MIN_VERSION \<le> (ucast v :: u32) \<and>
                     (ucast v :: u32) \<le> WORKFLOW_PREDICATE_VERSION
                  then Some (ucast v) else None)"

definition validate_control_predicate :: "('num, 'f) graph_env \<Rightarrow> 'num node_definition \<Rightarrow> workflow_error + unit" where
  "validate_control_predicate env node =
     (case declared_predicate_version env node of
        None \<Rightarrow> build_error (nd_id node) ''control node must declare predicate_version between 1 and 3''
      | Some version \<Rightarrow>
     (case value_get (nd_configuration node) (str ''predicate'') of
        None \<Rightarrow> build_error (nd_id node) ''control node must declare a predicate''
      | Some predicate \<Rightarrow>
     (case decoding_error (nd_id node) ''control node predicate is invalid: '' (ge_predicate env predicate) of
        Inl e \<Rightarrow> Inl e
      | Inr p \<Rightarrow>
          also_valid (ensure (predicate_version p = version) (nd_id node)
              ''control node predicate_version must match the predicate expression'')
         (also_valid (validate_predicate_expression (ge_values env) p)
            (if nd_kind node = Repeat then validate_repeat_outcome env node else Inr ())))))"

definition controller_limit_zero :: "('num, 'f) graph_env \<Rightarrow> 'num node_definition \<Rightarrow> string \<Rightarrow> bool" where
  "controller_limit_zero env node key = (case config_u64 env node key of None \<Rightarrow> True | Some v \<Rightarrow> v = 0)"

definition validate_controller_limit :: "('num, 'f) graph_env \<Rightarrow> 'num node_definition \<Rightarrow> workflow_error + unit" where
  "validate_controller_limit env node =
     (case nd_kind node of
        Repeat \<Rightarrow> ensure (\<not> controller_limit_zero env node ''max_iterations'') (nd_id node)
                    ''repeat max_iterations must be greater than zero''
      | Retry \<Rightarrow> ensure (\<not> controller_limit_zero env node ''max_attempts'') (nd_id node)
                    ''retry max_attempts must be greater than zero''
      | _ \<Rightarrow> Inr ())"

definition WORKFLOW_FAN_OUT_RESULT_VERSION :: u32 where "WORKFLOW_FAN_OUT_RESULT_VERSION = 1"
definition WORKFLOW_FAN_OUT_CONFIGURATION_VERSION :: u32 where "WORKFLOW_FAN_OUT_CONFIGURATION_VERSION = 1"

text \<open>The fields of an object literal in the order of the sorted map that holds them.\<close>

definition json_object :: "(string \<times> 'num json) list \<Rightarrow> 'num json" where
  "json_object kvs = JObject (map (\<lambda>(k, v). (str k, v)) kvs)"

definition json_text :: "string \<Rightarrow> 'num json" where
  "json_text s = JString (str s)"

definition workflow_fan_out_result_schema ::
    "('num, 'f) graph_env \<Rightarrow> 'num value_schema \<Rightarrow> workflow_error + 'num value_schema" where
  "workflow_fan_out_result_schema env member =
     (let number = (\<lambda>i. JNumber (ve_from_i64 (ge_values env) i));
          item = json_object [(''additionalProperties'', JBool False),
             (''properties'', json_object
                [(''index'', json_object [(''minimum'', number 0), (''type'', json_text ''integer'')]),
                 (''value'', vs_schema member)]),
             (''required'', JArray [json_text ''index'', json_text ''value'']),
             (''type'', json_text ''object'')];
          schema = \<lparr>vs_type_name = str ''workflow.fan-out-result/v1<'' @ vs_type_name member @ str ''>'',
            vs_schema = json_object [(''additionalProperties'', JBool False),
             (''properties'', json_object
                [(''members'', json_object [(''items'', item), (''type'', json_text ''array'')]),
                 (''version'', json_object [(''const'', number (ucast WORKFLOW_FAN_OUT_RESULT_VERSION)),
                    (''type'', json_text ''integer'')])]),
             (''required'', JArray [json_text ''version'', json_text ''members'']),
             (''type'', json_text ''object'')]\<rparr>
      in case validate_runtime_value_schema (ge_schemas env) (str ''fan_out.output'') schema of
           Inl e \<Rightarrow> Inl e | Inr _ \<Rightarrow> Inr schema)"

definition fan_out_bounds_ok :: "'num fan_out_configuration \<Rightarrow> bool" where
  "fan_out_bounds_ok c \<longleftrightarrow> \<not> (fc_version c \<noteq> WORKFLOW_FAN_OUT_CONFIGURATION_VERSION \<or> fc_max_members c = 0 \<or>
     fc_max_concurrency c = 0 \<or> fc_max_concurrency c > fc_max_members c \<or> fc_failure_policy c = CollectOutcomes)"

definition fan_out_schemas_match ::
    "('num, 'f) graph_env \<Rightarrow> 'num node_definition \<Rightarrow> 'num fan_out_configuration \<Rightarrow> workflow_error + unit" where
  "fan_out_schemas_match env node c =
     (case value_get (vs_schema (nd_input node)) (str ''items'') of
        None \<Rightarrow> build_error (nd_id node) ''fan-out input must declare homogeneous items''
      | Some items \<Rightarrow>
          if items \<noteq> vs_schema (nd_input (fc_member_node c))
          then build_error (nd_id node) ''fan-out member input schema does not match array items''
          else (case workflow_fan_out_result_schema env (nd_output (fc_member_node c)) of
                  Inl e \<Rightarrow> Inl e
                | Inr expected \<Rightarrow> ensure (nd_output node = expected) (nd_id node)
                                   ''fan-out output schema does not match the member operation''))"

definition ephemeral_fan_out_ok :: "('num, 'f) graph_env \<Rightarrow> 'num node_definition \<Rightarrow> bool" where
  "ephemeral_fan_out_ok env node \<longleftrightarrow>
     config_u64 env node ''fan_out_version'' = Some (ucast WORKFLOW_FAN_OUT_RESULT_VERSION) \<and>
     Option.bind (value_get (nd_configuration node) (str ''ordering'')) as_str = Some (str ''input_index_ascending'')"

text \<open>
  A fan-out controls a member node, which is validated in turn; a member is no controller itself,
  so the recursion is one level deep.
\<close>

function validate_control_node :: "('num, 'f) graph_env \<Rightarrow> 'num node_definition \<Rightarrow> workflow_error + unit"
  and validate_fan_out :: "('num, 'f) graph_env \<Rightarrow> 'num fan_out_configuration \<Rightarrow> workflow_error + unit"
where
  "validate_control_node env node =
     also_valid (validate_presentation env node)
    (also_valid (ensure ((nd_dataflow node = RetainedInputV1)
          = (value_get (nd_configuration node) (str ''input_resolution'') \<noteq> None))
        (nd_id node) ''retained input adaptation requires an explicit input resolution contract'')
    (also_valid (validate_resolution env node)
    (also_valid (if nd_kind node \<in> {Branch, Repeat} then validate_control_predicate env node else Inr ())
    (also_valid
       (if nd_kind node = FanOut then
          (if value_get (nd_configuration node) (str ''member_node'') \<noteq> None then
             (case decoding_error (nd_id node) ''fan-out configuration is invalid: '' (ge_fan_out env (nd_configuration node)) of
                Inl e \<Rightarrow> Inl e
              | Inr c \<Rightarrow> also_valid (validate_fan_out env c) (fan_out_schemas_match env node c))
           else ensure (ephemeral_fan_out_ok env node) (nd_id node)
                  ''fan_out must declare version 1 and input-index ordering'')
        else Inr ())
       (validate_controller_limit env node)))))"
| "validate_fan_out env c =
     also_valid (ensure (fan_out_bounds_ok c) (str ''fan_out'')
        ''fan-out version, member bound, or concurrency bound is invalid'')
       (if nd_kind (fc_member_node c) \<in> {FanOut, ParallelNode, Repeat, Retry, Branch}
        then build_error (str ''fan_out.member_node'') ''fan-out member must be one externally owned leaf operation''
        else validate_control_node env (fc_member_node c))"
  by pat_completeness auto

termination
  by (relation "measure (case_sum (\<lambda>(_, node). if nd_kind node = FanOut then 2 else 0) (\<lambda>_. 1))") auto

declare validate_control_node.simps [simp del] validate_fan_out.simps [simp del]

definition validate_node_structure :: "('num, 'f) graph_env \<Rightarrow> 'num node_definition \<Rightarrow> workflow_error + unit" where
  "validate_node_structure env node =
     also_valid (ensure (\<not> is_blank (nd_id node)) (nd_id node) ''step identity must not be empty'')
    (also_valid (ensure (\<not> is_blank (nd_name node)) (nd_id node) ''step name must not be empty'')
    (also_valid (ensure (\<not> (nd_kind node = WorkflowCall \<and> nd_resources node \<noteq> [])) (nd_id node)
        ''workflow call nodes must not retain resource leases while awaiting children'')
    (also_valid (validate_control_node env node)
       (if nd_kind node = WorkflowCall then
          (case decoding_error (nd_id node) ''workflow call configuration is invalid: '' (ge_call env (nd_configuration node)) of
             Inl e \<Rightarrow> Inl e
           | Inr call \<Rightarrow> validate_call_configuration env call)
        else Inr ()))))"

section \<open>Edges and definitions\<close>

datatype 'num edge_kind =
    DirectEdge
  | Conditional "'num predicate_expression" bool
  | Back "'num predicate_expression" u32
  | RetryEdge u32

record 'num edge_definition =
  ed_from :: ustring
  ed_to :: ustring
  ed_kind :: "'num edge_kind"
  ed_transform :: "'num workflow_transform option"

record 'num workflow_definition =
  wd_schema_version :: u32
  wd_name :: ustring
  wd_input :: "'num value_schema"
  wd_output :: "'num value_schema"
  wd_nodes :: "(ustring, 'num node_definition) btree"
  wd_entries :: "ustring list"
  wd_exits :: "ustring list"
  wd_edges :: "'num edge_definition list"

fun unrepeatable :: "'num edge_kind \<Rightarrow> bool" where
  "unrepeatable (Back _ n) = (n = 0)"
| "unrepeatable _ = False"

definition validate_edge_structure :: "('num, 'f) graph_env \<Rightarrow> 'num edge_definition \<Rightarrow> workflow_error + unit" where
  "validate_edge_structure env edge =
     also_valid (case ed_transform edge of None \<Rightarrow> Inr () | Some t \<Rightarrow> validate_transform (ge_values env) t)
    (also_valid (ensure (\<not> unrepeatable (ed_kind edge)) (ed_from edge) ''repeat max_iterations must be greater than zero'')
       (case ed_kind edge of
          Conditional p _ \<Rightarrow> validate_predicate_expression (ge_values env) p
        | Back p _ \<Rightarrow> validate_predicate_expression (ge_values env) p
        | _ \<Rightarrow> Inr ()))"

definition MAX_DEFINITION_NODES :: nat where "MAX_DEFINITION_NODES = 10000"
definition MAX_DEFINITION_EDGES :: nat where "MAX_DEFINITION_EDGES = 100000"
definition MAX_DEFINITION_BOUNDARIES :: nat where "MAX_DEFINITION_BOUNDARIES = 10000"
definition WORKFLOW_DEFINITION_SCHEMA_VERSION :: u32 where "WORKFLOW_DEFINITION_SCHEMA_VERSION = 2"

definition validate_definition_shape :: "'num workflow_definition \<Rightarrow> workflow_error + unit" where
  "validate_definition_shape d =
     (if wd_schema_version d \<noteq> WORKFLOW_DEFINITION_SCHEMA_VERSION
      then Inl (BuildError (wd_name d) (str ''unsupported workflow definition schema version ''
             @ show_nat (unat (wd_schema_version d)) @ str ''; expected 2''))
      else
     also_valid (ensure (\<not> is_blank (wd_name d)) (str ''workflow'') ''name must not be empty'')
    (also_valid (ensure (wd_nodes d \<noteq> []) (wd_name d) ''workflow must contain at least one step'')
    (also_valid (ensure (\<not> (length (wd_nodes d) > MAX_DEFINITION_NODES \<or> length (wd_edges d) > MAX_DEFINITION_EDGES \<or>
          length (wd_entries d) > MAX_DEFINITION_BOUNDARIES \<or> length (wd_exits d) > MAX_DEFINITION_BOUNDARIES))
        (wd_name d) ''workflow exceeds definition bounds: nodes<=10000, edges<=100000, entries/exits<=10000'')
       (ensure (\<not> (wd_entries d = [] \<or> wd_exits d = [])) (wd_name d)
          ''workflow must have at least one entry and one exit''))))"

definition quoted :: "ustring \<Rightarrow> ustring" where
  "quoted s = str [CHR 0x27] @ s @ str [CHR 0x27]"

definition arrow :: "'num edge_definition \<Rightarrow> ustring" where
  "arrow edge = quoted (ed_from edge @ str '' -> '' @ ed_to edge)"

definition validate_definition_node ::
    "('num, 'f) graph_env \<Rightarrow> 'num workflow_definition \<Rightarrow> ustring \<times> 'num node_definition \<Rightarrow> workflow_error + unit" where
  "validate_definition_node env d = (\<lambda>(id, node).
     if is_blank id \<or> is_blank (nd_id node) \<or> id \<noteq> nd_id node
     then Inl (BuildError (wd_name d) (str ''node map identity does not match node identity: '' @ quoted id))
     else validate_node_structure env node)"

text \<open>The predecessors a target declares; an edge transform may name no other.\<close>

definition declared_dependencies :: "'num workflow_definition \<Rightarrow> ustring \<Rightarrow> ustring set" where
  "declared_dependencies d to = ed_from ` set (filter (\<lambda>e. ed_to e = to) (wd_edges d))"

definition dependencies_declared :: "'num workflow_definition \<Rightarrow> 'num edge_definition \<Rightarrow> 'num workflow_transform \<Rightarrow> bool" where
  "dependencies_declared d edge t \<longleftrightarrow>
     (\<forall>s \<in> referenced_sources t. case strip_prefix WORKFLOW_TRANSFORM_SOURCE_DEPENDENCY_PREFIX s of
        None \<Rightarrow> True | Some p \<Rightarrow> p \<in> declared_dependencies d (ed_to edge))"

definition validate_definition_edge ::
    "('num, 'f) graph_env \<Rightarrow> 'num workflow_definition \<Rightarrow> 'num edge_definition \<Rightarrow> workflow_error + unit" where
  "validate_definition_edge env d edge =
     (case (bt_get (wd_nodes d) (ed_from edge), bt_get (wd_nodes d) (ed_to edge)) of
        (Some source, Some target) \<Rightarrow>
          also_valid
            (case ed_transform edge of
               None \<Rightarrow> Inr ()
             | Some t \<Rightarrow>
                 also_valid (ensure (dependencies_declared d edge t) (ed_to edge)
                     ''edge transform references an undeclared predecessor output'')
                   (if wt_output t \<noteq> nd_input target
                    then Inl (BuildError (ed_from edge)
                           (str ''edge transform output does not match target input for '' @ arrow edge))
                    else Inr ()))
            (validate_edge_structure env edge)
      | _ \<Rightarrow> Inl (BuildError (wd_name d) (str ''edge references unknown step '' @ arrow edge)))"

fun forward :: "'num edge_kind \<Rightarrow> bool" where
  "forward (Back _ _) = False"
| "forward (RetryEdge _) = False"
| "forward _ = True"

definition forward_edges :: "'num workflow_definition \<Rightarrow> edge_list" where
  "forward_edges d = map (\<lambda>e. (ed_from e, ed_to e)) (filter (\<lambda>e. forward (ed_kind e)) (wd_edges d))"

text \<open>\<open>None\<close>: the \<open>expect\<close> of the cycle check fails.\<close>

definition ensure_acyclic :: "'num workflow_definition \<Rightarrow> (workflow_error + unit) option" where
  "ensure_acyclic d =
     map_option (\<lambda>acyclic. ensure acyclic (wd_name d) ''workflow graph contains an unbounded cycle'')
       (graph_is_acyclic (map fst (wd_nodes d)) (forward_edges d))"

definition validate_compiled_definition ::
    "('num, 'f) graph_env \<Rightarrow> 'num workflow_definition \<Rightarrow> (workflow_error + unit) option" where
  "validate_compiled_definition env d =
     (case also_valid (validate_definition_shape d)
          (also_valid (all_valid (validate_definition_node env d) (wd_nodes d))
          (also_valid (all_valid (\<lambda>id.
               if bt_get (wd_nodes d) id = None
               then Inl (BuildError (wd_name d) (str ''entry/exit references unknown step '' @ quoted id))
               else Inr ()) (wd_entries d @ wd_exits d))
             (all_valid (validate_definition_edge env d) (wd_edges d)))) of
        Inl e \<Rightarrow> Some (Inl e)
      | Inr _ \<Rightarrow> ensure_acyclic d)"

section \<open>Scheduling indexes\<close>

record workflow_plan =
  wp_dependencies :: "(ustring, nat) btree"
  wp_outgoing :: "(ustring, ustring list) btree"

definition plan_edge :: "'num workflow_definition \<Rightarrow> 'num edge_definition \<Rightarrow> bool" where
  "plan_edge d edge \<longleftrightarrow> ed_kind edge = DirectEdge \<and>
     (case bt_get (wd_nodes d) (ed_from edge) of
        None \<Rightarrow> True
      | Some node \<Rightarrow> nd_kind node \<notin> {ParallelNode, Branch, Repeat, Retry, FanOut, PluginBlock, InputGate, Approval})"

fun add_plan_edges :: "'num edge_definition list \<Rightarrow> workflow_plan \<Rightarrow> workflow_plan option" where
  "add_plan_edges [] plan = Some plan"
| "add_plan_edges (e # es) plan =
     (case bt_get (wp_dependencies plan) (ed_to e) of
        None \<Rightarrow> None
      | Some n \<Rightarrow>
     (case bt_get (wp_outgoing plan) (ed_from e) of
        None \<Rightarrow> None
      | Some ts \<Rightarrow> add_plan_edges es
          \<lparr>wp_dependencies = bt_insert (ed_to e) (n + 1) (wp_dependencies plan),
           wp_outgoing = bt_insert (ed_from e) (ts @ [ed_to e]) (wp_outgoing plan)\<rparr>))"

text \<open>\<open>None\<close>: an \<open>expect\<close> of the compilation fails. The sorted targets without repetitions are a set.\<close>

definition compile_plan :: "'num workflow_definition \<Rightarrow> workflow_plan option" where
  "compile_plan d =
     map_option (\<lambda>plan. plan\<lparr>wp_outgoing := map (\<lambda>(id, targets). (id, bs_from targets)) (wp_outgoing plan)\<rparr>)
       (add_plan_edges (filter (plan_edge d) (wd_edges d))
          \<lparr>wp_dependencies = map (\<lambda>(id, _). (id, 0)) (wd_nodes d), wp_outgoing = map (\<lambda>(id, _). (id, [])) (wd_nodes d)\<rparr>)"

definition dependency_count :: "workflow_plan \<Rightarrow> ustring \<Rightarrow> nat option" where
  "dependency_count plan node_id = bt_get (wp_dependencies plan) node_id"

definition plan_outgoing :: "workflow_plan \<Rightarrow> ustring \<Rightarrow> ustring list option" where
  "plan_outgoing plan node_id = bt_get (wp_outgoing plan) node_id"

section \<open>Facts about validated definitions\<close>

text \<open>The nodes are a sorted map, and an implementation holds fewer than \<open>usize::MAX\<close> of them.\<close>

definition definition_ok :: "'num workflow_definition \<Rightarrow> bool" where
  "definition_ok d \<longleftrightarrow> btree_ok (wd_nodes d)"

lemma bt_get_fst: "bt_get m k \<noteq> None \<longleftrightarrow> k \<in> set (map fst m)"
  by (simp add: bt_get_def map_of_eq_None_iff)

lemma edge_ends_known:
  "validate_definition_edge env d edge = Inr () \<Longrightarrow>
     ed_from edge \<in> set (map fst (wd_nodes d)) \<and> ed_to edge \<in> set (map fst (wd_nodes d))"
  by (auto simp: validate_definition_edge_def bt_get_fst[symmetric] simp del: set_map split: option.splits)

lemma valid_shape:
  "validate_definition_shape d = Inr () \<Longrightarrow> length (wd_nodes d) \<le> 10000"
  by (auto simp: validate_definition_shape_def MAX_DEFINITION_NODES_def split: if_splits)

lemma forward_edges_known:
  assumes "\<forall>e \<in> set (wd_edges d). validate_definition_edge env d e = Inr ()"
  shows "\<forall>(u, v) \<in> set (forward_edges d). u \<in> set (map fst (wd_nodes d)) \<and> v \<in> set (map fst (wd_nodes d))"
  using assms edge_ends_known unfolding forward_edges_def by fastforce

text \<open>The cycle check of a definition whose edges are known decides acyclicity, and does not panic.\<close>

lemma ensure_acyclic_correct:
  assumes "definition_ok d" and "length (wd_nodes d) < 2 ^ 64 - 1"
    and "\<forall>(u, v) \<in> set (forward_edges d). u \<in> set (map fst (wd_nodes d)) \<and> v \<in> set (map fst (wd_nodes d))"
  shows "ensure_acyclic d = Some (ensure (acyclic (set (forward_edges d))) (wd_name d) ''workflow graph contains an unbounded cycle'')"
proof -
  have "graph_is_acyclic (map fst (wd_nodes d)) (forward_edges d) = Some (acyclic (set (forward_edges d)))"
    by (rule graph_is_acyclic_correct[OF _ assms(3)]) (use assms(1,2) in \<open>simp_all add: definition_ok_def btree_ok_def\<close>)
  then show ?thesis by (simp add: ensure_acyclic_def)
qed

lemma checked_acyclic:
  assumes "definition_ok d" and "validate_definition_shape d = Inr ()"
    and "\<forall>e \<in> set (wd_edges d). validate_definition_edge env d e = Inr ()"
  shows "ensure_acyclic d = Some (ensure (acyclic (set (forward_edges d))) (wd_name d) ''workflow graph contains an unbounded cycle'')"
  by (rule ensure_acyclic_correct[OF assms(1) _ forward_edges_known[OF assms(3)]]) (use valid_shape[OF assms(2)] in simp)

lemma validation_returns:
  assumes "definition_ok d"
  shows "\<exists>r. validate_compiled_definition env d = Some r"
  using checked_acyclic[OF assms, of env]
  by (auto simp: validate_compiled_definition_def split: sum.split)

lemma validated_definition:
  assumes "definition_ok d" and "validate_compiled_definition env d = Some (Inr ())"
  shows "\<forall>(id, node) \<in> set (wd_nodes d). nd_id node = id \<and> validate_node_structure env node = Inr ()"
    and "\<forall>e \<in> set (wd_edges d). validate_definition_edge env d e = Inr ()"
    and "set (wd_entries d @ wd_exits d) \<subseteq> set (map fst (wd_nodes d))"
    and "wd_entries d \<noteq> []" and "wd_exits d \<noteq> []"
    and "acyclic (set (forward_edges d))"
proof -
  from assms(2) have v: "validate_definition_shape d = Inr ()"
      "\<forall>n \<in> set (wd_nodes d). validate_definition_node env d n = Inr ()"
      "\<forall>id \<in> set (wd_entries d @ wd_exits d). bt_get (wd_nodes d) id \<noteq> None"
      "\<forall>e \<in> set (wd_edges d). validate_definition_edge env d e = Inr ()"
    and a: "ensure_acyclic d = Some (Inr ())"
    unfolding validate_compiled_definition_def by (auto split: sum.splits if_splits)
  show "\<forall>(id, node) \<in> set (wd_nodes d). nd_id node = id \<and> validate_node_structure env node = Inr ()"
    using v(2) by (auto simp: validate_definition_node_def split: if_splits)
  show "\<forall>e \<in> set (wd_edges d). validate_definition_edge env d e = Inr ()" by (fact v(4))
  show "set (wd_entries d @ wd_exits d) \<subseteq> set (map fst (wd_nodes d))"
    using v(3) by (simp only: bt_get_fst subset_iff) blast
  show "wd_entries d \<noteq> []" and "wd_exits d \<noteq> []"
    using v(1) by (auto simp: validate_definition_shape_def split: if_splits)
  show "acyclic (set (forward_edges d))"
    using a checked_acyclic[OF assms(1) v(1,4)] by simp
qed

text \<open>
  What an edge transform of a validated definition produces, from any inputs, is a value of the
  target's input schema, within the bounds of transforms; it reads declared predecessors only.
\<close>

lemma validated_edge_transform:
  assumes "definition_ok d" and "validate_compiled_definition env d = Some (Inr ())"
    and "e \<in> set (wd_edges d)" and "ed_transform e = Some t"
  obtains target where "bt_get (wd_nodes d) (ed_to e) = Some target" and "wt_output t = nd_input target"
    and "validate_transform (ge_values env) t = Inr ()" and "dependencies_declared d e t"
  using validated_definition(2)[OF assms(1,2)] assms(3,4)
  by (fastforce simp: validate_definition_edge_def validate_edge_structure_def split: option.splits if_splits)

text \<open>Compiling the indexes of a validated definition does not panic, and counts its plan edges.\<close>

definition plan_inv :: "(ustring \<Rightarrow> bool) \<Rightarrow> (ustring \<Rightarrow> nat) \<Rightarrow> (ustring \<Rightarrow> ustring list) \<Rightarrow> workflow_plan \<Rightarrow> bool" where
  "plan_inv known deps out plan \<longleftrightarrow> btree_ok (wp_dependencies plan) \<and> btree_ok (wp_outgoing plan) \<and>
     (\<forall>id. bt_get (wp_dependencies plan) id = (if known id then Some (deps id) else None)) \<and>
     (\<forall>id. bt_get (wp_outgoing plan) id = (if known id then Some (out id) else None))"

lemma add_plan_edges_inv:
  "plan_inv known deps out plan \<Longrightarrow> \<forall>e \<in> set es. known (ed_from e) \<and> known (ed_to e) \<Longrightarrow>
     \<exists>plan'. add_plan_edges es plan = Some plan' \<and>
       plan_inv known (\<lambda>id. deps id + length (filter (\<lambda>e. ed_to e = id) es))
         (\<lambda>id. out id @ map ed_to (filter (\<lambda>e. ed_from e = id) es)) plan'"
proof (induction es plan arbitrary: deps out rule: add_plan_edges.induct)
  case (2 e es plan)
  let ?plan = "\<lparr>wp_dependencies = bt_insert (ed_to e) (deps (ed_to e) + 1) (wp_dependencies plan),
      wp_outgoing = bt_insert (ed_from e) (out (ed_from e) @ [ed_to e]) (wp_outgoing plan)\<rparr>"
  from 2(2,3) have d: "bt_get (wp_dependencies plan) (ed_to e) = Some (deps (ed_to e))"
    and o: "bt_get (wp_outgoing plan) (ed_from e) = Some (out (ed_from e))" by (simp_all add: plan_inv_def)
  have "plan_inv known (deps(ed_to e := deps (ed_to e) + 1)) (out(ed_from e := out (ed_from e) @ [ed_to e])) ?plan"
    using 2(2,3) by (auto simp: plan_inv_def bt_insert_ok bt_get_insert)
  from 2(1)[OF d o this] 2(3) obtain plan' where "add_plan_edges es ?plan = Some plan'"
    and "plan_inv known (\<lambda>id. (deps(ed_to e := deps (ed_to e) + 1)) id + length (filter (\<lambda>e. ed_to e = id) es))
         (\<lambda>id. (out(ed_from e := out (ed_from e) @ [ed_to e])) id @ map ed_to (filter (\<lambda>e. ed_from e = id) es)) plan'"
    by auto
  then show ?case using d o by (auto simp: plan_inv_def)
qed (simp add: plan_inv_def)

lemma bt_get_map: "bt_get (map (\<lambda>(k, v). (k, f v)) m) k = map_option f (bt_get m k)"
  by (simp add: bt_get_def map_of_map)

lemma btree_ok_map [simp]: "btree_ok (map (\<lambda>(k, v). (k, f v)) m) = btree_ok m"
  by (simp add: btree_ok_def comp_def case_prod_beta)

lemma compile_plan_correct:
  assumes "definition_ok d" and "validate_compiled_definition env d = Some (Inr ())"
  shows "\<exists>plan. compile_plan d = Some plan \<and> (\<forall>id \<in> set (map fst (wd_nodes d)).
     dependency_count plan id = Some (length (filter (\<lambda>e. plan_edge d e \<and> ed_to e = id) (wd_edges d))) \<and>
     plan_outgoing plan id = Some (bs_from (map ed_to (filter (\<lambda>e. plan_edge d e \<and> ed_from e = id) (wd_edges d)))))"
proof -
  let ?known = "\<lambda>id. id \<in> set (map fst (wd_nodes d))"
  let ?empty = "\<lparr>wp_dependencies = map (\<lambda>(id, _). (id, 0)) (wd_nodes d), wp_outgoing = map (\<lambda>(id, _). (id, [])) (wd_nodes d)\<rparr>"
  have known: "?known id \<longleftrightarrow> (\<exists>node. bt_get (wd_nodes d) id = Some node)" for id
    using bt_get_fst[of "wd_nodes d" id] by auto
  have "plan_inv ?known (\<lambda>_. 0) (\<lambda>_. []) ?empty"
    unfolding plan_inv_def known using assms(1) by (simp add: definition_ok_def bt_get_map)
  moreover have "\<forall>e \<in> set (filter (plan_edge d) (wd_edges d)). ?known (ed_from e) \<and> ?known (ed_to e)"
    using edge_ends_known[OF validated_definition(2)[OF assms, rule_format]] by auto
  ultimately obtain plan where "add_plan_edges (filter (plan_edge d) (wd_edges d)) ?empty = Some plan"
    and inv: "plan_inv ?known (\<lambda>id. 0 + length (filter (\<lambda>e. ed_to e = id) (filter (plan_edge d) (wd_edges d))))
         (\<lambda>id. [] @ map ed_to (filter (\<lambda>e. ed_from e = id) (filter (plan_edge d) (wd_edges d)))) plan"
    using add_plan_edges_inv by blast
  then have "compile_plan d = Some (plan\<lparr>wp_outgoing := map (\<lambda>(id, targets). (id, bs_from targets)) (wp_outgoing plan)\<rparr>)"
    by (simp add: compile_plan_def)
  with inv show ?thesis
    by (auto simp: plan_inv_def dependency_count_def plan_outgoing_def bt_get_map conj_commute)
qed

end
