(* ===== verification/Workflow_Fragments.thy ===== *)
theory Workflow_Fragments
  imports Workflow_Graph
begin

text \<open>
  The graph that the typed combinators of the workflow SDK build next to the operation they compose
  (\<open>packages/workflow/src/lib.rs\<close>: steps, sequences, branches, repeats, retries, parallel joins and
  fan-outs), and its compilation to a definition. \<open>fragment_env\<close> holds the serializers of numbers
  and predicates (\<open>serde_json\<close>); the schemas of the Rust types are arguments.
\<close>

section \<open>Fragments\<close>

record 'num fragment =
  fr_nodes :: "'num node_definition list"
  fr_edges :: "'num edge_definition list"
  fr_entries :: "ustring list"
  fr_exits :: "ustring list"

record 'num fragment_env =
  fe_number :: "u64 \<Rightarrow> 'num"
  fe_predicate :: "'num predicate_expression \<Rightarrow> 'num json"

definition plain_edge :: "'num edge_kind \<Rightarrow> ustring \<Rightarrow> ustring \<Rightarrow> 'num edge_definition" where
  "plain_edge kind from to = \<lparr>ed_from = from, ed_to = to, ed_kind = kind, ed_transform = None\<rparr>"

definition step_node ::
    "ustring \<Rightarrow> ustring \<Rightarrow> node_kind \<Rightarrow> 'num value_schema \<Rightarrow> 'num value_schema \<Rightarrow> 'num json \<Rightarrow> 'num node_definition" where
  "step_node node_id name kind inp out configuration = \<lparr>nd_id = node_id, nd_name = name, nd_kind = kind,
     nd_dataflow = DirectFlow, nd_input = inp, nd_output = out, nd_resources = [], nd_configuration = configuration\<rparr>"

definition names :: "ustring list \<Rightarrow> 'num json" where
  "names ids = JArray (map JString ids)"

definition number :: "'num fragment_env \<Rightarrow> u32 \<Rightarrow> 'num json" where
  "number env n = JNumber (fe_number env (ucast n))"

definition leaf_fragment ::
    "ustring \<Rightarrow> node_kind \<Rightarrow> 'num json \<Rightarrow> 'num value_schema \<Rightarrow> 'num value_schema \<Rightarrow> 'num fragment" where
  "leaf_fragment name kind configuration inp out =
     \<lparr>fr_nodes = [step_node name name kind inp out configuration], fr_edges = [], fr_entries = [name], fr_exits = [name]\<rparr>"

definition sequence :: "'num fragment \<Rightarrow> 'num fragment \<Rightarrow> 'num fragment" where
  "sequence f g = f\<lparr>
     fr_edges := fr_edges f @ concat (map (\<lambda>from. map (plain_edge DirectEdge from) (fr_entries g)) (fr_exits f)) @ fr_edges g,
     fr_nodes := fr_nodes f @ fr_nodes g,
     fr_exits := fr_exits g\<rparr>"

text \<open>The transform of a back edge counts the iterations in the field \<open>iteration\<close> of the value.\<close>

definition iteration_transform :: "'num value_schema \<Rightarrow> 'num workflow_transform" where
  "iteration_transform schema = \<lparr>wt_version = WORKFLOW_TRANSFORM_VERSION,
     wt_expression = MergeExpr
       [InputExpr (str ''current'') [],
        ObjectExpr [(str ''iteration'', IncrementExpr (InputExpr (str ''current'') (str ''iteration'')) 1)]] KeepLast,
     wt_output = schema\<rparr>"

definition repeat_fragment ::
    "'num fragment_env \<Rightarrow> ustring \<Rightarrow> 'num predicate_expression \<Rightarrow> u32 \<Rightarrow> 'num value_schema \<Rightarrow> 'num value_schema
       \<Rightarrow> 'num fragment \<Rightarrow> 'num fragment" where
  "repeat_fragment env name expression max_iterations inp out f = f\<lparr>
     fr_nodes := fr_nodes f @ [step_node name name Repeat out out (json_object
       [(''iteration_state'', json_text ''explicit_back_edge_transform''), (''max_iterations'', number env max_iterations),
        (''predicate'', fe_predicate env expression), (''predicate_version'', number env WORKFLOW_PREDICATE_VERSION)])],
     fr_edges := fr_edges f @ map (\<lambda>exit. plain_edge DirectEdge exit name) (fr_exits f) @
       map (\<lambda>entry. \<lparr>ed_from = name, ed_to = entry, ed_kind = Back expression max_iterations,
          ed_transform = (if out = inp then Some (iteration_transform inp) else None)\<rparr>) (fr_entries f),
     fr_exits := [name]\<rparr>"

definition branch_fragment ::
    "'num fragment_env \<Rightarrow> ustring \<Rightarrow> 'num predicate_expression \<Rightarrow> 'num value_schema
       \<Rightarrow> 'num fragment \<Rightarrow> 'num fragment \<Rightarrow> 'num fragment \<Rightarrow> 'num fragment" where
  "branch_fragment env name expression out f when_true when_false = f\<lparr>
     fr_nodes := fr_nodes f @ [step_node name name Branch out out (json_object
       [(''false_entries'', names (fr_entries when_false)), (''false_nodes'', names (map nd_id (fr_nodes when_false))),
        (''predicate'', fe_predicate env expression), (''predicate_version'', number env WORKFLOW_PREDICATE_VERSION),
        (''true_entries'', names (fr_entries when_true)), (''true_nodes'', names (map nd_id (fr_nodes when_true)))])]
       @ fr_nodes when_true @ fr_nodes when_false,
     fr_edges := fr_edges f @ map (\<lambda>exit. plain_edge DirectEdge exit name) (fr_exits f) @
       map (plain_edge (Conditional expression True) name) (fr_entries when_true) @
       map (plain_edge (Conditional expression False) name) (fr_entries when_false) @
       fr_edges when_true @ fr_edges when_false,
     fr_exits := fr_exits when_true @ fr_exits when_false\<rparr>"

record retry_policy =
  rp_max_attempts :: u32
  rp_backoff :: duration

text \<open>The milliseconds of a duration in nanoseconds; what does not fit a \<open>u64\<close> becomes its maximum.\<close>

definition duration_ms :: "duration \<Rightarrow> u64" where
  "duration_ms d = (if d div 1000000 < 2 ^ 64 then of_nat (d div 1000000) else - 1)"

definition retry_fragment ::
    "'num fragment_env \<Rightarrow> ustring \<Rightarrow> retry_policy \<Rightarrow> 'num value_schema \<Rightarrow> 'num value_schema \<Rightarrow> 'num fragment \<Rightarrow> 'num fragment" where
  "retry_fragment env name policy inp out f = f\<lparr>
     fr_edges := fr_edges f @ map (\<lambda>exit. plain_edge DirectEdge exit name) (fr_exits f) @
       map (plain_edge (RetryEdge (rp_max_attempts policy)) name) (fr_entries f),
     fr_nodes := fr_nodes f @ [step_node name name Retry inp out (json_object
       [(''backoff_ms'', JNumber (fe_number env (duration_ms (rp_backoff policy)))),
        (''max_attempts'', number env (rp_max_attempts policy))])],
     fr_exits := [name]\<rparr>"

definition failure_policy_name :: "parallel_failure_policy \<Rightarrow> 'num json" where
  "failure_policy_name policy = json_text (case policy of
      WaitAll \<Rightarrow> ''wait_all'' | FailFast \<Rightarrow> ''fail_fast'' | CollectOutcomes \<Rightarrow> ''collect_outcomes'')"

definition parallel_fragment ::
    "ustring \<Rightarrow> parallel_failure_policy \<Rightarrow> 'num value_schema \<Rightarrow> 'num fragment \<Rightarrow> 'num fragment \<Rightarrow> 'num fragment" where
  "parallel_fragment name policy both_schemas f g =
     \<lparr>fr_nodes = fr_nodes f @ fr_nodes g @ [step_node name (str ''parallel join'') ParallelNode both_schemas both_schemas
        (json_object [(''failure_policy'', failure_policy_name policy), (''left_exits'', names (fr_exits f)),
           (''right_exits'', names (fr_exits g))])],
      fr_edges = fr_edges f @ fr_edges g @ map (\<lambda>exit. plain_edge DirectEdge exit name) (fr_exits f @ fr_exits g),
      fr_entries = bs_from (fr_entries f @ fr_entries g),
      fr_exits = [name]\<rparr>"

definition generated_parallel_name :: "'num fragment \<Rightarrow> 'num fragment \<Rightarrow> ustring" where
  "generated_parallel_name f g = str ''parallel:'' @ (case fr_entries f of [] \<Rightarrow> str ''left'' | e # _ \<Rightarrow> e) @ str ''+''
     @ (case fr_entries g of [] \<Rightarrow> str ''right'' | e # _ \<Rightarrow> e)"

definition fan_out_fragment ::
    "'num fragment_env \<Rightarrow> ustring \<Rightarrow> u64 \<Rightarrow> 'num value_schema \<Rightarrow> 'num value_schema \<Rightarrow> 'num fragment \<Rightarrow> 'num fragment" where
  "fan_out_fragment env name max_concurrency inputs outputs f = f\<lparr>
     fr_edges := fr_edges f @ map (\<lambda>exit. plain_edge DirectEdge exit name) (fr_exits f),
     fr_nodes := fr_nodes f @ [step_node name name FanOut inputs outputs (json_object
       [(''body_entries'', names (fr_entries f)), (''body_exits'', names (fr_exits f)),
        (''fan_out_version'', number env WORKFLOW_FAN_OUT_RESULT_VERSION),
        (''max_concurrency'', JNumber (fe_number env max_concurrency)),
        (''member_shape'', json_object [(''index'', json_text ''u32''), (''value'', json_text ''typed_output'')]),
        (''ordering'', json_text ''input_index_ascending'')])],
     fr_entries := [name],
     fr_exits := [name]\<rparr>"

section \<open>Compilation\<close>

definition zero_limit :: "('num, 'f) graph_env \<Rightarrow> 'num node_definition \<Rightarrow> string \<Rightarrow> bool" where
  "zero_limit env node key \<longleftrightarrow> config_u64 env node key = Some 0"

definition check_fragment_node :: "('num, 'f) graph_env \<Rightarrow> ustring \<Rightarrow> 'num node_definition \<Rightarrow> workflow_error + unit" where
  "check_fragment_node env name node =
     also_valid (ensure (\<not> is_blank (nd_id node)) name ''step name must not be empty'')
    (also_valid (ensure (\<not> (nd_kind node = Repeat \<and> zero_limit env node ''max_iterations'')) (nd_id node)
        ''repeat max_iterations must be greater than zero'')
    (also_valid (ensure (\<not> (nd_kind node = Retry \<and> zero_limit env node ''max_attempts'')) (nd_id node)
        ''retry max_attempts must be greater than zero'')
       (ensure (\<not> (nd_kind node = FanOut \<and> zero_limit env node ''max_concurrency'')) (nd_id node)
          ''fan_out max_concurrency must be greater than zero'')))"

fun collect_nodes ::
    "('num, 'f) graph_env \<Rightarrow> ustring \<Rightarrow> 'num node_definition list \<Rightarrow> (ustring, 'num node_definition) btree
       \<Rightarrow> workflow_error + (ustring, 'num node_definition) btree" where
  "collect_nodes env name [] nodes = Inr nodes"
| "collect_nodes env name (node # rest) nodes =
     (case check_fragment_node env name node of
        Inl e \<Rightarrow> Inl e
      | Inr _ \<Rightarrow>
          if bt_get nodes (nd_id node) \<noteq> None
          then build_error (nd_id node) ''step name is duplicated; choose unique names''
          else collect_nodes env name rest (bt_insert (nd_id node) node nodes))"

definition check_fragment_edge ::
    "('num, 'f) graph_env \<Rightarrow> ustring \<Rightarrow> (ustring, 'num node_definition) btree \<Rightarrow> 'num edge_definition \<Rightarrow> workflow_error + unit" where
  "check_fragment_edge env name nodes edge =
     (case (bt_get nodes (ed_from edge), bt_get nodes (ed_to edge)) of
        (Some source, Some target) \<Rightarrow>
          also_valid
            (case ed_transform edge of
               None \<Rightarrow> Inr ()
             | Some t \<Rightarrow>
                 also_valid (validate_transform (ge_values env) t)
                   (if wt_output t \<noteq> nd_input target
                    then Inl (BuildError (ed_from edge)
                           (str ''edge transform output does not match target input for '' @ arrow edge))
                    else Inr ()))
            (ensure (\<not> unrepeatable (ed_kind edge)) (ed_from edge) ''repeat max_iterations must be greater than zero'')
      | _ \<Rightarrow> Inl (BuildError name (str ''edge '' @ arrow edge @ str '' references a missing step'')))"

definition sort_edges :: "'num edge_definition list \<Rightarrow> 'num edge_definition list" where
  "sort_edges es = remdups_adj (sort_key (\<lambda>e. (ed_from e, ed_to e)) es)"

definition compile_definition ::
    "('num, 'f) graph_env \<Rightarrow> ustring \<Rightarrow> 'num value_schema \<Rightarrow> 'num value_schema \<Rightarrow> 'num fragment
       \<Rightarrow> (workflow_error + 'num workflow_definition) option" where
  "compile_definition env name inp out f =
     (case also_valid (ensure (\<not> is_blank name) (str ''workflow'') ''name must not be empty'')
          (also_valid (ensure (fr_nodes f \<noteq> []) name ''workflow must contain at least one step'')
             (ensure (\<not> (fr_entries f = [] \<or> fr_exits f = [])) name ''workflow must have at least one entry and one exit'')) of
        Inl e \<Rightarrow> Some (Inl e)
      | Inr _ \<Rightarrow>
     (case collect_nodes env name (fr_nodes f) [] of
        Inl e \<Rightarrow> Some (Inl e)
      | Inr nodes \<Rightarrow>
     (case also_valid (all_valid (\<lambda>boundary.
               if bt_get nodes boundary = None
               then Inl (BuildError name (str ''workflow boundary references missing step '' @ quoted boundary))
               else Inr ()) (fr_entries f @ fr_exits f))
             (all_valid (check_fragment_edge env name nodes) (fr_edges f)) of
        Inl e \<Rightarrow> Some (Inl e)
      | Inr _ \<Rightarrow>
          (let d = \<lparr>wd_schema_version = WORKFLOW_DEFINITION_SCHEMA_VERSION, wd_name = name, wd_input = inp, wd_output = out,
                    wd_nodes = nodes, wd_entries = fr_entries f, wd_exits = fr_exits f, wd_edges = fr_edges f\<rparr>
           in case ensure_acyclic d of
                None \<Rightarrow> None
              | Some (Inl e) \<Rightarrow> Some (Inl e)
              | Some (Inr _) \<Rightarrow>
                  (let d = d\<lparr>wd_edges := sort_edges (fr_edges f)\<rparr>
                   in map_option (\<lambda>r. case r of Inl e \<Rightarrow> Inl e | Inr _ \<Rightarrow> Inr d) (validate_compiled_definition env d))))))"

text \<open>\<open>WorkflowBuilder::build\<close>: the definition and its scheduling indexes.\<close>

definition build_workflow ::
    "('num, 'f) graph_env \<Rightarrow> ustring \<Rightarrow> 'num value_schema \<Rightarrow> 'num value_schema \<Rightarrow> 'num fragment
       \<Rightarrow> (workflow_error + 'num workflow_definition \<times> workflow_plan) option" where
  "build_workflow env name inp out f =
     (case compile_definition env name inp out f of
        None \<Rightarrow> None
      | Some (Inl e) \<Rightarrow> Some (Inl e)
      | Some (Inr d) \<Rightarrow> map_option (\<lambda>plan. Inr (d, plan)) (compile_plan d))"

section \<open>The graph of a composed flow\<close>

definition ids :: "'num fragment \<Rightarrow> ustring set" where
  "ids f = nd_id ` set (fr_nodes f)"

definition edge_pairs :: "'num edge_definition list \<Rightarrow> (ustring \<times> ustring) set" where
  "edge_pairs es = (\<lambda>e. (ed_from e, ed_to e)) ` set es"

definition forward_pairs :: "'num edge_definition list \<Rightarrow> (ustring \<times> ustring) set" where
  "forward_pairs es = edge_pairs (filter (\<lambda>e. forward (ed_kind e)) es)"

definition fragment_ok :: "'num fragment \<Rightarrow> bool" where
  "fragment_ok f \<longleftrightarrow> distinct (map nd_id (fr_nodes f)) \<and> fr_entries f \<noteq> [] \<and> fr_exits f \<noteq> [] \<and>
     set (fr_entries f) \<subseteq> ids f \<and> set (fr_exits f) \<subseteq> ids f \<and> edge_pairs (fr_edges f) \<subseteq> ids f \<times> ids f \<and>
     acyclic (forward_pairs (fr_edges f))"

text \<open>The flows that the combinators build when every step has a name of its own.\<close>

inductive built :: "'num fragment_env \<Rightarrow> 'num fragment \<Rightarrow> bool" for env where
  built_leaf: "built env (leaf_fragment name kind configuration inp out)"
| built_sequence: "built env f \<Longrightarrow> built env g \<Longrightarrow> ids f \<inter> ids g = {} \<Longrightarrow> built env (sequence f g)"
| built_repeat: "built env f \<Longrightarrow> name \<notin> ids f \<Longrightarrow> built env (repeat_fragment env name expression n inp out f)"
| built_branch: "built env f \<Longrightarrow> built env g \<Longrightarrow> built env h \<Longrightarrow> ids f \<inter> ids g = {} \<Longrightarrow> ids f \<inter> ids h = {} \<Longrightarrow>
    ids g \<inter> ids h = {} \<Longrightarrow> name \<notin> ids f \<union> ids g \<union> ids h \<Longrightarrow> built env (branch_fragment env name expression out f g h)"
| built_retry: "built env f \<Longrightarrow> name \<notin> ids f \<Longrightarrow> built env (retry_fragment env name policy inp out f)"
| built_parallel: "built env f \<Longrightarrow> built env g \<Longrightarrow> ids f \<inter> ids g = {} \<Longrightarrow> name \<notin> ids f \<union> ids g \<Longrightarrow>
    built env (parallel_fragment name policy both_schemas f g)"
| built_fan_out: "built env f \<Longrightarrow> name \<notin> ids f \<Longrightarrow> built env (fan_out_fragment env name n inp out f)"

lemma edge_pairs_simps [simp]:
  "edge_pairs [] = {}" "edge_pairs (es @ es') = edge_pairs es \<union> edge_pairs es'"
  "edge_pairs (e # es) = insert (ed_from e, ed_to e) (edge_pairs es)"
  "edge_pairs (map (plain_edge k a) ts) = {a} \<times> set ts"
  "edge_pairs (map (\<lambda>s. plain_edge k s b) ss) = set ss \<times> {b}"
  by (auto simp: edge_pairs_def plain_edge_def image_image)

lemma edge_pairs_product [simp]:
  "edge_pairs (concat (map (\<lambda>s. map (plain_edge k s) ts) ss)) = set ss \<times> set ts"
  by (induction ss) auto

lemma forward_pairs_simps [simp]:
  "forward_pairs [] = {}" "forward_pairs (es @ es') = forward_pairs es \<union> forward_pairs es'"
  "forward_pairs (map (plain_edge k a) ts) = (if forward k then {a} \<times> set ts else {})"
  "forward_pairs (map (\<lambda>s. plain_edge k s b) ss) = (if forward k then set ss \<times> {b} else {})"
  by (auto simp: forward_pairs_def edge_pairs_def plain_edge_def filter_map comp_def image_image)

lemma forward_pairs_product [simp]:
  "forward_pairs (concat (map (\<lambda>s. map (plain_edge k s) ts) ss)) = (if forward k then set ss \<times> set ts else {})"
  by (induction ss) auto

lemma forward_pairs_subset: "forward_pairs es \<subseteq> edge_pairs es"
  by (auto simp: forward_pairs_def edge_pairs_def)

lemma finite_forward_pairs [simp]: "finite (forward_pairs es)"
  by (simp add: forward_pairs_def edge_pairs_def)

lemma back_pairs [simp]:
  "forward_pairs (map (\<lambda>e. \<lparr>ed_from = a, ed_to = e, ed_kind = Back p n, ed_transform = t\<rparr>) es) = {}"
  "edge_pairs (map (\<lambda>e. \<lparr>ed_from = a, ed_to = e, ed_kind = k, ed_transform = t\<rparr>) es) = {a} \<times> set es"
  by (auto simp: forward_pairs_def edge_pairs_def filter_map comp_def image_image)

text \<open>Edges from one part of a graph to a later part keep it acyclic.\<close>

lemma acyclic_join:
  assumes "acyclic r" and "acyclic s" and "finite r" and "finite s" and "finite t"
    and "r \<subseteq> A \<times> A" and "s \<subseteq> B \<times> B" and "t \<subseteq> A \<times> B" and "A \<inter> B = {}"
  shows "acyclic (r \<union> t \<union> s)"
proof -
  have r: "wf r" and s: "wf s" using assms by (simp_all add: finite_acyclic_wf)
  have "acyclic t"
  proof (rule acyclicI_order[where f = "\<lambda>v. if v \<in> A then 1 else (0 :: nat)"])
    show "\<And>a b. (a, b) \<in> t \<Longrightarrow> (if b \<in> A then 1 else (0 :: nat)) < (if a \<in> A then 1 else 0)"
      using assms(8,9) by auto
  qed
  then have t: "wf t" using assms(5) by (simp add: finite_acyclic_wf)
  have "Domain r \<inter> Range t = {}" using assms(6,8,9) by blast
  from wf_Un[OF r t this] have rt: "wf (r \<union> t)" .
  have "Domain (r \<union> t) \<inter> Range s = {}" using assms(6-9) by blast
  from wf_Un[OF rt s this] show ?thesis by (rule wf_acyclic)
qed

lemma fragment_forward: "fragment_ok f \<Longrightarrow> acyclic (forward_pairs (fr_edges f)) \<and> forward_pairs (fr_edges f) \<subseteq> ids f \<times> ids f"
  using forward_pairs_subset[of "fr_edges f"] by (auto simp: fragment_ok_def)

lemma ids_simps [simp]:
  "ids (leaf_fragment name kind configuration inp out) = {name}"
  "ids (sequence f g) = ids f \<union> ids g"
  "ids (repeat_fragment env name expression n inp out f) = insert name (ids f)"
  "ids (branch_fragment env name expression out f g h) = insert name (ids f \<union> ids g \<union> ids h)"
  "ids (retry_fragment env name policy inp out f) = insert name (ids f)"
  "ids (parallel_fragment name failure both_schemas f g) = insert name (ids f \<union> ids g)"
  "ids (fan_out_fragment env name m inp out f) = insert name (ids f)"
  by (auto simp: ids_def leaf_fragment_def sequence_def repeat_fragment_def branch_fragment_def retry_fragment_def
      parallel_fragment_def fan_out_fragment_def step_node_def)

text \<open>A controller behind the exits of a fragment.\<close>

lemma acyclic_controller:
  assumes "fragment_ok f" and "name \<notin> ids f"
  shows "acyclic (forward_pairs (fr_edges f) \<union> set (fr_exits f) \<times> {name})"
  using acyclic_join[of "forward_pairs (fr_edges f)" "{}" "set (fr_exits f) \<times> {name}" "ids f" "{name}"]
    fragment_forward[OF assms(1)] assms by (auto simp: fragment_ok_def acyclic_def)

lemma bs_from_Nil [simp]: "bs_from xs = [] \<longleftrightarrow> xs = []"
  by (metis set_bs_from set_empty)

lemma built_fragment_ok: "built env f \<Longrightarrow> fragment_ok f"
proof (induction rule: built.induct)
  case (built_leaf name kind configuration inp out)
  then show ?case by (simp add: fragment_ok_def leaf_fragment_def ids_def step_node_def acyclic_def)
next
  case (built_sequence f g)
  have "acyclic (forward_pairs (fr_edges f) \<union> set (fr_exits f) \<times> set (fr_entries g) \<union> forward_pairs (fr_edges g))"
    by (rule acyclic_join[where A = "ids f" and B = "ids g"])
      (use built_sequence fragment_forward[of f] fragment_forward[of g] in \<open>auto simp: fragment_ok_def\<close>)
  with built_sequence show ?case unfolding fragment_ok_def ids_simps
    by (auto simp: sequence_def Un_assoc ids_def)
next
  case (built_repeat f name expression n inp out)
  with acyclic_controller[of f name] show ?case unfolding fragment_ok_def ids_simps
    by (auto simp: repeat_fragment_def step_node_def ids_def)
next
  case (built_retry f name policy inp out)
  with acyclic_controller[of f name] show ?case unfolding fragment_ok_def ids_simps
    by (auto simp: retry_fragment_def step_node_def ids_def)
next
  case (built_fan_out f name n inp out)
  with acyclic_controller[of f name] show ?case unfolding fragment_ok_def ids_simps
    by (auto simp: fan_out_fragment_def step_node_def ids_def)
next
  case (built_parallel f g name policy both_schemas)
  have "acyclic (forward_pairs (fr_edges f) \<union> {} \<union> forward_pairs (fr_edges g))"
    by (rule acyclic_join[where A = "ids f" and B = "ids g"])
      (use built_parallel fragment_forward[of f] fragment_forward[of g] in auto)
  then have "acyclic (forward_pairs (fr_edges f) \<union> forward_pairs (fr_edges g) \<union> set (fr_exits f @ fr_exits g) \<times> {name} \<union> {})"
    by (intro acyclic_join[where A = "ids f \<union> ids g" and B = "{name}"])
      (use built_parallel fragment_forward[of f] fragment_forward[of g] in \<open>auto simp: fragment_ok_def acyclic_def\<close>)
  with built_parallel show ?case unfolding fragment_ok_def ids_simps
    by (auto simp: parallel_fragment_def step_node_def ids_def Un_assoc Sigma_Un_distrib1)
next
  case (built_branch f g h name expression out)
  note ok = built_branch.IH
  note ff = fragment_forward[OF ok(1)] fragment_forward[OF ok(2)] fragment_forward[OF ok(3)]
  have gh: "acyclic (forward_pairs (fr_edges g) \<union> {} \<union> forward_pairs (fr_edges h))"
    by (rule acyclic_join[where A = "ids g" and B = "ids h"]) (use built_branch.hyps(6) ff in auto)
  have f: "acyclic (forward_pairs (fr_edges f) \<union> set (fr_exits f) \<times> {name})"
    by (rule acyclic_controller) (use ok(1) built_branch.hyps(7) in auto)
  have "acyclic ((forward_pairs (fr_edges f) \<union> set (fr_exits f) \<times> {name}) \<union> {name} \<times> set (fr_entries g @ fr_entries h)
      \<union> (forward_pairs (fr_edges g) \<union> forward_pairs (fr_edges h)))"
  proof (rule acyclic_join[where A = "insert name (ids f)" and B = "ids g \<union> ids h"])
    show "forward_pairs (fr_edges f) \<union> set (fr_exits f) \<times> {name} \<subseteq> insert name (ids f) \<times> insert name (ids f)"
      using ff(1) ok(1) by (auto simp: fragment_ok_def)
    show "forward_pairs (fr_edges g) \<union> forward_pairs (fr_edges h) \<subseteq> (ids g \<union> ids h) \<times> (ids g \<union> ids h)"
      using ff by blast
    show "{name} \<times> set (fr_entries g @ fr_entries h) \<subseteq> insert name (ids f) \<times> (ids g \<union> ids h)"
      using ok(2,3) by (auto simp: fragment_ok_def)
    show "insert name (ids f) \<inter> (ids g \<union> ids h) = {}" using built_branch.hyps(4,5,7) by blast
  qed (use f gh in simp_all)
  moreover have "forward_pairs (fr_edges (branch_fragment env name expression out f g h)) =
      (forward_pairs (fr_edges f) \<union> set (fr_exits f) \<times> {name}) \<union> {name} \<times> set (fr_entries g @ fr_entries h)
      \<union> (forward_pairs (fr_edges g) \<union> forward_pairs (fr_edges h))"
    by (simp add: branch_fragment_def Un_ac Sigma_Un_distrib2)
  moreover have "edge_pairs (fr_edges (branch_fragment env name expression out f g h)) \<subseteq>
      insert name (ids f \<union> ids g \<union> ids h) \<times> insert name (ids f \<union> ids g \<union> ids h)"
    using ok by (simp add: branch_fragment_def fragment_ok_def) blast
  moreover have "distinct (map nd_id (fr_nodes (branch_fragment env name expression out f g h)))"
    using ok built_branch.hyps(4-7) by (auto simp: branch_fragment_def fragment_ok_def step_node_def ids_def)
  moreover have "fr_entries (branch_fragment env name expression out f g h) = fr_entries f"
    "fr_exits (branch_fragment env name expression out f g h) = fr_exits g @ fr_exits h"
    by (simp_all add: branch_fragment_def)
  ultimately show ?case
    using ok unfolding fragment_ok_def ids_simps by (simp only: append_is_Nil_conv set_append) blast
qed

section \<open>Compilation of a flow\<close>

lemma length_bt_insert: "length (bt_insert k v m) \<le> Suc (length m)"
  by (induction k v m rule: bt_insert.induct) auto

lemma collect_nodes_keys:
  "collect_nodes env name ns nodes = Inr nodes' \<Longrightarrow> btree_ok nodes \<Longrightarrow>
     btree_ok nodes' \<and> set (map fst nodes') = set (map fst nodes) \<union> nd_id ` set ns \<and> length nodes' \<le> length nodes + length ns"
proof (induction env name ns nodes rule: collect_nodes.induct)
  case (2 env name node rest nodes)
  then obtain u where u: "check_fragment_node env name node = Inr u" "\<not> bt_get nodes (nd_id node) \<noteq> None"
    and r: "collect_nodes env name rest (bt_insert (nd_id node) node nodes) = Inr nodes'"
    by (auto simp: build_error_def split: sum.splits if_splits)
  from 2(1)[OF u r bt_insert_ok[OF 2(3)]] length_bt_insert[of "nd_id node" node nodes]
  show ?case by (simp add: set_fst_bt_insert)
qed simp

lemma collect_nodes_distinct:
  "distinct (map nd_id ns) \<Longrightarrow> \<forall>n \<in> set ns. check_fragment_node env name n = Inr () \<and> bt_get nodes (nd_id n) = None \<Longrightarrow>
     btree_ok nodes \<Longrightarrow> \<exists>nodes'. collect_nodes env name ns nodes = Inr nodes'"
proof (induction ns arbitrary: nodes)
  case (Cons n ns)
  have "\<forall>m \<in> set ns. check_fragment_node env name m = Inr () \<and> bt_get (bt_insert (nd_id n) n nodes) (nd_id m) = None"
  proof
    fix m
    assume m: "m \<in> set ns"
    with Cons(2) have "nd_id m \<noteq> nd_id n" by (metis distinct.simps(2) image_eqI list.simps(9) set_map)
    with m Cons(3,4) show "check_fragment_node env name m = Inr () \<and> bt_get (bt_insert (nd_id n) n nodes) (nd_id m) = None"
      by (simp add: bt_get_insert)
  qed
  from Cons(1)[OF _ this bt_insert_ok[OF Cons(4)]] Cons(2,3) show ?case by simp
qed simp

definition fragment_definition ::
    "ustring \<Rightarrow> 'num value_schema \<Rightarrow> 'num value_schema \<Rightarrow> 'num fragment \<Rightarrow> (ustring, 'num node_definition) btree
       \<Rightarrow> 'num workflow_definition" where
  "fragment_definition name inp out f nodes =
     \<lparr>wd_schema_version = WORKFLOW_DEFINITION_SCHEMA_VERSION, wd_name = name, wd_input = inp, wd_output = out,
      wd_nodes = nodes, wd_entries = fr_entries f, wd_exits = fr_exits f, wd_edges = fr_edges f\<rparr>"

lemma forward_edges_pairs: "set (forward_edges (fragment_definition name inp out f nodes)) = forward_pairs (fr_edges f)"
  by (auto simp: forward_edges_def fragment_definition_def forward_pairs_def edge_pairs_def)

text \<open>A flow of the combinators passes every structural check of its compilation.\<close>

lemma built_flow_passes:
  assumes "built fenv f" and "\<forall>n \<in> set (fr_nodes f). check_fragment_node env name n = Inr ()"
    and "length (fr_nodes f) < 2 ^ 64 - 1"
  shows "\<exists>nodes. collect_nodes env name (fr_nodes f) [] = Inr nodes \<and>
     set (fr_entries f @ fr_exits f) \<subseteq> set (map fst nodes) \<and>
     (\<forall>e \<in> set (fr_edges f). ed_from e \<in> set (map fst nodes) \<and> ed_to e \<in> set (map fst nodes)) \<and>
     ensure_acyclic (fragment_definition name inp out f nodes) = Some (Inr ())"
proof -
  have ok: "fragment_ok f" by (rule built_fragment_ok[OF assms(1)])
  obtain nodes where n: "collect_nodes env name (fr_nodes f) [] = Inr nodes"
    using collect_nodes_distinct[of "fr_nodes f" env name "[]"] ok assms(2) by (auto simp: fragment_ok_def bt_get_def)
  from collect_nodes_keys[OF n] have nodes: "btree_ok nodes" "set (map fst nodes) = ids f" "length nodes < 2 ^ 64 - 1"
    using assms(3) by (simp_all add: ids_def)
  have edges: "\<forall>e \<in> set (fr_edges f). ed_from e \<in> ids f \<and> ed_to e \<in> ids f"
    using ok by (auto simp: fragment_ok_def edge_pairs_def)
  have "ensure_acyclic (fragment_definition name inp out f nodes) =
      Some (ensure (acyclic (forward_pairs (fr_edges f))) name ''workflow graph contains an unbounded cycle'')"
    using ensure_acyclic_correct[of "fragment_definition name inp out f nodes"] nodes fragment_forward[OF ok]
    unfolding forward_edges_pairs by (auto simp: fragment_definition_def definition_ok_def)
  then have "ensure_acyclic (fragment_definition name inp out f nodes) = Some (Inr ())"
    using ok by (simp add: fragment_ok_def ensure_def)
  with n edges nodes(2) ok show ?thesis by (auto simp: fragment_ok_def)
qed

text \<open>Building never panics, whatever the fragment, and what it returns is valid.\<close>

lemma compiled_definition:
  assumes "compile_definition env name inp out f = Some (Inr d)"
  shows "definition_ok d" and "validate_compiled_definition env d = Some (Inr ())"
proof -
  from assms obtain nodes where "collect_nodes env name (fr_nodes f) [] = Inr nodes"
    and d: "d = (fragment_definition name inp out f nodes)\<lparr>wd_edges := sort_edges (fr_edges f)\<rparr>"
    and v: "validate_compiled_definition env d = Some (Inr ())"
    unfolding compile_definition_def fragment_definition_def[symmetric]
    by (auto simp: Let_def split: sum.splits option.splits) (metis old.unit.exhaust sum.exhaust)
  then show "definition_ok d" using collect_nodes_keys[of env name "fr_nodes f" "[]" nodes]
    by (simp add: definition_ok_def fragment_definition_def)
  show "validate_compiled_definition env d = Some (Inr ())" by (fact v)
qed

lemma compile_returns:
  assumes "length (fr_nodes f) < 2 ^ 64 - 1"
  shows "compile_definition env name inp out f \<noteq> None"
proof -
  have acyclic: "ensure_acyclic (fragment_definition name inp out f nodes) \<noteq> None"
    if n: "collect_nodes env name (fr_nodes f) [] = Inr nodes"
      and e: "\<forall>e \<in> set (fr_edges f). check_fragment_edge env name nodes e = Inr ()" for nodes
  proof -
    have "ed_from e \<in> set (map fst nodes) \<and> ed_to e \<in> set (map fst nodes)" if "e \<in> set (fr_edges f)" for e
      using e[rule_format, OF that]
      by (auto simp: check_fragment_edge_def bt_get_fst[symmetric] simp del: set_map split: option.splits)
    then have "\<forall>(u, v) \<in> set (forward_edges (fragment_definition name inp out f nodes)).
        u \<in> set (map fst nodes) \<and> v \<in> set (map fst nodes)"
      by (auto simp: forward_edges_pairs forward_pairs_def edge_pairs_def)
    then show ?thesis
      using ensure_acyclic_correct[of "fragment_definition name inp out f nodes"] collect_nodes_keys[OF n] assms
      by (simp add: fragment_definition_def definition_ok_def)
  qed
  have valid: "validate_compiled_definition env ((fragment_definition name inp out f nodes)\<lparr>wd_edges := es\<rparr>) \<noteq> None"
    if n: "collect_nodes env name (fr_nodes f) [] = Inr nodes" for nodes es
    using validation_returns[of "(fragment_definition name inp out f nodes)\<lparr>wd_edges := es\<rparr>" env] collect_nodes_keys[OF n]
    by (auto simp: definition_ok_def fragment_definition_def)
  show ?thesis
    unfolding compile_definition_def fragment_definition_def[symmetric]
    using acyclic valid by (auto simp: Let_def split: sum.splits option.splits)
qed

lemma build_returns:
  assumes "length (fr_nodes f) < 2 ^ 64 - 1"
  shows "build_workflow env name inp out f \<noteq> None"
  using compile_returns[OF assms, of env name inp out] compile_plan_correct[OF compiled_definition]
  by (fastforce simp: build_workflow_def split: option.splits sum.splits)

end
