(* ===== verification/Workflow_Run.thy ===== *)
theory Workflow_Run
  imports Workflow_Fragments
begin

text \<open>
  The in-process execution of workflow steps (\<open>packages/workflow/src/lib.rs\<close>): leaf steps,
  sequences, branches, repeats, retries, joins and the observed run around them, on the state their
  shared context holds: the cancellation token, the event channel, the tracker and the permits.

  Cancellation is requested from outside at some await point, \<open>rw_cancel_at\<close>; \<open>rw_now\<close> counts the
  await points that have passed. \<open>rw_events\<close> are the events offered to the channel. What other
  tasks do while a step waits for a permit is the field \<open>re_wait_permit\<close> of \<open>run_env\<close>; the
  \<open>Debug\<close> texts of the standard library are its other fields.
\<close>

section \<open>Context\<close>

datatype workflow_event =
    StepStarted ustring
  | StepCompleted ustring
  | StepWaitingForResources ustring "resource_claim list"
  | StepWaitingForConcurrency ustring
  | StepFailed ustring ustring
  | RetryAttempt ustring u32 u32
  | IterationStarted ustring u32 u32
  | WorkflowFinished workflow_outcome

record run_world =
  rw_now :: nat
  rw_cancel_at :: "nat option"
  rw_events :: "workflow_event list option"
  rw_tracker :: run_state_tracker
  rw_permits :: nat

record run_env =
  re_show_duration :: "duration \<Rightarrow> ustring"
  re_show_strings :: "ustring list \<Rightarrow> ustring"
  re_wait_permit :: "run_world \<Rightarrow> bool \<times> run_world"

text \<open>A step runs with or without a concurrency permit held by an enclosing step.\<close>

type_synonym ('i, 'o) step_run = "bool \<Rightarrow> 'i \<Rightarrow> run_world \<Rightarrow> (workflow_error + 'o) \<times> run_world"

definition is_cancelled :: "run_world \<Rightarrow> bool" where
  "is_cancelled w \<longleftrightarrow> (case rw_cancel_at w of None \<Rightarrow> False | Some t \<Rightarrow> t \<le> rw_now w)"

definition suspend :: "run_world \<Rightarrow> run_world" where
  "suspend w = w\<lparr>rw_now := rw_now w + 1\<rparr>"

definition emit :: "workflow_event \<Rightarrow> run_world \<Rightarrow> run_world" where
  "emit event w = w\<lparr>rw_events := map_option (\<lambda>es. es @ [event]) (rw_events w)\<rparr>"

definition transition :: "ustring \<Rightarrow> node_run_state \<Rightarrow> run_world \<Rightarrow> run_world" where
  "transition node state w = w\<lparr>rw_tracker := track_transition node state (rw_tracker w)\<rparr>"

definition ensure_active :: "ustring \<Rightarrow> run_world \<Rightarrow> workflow_error + unit" where
  "ensure_active step w = (if is_cancelled w then Inl (CancelledError step) else Inr ())"

text \<open>The \<open>Display\<close> of an error.\<close>

definition workflow_error_text :: "run_env \<Rightarrow> workflow_error \<Rightarrow> ustring" where
  "workflow_error_text env e = (case e of
       BuildError path message \<Rightarrow> str ''workflow build failed at '' @ quoted path @ str '': '' @ message
     | StepError step message \<Rightarrow> str ''workflow step '' @ quoted step @ str '' failed: '' @ message
     | PanickedError step \<Rightarrow> str ''workflow step '' @ quoted step @ str '' panicked''
     | InvalidInputError workflow message \<Rightarrow>
         str ''workflow '' @ quoted workflow @ str '' received invalid input: '' @ message
     | InvalidOutputError step message \<Rightarrow>
         str ''workflow step '' @ quoted step @ str '' returned invalid output: '' @ message
     | CancelledError step \<Rightarrow> str ''workflow cancelled before step '' @ quoted step
     | TimedOutError step timeout \<Rightarrow>
         str ''workflow step '' @ quoted step @ str '' timed out after '' @ re_show_duration env timeout
     | RetryExhaustedError step attempts errors \<Rightarrow>
         str ''workflow step '' @ quoted step @ str '' exhausted '' @ show_nat (unat attempts) @ str '' attempts: ''
           @ re_show_strings env errors)"

definition node_state_for_error :: "workflow_error \<Rightarrow> node_run_state" where
  "node_state_for_error e = (case e of
       CancelledError _ \<Rightarrow> NodeCancelled | TimedOutError _ _ \<Rightarrow> NodeTimedOut | _ \<Rightarrow> NodeFailed)"

definition controller_started :: "ustring \<Rightarrow> run_world \<Rightarrow> run_world" where
  "controller_started node w = emit (StepStarted node) (transition node NodeRunning w)"

definition step_failed :: "run_env \<Rightarrow> ustring \<Rightarrow> workflow_error \<Rightarrow> run_world \<Rightarrow> run_world" where
  "step_failed env node e w =
     emit (StepFailed node (workflow_error_text env e)) (transition node (node_state_for_error e) w)"

definition controller_finished :: "run_env \<Rightarrow> ustring \<Rightarrow> workflow_error + 'a \<Rightarrow> run_world \<Rightarrow> run_world" where
  "controller_finished env node result w =
     (case result of
        Inl e \<Rightarrow> step_failed env node e w
      | Inr _ \<Rightarrow> emit (StepCompleted node) (transition node NodeSucceeded w))"

definition skip_nodes :: "ustring list \<Rightarrow> run_world \<Rightarrow> run_world" where
  "skip_nodes nodes w = fold (\<lambda>node. transition node NodeSkipped) nodes w"

section \<open>Leaf steps\<close>

definition acquire_permit :: "run_env \<Rightarrow> ustring \<Rightarrow> run_world \<Rightarrow> (workflow_error + unit) \<times> run_world" where
  "acquire_permit env node w =
     (case ensure_active node w of
        Inl e \<Rightarrow> (Inl e, w)
      | Inr _ \<Rightarrow>
          (case (if 0 < rw_permits w then (True, w\<lparr>rw_permits := rw_permits w - 1\<rparr>)
                 else re_wait_permit env (emit (StepWaitingForConcurrency node) (transition node WaitingForConcurrency w))) of
             (False, w) \<Rightarrow> (Inl (CancelledError node), w)
           | (True, w) \<Rightarrow>
               (case ensure_active node w of
                  Inl e \<Rightarrow> (Inl e, w\<lparr>rw_permits := rw_permits w + 1\<rparr>)
                | Inr _ \<Rightarrow> (Inr (), w))))"

definition acquire_concurrency :: "run_env \<Rightarrow> ustring \<Rightarrow> bool \<Rightarrow> run_world \<Rightarrow> (workflow_error + bool) \<times> run_world" where
  "acquire_concurrency env node held w =
     (if held then (Inr False, w)
      else (case acquire_permit env node w of (Inl e, w) \<Rightarrow> (Inl e, w) | (Inr _, w) \<Rightarrow> (Inr True, w)))"

definition drop_permit :: "bool \<Rightarrow> run_world \<Rightarrow> run_world" where
  "drop_permit permit w = (if permit then w\<lparr>rw_permits := rw_permits w + 1\<rparr> else w)"

text \<open>The serialization, generated schema and deserialization of an output type.\<close>

record ('num, 'o) output_codec =
  oc_to_value :: "'o \<Rightarrow> ustring + 'num json"
  oc_validator :: "ustring + 'num validator"
  oc_decode :: "'num json \<Rightarrow> ustring + 'o"

definition validate_output :: "('num, 'o) output_codec \<Rightarrow> ustring \<Rightarrow> 'o \<Rightarrow> workflow_error + unit" where
  "validate_output codec step out =
     (case oc_to_value codec out of
        Inl e \<Rightarrow> Inl (InvalidOutputError step e)
      | Inr value \<Rightarrow>
     (case oc_validator codec of
        Inl e \<Rightarrow> Inl (InvalidOutputError step (str ''invalid generated schema: '' @ e))
      | Inr validator \<Rightarrow>
     (case validator value of
        Some e \<Rightarrow> Inl (InvalidOutputError step e)
      | None \<Rightarrow> map_err (InvalidOutputError step) (case oc_decode codec value of Inl e \<Rightarrow> Inl e | Inr _ \<Rightarrow> Inr ()))))"

text \<open>The operation of the application; \<open>None\<close> is a panic.\<close>

type_synonym ('i, 'o) operation = "'i \<Rightarrow> run_world \<Rightarrow> (workflow_error + 'o) option \<times> run_world"

definition operation_result ::
    "('num, 'o) output_codec \<Rightarrow> ustring \<Rightarrow> (workflow_error + 'o) option \<Rightarrow> workflow_error + 'o" where
  "operation_result codec step r =
     (case r of
        None \<Rightarrow> Inl (PanickedError step)
      | Some (Inl e) \<Rightarrow> Inl e
      | Some (Inr out) \<Rightarrow> (case validate_output codec step out of Inl e \<Rightarrow> Inl e | Inr _ \<Rightarrow> Inr out))"

definition leaf_run ::
    "run_env \<Rightarrow> ('num, 'o) output_codec \<Rightarrow> ustring \<Rightarrow> ('i, 'o) operation \<Rightarrow> ('i, 'o) step_run" where
  "leaf_run env codec step operation held inp w =
     (let w = transition step NodeReady w
      in case ensure_active step w of
           Inl e \<Rightarrow> (Inl e, transition step NodeCancelled w)
         | Inr _ \<Rightarrow>
             (case acquire_concurrency env step held w of
                (Inl e, w) \<Rightarrow> (Inl e, step_failed env step e w)
              | (Inr permit, w) \<Rightarrow>
                  (case operation inp (emit (StepStarted step) (transition step NodeRunning w)) of
                     (r, w) \<Rightarrow>
                       (let result = operation_result codec step r
                        in (result, drop_permit permit (controller_finished env step result w))))))"

section \<open>Compositions\<close>

definition then_run :: "('i, 'm) step_run \<Rightarrow> ('m, 'o) step_run \<Rightarrow> ('i, 'o) step_run" where
  "then_run first second held inp w =
     (case first held inp w of (Inl e, w) \<Rightarrow> (Inl e, w) | (Inr m, w) \<Rightarrow> second held m w)"

text \<open>\<open>PredicateExpression::evaluate\<close> of a typed value.\<close>

definition evaluate_output ::
    "('num, 'f) value_env \<Rightarrow> 'num predicate_expression \<Rightarrow> ('num, 'o) output_codec \<Rightarrow> 'o \<Rightarrow> workflow_error + bool" where
  "evaluate_output env expression codec out =
     (case map_err (\<lambda>e. BuildError (str ''predicate'') (str ''failed to serialize predicate input: '' @ e))
         (oc_to_value codec out) of
        Inl e \<Rightarrow> Inl e
      | Inr value \<Rightarrow> evaluate_value env expression value)"

text \<open>A predicate that fails returns from the branch without finishing its controller.\<close>

definition branch_run ::
    "run_env \<Rightarrow> ('m \<Rightarrow> workflow_error + bool) \<Rightarrow> ustring \<Rightarrow> ustring list \<Rightarrow> ustring list
       \<Rightarrow> ('i, 'm) step_run \<Rightarrow> ('m, 'o) step_run \<Rightarrow> ('m, 'o) step_run \<Rightarrow> ('i, 'o) step_run" where
  "branch_run env predicate branch_id true_nodes false_nodes prior when_true when_false held inp w =
     (case prior held inp w of
        (Inl e, w) \<Rightarrow> (Inl e, w)
      | (Inr m, w) \<Rightarrow>
          (let w = controller_started branch_id w
           in case predicate m of
                Inl e \<Rightarrow> (Inl e, w)
              | Inr matches \<Rightarrow>
                  (case (if matches then when_true held m (skip_nodes false_nodes w)
                         else when_false held m (skip_nodes true_nodes w)) of
                     (result, w) \<Rightarrow> (result, controller_finished env branch_id result w))))"

text \<open>
  The iterations of a repeat after the first. The last component of the results, the outputs of the
  body in order, is not in the code.
\<close>

fun repeat_iterations ::
    "('o \<Rightarrow> workflow_error + bool) \<Rightarrow> ustring \<Rightarrow> u32 \<Rightarrow> ('o \<Rightarrow> run_world \<Rightarrow> (workflow_error + 'o) \<times> run_world)
       \<Rightarrow> nat list \<Rightarrow> 'o \<Rightarrow> run_world \<Rightarrow> 'o list \<Rightarrow> (workflow_error + 'o) \<times> run_world \<times> 'o list" where
  "repeat_iterations predicate repeat_id limit body [] out w outs =
     (case predicate out of
        Inl e \<Rightarrow> (Inl e, w, outs)
      | Inr True \<Rightarrow> (Inl (StepError repeat_id (str ''repeat condition remained true after ''
                         @ show_nat (unat limit) @ str '' iterations'')), w, outs)
      | Inr False \<Rightarrow> (Inr out, w, outs))"
| "repeat_iterations predicate repeat_id limit body (iteration # rest) out w outs =
     (case predicate out of
        Inl e \<Rightarrow> (Inl e, w, outs)
      | Inr False \<Rightarrow> (Inr out, w, outs)
      | Inr True \<Rightarrow>
          (let w = suspend w
           in case ensure_active repeat_id w of
                Inl e \<Rightarrow> (Inl e, w, outs)
              | Inr _ \<Rightarrow>
                  (case body out (emit (IterationStarted repeat_id (of_nat iteration) limit) w) of
                     (Inl e, w) \<Rightarrow> (Inl e, w, outs)
                   | (Inr out, w) \<Rightarrow> repeat_iterations predicate repeat_id limit body rest out w (outs @ [out]))))"

text \<open>The first iteration is announced when it is over.\<close>

definition repeat_body ::
    "('o \<Rightarrow> workflow_error + bool) \<Rightarrow> ustring \<Rightarrow> u32 \<Rightarrow> ('o \<Rightarrow> 'i) \<Rightarrow> ('i, 'o) step_run \<Rightarrow> bool \<Rightarrow> 'i \<Rightarrow> run_world
       \<Rightarrow> (workflow_error + 'o) \<times> run_world \<times> 'o list" where
  "repeat_body predicate repeat_id limit next_input body held inp w =
     (if limit = 0 then (Inl (BuildError repeat_id (str ''repeat max_iterations must be greater than zero'')), w, [])
      else (case body held inp w of
              (Inl e, w) \<Rightarrow> (Inl e, w, [])
            | (Inr out, w) \<Rightarrow>
                repeat_iterations predicate repeat_id limit (\<lambda>out. body held (next_input out)) [2..<Suc (unat limit)] out
                  (emit (IterationStarted repeat_id 1 limit) w) [out]))"

definition repeat_run ::
    "run_env \<Rightarrow> ('o \<Rightarrow> workflow_error + bool) \<Rightarrow> ustring \<Rightarrow> u32 \<Rightarrow> ('o \<Rightarrow> 'i) \<Rightarrow> ('i, 'o) step_run \<Rightarrow> ('i, 'o) step_run" where
  "repeat_run env predicate repeat_id limit next_input body held inp w =
     (case repeat_body predicate repeat_id limit next_input body held inp (controller_started repeat_id w) of
        (result, w, outs) \<Rightarrow> (result, controller_finished env repeat_id result w))"

fun never_retried :: "workflow_error \<Rightarrow> bool" where
  "never_retried (CancelledError _) = True"
| "never_retried (TimedOutError _ _) = True"
| "never_retried (PanickedError _) = True"
| "never_retried _ = False"

text \<open>The attempts of a retry; the last component, the results of the body in order, is not in the code.\<close>

fun retry_attempts ::
    "run_env \<Rightarrow> ustring \<Rightarrow> retry_policy \<Rightarrow> (run_world \<Rightarrow> (workflow_error + 'o) \<times> run_world) \<Rightarrow> nat list \<Rightarrow> ustring list
       \<Rightarrow> run_world \<Rightarrow> (workflow_error + 'o) list \<Rightarrow> (workflow_error + 'o) \<times> run_world \<times> (workflow_error + 'o) list" where
  "retry_attempts env retry_id policy body [] errors w rs =
     (Inl (RetryExhaustedError retry_id (rp_max_attempts policy) errors), w, rs)"
| "retry_attempts env retry_id policy body (attempt # rest) errors w rs =
     (case ensure_active retry_id w of
        Inl e \<Rightarrow> (Inl e, w, rs)
      | Inr _ \<Rightarrow>
          (case body (emit (RetryAttempt retry_id (of_nat attempt) (rp_max_attempts policy)) w) of
             (Inr out, w) \<Rightarrow> (Inr out, w, rs @ [Inr out])
           | (Inl e, w) \<Rightarrow>
               if never_retried e then (Inl e, w, rs @ [Inl e])
               else
                 (let errors = errors @ [workflow_error_text env e]; rs = rs @ [Inl e]
                  in if attempt < unat (rp_max_attempts policy)
                     then (let w = suspend w
                           in if rp_backoff policy \<noteq> 0 \<and> is_cancelled w
                              then (Inl (CancelledError retry_id), w, rs)
                              else retry_attempts env retry_id policy body rest errors w rs)
                     else retry_attempts env retry_id policy body rest errors w rs)))"

definition retry_body ::
    "run_env \<Rightarrow> ustring \<Rightarrow> retry_policy \<Rightarrow> ('i, 'o) step_run \<Rightarrow> bool \<Rightarrow> 'i \<Rightarrow> run_world
       \<Rightarrow> (workflow_error + 'o) \<times> run_world \<times> (workflow_error + 'o) list" where
  "retry_body env retry_id policy body held inp w =
     (if rp_max_attempts policy = 0
      then (Inl (BuildError retry_id (str ''retry max_attempts must be greater than zero'')), w, [])
      else retry_attempts env retry_id policy (body held inp) [1..<Suc (unat (rp_max_attempts policy))] [] w [])"

definition retry_run :: "run_env \<Rightarrow> ustring \<Rightarrow> retry_policy \<Rightarrow> ('i, 'o) step_run \<Rightarrow> ('i, 'o) step_run" where
  "retry_run env retry_id policy body held inp w =
     (case retry_body env retry_id policy body held inp (controller_started retry_id w) of
        (result, w, rs) \<Rightarrow> (result, controller_finished env retry_id result w))"

section \<open>Runs\<close>

definition outcome_of :: "workflow_error + 'a \<Rightarrow> workflow_outcome" where
  "outcome_of result = (case result of
       Inr _ \<Rightarrow> RunSucceeded
     | Inl (CancelledError _) \<Rightarrow> RunCancelled
     | Inl (TimedOutError _ _) \<Rightarrow> RunTimedOut
     | Inl _ \<Rightarrow> RunFailed)"

definition run_checked ::
    "('num, 'o) output_codec \<Rightarrow> ustring \<Rightarrow> ustring \<Rightarrow> ('i, 'o) step_run \<Rightarrow> 'i \<Rightarrow> run_world \<Rightarrow> (workflow_error + 'o) \<times> run_world" where
  "run_checked codec first name run inp w =
     (case ensure_active first w of
        Inl e \<Rightarrow> (Inl e, w)
      | Inr _ \<Rightarrow>
          (case run False inp w of
             (Inl e, w) \<Rightarrow> (Inl e, w)
           | (Inr out, w) \<Rightarrow>
               (case ensure_active name w of
                  Inl e \<Rightarrow> (Inl e, w)
                | Inr _ \<Rightarrow> (case validate_output codec name out of Inl e \<Rightarrow> (Inl e, w) | Inr _ \<Rightarrow> (Inr out, w)))))"

definition run_observed ::
    "('num, 'o) output_codec \<Rightarrow> 'num workflow_definition \<Rightarrow> ('i, 'o) step_run \<Rightarrow> 'i \<Rightarrow> run_world
       \<Rightarrow> (workflow_error + 'o) \<times> run_world" where
  "run_observed codec d run inp w =
     (let first = (case wd_nodes d of [] \<Rightarrow> wd_name d | (first, _) # _ \<Rightarrow> first)
      in case run_checked codec first (wd_name d) run inp w of
           (result, w) \<Rightarrow>
             (let outcome = outcome_of result
              in (result, emit (WorkflowFinished outcome)
                    (w\<lparr>rw_tracker := finish_incomplete outcome (rw_tracker w)\<rparr>))))"

text \<open>The world of a new run.\<close>

definition run_world_new :: "workflow_plan \<Rightarrow> nat \<Rightarrow> nat option \<Rightarrow> bool \<Rightarrow> run_world" where
  "run_world_new plan max_concurrency cancel_at observed =
     \<lparr>rw_now = 0, rw_cancel_at = cancel_at, rw_events = (if observed then Some [] else None),
      rw_tracker = tracker_new (wp_dependencies plan), rw_permits = max_concurrency\<rparr>"

section \<open>What a run leaves in the snapshot\<close>

definition node_state :: "run_world \<Rightarrow> ustring \<Rightarrow> node_run_state option" where
  "node_state w node = bt_get (sn_nodes (tr_snapshot (rw_tracker w))) node"

definition settled_state :: "workflow_error + 'a \<Rightarrow> node_run_state" where
  "settled_state result = (case result of Inr _ \<Rightarrow> NodeSucceeded | Inl e \<Rightarrow> node_state_for_error e)"

lemma bt_get_insert_same: "bt_get (bt_insert k v m) k = Some v"
  by (induction k v m rule: bt_insert.induct) (auto simp: bt_get_def)

lemma node_state_simps [simp]:
  "node_state (transition node state w) node = Some state"
  "node_state (emit event w) n = node_state w n"
  "node_state (drop_permit permit w) n = node_state w n"
  "node_state (suspend w) n = node_state w n"
  by (simp_all add: node_state_def transition_def track_transition_def Let_def bt_get_insert_same emit_def drop_permit_def
      suspend_def)

lemma node_state_finished [simp]:
  "node_state (step_failed env node e w) node = Some (node_state_for_error e)"
  "node_state (controller_finished env node result w) node = Some (settled_state result)"
  by (simp_all add: step_failed_def controller_finished_def settled_state_def split: sum.split)

lemma leaf_settles: "leaf_run env codec step operation held inp w = (result, w') \<Longrightarrow> node_state w' step = Some (settled_state result)"
  by (auto simp: leaf_run_def Let_def ensure_active_def settled_state_def node_state_for_error_def[of "CancelledError _"]
      split: if_splits sum.splits prod.splits)

lemma repeat_settles:
  "repeat_run env predicate node limit next_input body held inp w = (result, w') \<Longrightarrow> node_state w' node = Some (settled_state result)"
  by (auto simp: repeat_run_def split: prod.splits)

lemma retry_settles:
  "retry_run env node policy body held inp w = (result, w') \<Longrightarrow> node_state w' node = Some (settled_state result)"
  by (auto simp: retry_run_def split: prod.splits)

lemma branch_settles:
  assumes "branch_run env predicate node ts fs prior when_true when_false held inp w = (result, w')"
    and "prior held inp w = (Inr m, w1)" and "predicate m = Inr matches"
  shows "node_state w' node = Some (settled_state result)"
  using assms by (auto simp: branch_run_def Let_def split: prod.splits if_splits)

lemma branch_unsettled:
  assumes "prior held inp w = (Inr m, w1)" and "predicate m = Inl e"
  shows "branch_run env predicate node ts fs prior when_true when_false held inp w = (Inl e, controller_started node w1)"
    and "node_state (controller_started node w1) node = Some NodeRunning"
  using assms by (simp_all add: branch_run_def controller_started_def)

section \<open>Nodes that run\<close>

definition running_nodes :: "run_world \<Rightarrow> ustring set" where
  "running_nodes w = sn_running (tr_snapshot (rw_tracker w))"

lemma running_transition [simp]:
  "running_nodes (transition node state w) =
     (if state = NodeRunning then insert node (running_nodes w) else running_nodes w - {node})"
  by (rule set_eqI) (simp add: running_nodes_def transition_def track_transition_sets(3))

lemma running_frame [simp]:
  "running_nodes (emit event w) = running_nodes w" "running_nodes (suspend w) = running_nodes w"
  "running_nodes (drop_permit permit w) = running_nodes w" "running_nodes (w\<lparr>rw_permits := n\<rparr>) = running_nodes w"
  by (simp_all add: running_nodes_def emit_def suspend_def drop_permit_def)

lemma node_state_for_error_settled [simp]: "node_state_for_error e \<noteq> NodeRunning"
  by (cases e) (simp_all add: node_state_for_error_def)

lemma running_controllers [simp]:
  "running_nodes (controller_started node w) = insert node (running_nodes w)"
  "running_nodes (step_failed env node e w) = running_nodes w - {node}"
  "running_nodes (controller_finished env node result w) = running_nodes w - {node}"
  by (simp_all add: controller_started_def step_failed_def controller_finished_def split: sum.split)

lemma running_skip: "running_nodes (skip_nodes nodes w) \<subseteq> running_nodes w"
  unfolding skip_nodes_def
proof (induction nodes arbitrary: w)
  case (Cons node nodes)
  from Cons[of "transition node NodeSkipped w"] show ?case by auto
qed simp

text \<open>A step that leaves no node running that was not running before it.\<close>

definition settles :: "('i, 'o) step_run \<Rightarrow> bool" where
  "settles run \<longleftrightarrow> (\<forall>held inp w. running_nodes (snd (run held inp w)) \<subseteq> running_nodes w)"

definition quiet_waits :: "run_env \<Rightarrow> bool" where
  "quiet_waits env \<longleftrightarrow> (\<forall>w. running_nodes (snd (re_wait_permit env w)) \<subseteq> running_nodes w)"

lemma settlesD: "settles run \<Longrightarrow> run held inp w = (result, w') \<Longrightarrow> n \<in> running_nodes w' \<Longrightarrow> n \<in> running_nodes w"
  unfolding settles_def by (metis snd_conv subsetD)

lemma waitsD: "quiet_waits env \<Longrightarrow> re_wait_permit env w = (b, w') \<Longrightarrow> n \<in> running_nodes w' \<Longrightarrow> n \<in> running_nodes w"
  unfolding quiet_waits_def by (metis snd_conv subsetD)

lemma running_acquire:
  "quiet_waits env \<Longrightarrow> acquire_concurrency env node held w = (r, w') \<Longrightarrow> n \<in> running_nodes w' \<Longrightarrow> n \<in> running_nodes w"
  by (auto simp: acquire_concurrency_def acquire_permit_def dest: waitsD split: if_splits sum.splits prod.splits bool.splits)

lemma leaf_quiet:
  assumes "quiet_waits env" and "\<And>inp w. running_nodes (snd (operation inp w)) \<subseteq> running_nodes w"
  shows "settles (leaf_run env codec step operation)"
proof -
  have op: "n \<in> running_nodes w" if "operation inp w = (r, w')" "n \<in> running_nodes w'" for inp w r w' n
    using assms(2)[of inp w] that by auto
  show ?thesis
    unfolding settles_def leaf_run_def Let_def
    by (auto split: sum.splits prod.splits dest!: running_acquire[OF assms(1)] op)
qed

lemma then_quiet: "settles first \<Longrightarrow> settles second \<Longrightarrow> settles (then_run first second)"
  unfolding settles_def then_run_def by (auto split: sum.splits prod.splits; metis snd_conv subsetD)

lemma branch_quiet:
  assumes "\<And>m. \<exists>matches. predicate m = Inr matches" and "settles prior" "settles when_true" "settles when_false"
  shows "settles (branch_run env predicate node true_nodes false_nodes prior when_true when_false)"
proof -
  have "n \<in> running_nodes w" if "n \<in> running_nodes (snd (branch_run env predicate node true_nodes false_nodes prior
      when_true when_false held inp w))" for n held inp w
  proof (cases "prior held inp w")
    case (Pair r w1)
    show ?thesis
    proof (cases r)
      case (Inl e)
      with Pair that settlesD[OF assms(2) Pair] show ?thesis by (simp add: branch_run_def)
    next
      case (Inr m)
      obtain matches where "predicate m = Inr matches" using assms(1) by blast
      with that Pair Inr have "n \<in> running_nodes w1"
        using settlesD[OF assms(3)] settlesD[OF assms(4)] running_skip
        by (fastforce simp: branch_run_def Let_def split: prod.splits if_splits)
      with settlesD[OF assms(2) Pair] show ?thesis by blast
    qed
  qed
  then show ?thesis unfolding settles_def by blast
qed

lemma repeat_iterations_quiet:
  "repeat_iterations predicate node limit body its out w outs = (r, w', outs') \<Longrightarrow>
     (\<And>out w. running_nodes (snd (body out w)) \<subseteq> running_nodes w) \<Longrightarrow> running_nodes w' \<subseteq> running_nodes w"
proof (induction predicate node limit body its out w outs rule: repeat_iterations.induct)
  case (2 predicate node limit body it its out w outs)
  show ?case
  proof (cases "predicate out = Inr True \<and> ensure_active node (suspend w) = Inr ()")
    case True
    obtain r1 w1 where b: "body out (emit (IterationStarted node (of_nat it) limit) (suspend w)) = (r1, w1)" by fastforce
    with 2(3)[of out "emit (IterationStarted node (of_nat it) limit) (suspend w)"] have sub: "running_nodes w1 \<subseteq> running_nodes w"
      by simp
    show ?thesis
    proof (cases r1)
      case (Inr out')
      with 2(2) True b have "repeat_iterations predicate node limit body its out' w1 (outs @ [out']) = (r, w', outs')"
        by (simp add: Let_def)
      with 2(1)[OF conjunct1[OF True] refl refl conjunct2[OF True] b[symmetric] Inr] 2(3) sub show ?thesis by blast
    qed (use 2(2) True b sub in \<open>simp add: Let_def\<close>)
  next
    case False
    with 2(2) show ?thesis by (auto simp: Let_def split: sum.splits bool.splits)
  qed
qed (auto split: sum.splits bool.splits)

lemma repeat_quiet:
  assumes "settles body"
  shows "settles (repeat_run env predicate node limit next_input body)"
proof -
  have step: "\<And>held out w. running_nodes (snd (body held (next_input out) w)) \<subseteq> running_nodes w"
    using assms by (auto simp: settles_def)
  have inner: "n \<in> running_nodes w" if r: "repeat_body predicate node limit next_input body held inp w = (r, w', outs)"
    and n: "n \<in> running_nodes w'" for held inp w r w' outs n
  proof (cases "limit = 0")
    case False
    obtain r1 w1 where b: "body held inp w = (r1, w1)" by fastforce
    have "n \<in> running_nodes w1"
    proof (cases r1)
      case (Inr out)
      with r False b have "repeat_iterations predicate node limit (\<lambda>out. body held (next_input out)) [2..<Suc (unat limit)] out
          (emit (IterationStarted node 1 limit) w1) [out] = (r, w', outs)" by (simp add: repeat_body_def)
      from repeat_iterations_quiet[OF this step] n show ?thesis by auto
    qed (use r n False b in \<open>simp add: repeat_body_def\<close>)
    with settlesD[OF assms b] show ?thesis .
  qed (use r n in \<open>simp add: repeat_body_def\<close>)
  show ?thesis
    unfolding settles_def repeat_run_def by (auto split: prod.splits dest!: inner)
qed

lemma retry_attempts_quiet:
  assumes body: "\<And>w. running_nodes (snd (body w)) \<subseteq> running_nodes w"
  shows "retry_attempts env node policy body its errors w rs = (r, w', rs') \<Longrightarrow> running_nodes w' \<subseteq> running_nodes w"
proof (induction its arbitrary: errors w rs)
  case (Cons it its)
  obtain r1 w1 where b: "body (emit (RetryAttempt node (of_nat it) (rp_max_attempts policy)) w) = (r1, w1)" by fastforce
  with body[of "emit (RetryAttempt node (of_nat it) (rp_max_attempts policy)) w"]
  have sub: "running_nodes w1 \<subseteq> running_nodes w" by simp
  have rest: "running_nodes w' \<subseteq> running_nodes w"
    if "retry_attempts env node policy body its errors' w2 rs2 = (r, w', rs')" "running_nodes w2 = running_nodes w1"
    for errors' w2 rs2
    using Cons.IH[OF that(1)] that(2) sub by simp
  show ?case
  proof (cases "ensure_active node w")
    case (Inr u)
    show ?thesis
    proof (cases r1)
      case (Inl e)
      with Cons.prems Inr b sub rest show ?thesis by (auto simp: Let_def split: if_splits)
    qed (use Cons.prems Inr b sub in simp)
  qed (use Cons.prems in simp)
qed simp

lemma retry_quiet:
  assumes "settles body"
  shows "settles (retry_run env node policy body)"
proof -
  have step: "\<And>held inp w. running_nodes (snd (body held inp w)) \<subseteq> running_nodes w"
    using assms by (auto simp: settles_def)
  have inner: "n \<in> running_nodes w" if "retry_body env node policy body held inp w = (r, w', rs)"
    "n \<in> running_nodes w'" for held inp w r w' rs n
    using that retry_attempts_quiet[OF step]
    by (fastforce simp: retry_body_def split: if_splits simp del: upt_Suc)
  show ?thesis
    unfolding settles_def retry_run_def by (auto split: prod.splits dest!: inner)
qed

text \<open>
  The steps that the combinators build, over one type of values. Only a predicate of a branch is
  asked never to fail.
\<close>

inductive composed :: "run_env \<Rightarrow> ('num, 'v) output_codec \<Rightarrow> ('v, 'v) step_run \<Rightarrow> bool"
  for env :: run_env and codec :: "('num, 'v) output_codec" where
  composed_leaf: "(\<And>inp w. running_nodes (snd (operation inp w)) \<subseteq> running_nodes w) \<Longrightarrow>
    composed env codec (leaf_run env codec step operation)"
| composed_then: "composed env codec first \<Longrightarrow> composed env codec second \<Longrightarrow> composed env codec (then_run first second)"
| composed_branch: "(\<And>m. \<exists>matches. predicate m = Inr matches) \<Longrightarrow> composed env codec prior \<Longrightarrow>
    composed env codec when_true \<Longrightarrow> composed env codec when_false \<Longrightarrow>
    composed env codec (branch_run env predicate node true_nodes false_nodes prior when_true when_false)"
| composed_repeat: "composed env codec body \<Longrightarrow> composed env codec (repeat_run env predicate node limit next_input body)"
| composed_retry: "composed env codec body \<Longrightarrow> composed env codec (retry_run env node policy body)"

lemma composed_settles: "composed env codec run \<Longrightarrow> quiet_waits env \<Longrightarrow> settles run"
  by (induction rule: composed.induct) (auto intro: leaf_quiet then_quiet branch_quiet repeat_quiet retry_quiet)

section \<open>Repeats and retries\<close>

lemma repeat_iterations_outputs:
  "repeat_iterations predicate node limit body its out w outs = (result, w', outs') \<Longrightarrow>
     outs \<noteq> [] \<Longrightarrow> last outs = out \<Longrightarrow> \<forall>o' \<in> set (butlast outs). predicate o' = Inr True \<Longrightarrow>
     length outs' \<le> length outs + length its \<and> outs' \<noteq> [] \<and> (\<forall>o' \<in> set (butlast outs'). predicate o' = Inr True) \<and>
     (\<forall>o'. result = Inr o' \<longrightarrow> last outs' = o' \<and> predicate o' = Inr False)"
proof (induction predicate node limit body its out w outs rule: repeat_iterations.induct)
  case (1 predicate node limit body out w outs)
  then show ?case by (auto split: sum.splits bool.splits)
next
  case (2 predicate node limit body it its out w outs)
  show ?case
  proof (cases "\<exists>out' w1. predicate out = Inr True \<and> ensure_active node (suspend w) = Inr () \<and>
      body out (emit (IterationStarted node (of_nat it) limit) (suspend w)) = (Inr out', w1)")
    case True
    then obtain out' w1 where t: "predicate out = Inr True" "ensure_active node (suspend w) = Inr ()"
      "body out (emit (IterationStarted node (of_nat it) limit) (suspend w)) = (Inr out', w1)" by blast
    have r: "repeat_iterations predicate node limit body its out' w1 (outs @ [out']) = (result, w', outs')"
      using 2(2) t by (simp add: Let_def)
    have b: "\<forall>o' \<in> set (butlast (outs @ [out'])). predicate o' = Inr True"
    proof -
      obtain pre where "outs = pre @ [out]" using 2(3,4) by (metis append_butlast_last_id)
      with 2(5) t(1) show ?thesis by (simp add: butlast_append)
    qed
    have "outs @ [out'] \<noteq> []" "last (outs @ [out']) = out'" by simp_all
    from 2(1)[OF t(1) refl refl t(2) t(3)[symmetric] refl r this b] show ?thesis by simp
  next
    case False
    with 2(2-5) show ?thesis by (auto simp: Let_def split: sum.splits bool.splits prod.splits)
  qed
qed

lemma repeat_body_outputs:
  assumes "repeat_body predicate node limit next_input body held inp w = (result, w', outs)"
  shows "length outs \<le> unat limit \<and> (\<forall>o' \<in> set (butlast outs). predicate o' = Inr True) \<and>
     (\<forall>o'. result = Inr o' \<longrightarrow> outs \<noteq> [] \<and> last outs = o' \<and> predicate o' = Inr False)"
proof (cases "limit = 0")
  case False
  then have l: "1 \<le> unat limit" by (simp add: unat_gt_0 Suc_le_eq)
  show ?thesis
  proof (cases "body held inp w")
    case (Pair r w1)
    show ?thesis
    proof (cases r)
      case (Inr out)
      with assms False Pair have "repeat_iterations predicate node limit (\<lambda>out. body held (next_input out)) [2..<Suc (unat limit)] out
          (emit (IterationStarted node 1 limit) w1) [out] = (result, w', outs)" by (simp add: repeat_body_def)
      from repeat_iterations_outputs[OF this] l show ?thesis by (auto simp del: upt_Suc)
    qed (use assms False Pair in \<open>auto simp: repeat_body_def\<close>)
  qed
qed (use assms in \<open>auto simp: repeat_body_def\<close>)

definition retryable :: "workflow_error + 'o \<Rightarrow> bool" where
  "retryable r \<longleftrightarrow> (\<exists>e. r = Inl e \<and> \<not> never_retried e)"

definition error_texts :: "run_env \<Rightarrow> (workflow_error + 'o) list \<Rightarrow> ustring list" where
  "error_texts env rs = map (\<lambda>r. case r of Inl e \<Rightarrow> workflow_error_text env e | Inr _ \<Rightarrow> []) rs"

text \<open>How the result of a retry follows from the results of its attempts.\<close>

definition retry_result ::
    "run_env \<Rightarrow> ustring \<Rightarrow> retry_policy \<Rightarrow> (workflow_error + 'o) list \<Rightarrow> workflow_error + 'o \<Rightarrow> bool" where
  "retry_result env node policy rs result \<longleftrightarrow>
     (rs \<noteq> [] \<and> result = last rs \<and> \<not> retryable (last rs) \<and> list_all retryable (butlast rs)) \<or>
     (result = Inl (CancelledError node) \<and> list_all retryable rs) \<or>
     (result = Inl (RetryExhaustedError node (rp_max_attempts policy) (error_texts env rs)) \<and>
      length rs = unat (rp_max_attempts policy) \<and> list_all retryable rs)"

lemma error_texts_simps [simp]:
  "error_texts env [] = []" "error_texts env (rs @ [Inl e]) = error_texts env rs @ [workflow_error_text env e]"
  by (simp_all add: error_texts_def)

lemma retry_attempts_result:
  "retry_attempts env node policy body [k..<Suc (unat (rp_max_attempts policy))] (error_texts env rs) w rs = (result, w', rs') \<Longrightarrow>
     list_all retryable rs \<Longrightarrow> length rs + 1 = k \<Longrightarrow> k \<le> Suc (unat (rp_max_attempts policy)) \<Longrightarrow>
     length rs' \<le> unat (rp_max_attempts policy) \<and> retry_result env node policy rs' result"
proof (induction "Suc (unat (rp_max_attempts policy)) - k" arbitrary: k w rs)
  case 0
  then show ?case by (auto simp: retry_result_def)
next
  case (Suc d)
  let ?n = "unat (rp_max_attempts policy)"
  from Suc(2) have k: "k \<le> ?n" and up: "[k..<Suc ?n] = k # [Suc k..<Suc ?n]" by (simp_all add: upt_conv_Cons del: upt_Suc)
  show ?case
  proof (cases "ensure_active node w")
    case (Inl e)
    with Suc(3-5) up k show ?thesis
      by (auto simp: retry_result_def ensure_active_def split: if_splits simp del: upt_Suc)
  next
    case (Inr u)
    obtain r w1 where b: "body (emit (RetryAttempt node (of_nat k) (rp_max_attempts policy)) w) = (r, w1)" by fastforce
    show ?thesis
    proof (cases "retryable r")
      case False
      with Suc(3-5) up k Inr b show ?thesis
        by (cases r) (auto simp: retry_result_def retryable_def Let_def simp del: upt_Suc)
    next
      case True
      then obtain e where r: "r = Inl e" "\<not> never_retried e" by (auto simp: retryable_def)
      have rs: "list_all retryable (rs @ [Inl e])" using Suc(4) r by (simp add: retryable_def)
      show ?thesis
      proof (cases "k < ?n \<and> rp_backoff policy \<noteq> 0 \<and> is_cancelled (suspend w1)")
        case True
        with Suc(3,5) up Inr b r rs show ?thesis
          by (auto simp: retry_result_def Let_def simp del: upt_Suc)
      next
        case False
        then obtain w2 where "retry_attempts env node policy body [Suc k..<Suc ?n] (error_texts env (rs @ [Inl e])) w2
            (rs @ [Inl e]) = (result, w', rs')"
          using Suc(3) up Inr b r by (auto simp: Let_def simp del: upt_Suc split: if_splits)
        from Suc(1)[OF _ this rs] Suc(2,5) k show ?thesis by simp
      qed
    qed
  qed
qed

lemma retry_body_result:
  assumes "retry_body env node policy body held inp w = (result, w', rs)" and "rp_max_attempts policy \<noteq> 0"
  shows "length rs \<le> unat (rp_max_attempts policy) \<and> retry_result env node policy rs result"
  using retry_attempts_result[of env node policy "body held inp" 1 "[]" w result w' rs] assms
  by (simp add: retry_body_def del: upt_Suc)

end
