(* ===== verification/Workflow_Fan_Out.thy ===== *)
theory Workflow_Fan_Out
  imports Workflow_Run
begin

text \<open>
  The concurrent execution of a fan-out (\<open>fan_out\<close> of \<open>packages/workflow/src/lib.rs\<close>): members are
  primed up to the concurrency bound, and each completion admits the next input. Which member
  completes next, and whether cancellation is seen at a check, is the input of a turn.
\<close>

section \<open>Turns\<close>

record ('i, 'o) fan_state =
  fs_inputs :: "(nat \<times> 'i) list"
  fs_active :: "nat set"
  fs_outputs :: "(nat, 'o) btree"

text \<open>
  Priming: the slots in quanta of 128, with a check of the token before each quantum. The result
  are the inputs left and the members started.
\<close>

fun fan_prime :: "ustring \<Rightarrow> (nat \<Rightarrow> bool) \<Rightarrow> nat \<Rightarrow> nat \<Rightarrow> (nat \<times> 'i) list \<Rightarrow> nat set \<Rightarrow> workflow_error + (nat \<times> 'i) list \<times> nat set" where
  "fan_prime fan_out_id cancelled slot max_concurrency inputs active =
     (if slot \<ge> max_concurrency then Inr (inputs, active)
      else if slot mod 128 = 0 \<and> cancelled slot then Inl (CancelledError fan_out_id)
      else (case inputs of
              [] \<Rightarrow> Inr ([], active)
            | (index, x) # rest \<Rightarrow> fan_prime fan_out_id cancelled (slot + 1) max_concurrency rest (insert index active)))"

declare fan_prime.simps [simp del]

text \<open>
  One turn of the loop: cancellation wins the \<open>select!\<close>, or a member has completed (\<open>None\<close>: there
  is none left). The flags say whether the checks after it see the token cancelled; a result of
  \<open>None\<close> is a panic of the member.
\<close>

datatype 'o fan_turn =
    CancelWins
  | TurnReady bool "(nat \<times> (workflow_error + 'o) option) option" bool

definition fan_completed ::
    "ustring \<Rightarrow> nat \<Rightarrow> 'o \<Rightarrow> bool \<Rightarrow> ('i, 'o) fan_state \<Rightarrow> (workflow_error + 'o list) + ('i, 'o) fan_state" where
  "fan_completed fan_out_id index out cancelled st =
     (let outputs = bt_insert index out (fs_outputs st);
          st = st\<lparr>fs_outputs := outputs, fs_active := fs_active st - {index}\<rparr>
      in if length outputs mod 128 = 0 \<and> cancelled then Inl (Inl (CancelledError fan_out_id))
         else (case fs_inputs st of
                 [] \<Rightarrow> Inr st
               | (next_index, x) # rest \<Rightarrow> Inr (st\<lparr>fs_inputs := rest, fs_active := insert next_index (fs_active st)\<rparr>)))"

definition fan_turn ::
    "ustring \<Rightarrow> 'o fan_turn \<Rightarrow> ('i, 'o) fan_state \<Rightarrow> (workflow_error + 'o list) + ('i, 'o) fan_state" where
  "fan_turn fan_out_id turn st =
     (case turn of
        CancelWins \<Rightarrow> Inl (Inl (CancelledError fan_out_id))
      | TurnReady cancelled result checked \<Rightarrow>
          if cancelled then Inl (Inl (CancelledError fan_out_id))
          else (case result of
                  None \<Rightarrow> Inl (Inr (map snd (fs_outputs st)))
                | Some (index, None) \<Rightarrow> Inl (Inl (PanickedError fan_out_id))
                | Some (index, Some (Inl e)) \<Rightarrow> Inl (Inl e)
                | Some (index, Some (Inr out)) \<Rightarrow> fan_completed fan_out_id index out checked st))"

definition fan_start ::
    "ustring \<Rightarrow> (nat \<Rightarrow> bool) \<Rightarrow> nat \<Rightarrow> 'i list \<Rightarrow> (workflow_error + 'o list) + ('i, 'o) fan_state" where
  "fan_start fan_out_id cancelled max_concurrency inputs =
     (if max_concurrency = 0
      then Inl (Inl (BuildError fan_out_id (str ''fan_out max_concurrency must be greater than zero'')))
      else (case fan_prime fan_out_id cancelled 0 max_concurrency (enumerate 0 inputs) {} of
              Inl e \<Rightarrow> Inl (Inl e)
            | Inr (rest, active) \<Rightarrow> Inr \<lparr>fs_inputs = rest, fs_active = active, fs_outputs = []\<rparr>))"

text \<open>
  What a turn may report: a member that is active, with the result of its step, or none when none is
  active.
\<close>

definition possible_turn ::
    "(nat \<Rightarrow> 'i \<Rightarrow> (workflow_error + 'o) option) \<Rightarrow> 'i list \<Rightarrow> ('i, 'o) fan_state \<Rightarrow> 'o fan_turn \<Rightarrow> bool" where
  "possible_turn member inputs st turn \<longleftrightarrow>
     (case turn of
        CancelWins \<Rightarrow> True
      | TurnReady _ None _ \<Rightarrow> fs_active st = {}
      | TurnReady _ (Some (index, r)) _ \<Rightarrow> index \<in> fs_active st \<and> r = member index (inputs ! index))"

inductive fan_reaches ::
    "ustring \<Rightarrow> (nat \<Rightarrow> 'i \<Rightarrow> (workflow_error + 'o) option) \<Rightarrow> nat \<Rightarrow> 'i list \<Rightarrow> nat
       \<Rightarrow> (workflow_error + 'o list) + ('i, 'o) fan_state \<Rightarrow> bool"
  for fan_out_id member max_concurrency inputs where
  fan_init: "fan_reaches fan_out_id member max_concurrency inputs 0 (fan_start fan_out_id cancelled max_concurrency inputs)"
| fan_next: "fan_reaches fan_out_id member max_concurrency inputs n (Inr st) \<Longrightarrow> possible_turn member inputs st turn \<Longrightarrow>
    fan_reaches fan_out_id member max_concurrency inputs (Suc n) (fan_turn fan_out_id turn st)"

section \<open>Invariant\<close>

definition fan_inv ::
    "(nat \<Rightarrow> 'i \<Rightarrow> (workflow_error + 'o) option) \<Rightarrow> nat \<Rightarrow> 'i list \<Rightarrow> nat \<Rightarrow> ('i, 'o) fan_state \<Rightarrow> bool" where
  "fan_inv member limit inputs n st \<longleftrightarrow> btree_ok (fs_outputs st) \<and> length (fs_outputs st) = n \<and>
     finite (fs_active st) \<and> 0 < limit \<and> card (fs_active st) \<le> limit \<and> fs_active st \<inter> fst ` set (fs_outputs st) = {} \<and>
     (\<exists>k \<le> length inputs. fs_inputs st = enumerate k (drop k inputs) \<and> fs_active st \<union> fst ` set (fs_outputs st) = {..<k} \<and>
        (k < length inputs \<longrightarrow> card (fs_active st) = limit)) \<and>
     (\<forall>(i, out) \<in> set (fs_outputs st). member i (inputs ! i) = Some (Inr out))"

lemma fan_prime_inv:
  "fan_prime fan_out_id cancelled slot limit (enumerate slot (drop slot inputs)) {..<slot} = Inr (rest, active) \<Longrightarrow>
     slot \<le> limit \<Longrightarrow> slot \<le> length inputs \<Longrightarrow>
     \<exists>k. k = min limit (length inputs) \<and> rest = enumerate k (drop k inputs) \<and> active = {..<k}"
proof (induction "limit - slot" arbitrary: slot)
  case 0
  then show ?case by (auto simp: fan_prime.simps min_def)
next
  case (Suc d)
  then have s: "slot < limit" by simp
  show ?case
  proof (cases "slot < length inputs")
    case True
    then have d: "drop slot inputs = inputs ! slot # drop (Suc slot) inputs" by (simp add: Cons_nth_drop_Suc)
    have a: "insert slot {..<slot} = {..<Suc slot}" by auto
    from Suc(3) s have "fan_prime fan_out_id cancelled (Suc slot) limit (enumerate (Suc slot) (drop (Suc slot) inputs)) {..<Suc slot}
        = Inr (rest, active)"
      unfolding d by (subst (asm) fan_prime.simps) (simp add: a split: if_splits)
    from Suc(1)[OF _ this] Suc(2) s True show ?thesis by simp
  next
    case False
    with Suc(3-5) s show ?thesis by (subst (asm) fan_prime.simps) (auto simp: min_def split: if_splits)
  qed
qed

lemma set_bt_insert_fresh: "btree_ok m \<Longrightarrow> k \<notin> fst ` set m \<Longrightarrow> set (bt_insert k v m) = insert (k, v) (set m)"
  by (induction k v m rule: bt_insert.induct) (auto simp: btree_ok_def)

lemma length_bt_insert_fresh: "btree_ok m \<Longrightarrow> k \<notin> fst ` set m \<Longrightarrow> length (bt_insert k v m) = Suc (length m)"
  by (induction k v m rule: bt_insert.induct) (auto simp: btree_ok_def)

lemma fan_completed_inv:
  assumes inv: "fan_inv member limit inputs n st" and i: "index \<in> fs_active st"
    and m: "member index (inputs ! index) = Some (Inr out)" and c: "fan_completed fan_out_id index out cancelled st = Inr st'"
  shows "fan_inv member limit inputs (Suc n) st'"
proof -
  note inv = inv[unfolded fan_inv_def]
  from inv obtain k where k: "k \<le> length inputs" "fs_inputs st = enumerate k (drop k inputs)"
    "fs_active st \<union> fst ` set (fs_outputs st) = {..<k}" "k < length inputs \<longrightarrow> card (fs_active st) = limit" by blast
  have fresh: "index \<notin> fst ` set (fs_outputs st)" using inv i by blast
  let ?outputs = "bt_insert index out (fs_outputs st)" and ?active = "fs_active st - {index}"
  have o: "btree_ok ?outputs" "length ?outputs = Suc n" "set ?outputs = insert (index, out) (set (fs_outputs st))"
    using inv fresh by (simp_all add: bt_insert_ok length_bt_insert_fresh set_bt_insert_fresh)
  have all: "\<forall>(j, x) \<in> set ?outputs. member j (inputs ! j) = Some (Inr x)" using inv m o(3) by auto
  have un: "?active \<union> fst ` set ?outputs = {..<k}" using k(3) i o(3) by auto
  have disj: "?active \<inter> fst ` set ?outputs = {}" using inv o(3) by auto
  have "finite (fs_active st)" using inv by blast
  from card.remove[OF this i] have card: "card ?active + 1 = card (fs_active st)" by simp
  show ?thesis
  proof (cases "k < length inputs")
    case False
    then have "st' = st\<lparr>fs_outputs := ?outputs, fs_active := ?active\<rparr>"
      using c k by (auto simp: fan_completed_def Let_def split: if_splits)
    moreover have "card ?active \<le> limit" "finite ?active" "0 < limit" using card inv by simp_all
    moreover have "fs_inputs st = enumerate k (drop k inputs)" by (rule k(2))
    ultimately show ?thesis using o(1,2) all un disj k(1) False unfolding fan_inv_def
      by (intro conjI exI[of _ k]) simp_all
  next
    case True
    then have "st' = st\<lparr>fs_outputs := ?outputs, fs_active := insert k ?active, fs_inputs := enumerate (Suc k) (drop (Suc k) inputs)\<rparr>"
    proof -
      have "fs_inputs st = (k, inputs ! k) # enumerate (Suc k) (drop (Suc k) inputs)"
        using k(2) True by (metis Cons_nth_drop_Suc enumerate_simps(2))
      with c show ?thesis by (auto simp: fan_completed_def Let_def split: if_splits)
    qed
    moreover have "k \<notin> ?active \<union> fst ` set ?outputs" unfolding un by simp
    then have fresh': "k \<notin> ?active" "k \<notin> fst ` set ?outputs" by (metis UnI1, metis UnI2)
    moreover have "insert k ?active \<union> fst ` set ?outputs = {..<Suc k}"
      unfolding lessThan_Suc un[symmetric] by simp
    moreover have "card (insert k ?active) = limit"
      using fresh'(1) card k(4) True \<open>finite (fs_active st)\<close> by simp
    moreover have "finite (insert k ?active)" "0 < limit" using inv by simp_all
    moreover have "insert k ?active \<inter> fst ` set ?outputs = {}" using disj fresh'(2) by simp
    ultimately show ?thesis using o(1,2) all True unfolding fan_inv_def
      by (intro conjI exI[of _ "Suc k"]) simp_all
  qed
qed

lemma fan_reaches_inv:
  "fan_reaches fan_out_id member limit inputs n r \<Longrightarrow> r = Inr st \<Longrightarrow> fan_inv member limit inputs n st"
proof (induction arbitrary: st rule: fan_reaches.induct)
  case (fan_init cancelled)
  then obtain rest active where p: "fan_prime fan_out_id cancelled 0 limit (enumerate 0 (drop 0 inputs)) {..<0} = Inr (rest, active)"
    and st: "st = \<lparr>fs_inputs = rest, fs_active = active, fs_outputs = []\<rparr>" and "0 < limit"
    by (auto simp: fan_start_def split: sum.splits if_splits)
  with fan_prime_inv[OF p] show ?case
    by (auto simp: fan_inv_def intro!: exI[of _ "min limit (length inputs)"])
next
  case (fan_next n st' turn)
  then obtain index out checked where turn: "turn = TurnReady False (Some (index, Some (Inr out))) checked"
    and c: "fan_completed fan_out_id index out checked st' = Inr st"
    by (auto simp: fan_turn_def split: fan_turn.splits option.splits sum.splits if_splits)
  from fan_next(2) turn have "index \<in> fs_active st'" "member index (inputs ! index) = Some (Inr out)"
    by (auto simp: possible_turn_def)
  from fan_completed_inv[OF fan_next(3)[OF refl] this c] show ?case .
qed

text \<open>At most the bound of members run at a time, and there are no more turns than members.\<close>

lemma fan_out_bounded:
  assumes "fan_reaches fan_out_id member limit inputs n (Inr st)"
  shows "card (fs_active st) \<le> limit" and "n + card (fs_active st) \<le> length inputs"
proof -
  note inv = fan_reaches_inv[OF assms refl, unfolded fan_inv_def]
  show "card (fs_active st) \<le> limit" using inv by blast
  from inv obtain k where k: "k \<le> length inputs" "fs_active st \<union> fst ` set (fs_outputs st) = {..<k}" by blast
  have "card (fst ` set (fs_outputs st)) = n"
    using inv btree_ok_distinct distinct_card[of "map fst (fs_outputs st)"] by auto
  then have "card {..<k} = card (fs_active st) + n"
    using inv k(2) by (metis card_Un_disjoint finite_imageI finite_set)
  with k(1) show "n + card (fs_active st) \<le> length inputs" by simp
qed

text \<open>The outputs are those of all members, in the order of their inputs.\<close>

lemma sorted_keys_upto:
  assumes "btree_ok m" and "fst ` set m = {..<k}"
  shows "map fst m = [0..<k]"
proof -
  have "sorted (map fst m)" "distinct (map fst m)" using assms(1) by (simp_all add: btree_ok_def strict_sorted_iff)
  moreover have "set (map fst m) = set [0..<k]" using assms(2) by auto
  ultimately show ?thesis by (metis sorted_distinct_set_unique sorted_upt distinct_upt)
qed

lemma fan_turn_returns:
  "fan_turn fan_out_id turn st = Inl (Inr outs) \<Longrightarrow> (\<exists>checked. turn = TurnReady False None checked) \<and> outs = map snd (fs_outputs st)"
  by (cases turn) (auto simp: fan_turn_def fan_completed_def Let_def split: option.splits sum.splits if_splits list.splits)

lemma fan_out_order:
  assumes "fan_reaches fan_out_id member limit inputs n (Inl (Inr outs))"
  shows "length outs = length inputs" and "i < length inputs \<Longrightarrow> member i (inputs ! i) = Some (Inr (outs ! i))"
proof -
  from assms have "length outs = length inputs \<and> (\<forall>i < length inputs. member i (inputs ! i) = Some (Inr (outs ! i)))"
  proof cases
    case (fan_init cancelled)
    then show ?thesis by (auto simp: fan_start_def split: sum.splits if_splits)
  next
    case (fan_next m st turn)
    from fan_turn_returns[OF fan_next(2)[symmetric]] have outs: "outs = map snd (fs_outputs st)" by blast
    from fan_turn_returns[OF fan_next(2)[symmetric]] fan_next(4) have none: "fs_active st = {}"
      by (auto simp: possible_turn_def)
    note inv = fan_reaches_inv[OF fan_next(3) refl, unfolded fan_inv_def]
    from inv obtain k where k: "k \<le> length inputs" "fst ` set (fs_outputs st) = {..<k}"
      "k < length inputs \<longrightarrow> card (fs_active st) = limit" using none by auto
    have limit: "0 < limit" using inv by blast
    have ok: "btree_ok (fs_outputs st)" using inv by blast
    have "k = length inputs" using k(1,3) limit none by (cases "k < length inputs") simp_all
    with sorted_keys_upto[OF ok k(2)] have keys: "map fst (fs_outputs st) = [0..<length inputs]" by simp
    then have len: "length (fs_outputs st) = length inputs" by (metis length_map length_upt diff_zero)
    have "member i (inputs ! i) = Some (Inr (outs ! i))" if i: "i < length inputs" for i
    proof -
      have "fs_outputs st ! i = (i, outs ! i)"
        using keys len i outs by (metis nth_map nth_upt add_0 prod.collapse)
      then have "(i, outs ! i) \<in> set (fs_outputs st)" using i len by (metis nth_mem)
      with inv show ?thesis by blast
    qed
    with len outs show ?thesis by simp
  qed
  then show "length outs = length inputs" and "i < length inputs \<Longrightarrow> member i (inputs ! i) = Some (Inr (outs ! i))" by auto
qed

end
