(* ===== verification/Workflow_Packages.thy ===== *)
theory Workflow_Packages
  imports Workflow_Values Workflow_Cycles
begin

text \<open>
  The dependency graph of a workflow package (\<open>packages/workflow/src/lib.rs\<close>,
  \<open>package_compilation.rs\<close>): the check that member dependencies form a graph without cycles, the
  order in which members are compiled, and the two computations of a member's closure. Members are
  a map by identity; the checkpoints between phases are those that never fail. A panic of an index
  or an \<open>expect\<close> is \<open>None\<close>.
\<close>

section \<open>Members\<close>

record package_member =
  pm_member_id :: ustring
  pm_source_name :: ustring
  pm_source :: ustring
  pm_dependencies :: "ustring list"
  pm_external_dependencies :: "ustring list"

type_synonym package_members = "(ustring, package_member) btree"

definition member_map :: "package_member list \<Rightarrow> package_members" where
  "member_map ms = bt_from (map (\<lambda>m. (pm_member_id m, m)) ms)"

definition MAX_WORKFLOW_PACKAGE_DEPTH :: nat where "MAX_WORKFLOW_PACKAGE_DEPTH = 8"

definition dependency_error :: "string \<Rightarrow> workflow_error" where
  "dependency_error message = BuildError (str ''package.members.dependencies'') (str message)"

section \<open>Depth-first visits\<close>

text \<open>
  The members that are being visited are a set that every visit leaves as it found it, so it is only
  passed down. The completed members are those of the output.
\<close>

function visit_member ::
    "package_members \<Rightarrow> ustring \<Rightarrow> ustring set \<Rightarrow> ustring list \<Rightarrow> (workflow_error + ustring list) option"
  and visit_dependencies ::
    "package_members \<Rightarrow> ustring list \<Rightarrow> ustring set \<Rightarrow> ustring list \<Rightarrow> (workflow_error + ustring list) option"
where
  "visit_member members i visiting out =
     (if i \<in> set out then Some (Inr out)
      else if i \<in> visiting then Some (Inl (dependency_error ''package dependency graph is cyclic''))
      else (case bt_get members i of
              None \<Rightarrow> None
            | Some m \<Rightarrow>
                (case visit_dependencies members (pm_dependencies m) (insert i visiting) out of
                   Some (Inr out') \<Rightarrow> Some (Inr (out' @ [i]))
                 | r \<Rightarrow> r)))"
| "visit_dependencies members [] visiting out = Some (Inr out)"
| "visit_dependencies members (d # ds) visiting out =
     (case visit_member members d visiting out of
        Some (Inr out') \<Rightarrow> visit_dependencies members ds visiting out'
      | r \<Rightarrow> r)"
  by pat_completeness auto

text \<open>A visit that goes down visits one more of the members.\<close>

lemma bt_get_key: "bt_get m k = Some v \<Longrightarrow> k \<in> fst ` set m"
  by (auto simp: bt_get_def dest!: map_of_SomeD intro: rev_image_eqI)

definition unseen :: "package_members \<Rightarrow> ustring set \<Rightarrow> nat" where
  "unseen members v = card (fst ` set members - v)"

lemma unseen_insert: "k \<in> fst ` set members \<Longrightarrow> k \<notin> v \<Longrightarrow> Suc (unseen members (insert k v)) = unseen members v"
  using card.remove[of "fst ` set members - v" k] unfolding unseen_def
  by (simp add: Diff_insert[symmetric])

lemma unseen_mono: "v \<subseteq> v' \<Longrightarrow> unseen members v' \<le> unseen members v"
  unfolding unseen_def by (rule card_mono) auto

lemma unvisited_less: "bt_get members i = Some m \<Longrightarrow> i \<notin> visiting \<Longrightarrow> unseen members (insert i visiting) < unseen members visiting"
  using unseen_insert[OF bt_get_key] by fastforce

termination visit_member
  by (relation "measures [case_sum (\<lambda>(ms, _, v, _). unseen ms v) (\<lambda>(ms, _, v, _). unseen ms v),
        case_sum (\<lambda>_. 0) (\<lambda>(_, ds, _). Suc (length ds))]")
    (auto simp: unvisited_less)

declare visit_member.simps [simp del]

definition workflow_package_topological_order :: "package_members \<Rightarrow> (workflow_error + ustring list) option" where
  "workflow_package_topological_order members = visit_dependencies members (map fst members) {} []"

function check_member ::
    "package_members \<Rightarrow> ustring \<Rightarrow> ustring set \<Rightarrow> ustring set \<Rightarrow> nat \<Rightarrow> (workflow_error + ustring set) option"
  and check_dependencies ::
    "package_members \<Rightarrow> ustring \<Rightarrow> ustring list \<Rightarrow> ustring set \<Rightarrow> ustring set \<Rightarrow> nat \<Rightarrow> (workflow_error + ustring set) option"
where
  "check_member members i visiting complete depth =
     (if i \<in> complete then Some (Inr complete)
      else if depth > MAX_WORKFLOW_PACKAGE_DEPTH \<or> i \<in> visiting
      then Some (Inl (dependency_error ''package dependency graph is cyclic or exceeds its depth bound''))
      else (case bt_get members i of
              None \<Rightarrow> None
            | Some m \<Rightarrow>
                (case check_dependencies members i (pm_dependencies m) (insert i visiting) complete depth of
                   Some (Inr complete') \<Rightarrow> Some (Inr (insert i complete'))
                 | r \<Rightarrow> r)))"
| "check_dependencies members i [] visiting complete depth = Some (Inr complete)"
| "check_dependencies members i (d # ds) visiting complete depth =
     (if bt_get members d = None
      then Some (Inl (BuildError (str ''package.members.'' @ i @ str ''.dependencies'')
             (str ''dependency references missing member '' @ str [CHR 0x27] @ d @ str [CHR 0x27])))
      else (case check_member members d visiting complete (depth + 1) of
              Some (Inr complete') \<Rightarrow> check_dependencies members i ds visiting complete' depth
            | r \<Rightarrow> r))"
  by pat_completeness auto

termination
  by (relation "measures [case_sum (\<lambda>(ms, _, v, _, _). unseen ms v) (\<lambda>(ms, _, _, v, _, _). unseen ms v),
        case_sum (\<lambda>_. 0) (\<lambda>(_, _, ds, _). Suc (length ds))]")
    (auto simp: unvisited_less)

declare check_member.simps [simp del]

fun check_members :: "package_members \<Rightarrow> ustring list \<Rightarrow> ustring set \<Rightarrow> (workflow_error + unit) option" where
  "check_members members [] complete = Some (Inr ())"
| "check_members members (i # ids) complete =
     (case check_member members i {} complete 1 of
        Some (Inr complete') \<Rightarrow> check_members members ids complete'
      | Some (Inl e) \<Rightarrow> Some (Inl e)
      | None \<Rightarrow> None)"

definition validate_workflow_package_dag :: "package_members \<Rightarrow> (workflow_error + unit) option" where
  "validate_workflow_package_dag members = check_members members (map fst members) {}"

section \<open>Closures\<close>

text \<open>The closure of a package that may be recursive: a stack of pending members, under a budget.\<close>

function collect_pending ::
    "package_members \<Rightarrow> nat \<Rightarrow> ustring list \<Rightarrow> ustring set \<Rightarrow> workflow_error + ustring set" where
  "collect_pending members budget [] visited = Inr visited"
| "collect_pending members budget (i # pending) visited =
     (if i \<in> visited then collect_pending members budget pending visited
      else (case bt_get members i of
              None \<Rightarrow> Inl (dependency_error ''local member is missing'')
            | Some m \<Rightarrow>
                if card visited \<ge> budget then Inl (dependency_error ''local dependency analysis allowance exceeded'')
                else collect_pending members budget (rev (pm_dependencies m) @ pending) (insert i visited)))"
  by pat_completeness auto

termination
  by (relation "measures [\<lambda>(ms, _, _, v). unseen ms v, \<lambda>(_, _, pending, _). length pending]")
    (auto simp: unvisited_less)

definition workflow_package_recursive_closure ::
    "package_member list \<Rightarrow> ustring \<Rightarrow> nat \<Rightarrow> workflow_error + ustring list" where
  "workflow_package_recursive_closure ms root budget =
     (if length (member_map ms) \<noteq> length ms
      then Inl (BuildError (str ''package.members'') (str ''duplicate member identity''))
      else (case collect_pending (member_map ms) budget [root] {} of
              Inl e \<Rightarrow> Inl e
            | Inr visited \<Rightarrow> Inr (sorted_list_of_set (visited - {root}))))"

text \<open>The closure of a package whose dependencies were checked.\<close>

function collect_member :: "package_members \<Rightarrow> ustring \<Rightarrow> ustring set \<Rightarrow> workflow_error + ustring set"
  and collect_dependencies :: "package_members \<Rightarrow> ustring list \<Rightarrow> ustring set \<Rightarrow> workflow_error + ustring set"
where
  "collect_member members i closure =
     (case bt_get members i of
        None \<Rightarrow> Inl (BuildError (str ''package.members.dependencies'')
                  (str ''missing member '' @ str [CHR 0x27] @ i @ str [CHR 0x27]))
      | Some m \<Rightarrow> collect_dependencies members (pm_dependencies m) closure)"
| "collect_dependencies members [] closure = Inr closure"
| "collect_dependencies members (d # ds) closure =
     (if d \<in> closure then collect_dependencies members ds closure
      else (case collect_member members d (insert d closure) of
              Inl e \<Rightarrow> Inl e
            | Inr closure' \<Rightarrow> collect_dependencies members ds closure'))"
  by pat_completeness auto

lemma collect_grows:
  "collect_member_collect_dependencies_dom (Inl (members, i, c)) \<Longrightarrow> collect_member members i c = Inr c' \<Longrightarrow> c \<subseteq> c'"
  "collect_member_collect_dependencies_dom (Inr (members, ds, c)) \<Longrightarrow> collect_dependencies members ds c = Inr c' \<Longrightarrow> c \<subseteq> c'"
proof (induction members i c and members ds c arbitrary: c' and c' rule: collect_member_collect_dependencies.pinduct)
  case (1 members i c)
  then show ?case by (auto simp: collect_member.psimps split: option.splits)
next
  case (3 members d ds c)
  show ?case
  proof (cases "d \<in> c")
    case True
    with 3(1,5) 3(2)[OF True] show ?thesis by (simp add: collect_dependencies.psimps)
  next
    case False
    with 3(1,5) obtain c1 where c1: "collect_member members d (insert d c) = Inr c1" "collect_dependencies members ds c1 = Inr c'"
      by (auto simp: collect_dependencies.psimps split: sum.splits)
    from 3(3)[OF False c1(1)] 3(4)[OF False c1] show ?thesis by blast
  qed
qed (simp add: collect_dependencies.psimps)

text \<open>Every collection either takes a member into the closure or fails on a missing one.\<close>

lemma collect_measure:
  "d \<notin> c \<Longrightarrow> d \<in> fst ` set members \<Longrightarrow> Suc (2 * unseen members (insert d c)) < 2 * unseen members c"
  "d \<notin> c \<Longrightarrow> d \<notin> fst ` set members \<Longrightarrow> unseen members (insert d c) = unseen members c"
  "collect_member_collect_dependencies_dom (Inl (members, i, insert d c)) \<Longrightarrow> collect_member members i (insert d c) = Inr c' \<Longrightarrow>
     unseen members c' < unseen members c \<or> unseen members c' = unseen members c"
  using unseen_insert[of d members c] collect_grows(1)[of members i "insert d c" c'] unseen_mono[of c c' members]
  by (auto simp: unseen_def)

termination collect_member
  by (relation "measures [case_sum (\<lambda>(ms, i, c). 2 * unseen ms c + (if i \<in> fst ` set ms then 1 else 0))
          (\<lambda>(ms, _, c). 2 * unseen ms c),
        case_sum (\<lambda>_. 0) (\<lambda>(_, ds, _). Suc (length ds))]")
    (auto simp: collect_measure bt_get_key)

declare collect_member.simps [simp del]

fun closure_of_all :: "package_members \<Rightarrow> ustring list \<Rightarrow> ustring set \<Rightarrow> workflow_error + ustring set" where
  "closure_of_all members [] closure = Inr closure"
| "closure_of_all members (d # ds) closure =
     (case collect_member members d (insert d closure) of
        Inl e \<Rightarrow> Inl e
      | Inr closure' \<Rightarrow> closure_of_all members ds closure')"

definition workflow_package_member_closure ::
    "package_member \<Rightarrow> package_members \<Rightarrow> workflow_error + ustring list" where
  "workflow_package_member_closure member members =
     (case closure_of_all members (pm_dependencies member) {} of
        Inl e \<Rightarrow> Inl e | Inr closure \<Rightarrow> Inr (sorted_list_of_set closure))"

section \<open>The order of compilation\<close>

text \<open>An edge leads from a dependency to the member that declares it.\<close>

definition dependency_edges :: "package_members \<Rightarrow> edge_list" where
  "dependency_edges members = concat (map (\<lambda>(i, m). map (\<lambda>d. (d, i)) (pm_dependencies m)) members)"

abbreviation edges :: "package_members \<Rightarrow> (ustring \<times> ustring) set" where
  "edges members \<equiv> set (dependency_edges members)"

definition dependencies_known :: "package_members \<Rightarrow> bool" where
  "dependencies_known members \<longleftrightarrow> (\<forall>(d, i) \<in> edges members. d \<in> fst ` set members)"

lemma edges_iff:
  "btree_ok members \<Longrightarrow> (d, i) \<in> edges members \<longleftrightarrow> (\<exists>m. bt_get members i = Some m \<and> d \<in> set (pm_dependencies m))"
  by (auto simp: dependency_edges_def bt_get_def map_of_eq_Some_iff[OF btree_ok_distinct] image_iff split: prod.splits)

lemma known_member: "k \<in> fst ` set members \<longleftrightarrow> (\<exists>m. bt_get members k = Some m)"
  by (metis bt_get_def map_of_eq_None_iff not_None_eq set_map)

lemma known_dependencies:
  assumes "dependencies_known members" and "btree_ok members" and "bt_get members i = Some m"
  shows "set (pm_dependencies m) \<subseteq> fst ` set members"
proof
  fix d
  assume "d \<in> set (pm_dependencies m)"
  with assms(2,3) have "(d, i) \<in> edges members" by (auto simp: edges_iff)
  with assms(1) show "d \<in> fst ` set members" unfolding dependencies_known_def by fast
qed

definition order_inv :: "package_members \<Rightarrow> ustring list \<Rightarrow> bool" where
  "order_inv members out \<longleftrightarrow> distinct out \<and> set out \<subseteq> fst ` set members \<and> ordered_by (dependency_edges members) out"

lemma order_inv_snoc:
  assumes "btree_ok members" and "order_inv members out" and "bt_get members i = Some m" and "i \<notin> set out"
    and "set (pm_dependencies m) \<subseteq> set out"
  shows "order_inv members (out @ [i])"
  using assms bt_get_key[OF assms(3)] by (auto simp: order_inv_def ordered_by_snoc edges_iff)

lemma visit_inv:
  assumes ok: "btree_ok members"
  shows "visit_member members i visiting out = Some (Inr out') \<Longrightarrow> order_inv members out \<Longrightarrow> set out \<inter> visiting = {} \<Longrightarrow>
      order_inv members out' \<and> insert i (set out) \<subseteq> set out' \<and> set out' \<inter> visiting = {}"
    and "visit_dependencies members ds visiting out = Some (Inr out') \<Longrightarrow> order_inv members out \<Longrightarrow> set out \<inter> visiting = {} \<Longrightarrow>
      order_inv members out' \<and> set ds \<union> set out \<subseteq> set out' \<and> set out' \<inter> visiting = {}"
  using ok
proof (induction members i visiting out and members ds visiting out arbitrary: out' and out'
    rule: visit_member_visit_dependencies.induct)
  case (1 members i visiting out)
  show ?case
  proof (cases "i \<in> set out")
    case True
    with 1(2-4) show ?thesis by (simp add: visit_member.simps)
  next
    case False
    with 1(2) obtain m out1 where m: "i \<notin> visiting" "bt_get members i = Some m"
      "visit_dependencies members (pm_dependencies m) (insert i visiting) out = Some (Inr out1)" "out' = out1 @ [i]"
      by (auto simp: visit_member.simps split: if_splits option.splits sum.splits)
    have "set out \<inter> insert i visiting = {}" using 1(4) False by auto
    from 1(1)[OF False m(1,2,3) 1(3) this 1(5)] show ?thesis
      using order_inv_snoc[OF 1(5) _ m(2), of out1] m(1,4) by auto
  qed
next
  case (3 members d ds visiting out)
  from 3(3) obtain out1 where v: "visit_member members d visiting out = Some (Inr out1)"
    "visit_dependencies members ds visiting out1 = Some (Inr out')"
    by (auto split: option.splits sum.splits)
  from 3(1)[OF v(1) 3(4,5,6)] have o: "order_inv members out1" "insert d (set out) \<subseteq> set out1" "set out1 \<inter> visiting = {}" by blast+
  from 3(2)[OF v(1) refl v(2) o(1,3) 3(6)] o(2) show ?case by auto
qed simp

text \<open>No panic while the dependencies are known, and no other error than that of a cycle.\<close>

lemma visit_total:
  assumes "btree_ok members" and "dependencies_known members"
  shows "i \<in> fst ` set members \<Longrightarrow> visit_member members i visiting out \<noteq> None \<and>
      (\<forall>e. visit_member members i visiting out = Some (Inl e) \<longrightarrow> e = dependency_error ''package dependency graph is cyclic'')"
    and "set ds \<subseteq> fst ` set members \<Longrightarrow> visit_dependencies members ds visiting out \<noteq> None \<and>
      (\<forall>e. visit_dependencies members ds visiting out = Some (Inl e) \<longrightarrow> e = dependency_error ''package dependency graph is cyclic'')"
  using assms
proof (induction members i visiting out and members ds visiting out rule: visit_member_visit_dependencies.induct)
  case (1 members i visiting out)
  then obtain m where m: "bt_get members i = Some m" by (auto simp: known_member)
  from known_dependencies[OF 1(4,3) m] have "set (pm_dependencies m) \<subseteq> fst ` set members" .
  note ih = 1(1)[OF _ _ m this 1(3,4)]
  show ?case
  proof (cases "i \<in> set out \<or> i \<in> visiting")
    case False
    with ih m show ?thesis by (auto simp: visit_member.simps split: option.splits sum.splits)
  qed (auto simp: visit_member.simps)
next
  case (3 members d ds visiting out)
  from 3(1)[OF _ 3(4,5)] 3(3) have h: "visit_member members d visiting out \<noteq> None \<and>
    (\<forall>e. visit_member members d visiting out = Some (Inl e) \<longrightarrow> e = dependency_error ''package dependency graph is cyclic'')" by simp
  show ?case
  proof (cases "\<exists>out1. visit_member members d visiting out = Some (Inr out1)")
    case True
    then obtain out1 where v: "visit_member members d visiting out = Some (Inr out1)" by blast
    from 3(2)[OF v refl _ 3(4,5)] 3(3) v show ?thesis by simp
  next
    case False
    with h obtain e where "visit_member members d visiting out = Some (Inl e)" by (metis not_None_eq old.sum.exhaust)
    with h show ?thesis by simp
  qed
qed simp

text \<open>Without a cycle a visit cannot come back to a member that is being visited.\<close>

lemma visit_acyclic:
  assumes "btree_ok members" and "dependencies_known members" and "acyclic (edges members)"
  shows "i \<in> fst ` set members \<Longrightarrow> \<forall>u \<in> visiting. (i, u) \<in> (edges members)\<^sup>+ \<Longrightarrow>
      \<exists>out'. visit_member members i visiting out = Some (Inr out')"
    and "set ds \<subseteq> fst ` set members \<Longrightarrow> \<forall>d \<in> set ds. \<forall>u \<in> visiting. (d, u) \<in> (edges members)\<^sup>+ \<Longrightarrow>
      \<exists>out'. visit_dependencies members ds visiting out = Some (Inr out')"
  using assms
proof (induction members i visiting out and members ds visiting out rule: visit_member_visit_dependencies.induct)
  case (1 members i visiting out)
  then obtain m where m: "bt_get members i = Some m" by (auto simp: known_member)
  have e: "\<And>d. d \<in> set (pm_dependencies m) \<Longrightarrow> (d, i) \<in> edges members" using m 1(4) by (auto simp: edges_iff)
  have k: "set (pm_dependencies m) \<subseteq> fst ` set members" by (rule known_dependencies[OF 1(5,4) m])
  have "i \<notin> visiting" using 1(3,6) by (auto simp: acyclic_def)
  moreover have "\<forall>d \<in> set (pm_dependencies m). \<forall>u \<in> insert i visiting. (d, u) \<in> (edges members)\<^sup>+"
    using e 1(3) by (auto intro: trancl_into_trancl2)
  ultimately show ?case using 1(1)[OF _ _ m k _ 1(4-6)] m
    by (cases "i \<in> set out") (auto simp: visit_member.simps)
next
  case (3 members d ds visiting out)
  from 3(1)[OF _ _ 3(5-7)] 3(3,4) obtain out1 where v: "visit_member members d visiting out = Some (Inr out1)" by auto
  from 3(2)[OF v refl _ _ 3(5-7)] 3(3,4) v show ?case by auto
qed simp

lemma order_acyclic:
  assumes "btree_ok members" and "order_inv members out" and "fst ` set members \<subseteq> set out"
  shows "acyclic (edges members)" and "dependencies_known members"
proof -
  have m: "i \<in> fst ` set members" if "(d, i) \<in> edges members" for d i
    using that assms(1) bt_get_key by (auto simp: edges_iff)
  then show "acyclic (edges members)"
    using assms(2,3) by (intro ordered_acyclic[of _ out]) (auto simp: order_inv_def)
  show "dependencies_known members"
    unfolding dependencies_known_def
  proof safe
    fix d i
    assume e: "(d, i) \<in> edges members"
    with m assms(3) obtain k where "k < length out" "out ! k = i" by (metis in_set_conv_nth subsetD)
    with assms(2) e have "d \<in> set out" by (auto simp: order_inv_def ordered_by_def dest: in_set_takeD)
    with assms(2) show "d \<in> fst ` set members" by (auto simp: order_inv_def)
  qed
qed

lemma empty_order [simp]: "order_inv members []"
  by (simp add: order_inv_def ordered_by_def)

theorem topological_order_correct:
  assumes "btree_ok members" and "dependencies_known members"
  shows "workflow_package_topological_order members = Some (Inr order) \<Longrightarrow>
      distinct order \<and> set order = fst ` set members \<and> ordered_by (dependency_edges members) order"
    and "acyclic (edges members) \<Longrightarrow> \<exists>order. workflow_package_topological_order members = Some (Inr order)"
    and "\<not> acyclic (edges members) \<Longrightarrow> workflow_package_topological_order members
      = Some (Inl (dependency_error ''package dependency graph is cyclic''))"
proof -
  let ?r = "workflow_package_topological_order members"
  have inr: "order_inv members order \<and> fst ` set members \<subseteq> set order" if "?r = Some (Inr order)" for order
    using visit_inv(2)[OF assms(1) that[unfolded workflow_package_topological_order_def]] by auto
  show "?r = Some (Inr order) \<Longrightarrow>
      distinct order \<and> set order = fst ` set members \<and> ordered_by (dependency_edges members) order"
    using inr[of order] by (auto simp: order_inv_def)
  show "acyclic (edges members) \<Longrightarrow> \<exists>order. ?r = Some (Inr order)"
    unfolding workflow_package_topological_order_def by (rule visit_acyclic(2)[OF assms]) auto
  have t: "?r \<noteq> None \<and> (\<forall>e. ?r = Some (Inl e) \<longrightarrow> e = dependency_error ''package dependency graph is cyclic'')"
    unfolding workflow_package_topological_order_def by (rule visit_total(2)[OF assms]) auto
  show "?r = Some (Inl (dependency_error ''package dependency graph is cyclic''))" if "\<not> acyclic (edges members)"
  proof (cases "\<exists>order. ?r = Some (Inr order)")
    case True
    with inr order_acyclic(1)[OF assms(1)] that show ?thesis by blast
  next
    case False
    with t show ?thesis by (metis not_None_eq old.sum.exhaust)
  qed
qed

section \<open>The check of the graph\<close>

text \<open>A check that succeeds is a visit that succeeds, of the same members.\<close>

lemma check_visits:
  "check_member members i visiting complete depth = Some (Inr complete') \<Longrightarrow> set out = complete \<Longrightarrow>
     \<exists>out'. visit_member members i visiting out = Some (Inr out') \<and> set out' = complete'"
  "check_dependencies members i ds visiting complete depth = Some (Inr complete') \<Longrightarrow> set out = complete \<Longrightarrow>
     \<exists>out'. visit_dependencies members ds visiting out = Some (Inr out') \<and> set out' = complete'"
proof (induction members i visiting complete depth and members i ds visiting complete depth
    arbitrary: complete' out and complete' out rule: check_member_check_dependencies.induct)
  case (1 members i visiting complete depth)
  show ?case
  proof (cases "i \<in> complete")
    case True
    with 1(2,3) show ?thesis by (auto simp: check_member.simps visit_member.simps)
  next
    case False
    with 1(2) obtain m c1 where m: "\<not> (depth > MAX_WORKFLOW_PACKAGE_DEPTH \<or> i \<in> visiting)" "bt_get members i = Some m"
      "check_dependencies members i (pm_dependencies m) (insert i visiting) complete depth = Some (Inr c1)" "complete' = insert i c1"
      by (auto simp: check_member.simps split: if_splits option.splits sum.splits)
    from 1(1)[OF False m(1,2,3) 1(3)] obtain out1 where
      "visit_dependencies members (pm_dependencies m) (insert i visiting) out = Some (Inr out1)" "set out1 = c1" by blast
    with m False 1(3) show ?thesis by (simp add: visit_member.simps)
  qed
next
  case (3 members i d ds visiting complete depth)
  from 3(3) obtain c1 where c: "bt_get members d \<noteq> None" "check_member members d visiting complete (depth + 1) = Some (Inr c1)"
    "check_dependencies members i ds visiting c1 depth = Some (Inr complete')"
    by (auto split: if_splits option.splits sum.splits)
  from 3(1)[OF c(1,2) 3(4)] obtain out1 where o: "visit_member members d visiting out = Some (Inr out1)" "set out1 = c1" by blast
  from 3(2)[OF c(1,2) refl c(3) o(2)] o(1) show ?case by auto
qed simp

lemma checked_members_visit:
  "check_members members ids complete = Some (Inr ()) \<Longrightarrow> set out = complete \<Longrightarrow>
     \<exists>out'. visit_dependencies members ids {} out = Some (Inr out')"
proof (induction members ids complete arbitrary: out rule: check_members.induct)
  case (2 members i ids complete)
  from 2(2) obtain c1 where c: "check_member members i {} complete 1 = Some (Inr c1)" "check_members members ids c1 = Some (Inr ())"
    by (auto split: option.splits sum.splits)
  from check_visits(1)[OF c(1) 2(3)] obtain out1 where o: "visit_member members i {} out = Some (Inr out1)" "set out1 = c1" by blast
  from 2(1)[OF c(1) refl c(2) o(2)] o(1) show ?case by auto
qed simp

text \<open>A checked package has an order of compilation, and no member depends on itself.\<close>

theorem checked_package:
  assumes "btree_ok members" and "validate_workflow_package_dag members = Some (Inr ())"
  shows "dependencies_known members" and "acyclic (edges members)"
    and "\<exists>order. workflow_package_topological_order members = Some (Inr order)"
proof -
  from assms(2) obtain out where out: "visit_dependencies members (map fst members) {} [] = Some (Inr out)"
    unfolding validate_workflow_package_dag_def using checked_members_visit[of members "map fst members" "{}" "[]"] by auto
  from visit_inv(2)[OF assms(1) out] have "order_inv members out" "fst ` set members \<subseteq> set out" by auto
  from order_acyclic[OF assms(1) this] show "dependencies_known members" "acyclic (edges members)" by auto
  show "\<exists>order. workflow_package_topological_order members = Some (Inr order)"
    using out by (simp add: workflow_package_topological_order_def)
qed

section \<open>What the closures are\<close>

text \<open>The members a set of members reaches through dependencies.\<close>

abbreviation depends :: "package_members \<Rightarrow> (ustring \<times> ustring) set" where
  "depends members \<equiv> (edges members)\<inverse>"

definition reached :: "package_members \<Rightarrow> ustring set \<Rightarrow> ustring set" where
  "reached members P = (depends members)\<^sup>* `` P"

lemma reached_simps:
  "reached members {} = {}" "reached members (P \<union> Q) = reached members P \<union> reached members Q" "P \<subseteq> reached members P"
  by (auto simp: reached_def)

lemma reached_least: "P \<subseteq> C \<Longrightarrow> depends members `` C \<subseteq> C \<Longrightarrow> reached members P \<subseteq> C"
proof
  fix x
  assume c: "P \<subseteq> C" "depends members `` C \<subseteq> C" and "x \<in> reached members P"
  then obtain p where p: "p \<in> P" "(p, x) \<in> (depends members)\<^sup>*" by (auto simp: reached_def)
  from p(2) show "x \<in> C"
  proof induction
    case base
    show ?case using p(1) c(1) by blast
  next
    case (step y z)
    with c(2) show ?case by blast
  qed
qed

lemma reached_closed: "depends members `` reached members P \<subseteq> reached members P"
  by (auto simp: reached_def intro: rtrancl_into_rtrancl)

lemma dependencies_image: "btree_ok members \<Longrightarrow> bt_get members i = Some m \<Longrightarrow> depends members `` {i} = set (pm_dependencies m)"
  by (auto simp: edges_iff)

lemma reached_member:
  assumes "btree_ok members" and "bt_get members i = Some m"
  shows "reached members {i} = insert i (reached members (set (pm_dependencies m)))"
proof -
  have "reached members {i} = {i} \<union> (depends members)\<^sup>* `` (depends members `` {i})"
    unfolding reached_def by (auto elim: converse_rtranclE intro: converse_rtrancl_into_rtrancl)
  then show ?thesis using dependencies_image[OF assms] by (simp add: reached_def)
qed

lemma collect_pending_reached:
  assumes "btree_ok members" and "dependencies_known members" and "length members \<le> budget"
  shows "set pending \<union> visited \<subseteq> fst ` set members \<Longrightarrow> depends members `` visited \<subseteq> visited \<union> set pending \<Longrightarrow>
    collect_pending members budget pending visited = Inr (visited \<union> reached members (set pending))"
  using assms
proof (induction members budget pending visited rule: collect_pending.induct)
  case (2 members budget i pending visited)
  show ?case
  proof (cases "i \<in> visited")
    case True
    with 2(4) have d: "depends members `` visited \<subseteq> visited \<union> set pending" by auto
    have "reached members {i} \<subseteq> visited \<union> reached members (set pending)"
      using True d reached_closed[of members "set pending"] reached_simps(3)[of "set pending" members]
      by (intro reached_least) auto
    moreover have "reached members (set (i # pending)) = reached members {i} \<union> reached members (set pending)"
      using reached_simps(2)[of members "{i}" "set pending"] by simp
    ultimately have r: "visited \<union> reached members (set (i # pending)) = visited \<union> reached members (set pending)" by blast
    have k: "set pending \<union> visited \<subseteq> fst ` set members" using 2(3) by simp
    show ?thesis unfolding r using True 2(1)[OF True k d 2(5-7)] by simp
  next
    case False
    from 2(3) obtain m where m: "bt_get members i = Some m" by (auto simp: known_member)
    note deps = dependencies_image[OF 2(5) m]
    have "card visited < card (fst ` set members)"
      using 2(3) False by (intro psubset_card_mono) auto
    also have "\<dots> \<le> budget" using 2(7) card_length[of "map fst members"] by simp
    finally have b: "\<not> card visited \<ge> budget" by simp
    have k: "set (rev (pm_dependencies m) @ pending) \<union> insert i visited \<subseteq> fst ` set members"
      using 2(3) known_dependencies[OF 2(6,5) m] by auto
    have d: "depends members `` insert i visited \<subseteq> insert i visited \<union> set (rev (pm_dependencies m) @ pending)"
    proof -
      have "D \<subseteq> visited \<union> set (i # pending) \<Longrightarrow>
          set (pm_dependencies m) \<union> D \<subseteq> insert i visited \<union> set (rev (pm_dependencies m) @ pending)" for D by auto
      from this[OF 2(4)] show ?thesis unfolding deps[symmetric] by (simp only: insert_is_Un[of i visited] Image_Un)
    qed
    have "reached members (set (i # pending)) = insert i (reached members (set (pm_dependencies m))) \<union> reached members (set pending)"
      using reached_simps(2)[of members "{i}" "set pending"] reached_member[OF 2(5) m] by simp
    then show ?thesis using False m b 2(2)[OF False m b k d 2(5-7)] by (simp add: reached_simps(2) Un_assoc insert_commute)
  qed
qed (simp add: reached_simps)

text \<open>The members that a collection adds are reached, and what they depend on is in the closure.\<close>

lemma collect_reached:
  assumes "btree_ok members" and "dependencies_known members"
  shows "i \<in> fst ` set members \<Longrightarrow> \<exists>c'. collect_member members i c = Inr c' \<and> c \<subseteq> c' \<and> c' \<subseteq> c \<union> reached members {i} \<and>
      depends members `` (c' - c) \<subseteq> c' \<and> depends members `` {i} \<subseteq> c'"
    and "set ds \<subseteq> fst ` set members \<Longrightarrow> \<exists>c'. collect_dependencies members ds c = Inr c' \<and> c \<union> set ds \<subseteq> c' \<and>
      c' \<subseteq> c \<union> reached members (set ds) \<and> depends members `` (c' - c) \<subseteq> c'"
  using assms
proof (induction members i c and members ds c rule: collect_member_collect_dependencies.induct)
  case (1 members i c)
  then obtain m where m: "bt_get members i = Some m" by (auto simp: known_member)
  from 1(1)[OF m known_dependencies[OF 1(4,3) m] 1(3,4)] obtain c' where
    c: "collect_dependencies members (pm_dependencies m) c = Inr c'" "c \<union> set (pm_dependencies m) \<subseteq> c'"
      "c' \<subseteq> c \<union> reached members (set (pm_dependencies m))" "depends members `` (c' - c) \<subseteq> c'" by blast
  have "collect_member members i c = Inr c'" using m c(1) by (simp add: collect_member.simps)
  moreover have "c' \<subseteq> c \<union> reached members {i}" using c(3) unfolding reached_member[OF 1(3) m] by blast
  moreover have "depends members `` {i} \<subseteq> c'" using c(2) unfolding dependencies_image[OF 1(3) m] by blast
  ultimately show ?case using c(2,4) by blast
next
  case (3 members d ds c)
  have r: "reached members (set (d # ds)) = reached members {d} \<union> reached members (set ds)"
    using reached_simps(2)[of members "{d}" "set ds"] by simp
  show ?case
  proof (cases "d \<in> c")
    case True
    with 3(1)[OF True _ 3(5,6)] 3(4) show ?thesis unfolding r by auto
  next
    case False
    from 3(2)[OF False _ 3(5,6)] 3(4) obtain c1 where
      c1: "collect_member members d (insert d c) = Inr c1" "insert d c \<subseteq> c1" "c1 \<subseteq> insert d c \<union> reached members {d}"
        "depends members `` (c1 - insert d c) \<subseteq> c1" "depends members `` {d} \<subseteq> c1" by auto
    from 3(3)[OF False c1(1) _ 3(5,6)] 3(4) obtain c' where
      c': "collect_dependencies members ds c1 = Inr c'" "c1 \<union> set ds \<subseteq> c'" "c' \<subseteq> c1 \<union> reached members (set ds)"
        "depends members `` (c' - c1) \<subseteq> c'" by auto
    have "collect_dependencies members (d # ds) c = Inr c'" using False c1(1) c'(1) by simp
    moreover have "c' \<subseteq> c \<union> reached members (set (d # ds))"
      using c'(3) c1(3) reached_simps(3)[of "{d}" members] unfolding r by blast
    moreover have "depends members `` (c' - c) \<subseteq> c'"
    proof -
      have "c' - c \<subseteq> (c' - c1) \<union> (c1 - insert d c) \<union> {d}" by blast
      with c1(2,4,5) c'(2,4) show ?thesis by blast
    qed
    ultimately show ?thesis using c1(2) c'(2) by auto
  qed
qed auto

lemma closure_of_all_reached:
  assumes "btree_ok members" and "dependencies_known members"
  shows "set ds \<subseteq> fst ` set members \<Longrightarrow> depends members `` c \<subseteq> c \<Longrightarrow>
    \<exists>c'. closure_of_all members ds c = Inr c' \<and> c \<union> set ds \<subseteq> c' \<and> c' \<subseteq> c \<union> reached members (set ds) \<and> depends members `` c' \<subseteq> c'"
  using assms
proof (induction members ds c rule: closure_of_all.induct)
  case (2 members d ds c)
  have r: "reached members (set (d # ds)) = reached members {d} \<union> reached members (set ds)"
    using reached_simps(2)[of members "{d}" "set ds"] by simp
  from collect_reached(1)[OF 2(4,5), of d "insert d c"] 2(2) obtain c1 where
    c1: "collect_member members d (insert d c) = Inr c1" "insert d c \<subseteq> c1" "c1 \<subseteq> insert d c \<union> reached members {d}"
      "depends members `` (c1 - insert d c) \<subseteq> c1" "depends members `` {d} \<subseteq> c1" by auto
  have "c1 \<subseteq> (c1 - insert d c) \<union> {d} \<union> c" by blast
  with c1(2,4,5) 2(3) have closed: "depends members `` c1 \<subseteq> c1" by blast
  from 2(1)[OF c1(1) _ closed 2(4,5)] 2(2) obtain c' where
    c': "closure_of_all members ds c1 = Inr c'" "c1 \<union> set ds \<subseteq> c'" "c' \<subseteq> c1 \<union> reached members (set ds)"
      "depends members `` c' \<subseteq> c'" by auto
  have "c' \<subseteq> c \<union> reached members (set (d # ds))"
    using c'(3) c1(3) reached_simps(3)[of "{d}" members] unfolding r by blast
  with c1(1,2) c' show ?case by auto
qed auto

text \<open>The two closures agree on packages without cycles: both are the transitive dependencies.\<close>

theorem closures_agree:
  assumes "length (member_map ms) = length ms" and "dependencies_known (member_map ms)" and "acyclic (edges (member_map ms))"
    and "bt_get (member_map ms) root = Some m"
  shows "workflow_package_member_closure m (member_map ms) = Inr (sorted_list_of_set ((depends (member_map ms))\<^sup>+ `` {root}))"
    and "workflow_package_recursive_closure ms root (length ms) = workflow_package_member_closure m (member_map ms)"
proof -
  let ?members = "member_map ms"
  have ok: "btree_ok ?members" by (simp add: member_map_def bt_from_ok)
  have t: "(depends ?members)\<^sup>+ `` {root} = reached ?members (set (pm_dependencies m))"
    unfolding reached_def dependencies_image[OF ok assms(4), symmetric] by (auto simp: trancl_unfold_left)
  from closure_of_all_reached[OF ok assms(2) known_dependencies[OF assms(2) ok assms(4)], of "{}"]
  obtain c where c: "closure_of_all ?members (pm_dependencies m) {} = Inr c" "set (pm_dependencies m) \<subseteq> c"
      "c \<subseteq> reached ?members (set (pm_dependencies m))" "depends ?members `` c \<subseteq> c" by auto
  with reached_least[OF c(2,4)] have "c = (depends ?members)\<^sup>+ `` {root}" unfolding t by blast
  with c(1) show m: "workflow_package_member_closure m ?members = Inr (sorted_list_of_set ((depends ?members)\<^sup>+ `` {root}))"
    by (simp add: workflow_package_member_closure_def)
  have "collect_pending ?members (length ms) [root] {} = Inr ({} \<union> reached ?members (set [root]))"
    by (rule collect_pending_reached[OF ok assms(2)]) (use assms(1,4) bt_get_key in auto)
  moreover have "reached ?members (set [root]) - {root} = (depends ?members)\<^sup>+ `` {root}"
  proof -
    have "(root, root) \<notin> (depends ?members)\<^sup>+" using assms(3) by (simp add: acyclic_def trancl_converse)
    then show ?thesis using reached_member[OF ok assms(4)] unfolding t[symmetric] by auto
  qed
  ultimately show "workflow_package_recursive_closure ms root (length ms) = workflow_package_member_closure m ?members"
    using m assms(1) by (simp add: workflow_package_recursive_closure_def)
qed

end
