(* ===== verification/Workflow_Dataflow.thy ===== *)
theory Workflow_Dataflow
  imports Workflow_Graph
begin

text \<open>
  What a node of a workflow passes to its owner and what it makes of the owner's result
  (\<open>packages/workflow/src/lib.rs\<close>): the state envelope that retains state and artifact references
  beside a narrow value, its validation, and the two adapters around the owner's operation. How
  artifact references are read and written as JSON is derived by \<open>serde\<close> and a parameter.
\<close>

section \<open>Envelopes\<close>

record artifact_reference =
  af_artifact_id :: ustring
  af_schema :: ustring
  af_schema_version :: u32
  af_content_type :: ustring
  af_reference_key :: ustring

record 'num envelope_parts =
  ep_state :: "'num json"
  ep_value :: "'num json"
  ep_artifacts :: "artifact_reference list"

datatype 'num prepared_dataflow = DirectInput "'num json" | StateEnvelope "'num envelope_parts"

record ('num, 'f) dataflow_env =
  de_values :: "('num, 'f) value_env"
  de_schemas :: "'num schema_env"
  de_read_artifacts :: "'num json \<Rightarrow> ustring + artifact_reference list"
  de_write_artifacts :: "artifact_reference list \<Rightarrow> 'num json"

definition WORKFLOW_STATE_ENVELOPE_VERSION :: u32 where "WORKFLOW_STATE_ENVELOPE_VERSION = 1"
definition MAX_WORKFLOW_STATE_ENVELOPE_STATE_BYTES :: nat where "MAX_WORKFLOW_STATE_ENVELOPE_STATE_BYTES = 262144"
definition MAX_WORKFLOW_STATE_ENVELOPE_ARTIFACTS :: nat where "MAX_WORKFLOW_STATE_ENVELOPE_ARTIFACTS = 128"
definition MAX_WORKFLOW_ARTIFACT_REFERENCE_FIELD_BYTES :: nat where "MAX_WORKFLOW_ARTIFACT_REFERENCE_FIELD_BYTES = 1024"

definition owner_input :: "'num prepared_dataflow \<Rightarrow> 'num json" where
  "owner_input p = (case p of DirectInput v \<Rightarrow> v | StateEnvelope parts \<Rightarrow> ep_value parts)"

definition envelope_shape_ok :: "(ustring \<times> 'num json) list \<Rightarrow> bool" where
  "envelope_shape_ok object \<longleftrightarrow> \<not> (length object > 4 \<or>
     map_of object (str ''schema_version'') = None \<or> map_of object (str ''state'') = None \<or>
     map_of object (str ''value'') = None \<or>
     \<not> list_all (\<lambda>(k, _). k \<in> set (map str [''schema_version'', ''state'', ''value'', ''artifacts''])) object)"

fun artifact_fields_ok :: "(string \<times> ustring) list \<Rightarrow> workflow_error + unit" where
  "artifact_fields_ok [] = Inr ()"
| "artifact_fields_ok ((field, v) # rest) =
     (if v = [] \<or> byte_len v > MAX_WORKFLOW_ARTIFACT_REFERENCE_FIELD_BYTES
      then Inl (BuildError (str ''state_envelope.artifacts.'' @ str field)
             (str ''artifact reference field must contain 1 to 1024 bytes''))
      else artifact_fields_ok rest)"

definition artifact_ok :: "artifact_reference \<Rightarrow> workflow_error + unit" where
  "artifact_ok a = artifact_fields_ok
     [(''artifact_id'', af_artifact_id a), (''schema'', af_schema a), (''content_type'', af_content_type a),
      (''reference_key'', af_reference_key a)]"

definition validate_envelope_state :: "('num, 'f) dataflow_env \<Rightarrow> 'num json \<Rightarrow> workflow_error + unit" where
  "validate_envelope_state env state =
     (case ve_encode (de_values env) state of
        Inl e \<Rightarrow> Inl (BuildError (str ''state_envelope.state'') (str ''retained state cannot be serialized: '' @ e))
      | Inr n \<Rightarrow> ensure (n \<le> MAX_WORKFLOW_STATE_ENVELOPE_STATE_BYTES) (str ''state_envelope.state'')
                   ''retained state exceeds 262144 bytes'')"

definition envelope_artifacts ::
    "('num, 'f) dataflow_env \<Rightarrow> (ustring \<times> 'num json) list \<Rightarrow> workflow_error + artifact_reference list" where
  "envelope_artifacts env object =
     (case map_err (\<lambda>e. BuildError (str ''state_envelope.artifacts'') (str ''artifact references are invalid: '' @ e))
         (de_read_artifacts env (case map_of object (str ''artifacts'') of None \<Rightarrow> JArray [] | Some v \<Rightarrow> v)) of
        Inl e \<Rightarrow> Inl e
      | Inr artifacts \<Rightarrow>
          (case also_valid (ensure (length artifacts \<le> MAX_WORKFLOW_STATE_ENVELOPE_ARTIFACTS)
                 (str ''state_envelope.artifacts'') ''artifact references exceed 128 entries'')
               (all_valid artifact_ok artifacts) of
             Inl e \<Rightarrow> Inl e | Inr _ \<Rightarrow> Inr artifacts))"

definition validate_workflow_state_envelope ::
    "('num, 'f) dataflow_env \<Rightarrow> 'num json \<Rightarrow> workflow_error + 'num envelope_parts" where
  "validate_workflow_state_envelope env envelope =
     (case as_object envelope of
        None \<Rightarrow> build_error (str ''state_envelope'') ''state envelope must be an object''
      | Some object \<Rightarrow>
     (if \<not> envelope_shape_ok object
      then build_error (str ''state_envelope'')
             ''state envelope must contain schema_version, state, value, and optional artifacts''
      else
     (case (map_of object (str ''schema_version''), map_of object (str ''state''), map_of object (str ''value'')) of
        (Some version, Some state, Some v) \<Rightarrow>
          if (case version of JNumber n \<Rightarrow> ve_as_u64 (de_values env) n | _ \<Rightarrow> None) \<noteq> Some (ucast WORKFLOW_STATE_ENVELOPE_VERSION)
          then build_error (str ''state_envelope.schema_version'') ''unsupported state envelope version; expected 1''
          else (case validate_envelope_state env state of
                  Inl e \<Rightarrow> Inl e
                | Inr _ \<Rightarrow> (case envelope_artifacts env object of
                             Inl e \<Rightarrow> Inl e
                           | Inr artifacts \<Rightarrow> Inr \<lparr>ep_state = state, ep_value = v, ep_artifacts = artifacts\<rparr>))
      | _ \<Rightarrow> build_error (str ''state_envelope'')
             ''state envelope must contain schema_version, state, value, and optional artifacts'')))"

text \<open>The object literal of the envelope, its keys in the order of the map.\<close>

definition envelope_value :: "('num, 'f) dataflow_env \<Rightarrow> 'num envelope_parts \<Rightarrow> 'num json \<Rightarrow> 'num json" where
  "envelope_value env parts owner_output = json_object
     [(''artifacts'', de_write_artifacts env (ep_artifacts parts)),
      (''schema_version'', JNumber (ve_from_i64 (de_values env) (ucast WORKFLOW_STATE_ENVELOPE_VERSION))),
      (''state'', ep_state parts),
      (''value'', owner_output)]"

definition rewrap_workflow_state_envelope ::
    "('num, 'f) dataflow_env \<Rightarrow> 'num envelope_parts \<Rightarrow> 'num json \<Rightarrow> 'num value_schema \<Rightarrow> workflow_error + 'num json" where
  "rewrap_workflow_state_envelope env parts owner_output complete_output =
     (case validate_value_against_schema (de_schemas env) (str ''state_envelope.output'')
         (envelope_value env parts owner_output) complete_output of
        Inl e \<Rightarrow> Inl e | Inr _ \<Rightarrow> Inr (envelope_value env parts owner_output))"

section \<open>The adapters of a node\<close>

definition prepare_workflow_node_dataflow ::
    "('num, 'f) dataflow_env \<Rightarrow> dataflow_policy \<Rightarrow> 'num value_schema \<Rightarrow> 'num value_schema \<Rightarrow> 'num json
       \<Rightarrow> workflow_error + 'num prepared_dataflow" where
  "prepare_workflow_node_dataflow env policy complete_input owner_schema v =
     (case validate_value_against_schema (de_schemas env) (str ''node.input'') v complete_input of
        Inl e \<Rightarrow> Inl e
      | Inr _ \<Rightarrow>
          (case policy of
             DirectFlow \<Rightarrow>
               (case validate_value_against_schema (de_schemas env) (str ''owner.input'') v owner_schema of
                  Inl e \<Rightarrow> Inl e | Inr _ \<Rightarrow> Inr (DirectInput v))
           | RetainedInputV1 \<Rightarrow> build_error (str ''node.dataflow'')
               ''retained input adaptation is resolved only by a durable input gate''
           | StateEnvelopeV1 \<Rightarrow>
               (case validate_workflow_state_envelope env v of
                  Inl e \<Rightarrow> Inl e
                | Inr parts \<Rightarrow>
                    (case validate_value_against_schema (de_schemas env) (str ''owner.input'') (ep_value parts) owner_schema of
                       Inl e \<Rightarrow> Inl e | Inr _ \<Rightarrow> Inr (StateEnvelope parts)))))"

definition complete_workflow_node_dataflow ::
    "('num, 'f) dataflow_env \<Rightarrow> 'num prepared_dataflow \<Rightarrow> 'num value_schema \<Rightarrow> 'num value_schema \<Rightarrow> 'num json
       \<Rightarrow> workflow_error + 'num json" where
  "complete_workflow_node_dataflow env prepared owner_schema complete_output owner_output =
     (case validate_value_against_schema (de_schemas env) (str ''owner.output'') owner_output owner_schema of
        Inl e \<Rightarrow> Inl e
      | Inr _ \<Rightarrow>
          (case prepared of
             DirectInput _ \<Rightarrow>
               (case validate_value_against_schema (de_schemas env) (str ''node.output'') owner_output complete_output of
                  Inl e \<Rightarrow> Inl e | Inr _ \<Rightarrow> Inr owner_output)
           | StateEnvelope parts \<Rightarrow> rewrap_workflow_state_envelope env parts owner_output complete_output))"

section \<open>Retained state survives\<close>

text \<open>
  The documented behaviour of derived serialization: artifact references that were written are read
  again. The number 1 reads as 1.
\<close>

definition envelope_codec_ok :: "('num, 'f) dataflow_env \<Rightarrow> bool" where
  "envelope_codec_ok env \<longleftrightarrow> (\<forall>artifacts. de_read_artifacts env (de_write_artifacts env artifacts) = Inr artifacts) \<and>
     ve_as_u64 (de_values env) (ve_from_i64 (de_values env) (ucast WORKFLOW_STATE_ENVELOPE_VERSION))
       = Some (ucast WORKFLOW_STATE_ENVELOPE_VERSION)"

definition parts_ok :: "('num, 'f) dataflow_env \<Rightarrow> 'num envelope_parts \<Rightarrow> bool" where
  "parts_ok env parts \<longleftrightarrow> validate_envelope_state env (ep_state parts) = Inr () \<and>
     length (ep_artifacts parts) \<le> MAX_WORKFLOW_STATE_ENVELOPE_ARTIFACTS \<and>
     (\<forall>a \<in> set (ep_artifacts parts). artifact_ok a = Inr ())"

lemma validated_parts: "validate_workflow_state_envelope env v = Inr parts \<Longrightarrow> parts_ok env parts"
  by (auto simp: validate_workflow_state_envelope_def envelope_artifacts_def parts_ok_def build_error_def
      split: option.splits sum.splits if_splits)

lemma envelope_fields:
  "map_of (map (\<lambda>(k, v). (str k, v)) kvs) (str k) = map_of kvs k"
  by (induction kvs) auto

lemma rewrapped_envelope:
  assumes "envelope_codec_ok env" and "parts_ok env parts"
  shows "validate_workflow_state_envelope env (envelope_value env parts out) = Inr (parts\<lparr>ep_value := out\<rparr>)"
proof -
  let ?object = "map (\<lambda>(k, v). (str k, v))
     [(''artifacts'', de_write_artifacts env (ep_artifacts parts)),
      (''schema_version'', JNumber (ve_from_i64 (de_values env) (ucast WORKFLOW_STATE_ENVELOPE_VERSION))),
      (''state'', ep_state parts), (''value'', out)]"
  have o: "as_object (envelope_value env parts out) = Some ?object"
    by (simp add: envelope_value_def json_object_def as_object_def)
  have shape: "envelope_shape_ok ?object" by (simp add: envelope_shape_ok_def)
  have valid: "also_valid (ensure (length (ep_artifacts parts) \<le> MAX_WORKFLOW_STATE_ENVELOPE_ARTIFACTS)
      (str ''state_envelope.artifacts'') ''artifact references exceed 128 entries'') (all_valid artifact_ok (ep_artifacts parts)) = Inr ()"
    using assms(2) by (simp add: parts_ok_def)
  have read: "map_err (\<lambda>e. BuildError (str ''state_envelope.artifacts'') (str ''artifact references are invalid: '' @ e))
      (de_read_artifacts env (case map_of ?object (str ''artifacts'') of None \<Rightarrow> JArray [] | Some v \<Rightarrow> v)) = Inr (ep_artifacts parts)"
    using assms(1) unfolding envelope_fields by (simp add: envelope_codec_ok_def map_err_def)
  have arts: "envelope_artifacts env ?object = Inr (ep_artifacts parts)"
    by (simp only: envelope_artifacts_def read valid sum.case)
  show ?thesis
    using assms arts shape unfolding validate_workflow_state_envelope_def o envelope_fields
    by (simp add: envelope_codec_ok_def parts_ok_def)
qed

lemma as_object_JObject: "as_object v = Some kvs \<longleftrightarrow> v = JObject kvs"
  by (cases v) (auto simp: as_object_def)

text \<open>
  Through a node with a state envelope, state and artifacts pass unchanged and the owner's result
  replaces the value, whatever the owner does.
\<close>

theorem state_passes_through:
  assumes "envelope_codec_ok env"
    and "prepare_workflow_node_dataflow env StateEnvelopeV1 complete_input owner_schema v = Inr prepared"
    and "complete_workflow_node_dataflow env prepared owner_output_schema complete_output out = Inr v'"
  shows "\<exists>parts. validate_workflow_state_envelope env v = Inr parts \<and> owner_input prepared = ep_value parts \<and>
    validate_workflow_state_envelope env v' = Inr (parts\<lparr>ep_value := out\<rparr>)"
proof -
  from assms(2) obtain parts where p: "validate_workflow_state_envelope env v = Inr parts" "prepared = StateEnvelope parts"
    by (auto simp: prepare_workflow_node_dataflow_def split: sum.splits)
  with assms(3) have "v' = envelope_value env parts out"
    by (auto simp: complete_workflow_node_dataflow_def rewrap_workflow_state_envelope_def split: sum.splits)
  with rewrapped_envelope[OF assms(1) validated_parts[OF p(1)]] p show ?thesis by (simp add: owner_input_def)
qed

text \<open>Both boundaries of a node are checked, whatever its policy.\<close>

theorem node_boundaries_checked:
  assumes "prepare_workflow_node_dataflow env policy complete_input owner_schema v = Inr prepared"
  shows "validate_value_against_schema (de_schemas env) (str ''node.input'') v complete_input = Inr ()"
    and "validate_value_against_schema (de_schemas env) (str ''owner.input'') (owner_input prepared) owner_schema = Inr ()"
    and "complete_workflow_node_dataflow env prepared owner_output_schema complete_output out = Inr v' \<Longrightarrow>
      validate_value_against_schema (de_schemas env) (str ''owner.output'') out owner_output_schema = Inr () \<and>
      (\<exists>path. validate_value_against_schema (de_schemas env) path v' complete_output = Inr ())"
  using assms
  by (auto simp: prepare_workflow_node_dataflow_def complete_workflow_node_dataflow_def rewrap_workflow_state_envelope_def
      owner_input_def build_error_def split: sum.splits dataflow_policy.splits prepared_dataflow.splits)

end
