(* ===== verification/Workflow_Configuration.thy ===== *)
theory Workflow_Configuration
  imports Workflow_Graph
begin

text \<open>
  Configuration of an authored workflow before it is compiled (\<open>packages/workflow/src/lib.rs\<close>): the
  merge of supplied values over defaults, reading and writing at a dotted path, the paths a schema
  opens to dynamic bindings, and the defaults of plugin inputs. The fields of a JSON object are a
  sorted map.
\<close>

section \<open>Merging\<close>

function merge_json :: "'num json \<Rightarrow> 'num json \<Rightarrow> 'num json"
  and merge_members :: "(ustring, 'num json) btree \<Rightarrow> (ustring \<times> 'num json) list \<Rightarrow> (ustring, 'num json) btree"
where
  "merge_json target supplied =
     (case (target, supplied) of
        (JObject t, JObject s) \<Rightarrow> JObject (merge_members t s)
      | _ \<Rightarrow> supplied)"
| "merge_members t [] = t"
| "merge_members t ((k, v) # rest) =
     merge_members (bt_insert k (case bt_get t k of None \<Rightarrow> v | Some existing \<Rightarrow> merge_json existing v) t) rest"
  by pat_completeness auto

termination
  by (relation "measure (case_sum (\<lambda>(_, s). 2 * json_nodes s) (\<lambda>(_, s). 2 * sum_list (map (json_nodes \<circ> snd) s) + 1))")
    (auto simp: json_nodes.simps[of "JObject x" for x] comp_def)

declare merge_json.simps [simp del]

definition merge_authoring_configuration :: "'num json option \<Rightarrow> 'num json option \<Rightarrow> workflow_error + 'num json" where
  "merge_authoring_configuration defaults supplied =
     (let configuration = (case defaults of None \<Rightarrow> JObject [] | Some d \<Rightarrow> d);
          checked = (\<lambda>v. case validate_authoring_json_value (str ''configuration'') v of Inl e \<Rightarrow> Inl e | Inr _ \<Rightarrow> Inr v)
      in case supplied of
           None \<Rightarrow> checked configuration
         | Some s \<Rightarrow> (case checked s of Inl e \<Rightarrow> Inl e | Inr _ \<Rightarrow> checked (merge_json configuration s)))"

section \<open>Paths\<close>

definition dotted_components :: "ustring \<Rightarrow> ustring list" where
  "dotted_components path = split_on (\<lambda>c. c = ch CHR ''.'') path"

definition authoring_value_at_path :: "'num json \<Rightarrow> ustring \<Rightarrow> workflow_error + 'num json" where
  "authoring_value_at_path v path =
     ok_or (BuildError (str ''configuration.'' @ path)
         (str ''configuration path '' @ quoted path @ str '' is missing''))
       (follow v (dotted_components path))"

text \<open>The recursion carries the whole path for its errors.\<close>

fun set_components :: "ustring \<Rightarrow> 'num json \<Rightarrow> ustring list \<Rightarrow> 'num json \<Rightarrow> workflow_error + 'num json" where
  "set_components path current [] v = build_error (str ''bindings.target.path'') ''target path is empty''"
| "set_components path current [final] v =
     (case current of
        JObject kvs \<Rightarrow> Inr (JObject (bt_insert final v kvs))
      | _ \<Rightarrow> Inl (BuildError (str ''bindings.target.path'')
               (str ''target path '' @ quoted path @ str '' has a non-object parent'')))"
| "set_components path current (component # next # rest) v =
     (case current of
        JObject kvs \<Rightarrow>
          (case set_components path (case bt_get kvs component of None \<Rightarrow> JObject [] | Some w \<Rightarrow> w) (next # rest) v of
             Inl e \<Rightarrow> Inl e
           | Inr w \<Rightarrow> Inr (JObject (bt_insert component w kvs)))
      | _ \<Rightarrow> Inl (BuildError (str ''bindings.target.path'')
               (str ''target path '' @ quoted path @ str '' traverses a non-object value'')))"

definition set_authoring_json_path :: "'num json \<Rightarrow> ustring \<Rightarrow> 'num json \<Rightarrow> workflow_error + 'num json" where
  "set_authoring_json_path root path v = set_components path root (dotted_components path) v"

definition workflow_dynamic_binding_path_allowed :: "'num value_schema \<Rightarrow> ustring \<Rightarrow> bool" where
  "workflow_dynamic_binding_path_allowed schema path =
     (case Option.bind (value_get (vs_schema schema) (str ''x-bcode-dynamic-binding-paths'')) as_array of
        None \<Rightarrow> True
      | Some patterns \<Rightarrow> list_ex (\<lambda>pattern. case as_str pattern of
            None \<Rightarrow> False
          | Some p \<Rightarrow> list_all2 (\<lambda>expected actual. expected = str ''*'' \<or> expected = actual)
                        (dotted_components p) (dotted_components path)) patterns)"

section \<open>Defaults of plugin inputs\<close>

fun apply_input_defaults ::
    "(ustring \<times> 'num json) list \<Rightarrow> 'num workflow_definition \<Rightarrow> 'num json
       \<Rightarrow> workflow_error + 'num workflow_definition \<times> 'num json" where
  "apply_input_defaults [] d input = Inr (d, input)"
| "apply_input_defaults ((node_id, defaults) # rest) d input =
     (case bt_get (wd_nodes d) node_id of
        None \<Rightarrow> Inl (BuildError (str ''plugin_input_defaults.'' @ node_id)
                  (str ''plugin input defaults reference an unknown node''))
      | Some node \<Rightarrow>
          apply_input_defaults rest
            (d\<lparr>wd_edges := map (\<lambda>e. if ed_to e = node_id
               then e\<lparr>ed_transform := Some \<lparr>wt_version = WORKFLOW_TRANSFORM_VERSION,
                 wt_expression = ConstantExpr defaults, wt_output = nd_input node\<rparr>\<rparr> else e) (wd_edges d)\<rparr>)
            (if hd (wd_entries d) = node_id then defaults else input))"

text \<open>The definition with its boundaries, and the input of the workflow.\<close>

definition materialize_plugin_input_defaults ::
    "'num workflow_definition \<Rightarrow> (ustring, 'num json) btree \<Rightarrow> 'num json
       \<Rightarrow> workflow_error + 'num workflow_definition \<times> 'num json" where
  "materialize_plugin_input_defaults d defaults input =
     (if defaults = [] then Inr (d, input)
      else if length (wd_entries d) \<noteq> 1
      then build_error (str ''plugin_input_defaults'') ''plugin input defaults require exactly one workflow entry''
      else (case apply_input_defaults defaults d input of
              Inl e \<Rightarrow> Inl e
            | Inr (d, input) \<Rightarrow>
                (case bt_get (wd_nodes d) (hd (wd_entries d)) of
                   None \<Rightarrow> build_error (str ''definition.entries'') ''workflow entry node is missing''
                 | Some start \<Rightarrow>
                (case (case wd_exits d of [] \<Rightarrow> None | final # _ \<Rightarrow> bt_get (wd_nodes d) final) of
                   None \<Rightarrow> build_error (str ''definition.exits'') ''workflow exit node is missing''
                 | Some final \<Rightarrow> Inr (d\<lparr>wd_input := nd_input start, wd_output := nd_output final\<rparr>, input)))))"

section \<open>Facts about merging\<close>

text \<open>Every object in a value is a sorted map.\<close>

fun json_sorted :: "'num json \<Rightarrow> bool" where
  "json_sorted (JObject kvs) \<longleftrightarrow> btree_ok kvs \<and> (\<forall>(k, v) \<in> set kvs. json_sorted v)"
| "json_sorted (JArray items) \<longleftrightarrow> (\<forall>v \<in> set items. json_sorted v)"
| "json_sorted _ \<longleftrightarrow> True"

lemma json_sorted_get: "json_sorted (JObject kvs) \<Longrightarrow> bt_get kvs k = Some v \<Longrightarrow> json_sorted v"
  by (auto simp: bt_get_def dest: map_of_SomeD)

lemma merge_members_get:
  "btree_ok t \<Longrightarrow> distinct (map fst s) \<Longrightarrow> btree_ok (merge_members t s) \<and>
     bt_get (merge_members t s) k =
       (case map_of s k of
          None \<Rightarrow> bt_get t k
        | Some v \<Rightarrow> Some (case bt_get t k of None \<Rightarrow> v | Some u \<Rightarrow> merge_json u v))"
proof (induction s arbitrary: t)
  case (Cons kv s)
  obtain k' v where kv: "kv = (k', v)" by (cases kv)
  have "map_of s k' = None" using Cons(3) kv by (simp add: map_of_eq_None_iff)
  then show ?case using Cons(1)[OF bt_insert_ok[OF Cons(2)]] Cons(2,3) kv
    by (auto simp: bt_get_insert split: option.splits)
qed simp

lemma value_get_bt [simp]: "value_get (JObject kvs) k = bt_get kvs k"
  by (simp add: bt_get_def)

declare value_get.simps(1) [simp del]

text \<open>
  A path the supplied value leaves open: at some point it ends in an object without the next field.
\<close>

fun left_open :: "'num json \<Rightarrow> ustring list \<Rightarrow> bool" where
  "left_open v [] = False"
| "left_open v (k # ks) = (case v of
     JObject kvs \<Rightarrow> (case bt_get kvs k of None \<Rightarrow> True | Some w \<Rightarrow> left_open w ks) | _ \<Rightarrow> False)"

lemma merge_step:
  assumes "json_sorted t" and "json_sorted s"
  shows "value_get (merge_json t s) k =
     (case (t, s) of
        (JObject t', JObject s') \<Rightarrow> (case bt_get s' k of
            None \<Rightarrow> bt_get t' k | Some v \<Rightarrow> Some (case bt_get t' k of None \<Rightarrow> v | Some u \<Rightarrow> merge_json u v))
      | _ \<Rightarrow> value_get s k)"
proof (cases "\<exists>t' s'. t = JObject t' \<and> s = JObject s'")
  case True
  then obtain t' s' where ts: "t = JObject t'" "s = JObject s'" by blast
  with assms have "btree_ok t'" "distinct (map fst s')" by (auto simp: btree_ok_distinct)
  from merge_members_get[OF this, of k] show ?thesis
    using ts by (simp add: merge_json.simps bt_get_def)
qed (auto simp: merge_json.simps split: json.splits)

text \<open>What is supplied wins, and a default survives wherever the supplied value leaves it open.\<close>

theorem supplied_wins:
  "json_sorted t \<Longrightarrow> json_sorted s \<Longrightarrow> follow s ks = Some w \<Longrightarrow> \<not> is_object w \<Longrightarrow> follow (merge_json t s) ks = Some w"
proof (induction ks arbitrary: t s)
  case Nil
  then show ?case by (cases s) (auto simp: merge_json.simps split: json.splits)
next
  case (Cons k ks)
  then obtain v where v: "value_get s k = Some v" "follow v ks = Some w" by (auto split: option.splits)
  then obtain s' where s': "s = JObject s'" "bt_get s' k = Some v" by (cases s) auto
  have sv: "json_sorted v" using json_sorted_get Cons(3) s' by blast
  show ?case
  proof (cases "\<exists>t' u. t = JObject t' \<and> bt_get t' k = Some u")
    case True
    then obtain t' u where t': "t = JObject t'" "bt_get t' k = Some u" by blast
    then have "json_sorted u" using json_sorted_get Cons(2) by blast
    from Cons(1)[OF this sv v(2) Cons(5)] show ?thesis
      using merge_step[OF Cons(2,3), of k] s' t' by simp
  next
    case False
    then have "value_get (merge_json t s) k = Some v"
      using merge_step[OF Cons(2,3), of k] s' by (auto split: json.splits option.splits)
    with v(2) show ?thesis by simp
  qed
qed

theorem default_survives:
  "json_sorted t \<Longrightarrow> json_sorted s \<Longrightarrow> left_open s ks \<Longrightarrow> follow (merge_json t s) ks = follow t ks"
proof (induction ks arbitrary: t s)
  case (Cons k ks)
  then obtain s' where s': "s = JObject s'" by (cases s) auto
  show ?case
  proof (cases "bt_get s' k")
    case None
    then show ?thesis using merge_step[OF Cons(2,3), of k] s' by (cases t) auto
  next
    case (Some v)
    with Cons(4) s' have open_path: "left_open v ks" by simp
    have sv: "json_sorted v" using json_sorted_get Cons(3) s' Some by blast
    have blocked: "follow v ks = None" using open_path
      by (induction ks arbitrary: v) (auto split: json.splits option.splits)
    show ?thesis
    proof (cases "\<exists>t' u. t = JObject t' \<and> bt_get t' k = Some u")
      case True
      then obtain t' u where t': "t = JObject t'" "bt_get t' k = Some u" by blast
      then have "json_sorted u" using json_sorted_get Cons(2) by blast
      from Cons(1)[OF this sv open_path] show ?thesis using merge_step[OF Cons(2,3), of k] s' t' Some by simp
    next
      case False
      then have "value_get (merge_json t s) k = Some v" "value_get t k = None"
        using merge_step[OF Cons(2,3), of k] s' Some by (cases t, auto split: json.splits option.splits)+
      then show ?thesis by (simp add: blocked)
    qed
  qed
qed simp

section \<open>Facts about paths\<close>

text \<open>Writing at a path and reading it back; what lies off the path stays.\<close>

lemma bt_get_insert_any: "bt_get (bt_insert k v m) j = (if j = k then Some v else bt_get m j)"
  by (induction k v m rule: bt_insert.induct) (auto simp: bt_get_def)

lemma set_components_follow:
  "set_components path root ks v = Inr r \<Longrightarrow> follow r ks = Some v"
proof (induction path root ks v arbitrary: r rule: set_components.induct)
  case (3 path current component nxt rest v)
  then obtain kvs w where "current = JObject kvs" "r = JObject (bt_insert component w kvs)"
    "set_components path (case bt_get kvs component of None \<Rightarrow> JObject [] | Some w \<Rightarrow> w) (nxt # rest) v = Inr w"
    by (auto split: json.splits sum.splits)
  then show ?case using 3(1) by (simp add: bt_get_insert_any)
qed (auto simp: bt_get_insert_any build_error_def split: json.splits)

fun diverges :: "ustring list \<Rightarrow> ustring list \<Rightarrow> bool" where
  "diverges (a # as) (b # bs) \<longleftrightarrow> a \<noteq> b \<or> diverges as bs"
| "diverges _ _ \<longleftrightarrow> False"

lemma diverges_nil [simp]: "\<not> diverges ks []"
  by (cases ks) simp_all

lemma follow_empty_object: "diverges ks js \<Longrightarrow> follow (JObject []) js = None"
  by (cases js) (simp_all add: bt_get_def)

lemma set_components_frame:
  "set_components path root ks v = Inr r \<Longrightarrow> diverges ks js \<Longrightarrow> follow r js = follow root js"
proof (induction path root ks v arbitrary: r js rule: set_components.induct)
  case (2 path current final v)
  then show ?case by (cases js) (auto simp: bt_get_insert_any split: json.splits if_splits)
next
  case (3 path current component nxt rest v)
  from 3(2) obtain kvs w where c: "current = JObject kvs" "r = JObject (bt_insert component w kvs)"
    "set_components path (case bt_get kvs component of None \<Rightarrow> JObject [] | Some w \<Rightarrow> w) (nxt # rest) v = Inr w"
    by (auto split: json.splits sum.splits)
  obtain j js' where js: "js = j # js'" using 3(3) by (cases js) auto
  show ?case
  proof (cases "j = component")
    case True
    with 3(3) js have d: "diverges (nxt # rest) js'" by simp
    with 3(1)[OF c(1,3)] show ?thesis
      using c js True follow_empty_object[OF d] by (simp add: bt_get_insert_any split: option.splits)
  qed (use c js in \<open>simp add: bt_get_insert_any\<close>)
qed (simp add: build_error_def)

theorem paths_read_what_was_written:
  "set_authoring_json_path root path v = Inr r \<Longrightarrow> authoring_value_at_path r path = Inr v"
  by (simp add: set_authoring_json_path_def authoring_value_at_path_def set_components_follow)

end
