(* ===== verification/Workflow_Samples.thy ===== *)
theory Workflow_Samples
  imports Workflow_Policy Workflow_Fan_Out Workflow_Packages Workflow_Dataflow Workflow_Configuration
    "HOL-Library.Code_Target_Nat"
begin

text \<open>
  Concrete instances of the parameters of the workflow model: numbers are integers, a schema may
  name the one kind of value it accepts, and pointers are followed as RFC 6901 says. The examples
  of the properties run the model on them.
\<close>

section \<open>Values\<close>

fun sample_kind :: "int json \<Rightarrow> string" where
  "sample_kind JNull = ''null''"
| "sample_kind (JBool _) = ''boolean''"
| "sample_kind (JNumber _) = ''integer''"
| "sample_kind (JString _) = ''string''"
| "sample_kind (JArray _) = ''array''"
| "sample_kind (JObject _) = ''object''"

definition sample_validator :: "int json \<Rightarrow> int json \<Rightarrow> ustring option" where
  "sample_validator schema v =
     (case value_get schema (str ''type'') of
        None \<Rightarrow> None
      | Some t \<Rightarrow> if t = JString (str (sample_kind v)) then None else Some (str ''wrong type''))"

definition sample_values :: "(int, int) value_env" where
  "sample_values = \<lparr>
     ve_as_i64 = (\<lambda>n. if - (2 ^ 63) \<le> n \<and> n < 2 ^ 63 then Some (word_of_int n) else None),
     ve_as_u64 = (\<lambda>n. if 0 \<le> n \<and> n < 2 ^ 64 then Some (word_of_int n) else None),
     ve_as_f64 = Some,
     ve_f64_cmp = (\<lambda>a b. Some (cmp a b)),
     ve_from_i64 = sint,
     ve_encode = (\<lambda>v. Inr (json_nodes v)),
     ve_encode_assertion = (\<lambda>_. Inr 64),
     ve_validator = (\<lambda>schema. Inr (sample_validator schema)),
     ve_sha256 = (\<lambda>s. s)\<rparr>"

text \<open>An injective serialization: every value is a tag, its lengths and its parts.\<close>

definition int_bytes :: "int \<Rightarrow> nat list" where
  "int_bytes n = [if n < 0 then 1 else 0, nat \<bar>n\<bar>]"

definition text_bytes :: "ustring \<Rightarrow> nat list" where
  "text_bytes s = length s # s"

fun sample_bytes :: "int json \<Rightarrow> nat list" where
  "sample_bytes JNull = [0]"
| "sample_bytes (JBool b) = [1, if b then 1 else 0]"
| "sample_bytes (JNumber n) = 2 # int_bytes n"
| "sample_bytes (JString s) = 3 # text_bytes s"
| "sample_bytes (JArray items) = 4 # length items # concat (map sample_bytes items)"
| "sample_bytes (JObject kvs) = 5 # length kvs # concat (map (\<lambda>(k, v). text_bytes k @ sample_bytes v) kvs)"

lemma int_bytes_inject: "int_bytes m = int_bytes n \<longleftrightarrow> m = n"
  by (auto simp: int_bytes_def split: if_splits)

lemma text_bytes_inject: "text_bytes s @ xs = text_bytes t @ ys \<longleftrightarrow> s = t \<and> xs = ys"
  by (auto simp: text_bytes_def)

lemma concat_bytes_inject:
  fixes f :: "'a \<Rightarrow> nat list"
  shows "length as = length bs \<Longrightarrow> (\<And>a b xs ys. a \<in> set as \<Longrightarrow> f a @ xs = f b @ ys \<Longrightarrow> a = b \<and> xs = ys) \<Longrightarrow>
     concat (map f as) @ xs = concat (map f bs) @ ys \<Longrightarrow> as = bs \<and> xs = ys"
proof (induction as bs rule: list_induct2)
  case (Cons a as b bs)
  have "f a @ concat (map f as) @ xs = f b @ concat (map f bs) @ ys" using Cons(4) by simp
  from Cons(3)[OF _ this] have ab: "a = b" "concat (map f as) @ xs = concat (map f bs) @ ys" by simp_all
  have "as = bs \<and> xs = ys" by (rule Cons(2)[OF Cons(3) ab(2)]) simp_all
  with ab(1) show ?case by simp
qed simp

lemma sample_bytes_inject: "sample_bytes v @ xs = sample_bytes w @ ys \<Longrightarrow> v = w \<and> xs = ys"
proof (induction v arbitrary: w xs ys)
  case JNull
  then show ?case by (cases w) simp_all
next
  case (JBool b)
  then show ?case by (cases w) (simp_all split: if_splits)
next
  case (JNumber n)
  then show ?case using int_bytes_inject[of n] by (cases w) (auto simp: int_bytes_def)
next
  case (JString s)
  then show ?case by (cases w) (simp_all add: text_bytes_inject)
next
  case (JArray items)
  show ?case
  proof (cases w)
    case w: (JArray items')
    with JArray(2) have c: "concat (map sample_bytes items) @ xs = concat (map sample_bytes items') @ ys"
      and l: "length items = length items'" by simp_all
    from concat_bytes_inject[OF l _ c] JArray(1) w show ?thesis by blast
  qed (use JArray(2) in simp_all)
next
  case (JObject kvs)
  show ?case
  proof (cases w)
    case w: (JObject kvs')
    let ?f = "\<lambda>(k, v). text_bytes k @ sample_bytes v"
    have f: "a = b \<and> xs = ys" if a: "a \<in> set kvs" and e: "?f a @ xs = ?f b @ ys" for a b and xs ys :: "nat list"
    proof -
      obtain k k' :: ustring and v v' where ab: "a = (k, v)" "b = (k', v')" by (cases a; cases b) blast
      with e have "k = k'" "sample_bytes v @ xs = sample_bytes v' @ ys" by (simp_all add: text_bytes_inject)
      moreover have "sample_bytes v @ xs = sample_bytes w @ ys \<Longrightarrow> v = w \<and> xs = ys" for w xs ys
        using JObject(1)[OF a, of v] ab by simp
      ultimately show ?thesis using ab by blast
    qed
    from w JObject(2) have c: "concat (map ?f kvs) @ xs = concat (map ?f kvs') @ ys" and l: "length kvs = length kvs'" by simp_all
    from concat_bytes_inject[OF l f c] w show ?thesis by blast
  qed (use JObject(2) in simp_all)
qed

section \<open>Schemas and graphs\<close>

definition sample_schemas :: "int schema_env" where
  "sample_schemas = \<lparr>
     se_bytes = (\<lambda>v. Inr (sample_bytes v)),
     se_pointer = (\<lambda>root p. case split_on (\<lambda>c. c = slash) p of
        [] \<Rightarrow> None | first # parts \<Rightarrow> if first = [] then follow root (map decode_pointer_component parts) else None),
     se_validator = (\<lambda>schema. Inr (sample_validator schema))\<rparr>"

definition undecodable :: "'a \<Rightarrow> ustring + 'b" where
  "undecodable _ = Inl (str ''unknown field'')"

definition sample_graph :: "(int, int) graph_env" where
  "sample_graph = \<lparr>ge_values = sample_values, ge_schemas = sample_schemas, ge_presentation = undecodable,
     ge_resolution = undecodable, ge_predicate = undecodable, ge_exhaustion = undecodable, ge_fan_out = undecodable,
     ge_call = undecodable, ge_failure_policy = undecodable\<rparr>"

definition schema_of :: "string \<Rightarrow> int value_schema" where
  "schema_of kind = \<lparr>vs_type_name = str kind, vs_schema = JObject [(str ''type'', JString (str kind))]\<rparr>"

definition sample_node :: "string \<Rightarrow> string \<Rightarrow> string \<Rightarrow> int node_definition" where
  "sample_node name inp out = step_node (str name) (str name) Task (schema_of inp) (schema_of out) (JObject [])"

text \<open>A step that produces an object and a step that takes its field \<open>count\<close>, incremented.\<close>

definition sample_transform :: "int workflow_transform" where
  "sample_transform = \<lparr>wt_version = 2,
     wt_expression = IncrementExpr (InputExpr (str ''current'') (str ''count'')) 1, wt_output = schema_of ''integer''\<rparr>"

definition sample_edge :: "int edge_definition" where
  "sample_edge = \<lparr>ed_from = str ''a'', ed_to = str ''b'', ed_kind = DirectEdge, ed_transform = Some sample_transform\<rparr>"

definition sample_definition :: "int workflow_definition" where
  "sample_definition = \<lparr>wd_schema_version = 2, wd_name = str ''counting'', wd_input = schema_of ''string'',
     wd_output = schema_of ''string'',
     wd_nodes = [(str ''a'', sample_node ''a'' ''string'' ''object''), (str ''b'', sample_node ''b'' ''integer'' ''string'')],
     wd_entries = [str ''a''], wd_exits = [str ''b''], wd_edges = [sample_edge]\<rparr>"

lemma sample_definition_ok: "definition_ok sample_definition"
  by (simp add: definition_ok_def btree_ok_def sample_definition_def str_def)

lemma sample_definition_valid: "validate_compiled_definition sample_graph sample_definition = Some (Inr ())"
  by code_simp

lemma sample_transform_counts:
  "evaluate_transform sample_values sample_transform [(str ''current'', JObject [(str ''count'', JNumber 2)])] = Inr (JNumber 3)"
  by code_simp

text \<open>The same steps with a second edge, back to the first.\<close>

definition cyclic_definition :: "int workflow_definition" where
  "cyclic_definition = sample_definition\<lparr>wd_edges := [sample_edge, plain_edge DirectEdge (str ''b'') (str ''a'')]\<rparr>"

lemma sample_schemas_injective: "bytes_injective sample_schemas"
  using sample_bytes_inject[of _ "[]" _ "[]"] by (auto simp: bytes_injective_def sample_schemas_def)

text \<open>A schema whose references refer on: \<open>#/a\<close> holds a reference to \<open>#/b\<close>.\<close>

definition reference_to :: "string \<Rightarrow> int json" where
  "reference_to r = JObject [(str ''$ref'', JString (str r))]"

definition nested_schema :: "int json" where
  "nested_schema = JObject [(str ''a'', reference_to ''#/b''), (str ''b'', JBool True), (str ''items'', reference_to ''#/a'')]"

section \<open>Leases, retries and predicates\<close>

definition read_disk :: "resource_claim list" where
  "read_disk = [\<lparr>rc_resource = str ''disk'', rc_access = ReadAccess\<rparr>]"

definition shared_world :: lease_world where
  "shared_world = fst (try_acquire (str ''b'') read_disk
     (fst (try_acquire (str ''a'') read_disk (lease_world_new []))))"

lemma shared_world_leases: "lw_leases shared_world = [(str ''a'', read_disk), (str ''b'', read_disk)]"
  by code_simp

lemma shared_world_reachable: "lease_reachable shared_world"
proof -
  have n: "normalize_resource_claims read_disk = Inr read_disk" by code_simp
  have "lease_reachable (lease_world_new [])" by (rule lease_init) simp
  from lease_next[OF this step_acquire[OF n]] have "lease_reachable (fst (try_acquire (str ''a'') read_disk (lease_world_new [])))"
    by (simp add: lease_world_new_def)
  from lease_next[OF this step_acquire[OF n]] show ?thesis
    unfolding shared_world_def by (simp add: lease_world_new_def try_acquire_def)
qed

definition sample_eligibility :: automatic_retry_eligibility where
  "sample_eligibility = \<lparr>re_version = 1, re_effect = EffectMutating, re_reconciliation = ReceiptStatus,
     re_failure = OwnerReportedRetryable, re_attempts_completed = 2, re_max_attempts = 5, re_retry_cap = 3\<rparr>"

definition sample_retries :: workflow_automatic_retry_policy where
  "sample_retries = \<lparr>workflow_automatic_retry_policy.rp_version = 1, rp_max_attempts = 5,
     rp_eligible_failures = [OwnerReportedRetryable],
     rp_initial_backoff_ms = 100, rp_backoff_multiplier = 2, rp_maximum_backoff_ms = 1000\<rparr>"

definition done_predicate :: "int predicate_expression" where
  "done_predicate = NotPred 2 (EqualsPred 2 (str ''done'') (JBool True))"

section \<open>Flows and their runs\<close>

definition sample_fragments :: "int fragment_env" where
  "sample_fragments = \<lparr>fe_number = uint, fe_predicate = (\<lambda>_. JNull)\<rparr>"

definition sample_leaf :: "string \<Rightarrow> int fragment" where
  "sample_leaf name = leaf_fragment (str name) Task (JObject []) (schema_of ''object'') (schema_of ''object'')"

text \<open>Two steps, repeated.\<close>

definition looping_flow :: "int fragment" where
  "looping_flow = repeat_fragment sample_fragments (str ''until'') done_predicate 3 (schema_of ''object'') (schema_of ''object'')
     (sequence (sample_leaf ''a'') (sample_leaf ''b''))"

lemma looping_flow_built: "built sample_fragments looping_flow"
  unfolding looping_flow_def sample_leaf_def
  by (intro built_repeat built_sequence built_leaf)
    (simp_all add: ids_def leaf_fragment_def sequence_def step_node_def)

definition quiet_world :: run_world where
  "quiet_world = run_world_new \<lparr>wp_dependencies = [], wp_outgoing = []\<rparr> 1 None True"

definition sample_run :: run_env where
  "sample_run = \<lparr>re_show_duration = (\<lambda>_. []), re_show_strings = concat, re_wait_permit = (\<lambda>w. (False, w))\<rparr>"

definition counting_codec :: "(unit, nat) output_codec" where
  "counting_codec = \<lparr>oc_to_value = \<lambda>_. Inr JNull, oc_validator = Inr (\<lambda>_. None), oc_decode = \<lambda>_. Inr 0\<rparr>"

definition two_attempts :: retry_policy where
  "two_attempts = \<lparr>rp_max_attempts = 2, rp_backoff = 0\<rparr>"

definition failing_retry :: "(workflow_error + unit) \<times> run_world \<times> (workflow_error + unit) list" where
  "failing_retry = retry_body sample_run (str ''again'') two_attempts
     (\<lambda>held _ w. (Inl (StepError (str ''s'') (str ''no'')), w)) False () quiet_world"

definition retried_step :: "(nat, nat) step_run" where
  "retried_step = retry_run sample_run (str ''again'') two_attempts
     (leaf_run sample_run counting_codec (str ''step'') (\<lambda>n w. (if n = 0 then None else Some (Inr n), w)))"

lemma quiet_sample: "quiet_waits sample_run"
  by (simp add: quiet_waits_def sample_run_def)

lemma retried_composed: "composed sample_run counting_codec retried_step"
  unfolding retried_step_def by (intro composed_retry composed_leaf) simp

definition counting_repeat :: "(workflow_error + nat) \<times> run_world \<times> nat list" where
  "counting_repeat = repeat_body (\<lambda>n. Inr (n < 3)) (str ''until'') 5 (\<lambda>n. n) (\<lambda>held n w. (Inr (n + 1), w)) False 0 quiet_world"

definition increment_member :: "nat \<Rightarrow> nat \<Rightarrow> (workflow_error + nat) option" where
  "increment_member i x = Some (Inr (x + 1))"

lemma increment_fan_out: "fan_reaches (str ''fan'') increment_member 1 [10, 20] 3 (Inl (Inr [11, 21]))"
proof -
  let ?reaches = "fan_reaches (str ''fan'') increment_member 1 [10, 20]"
  let ?s = "\<lambda>inputs active (outs :: (nat, nat) btree). Inr \<lparr>fs_inputs = inputs, fs_active = active, fs_outputs = outs\<rparr>"
  have "fan_start (str ''fan'') (\<lambda>_. False) 1 [10, 20 :: nat] = ?s [(1, 20)] {0} []"
    by (simp add: fan_start_def fan_prime.simps)
  then have "?reaches 0 (?s [(1, 20)] {0} [])" using fan_init[of "str ''fan''" increment_member 1 "[10, 20]" "\<lambda>_. False"] by simp
  from fan_next[OF this, of "TurnReady False (Some (0, Some (Inr 11))) False"]
  have "?reaches 1 (?s [] {1} [(0, 11)])"
    by (simp add: possible_turn_def increment_member_def fan_turn_def fan_completed_def Let_def)
  from fan_next[OF this, of "TurnReady False (Some (1, Some (Inr 21))) False"]
  have "?reaches 2 (?s [] {} [(0, 11), (1, 21)])"
    by (simp add: possible_turn_def increment_member_def fan_turn_def fan_completed_def Let_def numeral_2_eq_2)
  from fan_next[OF this, of "TurnReady False None False"] show ?thesis
    by (simp add: possible_turn_def fan_turn_def numeral_3_eq_3)
qed

section \<open>Packages\<close>

definition sample_member :: "string \<Rightarrow> string list \<Rightarrow> package_member" where
  "sample_member name deps = \<lparr>pm_member_id = str name, pm_source_name = str name, pm_source = [],
     pm_dependencies = map str deps, pm_external_dependencies = []\<rparr>"

definition sample_package :: "package_member list" where
  "sample_package = [sample_member ''a'' [''b'', ''c''], sample_member ''b'' [''c''], sample_member ''c'' []]"

lemma sample_package_ok:
  "btree_ok (member_map sample_package)" "validate_workflow_package_dag (member_map sample_package) = Some (Inr ())"
  "length (member_map sample_package) = length sample_package"
  by (simp add: member_map_def bt_from_ok) code_simp+

text \<open>
  The bound on the depth of dependencies depends on names: a chain of nine members is refused when
  its names ascend along it, and accepted when they descend, since members are checked in the
  order of their names.
\<close>

definition chain_package :: "string list \<Rightarrow> package_members" where
  "chain_package chain = member_map (map2 (\<lambda>n d. sample_member n [d]) (butlast chain) (tl chain)
     @ [sample_member (last chain) []])"

definition nine_names :: "string list" where
  "nine_names = [''a'', ''b'', ''c'', ''d'', ''e'', ''f'', ''g'', ''h'', ''i'']"

lemma depth_bound_depends_on_names:
  "validate_workflow_package_dag (chain_package nine_names)
     = Some (Inl (dependency_error ''package dependency graph is cyclic or exceeds its depth bound''))"
  "validate_workflow_package_dag (chain_package (rev nine_names)) = Some (Inr ())"
  by code_simp+

section \<open>Envelopes\<close>

text \<open>Artifact references are written as the list of their five fields.\<close>

definition write_artifact :: "artifact_reference \<Rightarrow> int json" where
  "write_artifact a = JArray [JString (af_artifact_id a), JString (af_schema a), JNumber (uint (af_schema_version a)),
     JString (af_content_type a), JString (af_reference_key a)]"

definition read_artifact :: "int json \<Rightarrow> artifact_reference option" where
  "read_artifact v = (case v of
     JArray [JString i, JString s, JNumber n, JString c, JString k] \<Rightarrow>
       Some \<lparr>af_artifact_id = i, af_schema = s, af_schema_version = word_of_int n, af_content_type = c, af_reference_key = k\<rparr>
   | _ \<Rightarrow> None)"

definition sample_dataflow :: "(int, int) dataflow_env" where
  "sample_dataflow = \<lparr>de_values = sample_values, de_schemas = sample_schemas,
     de_read_artifacts = (\<lambda>v. case v of
        JArray vs \<Rightarrow> (case those (map read_artifact vs) of None \<Rightarrow> Inl (str ''no reference'') | Some as \<Rightarrow> Inr as)
      | _ \<Rightarrow> Inl (str ''no list'')),
     de_write_artifacts = (\<lambda>as. JArray (map write_artifact as))\<rparr>"

lemma read_written: "read_artifact (write_artifact a) = Some a"
  by (cases a) (simp add: read_artifact_def write_artifact_def)

lemma sample_codec: "envelope_codec_ok sample_dataflow"
proof -
  have "those (map read_artifact (map write_artifact as)) = Some as" for as
    by (induction as) (simp_all add: read_written)
  then show ?thesis
    by (simp add: envelope_codec_ok_def sample_dataflow_def sample_values_def WORKFLOW_STATE_ENVELOPE_VERSION_def)
qed

definition sample_envelope :: "int json \<Rightarrow> int json" where
  "sample_envelope v = json_object [(''schema_version'', JNumber 1), (''state'', JString (str ''kept'')), (''value'', v)]"

definition sample_prepared :: "int prepared_dataflow" where
  "sample_prepared = StateEnvelope \<lparr>ep_state = JString (str ''kept''), ep_value = JNumber 1, ep_artifacts = []\<rparr>"

section \<open>Configuration\<close>

definition sample_defaults :: "int json" where
  "sample_defaults = json_object [(''limit'', JNumber 5), (''model'', json_object [(''name'', JString (str ''small'')), (''size'', JNumber 1)])]"

definition sample_supplied :: "int json" where
  "sample_supplied = json_object [(''model'', json_object [(''size'', JNumber 2)])]"

end
