(* ===== verification/Spec2Isabelle.thy ===== *)
theory Spec2Isabelle
  imports Runtime_Samples Workflow_Samples
begin

text \<open>
  A verification development for bcode, a coding agent written in Rust. It models three of its
  parts and how they meet: the permission policy that decides which tool calls an agent may make,
  the agent runtime that runs provider turns and tool batches under that policy, and the typed
  workflows that run agents and other steps as a graph.

  \<^bold>\<open>The permission policy\<close> (\<open>src/packages/agent-policy\<close>, \<open>agent-policy/models\<close>, \<open>agent-profile\<close>,
  \<open>agent-permissions\<close>, \<open>shell-command-analysis/models\<close>). A tool call is a request with the facts of
  its preparation; a shell command comes with its analysis into words. The model follows a request
  from there to a decision:
  \<^item> \<open>Shell_Models\<close>, \<open>Policy_Models\<close>: the records of an analysis, the configuration of an agent,
    requests, decisions and the facts a tool publishes (the \<open>models\<close> crates, \<open>agent-profile/src/lib.rs\<close>).
  \<^item> \<open>Globs\<close>: \<open>glob_matches\<close>, path and URL rules, path normalisation, the directory boundary.
  \<^item> \<open>Word_Patterns\<close>, \<open>Word_Language\<close>, \<open>Symbolic\<close>, \<open>Word_Rules\<close>: the pattern language of command
    rules (\<open>word_patterns.rs\<close>), its automata, what they accept, the bounded symbolic run of an automaton
    over a command with expansions (\<open>symbolic.rs\<close>) and the index by executable.
  \<^item> \<open>Compiled_Commands\<close>: compiled policies and their cache (\<open>compiled_commands.rs\<close>).
  \<^item> \<open>Subjects\<close>, \<open>Command_Policy\<close>, \<open>Policy_Eval\<close>: what a command runs behind \<open>env\<close> and other
    launchers, the decision about one subject, and the evaluation of a whole call
    (\<open>environment.rs\<close>, \<open>execution_views.rs\<close>, \<open>legacy_symbolic.rs\<close>, \<open>shell_subject.rs\<close>, \<open>lib.rs\<close>).
  \<^item> \<open>Permissions\<close>: the adapters from the runtime's hook to the evaluator.

  \<^bold>\<open>The agent runtime\<close> (\<open>src/packages/agent-runtime\<close>, \<open>tool\<close>, \<open>tool/models\<close>, \<open>model\<close>). One turn of
  an agent alternates provider rounds and tool batches:
  \<^item> \<open>Runtime_Models\<close>: errors, tools, calls and results, token usage, events.
  \<^item> \<open>Tool_Results\<close>, \<open>Tool_Batch\<close>, \<open>Tool_Scheduler\<close>: redaction and bounds of results; preparation
    and authorization of a round of calls; their concurrent execution as a step relation over
    starts, returns, cancellation and the grace period, and the moments at which it may be dropped.
  \<^item> \<open>Provider_Turn\<close>, \<open>Agent_Loop\<close>, \<open>Loop_Invariants\<close>: one provider turn over the script of the
    provider's answers, the loop of rounds as a step relation, and its invariants.
  \<^item> \<open>Turn_Lifecycle\<close>, \<open>Presentation_Scope\<close>, \<open>Invocation_Scope\<close>: generations of turns with
    their cancellation and the log of all they publish (\<open>turn.rs\<close>), fenced presentation updates,
    exchanges of one invocation.
  \<^item> \<open>Governed_Batch\<close>, \<open>Governed_Loop\<close>: the runtime under the policy. The locale
    \<open>authorization_gate\<close> is all the scheduler needs of a coordinator; the policy adapter interprets it.

  \<^bold>\<open>Workflows\<close> (\<open>src/packages/workflow/src/lib.rs\<close>). A workflow is a graph of typed nodes. It is
  assembled from combinators, compiled and validated once, and then run:
  \<^item> \<open>Workflow_Values\<close>, \<open>Workflow_Predicates\<close>, \<open>Workflow_Transforms\<close>: JSON values, selectors and
    assertions; the predicates of branches and repeats; the transforms on edges with their budgets.
  \<^item> \<open>Workflow_Schemas\<close>: admission of schemas and their local references, the cache of compiled
    validators, values that may be stored.
  \<^item> \<open>Workflow_Resources\<close>: resource claims and leases, the snapshot of a run.
  \<^item> \<open>Workflow_Policy\<close>: grants and the preflight of a node, automatic retries and their backoff.
  \<^item> \<open>Workflow_Cycles\<close>, \<open>Workflow_Graph\<close>, \<open>Workflow_Fragments\<close>: the cycle check, nodes, edges and
    definitions with their validation and scheduling indexes, the combinators and the compilation.
  \<^item> \<open>Workflow_Packages\<close>, \<open>Workflow_Dataflow\<close>, \<open>Workflow_Configuration\<close>: the dependency graph of a
    package, the state envelopes around a node's operation, and the merge and paths of configuration.
  \<^item> \<open>Workflow_Run\<close>, \<open>Workflow_Fan_Out\<close>: the execution of leaf steps, sequences, branches, repeats,
    retries and fan-outs on the shared run state.

  \<^bold>\<open>Conventions.\<close> A Rust string is the list of its scalar values and \<open>str\<close> makes one of a literal; a
  \<open>BTreeMap\<close> is a sorted association list (\<open>btree_ok\<close>) with \<open>bt_get\<close> and \<open>bt_insert\<close>. Integers keep
  their width as words where the code computes with them; saturating and checked operations are
  written out. A \<open>Result\<close> is a sum with the error on the left, a panic or a failed \<open>expect\<close> is
  \<open>None\<close>. State is passed explicitly; what the scheduler, the provider, a host or a \<open>select!\<close>
  decides is an input of the step, so theorems hold for every interleaving.

  \<^bold>\<open>Parameters\<close> stand for code that is not part of the repository: the regular expressions and
  glob sets of their crates and the URL parser (\<open>eval_env\<close>), the digest of the cache key, the JSON
  texts and numbers of \<open>serde_json\<close> (\<open>value_env\<close>, \<open>numbers_ok\<close>), the validators of \<open>jsonschema\<close>
  (\<open>schema_env\<close>), the decoders that \<open>serde\<close> derives (\<open>graph_env\<close>), tools, providers and
  hosts. \<open>Samples\<close>, \<open>Batch_Samples\<close>, \<open>Runtime_Samples\<close> and \<open>Workflow_Samples\<close> give concrete ones, on
  which the examples after the properties run.

  \<^bold>\<open>Interfaces.\<close> \<open>Interfaces\<close> states the contracts between components as locales: \<open>candidate_index\<close>
  (an index that preselects rules: the word index and the legacy index interpret it), \<open>memo_store\<close>
  (a bounded store of computed snapshots: the policy cache), \<open>escalation\<close> (decisions that absorb
  others by severity). \<open>authorization_gate\<close> is in \<open>Governed_Batch\<close>.

  \<^bold>\<open>What is shown.\<close> On the policy: compiled automata accept the documented language; symbolic
  classification is sound; indexes and caches cannot be observed; a configured pattern bounds the
  decision of every command it may apply to, behind launchers too; an allowed command is allowed
  by a rule or by default and nothing matching is worse. On the runtime: only permitted calls are
  invoked, once, also by a batch that is interrupted; every call is answered; rounds, repetitions,
  concurrency and result sizes are bounded; every schedule of a group completes; a superseded turn
  publishes nothing but the end of a cancelled invocation; exchanges are forwarded and answered
  once; a provider turn is always released. On workflows:
  edge transforms are well typed and the budgets are invisible; the cycle check decides
  acyclicity; flows built with the combinators pass it; validated definitions are well formed
  and their indexes correct; schema references end; leases are exclusive; authorization never
  widens; retries are safe and their backoff is capped; repeats, retries and fan-outs do what
  they promise, and no step is left running. Some theorems state what the code does where that is not what it says, and the
  manifest lists these findings.

  \<^bold>\<open>Loops and bounds.\<close> Loops over data are structural or have a termination measure. The budgets
  of the code are its own: 4,096 reference expansions, 256 operations and 16 levels of a transform,
  the work limits of the symbolic classifier and of execution views. The cycle check is a partial
  function that is shown to return on every validated definition (fewer than \<open>2 ^ 64 - 1\<close> nodes).
  The agent loop and the scheduler are step relations whose runs are shown to be bounded.

  \<^bold>\<open>Not modelled.\<close> The parser behind the shell analysis is a third-party crate. The server, the
  stores, clients, terminal and web interfaces, configuration files, provider and tool plugins and
  the plugin host are input and output around these parts: sockets, SQL, HTTP, rendering, FFI. In
  the runtime, tracing, latency capture and builders are left out. Of workflows, the concurrent run
  of a join, timeouts, streamed effects and durable execution and authoring documents
  are left out: they are serialization, storage or scheduling over the modelled core.
\<close>

text \<open>
  C1. Policy meets scheduler: whatever the interleaving of starts, returns and cancellation, a
  call reaches \<open>invoke_tool\<close> only if its tool is registered under its name and has
  prepared it, and the agent's policy, evaluated on the facts of that preparation, allows it or
  its ask callback permits it; no call is invoked twice.
\<close>

theorem invocations_are_permitted:
  assumes "governed_by penv from_json policy env" and "batch_run env calls rounds rounds' r invoked"
  shows "distinct (indices invoked) \<and> (\<forall>p \<in> set invoked. call_authorized env calls p \<and>
    (\<exists>profile. profile_of from_json policy env p = Inr profile \<and>
       policy_permits penv policy (permission_request_of (authorization_request_of (be_context env) p)) profile))"
  using batch_run_authorized[OF assms(2)] governed_batch_invocations[OF assms] by blast

lemma invocations_are_permitted_witness:
  "call_authorized plan_batch sample_calls look_call \<and>
   (\<exists>profile. profile_of (\<lambda>_. Inr read_metadata) plan_policy plan_batch look_call = Inr profile \<and>
     policy_permits sample_env plan_policy
       (permission_request_of (authorization_request_of (be_context plan_batch) look_call)) profile)"
proof -
  obtain out :: "(unit, unit) tool_batch_execution_output" where
    "batch_run plan_batch sample_calls (round_state_new 3) sample_rounds (Inr out) [look_call]"
    using plan_batch_runs by blast
  from invocations_are_permitted[OF plan_batch_governed this] show ?thesis by simp
qed

text \<open>
  C2. Typing of edges: in a definition that passes validation, whatever inputs the transform of an
  edge is evaluated on, a value it returns satisfies the input schema of the node the edge leads
  to, and the transform names no predecessor that is not declared.
\<close>

theorem edge_transforms_are_typed:
  assumes "definition_ok d" and "validate_compiled_definition env d = Some (Inr ())"
    and "e \<in> set (wd_edges d)" and "ed_transform e = Some t"
    and "evaluate_transform (ge_values env) t inputs = Inr v"
  shows "\<exists>target check. bt_get (wd_nodes d) (ed_to e) = Some target \<and> dependencies_declared d e t \<and>
    ve_validator (ge_values env) (vs_schema (nd_input target)) = Inr check \<and> check v = None"
  using validated_edge_transform[OF assms(1-4)] evaluate_transform_typed(3)[OF assms(5)] by metis

lemma edge_transforms_are_typed_witness:
  "\<exists>target check. bt_get (wd_nodes sample_definition) (str ''b'') = Some target \<and>
     dependencies_declared sample_definition sample_edge sample_transform \<and>
     ve_validator sample_values (vs_schema (nd_input target)) = Inr check \<and> check (JNumber 3) = None"
  using edge_transforms_are_typed[OF sample_definition_ok sample_definition_valid, of sample_edge sample_transform]
    sample_transform_counts by (simp add: sample_definition_def sample_edge_def sample_graph_def)

text \<open>
  C3. A configured word pattern is enforced. With one layer of rules: when the pattern denotes
  some run-time expansion of an effective command of the script (the command without its leading
  assignments and \<open>env\<close> prefix), or of anything its launchers (\<open>env\<close>,
  \<open>command\<close>, \<open>exec\<close>) go on to execute, by full path or by base name, the
  decision about the script is at least as severe as the action configured for the pattern.
  \<open>pattern_denotes\<close> is the documented meaning of patterns; automata, indexes,
  symbolic budgets and caches do not occur in the statement.
\<close>

theorem configured_patterns_bound_shell:
  assumes "env_ok env config" and "perm_command_policy (cfg_permission config) = None"
    and "(p, act) \<in> set (perm_command_patterns (cfg_permission config))"
    and "req_operation request = Command command (Some an) err" and "i < length (an_commands an)"
    and "effective_command (an_commands an ! i) = Inr s"
    and "rtranclp launches (sub_executable s, sub_arguments s) q" and "view_words q words"
    and "expands words vs" and "pattern_denotes (env_regex env) p vs"
  shows "agent_decision_of act \<le> pe_decision (evaluate_shell env config request)"
  using assms by (rule configured_pattern_enforced)

lemma configured_patterns_bound_shell_witness:
  "agent_decision_of Deny \<le> pe_decision (evaluate_shell sample_env (command_config [] [(str ''rm ...'', Deny)])
     (sample_request ''shell'' (Command (Some (str ''command rm x''))
        (Some (sample_analysis ''command rm x'' [launch_command] [])) None)))"
proof (rule configured_patterns_bound_shell[where an = "sample_analysis ''command rm x'' [launch_command] []" and i = 0
      and s = "original_subject launch_command" and q = "(sw ''rm'', [sw ''x''])"
      and words = "[sw ''rm'', sw ''x'']" and vs = "[str ''rm'', str ''x'']"])
  show "pattern_denotes (env_regex sample_env) (str ''rm ...'') [str ''rm'', str ''x'']"
    by (simp add: sample_env_def sample_denotes)
  show "rtranclp launches (sub_executable (original_subject launch_command),
      sub_arguments (original_subject launch_command)) (sw ''rm'', [sw ''x''])"
    using launch_launches by blast
qed (simp_all add: sample_env_ok command_config_def config_defs sample_request_def sample_analysis_def
    launch_effective view_words_def sw_def)

text \<open>
  C4. The cycle check decides: on a definition whose forward edges join known nodes, Kahn's
  algorithm returns without failing an expectation, accepts when the forward edges are acyclic and
  refuses the definition when they are not. Back and retry edges do not take part.
\<close>

theorem cycle_check_decides:
  assumes "definition_ok d" and "length (wd_nodes d) < 2 ^ 64 - 1"
    and "\<forall>(u, v) \<in> set (forward_edges d). u \<in> set (map fst (wd_nodes d)) \<and> v \<in> set (map fst (wd_nodes d))"
  shows "ensure_acyclic d = Some (if acyclic (set (forward_edges d)) then Inr ()
    else Inl (BuildError (wd_name d) (str ''workflow graph contains an unbounded cycle'')))"
  using ensure_acyclic_correct[OF assms] by (simp add: ensure_def build_error_def)

lemma cycle_check_decides_witness:
  "ensure_acyclic cyclic_definition
     = Some (Inl (BuildError (str ''counting'') (str ''workflow graph contains an unbounded cycle'')))"
proof -
  have c: "(str ''a'', str ''a'') \<in> (set (forward_edges cyclic_definition))\<^sup>+"
    by (rule trancl_into_trancl[of _ "str ''b''"])
      (simp_all add: cyclic_definition_def sample_definition_def sample_edge_def forward_edges_def plain_edge_def r_into_trancl)
  show ?thesis using cycle_check_decides[of cyclic_definition] sample_definition_ok c
    by (auto simp: acyclic_def cyclic_definition_def sample_definition_def sample_edge_def forward_edges_def plain_edge_def
        definition_ok_def)
qed

text \<open>
  C5. The agent loop under the plan agent, over any number of provider rounds, retries and batches
  and whatever the provider answers: every call that its batches hand to a tool was declared by
  the tool's owner, in the authorization fact of its preparation, as neither mutating nor writing.
  This includes the batch of the pass that ends the loop: one that fails, one whose results are
  refused, and one that is interrupted and dropped at any moment of its groups.
\<close>

theorem plan_loop_invokes_no_writer:
  assumes "lc_authorize c = authorize_with_permission_policy (permission_policy_evaluate penv from_json policy)"
    and "app_config policy = plan_agent_config" and "loop_reaches c (loop_init options request) n s"
    and "t = s \<or> loop_step c s (Done t r)" and "(calls, invoked) \<in> set (ls_batches t)" and "p \<in> set invoked"
  shows "\<exists>m. tool_policy_authorization_metadata_of from_json
      (pr_authorization (pti_preparation (pc_invocation p))) (call_name (pc_call p)) = Inr m \<and>
    meta_operation m \<noteq> Mutating \<and> (\<forall>paths category. meta_operation m \<noteq> Write paths category)"
proof -
  have "loop_state_of c (loop_init options request) t" using assms(3,4) by (auto simp: loop_state_of_def)
  then show ?thesis using assms(1,2,5,6) by (intro plan_agent_loop)
qed

lemma plan_loop_invokes_no_writer_witness:
  "\<exists>m. tool_policy_authorization_metadata_of (\<lambda>_. Inr read_metadata)
      (pr_authorization (pti_preparation (pc_invocation look_call))) (call_name (pc_call look_call)) = Inr m \<and>
    meta_operation m \<noteq> Mutating"
proof -
  obtain s where "loop_reaches plan_loop (loop_init default_execution_options sample_loop_request) 1 s"
    "ls_batches s = [(sample_calls, [look_call])]"
    using plan_loop_continues by blast
  with plan_loop_invokes_no_writer[of plan_loop sample_env "\<lambda>_. Inr read_metadata" plan_policy
      default_execution_options sample_loop_request 1 s s undefined sample_calls "[look_call]" look_call]
  show ?thesis by (auto simp: plan_loop_def plan_batch_def sample_batch_def plan_policy_def policy_new_def)
qed

text \<open>
  C6. The agent loop is bounded: it makes at most \<open>max_tool_rounds\<close> tool batches and
  one finalization round, so it passes through its body at most \<open>max_tool_rounds + 1\<close>
  times before the pass that returns; and the semantically equal batches in a row never exceed the
  repetition limit (unless that is the largest 32-bit number, where the counter saturates).
\<close>

theorem agent_loop_is_bounded:
  assumes "loop_reaches c (loop_init options request) n s"
  shows "n \<le> unat (rq_max_tool_rounds request) + 1 \<and> length (ls_batches s) \<le> unat (rq_max_tool_rounds request) \<and>
    (rq_max_repeated_tool_batches request \<noteq> - 1 \<longrightarrow> (\<forall>pre b suf. map (semantic_batch \<circ> fst) (ls_batches s) \<noteq>
       pre @ replicate (Suc (unat (rq_max_repeated_tool_batches request))) b @ suf))"
proof -
  note inv = loop_reaches_inv[OF assms refl, unfolded loop_inv_def]
  from inv have "rq_max_repeated_tool_batches request \<noteq> - 1 \<Longrightarrow>
      runs_within (unat (rq_max_repeated_tool_batches request)) (map (semantic_batch \<circ> fst) (ls_batches s))"
    unfolding guard_ok_def by blast
  then have "rq_max_repeated_tool_batches request \<noteq> - 1 \<Longrightarrow> map (semantic_batch \<circ> fst) (ls_batches s) \<noteq>
       pre @ replicate (Suc (unat (rq_max_repeated_tool_batches request))) b @ suf" for pre b suf
    by (rule runs_within_no_run)
  moreover have "n \<le> unat (rq_max_tool_rounds request) + 1 \<and> length (ls_batches s) \<le> unat (rq_max_tool_rounds request)"
    using inv by (auto split: if_splits)
  ultimately show ?thesis by blast
qed

lemma agent_loop_is_bounded_witness:
  "\<exists>s. loop_reaches plan_loop (loop_init default_execution_options sample_loop_request) 1 s \<and>
     length (ls_batches s) \<le> unat (rq_max_tool_rounds sample_loop_request)"
  using plan_loop_continues agent_loop_is_bounded by blast

text \<open>
  C7. Leases are exclusive: in every state that acquisitions, drops, node transitions,
  cancellation and the end of a run can reach, two leases that are held at a time and name the
  same resource both read it, and the holder count the snapshot shows for a resource is the number
  of leases on it.
\<close>

theorem leases_are_exclusive:
  assumes "lease_reachable w"
  shows "(\<forall>i j r. i < j \<and> j < length (lw_leases w) \<and> claim_of (snd (lw_leases w ! i)) r \<noteq> None \<and>
      claim_of (snd (lw_leases w ! j)) r \<noteq> None \<longrightarrow>
      claim_of (snd (lw_leases w ! i)) r = Some ReadAccess \<and> claim_of (snd (lw_leases w ! j)) r = Some ReadAccess) \<and>
    (\<forall>r. bt_get (sn_resource_holders (tr_snapshot (lw_tracker w))) r = some_if_pos (claimants r (lw_leases w)))"
proof -
  have inv: "exclusive (lw_leases w)" "holders_inv (sn_resource_holders (tr_snapshot (lw_tracker w))) (lw_leases w)"
    using lease_inv_reachable[OF assms] by (simp_all add: lease_inv_def table_inv_def)
  show ?thesis
  proof (intro conjI allI impI)
    fix i j r
    assume "i < j \<and> j < length (lw_leases w) \<and> claim_of (snd (lw_leases w ! i)) r \<noteq> None \<and>
      claim_of (snd (lw_leases w ! j)) r \<noteq> None"
    then show "claim_of (snd (lw_leases w ! i)) r = Some ReadAccess" "claim_of (snd (lw_leases w ! j)) r = Some ReadAccess"
      using leases_compatible[OF inv(1), of i j r] by auto
  qed (use inv(2) in \<open>simp add: holders_inv_def\<close>)
qed

lemma leases_are_exclusive_witness:
  "length (lw_leases shared_world) = 2 \<and>
   bt_get (sn_resource_holders (tr_snapshot (lw_tracker shared_world))) (str ''disk'') = Some 2"
  using leases_are_exclusive[OF shared_world_reachable] shared_world_leases
  by (simp add: shared_world_leases claimants_def some_if_pos_def claim_of_def read_disk_def)

text \<open>
  C8. The conversation answers every call. At every pass the messages are the initial ones
  followed, for each executed batch, by the assistant's message with the calls and exactly one
  tool message per call, in order and with the call's id, whether the call succeeded, failed or
  was refused; in the finalization round exactly the text of the last provider turn's answer (if
  it has one) and the instruction follow. The next request proposed to the provider carries
  exactly these messages.
\<close>

theorem conversation_answers_every_call:
  assumes "loop_reaches c (loop_init options request) n s"
  shows "\<exists>blocks t. ls_messages s = initial_loop_messages request @ concat blocks @ t \<and>
    list_all2 tool_exchange (map fst (ls_batches s)) blocks \<and> (\<not> ls_finalizing s \<longrightarrow> t = []) \<and>
    (ls_finalizing s \<longrightarrow> ls_turns s \<noteq> [] \<and> (\<exists>response. to_result (last (ls_turns s)) = Inr response \<and>
      t = (if atr_text response = [] then []
           else [\<lparr>msg_role = AssistantRole, msg_content = [TextBlock (atr_text response)]\<rparr>])
        @ [user_text finalization_instruction])) \<and>
    initial_loop_messages (ls_request s) = ls_messages s"
proof -
  from loop_reaches_inv[OF assms refl] obtain t where
    "conversation (initial_loop_messages request) (map fst (ls_batches s)) t (ls_messages s)" "pending_tail s t"
    "initial_loop_messages (ls_request s) = ls_messages s"
    unfolding loop_inv_def by blast
  then show ?thesis unfolding conversation_def pending_tail_def finalization_tail_def by (metis (no_types, lifting))
qed

lemma conversation_answers_every_call_witness:
  "\<exists>(s :: (unit, unit) loop_state) block. ls_messages s = initial_loop_messages sample_loop_request @ block \<and> tool_exchange sample_calls block"
proof -
  obtain s where s: "loop_reaches plan_loop (loop_init default_execution_options sample_loop_request) 1 s"
    "ls_batches s = [(sample_calls, [look_call])]" "\<not> ls_finalizing s"
    using plan_loop_continues by blast
  from conversation_answers_every_call[OF s(1)] s(2,3) obtain blocks where
    b: "ls_messages s = initial_loop_messages sample_loop_request @ concat blocks" "list_all2 tool_exchange [sample_calls] blocks"
    by auto
  then obtain block where "blocks = [block]" "tool_exchange sample_calls block" by (auto simp: list_all2_Cons1)
  with b(1) show ?thesis by (intro exI[of _ s] exI[of _ block]) simp
qed

text \<open>
  C9. Authorization never widens: whatever the approval host answers, an authorized node runs with
  the capability it asked for, which its profile covers, and which either the initiating context
  covers or a grant of exactly the requested scope with at least that capability and a valid
  identity. The arm the code declares unreachable is.
\<close>

theorem authorization_never_widens:
  "authorize_workflow_policy request resolver \<noteq> Unreachable \<and>
   (case authorize_workflow_policy request resolver of
      PolicyAuthorized effective audit \<Rightarrow> effective = wp_node request \<and> effective \<le> wp_profile request \<and>
        (effective \<le> wp_initiating request \<or> (\<exists>grant. (wp_grant request = Some grant \<or>
           wp_grant request = None \<and> resolver (wp_node request) (wp_scope request) = Inr (Some grant)) \<and>
         pg_scope grant = wp_scope request \<and> effective \<le> pg_capability grant \<and> validate_policy_grant grant = Inr ()))
    | _ \<Rightarrow> True)"
  using authorize_reachable[of request resolver] authorize_Authorized[of request resolver]
  by (auto split: authorization_outcome.split)

text \<open>
  C10. Budgets are invisible: the evaluator counts operations and depth as it runs, but on a
  transform that passed validation neither budget can be hit, and the result is that of the
  reference evaluator without counters, followed by the check of the output.
\<close>

theorem transforms_mean_their_expression:
  assumes "validate_transform env t = Inr ()" and "named_inputs inputs [] = Inr named"
  shows "evaluate_transform env t inputs = result_bind (denote env named (wt_expression t)) (check_output env (wt_output t))"
  by (rule evaluate_transform_denotes[OF assms])

lemma transforms_mean_their_expression_witness:
  "evaluate_transform sample_values sample_transform [(str ''current'', JBool True)]
     = Inl (BuildError (str ''count'') field_not_present)"
proof -
  have v: "validate_transform sample_values sample_transform = Inr ()" by code_simp
  have n: "named_inputs [(str ''current'', JBool True :: int json)] [] = Inr [(str ''current'', JBool True)]" by code_simp
  have d: "denote sample_values [(str ''current'', JBool True)] (wt_expression sample_transform)
      = Inl (BuildError (str ''count'') field_not_present)" by code_simp
  show ?thesis using transforms_mean_their_expression[OF v n] d by simp
qed

text \<open>
  C11. A batch that returns has one result per call, in the order of the calls. It reports
  \<open>NeverDispatched\<close> of exactly the calls that were not handed to a tool, and every
  success is the redacted and bounded report of an invocation of that very call.
\<close>

theorem batch_reports_every_call:
  assumes "batch_run env calls rounds rounds' (Inr out) invoked"
  shows "length (batch_results out) = length calls \<and>
    (\<forall>i < length calls. (settlement_at out i = NeverDispatched \<longleftrightarrow> i \<notin> set (indices invoked)) \<and>
      (\<forall>res. batch_results out ! i = Inr res \<longrightarrow> (\<exists>p \<in> set invoked. pc_index p = i \<and> pc_call p = calls ! i \<and>
        (\<exists>response. res = apply_tool_result_policy (be_policy env) (tool_execution_output_of (calls ! i) response)))))"
proof (intro conjI allI impI)
  show "length (batch_results out) = length calls" by (rule batch_run_results(1)[OF assms])
  fix i
  assume i: "i < length calls"
  show "settlement_at out i = NeverDispatched \<longleftrightarrow> i \<notin> set (indices invoked)" by (rule batch_run_results(2)[OF assms i])
  fix res
  assume "batch_results out ! i = Inr res"
  with batch_run_results(3)[OF assms i] batch_run_authorized(2)[OF assms]
  show "\<exists>p \<in> set invoked. pc_index p = i \<and> pc_call p = calls ! i \<and>
      (\<exists>response. res = apply_tool_result_policy (be_policy env) (tool_execution_output_of (calls ! i) response))"
    unfolding call_authorized_def by metis
qed

lemma batch_reports_every_call_witness:
  "\<exists>(out :: (unit, unit) tool_batch_execution_output). length (batch_results out) = 2 \<and>
     settlement_at out 1 = NeverDispatched \<and> settlement_at out 0 \<noteq> NeverDispatched"
proof -
  obtain out :: "(unit, unit) tool_batch_execution_output" where
    "batch_run plan_batch sample_calls (round_state_new 3) sample_rounds (Inr out) [look_call]"
    using plan_batch_runs by blast
  from batch_reports_every_call[OF this] show ?thesis
    by (intro exI[of _ out]) (auto simp: sample_calls_def look_call_def)
qed

text \<open>
  C12. Flows built with the combinators pass their structural checks: when the steps have distinct
  names and each node passes the checks of its own limits, no node is duplicated, every boundary
  and edge refers to a declared node, the forward edges form no cycle whatever way sequences,
  repeats, branches, retries, joins and fan-outs are nested, and building returns instead of
  panicking.
\<close>

theorem built_flows_compile:
  assumes "built fenv f" and "\<forall>n \<in> set (fr_nodes f). check_fragment_node env name n = Inr ()"
    and "length (fr_nodes f) < 2 ^ 64 - 1"
  shows "build_workflow env name inp out f \<noteq> None \<and>
    (\<exists>nodes. collect_nodes env name (fr_nodes f) [] = Inr nodes \<and>
       set (fr_entries f @ fr_exits f) \<subseteq> set (map fst nodes) \<and>
       (\<forall>e \<in> set (fr_edges f). ed_from e \<in> set (map fst nodes) \<and> ed_to e \<in> set (map fst nodes)) \<and>
       ensure_acyclic (fragment_definition name inp out f nodes) = Some (Inr ()))"
  using built_flow_passes[OF assms] build_returns[OF assms(3)] by blast

lemma built_flows_compile_witness:
  "build_workflow sample_graph (str ''loop'') (schema_of ''object'') (schema_of ''object'') looping_flow \<noteq> None"
proof -
  have n: "list_all (\<lambda>n. check_fragment_node sample_graph (str ''loop'') n = Inr ()) (fr_nodes looping_flow)" by code_simp
  have l: "length (fr_nodes looping_flow) = 3" by code_simp
  show ?thesis using built_flows_compile[OF looping_flow_built, of sample_graph "str ''loop''"] n l
    by (simp add: list_all_iff)
qed

text \<open>
  C13. Turn generations are exclusive in every interleaving of turns, cancellation and emission:
  at most the newest turn runs, and generations increase. Of everything published (events,
  artifacts, the ends of invocations), what follows an entry is of the same or of a later turn,
  and of a later one if that entry is the Cancelled bookkeeping that closed its turn. The one
  exception is again the Cancelled bookkeeping of an invocation: it is published for a turn that
  has been cancelled, and may come after its successor's output. A scope that is not the newest
  accepts no work and can neither cancel, complete nor release the active turn.
\<close>

theorem only_the_newest_turn_publishes:
  assumes "turn_reachable w"
  shows "sorted_wrt (<) (map scope_generation (scopes w)) \<and>
    sorted_wrt (\<lambda>(g, p) (g', p'). cancelled_end p' \<or> g < g' \<or> g = g' \<and> \<not> cancelled_end p) (published w) \<and>
    (\<forall>(g, p) \<in> set (published w). end_stages p \<subseteq> {StageCompleted, StageFailed, StageCancelled} \<and>
       (\<exists>k < length (scopes w). scope_generation (scopes w ! k) = g \<and>
          (cancelled_end p \<longrightarrow> tc_lifecycle (controls w ! k) \<in> {Cancelling, Cancelled}))) \<and>
    (\<forall>k < length (scopes w). tc_lifecycle (controls w ! k) = Running \<longrightarrow>
       Suc k = length (scopes w) \<and> active_generation w = scope_generation (scopes w ! k)) \<and>
    (\<forall>k. Suc k < length (scopes w) \<longrightarrow> \<not> accepts_work (scopes w ! k) w \<and> cancel_turn (scopes w ! k) w = (w, False) \<and>
       complete_turn (scopes w ! k) w = (w, False) \<and> release_terminal_turn (scopes w ! k) w = (w, False))"
proof -
  note ok = reachable_ok[OF assms]
  have log: "sorted_wrt (\<lambda>(g, p) (g', p'). cancelled_end p' \<or> g < g' \<or> g = g' \<and> \<not> cancelled_end p) (published w)"
    using ok by (simp add: world_ok_def published_ok_def follows_def)
  have entries: "\<forall>x \<in> set (published w). \<exists>k. published_by w k x" using ok by (simp add: world_ok_def published_ok_def)
  have "\<not> accepts_work (scopes w ! k) w" "\<not> is_active (scopes w ! k) w" if "Suc k < length (scopes w)" for k
    using latest_generation(2)[OF ok, of k] stale_not_active[OF ok that] that is_active_control[OF ok, of k]
    by (auto simp: accepts_work_def accepts_normal_output_def)
  note stale = this
  have "end_stages p \<subseteq> {StageCompleted, StageFailed, StageCancelled} \<and> (\<exists>k < length (scopes w). scope_generation (scopes w ! k) = g \<and>
      (cancelled_end p \<longrightarrow> tc_lifecycle (controls w ! k) \<in> {Cancelling, Cancelled}))" if "(g, p) \<in> set (published w)" for g p
    using bspec[OF entries that] by (auto simp: published_by_def)
  then have "\<forall>(g, p) \<in> set (published w). end_stages p \<subseteq> {StageCompleted, StageFailed, StageCancelled} \<and>
      (\<exists>k < length (scopes w). scope_generation (scopes w ! k) = g \<and>
        (cancelled_end p \<longrightarrow> tc_lifecycle (controls w ! k) \<in> {Cancelling, Cancelled}))" by blast
  moreover have "sorted_wrt (<) (map scope_generation (scopes w))" using ok by (simp add: world_ok_def generations_ok_def)
  ultimately show ?thesis
    using log latest_generation(2,3)[OF ok] stale
    by (simp add: cancel_turn_def complete_turn_def release_terminal_turn_def)
qed

lemma only_the_newest_turn_publishes_witness:
  "map fst (published late_end) = [2, 1] \<and> \<not> accepts_work (scopes late_end ! 0) late_end \<and>
     cancel_turn (scopes late_end ! 0) late_end = (late_end, False)"
  using only_the_newest_turn_publishes[OF late_end_facts(1)] late_end_facts(2,3) by simp

text \<open>
  C14. A fan-out is bounded and ordered: whichever member completes next and wherever cancellation
  is seen, no more than the bound of members are active, there are no more turns than inputs, and
  when it succeeds the outputs are those of every member, in the order of the inputs.
\<close>

theorem fan_out_is_bounded_and_ordered:
  assumes "fan_reaches fan_out_id member limit inputs n r"
  shows "case r of
      Inr st \<Rightarrow> card (fs_active st) \<le> limit \<and> n + card (fs_active st) \<le> length inputs
    | Inl (Inl _) \<Rightarrow> True
    | Inl (Inr outs) \<Rightarrow> length outs = length inputs \<and> list_all2 (\<lambda>(i, x) out. member i x = Some (Inr out)) (enumerate 0 inputs) outs"
proof (cases r)
  case (Inl res)
  show ?thesis
  proof (cases res)
    case (Inr outs)
    with Inl fan_out_order[of fan_out_id member limit inputs n outs] assms show ?thesis
      by (auto simp: list_all2_conv_all_nth nth_enumerate_eq)
  qed (simp add: Inl)
qed (use fan_out_bounded[of fan_out_id member limit inputs n] assms in simp)

lemma fan_out_is_bounded_and_ordered_witness:
  "list_all2 (\<lambda>(i, x) out. increment_member i x = Some (Inr out)) (enumerate 0 [10, 20]) [11, 21]"
  using fan_out_is_bounded_and_ordered[OF increment_fan_out] by simp

text \<open>
  C15. Provider turns are released. Once the provider has accepted a turn, every way it can end,
  be it success, error, cancellation, timeout or panic of the provider, makes exactly one attempt
  to finish it, after which the runtime calls it no more; a response is returned only if that
  finish succeeded, and if it did not, the error is never one that a planner may retry. A turn the
  provider did not accept is not released.
\<close>

theorem provider_turn_is_released:
  assumes "run_text_turn_in_scope show_session env polls request = Some out"
  shows "(to_acquired out \<longrightarrow> to_releases out \<in> {[CancelTurn, FinishTurn], [FinishTurn]} \<and>
      (\<forall>resp. to_result out = Inr resp \<longrightarrow> pe_finish_answer env = Answers ()) \<and>
      (\<forall>e. to_result out = Inl e \<longrightarrow> pe_finish_answer env \<noteq> Answers () \<longrightarrow> unretryable e)) \<and>
    (\<not> to_acquired out \<longrightarrow> to_releases out = [] \<and> (\<exists>e. to_result out = Inl e))"
  using provider_turn_releases[OF assms] by (auto simp: released_well_def split: if_splits)

lemma provider_turn_is_released_witness:
  "to_releases (the (run_text_turn_in_scope (\<lambda>_. []) quiet_env [quiet_poll answer_events] sample_loop_request))
     \<in> {[CancelTurn, FinishTurn], [FinishTurn]}"
proof -
  have "0 < rq_timeout sample_loop_request" by (simp add: sample_loop_request_def agent_turn_request_new_def)
  note run = quiet_turn[OF this, of "\<lambda>_. []" answer_events]
  then obtain out where out: "run_text_turn_in_scope (\<lambda>_. []) quiet_env [quiet_poll answer_events] sample_loop_request = Some out"
    and "to_acquired out"
    by (simp add: answer_turn)
  with provider_turn_is_released[OF out] show ?thesis by simp
qed

text \<open>
  C16. Accepted references end: in a schema whose local references are accepted, every reference
  that can be reached by expanding references resolves, and none reaches itself again, so
  expanding them ends.
\<close>

theorem accepted_schema_references_end:
  assumes "validate_local_schema_references env path root = Inr ()" and "r \<in> schema_references root"
    and "(r, s) \<in> (expands_to env root)\<^sup>*"
  shows "resolve_reference env root s \<noteq> None \<and> (s, s) \<notin> (expands_to env root)\<^sup>+"
  using accepted_references[OF assms] by blast

lemma accepted_schema_references_end_witness:
  "resolve_reference sample_schemas nested_schema (str ''#/b'') \<noteq> None \<and>
   (str ''#/b'', str ''#/b'') \<notin> (expands_to sample_schemas nested_schema)\<^sup>+"
proof -
  have ok: "validate_local_schema_references sample_schemas [] nested_schema = Inr ()" by code_simp
  have a: "str ''#/a'' \<in> schema_references nested_schema" by code_simp
  have "(str ''#/a'', str ''#/b'') \<in> expands_to sample_schemas nested_schema"
  proof -
    have "resolve_reference sample_schemas nested_schema (str ''#/a'') = Some (reference_to ''#/b'')"
      "str ''#/b'' \<in> schema_references (reference_to ''#/b'' :: int json)" by code_simp+
    then show ?thesis by (simp add: expands_to_def)
  qed
  then show ?thesis using accepted_schema_references_end[OF ok a] by blast
qed

text \<open>
  C17. A package that passes the dependency check is compiled in dependency order: every
  dependency is a member, no member depends on itself through others, and the topological sort
  returns an order that has every member once and each member after all that it depends on.
\<close>

theorem packages_compile_in_order:
  assumes "btree_ok package" and "validate_workflow_package_dag package = Some (Inr ())"
  shows "dependencies_known package \<and> acyclic (edges package) \<and>
    (\<exists>order. workflow_package_topological_order package = Some (Inr order) \<and>
       distinct order \<and> set order = fst ` set package \<and> ordered_by (dependency_edges package) order)"
  using checked_package[OF assms] topological_order_correct(1)[OF assms(1)] by blast

lemma packages_compile_in_order_witness:
  "dependencies_known (member_map sample_package) \<and> acyclic (edges (member_map sample_package)) \<and>
    (\<exists>order. workflow_package_topological_order (member_map sample_package) = Some (Inr order) \<and>
       distinct order \<and> set order = fst ` set (member_map sample_package) \<and> ordered_by (dependency_edges (member_map sample_package)) order)"
  by (rule packages_compile_in_order[OF sample_package_ok(1,2)])

text \<open>
  C18. State passes through a node: the owner of a node with a state envelope sees only the value,
  and the envelope it leaves validates to the same state and artifact references with the owner's
  result as the value. References that were written are assumed to be read back.
\<close>

theorem retained_state_survives:
  assumes "envelope_codec_ok env"
    and "prepare_workflow_node_dataflow env StateEnvelopeV1 complete_input owner_schema v = Inr prepared"
    and "complete_workflow_node_dataflow env prepared owner_output_schema complete_output out = Inr v'"
  shows "\<exists>parts. validate_workflow_state_envelope env v = Inr parts \<and> owner_input prepared = ep_value parts \<and>
    validate_workflow_state_envelope env v' = Inr (parts\<lparr>ep_value := out\<rparr>)"
  by (rule state_passes_through[OF assms])

lemma retained_state_survives_witness:
  "\<exists>parts. validate_workflow_state_envelope sample_dataflow (sample_envelope (JNumber 1)) = Inr parts \<and>
    owner_input sample_prepared = ep_value parts \<and>
    validate_workflow_state_envelope sample_dataflow (envelope_value sample_dataflow
      \<lparr>ep_state = JString (str ''kept''), ep_value = JNumber 1, ep_artifacts = []\<rparr> (JNumber 2)) = Inr (parts\<lparr>ep_value := JNumber 2\<rparr>)"
proof (rule retained_state_survives[OF sample_codec])
  show "prepare_workflow_node_dataflow sample_dataflow StateEnvelopeV1 (schema_of ''object'') (schema_of ''integer'')
      (sample_envelope (JNumber 1)) = Inr sample_prepared" by code_simp
  show "complete_workflow_node_dataflow sample_dataflow sample_prepared (schema_of ''integer'') (schema_of ''object'') (JNumber 2)
    = Inr (envelope_value sample_dataflow
      \<lparr>ep_state = JString (str ''kept''), ep_value = JNumber 1, ep_artifacts = []\<rparr> (JNumber 2))" by code_simp
qed

text \<open>
  C19. Redaction is complete on the model's texts: when the registered values share no character
  with the marker \<open>[REDACTED]\<close>, no registered value occurs in the output text of the
  result, nor in any text, media type, path or image data of its content, nor in the result of any
  event.
\<close>

theorem redaction_is_complete:
  assumes "redactable policy" and "result = out_model_result (apply_tool_result_policy policy output)"
    and "v \<in> set (redacted_values policy)"
  shows "\<not> sublist v (res_output result) \<and>
    (\<forall>c \<in> set (res_content result). \<forall>t \<in> set (visible_texts c). \<not> sublist v t) \<and>
    (\<forall>r. ToolResult r \<in> set (out_events (apply_tool_result_policy policy output)) \<longrightarrow> r = result)"
  using policy_on_output(5)[OF assms(2) refl assms(1)] policy_on_output(9)[OF assms(2) refl] assms(3)
  by (auto simp: clean_def)

lemma redaction_is_complete_witness:
  "\<not> sublist (str ''hunter'') (res_output (out_model_result (apply_tool_result_policy secret_policy secret_output)))"
  using redaction_is_complete[OF secret_redactable refl, of "str ''hunter''" secret_output]
  by (simp add: secret_policy_def redact_value_def default_result_policy_def)

text \<open>
  C20. An allowed script is justified command by command. The evaluator allows a shell script only
  if its complete structured analysis describes that very source and, for every command, some
  configured allow rule covers it: a glob that matches a match candidate of its effective command,
  or a word pattern whose automaton accepts every run-time expansion of the command.
\<close>

theorem allowed_shell_is_justified:
  assumes "env_ok env config" and "req_operation request = Command command analysis err"
    and "pe_decision (evaluate_shell env config request) = DAllow"
  shows "\<exists>an. analysis = Some an \<and> command = Some (an_source an) \<and> err = None \<and>
    an_completeness an = Complete \<and> an_commands an \<noteq> [] \<and>
    (\<forall>c \<in> set (an_commands an). \<exists>s. effective_command c = Inr s \<and> configured_allow (env_regex env) config s)"
  using assms by (rule shell_allow_justified)

lemma allowed_shell_is_justified_witness:
  "\<exists>s. effective_command (sample_command ''ls'' (sw ''ls'') []) = Inr s \<and> configured_allow no_regex ls_config s"
proof -
  have "req_operation list_request = Command (Some (str ''ls'')) (Some (sample_analysis ''ls''
      [sample_command ''ls'' (sw ''ls'') []] [])) None"
    by (simp add: list_request_def sample_request_def)
  from allowed_shell_is_justified[OF sample_env_ok this sample_allow] show ?thesis
    by (simp add: sample_analysis_def sample_env_def)
qed

text \<open>
  C21. Automatic retries are safe and bounded: an attempt is admitted only as the next one, within
  both limits, and only when the owner never accepted the work, or reported it retryable and the
  work needs no repair, a mutation only with a receipt to reconcile it.
\<close>

theorem automatic_retries_are_safe:
  assumes "automatic_retry_decision e = Eligible n"
  shows "unat n = unat (re_attempts_completed e) + 1 \<and> n \<le> re_max_attempts e \<and> n \<le> re_retry_cap e \<and>
    (re_failure e = OwnerUnavailableBeforeAcceptance \<or> re_failure e = OwnerReportedRetryable \<and>
      re_reconciliation e \<noteq> RepairRequired \<and> (re_effect e = EffectMutating \<longrightarrow> re_reconciliation e = ReceiptStatus))"
  using retry_eligible[OF assms] by blast

lemma automatic_retries_are_safe_witness: "unat (3 :: u32) = unat (re_attempts_completed sample_eligibility) + 1"
proof -
  have "automatic_retry_decision sample_eligibility = Eligible 3" by code_simp
  from automatic_retries_are_safe[OF this] show ?thesis by blast
qed

text \<open>
  C22. A definition that passes validation is well formed: its nodes are registered under their
  own identities and are structurally valid, entries and exits exist and are declared, every edge
  joins declared nodes, the forward edges form no cycle, and its scheduling indexes compile
  without failing an expectation.
\<close>

theorem validated_definitions_are_sound:
  assumes "definition_ok d" and "validate_compiled_definition env d = Some (Inr ())"
  shows "(\<forall>(id, node) \<in> set (wd_nodes d). nd_id node = id \<and> validate_node_structure env node = Inr ()) \<and>
    wd_entries d \<noteq> [] \<and> wd_exits d \<noteq> [] \<and> set (wd_entries d @ wd_exits d) \<subseteq> set (map fst (wd_nodes d)) \<and>
    (\<forall>e \<in> set (wd_edges d). {ed_from e, ed_to e} \<subseteq> set (map fst (wd_nodes d))) \<and>
    acyclic (set (forward_edges d)) \<and> compile_plan d \<noteq> None"
  using validated_definition[OF assms] compile_plan_correct[OF assms] edge_ends_known
  by (intro conjI) (blast | fastforce)+

lemma validated_definitions_are_sound_witness:
  "acyclic (set (forward_edges sample_definition)) \<and> compile_plan sample_definition \<noteq> None"
  using validated_definitions_are_sound[OF sample_definition_ok sample_definition_valid] by blast

text \<open>
  C23. Symbolic classification is sound for every run-time expansion of the words of a command,
  whatever the work budget does: a definite match accepts all of them, an absent one none.
\<close>

theorem classify_bounds_expansions:
  assumes "expands words ws"
  shows "(classify eng r words = MDefinite \<longrightarrow> accepts_words eng r ws) \<and>
    (classify eng r words = MAbsent \<longrightarrow> \<not> accepts_words eng r ws)"
  using classify_sound[OF assms] by blast

lemma classify_bounds_expansions_witness:
  "classify no_regex rm_rule [Static (str ''rm'') sample_span, Dynamic Many [] sample_span] = MDefinite \<and>
     accepts_words no_regex rm_rule [str ''rm'', str ''-f'', str ''x'']"
  using rm_definite classify_bounds_expansions[of "[Static (str ''rm'') sample_span, Dynamic Many [] sample_span]"
      "[str ''rm'', str ''-f'', str ''x'']" no_regex rm_rule]
  by auto

text \<open>
  C24. Compilation of word patterns. A pattern that parses has the token sequence of a well-formed
  list of at most 32 segments, and its automaton accepts every argument vector the segments
  denote; if no repeated group is directly followed by another repetition, it accepts no other.
\<close>

theorem parse_compiles_language:
  assumes "parse_with_budget eng p act n = Inr (r, m)"
  shows "\<exists>segs. tokenize eng p n = Inr (pattern_tokens segs, m) \<and> list_all seg_ok segs \<and> rest_last segs \<and>
    length segs \<le> MAX_SEGMENTS \<and> (\<forall>ws. pattern_lang eng segs False ws \<longrightarrow> accepts_words eng r ws) \<and>
    (separated False segs \<longrightarrow> (\<forall>ws. accepts_words eng r ws \<longrightarrow> pattern_lang eng segs False ws))"
proof -
  from assms obtain ts where t: "tokenize eng p n = Inr (ts, m)" and r: "parse_tokens p act ts = Inr r"
    by (auto simp: parse_with_budget_def split: sum.splits)
  with parse_tokens_compiled(2)[OF r, of eng] show ?thesis by auto
qed

lemma parse_compiles_language_witness:
  "\<exists>r. \<exists>segs. tokenize no_regex (str ''git [push]*'') 0 = Inr (pattern_tokens segs, 0) \<and>
     (\<forall>ws. pattern_lang no_regex segs False ws \<longrightarrow> accepts_words no_regex r ws)"
proof -
  obtain r m where r: "parse_with_budget no_regex (str ''git [push]*'') Deny 0 = Inr (r, m)"
    using sample_pattern by blast
  then have "m = 0" by (simp add: parse_eval pattern_eval)
  with parse_compiles_language[OF r] show ?thesis by blast
qed

text \<open>
  C25. A retry accounts for its attempts: there are at most as many as the policy allows; its
  result is that of the last attempt when that succeeded or failed with an error that is never
  retried, a cancellation between retryable failures, or the exhaustion with the text of every
  attempt's error in order.
\<close>

theorem retry_accounts_for_attempts:
  assumes "retry_body env node policy body held inp w = (result, w', rs)" and "retry_policy.rp_max_attempts policy \<noteq> 0"
  shows "length rs \<le> unat (retry_policy.rp_max_attempts policy) \<and>
    ((rs \<noteq> [] \<and> result = last rs \<and> \<not> retryable (last rs) \<and> list_all retryable (butlast rs)) \<or>
     (result = Inl (CancelledError node) \<and> list_all retryable rs) \<or>
     (result = Inl (RetryExhaustedError node (retry_policy.rp_max_attempts policy) (error_texts env rs)) \<and>
      length rs = unat (retry_policy.rp_max_attempts policy) \<and> list_all retryable rs))"
  using retry_body_result[OF assms] by (simp add: retry_result_def)

lemma retry_accounts_for_attempts_witness:
  "length (snd (snd failing_retry)) \<le> 2 \<and>
   fst failing_retry = Inl (RetryExhaustedError (str ''again'') 2 (error_texts sample_run (snd (snd failing_retry))))"
proof -
  have r: "fst failing_retry = Inl (RetryExhaustedError (str ''again'') 2
      [str ''workflow step '' @ quoted (str ''s'') @ str '' failed: no'', str ''workflow step '' @ quoted (str ''s'') @ str '' failed: no''])"
    by code_simp
  obtain result w' rs where f: "failing_retry = (result, w', rs)" by (cases failing_retry)
  have "retryable (fst failing_retry)" unfolding r by (simp add: retryable_def)
  then show ?thesis using retry_accounts_for_attempts[OF f[unfolded failing_retry_def]] r
    by (auto simp: f two_attempts_def)
qed

text \<open>
  C26. A repeat runs its body while its predicate holds: at most as often as its limit allows,
  every output but the last satisfied the predicate, and a repeat that succeeds returns the last
  output, on which the predicate was false.
\<close>

theorem repeat_runs_while_predicate_holds:
  assumes "repeat_body predicate node limit next_input body held inp w = (result, w', outs)"
  shows "length outs \<le> unat limit \<and> (\<forall>out \<in> set (butlast outs). predicate out = Inr True) \<and>
     (\<forall>out. result = Inr out \<longrightarrow> outs \<noteq> [] \<and> last outs = out \<and> predicate out = Inr False)"
  using repeat_body_outputs[OF assms] by blast

lemma repeat_runs_while_predicate_holds_witness:
  "fst counting_repeat = Inr 3 \<and> last (snd (snd counting_repeat)) = (3 :: nat)"
proof -
  have r: "fst counting_repeat = Inr 3" by code_simp
  obtain result w' outs where f: "counting_repeat = (result, w', outs)" by (cases counting_repeat)
  from repeat_runs_while_predicate_holds[OF f[unfolded counting_repeat_def]] r show ?thesis by (simp add: f)
qed

text \<open>
  C27. What a completed provider turn reports: some poll delivered \<open>TurnFinished\<close>;
  with \<open>evs\<close> the events delivered before it over all polls, none of them an end, the
  text is the concatenation of their text deltas, the usage is the last one reported, and the
  events are \<open>TurnStarted\<close>, the public events of \<open>evs\<close> in order and the
  finished event. The provider's private continuation state is never among them.
\<close>

theorem provider_turn_reports_stream:
  assumes "run_text_turn_in_scope show_session env polls request = Some out" and "to_result out = Inr resp"
  shows "\<exists>past p evs stop rest latency. past @ [p] = take (Suc (length past)) polls \<and>
    concat (map answered (past @ [p])) = evs @ PTurnFinished stop # rest \<and> list_all (\<lambda>e. \<not> ends_turn e) evs \<and>
    atr_text resp = concat (map event_text evs) \<and> atr_usage resp = foldl usage_after None evs \<and>
    atr_stop_reason resp = Some stop \<and>
    atr_events resp = TurnStarted # concat (map runtime_events evs) @ [FinishedEvent stop (atr_usage resp) latency] \<and>
    (\<forall>v. ProviderMetadata (str ''provider_state'') v \<notin> set (atr_events resp))"
proof -
  obtain past p later evs stop rest where t: "polls = past @ p # later" "answered p = evs @ PTurnFinished stop # rest"
    "list_all (\<lambda>e. \<not> ends_turn e) (concat (map answered past) @ evs)"
    "resp = response_of (absorb (concat (map answered past) @ evs) \<lparr>tb_text = [], tb_usage = None, tb_events = [TurnStarted]\<rparr>) stop p"
    using turn_response[OF assms] by blast
  then show ?thesis
    by (intro exI[of _ past] exI[of _ p] exI[of _ "concat (map answered past) @ evs"] exI[of _ stop] exI[of _ rest]
        exI[of _ "duration_millis (pi_finished_elapsed p)"])
      (auto simp: response_of_def absorb_def runtime_events_private)
qed

lemma provider_turn_reports_stream_witness:
  "\<exists>resp :: (unit, unit) agent_turn_response. atr_events resp \<noteq> [] \<and>
     (\<forall>v. ProviderMetadata (str ''provider_state'') v \<notin> set (atr_events resp))"
proof -
  have t: "0 < rq_timeout sample_loop_request" by (simp add: sample_loop_request_def agent_turn_request_new_def)
  obtain out resp where "run_text_turn_in_scope (\<lambda>_. []) quiet_env [quiet_poll answer_events] sample_loop_request = Some out"
    "to_result out = Inr resp"
    using quiet_turn[OF t, of "\<lambda>_. []" answer_events] by (simp add: answer_turn)
  from provider_turn_reports_stream[OF this] show ?thesis by (intro exI[of _ resp]) auto
qed

text \<open>
  C28. Supplied configuration wins and defaults fill the rest: in the merged configuration every
  path at which the supplied value holds something other than an object has that value, and every
  path the supplied value leaves open, at whatever depth, reads as in the defaults.
\<close>

theorem configuration_overlays_defaults:
  assumes "merge_authoring_configuration (Some defaults) (Some supplied) = Inr merged"
    and "json_sorted defaults" and "json_sorted supplied"
  shows "(follow supplied path = Some v \<and> \<not> is_object v \<longrightarrow> follow merged path = Some v) \<and>
    (left_open supplied path \<longrightarrow> follow merged path = follow defaults path)"
proof -
  have "merged = merge_json defaults supplied"
    using assms(1) by (auto simp: merge_authoring_configuration_def split: sum.splits)
  then show ?thesis using supplied_wins[OF assms(2,3)] default_survives[OF assms(2,3)] by blast
qed

lemma configuration_overlays_defaults_witness:
  "follow (merge_json sample_defaults sample_supplied) (map str [''model'', ''size'']) = Some (JNumber 2) \<and>
   follow (merge_json sample_defaults sample_supplied) (map str [''model'', ''name'']) = Some (JString (str ''small''))"
proof -
  have c: "merge_authoring_configuration (Some sample_defaults) (Some sample_supplied) = Inr (merge_json sample_defaults sample_supplied)"
    by code_simp
  have s: "json_sorted sample_defaults" "json_sorted sample_supplied" by code_simp+
  have f: "follow sample_supplied (map str [''model'', ''size'']) = Some (JNumber 2)"
    "left_open sample_supplied (map str [''model'', ''name''])"
    "follow sample_defaults (map str [''model'', ''name'']) = Some (JString (str ''small''))" by code_simp+
  show ?thesis
    using configuration_overlays_defaults[OF c s, of "map str [''model'', ''size'']" "JNumber 2"]
      configuration_overlays_defaults[OF c s, of "map str [''model'', ''name'']" "JNumber 2"] f by simp
qed

text \<open>
  C29. Cancellation reaches every handle once. Cancelling the active turn signals exactly the
  handles registered at that moment, in their order, and keeps none; the turn accepts no more
  work, a handle registered afterwards is signalled at once and refused, and an event that had
  passed its check before is discarded, not published.
\<close>

theorem cancellation_signals_every_handle:
  assumes "turn_reachable w" and "k < length (scopes w)" and "cancel_turn (scopes w ! k) w = (w', True)"
  shows "signalled w' = signalled w @ map snd (tc_cancellations (controls w ! k)) \<and>
    tc_lifecycle (controls w' ! k) = Cancelling \<and> tc_cancellations (controls w' ! k) = [] \<and>
    \<not> accepts_work (scopes w' ! k) w' \<and>
    (\<forall>i h. register_cancellation i h (controls w' ! k) = (controls w' ! k, [h], False)) \<and>
    (\<forall>i e taken. pending w' ! i = (k, e) \<longrightarrow> published (emit_publish i taken w') = published w')"
  using is_active_control[OF reachable_ok[OF assms(1)] assms(2)] assms(3)
  by (auto simp: cancel_turn_def close_for_cancellation_def put_control_def accepts_work_def accepts_normal_output_def
      register_cancellation_def emit_publish_def Let_def split: if_splits)

lemma cancellation_signals_every_handle_witness:
  "signalled (fst (cancel_turn (scopes registered_turn ! 0) registered_turn)) = signalled registered_turn @ [9]"
proof -
  obtain w' where w': "cancel_turn (scopes registered_turn ! 0) registered_turn = (w', True)"
    using registered_turn_facts(4) by (metis prod.collapse)
  have "0 < length (scopes registered_turn)" by (simp add: registered_turn_facts(2))
  from cancellation_signals_every_handle[OF registered_turn_facts(1) this w'] w' registered_turn_facts(3)
  show ?thesis by simp
qed

text \<open>
  C30. The validator cache cannot be observed: from a cache it built itself, with a serialization
  that tells values apart, compilation returns what it returns without a cache, errors with the
  path of the caller included, and leaves such a cache again, never above its bounds.
\<close>

theorem validator_cache_is_transparent:
  assumes "validator_cache_ok env cache" and "bytes_injective env"
  shows "fst (compile_runtime_value_schema env path schema cache) = admit_schema env path schema \<and>
    validator_cache_ok env (snd (compile_runtime_value_schema env path schema cache))"
  using cache_transparent[OF assms] cache_kept[OF assms(1)] by blast

lemma validator_cache_is_transparent_witness:
  "fst (compile_runtime_value_schema sample_schemas [] (schema_of ''string'')
      (snd (compile_runtime_value_schema sample_schemas [] (schema_of ''string'') [])))
    = admit_schema sample_schemas [] (schema_of ''string'')"
proof -
  have e: "validator_cache_ok sample_schemas []" by (simp add: validator_cache_ok_def)
  from validator_cache_is_transparent[OF e sample_schemas_injective]
    validator_cache_is_transparent[OF _ sample_schemas_injective] show ?thesis by blast
qed

text \<open>
  C31. Exchanges are forwarded once and answered once. However the calls on the clones of an
  invocation scope interleave with each other and with the turns, the host broker never sees the
  same exchange id of an invocation twice nor an exchange of another invocation, and each request
  it saw is either waiting or answered, exactly once. After asking the host the tool is given
  another answer than \<open>Cancelled\<close> only while its turn accepts work. Every other
  answer is local: \<open>Failed\<close> for a request of another invocation, with an empty id or
  with an id that was already forwarded (whether the turn accepts work or not), or
  \<open>Cancelled\<close>.
\<close>

theorem exchanges_are_forwarded_once:
  assumes "invocation_reachable s"
  shows "distinct (map exr_exchange_id (ir_forwarded s)) \<and>
    (\<forall>r \<in> set (ir_forwarded s). exr_invocation_id r = is_invocation_id (ir_scope s) \<and> exr_exchange_id r \<noteq> []) \<and>
    mset (ir_waiting s) + mset (host_answered s) = mset (ir_forwarded s) \<and>
    (\<forall>r x working. (r, x, Some working) \<in> set (ir_answers s) \<longrightarrow> working \<or> x = ExchangeCancelled) \<and>
    (\<forall>r x. (r, x, None) \<in> set (ir_answers s) \<longrightarrow>
       (if exr_invocation_id r \<noteq> is_invocation_id (ir_scope s)
        then \<exists>m. x = ExchangeFailed (str ''invocation_id_mismatch'') m
        else if exr_exchange_id r = [] then \<exists>m. x = ExchangeFailed (str ''invalid_exchange_id'') m
        else x = ExchangeCancelled \<or>
          (\<exists>m. x = ExchangeFailed (str ''duplicate_exchange_id'') m) \<and>
            exr_exchange_id r \<in> exr_exchange_id ` set (ir_forwarded s)))"
proof -
  have ok: "exchanges_ok s" using exchanges_reachable[OF assms] by blast
  have answers: "\<forall>a \<in> set (ir_answers s). answer_ok (ir_scope s) (ir_forwarded s) a" using ok by (simp add: exchanges_ok_def)
  have "working \<or> x = ExchangeCancelled" if "(r, x, Some working) \<in> set (ir_answers s)" for r x working
    using bspec[OF answers that] by simp
  moreover have "answered_locally (ir_scope s) (ir_forwarded s) r x" if "(r, x, None) \<in> set (ir_answers s)" for r x
    using bspec[OF answers that] by simp
  note answered_locally_cases[OF this]
  moreover have "distinct (map exr_exchange_id (ir_forwarded s))"
    "\<forall>r \<in> set (ir_forwarded s). exr_invocation_id r = is_invocation_id (ir_scope s) \<and> exr_exchange_id r \<noteq> []"
    "mset (ir_waiting s) + mset (host_answered s) = mset (ir_forwarded s)"
    using ok by (simp_all add: exchanges_ok_def)
  ultimately show ?thesis by blast
qed

lemma exchanges_are_forwarded_once_witness:
  "distinct (map exr_exchange_id (ir_forwarded refused_run)) \<and>
     mset (ir_waiting refused_run) + mset (host_answered refused_run) = mset [ask_exchange]"
  using exchanges_are_forwarded_once[OF refused_reachable] by (simp add: refused_run_def asked_run_def)

text \<open>
  C32. The backoff before attempt n is the initial delay times the multiplier to the power n - 2,
  capped by the configured maximum, for every delay of 64 bits without wrapping around: the
  computation fails exactly when the power does not fit, and delays never shrink from one attempt
  to the next.
\<close>

theorem backoff_grows_to_its_cap:
  assumes "backoff_ms p n = Inr d" and "n \<le> n'" and "0 < rp_backoff_multiplier p"
  shows "unat d = min (unat (rp_initial_backoff_ms p) * unat (rp_backoff_multiplier p) ^ (unat n - 2)) (unat (rp_maximum_backoff_ms p)) \<and>
    ((\<exists>d'. backoff_ms p n' = Inr d') \<longleftrightarrow> unat (rp_backoff_multiplier p) ^ (unat n' - 2) < 2 ^ 64) \<and>
    (\<forall>d'. backoff_ms p n' = Inr d' \<longrightarrow> d \<le> d')"
  using assms backoff_value[of p n d] backoff_exists[of p n'] backoff_monotone[OF assms(1) _ assms(2,3)] by blast

lemma backoff_grows_to_its_cap_witness: "\<exists>d. backoff_ms sample_retries 4 = Inr d \<and> 200 \<le> d"
proof -
  have "backoff_ms sample_retries 3 = Inr 200" and later: "backoff_ms sample_retries 4 = Inr 400" by code_simp+
  from backoff_grows_to_its_cap[OF this(1), of 4] later show ?thesis by (simp add: sample_retries_def)
qed

text \<open>
  C33. No secrets are stored: in a value accepted for persistence no object at any depth is a
  reference to an environment secret, and every field with a sensitive name is null.
\<close>

theorem persisted_values_hold_no_secrets:
  assumes "validate_persistable_authoring_value path v = Inr ()" and "inside (JObject kvs) v"
  shows "\<not> secret_reference (JObject kvs) \<and> (\<forall>(k, w) \<in> set kvs. \<not> sensitive_field k \<or> w = JNull)"
  using persisted_value_safe[OF assms] by blast

lemma persisted_values_hold_no_secrets_witness:
  "\<not> secret_reference (JObject [(str ''token'', JString (str ''x'')), (str ''Password'', JNull :: int json)])"
proof -
  let ?v = "JObject [(str ''token'', JString (str ''x'')), (str ''Password'', JNull :: int json)]"
  have ok: "validate_persistable_authoring_value [] ?v = Inr ()" by code_simp
  from persisted_values_hold_no_secrets[OF ok itself] show ?thesis by blast
qed

text \<open>
  C34. Presentation updates are fenced. Of any sequence of updates offered to a fresh scope, by
  either operation, the accepted ones never go back: generations do not decrease, and within a
  generation the revisions of an identity increase strictly; each accepted update is well formed
  and its encoding fits the bound. A bounded acceptance that fails changes nothing.
\<close>

theorem presentation_updates_are_fenced:
  assumes "max_bytes < 2 ^ 64 - 1" and "accepted = snd (accept_all enc max_bytes updates default_update_scope)"
  shows "sorted_wrt newer accepted \<and>
    (\<forall>u \<in> set accepted. update_malformed u = None \<and> sum_list (fst (enc u)) \<le> max_bytes) \<and>
    (\<forall>u s s' e. accept_bounded enc u max_bytes s = (s', Inl e) \<longrightarrow> s' = s)"
proof -
  have "scope_ok default_update_scope" by (simp add: scope_ok_def default_update_scope_def)
  from accept_all_newer[OF this] accept_all_admitted[OF assms(1)] accept_bounded_atomic assms(2) show ?thesis by metis
qed

lemma presentation_updates_are_fenced_witness:
  "sorted_wrt newer [sample_update 0 1, sample_update 1 0]"
  using presentation_updates_are_fenced[OF _ sample_updates_run[symmetric]] by simp

text \<open>
  C35. Accepted predicates are bounded: at most 256 operations, nested at most 16 deep, all of one
  version.
\<close>

theorem accepted_predicates_are_bounded:
  assumes "validate_predicate_expression env e = Inr ()"
  shows "pred_nodes e \<le> 256 \<and> pred_within 16 e \<and> pred_versions e = {predicate_version e}"
  using predicate_bounds[OF assms] by blast

lemma accepted_predicates_are_bounded_witness: "pred_nodes done_predicate \<le> 256"
proof -
  have "validate_predicate_expression sample_values done_predicate = Inr ()" by code_simp
  from accepted_predicates_are_bounded[OF this] show ?thesis by blast
qed

text \<open>
  C36. No step is left running. However leaf steps, sequences, branches, repeats and retries are
  nested, and whether they succeed, fail, panic or are cancelled at any await point, a node is
  Running in the snapshot after the step only if it was before, provided that the operations of
  the application and the tasks that run while it waits for a permit leave none running
  themselves. The only exception is a branch whose predicate cannot be evaluated: it returns the
  error of the predicate and leaves its own node Running.
\<close>

theorem steps_leave_nothing_running:
  assumes "composed env codec step_run" and "quiet_waits env"
  shows "running_nodes (snd (step_run held inp w)) \<subseteq> running_nodes w \<and>
    (prior held inp w = (Inr m, w1) \<and> predicate m = Inl e \<longrightarrow>
      (case branch_run env predicate node true_nodes false_nodes prior when_true when_false held inp w of
         (result, w') \<Rightarrow> result = Inl e \<and> node \<in> running_nodes w'))"
proof
  show "running_nodes (snd (step_run held inp w)) \<subseteq> running_nodes w" using composed_settles[OF assms] by (simp add: settles_def)
qed (simp add: branch_unsettled(1))

lemma steps_leave_nothing_running_witness:
  "running_nodes (snd (retried_step False 0 quiet_world)) = {}"
proof -
  have "running_nodes quiet_world = {}"
    by (simp add: running_nodes_def quiet_world_def run_world_new_def tracker_new_def snapshot_new_def)
  with steps_leave_nothing_running[OF retried_composed quiet_sample, of False 0 quiet_world, THEN conjunct1]
  show ?thesis by simp
qed

text \<open>
  C37. Bounded concurrency of a batch: at every moment of every run of it, the calls in flight,
  and the peak observed so far in the group, are no more than the configured
  \<open>max_concurrency\<close>; without parallel mode at most one call is in flight, and never
  more than the batch has calls. The bound of \<open>buffer_unordered\<close> is the library's
  contract; that each group is given the right bound and that the groups do not overlap is the
  runtime's.
\<close>

theorem batch_respects_concurrency:
  assumes "batch_moment env calls rounds rounds' before (Some s)"
  shows "(\<forall>n. opt_max_concurrency (be_options env) = Some n \<longrightarrow> length (gs_running s) \<le> n \<and> gs_peak s \<le> n) \<and>
    (\<not> opt_parallel (be_options env) \<longrightarrow> length (gs_running s) \<le> 1) \<and> length (gs_running s) \<le> length calls"
  using batch_moment_concurrency[OF assms] by blast

lemma batch_respects_concurrency_witness:
  "length (gs_running (start_dispatch 0 (group_init [look_call] [0, 0] True) :: (unit, unit) group_state)) \<le> length sample_calls"
  using batch_respects_concurrency[OF plan_batch_moment] by blast

text \<open>
  C38. No deadlock: take any group of calls with the concurrency that its options give it, not
  zero, and any state that some interleaving of starts, returns and cancellation has brought it
  to. Unless the group is finished, some step that is not a cancellation is possible; no
  interleaving goes on for ever; where one can go no further, the group is finished and every call
  has exactly one completion. So every schedule completes.
\<close>

theorem every_schedule_completes:
  assumes "opt_max_concurrency options \<noteq> Some 0"
    and "group_run policy (batch_concurrency options (length calls)) (group_init calls settled b) s"
    and "distinct (indices calls)" and "\<forall>p \<in> set calls. pc_index p < length settled"
  shows "(gs_phase s \<noteq> Finished \<longrightarrow> (\<exists>s'. group_step policy (batch_concurrency options (length calls)) s s' \<and>
      (gs_open s \<longrightarrow> gs_open s'))) \<and>
    (\<forall>f. f 0 = s \<longrightarrow> (\<exists>i. \<not> group_step policy (batch_concurrency options (length calls)) (f i) (f (Suc i)))) \<and>
    ((\<forall>s'. \<not> group_step policy (batch_concurrency options (length calls)) s s') \<longrightarrow>
      gs_phase s = Finished \<and> mset (map fst (gs_completions s)) = mset (indices calls))"
proof -
  have pos: "0 < batch_concurrency options (length calls)" using assms(1) by (intro concurrency_pos) (simp add: options_ok_def)
  have "group_ok calls settled" using assms(3,4) by (simp add: group_ok_def)
  with stuck_group_finished[OF assms(2) _ pos] group_progress[OF _ pos] no_infinite_group show ?thesis by blast
qed

lemma every_schedule_completes_witness:
  "\<exists>s'. group_step default_result_policy 1 (start_dispatch 0 (group_init [look_call] [0] True) :: (unit, unit) group_state) s' \<and>
     gs_open s'"
proof -
  let ?s = "group_init [look_call] [0] True :: (unit, unit) group_state"
  have c: "batch_concurrency default_execution_options (length [look_call]) = 1"
    by (simp add: batch_concurrency_def default_execution_options_def)
  have "group_step default_result_policy 1 ?s (start_dispatch 0 ?s)"
    by (rule step_dispatch) (simp_all add: group_init_def)
  with run_init have "group_run default_result_policy 1 ?s (start_dispatch 0 ?s)" by (rule run_step)
  with every_schedule_completes[where options = default_execution_options and calls = "[look_call]" and
      policy = default_result_policy and settled = "[0]" and b = True and s = "start_dispatch 0 ?s"] c
  show ?thesis by (simp add: default_execution_options_def look_call_def start_dispatch_def group_init_def Let_def)
qed

text \<open>
  C39. The two closures of a member are the same function: on a package without cycles, the
  recursive closure of the compiled package and the budgeted closure of the package analysis, with
  the number of members as its budget, both are the members it depends on transitively, in the
  order of names.
\<close>

theorem package_closures_agree:
  assumes "length (member_map ms) = length ms" and "dependencies_known (member_map ms)"
    and "acyclic (edges (member_map ms))" and "bt_get (member_map ms) root = Some m"
  shows "workflow_package_member_closure m (member_map ms) = Inr (sorted_list_of_set ((depends (member_map ms))\<^sup>+ `` {root})) \<and>
    workflow_package_recursive_closure ms root (length ms) = workflow_package_member_closure m (member_map ms)"
  using closures_agree[OF assms] by blast

lemma package_closures_agree_witness:
  "workflow_package_recursive_closure sample_package (str ''a'') 3 = Inr [str ''b'', str ''c'']"
proof -
  have "workflow_package_member_closure (sample_member ''a'' [''b'', ''c'']) (member_map sample_package) = Inr [str ''b'', str ''c'']"
    by code_simp
  moreover have "length sample_package = 3" by (simp add: sample_package_def)
  moreover have "bt_get (member_map sample_package) (str ''a'') = Some (sample_member ''a'' [''b'', ''c''])" by code_simp
  ultimately show ?thesis
    using package_closures_agree[OF sample_package_ok(3) checked_package(1,2)[OF sample_package_ok(1,2)],
      of "str ''a''" "sample_member ''a'' [''b'', ''c'']"] by simp
qed

text \<open>
  C40. A bound value is read where it was written: after a value is set at a dotted path, reading
  the path gives that value, and every path that parts from it on the way reads as before, whether
  it gave a value or was missing: the parents that are created on the way hold nothing else.
\<close>

theorem paths_read_what_was_set:
  assumes "set_authoring_json_path root path v = Inr root'"
  shows "authoring_value_at_path root' path = Inr v \<and>
    (diverges (dotted_components path) (dotted_components other) \<longrightarrow>
       authoring_value_at_path root' other = authoring_value_at_path root other)"
  using paths_read_what_was_written[OF assms] set_components_frame[OF assms[unfolded set_authoring_json_path_def]]
  by (simp add: authoring_value_at_path_def)

lemma paths_read_what_was_set_witness:
  "\<exists>root'. set_authoring_json_path sample_defaults (str ''model.size'') (JNumber 7) = Inr root' \<and>
     authoring_value_at_path root' (str ''model.size'') = Inr (JNumber 7) \<and>
     authoring_value_at_path root' (str ''model.name'') = Inr (JString (str ''small''))"
proof -
  have "\<not> Option.is_none (case set_authoring_json_path sample_defaults (str ''model.size'') (JNumber 7) of Inl _ \<Rightarrow> None | Inr r \<Rightarrow> Some r)"
    by code_simp
  then obtain r where r: "set_authoring_json_path sample_defaults (str ''model.size'') (JNumber 7) = Inr r"
    by (auto split: sum.splits)
  have "diverges (dotted_components (str ''model.size'')) (dotted_components (str ''model.name''))"
    "authoring_value_at_path sample_defaults (str ''model.name'') = Inr (JString (str ''small''))" by code_simp+
  with paths_read_what_was_set[OF r, of "str ''model.name''"] r show ?thesis by (intro exI[of _ r]) simp
qed

section \<open>Further results on the policy evaluation and the batch\<close>

text \<open>
  The index of legacy globs by first word is invisible: filtered by the glob matcher, the indexed
  candidates of a command are the rules of the whole layer that match it, with their positions and
  in configuration order.
\<close>

theorem legacy_index_invisible:
  assumes "compile_layer eng (n, layer) = Inr cl"
  shows "filter (\<lambda>(i, r). glob_matches (rule_pattern r) command) (legacy_candidates cl command)
    = filter (\<lambda>(i, r). glob_matches (rule_pattern r) command) (enumerated (cl_legacy cl))"
  using legacy_index.hits_of_scan[OF compile_layer_ok(1)[OF assms] TrueI] .

lemma legacy_index_invisible_witness:
  "\<exists>cl :: unit compiled_layer. filter (\<lambda>(i, r). glob_matches (rule_pattern r) (str ''git status'')) (legacy_candidates cl (str ''git status''))
    = filter (\<lambda>(i, r). glob_matches (rule_pattern r) (str ''git status'')) (enumerated (cl_legacy cl))"
  using sample_layer legacy_index_invisible by blast

text \<open>
  The effective command keeps its identity. Stripping \<open>env\<close> prefixes only drops
  leading words of the original command; what remains has a literal executable that is no shell
  evaluator, and the source, the span and the original match candidates are those of the command,
  so a denial of the full text still applies.
\<close>

theorem effective_command_keeps_identity:
  assumes "effective_command c = Inr s"
  shows "(\<exists>v sp. sub_executable s = Static v sp \<and> v \<noteq> str ''eval'' \<and> v \<noteq> str ''.'' \<and> v \<noteq> str ''source'') \<and>
    (\<exists>n. sub_executable s # sub_arguments s = drop n (cmd_executable c # cmd_arguments c)) \<and>
    sub_source s = cmd_source c \<and> sub_span s = cmd_span c \<and>
    prefix (map cand_subject (cmd_match_candidates c)) (sub_candidates s)"
  using effective_command_facts[OF assms] by blast

lemma effective_command_keeps_identity_witness:
  "\<exists>n. sub_executable (original_subject launch_command) # sub_arguments (original_subject launch_command)
    = drop n (cmd_executable launch_command # cmd_arguments launch_command)"
  using effective_command_keeps_identity[OF launch_effective] by blast

text \<open>
  The execution views cover the whole chain of launchers. When the visit of a subject succeeds,
  every command that its launchers go on to execute was visited, also under its base name where
  that differs, and every visited view has a literal executable that is no shell evaluator.
\<close>

theorem execution_views_cover_chain:
  assumes "visit s = Inr views"
  shows "chain_seen s (sub_executable s, sub_arguments s) views \<and>
    (\<forall>x \<in> set views. validate_executable (sub_executable x) = Inr ())"
  using visit_facts[OF assms] by blast

lemma execution_views_cover_chain_witness:
  "chain_seen (original_subject (sample_command ''ls'' (sw ''ls'') [])) (sw ''ls'', []) []"
proof -
  have "visit (original_subject (sample_command ''ls'' (sw ''ls'') [])) = Inr []"
    by (rule visit_plain[where v = "str ''ls''" and sp = sample_span])
      (simp_all add: original_subject_def sample_command_def sw_def validate_executable_def basename_def is_launcher_def
        after_last_def str_def SLASH_def ch_def)
  from execution_views_cover_chain[OF this] show ?thesis
    by (simp add: original_subject_def sample_command_def)
qed

text \<open>
  Compound operations: a valid compound call is denied if some child is denied, asks if some child
  asks, and is allowed otherwise; and when it is not denied it carries no rule or match that could
  be remembered for the whole.
\<close>

theorem compound_most_severe:
  assumes "req_operation request = Compound ops" and "\<not> compound_invalid ops"
    and "child = (\<lambda>op. pe_decision (evaluate_tool_call env config (request\<lparr>req_operation := op\<rparr>) cwd))"
    and "result = evaluate_tool_call env config request cwd"
  shows "pe_decision result = (if DDeny \<in> child ` set ops then DDeny else if DAsk \<in> child ` set ops then DAsk else DAllow) \<and>
    (pe_decision result = DDeny \<or>
      pe_matched_rule result = None \<and> pe_matches result = [] \<and> resp_shell (pe_response result) = None)"
proof -
  let ?rs = "map (\<lambda>op. evaluate_tool_call env config (request\<lparr>req_operation := op\<rparr>) cwd) ops"
  have r: "result = compound_outcome ?rs"
    using tool_call_compound[OF assms(1)] assms(2,4) by simp
  have d: "d \<in> child ` set ops \<longleftrightarrow> (\<exists>r \<in> set ?rs. pe_decision r = d)" for d
    by (auto simp: assms(3))
  show ?thesis
    unfolding r d using compound_decision[of ?rs] compound_forgets[of ?rs] by blast
qed

lemma compound_most_severe_witness:
  "pe_decision (evaluate_tool_call sample_env default_agent_config
     (sample_request ''t'' (Compound [ReadOnly, Mutating])) (str ''/'')) = DDeny"
proof -
  have "pe_decision (evaluate_tool_call sample_env default_agent_config (sample_request ''t'' Mutating) (str ''/'')) = DDeny"
    by (subst tool_call_single) (simp_all add: sample_request_def evaluate_single_def tool_enabled_def tool_aliases_def
        config_defs external_path_def evaluate_after_path_def evaluate_mutating_fallback_def bs_from_def bt_get_def)
  then show ?thesis
    using compound_most_severe[of "sample_request ''t'' (Compound [ReadOnly, Mutating])" "[ReadOnly, Mutating]",
        OF _ _ refl refl, of sample_env default_agent_config "str ''/''"]
    by (simp add: sample_request_def compound_invalid_def)
qed

text \<open>
  Subprocess admission: a process operation that is not denied is well formed, its program is
  enabled by its own \<open>process.\<close> name (the parent tool confers nothing), and every
  resource it declares is evaluated under that name and bounds the decision.
\<close>

theorem process_needs_admission:
  assumes "req_operation request = Process exe args dir reads writes urls"
    and "pe_decision (evaluate_tool_call env config request cwd) \<noteq> DDeny"
  shows "\<not> process_invalid (req_operation request) \<and>
    bt_get (cfg_tools config) (str ''process.'' @ process_name exe) = Some True \<and>
    (\<forall>op \<in> set (process_operations (req_operation request)).
      pe_decision (evaluate_tool_call env config (request\<lparr>req_tool_name := str ''process.'' @ process_name exe,
        req_aliases := [], req_operation := op\<rparr>) cwd)
      \<le> pe_decision (evaluate_tool_call env config request cwd))"
  using process_admission[of request env config cwd] assms by simp

lemma process_needs_admission_witness:
  "bt_get (cfg_tools make_config) (str ''process.'' @ str ''make'') = Some True"
proof -
  have n: "process_name (str ''make'') = str ''make''"
    by (simp add: process_name_def path_components_def component_of_def path_is_absolute_def Let_def str_def SLASH_def ch_def)
  have "pe_decision (evaluate_tool_call sample_env make_config make_request (str ''/'')) \<noteq> DDeny" by (rule make_admitted)
  from process_needs_admission[OF _ this] n show ?thesis by (simp add: make_request_def sample_request_def)
qed

text \<open>
  Redirections count: the decision about a script is at least as severe as the file rule for each
  of its redirection targets, reads by the read rules and writes by the write rules with denial as
  the default.
\<close>

theorem redirections_bound_shell:
  assumes "req_operation request = Command command (Some an) err" and "redirect \<in> set (an_redirections an)"
    and "evaluate_redirection (env_glob env) config redirect = Inr (Some d)"
  shows "agent_decision_of (ssd_action d) \<le> pe_decision (evaluate_shell env config request)"
  using assms by (rule shell_redirection_severity)

lemma redirections_bound_shell_witness:
  "agent_decision_of Deny \<le> pe_decision (evaluate_shell sample_env ls_config (sample_request ''shell''
     (Command (Some (str ''ls'')) (Some (sample_analysis ''ls'' [sample_command ''ls'' (sw ''ls'') []] [out_redirection])) None)))"
proof -
  obtain d where "evaluate_redirection (env_glob sample_env) ls_config out_redirection = Inr (Some d)" "ssd_action d = Deny"
    by (simp add: evaluate_redirection_def out_redirection_def redirection_rules_def ls_config_def command_config_def
        config_defs compile_path_rules_def matching_path_rule_def List.map_filter_def)
  with redirections_bound_shell[of "sample_request ''shell'' (Command (Some (str ''ls''))
      (Some (sample_analysis ''ls'' [sample_command ''ls'' (sw ''ls'') []] [out_redirection])) None)"] show ?thesis
    by (fastforce simp: sample_request_def sample_analysis_def)
qed

text \<open>
  Under the plan agent nothing that its owner declares mutating or writing is ever invoked: the
  facts of every invoked call decode to an operation that is neither.
\<close>

theorem plan_agent_invokes_no_writer:
  assumes "governed_by penv from_json policy env" and "batch_run env calls rounds rounds' r invoked"
    and "p \<in> set invoked" and "app_config policy = plan_agent_config"
  shows "\<exists>m. tool_policy_authorization_metadata_of from_json
      (pr_authorization (pti_preparation (pc_invocation p))) (call_name (pc_call p)) = Inr m \<and>
    meta_operation m \<noteq> Mutating \<and> (\<forall>paths category. meta_operation m \<noteq> Write paths category)"
  using assms by (rule plan_agent_batch)

lemma plan_agent_invokes_no_writer_witness:
  "\<exists>m. tool_policy_authorization_metadata_of (\<lambda>_. Inr read_metadata)
      (pr_authorization (pti_preparation (pc_invocation look_call))) (call_name (pc_call look_call)) = Inr m \<and>
    meta_operation m \<noteq> Mutating"
proof -
  obtain out :: "(unit, unit) tool_batch_execution_output" where
    "batch_run plan_batch sample_calls (round_state_new 3) sample_rounds (Inr out) [look_call]"
    using plan_batch_runs by blast
  from plan_agent_invokes_no_writer[OF plan_batch_governed this] show ?thesis
    by (auto simp: plan_policy_def policy_new_def)
qed

text \<open>
  The repetition guard counts exactly: of identical batches in a row the first
  \<open>limit\<close> pass and every further one is refused with its number, as long as the count
  fits 32 bits.
\<close>

theorem repeats_are_limited:
  assumes "\<forall>b \<in> set bs. semantic_batch b = semantic_batch c" and "length bs < 2 ^ 32 - 1" and "0 < limit"
  shows "snd (observe_all (repeat_guard_new limit) (c # bs)) = Inr () # map (\<lambda>k.
      if Suc (Suc k) > unat limit then Inl (RepeatedToolCallBatch (1 + of_nat (Suc k)) limit) else Inr ()) [0..<length bs]"
proof -
  let ?g = "\<lparr>guard_limit = limit, guard_repeats = 1, guard_previous = Some (semantic_batch c)\<rparr>"
  have "\<not> limit < 1" using assms(3) by (metis not_less_iff_gr_or_eq word_less_1 word_gt_0)
  then have "observe_batch (repeat_guard_new limit) c = (?g, Inr ())"
    by (simp add: observe_batch_def repeat_guard_new_def)
  then have "snd (observe_all (repeat_guard_new limit) (c # bs)) = Inr () # snd (observe_all ?g bs)"
    by (simp split: prod.splits)
  with observe_repeats[of bs "semantic_batch c" ?g] assms(1,2) show ?thesis by simp
qed

lemma repeats_are_limited_witness:
  "snd (observe_all (repeat_guard_new 2) [sample_calls, sample_calls, sample_calls])
     = [Inr (), Inr (), Inl (RepeatedToolCallBatch 3 2)]"
  using repeats_are_limited[of "[sample_calls, sample_calls]" sample_calls 2] by (simp add: upt_rec)

text \<open>
  The answer of the loop accounts for its rounds: its events are all events of the loop, and its
  usage aggregates the usage of exactly those provider turns, failed attempts excluded, that
  reported one. A token bucket is known if every such turn reports it, and is then the sum, capped
  at the 32-bit maximum.
\<close>

theorem answer_accounts_for_rounds:
  assumes "loop_reaches c (loop_init options request) n s" and "loop_step c s (Done s' (Inr resp))"
    and "us = reported_usages (ls_turns s')"
  shows "atr_events resp = ls_events s' \<and> (us = [] \<longrightarrow> atr_usage resp = None) \<and>
    (us \<noteq> [] \<longrightarrow> (\<exists>u. atr_usage resp = Some u \<and>
      (\<forall>bucket \<in> {input_tokens, output_tokens, total_tokens, cached_input_tokens, cache_write_input_tokens,
          reasoning_tokens}.
        map_option unat (bucket u) = (if \<exists>v \<in> set us. bucket v = None then None
          else Some (min (bucket_sum bucket us) (2 ^ 32 - 1))))))"
proof -
  note la = loop_answer[OF loop_reaches_inv[OF assms(1) refl] assms(2)]
  have "us = [] \<Longrightarrow> atr_usage resp = None" using la(2,3) assms(3) by (simp add: aggregate_finished_usage_def Let_def)
  with la(1,2) aggregate_usage_buckets[of us "ls_events s'"] la(3) assms(3) show ?thesis by simp
qed

lemma answer_accounts_for_rounds_witness:
  "\<exists>s' resp u. loop_step plan_loop (loop_init default_execution_options sample_loop_request) (Done s' (Inr resp)) \<and>
     atr_usage resp = Some u \<and> map_option unat (input_tokens u) = Some 5"
proof -
  obtain s' resp where a: "loop_step plan_loop (loop_init default_execution_options sample_loop_request) (Done s' (Inr resp))"
    "reported_usages (ls_turns s') = [small_usage]"
    using plan_loop_answers by blast
  from answer_accounts_for_rounds[OF reach_init a(1) refl] a show ?thesis
    by (auto simp: small_usage_def bucket_sum_def)
qed

text \<open>
  Finalization of structured output is tool free and final: once the loop has entered it,
  structured output was requested for tool-free execution and tools were offered; the request now
  proposed offers no tool, forbids tool calls and carries the requested schema, and the next pass
  is the last, so no tool batch can follow.
\<close>

theorem finalization_is_tool_free:
  assumes "loop_reaches c (loop_init options request) n s" and "config_for c request" and "ls_finalizing s"
  shows "requires_finalization request \<and> rq_tools (ls_request s) = [] \<and>
    tcp_choice (rq_tool_call_policy (ls_request s)) = ChoiceNone \<and>
    rq_structured_output (ls_request s) = rq_structured_output request \<and> (\<forall>s'. \<not> loop_step c s (Again s'))"
  using loop_reaches_inv[OF assms(1) refl] assms(2,3) loop_inv_step[OF loop_reaches_inv[OF assms(1) refl]]
  unfolding loop_inv_def config_for_def by auto

lemma finalization_is_tool_free_witness:
  "\<exists>s. ls_finalizing s \<and> rq_tools (ls_request s) = [] \<and> (\<forall>s'. \<not> loop_step final_loop s (Again s'))"
proof -
  obtain s where "loop_reaches final_loop (loop_init default_execution_options final_request) 1 s" "ls_finalizing s"
    using final_loop_finalizes by blast
  with finalization_is_tool_free[OF _ final_config] show ?thesis by blast
qed

text \<open>
  Execution views restrict and never grant. The decision about a command is at least as severe as
  the decision about its effective command and as the decision about each of its execution views,
  and it equals one of them.
\<close>

theorem views_never_grant:
  assumes "evaluate_command eng cp (si, c) = Inr (d, ms)"
  shows "\<exists>subject views. effective_command c = Inr subject \<and> visit subject = Inr views \<and>
    ssd_action (fst (evaluate_subject eng cp subject False si)) \<le> ssd_action d \<and>
    (\<forall>view \<in> set views. ssd_action (fst (evaluate_subject eng cp view True si)) \<le> ssd_action d) \<and>
    (ssd_action d = ssd_action (fst (evaluate_subject eng cp subject False si)) \<or>
      (\<exists>view \<in> set views. ssd_action d = ssd_action (fst (evaluate_subject eng cp view True si))))"
  using assms by (rule evaluate_command_facts) blast

lemma views_never_grant_witness:
  "\<exists>cp subject. effective_command (sample_command ''ls'' (sw ''ls'') []) = Inr subject \<and>
     ssd_action (fst (evaluate_subject no_regex cp subject False 0)) \<le> Allow"
  using ls_command views_never_grant unfolding allows_ls_def by metis

text \<open>
  Unproven effects fail closed: if any call of a batch is not proven settled, or results are
  missing, nothing is appended to the conversation and the turn ends with
  \<open>ToolEffectsUnresolved\<close>; otherwise, when it succeeds, exactly one message per call
  is appended, in order.
\<close>

theorem unresolved_effects_fail_closed:
  assumes "append_tool_batch_results env policy calls batch ms es = (ms', es', r)"
  shows "(length (batch_results batch) \<noteq> length calls \<or> (\<exists>i < length calls. settlement_at batch i = Unresolved) \<longrightarrow>
      ms' = ms \<and> es' = es \<and> r = Inl ToolEffectsUnresolved) \<and>
    (r = Inr () \<longrightarrow> ms' = ms @ map (\<lambda>(c, res). tool_message (reported_result env policy c res))
        (zip calls (batch_results batch)))"
  using assms append_batch_unresolved[of batch calls env policy ms es] append_batch_ok(3)[of env policy calls batch ms es ms' es']
  by auto

lemma unresolved_effects_fail_closed_witness:
  "snd (snd (append_tool_batch_results \<lparr>ae_observer = \<lambda>_ _. Inr (), ae_emits = \<lambda>_. True, ae_show_err = \<lambda>_. []\<rparr>
     default_result_policy sample_calls
     \<lparr>batch_results = [Inl TurnCancelled, Inl TurnCancelled], batch_settlement = [Settled]\<rparr>
     ([] :: (unit, unit) model_message list) [])) = Inl ToolEffectsUnresolved"
proof -
  let ?batch = "\<lparr>batch_results = [Inl TurnCancelled, Inl TurnCancelled], batch_settlement = [Settled]\<rparr>
    :: (unit, unit) tool_batch_execution_output"
  have "length sample_calls = 2" by (simp add: sample_calls_def)
  moreover have "settlement_at ?batch 1 = Unresolved" by (simp add: settlement_at_def)
  ultimately have un: "\<exists>i < length sample_calls. settlement_at ?batch i = Unresolved"
    by (intro exI[of _ 1]) simp
  obtain ms' es' r where eq: "append_tool_batch_results \<lparr>ae_observer = \<lambda>_ _. Inr (), ae_emits = \<lambda>_. True,
      ae_show_err = \<lambda>_. []\<rparr> default_result_policy sample_calls ?batch ([] :: (unit, unit) model_message list) [] = (ms', es', r)"
    by (metis prod_cases3)
  with unresolved_effects_fail_closed[OF eq] un show ?thesis by simp
qed

text \<open>
  A refused call says why: when the coordinator answers in time, a prepared call that it asks
  about or denies is not invoked and its result is \<open>PermissionRequired\<close> or
  \<open>PermissionDenied\<close> with the coordinator's reason.
\<close>

theorem refusal_is_reported:
  fixes out :: "('json, 'data) tool_batch_execution_output"
  assumes "batch_run env calls rounds rounds' (Inr out) invoked"
    and "prepared_batch env calls = (ps, t0 :: ('json, 'data) terminal_results)"
    and "be_authorize env (map (authorization_request_of (be_context env)) ps) = Inr ds"
    and "be_open_at_start env" "be_open_prepared env" "\<not> be_authorization_cancelled env" "be_open_authorized env"
    and "k < length ps" "refusal (ds ! k) = Some e"
  shows "batch_results out ! pc_index (ps ! k) = Inl e \<and> pc_index (ps ! k) \<notin> set (indices invoked)"
  using assms by (rule batch_run_refused)

lemma refusal_is_reported_witness:
  "\<exists>(out :: (unit, unit) tool_batch_execution_output). batch_results out ! 0 = Inl (PermissionDenied (str ''no''))"
proof -
  obtain out :: "(unit, unit) tool_batch_execution_output" and invoked where
    "batch_run denied_batch sample_calls (round_state_new 3) sample_rounds (Inr out) invoked"
    using denied_batch_runs by blast
  from refusal_is_reported[OF this denied_batch_prepared, of "[AuthDeny (str ''no'')]" 0] show ?thesis
    by (auto simp: denied_batch_def sample_batch_def refusal_def look_call_def)
qed

text \<open>
  The model-visible result is bounded and accounted for: its text, its media types and its paths
  fit \<open>max_text_bytes\<close>, inline images fit \<open>max_binary_bytes\<close>, the items
  fit \<open>max_content_items\<close>, every dropped item is counted exactly once, and the
  invocation response, call id and error flag stay untouched.
\<close>

theorem model_result_is_bounded:
  "let out = apply_tool_result_policy policy output; result = out_model_result out in
     byte_len (res_output result) \<le> max_text_bytes policy \<and>
     length (res_content result) \<le> max_content_items policy \<and>
     list_all (within_bounds policy) (res_content result) \<and>
     length (res_content result) + omitted (out_model_transform out) = length (res_content (out_model_result output)) \<and>
     out_invocation out = out_invocation output \<and> res_call_id result = res_call_id (out_model_result output) \<and>
     res_is_error result = res_is_error (out_model_result output)"
  using policy_on_output[OF refl refl, of policy "output"] by (simp add: Let_def list_all_iff)

text \<open>
  The policy cache serves compiled policies. After any interleaving of lookups and resolutions by
  any number of clients, starting with the empty cache, resolving a handle that was given out for
  a configuration yields what compiling that configuration yields, also when its entry has been
  evicted in the meantime.
\<close>

theorem cache_serves_compiled_policy:
  assumes "memo_run cache_entry_for (resolve eng) empty_cache cache H" and "(config, h) \<in> H"
  shows "snd (resolve eng cache h) = compile_config eng config"
  using assms(1) empty_cache_ok assms(2) by (rule policy_memo.run_value)

lemma cache_serves_compiled_policy_witness:
  "snd (resolve no_regex (fst (cache_entry_for empty_cache ls_config)) 0) = compile_config no_regex ls_config"
proof (rule cache_serves_compiled_policy)
  show "memo_run cache_entry_for (resolve no_regex) empty_cache (fst (cache_entry_for empty_cache ls_config))
      {(ls_config, 0)}"
    by (rule memo_request[OF memo_init]) (simp add: cache_entry_for_def empty_cache_def)
qed simp

text \<open>
  The cache stays small and free of duplicates: in every reachable state at most sixteen entries
  are retained, all for different policies, and every computed result is that of its own policy.
\<close>

theorem cache_stays_bounded:
  assumes "memo_run cache_entry_for (resolve eng) empty_cache cache H"
  shows "length (ca_queue cache) \<le> 16 \<and>
    distinct (map (\<lambda>h. entry_key (ca_cells cache ! h)) (ca_queue cache)) \<and> cache_ok eng cache"
  using policy_memo.run_invariant[OF assms empty_cache_ok] by (simp add: cache_ok_def CACHE_LIMIT_def)

lemma cache_stays_bounded_witness:
  "length (ca_queue (fst (cache_entry_for empty_cache ls_config) :: unit policy_cache)) \<le> 16"
proof -
  have "memo_run cache_entry_for (resolve no_regex) empty_cache (fst (cache_entry_for empty_cache ls_config))
      {(ls_config, 0)}"
    by (rule memo_request[OF memo_init]) (simp add: cache_entry_for_def empty_cache_def)
  from cache_stays_bounded[OF this] show ?thesis by blast
qed

text \<open>
  Ordered policies: a word pattern of the last layer that has any applicable rule for the subject
  bounds the decision from below on every expansion of the subject that its automaton accepts;
  earlier layers cannot relax it.
\<close>

theorem ordered_layers_bound_subject:
  assumes "policy_ok cp" and "cp_ordered cp" and "i < length (cp_layers cp)"
    and "w \<in> set (wrs_rules (cl_words (cp_layers cp ! i)))"
    and "expands (sub_executable subject # sub_arguments subject) vs" and "accepts_words eng w vs"
    and "\<forall>j. i < j \<longrightarrow> j < length (cp_layers cp) \<longrightarrow>
      layer_rules j (cp_layers cp ! j) subject ro (subject_classes eng (cp_layers cp) subject ! j) = []"
  shows "wr_action w \<le> ssd_action (fst (evaluate_subject eng cp subject ro si))"
proof -
  have "\<forall>layer \<in> set (cp_layers cp). layer_ok layer" using assms(1) by (simp add: policy_ok_def)
  from ordered_word_rules_respected[OF this refl assms(3-7)] show ?thesis
    using assms(2) by (simp add: evaluate_subject_def subject_classes_def Let_def)
qed

lemma ordered_layers_bound_subject_witness:
  "\<exists>cp w. w \<in> set (wrs_rules (cl_words (cp_layers cp ! 1))) \<and> wr_action w = Deny \<and>
     wr_action w \<le> ssd_action (fst (evaluate_subject no_regex cp (original_subject push_command) False 0))"
proof -
  obtain cp w where cp: "policy_ok cp" "cp_ordered cp" "length (cp_layers cp) = 2"
      "w \<in> set (wrs_rules (cl_words (cp_layers cp ! 1)))" "wr_action w = Deny"
      "accepts_words no_regex w [str ''git'', str ''push'']"
    using push_policy by blast
  have "wr_action w \<le> ssd_action (fst (evaluate_subject no_regex cp (original_subject push_command) False 0))"
    by (rule ordered_layers_bound_subject[OF cp(1,2) _ cp(4) _ cp(6)])
      (simp_all add: cp(3) original_subject_def push_command_def sample_command_def sw_def)
  with cp(4,5) show ?thesis by blast
qed

text \<open>
  Unresolved restrictions survive. In an ordered policy every possible restriction of every layer,
  from a glob over expanded arguments or from a word pattern that may match, bounds the decision
  from below: no later exception relaxes it.
\<close>

theorem unresolved_restrictions_survive:
  assumes "(p, l) \<in> set (all_possible layers subject classes)"
  shows "rule_action p \<le> ssd_action (evaluate_ordered_subject layers subject ro classes)"
  using assms by (rule ordered_restrictions_kept)

lemma unresolved_restrictions_survive_witness:
  "rule_action ask_rule
    \<le> ssd_action (evaluate_ordered_subject [ask_layer] dynamic_subject False [[] :: unit classified_words])"
  by (rule unresolved_restrictions_survive[where l = "(0, False, 0)"])
    (simp add: all_possible_def layer_possible_def ask_restriction)

text \<open>
  An exact denial is final: when the winning glob of a subject is a denial without wildcards, the
  subject is denied whatever the word patterns say.
\<close>

theorem exact_denial_is_final:
  assumes "base_winner layer ro subject = Some (r, c, l)" and "rule_action r = Deny"
    and "STAR \<notin> set (rule_pattern r)"
  shows "ssd_action (evaluate_base_subject layer subject ro classes) = Deny"
  using base_exact_deny[OF refl assms] .

lemma exact_denial_is_final_witness:
  "ssd_action (evaluate_base_subject deny_layer (original_subject push_command) False [push_allowed]) = Deny"
  by (rule exact_denial_is_final[OF deny_winner]) (simp_all add: str_def STAR_def ch_def)

text \<open>
  A pattern with a literal end can miss values: the matcher takes the leftmost occurrence for its
  last part too, so a denial written \<open>*--force\<close> does not match a command line that
  contains the option twice, although the pattern denotes it.
\<close>

theorem glob_misses_repeated_suffix:
  "glob_spec (str ''*--force'') (str ''push --force x --force'') \<and>
   \<not> glob_matches (str ''*--force'') (str ''push --force x --force'')"
proof -
  have "glob_spec (STAR # str ''--force'') (str ''push --force x '' @ str ''--force'')"
    unfolding glob_spec_star by (intro exI conjI, rule refl) (simp add: str_def STAR_def ch_def)
  then have "glob_spec (str ''*--force'') (str ''push --force x --force'')"
    by (simp add: str_def STAR_def ch_def)
  moreover have "\<not> glob_matches (str ''*--force'') (str ''push --force x --force'')"
    by (simp add: glob_matches_def str_def STAR_def ch_def starts_with_star_def ends_with_star_def)
  ultimately show ?thesis by blast
qed

text \<open>
  Path rules: the rule found for a path matches it and comes first in the documented order
  (specificity, then length, then text of the pattern) among all compiled rules that match.
\<close>

theorem path_rule_is_most_specific:
  assumes "matching_path_rule eng (compile_path_rules eng rules) path = Some r"
  shows "r \<in> set (compile_path_rules eng rules) \<and> glob_is_match eng (path_matcher r) path \<and>
    (\<forall>q \<in> set (compile_path_rules eng rules).
       glob_is_match eng (path_matcher q) path \<longrightarrow> path_rule_key r \<le> path_rule_key q)"
  using assms by (rule matching_path_rule_best)

lemma path_rule_is_most_specific_witness:
  "\<exists>r. r \<in> set (compile_path_rules literal_glob [(str ''a'', Deny), (str ''b'', Allow)]) \<and> path_matcher r = str ''b''"
proof -
  have "\<exists>r. matching_path_rule literal_glob (compile_path_rules literal_glob [(str ''a'', Deny), (str ''b'', Allow)])
      (str ''b'') = Some r"
    by (simp add: matching_path_rule_def compile_path_rules_def literal_glob_def List.map_filter_def path_rule_key_def
        path_rule_specificity_def str_def)
  then obtain r where "matching_path_rule literal_glob (compile_path_rules literal_glob
      [(str ''a'', Deny), (str ''b'', Allow)]) (str ''b'') = Some r" by blast
  from path_rule_is_most_specific[OF this] show ?thesis by (auto simp: literal_glob_def)
qed

text \<open>
  Paths outside the workspace: when a read or write names an external path, the decision is at
  least as severe as the action configured for external directories.
\<close>

theorem external_paths_bound_decision:
  assumes "p \<in> set (candidate_paths request)" and "is_external_path p cwd"
  shows "agent_decision_of (perm_external_directory (cfg_permission config))
    \<le> pe_decision (evaluate_tool_call env config request cwd)"
  using assms by (rule external_path_enforced)

lemma external_paths_bound_decision_witness:
  "agent_decision_of (perm_external_directory (cfg_permission default_agent_config))
    \<le> pe_decision (evaluate_tool_call sample_env default_agent_config (sample_request ''read'' (Read [str ''/etc''])) (str ''/w''))"
  by (rule external_paths_bound_decision[of "str ''/etc''"])
    (simp_all add: candidate_paths_def sample_request_def is_external_path_def absolutize_def path_is_absolute_def
      path_components_def component_of_def normalize_path_def path_join_def buf_starts_with_def buf_components_def
      resolve_path_def Let_def str_def SLASH_def ch_def)

text \<open>
  The default working directory of the permission adapter disables the boundary: with
  \<open>.\<close> as working directory no path is external, not even an absolute one.
\<close>

theorem default_directory_has_no_boundary:
  "\<not> is_external_path p (app_cwd (policy_new config))"
  unfolding policy_new_def
  by (simp, rule empty_boundary) (simp add: absolutize_def normalize_path_def path_join_def path_components_def
      component_of_def path_is_absolute_def str_def SLASH_def ch_def)

text \<open>
  The policy facts survive the way from tool to host: what a tool's preparation declares, encoded
  into the authorization fact of its response, is exactly what the host reads back for that tool,
  under a JSON codec that decodes what it has encoded; the same facts presented for another tool
  are refused.
\<close>

theorem policy_facts_roundtrip:
  assumes "\<And>m j. to_json m = Inr j \<Longrightarrow> from_json j = Inr m" and "prepare_tool_policy to_json name d p = Inr r"
  shows "tool_policy_authorization_metadata_of from_json (pr_authorization r) name = Inr \<lparr>
      meta_requires_permission = prep_requires_permission p, meta_aliases = pid_aliases (prep_identity p),
      meta_compatibility_aliases = pid_compatibility_aliases (prep_identity p),
      meta_capabilities = pid_capabilities (prep_identity p),
      meta_permission_category = pid_permission_category (prep_identity p), meta_operation = prep_operation p\<rparr> \<and>
    (\<forall>other. other \<noteq> name \<longrightarrow> (\<exists>e. tool_policy_authorization_metadata_of from_json (pr_authorization r) other = Inl e))"
  using assms(2)
  by (auto simp: prepare_tool_policy_def tool_policy_authorization_metadata_of_def Let_def map_err_def
      split: if_splits sum.splits dest: assms(1))

lemma policy_facts_roundtrip_witness:
  "\<exists>r. prepare_tool_policy Inr (str ''look'') \<lparr>def_name = str ''look'', def_description = [],
       def_input_schema = read_metadata\<rparr> (preparation_read_only read_metadata) = Inr r \<and>
     (\<exists>m. tool_policy_authorization_metadata_of Inr (pr_authorization r) (str ''look'') = Inr m \<and> meta_operation m = ReadOnly)"
proof -
  obtain r where r: "prepare_tool_policy Inr (str ''look'') \<lparr>def_name = str ''look'', def_description = [],
      def_input_schema = read_metadata\<rparr> (preparation_read_only read_metadata) = Inr r"
    by (simp add: prepare_tool_policy_def Let_def)
  from policy_facts_roundtrip[OF _ r, of Inr] r show ?thesis
    by (auto simp: preparation_read_only_def preparation_new_def)
qed

text \<open>
  Tool enablement looks names up in alphabetical order: an explicit denial of the tool by its own
  name is overridden by an enabled alias that sorts before it.
\<close>

theorem alias_overrides_own_name:
  "tool_enabled (default_agent_config\<lparr>cfg_tools := [(str ''edit'', True), (str ''write'', False)]\<rparr>)
     ((sample_request ''write'' Mutating)\<lparr>req_aliases := [str ''edit'']\<rparr>) = Some True"
  by (simp add: sample_request_def tool_enabled_def tool_aliases_def config_defs bs_from_def bt_get_def str_def)

text \<open>
  A failure after positioned output is retried. A provider that streams text in the version-2
  envelope \<open>Output\<close> and then fails yields the plain provider error, which a planner
  may retry, although the text has been published; the same stream with the legacy
  \<open>TextDelta\<close> yields \<open>ProviderAfterOutput\<close>, whose documentation says
  that retrying would duplicate visible output.
\<close>

theorem positioned_output_is_not_visible:
  "map_option to_result (run_text_turn_in_scope (\<lambda>_. []) quiet_env
      [quiet_poll [POutput () (OutputText (str ''hello'')), PError e]] sample_loop_request)
     = Some (Inl (ProviderReported (perr_code e) (perr_message e) e)) \<and>
   map_option to_result (run_text_turn_in_scope (\<lambda>_. []) quiet_env
      [quiet_poll [PTextDelta (str ''hello''), PError e]] sample_loop_request)
     = Some (Inl (ProviderAfterOutput (ProviderReported (perr_code e) (perr_message e) e)))"
proof -
  have "0 < rq_timeout sample_loop_request" by (simp add: sample_loop_request_def agent_turn_request_new_def)
  from quiet_turn[OF this] show ?thesis
    by (simp add: quiet_defs normalize_or_cleanup_def apply_disposition_def cancel_and_finish_def
        provider_cleanup_succeeded_def terminal_after_visible_output_def visible_output_def)
qed

text \<open>
  A provider turn that completes without reporting usage leaves no trace in the aggregate: after a
  silent round and a round that reports five input tokens, the response says five, although the
  documentation of \<open>AgentTurnResponse::usage\<close> promises a bucket only when every
  completed round reported it.
\<close>

theorem silent_rounds_are_ignored:
  "map_option (\<lambda>u. input_tokens u) (atr_usage (completed_agent_response response elapsed
     [FinishedEvent StopToolCall None 1, FinishedEvent EndTurn (Some small_usage) 2])) = Some (Some 5)"
  by (simp add: completed_agent_response_def agent_response_def aggregate_finished_usage_def finished_usages_def
      small_usage_def saturating_add32_def)

text \<open>
  The scheduling loop of a group terminates: no run of it is infinite, whatever is started,
  returned or cancelled in which order.
\<close>

theorem group_steps_terminate:
  "wf {(s', s). group_step policy concurrency s s'}"
  by (rule group_step_wf)

text \<open>
  The greedy glob matcher against the meaning of \<open>*\<close>. What it accepts is denoted by
  the pattern, and for patterns without wildcard or ending in one it accepts exactly that.
\<close>

theorem glob_matches_meaning:
  "(glob_matches p v \<longrightarrow> glob_spec p v) \<and>
   (ends_with_star p \<or> STAR \<notin> set p \<longrightarrow> (glob_matches p v \<longleftrightarrow> glob_spec p v))"
  using glob_sound glob_complete by blast

lemma glob_matches_meaning_witness:
  "glob_matches (str ''git *'') (str ''git push'') \<longleftrightarrow> glob_spec (str ''git *'') (str ''git push'')"
  using glob_matches_meaning[of "str ''git *''" "str ''git push''"]
  by (simp add: ends_with_star_def str_def STAR_def ch_def)

text \<open>
  The index of word rules by executable is invisible on commands within the size limits: the
  matching rule and the possible restrictions found through it are those found by classifying
  every rule of the compiled set.
\<close>

theorem word_index_invisible:
  assumes "compile_words eng rules = Inr ws" and "\<not> oversized (exe # args)"
  shows "matching_words (classified eng ws exe args) = matching_words (classified_scan eng ws exe args) \<and>
    possible_restriction (classified eng ws exe args) act = possible_restriction (classified_scan eng ws exe args) act"
  using index_transparent[OF compile_words_ok(1)[OF assms(1)] assms(2)] by blast

lemma word_index_invisible_witness:
  "\<exists>ws. compile_words no_regex [(str ''git push'', Deny)] = Inr ws \<and>
     matching_words (classified no_regex ws (sw ''ls'') []) = matching_words (classified_scan no_regex ws (sw ''ls'') [])"
proof -
  obtain ws where ws: "compile_words no_regex [(str ''git push'', Deny)] = Inr ws"
    using sample_compiles by blast
  have "\<not> oversized [sw ''ls'']"
    by (simp add: oversized_def word_bytes_def sw_def str_def utf8_width_def MAX_WORDS_def MAX_WORD_BYTES_def)
  from word_index_invisible[OF ws this] ws show ?thesis by blast
qed

text \<open>
  A transform reads what it declares: two sets of inputs that agree on the sources its expression
  references give the same result, errors included.
\<close>

theorem transforms_read_their_sources:
  assumes "named_inputs inputs [] = Inr named" and "named_inputs inputs' [] = Inr named'"
    and "\<And>s. s \<in> referenced_sources t \<Longrightarrow> map_of inputs s = map_of inputs' s"
  shows "evaluate_transform env t inputs = evaluate_transform env t inputs'"
  by (rule evaluate_transform_frame[OF assms])

lemma transforms_read_their_sources_witness:
  "evaluate_transform sample_values sample_transform [(str ''current'', JObject [(str ''count'', JNumber 2)]), (str ''state'', JNull)]
     = Inr (JNumber 3)"
proof -
  let ?more = "[(str ''current'', JObject [(str ''count'', JNumber (2 :: int))]), (str ''state'', JNull)]"
  let ?less = "[(str ''current'', JObject [(str ''count'', JNumber (2 :: int))])]"
  have "named_inputs ?more [] = Inr ?more" "named_inputs ?less [] = Inr ?less" by code_simp+
  from transforms_read_their_sources[OF this, of sample_transform sample_values] sample_transform_counts
  show ?thesis by (simp add: referenced_sources_def sample_transform_def)
qed

text \<open>
  The indexes of a validated definition count what they say: the dependency count of a node is the
  number of plan edges that lead to it and its outgoing targets are those of its plan edges,
  sorted and without repetition. A plan edge is a direct edge that does not leave a controller,
  gate or plugin block.
\<close>

theorem plan_counts_dependencies:
  assumes "definition_ok d" and "validate_compiled_definition env d = Some (Inr ())" and "node_id \<in> set (map fst (wd_nodes d))"
  shows "\<exists>plan. compile_plan d = Some plan \<and>
    dependency_count plan node_id = Some (length (filter (\<lambda>e. plan_edge d e \<and> ed_to e = node_id) (wd_edges d))) \<and>
    plan_outgoing plan node_id = Some (bs_from (map ed_to (filter (\<lambda>e. plan_edge d e \<and> ed_from e = node_id) (wd_edges d))))"
  using compile_plan_correct[OF assms(1,2)] assms(3) by blast

lemma plan_counts_dependencies_witness:
  "\<exists>plan. compile_plan sample_definition = Some plan \<and> dependency_count plan (str ''b'') = Some 1"
  using plan_counts_dependencies[OF sample_definition_ok sample_definition_valid, of "str ''b''"]
  by (auto simp: sample_definition_def sample_edge_def sample_node_def step_node_def plan_edge_def bt_get_def)

text \<open>
  Pointer components: decoding the escapes of an encoded component gives the component back, and a
  component without slashes survives decoding and encoding exactly when each of its tildes starts
  an escape - the syntax check accepts precisely those.
\<close>

theorem pointer_components_roundtrip:
  "decode_pointer_component (encode_pointer_component s) = s \<and>
   (slash \<in> set s \<or> (encode_pointer_component (decode_pointer_component s) = s \<longleftrightarrow> well_escaped s))"
  using decode_of_encode[of s] reencoded_iff[of s] by blast

text \<open>
  An approved batch can complete: once a batch has been authorized, and the configured concurrency
  is not zero, there is a run in which it returns with every approved call invoked.
\<close>

theorem approved_batch_can_complete:
  fixes t :: "('json, 'data) terminal_results"
  assumes "opt_max_concurrency (be_options env) \<noteq> Some 0"
    and "begin_batch env calls rounds = (rounds', Execute approved t)"
  shows "\<exists>(out :: ('json, 'data) tool_batch_execution_output) invoked.
    batch_run env calls rounds rounds' (Inr out) invoked \<and> set invoked = set approved"
  using assms by (intro batch_can_complete) (simp_all add: options_ok_def)

lemma approved_batch_can_complete_witness:
  "\<exists>(out :: (unit, unit) tool_batch_execution_output) invoked.
    batch_run plan_batch sample_calls (round_state_new 3) sample_rounds (Inr out) invoked \<and> set invoked = {look_call}"
proof -
  have "begin_batch plan_batch sample_calls (round_state_new 3) = (sample_rounds,
      Execute [look_call] ([Suc 0 \<mapsto> Inl (ToolNotFound (str ''leap''))] :: (unit, unit) terminal_results))"
    unfolding plan_batch_def by (subst sample_begins[where d = AuthAllow]) (simp_all add: look_allowed)
  moreover have "opt_max_concurrency (be_options plan_batch) \<noteq> Some 0"
    by (simp add: plan_batch_def sample_batch_def default_execution_options_def)
  ultimately show ?thesis using approved_batch_can_complete by fastforce
qed

end
